(* ===== verification/DI_Prelude.thy ===== *)
theory DI_Prelude
  imports Main "HOL-Library.Word" "HOL-Library.Multiset"
begin

text \<open>
  Shared vocabulary of the development: bytes and C strings, the character classes of
  \<^verbatim>\<open><ctype.h>\<close> in the C locale, the scanning functions of \<^verbatim>\<open><string.h>\<close> the sources
  call, and generic lemmas on lists that several components use.

  A C string is a \<^typ>\<open>string\<close> without its terminating NUL. A buffer with an explicit size
  is the list of its bytes, so the size is the length. A pointer into a buffer is the
  suffix that starts there.
\<close>

named_theorems c_char_defs \<open>definitions of the character classes\<close>
named_theorems chain_simps \<open>facts on hash chains and buckets\<close>
named_theorems frame_simps \<open>what an operation leaves unchanged\<close>

type_synonym u32 = "32 word"

abbreviation NUL :: char where
  "NUL \<equiv> CHR 0x00"

abbreviation NL :: char where
  "NL \<equiv> CHR 0x0A"

abbreviation TAB :: char where
  "TAB \<equiv> CHR 0x09"

abbreviation SP :: char where
  "SP \<equiv> CHR '' ''"

text \<open>
  \<open>char\<close> is signed on the platforms the installer is built for; \<open>schar\<close> is the value
  of a byte after the usual promotion to \<open>int\<close>.
\<close>

definition schar :: "char \<Rightarrow> int" where
  [c_char_defs]: "schar c = (let n = (of_char c :: int) in if n < 128 then n else n - 256)"

definition c_isdigit :: "char \<Rightarrow> bool" where
  [c_char_defs]: "c_isdigit c = (48 \<le> (of_char c :: nat) \<and> (of_char c :: nat) \<le> 57)"

definition c_isupper :: "char \<Rightarrow> bool" where
  [c_char_defs]: "c_isupper c = (65 \<le> (of_char c :: nat) \<and> (of_char c :: nat) \<le> 90)"

definition c_isalpha :: "char \<Rightarrow> bool" where
  [c_char_defs]: "c_isalpha c =
     (c_isupper c \<or> (97 \<le> (of_char c :: nat) \<and> (of_char c :: nat) \<le> 122))"

definition c_isspace :: "char \<Rightarrow> bool" where
  [c_char_defs]: "c_isspace c =
     ((of_char c :: nat) = 32 \<or> (9 \<le> (of_char c :: nat) \<and> (of_char c :: nat) \<le> 13))"

definition c_tolower :: "char \<Rightarrow> char" where
  [c_char_defs]: "c_tolower c = (if c_isupper c then char_of ((of_char c :: nat) + 32) else c)"

text \<open>The byte a pointer points to; the suffix \<open>[]\<close> points to the terminating NUL.\<close>

definition peek :: "string \<Rightarrow> char" where
  "peek s = (case s of [] \<Rightarrow> NUL | c # _ \<Rightarrow> c)"

text \<open>The C string that starts a buffer: everything before the first NUL.\<close>

definition cstr :: "string \<Rightarrow> string" where
  "cstr s = takeWhile (\<lambda>c. c \<noteq> NUL) s"

definition strcspn :: "string \<Rightarrow> string \<Rightarrow> nat" where
  "strcspn s reject = length (takeWhile (\<lambda>c. c \<noteq> NUL \<and> c \<notin> set reject) s)"

definition strspn :: "string \<Rightarrow> string \<Rightarrow> nat" where
  "strspn s accept = length (takeWhile (\<lambda>c. c \<noteq> NUL \<and> c \<in> set accept) s)"

text \<open>\<open>memchr\<close>: the offset of the first occurrence of a byte.\<close>

fun memchr :: "string \<Rightarrow> char \<Rightarrow> nat option" where
  "memchr [] c = None"
| "memchr (x # s) c = (if x = c then Some 0 else map_option Suc (memchr s c))"

text \<open>
  \<open>strncmp (a, b, n) = 0\<close> and \<open>strncasecmp (a, b, n) = 0\<close>, the only way the sources use
  the results of these calls: both stop at a common NUL.
\<close>

fun strncmp_eq :: "nat \<Rightarrow> string \<Rightarrow> string \<Rightarrow> bool" where
  "strncmp_eq 0 a b = True"
| "strncmp_eq (Suc n) a b =
     (peek a = peek b \<and> (peek a = NUL \<or> strncmp_eq n (tl a) (tl b)))"

fun strncasecmp_eq :: "nat \<Rightarrow> string \<Rightarrow> string \<Rightarrow> bool" where
  "strncasecmp_eq 0 a b = True"
| "strncasecmp_eq (Suc n) a b =
     (c_tolower (peek a) = c_tolower (peek b) \<and>
      (peek a = NUL \<or> strncasecmp_eq n (tl a) (tl b)))"

definition strcasecmp_eq :: "string \<Rightarrow> string \<Rightarrow> bool" where
  "strcasecmp_eq a b = (map c_tolower a = map c_tolower b)"

definition nul_free :: "string \<Rightarrow> bool" where
  "nul_free s = (NUL \<notin> set s)"

definition digit_val :: "char \<Rightarrow> nat" where
  "digit_val c = of_char c - 48"

text \<open>The number a run of decimal digits denotes.\<close>

fun dval :: "string \<Rightarrow> nat" where
  "dval [] = 0"
| "dval (d # ds) = digit_val d * 10 ^ length ds + dval ds"

text \<open>
  \<open>strtoul (s, \&end, 10)\<close> with a 64 bit \<open>unsigned long\<close>: leading white space, a sign, digits;
  a number out of range gives \<open>ULONG_MAX\<close>, a minus sign negates. The second component is
  where \<open>end\<close> points; without digits it is the start.
\<close>

definition strtoul :: "string \<Rightarrow> 64 word \<times> string" where
  "strtoul s =
     (let t = dropWhile c_isspace s;
          neg = (peek t = CHR ''-'');
          u = (if peek t = CHR ''-'' \<or> peek t = CHR ''+'' then tl t else t);
          ds = takeWhile c_isdigit u
      in if ds = [] then (0, s)
         else if dval ds \<ge> 2 ^ 64 then (- 1, drop (length ds) u)
         else (if neg then - of_nat (dval ds) else of_nat (dval ds), drop (length ds) u))"

text \<open>
  \<open>strtol (s, NULL, 10)\<close> with a 64 bit \<open>long\<close>, saturating, and the conversion of a \<open>long\<close>
  to a 32 bit \<open>int\<close>.
\<close>

definition strtol :: "string \<Rightarrow> int" where
  "strtol s =
     (let t = dropWhile c_isspace s;
          u = (if peek t = CHR ''-'' \<or> peek t = CHR ''+'' then tl t else t);
          n = int (dval (takeWhile c_isdigit u))
      in if peek t = CHR ''-'' then max (- (2 ^ 63)) (- n) else min (2 ^ 63 - 1) n)"

definition to_int32 :: "int \<Rightarrow> int" where
  "to_int32 z = (z + 2 ^ 31) mod 2 ^ 32 - 2 ^ 31"

definition atoi :: "string \<Rightarrow> int" where
  "atoi s = to_int32 (strtol s)"

text \<open>The decimal notation \<open>%d\<close> of an integer.\<close>

fun dec_nat :: "nat \<Rightarrow> string" where
  "dec_nat n = (if n < 10 then [char_of (48 + n)] else dec_nat (n div 10) @ [char_of (48 + n mod 10)])"

declare dec_nat.simps [simp del]

definition dec_int :: "int \<Rightarrow> string" where
  "dec_int z = (if z < 0 then CHR ''-'' # dec_nat (nat (- z)) else dec_nat (nat z))"

text \<open>\<open>strrchr\<close>: the offset of the last occurrence of a byte.\<close>

fun strrchr :: "string \<Rightarrow> char \<Rightarrow> nat option" where
  "strrchr [] c = None"
| "strrchr (x # s) c =
     (case strrchr s c of Some n \<Rightarrow> Some (Suc n) | None \<Rightarrow> if x = c then Some 0 else None)"

subsection \<open>Characters\<close>

text \<open>Evaluation of \<open>c_tolower\<close> on literal characters by \<open>simp\<close>.\<close>

lemmas c_tolower_eval = c_tolower_def c_isupper_def char_of_def bit_Suc_0_iff

lemma peek_simps [simp]: "peek [] = NUL" "peek (c # s) = c"
  by (simp_all add: peek_def)

lemma of_char_lt_256: "(of_char c :: nat) < 256"
  by (simp add: of_char_eq_iff)

lemma schar_nat:
  "schar c = (if (of_char c :: nat) < 128 then int (of_char c) else int (of_char c) - 256)"
proof -
  have "(of_char c :: int) = int (of_char c)" by (metis of_nat_of_char)
  then show ?thesis by (simp add: schar_def Let_def)
qed

lemma of_char_NUL [simp]: "(of_char NUL :: nat) = 0"
  by simp

lemma c_tolower_NUL_iff [simp]: "c_tolower c = NUL \<longleftrightarrow> c = NUL"
proof (cases "c_isupper c")
  case True
  then have "(of_char c :: nat) + 32 < 256" and "(of_char c :: nat) \<noteq> 0"
    by (simp_all add: c_isupper_def)
  then have "(of_char (c_tolower c) :: nat) = of_char c + 32"
    using True by (simp add: c_tolower_def of_char_of)
  then have "c_tolower c \<noteq> NUL" by (metis add_is_0 of_char_NUL zero_neq_numeral)
  moreover have "c \<noteq> NUL" using \<open>(of_char c :: nat) \<noteq> 0\<close> by auto
  ultimately show ?thesis by simp
next
  case False
  then show ?thesis by (simp add: c_tolower_def)
qed

lemma c_tolower_NL_iff: "c_tolower c = NL \<longleftrightarrow> c = NL"
proof (cases "c_isupper c")
  case True
  then have "(of_char c :: nat) + 32 < 256" "65 \<le> (of_char c :: nat)" by (simp_all add: c_isupper_def)
  then have "97 \<le> (of_char (c_tolower c) :: nat)" using True by (simp add: c_tolower_def of_char_of)
  then have "c_tolower c \<noteq> NL" by auto
  moreover have "c \<noteq> NL" using \<open>65 \<le> (of_char c :: nat)\<close> by auto
  ultimately show ?thesis by simp
next
  case False
  then show ?thesis by (simp add: c_tolower_def)
qed

lemma c_tolower_NUL [simp]: "c_tolower NUL = NUL"
  by simp

subsection \<open>C strings\<close>

lemma nul_free_simps [simp]:
  "nul_free []"
  "nul_free (c # s) \<longleftrightarrow> c \<noteq> NUL \<and> nul_free s"
  "nul_free (s @ t) \<longleftrightarrow> nul_free s \<and> nul_free t"
  by (auto simp: nul_free_def)

lemma nul_free_take [intro]: "nul_free s \<Longrightarrow> nul_free (take n s)"
  by (auto simp: nul_free_def dest: in_set_takeD)

lemma nul_free_drop [intro]: "nul_free s \<Longrightarrow> nul_free (drop n s)"
  by (auto simp: nul_free_def dest: in_set_dropD)

lemma cstr_nul_free [simp]: "nul_free (cstr s)"
  by (auto simp: nul_free_def cstr_def dest: set_takeWhileD)

lemma cstr_id [simp]: "nul_free s \<Longrightarrow> cstr s = s"
  by (induction s) (auto simp: cstr_def)

lemma strncasecmp_eq_iff:
  "nul_free a \<Longrightarrow> nul_free b \<Longrightarrow> length a = length b \<Longrightarrow>
   strncasecmp_eq (length a) a b \<longleftrightarrow> map c_tolower a = map c_tolower b"
proof (induction a arbitrary: b)
  case Nil
  then show ?case by simp
next
  case (Cons x a)
  from Cons.prems obtain y b' where "b = y # b'" by (cases b) auto
  with Cons show ?case by auto
qed

lemma strncmp_eq_take:
  "nul_free a \<Longrightarrow> nul_free b \<Longrightarrow> strncmp_eq n a b \<longleftrightarrow> take n a = take n b"
proof (induction n a b rule: strncmp_eq.induct)
  case (2 n a b)
  then show ?case by (cases a; cases b) auto
qed simp

subsection \<open>Scanning\<close>

lemma memchr_None_iff: "memchr s c = None \<longleftrightarrow> c \<notin> set s"
  by (induction s) auto

lemma memchr_split:
  "memchr s c = Some n \<Longrightarrow>
   s = take n s @ c # drop (Suc n) s \<and> c \<notin> set (take n s) \<and> n < length s"
proof (induction s arbitrary: n)
  case Nil
  then show ?case by simp
next
  case (Cons x s)
  show ?case
  proof (cases "x = c")
    case True
    with Cons.prems show ?thesis by simp
  next
    case False
    with Cons.prems obtain m where "memchr s c = Some m" "n = Suc m" by auto
    with Cons.IH [of m] False show ?thesis by simp
  qed
qed

lemma memchr_append_first [simp]:
  "c \<notin> set a \<Longrightarrow> memchr (a @ c # b) c = Some (length a)"
  by (induction a) auto

lemma memchr_lt: "memchr s c = Some n \<Longrightarrow> n < length s"
  by (simp add: memchr_split)

lemma strcspn_le: "strcspn s r \<le> length s"
  by (simp add: strcspn_def length_takeWhile_le)

lemma not_digit_NUL: "\<not> c_isdigit NUL"
  by (simp add: c_isdigit_def)

lemma dval_bound: "\<forall>c \<in> set ds. c_isdigit c \<Longrightarrow> dval ds < 10 ^ length ds"
proof (induction ds)
  case Nil
  then show ?case by simp
next
  case (Cons d ds)
  then have "digit_val d \<le> 9" by (auto simp: digit_val_def c_isdigit_def)
  then have "digit_val d * 10 ^ length ds \<le> 9 * 10 ^ length ds" by (rule mult_right_mono) simp
  moreover have "dval ds < 10 ^ length ds" using Cons by simp
  ultimately show ?case unfolding dval.simps length_Cons power_Suc by linarith
qed

lemma strrchr_None_iff: "strrchr s c = None \<longleftrightarrow> c \<notin> set s"
  by (induction s) (auto split: option.splits)

lemma strrchr_append_last [simp]:
  "c \<notin> set b \<Longrightarrow> strrchr (a @ c # b) c = Some (length a)"
proof (induction a)
  case Nil
  then have "strrchr b c = None" by (simp add: strrchr_None_iff)
  then show ?case by simp
qed simp

lemma takeWhile_append_stop: "\<forall>x \<in> set a. P x \<Longrightarrow> \<not> P y \<Longrightarrow> takeWhile P (a @ y # b) = a"
  by (induction a) auto

lemma strtoul_digits:
  assumes "\<forall>c \<in> set ds. c_isdigit c" "ds \<noteq> []" "dval ds < 2 ^ 64" "\<not> c_isdigit x"
  shows "strtoul (ds @ x # s) = (of_nat (dval ds), x # s)"
proof -
  obtain d ds' where ds: "ds = d # ds'" using assms(2) by (cases ds) auto
  have "\<not> c_isspace d" "d \<noteq> CHR ''-''" "d \<noteq> CHR ''+''"
    using assms(1) ds by (auto simp: c_isspace_def c_isdigit_def)
  then have "dropWhile c_isspace (ds @ x # s) = ds @ x # s" "peek (ds @ x # s) = d" using ds by auto
  with assms ds \<open>d \<noteq> CHR ''-''\<close> \<open>d \<noteq> CHR ''+''\<close> show ?thesis
    by (simp add: strtoul_def Let_def takeWhile_append_stop)
qed

lemma digit_char: "n < 10 \<Longrightarrow> c_isdigit (char_of (48 + n)) \<and> digit_val (char_of (48 + n)) = n"
  by (simp add: c_isdigit_def digit_val_def)

lemma dval_snoc: "dval (ds @ [d]) = 10 * dval ds + digit_val d"
  by (induction ds) (auto simp: algebra_simps)

lemma dec_nat_digits: "(\<forall>c \<in> set (dec_nat n). c_isdigit c) \<and> dval (dec_nat n) = n \<and> dec_nat n \<noteq> []"
proof (induction n rule: dec_nat.induct)
  case (1 n)
  show ?case
  proof (cases "n < 10")
    case True
    then show ?thesis using digit_char [of n] by (simp add: dec_nat.simps)
  next
    case False
    with 1 digit_char [of "n mod 10"] show ?thesis by (auto simp: dec_nat.simps [of n] dval_snoc)
  qed
qed

lemma dec_nat_first: "c_isdigit (peek (dec_nat n @ r))"
  using dec_nat_digits [of n] by (cases "dec_nat n") auto

lemma strtol_dec_int:
  assumes "\<bar>z\<bar> < 2 ^ 63" "\<not> c_isdigit c"
  shows "strtol (dec_int z @ c # r) = z"
proof -
  have digits: "takeWhile c_isdigit (dec_nat n @ c # r) = dec_nat n" "dval (dec_nat n) = n" for n
    using dec_nat_digits [of n] assms(2) by (simp_all add: takeWhile_append_stop)
  have first: "\<not> c_isspace (peek (dec_nat n @ c # r))" "peek (dec_nat n @ c # r) \<noteq> CHR ''-''"
    "peek (dec_nat n @ c # r) \<noteq> CHR ''+''" for n
    using dec_nat_first [of n "c # r"] by (auto simp: c_isdigit_def c_isspace_def)
  have skip: "dropWhile c_isspace (dec_nat n @ c # r) = dec_nat n @ c # r" for n
    using first(1) [of n] by (cases "dec_nat n @ c # r") auto
  have "\<not> c_isspace (CHR ''-'')" by (simp add: c_isspace_def)
  then show ?thesis
    using assms(1) digits skip first by (cases "z < 0") (auto simp: strtol_def dec_int_def Let_def)
qed

lemma to_int32_id: "- (2 ^ 31) \<le> z \<Longrightarrow> z < 2 ^ 31 \<Longrightarrow> to_int32 z = z"
  by (simp add: to_int32_def)

subsection \<open>Lists\<close>

lemma find_Some_set:
  "find P xs = Some x \<Longrightarrow> x \<in> set xs \<and> P x"
  by (auto simp: find_Some_iff)

lemma find_append:
  "find P (xs @ ys) = (case find P xs of None \<Rightarrow> find P ys | Some x \<Rightarrow> Some x)"
  by (induction xs) auto

lemma concat_list_update_mset:
  "i < length xss \<Longrightarrow>
   mset (concat (xss[i := ys])) + mset (xss ! i) = mset (concat xss) + mset ys"
proof (induction xss arbitrary: i)
  case Nil
  then show ?case by simp
next
  case (Cons x xss)
  then show ?case by (cases i) (auto simp: ac_simps)
qed

lemma set_concat_nth: "x \<in> set (concat xss) \<longleftrightarrow> (\<exists>i < length xss. x \<in> set (xss ! i))"
  unfolding set_concat by (simp add: set_conv_nth [of xss]) blast

lemma find_takeWhile:
  "find P xs = (let i = length (takeWhile (\<lambda>x. \<not> P x) xs)
     in if i < length xs then Some (xs ! i) else None)"
  by (induction xs) (auto simp: Let_def)

lemma concat_update_split:
  assumes "b < length xss" and "xss ! b = pre @ mid @ post"
  shows "concat xss = (concat (take b xss) @ pre) @ mid @ (post @ concat (drop (Suc b) xss))"
    and "concat (xss[b := pre @ mid' @ post]) =
      (concat (take b xss) @ pre) @ mid' @ (post @ concat (drop (Suc b) xss))"
proof -
  have "xss = take b xss @ (pre @ mid @ post) # drop (Suc b) xss"
    using assms by (metis id_take_nth_drop)
  then have "concat xss = concat (take b xss @ (pre @ mid @ post) # drop (Suc b) xss)" by simp
  then show "concat xss = (concat (take b xss) @ pre) @ mid @ (post @ concat (drop (Suc b) xss))"
    by simp
  show "concat (xss[b := pre @ mid' @ post]) =
      (concat (take b xss) @ pre) @ mid' @ (post @ concat (drop (Suc b) xss))"
    using assms(1) by (simp add: upd_conv_take_nth_drop)
qed

subsection \<open>Comparison functions\<close>

text \<open>
  The contract of a \<open>di_compare_func\<close>: the sign is a total preorder, zero is its equivalence.
\<close>

locale compare_func =
  fixes cmp :: "'k \<Rightarrow> 'k \<Rightarrow> int"
  assumes cmp_sgn: "sgn (cmp a b) = - sgn (cmp b a)"
    and cmp_trans: "cmp a b \<le> 0 \<Longrightarrow> cmp b c \<le> 0 \<Longrightarrow> cmp a c \<le> 0"
begin

lemma cmp_refl [simp]: "cmp a a = 0"
  using cmp_sgn [of a a] by (simp add: sgn_if split: if_splits)

lemma cmp_flip: "cmp a b < 0 \<longleftrightarrow> 0 < cmp b a" "cmp a b = 0 \<longleftrightarrow> cmp b a = 0"
  using cmp_sgn [of a b] by (auto simp: sgn_if split: if_splits)

lemma cmp_eq_trans: "cmp a b = 0 \<Longrightarrow> cmp b c = 0 \<Longrightarrow> cmp a c = 0"
  using cmp_trans [of a b c] cmp_trans [of c b a] cmp_flip by (metis linorder_neqE_linordered_idom
      linorder_not_le order_refl)

lemma cmp_less_trans:
  "cmp a b < 0 \<Longrightarrow> cmp b c \<le> 0 \<Longrightarrow> cmp a c < 0"
  "cmp a b \<le> 0 \<Longrightarrow> cmp b c < 0 \<Longrightarrow> cmp a c < 0"
  using cmp_trans [of a b c] cmp_trans [of c a b] cmp_trans [of b c a] cmp_flip
  by (metis linorder_not_le order_less_imp_le)+

end

section \<open>Runs\<close>

text \<open>
  A run of the program may hang, end at a failed assertion or a bad access, or return. Where
  the model takes fuel, running out of it counts as hanging.
\<close>

datatype 'a run = Hangs | Died | Returns 'a

fun run_bind :: "'a run \<Rightarrow> ('a \<Rightarrow> 'b run) \<Rightarrow> 'b run" where
  "run_bind Hangs f = Hangs"
| "run_bind Died f = Died"
| "run_bind (Returns x) f = f x"

definition or_die :: "'a option \<Rightarrow> 'a run" where
  "or_die x = (case x of None \<Rightarrow> Died | Some y \<Rightarrow> Returns y)"

definition or_hang :: "'a option \<Rightarrow> 'a run" where
  "or_hang x = (case x of None \<Rightarrow> Hangs | Some y \<Rightarrow> Returns y)"

lemma run_bind_Returns: "run_bind r f = Returns y \<longleftrightarrow> (\<exists>x. r = Returns x \<and> f x = Returns y)"
  by (cases r) auto

lemma run_bind_Hangs: "run_bind r f = Hangs \<longleftrightarrow> r = Hangs \<or> (\<exists>x. r = Returns x \<and> f x = Hangs)"
  by (cases r) auto

lemma run_bind_Died: "run_bind r f = Died \<longleftrightarrow> r = Died \<or> (\<exists>x. r = Returns x \<and> f x = Died)"
  by (cases r) auto

lemma or_run_simps [simp]:
  "or_die (Some x) = Returns x" "or_die None = Died" "or_hang (Some x) = Returns x" "or_hang None = Hangs"
  by (simp_all add: or_die_def or_hang_def)

end
