(* ===== verification/DI_Tree.thy ===== *)
theory DI_Tree
  imports DI_Prelude
begin

text \<open>
  \<^verbatim>\<open>libdebian-installer/src/tree.c\<close>: the height-balanced search tree with a comparison
  function. A node pointer is \<open>NullNode\<close> or a \<open>Node\<close> with its fields in source order.
  The rotations dereference children without a test; they return \<open>None\<close> where the C code
  would dereference a NULL pointer.

  The comparison function is the interface \<open>compare_func\<close> of the prelude; a component
  that provides one interprets it.
\<close>

subsection \<open>Nodes and trees\<close>

datatype ('k, 'v) di_tree_node =
    NullNode
  | Node (node_key: 'k) (node_value: 'v) (node_left: "('k, 'v) di_tree_node")
      (node_right: "('k, 'v) di_tree_node") (node_balance: int) (node_height: int)

record ('k, 'v) di_tree =
  tree_nnodes :: nat
  tree_root :: "('k, 'v) di_tree_node"
  key_compare_func :: "'k \<Rightarrow> 'k \<Rightarrow> int"
  tree_key_destroy_func :: bool
  tree_value_destroy_func :: bool

definition di_tree_new_full :: "('k \<Rightarrow> 'k \<Rightarrow> int) \<Rightarrow> bool \<Rightarrow> bool \<Rightarrow> ('k, 'v) di_tree" where
  "di_tree_new_full cmp kd vd =
     \<lparr>tree_nnodes = 0, tree_root = NullNode, key_compare_func = cmp,
      tree_key_destroy_func = kd, tree_value_destroy_func = vd\<rparr>"

definition di_tree_new :: "('k \<Rightarrow> 'k \<Rightarrow> int) \<Rightarrow> ('k, 'v) di_tree" where
  "di_tree_new cmp = di_tree_new_full cmp False False"

text \<open>What the destroy functions are called on, in call order (children first).\<close>

fun di_tree_node_destroy :: "bool \<Rightarrow> bool \<Rightarrow> ('k, 'v) di_tree_node \<Rightarrow> ('k + 'v) list" where
  "di_tree_node_destroy kd vd NullNode = []"
| "di_tree_node_destroy kd vd (Node k v l r b h) =
     di_tree_node_destroy kd vd l @ di_tree_node_destroy kd vd r @
     (if kd then [Inl k] else []) @ (if vd then [Inr v] else [])"

definition di_tree_destroy :: "('k, 'v) di_tree \<Rightarrow> ('k + 'v) list" where
  "di_tree_destroy t =
     di_tree_node_destroy (tree_key_destroy_func t) (tree_value_destroy_func t) (tree_root t)"

definition di_tree_node_new :: "'k \<Rightarrow> 'v \<Rightarrow> ('k, 'v) di_tree_node" where
  "di_tree_node_new key value = Node key value NullNode NullNode 0 1"

text \<open>The height a parent reads from a child link.\<close>

fun child_height :: "('k, 'v) di_tree_node \<Rightarrow> int" where
  "child_height NullNode = 0"
| "child_height (Node k v l r b h) = h"

fun di_tree_node_calculate :: "('k, 'v) di_tree_node \<Rightarrow> ('k, 'v) di_tree_node" where
  "di_tree_node_calculate NullNode = NullNode"
| "di_tree_node_calculate (Node k v l r b h) =
     (let left_height = child_height l; right_height = child_height r
      in Node k v l r (right_height - left_height)
           ((if left_height > right_height then left_height else right_height) + 1))"

fun di_tree_node_rotate_left :: "('k, 'v) di_tree_node \<Rightarrow> ('k, 'v) di_tree_node option" where
  "di_tree_node_rotate_left (Node uk uv ul (Node vk vv b vr vb vh) ub uh) =
     (let u = di_tree_node_calculate (Node uk uv ul b ub uh)
      in Some (di_tree_node_calculate (Node vk vv u vr vb vh)))"
| "di_tree_node_rotate_left _ = None"

fun di_tree_node_rotate_right :: "('k, 'v) di_tree_node \<Rightarrow> ('k, 'v) di_tree_node option" where
  "di_tree_node_rotate_right (Node uk uv (Node vk vv vl b vb vh) ur ub uh) =
     (let u = di_tree_node_calculate (Node uk uv b ur ub uh)
      in Some (di_tree_node_calculate (Node vk vv vl u vb vh)))"
| "di_tree_node_rotate_right _ = None"

fun di_tree_node_rotate_left_double :: "('k, 'v) di_tree_node \<Rightarrow> ('k, 'v) di_tree_node option" where
  "di_tree_node_rotate_left_double
     (Node uk uv ul (Node vk vv (Node zk zv b c zb zh) vr vb vh) ub uh) =
     (let u = di_tree_node_calculate (Node uk uv ul b ub uh);
          v = di_tree_node_calculate (Node vk vv c vr vb vh)
      in Some (di_tree_node_calculate (Node zk zv u v zb zh)))"
| "di_tree_node_rotate_left_double _ = None"

fun di_tree_node_rotate_right_double :: "('k, 'v) di_tree_node \<Rightarrow> ('k, 'v) di_tree_node option" where
  "di_tree_node_rotate_right_double
     (Node uk uv (Node vk vv vl (Node zk zv c b zb zh) vb vh) ur ub uh) =
     (let u = di_tree_node_calculate (Node uk uv b ur ub uh);
          v = di_tree_node_calculate (Node vk vv vl c vb vh)
      in Some (di_tree_node_calculate (Node zk zv v u zb zh)))"
| "di_tree_node_rotate_right_double _ = None"

text \<open>
  The switch of \<open>di_tree_node_rotate\<close>. A left child with another balance falls through to
  \<open>return node\<close>; every other combination reaches the \<^verbatim>\<open>Internal error\<close> message and also
  returns the node. \<open>None\<close> where the child of a switch is NULL.
\<close>

definition di_tree_node_rotate :: "('k, 'v) di_tree_node \<Rightarrow> ('k, 'v) di_tree_node option" where
  "di_tree_node_rotate n =
     (let node = di_tree_node_calculate n in
      case node of NullNode \<Rightarrow> None
      | Node k v l r balance h \<Rightarrow>
          if balance = -2 then
            (case l of NullNode \<Rightarrow> None
             | Node _ _ _ _ lb _ \<Rightarrow>
                 if lb = -1 \<or> lb = 0 then di_tree_node_rotate_right node
                 else if lb = 1 then di_tree_node_rotate_right_double node
                 else Some node)
          else if balance = -1 \<or> balance = 0 \<or> balance = 1 then Some node
          else if balance = 2 then
            (case r of NullNode \<Rightarrow> None
             | Node _ _ _ _ rb _ \<Rightarrow>
                 if rb = -1 then di_tree_node_rotate_left_double node
                 else if rb = 0 \<or> rb = 1 then di_tree_node_rotate_left node
                 else Some node)
          else Some node)"

text \<open>The result carries whether \<open>nnodes\<close> was incremented.\<close>

fun di_tree_node_insert ::
  "('k \<Rightarrow> 'k \<Rightarrow> int) \<Rightarrow> ('k, 'v) di_tree_node \<Rightarrow> 'k \<Rightarrow> 'v \<Rightarrow> (('k, 'v) di_tree_node \<times> bool) option" where
  "di_tree_node_insert cmp NullNode key value = None"
| "di_tree_node_insert cmp (Node k v l r b h) key value =
     (let c = cmp key k in
      case (if c = 0 then Some (Node k v l r b h, False)
            else if c < 0 then
              (if l \<noteq> NullNode
               then map_option (\<lambda>(l', added). (Node k v l' r b h, added))
                      (di_tree_node_insert cmp l key value)
               else Some (Node k v (di_tree_node_new key value) r b h, True))
            else
              (if r \<noteq> NullNode
               then map_option (\<lambda>(r', added). (Node k v l r' b h, added))
                      (di_tree_node_insert cmp r key value)
               else Some (Node k v l (di_tree_node_new key value) b h, True)))
      of None \<Rightarrow> None
       | Some (node, added) \<Rightarrow> map_option (\<lambda>n. (n, added)) (di_tree_node_rotate node))"

definition di_tree_insert :: "('k, 'v) di_tree \<Rightarrow> 'k \<Rightarrow> 'v \<Rightarrow> ('k, 'v) di_tree option" where
  "di_tree_insert t key value =
     (if tree_root t = NullNode
      then Some (t\<lparr>tree_root := di_tree_node_new key value, tree_nnodes := tree_nnodes t + 1\<rparr>)
      else map_option (\<lambda>(n, added). t\<lparr>tree_root := n,
               tree_nnodes := (if added then tree_nnodes t + 1 else tree_nnodes t)\<rparr>)
             (di_tree_node_insert (key_compare_func t) (tree_root t) key value))"

text \<open>The pairs \<open>di_tree_foreach\<close> passes to its function, in order.\<close>

fun di_tree_node_foreach :: "('k, 'v) di_tree_node \<Rightarrow> ('k \<times> 'v) list" where
  "di_tree_node_foreach NullNode = []"
| "di_tree_node_foreach (Node k v l r b h) =
     di_tree_node_foreach l @ (k, v) # di_tree_node_foreach r"

definition di_tree_foreach :: "('k, 'v) di_tree \<Rightarrow> ('k \<times> 'v) list" where
  "di_tree_foreach t = di_tree_node_foreach (tree_root t)"

definition di_tree_size :: "('k, 'v) di_tree \<Rightarrow> nat" where
  "di_tree_size t = tree_nnodes t"

fun di_tree_node_lookup :: "('k \<Rightarrow> 'k \<Rightarrow> int) \<Rightarrow> ('k, 'v) di_tree_node \<Rightarrow> 'k \<Rightarrow> 'v option" where
  "di_tree_node_lookup cmp NullNode key = None"
| "di_tree_node_lookup cmp (Node k v l r b h) key =
     (let c = cmp key k
      in if c = 0 then Some v
         else if c < 0 then di_tree_node_lookup cmp l key
         else di_tree_node_lookup cmp r key)"

definition di_tree_lookup :: "('k, 'v) di_tree \<Rightarrow> 'k \<Rightarrow> 'v option" where
  "di_tree_lookup t key = di_tree_node_lookup (key_compare_func t) (tree_root t) key"

text \<open>A sequence of insertions.\<close>

fun tree_insert_all :: "('k, 'v) di_tree \<Rightarrow> ('k \<times> 'v) list \<Rightarrow> ('k, 'v) di_tree option" where
  "tree_insert_all t [] = Some t"
| "tree_insert_all t ((key, value) # ps) =
     Option.bind (di_tree_insert t key value) (\<lambda>t'. tree_insert_all t' ps)"

subsection \<open>Balance\<close>

fun height :: "('k, 'v) di_tree_node \<Rightarrow> nat" where
  "height NullNode = 0"
| "height (Node k v l r b h) = Suc (max (height l) (height r))"

text \<open>Stored heights and balances are right and no balance leaves the range -1 to 1.\<close>

fun avl :: "('k, 'v) di_tree_node \<Rightarrow> bool" where
  "avl NullNode = True"
| "avl (Node k v l r b h) =
     (avl l \<and> avl r \<and> h = int (Suc (max (height l) (height r))) \<and>
      b = int (height r) - int (height l) \<and> \<bar>b\<bar> \<le> 1)"

lemma child_height_avl [simp]: "avl n \<Longrightarrow> child_height n = int (height n)"
  by (cases n) auto

lemma calculate_avl:
  "avl l \<Longrightarrow> avl r \<Longrightarrow>
   di_tree_node_calculate (Node k v l r b h) =
     Node k v l r (int (height r) - int (height l)) (int (Suc (max (height l) (height r))))"
  by (auto simp: Let_def)

declare di_tree_node_calculate.simps(2) [simp del]

text \<open>
  Rebalancing a node whose children are balanced and differ in height by at most two:
  no NULL is dereferenced, the pairs keep their order and the height is right.
\<close>

lemma rotate_balanced:
  assumes "avl l" "avl r" "\<bar>int (height r) - int (height l)\<bar> \<le> 1"
  shows "di_tree_node_rotate (Node k v l r b h) =
    Some (Node k v l r (int (height r) - int (height l)) (int (Suc (max (height l) (height r)))))"
  using assms by (auto simp: di_tree_node_rotate_def calculate_avl Let_def)

lemma rotate_left_heavy:
  assumes "avl l" "avl r" "height l = height r + 2"
  shows "\<exists>n. di_tree_node_rotate (Node k v l r b h) = Some n \<and> avl n \<and>
    height l \<le> height n \<and> height n \<le> Suc (height l) \<and>
    di_tree_node_foreach n = di_tree_node_foreach l @ (k, v) # di_tree_node_foreach r"
proof -
  from assms(3) obtain lk lv ll lr lb lh where l: "l = Node lk lv ll lr lb lh" by (cases l) auto
  show ?thesis
  proof (cases "lb = 1")
    case True
    with assms l obtain zk zv c d zb zh where z: "lr = Node zk zv c d zb zh" by (cases lr) auto
    from assms l z True show ?thesis
      by (auto simp: di_tree_node_rotate_def calculate_avl Let_def max_def split: if_splits)
  next
    case False
    with assms l show ?thesis
      by (auto simp: di_tree_node_rotate_def calculate_avl Let_def max_def split: if_splits)
  qed
qed

lemma rotate_right_heavy:
  assumes "avl l" "avl r" "height r = height l + 2"
  shows "\<exists>n. di_tree_node_rotate (Node k v l r b h) = Some n \<and> avl n \<and>
    height r \<le> height n \<and> height n \<le> Suc (height r) \<and>
    di_tree_node_foreach n = di_tree_node_foreach l @ (k, v) # di_tree_node_foreach r"
proof -
  from assms(3) obtain rk rv rl rr rb rh where r: "r = Node rk rv rl rr rb rh" by (cases r) auto
  show ?thesis
  proof (cases "rb = -1")
    case True
    with assms r obtain zk zv c d zb zh where z: "rl = Node zk zv c d zb zh" by (cases rl) auto
    from assms r z True show ?thesis
      by (auto simp: di_tree_node_rotate_def calculate_avl Let_def max_def split: if_splits)
  next
    case False
    with assms r show ?thesis
      by (auto simp: di_tree_node_rotate_def calculate_avl Let_def max_def split: if_splits)
  qed
qed

lemma rotate_ok:
  assumes "avl l" "avl r" "\<bar>int (height r) - int (height l)\<bar> \<le> 2"
  obtains n where "di_tree_node_rotate (Node k v l r b h) = Some n" "avl n"
    "max (height l) (height r) \<le> height n" "height n \<le> Suc (max (height l) (height r))"
    "\<bar>int (height r) - int (height l)\<bar> \<le> 1 \<Longrightarrow> height n = Suc (max (height l) (height r))"
    "di_tree_node_foreach n = di_tree_node_foreach l @ (k, v) # di_tree_node_foreach r"
proof -
  from assms(3) consider "\<bar>int (height r) - int (height l)\<bar> \<le> 1" | "height l = height r + 2"
    | "height r = height l + 2" by linarith
  then show thesis
  proof cases
    case 1
    show ?thesis
      by (rule that [OF rotate_balanced [OF assms(1,2) 1]]) (use assms 1 in auto)
  next
    case 2
    from rotate_left_heavy [OF assms(1,2) 2, of k v b h] 2 that show ?thesis by auto
  next
    case 3
    from rotate_right_heavy [OF assms(1,2) 3, of k v b h] 3 that show ?thesis by auto
  qed
qed

text \<open>The pairs of a tree after an insertion at the place the comparisons lead to.\<close>

fun ins_pairs :: "('k \<Rightarrow> 'k \<Rightarrow> int) \<Rightarrow> 'k \<Rightarrow> 'v \<Rightarrow> ('k, 'v) di_tree_node \<Rightarrow> ('k \<times> 'v) list" where
  "ins_pairs cmp key value NullNode = [(key, value)]"
| "ins_pairs cmp key value (Node k v l r b h) =
     (if cmp key k = 0 then di_tree_node_foreach l @ (k, v) # di_tree_node_foreach r
      else if cmp key k < 0 then ins_pairs cmp key value l @ (k, v) # di_tree_node_foreach r
      else di_tree_node_foreach l @ (k, v) # ins_pairs cmp key value r)"

text \<open>
  Insertion never dereferences NULL and keeps the balance, whatever the comparison does.
  \<open>inserted\<close> relates a child link before and after the insertion below it.
\<close>

definition inserted ::
  "('k \<Rightarrow> 'k \<Rightarrow> int) \<Rightarrow> 'k \<Rightarrow> 'v \<Rightarrow> ('k, 'v) di_tree_node \<Rightarrow> ('k, 'v) di_tree_node \<Rightarrow> bool \<Rightarrow> bool" where
  "inserted cmp key value n n' a \<longleftrightarrow> avl n' \<and> height n \<le> height n' \<and> height n' \<le> Suc (height n) \<and>
     di_tree_node_foreach n' = ins_pairs cmp key value n \<and>
     a = (di_tree_node_lookup cmp n key = None)"

lemma child_insert:
  assumes "n \<noteq> NullNode \<Longrightarrow>
    \<exists>n' a. di_tree_node_insert cmp n key value = Some (n', a) \<and> inserted cmp key value n n' a"
  obtains n' a where "inserted cmp key value n n' a"
    "(if n \<noteq> NullNode then map_option (\<lambda>(n', added). (f n', added)) (di_tree_node_insert cmp n key value)
      else Some (f (di_tree_node_new key value), True)) = Some (f n', a)"
proof (cases "n = NullNode")
  case True
  then show thesis
    by (intro that [of "di_tree_node_new key value" True])
      (simp_all add: inserted_def di_tree_node_new_def)
next
  case False
  with assms that show thesis by fastforce
qed

lemma insert_avl:
  assumes "avl n" "n \<noteq> NullNode"
  shows "\<exists>n' a. di_tree_node_insert cmp n key value = Some (n', a) \<and> inserted cmp key value n n' a"
  using assms
proof (induction n)
  case NullNode
  then show ?case by simp
next
  case (Node k v l r b h)
  have bal: "avl l" "avl r" "\<bar>int (height r) - int (height l)\<bar> \<le> 1" using Node.prems by auto
  consider "cmp key k = 0" | "cmp key k < 0" | "cmp key k > 0" by linarith
  then show ?case
  proof cases
    case 1
    then show ?thesis using bal rotate_balanced [OF bal, of k v b h] by (auto simp: inserted_def)
  next
    case 2
    obtain l' a where l': "inserted cmp key value l l' a"
      and ins: "(if l \<noteq> NullNode then map_option (\<lambda>(l', added). (Node k v l' r b h, added))
          (di_tree_node_insert cmp l key value)
        else Some (Node k v (di_tree_node_new key value) r b h, True)) = Some (Node k v l' r b h, a)"
      by (rule child_insert [of l cmp key _ "\<lambda>x. Node k v x r b h"])
        (use Node.IH(1) bal in \<open>auto simp: Let_def\<close>)
    from l' bal have "avl l'" "\<bar>int (height r) - int (height l')\<bar> \<le> 2"
      by (auto simp: inserted_def)
    then obtain n where "di_tree_node_rotate (Node k v l' r b h) = Some n" "avl n"
      "max (height l') (height r) \<le> height n" "height n \<le> Suc (max (height l') (height r))"
      "\<bar>int (height r) - int (height l')\<bar> \<le> 1 \<Longrightarrow> height n = Suc (max (height l') (height r))"
      "di_tree_node_foreach n = di_tree_node_foreach l' @ (k, v) # di_tree_node_foreach r"
      using rotate_ok bal(2) by metis
    with 2 ins l' bal show ?thesis by (simp add: Let_def inserted_def) linarith
  next
    case 3
    obtain r' a where r': "inserted cmp key value r r' a"
      and ins: "(if r \<noteq> NullNode then map_option (\<lambda>(r', added). (Node k v l r' b h, added))
          (di_tree_node_insert cmp r key value)
        else Some (Node k v l (di_tree_node_new key value) b h, True)) = Some (Node k v l r' b h, a)"
      by (rule child_insert [of r cmp key _ "\<lambda>x. Node k v l x b h"])
        (use Node.IH(2) bal in \<open>auto simp: Let_def\<close>)
    from r' bal have "avl r'" "\<bar>int (height r') - int (height l)\<bar> \<le> 2"
      by (auto simp: inserted_def)
    then obtain n where "di_tree_node_rotate (Node k v l r' b h) = Some n" "avl n"
      "max (height l) (height r') \<le> height n" "height n \<le> Suc (max (height l) (height r'))"
      "\<bar>int (height r') - int (height l)\<bar> \<le> 1 \<Longrightarrow> height n = Suc (max (height l) (height r'))"
      "di_tree_node_foreach n = di_tree_node_foreach l @ (k, v) # di_tree_node_foreach r'"
      using rotate_ok bal(1) by metis
    with 3 ins r' bal show ?thesis by (simp add: Let_def inserted_def) linarith
  qed
qed

text \<open>
  Balance bounds the depth of every search: a tree of height \<open>h\<close> has at least
  \<open>2 ^ (h / 2) - 1\<close> nodes.
\<close>

lemma avl_height_bound: "avl n \<Longrightarrow> 2 ^ height n \<le> (Suc (length (di_tree_node_foreach n)))\<^sup>2"
proof (induction n)
  case NullNode
  then show ?case by simp
next
  case (Node k v l r b h)
  define a where "a = Suc (length (di_tree_node_foreach l))"
  define c where "c = Suc (length (di_tree_node_foreach r))"
  have IH: "2 ^ height l \<le> a\<^sup>2" "2 ^ height r \<le> c\<^sup>2"
    using Node by (simp_all add: a_def c_def)
  have size: "Suc (length (di_tree_node_foreach (Node k v l r b h))) = a + c"
    by (simp add: a_def c_def)
  show ?case
  proof (cases "max (height l) (height r)")
    case 0
    then show ?thesis by (simp add: power2_eq_square)
  next
    case (Suc m)
    let ?p = "2 ^ m :: nat"
    from Suc Node.prems have "m \<le> height l" "m \<le> height r" by auto
    then have ge: "?p \<le> a\<^sup>2" "?p \<le> c\<^sup>2"
      using IH by (meson le_trans one_le_numeral power_increasing)+
    then have "?p\<^sup>2 \<le> (a * c)\<^sup>2"
      by (simp add: power2_eq_square [of ?p] power_mult_distrib mult_le_mono)
    then have "?p \<le> a * c" by (rule power2_le_imp_le) simp
    moreover have "2 * ?p \<le> a\<^sup>2 \<or> 2 * ?p \<le> c\<^sup>2"
      using IH Suc by (metis max_def power_Suc)
    ultimately have "4 * ?p \<le> (a + c)\<^sup>2" using ge by (auto simp: power2_sum)
    then show ?thesis unfolding size using Suc by simp
  qed
qed

subsection \<open>Order\<close>

text \<open>Pairs in strictly ascending key order.\<close>

definition ascending :: "('k \<Rightarrow> 'k \<Rightarrow> int) \<Rightarrow> ('k \<times> 'v) list \<Rightarrow> bool" where
  "ascending cmp = sorted_wrt (\<lambda>p q. cmp (fst p) (fst q) < 0)"

text \<open>What an insertion does to the ordered pairs: an existing key keeps its pair.\<close>

fun ins_absent :: "('k \<Rightarrow> 'k \<Rightarrow> int) \<Rightarrow> 'k \<Rightarrow> 'v \<Rightarrow> ('k \<times> 'v) list \<Rightarrow> ('k \<times> 'v) list" where
  "ins_absent cmp key value [] = [(key, value)]"
| "ins_absent cmp key value ((k, v) # xs) =
     (if cmp key k = 0 then (k, v) # xs
      else if cmp key k < 0 then (key, value) # (k, v) # xs
      else (k, v) # ins_absent cmp key value xs)"

definition find_key :: "('k \<Rightarrow> 'k \<Rightarrow> int) \<Rightarrow> 'k \<Rightarrow> ('k \<times> 'v) list \<Rightarrow> 'v option" where
  "find_key cmp key xs = map_option snd (find (\<lambda>p. cmp key (fst p) = 0) xs)"

context compare_func
begin

lemma ins_absent_append:
  "ascending cmp (xs @ (k, v) # ys) \<Longrightarrow>
   ins_absent cmp key value (xs @ (k, v) # ys) =
     (if cmp key k = 0 then xs @ (k, v) # ys
      else if cmp key k < 0 then ins_absent cmp key value xs @ (k, v) # ys
      else xs @ (k, v) # ins_absent cmp key value ys)"
proof (induction xs)
  case Nil
  then show ?case by simp
next
  case (Cons p xs)
  obtain a w where p: "p = (a, w)" by fastforce
  from Cons.prems p have "cmp a k < 0" and asc: "ascending cmp (xs @ (k, v) # ys)"
    by (auto simp: ascending_def)
  then have "0 \<le> cmp key k \<Longrightarrow> 0 < cmp key a"
    using cmp_less_trans(1) [of a k key] cmp_flip by (metis linorder_not_le)
  with Cons.IH [OF asc] p show ?case by auto
qed

lemma set_ins_absent: "set (ins_absent cmp key value xs) \<subseteq> insert (key, value) (set xs)"
  by (induction xs) (auto split: if_splits)

lemma find_below:
  "\<forall>q \<in> set xs. cmp a (fst q) < 0 \<Longrightarrow> cmp key a \<le> 0 \<Longrightarrow> find (\<lambda>q. cmp key (fst q) = 0) xs = None"
  unfolding find_None_iff using cmp_less_trans(2) by fastforce

lemma find_above:
  "\<forall>q \<in> set xs. cmp (fst q) a < 0 \<Longrightarrow> 0 \<le> cmp key a \<Longrightarrow> find (\<lambda>q. cmp key (fst q) = 0) xs = None"
  unfolding find_None_iff using cmp_less_trans(1) cmp_flip by (metis linorder_not_le order_less_irrefl)

lemma ascending_ins_absent: "ascending cmp xs \<Longrightarrow> ascending cmp (ins_absent cmp key value xs)"
proof (induction xs)
  case Nil
  then show ?case by (simp add: ascending_def)
next
  case (Cons p xs)
  obtain k v where p: "p = (k, v)" by fastforce
  consider "cmp key k = 0" | "cmp key k < 0" | "0 < cmp key k" by linarith
  then show ?case
  proof cases
    case 3
    then have "cmp k key < 0" by (simp add: cmp_flip)
    then have "\<forall>q \<in> set (ins_absent cmp key value xs). cmp k (fst q) < 0"
      using Cons.prems set_ins_absent [of key _ xs] by (fastforce simp: ascending_def p)
    with Cons 3 p show ?thesis by (auto simp: ascending_def)
  next
    case 2
    with Cons.prems show ?thesis
      unfolding p by (auto simp: ascending_def intro: cmp_less_trans(2) [OF less_imp_le])
  next
    case 1
    with Cons.prems p show ?thesis by simp
  qed
qed

lemma find_key_ins_absent:
  assumes "ascending cmp xs"
  shows "find_key cmp k (ins_absent cmp key value xs) =
    (if cmp k key = 0 \<and> find_key cmp key xs = None then Some value else find_key cmp k xs)"
  using assms
proof (induction xs)
  case Nil
  then show ?case by (auto simp: find_key_def)
next
  case (Cons p xs)
  obtain a w where p: "p = (a, w)" by fastforce
  from Cons.prems have asc: "ascending cmp xs" and lt: "\<forall>q \<in> set xs. cmp a (fst q) < 0"
    by (auto simp: ascending_def p)
  show ?case
  proof (cases "cmp key a < 0")
    case True
    then have "find (\<lambda>q. cmp key (fst q) = 0) xs = None"
      using find_below [OF lt] by simp
    with True p show ?thesis by (auto simp: find_key_def)
  next
    case False
    have "cmp k a = 0 \<Longrightarrow> cmp k key = 0 \<Longrightarrow> cmp key a = 0"
      using cmp_eq_trans cmp_flip by blast
    with False Cons.IH [OF asc] p show ?thesis by (auto simp: find_key_def)
  qed
qed

lemma length_ins_absent:
  "ascending cmp xs \<Longrightarrow> length (ins_absent cmp key value xs) =
     (if find_key cmp key xs = None then Suc (length xs) else length xs)"
proof (induction xs)
  case Nil
  then show ?case by (simp add: find_key_def)
next
  case (Cons p xs)
  obtain a w where p: "p = (a, w)" by fastforce
  from Cons.prems have asc: "ascending cmp xs" and lt: "\<forall>q \<in> set xs. cmp a (fst q) < 0"
    by (auto simp: ascending_def p)
  from Cons.IH [OF asc] find_below [OF lt, of key] p show ?case by (auto simp: find_key_def)
qed

lemma lookup_find_key:
  "ascending cmp (di_tree_node_foreach n) \<Longrightarrow>
   di_tree_node_lookup cmp n key = find_key cmp key (di_tree_node_foreach n)"
proof (induction n)
  case NullNode
  then show ?case by (simp add: find_key_def)
next
  case (Node k v l r b h)
  have asc: "ascending cmp (di_tree_node_foreach l)" "ascending cmp (di_tree_node_foreach r)"
    and lt: "\<forall>p \<in> set (di_tree_node_foreach l). cmp (fst p) k < 0"
      "\<forall>p \<in> set (di_tree_node_foreach r). cmp k (fst p) < 0"
    using Node.prems by (auto simp: ascending_def sorted_wrt_append)
  note none = find_above [OF lt(1), of key] find_below [OF lt(2), of key]
  consider "cmp key k = 0" | "cmp key k < 0" | "0 < cmp key k" by linarith
  then show ?case
    by cases (use none Node.IH asc in \<open>auto simp: find_key_def find_append split: option.splits\<close>)
qed

text \<open>The node operations refine the operations on ordered pairs.\<close>

lemma ins_pairs_absent:
  "ascending cmp (di_tree_node_foreach n) \<Longrightarrow>
   ins_pairs cmp key value n = ins_absent cmp key value (di_tree_node_foreach n)"
proof (induction n)
  case NullNode
  then show ?case by simp
next
  case (Node k v l r b h)
  have "ascending cmp (di_tree_node_foreach l)" "ascending cmp (di_tree_node_foreach r)"
    using Node.prems by (auto simp: ascending_def sorted_wrt_append)
  with Node.IH ins_absent_append [OF Node.prems [unfolded di_tree_node_foreach.simps]]
  show ?case by simp
qed

text \<open>The invariant of a tree, and that every operation keeps it.\<close>

definition tree_ok :: "('k, 'v) di_tree \<Rightarrow> bool" where
  "tree_ok t \<longleftrightarrow> key_compare_func t = cmp \<and> avl (tree_root t) \<and>
     ascending cmp (di_tree_foreach t) \<and> tree_nnodes t = length (di_tree_foreach t)"

lemma tree_ok_new: "tree_ok (di_tree_new_full cmp kd vd)"
  by (simp add: tree_ok_def di_tree_new_full_def di_tree_foreach_def ascending_def)

lemma tree_insert_ok:
  assumes "tree_ok t"
  shows "\<exists>t'. di_tree_insert t key value = Some t' \<and> tree_ok t' \<and>
    di_tree_foreach t' = ins_absent cmp key value (di_tree_foreach t)"
proof (cases "tree_root t = NullNode")
  case True
  with assms show ?thesis
    by (simp add: di_tree_insert_def tree_ok_def di_tree_foreach_def di_tree_node_new_def
        ascending_def)
next
  case False
  from assms have ok: "avl (tree_root t)" "ascending cmp (di_tree_node_foreach (tree_root t))"
    "key_compare_func t = cmp" "tree_nnodes t = length (di_tree_node_foreach (tree_root t))"
    by (simp_all add: tree_ok_def di_tree_foreach_def)
  from insert_avl [OF ok(1) False, of cmp key] obtain n a where
    ins: "di_tree_node_insert cmp (tree_root t) key value = Some (n, a)" and n: "avl n"
      "di_tree_node_foreach n = ins_absent cmp key value (di_tree_node_foreach (tree_root t))"
      "a = (find_key cmp key (di_tree_node_foreach (tree_root t)) = None)"
    using ins_pairs_absent [OF ok(2)] lookup_find_key [OF ok(2)] unfolding inserted_def by metis
  from n(2,3) ok have len: "length (di_tree_node_foreach n) =
      (if a then Suc (tree_nnodes t) else tree_nnodes t)"
    by (simp add: length_ins_absent)
  with ins n ok False ascending_ins_absent [OF ok(2)] show ?thesis
    by (simp add: di_tree_insert_def tree_ok_def di_tree_foreach_def)
qed

lemma tree_lookup_find:
  "tree_ok t \<Longrightarrow> di_tree_lookup t key = find_key cmp key (di_tree_foreach t)"
  by (simp add: tree_ok_def di_tree_lookup_def di_tree_foreach_def lookup_find_key)

lemma tree_insert_lookup:
  assumes "tree_ok t" "di_tree_insert t key value = Some t'"
  shows "di_tree_lookup t' k =
    (if cmp k key = 0 \<and> di_tree_lookup t key = None then Some value else di_tree_lookup t k)"
proof -
  obtain u where "di_tree_insert t key value = Some u" "tree_ok u"
    "di_tree_foreach u = ins_absent cmp key value (di_tree_foreach t)"
    using tree_insert_ok [OF assms(1)] by blast
  with assms(2)
  have "tree_ok t'" "di_tree_foreach t' = ins_absent cmp key value (di_tree_foreach t)"
    by auto
  with assms(1) show ?thesis
    by (simp add: tree_lookup_find find_key_ins_absent tree_ok_def)
qed

lemma find_key_cong: "cmp a b = 0 \<Longrightarrow> find_key cmp a xs = find_key cmp b xs"
  unfolding find_key_def by (rule arg_cong [where f = "map_option snd"], rule find_cong)
    (use cmp_eq_trans cmp_flip in blast)+

text \<open>After any sequence of insertions a key has the value of its first insertion.\<close>

lemma tree_insert_all_ok:
  assumes "tree_ok t"
  shows "\<exists>t'. tree_insert_all t ps = Some t' \<and> tree_ok t' \<and>
    (\<forall>k. di_tree_lookup t' k =
       (case di_tree_lookup t k of Some v \<Rightarrow> Some v | None \<Rightarrow> find_key cmp k ps))"
  using assms
proof (induction ps arbitrary: t)
  case Nil
  then show ?case by (auto simp: find_key_def split: option.splits)
next
  case (Cons p ps)
  obtain key w where p: "p = (key, w)" by fastforce
  obtain t1 where t1: "di_tree_insert t key w = Some t1" "tree_ok t1"
    using tree_insert_ok [OF Cons.prems] by blast
  from Cons.IH [OF t1(2)] obtain t2 where t2: "tree_insert_all t1 ps = Some t2" "tree_ok t2"
    and look: "\<And>k. di_tree_lookup t2 k =
      (case di_tree_lookup t1 k of Some v \<Rightarrow> Some v | None \<Rightarrow> find_key cmp k ps)" by blast
  have "di_tree_lookup t2 k =
      (case di_tree_lookup t k of Some v \<Rightarrow> Some v | None \<Rightarrow> find_key cmp k (p # ps))" for k
  proof (cases "cmp k key = 0")
    case True
    then have "di_tree_lookup t k = di_tree_lookup t key"
      by (simp add: tree_lookup_find [OF Cons.prems] find_key_cong)
    with True show ?thesis unfolding look tree_insert_lookup [OF Cons.prems t1(1)]
      by (simp add: p find_key_def split: option.splits)
  next
    case False
    then show ?thesis unfolding look tree_insert_lookup [OF Cons.prems t1(1)]
      by (simp add: p find_key_def split: option.split)
  qed
  with t1 t2 show ?case by (auto simp: p)
qed

lemma tree_height_bound:
  "tree_ok t \<Longrightarrow> 2 ^ height (tree_root t) \<le> (Suc (di_tree_size t))\<^sup>2"
  using avl_height_bound [of "tree_root t"]
  by (simp add: tree_ok_def di_tree_size_def di_tree_foreach_def)

end

end
