(* ===== verification/S390_Zfcp.thy ===== *)
theory S390_Zfcp
  imports DI_Tree
begin

text \<open>
  \<^verbatim>\<open>s390-zfcp\<close>: device identifiers and the trees of host adapters kept under them. The
  identifier comparison provides the interface \<open>compare_func\<close> of the search tree.

  A packed \<open>struct ccw_devid\<close> occupies four bytes; on s390 (big endian) they are the
  channel subsystem, the subchannel set and the two bytes of the device number.
\<close>

record ccw_devid =
  cssid :: "8 word"
  ssid :: "8 word"
  devno :: "16 word"

definition devid_bytes :: "ccw_devid \<Rightarrow> nat list" where
  "devid_bytes d = [unat (cssid d), unat (ssid d), unat (devno d) div 256, unat (devno d) mod 256]"

text \<open>\<open>memcmp\<close> on objects of the same size: the difference of the first bytes that differ.\<close>

fun memcmp :: "nat list \<Rightarrow> nat list \<Rightarrow> int" where
  "memcmp (x # xs) (y # ys) = (if x = y then memcmp xs ys else int x - int y)"
| "memcmp _ _ = 0"

definition ccw_cmp_devids :: "ccw_devid \<Rightarrow> ccw_devid \<Rightarrow> int" where
  "ccw_cmp_devids a b = memcmp (devid_bytes a) (devid_bytes b)"

text \<open>The tree \<open>zfcp_hosts\<close> and its lookup by identifier.\<close>

definition zfcp_hosts_new :: "(ccw_devid, 'h) di_tree" where
  "zfcp_hosts_new = di_tree_new_full ccw_cmp_devids False True"

lemma memcmp_antisym: "length xs = length ys \<Longrightarrow> memcmp xs ys = - memcmp ys xs"
  by (induction xs ys rule: list_induct2) auto

lemma memcmp_trans:
  "length xs = length ys \<Longrightarrow> length ys = length zs \<Longrightarrow>
   memcmp xs ys \<le> 0 \<Longrightarrow> memcmp ys zs \<le> 0 \<Longrightarrow> memcmp xs zs \<le> 0"
  by (induction xs ys zs rule: list_induct3) (auto split: if_splits)

lemma memcmp_0: "length xs = length ys \<Longrightarrow> memcmp xs ys = 0 \<longleftrightarrow> xs = ys"
  by (induction xs ys rule: list_induct2) auto

lemma devid_bytes_length: "length (devid_bytes a) = length (devid_bytes b)"
  by (simp add: devid_bytes_def)

lemma devid_bytes_inj: "devid_bytes a = devid_bytes b \<longleftrightarrow> a = b"
proof
  assume eq: "devid_bytes a = devid_bytes b"
  then have "unat (devno a) div 256 * 256 + unat (devno a) mod 256 =
      unat (devno b) div 256 * 256 + unat (devno b) mod 256"
    by (simp add: devid_bytes_def)
  then have "devno a = devno b" unfolding div_mult_mod_eq by (simp add: word_unat_eq_iff)
  with eq show "a = b" by (cases a; cases b) (simp add: devid_bytes_def word_unat_eq_iff)
qed simp

interpretation ccw: compare_func ccw_cmp_devids
proof unfold_locales
  fix a b c
  show "sgn (ccw_cmp_devids a b) = - sgn (ccw_cmp_devids b a)"
    using memcmp_antisym [OF devid_bytes_length] by (metis ccw_cmp_devids_def sgn_minus)
  show "ccw_cmp_devids a b \<le> 0 \<Longrightarrow> ccw_cmp_devids b c \<le> 0 \<Longrightarrow> ccw_cmp_devids a c \<le> 0"
    unfolding ccw_cmp_devids_def by (rule memcmp_trans [OF devid_bytes_length devid_bytes_length])
qed

lemma ccw_cmp_0: "ccw_cmp_devids a b = 0 \<longleftrightarrow> a = b"
  by (simp add: ccw_cmp_devids_def memcmp_0 [OF devid_bytes_length] devid_bytes_inj)

lemma find_key_ccw: "find_key ccw_cmp_devids d ps = map_of ps d"
  by (induction ps) (auto simp: find_key_def ccw_cmp_0)

text \<open>
  Property C14: whatever sequence of host adapters is inserted, the tree of adapters is built
  without dereferencing NULL, stays sorted by device identifier with one entry per
  identifier, counts its entries, finds under each identifier the adapter inserted first,
  and its height is at most twice the binary logarithm of its size plus one.
\<close>

theorem zfcp_hosts_tree:
  "\<exists>t. tree_insert_all zfcp_hosts_new hosts = Some t \<and>
     sorted_wrt (\<lambda>p q. ccw_cmp_devids (fst p) (fst q) < 0) (di_tree_foreach t) \<and>
     di_tree_size t = length (di_tree_foreach t) \<and>
     (\<forall>d. di_tree_lookup t d = map_of hosts d) \<and>
     2 ^ height (tree_root t) \<le> (Suc (di_tree_size t))\<^sup>2"
proof -
  have new: "ccw.tree_ok (zfcp_hosts_new :: (ccw_devid, 'h) di_tree)"
    by (simp add: zfcp_hosts_new_def ccw.tree_ok_new)
  have none: "di_tree_lookup zfcp_hosts_new d = (None :: 'h option)" for d
    by (simp add: zfcp_hosts_new_def di_tree_new_full_def di_tree_lookup_def)
  from ccw.tree_insert_all_ok [OF new, of hosts] obtain t where
    "tree_insert_all zfcp_hosts_new hosts = Some t" "ccw.tree_ok t"
    "\<And>d. di_tree_lookup t d = map_of hosts d"
    by (auto simp: none find_key_ccw)
  then show ?thesis using ccw.tree_height_bound [of t]
    by (auto simp: ccw.tree_ok_def ascending_def di_tree_size_def)
qed

end
