(* ===== verification/DI_String.thy ===== *)
theory DI_String
  imports DI_Prelude
begin

text \<open>
  \<^verbatim>\<open>libdebian-installer/src/string.c\<close>: sized strings (\<open>di_rstring\<close>), their comparison and
  their hash function. A \<open>di_rstring\<close> is the list of its \<open>size\<close> bytes.
\<close>

unbundle bit_operations_syntax

type_synonym di_rstring = string

definition di_stradup :: "string \<Rightarrow> nat \<Rightarrow> string" where
  "di_stradup s n = take n s"

definition di_rstring_equal :: "di_rstring \<Rightarrow> di_rstring \<Rightarrow> bool" where
  "di_rstring_equal key1 key2 =
     (if length key1 = length key2
      then strncasecmp_eq (length key1) key1 key2
      else False)"

text \<open>One step of the loop: \<open>h = (h << 5) - h + tolower (*p++)\<close> in 32 bits.\<close>

definition rstring_hash_step :: "u32 \<Rightarrow> char \<Rightarrow> u32" where
  "rstring_hash_step h c = push_bit 5 h - h + word_of_int (schar (c_tolower c))"

definition di_rstring_hash :: "di_rstring \<Rightarrow> u32" where
  "di_rstring_hash key = foldl rstring_hash_step 0 key"

lemma di_rstring_equal_iff:
  assumes "nul_free a" "nul_free b"
  shows "di_rstring_equal a b \<longleftrightarrow> map c_tolower a = map c_tolower b"
proof (cases "length a = length b")
  case True
  show ?thesis
    using strncasecmp_eq_iff [OF assms True] by (simp add: di_rstring_equal_def True)
next
  case False
  then show ?thesis by (auto simp: di_rstring_equal_def dest: map_eq_imp_length_eq)
qed

lemma c_tolower_idem [simp]: "c_tolower (c_tolower c) = c_tolower c"
proof (cases "c_isupper c")
  case True
  then have "(of_char c :: nat) + 32 < 256" by (simp add: c_isupper_def)
  then have "(of_char (c_tolower c) :: nat) = of_char c + 32"
    using True by (simp add: c_tolower_def of_char_of)
  then have "\<not> c_isupper (c_tolower c)"
    using True by (simp add: c_isupper_def)
  then show ?thesis by (simp add: c_tolower_def [of "c_tolower c"])
next
  case False
  then show ?thesis by (simp add: c_tolower_def)
qed

lemma rstring_hash_step_tolower [simp]:
  "rstring_hash_step h (c_tolower c) = rstring_hash_step h c"
  by (simp add: rstring_hash_step_def)

lemma foldl_hash_map_tolower:
  "foldl rstring_hash_step h (map c_tolower s) = foldl rstring_hash_step h s"
  by (induction s arbitrary: h) auto

lemma di_rstring_hash_tolower: "di_rstring_hash (map c_tolower s) = di_rstring_hash s"
  by (simp add: di_rstring_hash_def foldl_hash_map_tolower)

lemma di_rstring_equal_hash:
  "nul_free a \<Longrightarrow> nul_free b \<Longrightarrow> di_rstring_equal a b \<Longrightarrow> di_rstring_hash a = di_rstring_hash b"
  by (metis di_rstring_equal_iff di_rstring_hash_tolower)

lemma rstring_hash_step_31: "rstring_hash_step h c = 31 * h + word_of_int (schar (c_tolower c))"
  by (simp add: rstring_hash_step_def push_bit_eq_mult algebra_simps)

end
