(* ===== verification/DI_Hash.thy ===== *)
theory DI_Hash
  imports DI_String
begin

text \<open>
  \<^verbatim>\<open>libdebian-installer/src/hash.c\<close>: the chained hash table with prime sizes. A chain of
  nodes is the list of its key and value pairs in link order; the array of chains is a list
  of lists, so \<open>size\<close> is its length. The destroy functions of the table are effects of its
  user: \<open>di_hash_table_insert\<close> reports which key and which value it passes to them.

  The contract the clients use is the locale \<open>key_store\<close>; the locale \<open>hash_key\<close> states
  what a hash and an equality function must satisfy for a table to fulfil it.
\<close>

subsection \<open>The table\<close>

record ('k, 'v) di_hash_table =
  nnodes :: nat
  nodes :: "('k \<times> 'v) list list"
  hash_func :: "'k \<Rightarrow> u32"
  key_equal_func :: "('k \<Rightarrow> 'k \<Rightarrow> bool) option"
  key_destroy_func :: bool
  value_destroy_func :: bool

definition HASH_TABLE_MIN_SIZE :: nat where
  "HASH_TABLE_MIN_SIZE = 11"

definition HASH_TABLE_MAX_SIZE :: nat where
  "HASH_TABLE_MAX_SIZE = 13845163"

definition internal_di_primes :: "nat list" where
  "internal_di_primes =
     [11, 19, 37, 73, 109, 163, 251, 367, 557, 823, 1237, 1861, 2777, 4177, 6247, 9371,
      14057, 21089, 31627, 47431, 71143, 106721, 160073, 240101, 360163, 540217, 810343,
      1215497, 1823231, 2734867, 4102283, 6153409, 9230113, 13845163]"

definition CLAMP :: "nat \<Rightarrow> nat \<Rightarrow> nat \<Rightarrow> nat" where
  "CLAMP x low high = (if x > high then high else if x < low then low else x)"

text \<open>The argument is an \<open>unsigned int\<close>: a larger count is truncated to 32 bits.\<close>

definition internal_di_spaced_primes_closest :: "nat \<Rightarrow> nat" where
  "internal_di_spaced_primes_closest num =
     (case find (\<lambda>p. p > num mod 2 ^ 32) internal_di_primes of
        Some p \<Rightarrow> p
      | None \<Rightarrow> last internal_di_primes)"

definition di_hash_table_new_full ::
  "('k \<Rightarrow> u32) \<Rightarrow> ('k \<Rightarrow> 'k \<Rightarrow> bool) option \<Rightarrow> bool \<Rightarrow> bool \<Rightarrow> ('k, 'v) di_hash_table" where
  "di_hash_table_new_full h eq kd vd =
     \<lparr>nnodes = 0, nodes = replicate HASH_TABLE_MIN_SIZE [], hash_func = h,
      key_equal_func = eq, key_destroy_func = kd, value_destroy_func = vd\<rparr>"

definition di_hash_table_new ::
  "('k \<Rightarrow> u32) \<Rightarrow> ('k \<Rightarrow> 'k \<Rightarrow> bool) option \<Rightarrow> ('k, 'v) di_hash_table" where
  "di_hash_table_new h eq = di_hash_table_new_full h eq False False"

text \<open>\<open>key_equal_func\<close> may be NULL; the keys are then compared as pointers.\<close>

definition key_eq :: "('k, 'v) di_hash_table \<Rightarrow> 'k \<Rightarrow> 'k \<Rightarrow> bool" where
  "key_eq t k1 k2 = (case key_equal_func t of Some f \<Rightarrow> f k1 k2 | None \<Rightarrow> k1 = k2)"

definition bucket :: "('k \<Rightarrow> u32) \<Rightarrow> nat \<Rightarrow> 'k \<Rightarrow> nat" where
  "bucket h n k = unat (h k) mod n"

text \<open>
  The address of the link that holds the node of a key, or of the NULL link at the end of
  its chain: the chain's index and the position in the chain.
\<close>

definition internal_di_hash_table_lookup_node ::
  "('k, 'v) di_hash_table \<Rightarrow> 'k \<Rightarrow> nat \<times> nat" where
  "internal_di_hash_table_lookup_node t key =
     (let b = bucket (hash_func t) (length (nodes t)) key
      in (b, length (takeWhile (\<lambda>node. \<not> key_eq t (fst node) key) (nodes t ! b))))"

definition di_hash_table_lookup :: "('k, 'v) di_hash_table \<Rightarrow> 'k \<Rightarrow> 'v option" where
  "di_hash_table_lookup t key =
     (let (b, i) = internal_di_hash_table_lookup_node t key
      in if i < length (nodes t ! b) then Some (snd (nodes t ! b ! i)) else None)"

definition rehash_node :: "('k \<Rightarrow> u32) \<Rightarrow> 'k \<times> 'v \<Rightarrow> ('k \<times> 'v) list list \<Rightarrow> ('k \<times> 'v) list list" where
  "rehash_node h node new_nodes =
     (let b = bucket h (length new_nodes) (fst node)
      in new_nodes[b := node # new_nodes ! b])"

definition internal_di_hash_table_resize :: "('k, 'v) di_hash_table \<Rightarrow> ('k, 'v) di_hash_table" where
  "internal_di_hash_table_resize t =
     (let new_size = CLAMP (internal_di_spaced_primes_closest (nnodes t))
                       HASH_TABLE_MIN_SIZE HASH_TABLE_MAX_SIZE
      in t\<lparr>nodes := fold (rehash_node (hash_func t)) (concat (nodes t)) (replicate new_size [])\<rparr>)"

definition HASH_TABLE_RESIZE :: "('k, 'v) di_hash_table \<Rightarrow> ('k, 'v) di_hash_table" where
  "HASH_TABLE_RESIZE t =
     (if (length (nodes t) \<ge> 3 * nnodes t \<and> length (nodes t) > HASH_TABLE_MIN_SIZE) \<or>
         (3 * length (nodes t) \<le> nnodes t \<and> length (nodes t) < HASH_TABLE_MAX_SIZE)
      then internal_di_hash_table_resize t else t)"

text \<open>
  The result pairs the table with what the destroy functions are called on: the new key and
  the old value, when the key was present and the functions are set.
\<close>

definition di_hash_table_insert ::
  "('k, 'v) di_hash_table \<Rightarrow> 'k \<Rightarrow> 'v \<Rightarrow> ('k, 'v) di_hash_table \<times> 'k option \<times> 'v option" where
  "di_hash_table_insert t key value =
     (let (b, i) = internal_di_hash_table_lookup_node t key; chain = nodes t ! b
      in if i < length chain
         then (t\<lparr>nodes := (nodes t)[b := chain[i := (fst (chain ! i), value)]]\<rparr>,
               (if key_destroy_func t then Some key else None),
               (if value_destroy_func t then Some (snd (chain ! i)) else None))
         else (HASH_TABLE_RESIZE
                 (t\<lparr>nodes := (nodes t)[b := chain @ [(key, value)]], nnodes := nnodes t + 1\<rparr>),
               None, None))"

abbreviation ht_insert :: "('k, 'v) di_hash_table \<Rightarrow> 'k \<Rightarrow> 'v \<Rightarrow> ('k, 'v) di_hash_table" where
  "ht_insert t k v \<equiv> fst (di_hash_table_insert t k v)"

text \<open>The pairs \<open>di_hash_table_foreach\<close> passes to its function, in order.\<close>

definition di_hash_table_foreach :: "('k, 'v) di_hash_table \<Rightarrow> ('k \<times> 'v) list" where
  "di_hash_table_foreach t = concat (nodes t)"

definition di_hash_table_size :: "('k, 'v) di_hash_table \<Rightarrow> nat" where
  "di_hash_table_size t = nnodes t"

text \<open>
  What \<open>internal_di_hash_nodes_destroy\<close> passes to the destroy functions for one chain (its
  loop handles the last node after the others), and \<open>di_hash_table_destroy\<close> for the table.
\<close>

fun internal_di_hash_nodes_destroy :: "bool \<Rightarrow> bool \<Rightarrow> ('k \<times> 'v) list \<Rightarrow> 'k list \<times> 'v list" where
  "internal_di_hash_nodes_destroy kd vd [] = ([], [])"
| "internal_di_hash_nodes_destroy kd vd (node # chain) =
     (let (ks, vs) = internal_di_hash_nodes_destroy kd vd chain
      in ((if kd then fst node # ks else ks), (if vd then snd node # vs else vs)))"

definition di_hash_table_destroy :: "('k, 'v) di_hash_table \<Rightarrow> 'k list \<times> 'v list" where
  "di_hash_table_destroy t =
     (let ds = map (internal_di_hash_nodes_destroy (key_destroy_func t) (value_destroy_func t))
                 (nodes t)
      in (concat (map fst ds), concat (map snd ds)))"

subsection \<open>The contract of a keyed store\<close>

text \<open>
  What a client may rely on: after an insertion, exactly the keys equal to the inserted one
  give the new value. Keys outside \<open>valid\<close> are not covered.
\<close>

locale key_store =
  fixes valid :: "'k set"
    and eqk :: "'k \<Rightarrow> 'k \<Rightarrow> bool"
    and invar :: "'s \<Rightarrow> bool"
    and empty :: 's
    and insert :: "'s \<Rightarrow> 'k \<Rightarrow> 'v \<Rightarrow> 's"
    and lookup :: "'s \<Rightarrow> 'k \<Rightarrow> 'v option"
  assumes eqk_refl: "k \<in> valid \<Longrightarrow> eqk k k"
    and eqk_sym: "k \<in> valid \<Longrightarrow> l \<in> valid \<Longrightarrow> eqk k l \<Longrightarrow> eqk l k"
    and eqk_trans: "k \<in> valid \<Longrightarrow> l \<in> valid \<Longrightarrow> m \<in> valid \<Longrightarrow> eqk k l \<Longrightarrow> eqk l m \<Longrightarrow> eqk k m"
    and invar_empty: "invar empty"
    and invar_insert: "invar s \<Longrightarrow> k \<in> valid \<Longrightarrow> invar (insert s k v)"
    and lookup_empty: "k \<in> valid \<Longrightarrow> lookup empty k = None"
    and lookup_insert: "invar s \<Longrightarrow> k \<in> valid \<Longrightarrow> l \<in> valid \<Longrightarrow>
      lookup (insert s k v) l = (if eqk k l then Some v else lookup s l)"
begin

text \<open>Storing a list of entries from left to right: the last entry of a key wins.\<close>

definition insert_all :: "'s \<Rightarrow> ('k \<times> 'v) list \<Rightarrow> 's" where
  "insert_all s es = foldl (\<lambda>s (k, v). insert s k v) s es"

lemma insert_all_invar:
  "invar s \<Longrightarrow> fst ` set es \<subseteq> valid \<Longrightarrow> invar (insert_all s es)"
  unfolding insert_all_def by (induction es arbitrary: s) (auto simp: invar_insert)

lemma lookup_insert_all:
  "invar s \<Longrightarrow> fst ` set es \<subseteq> valid \<Longrightarrow> l \<in> valid \<Longrightarrow>
   lookup (insert_all s es) l =
     (case find (\<lambda>(k, v). eqk k l) (rev es) of Some (k, v) \<Rightarrow> Some v | None \<Rightarrow> lookup s l)"
proof (induction es rule: rev_induct)
  case Nil
  then show ?case by (simp add: insert_all_def)
next
  case (snoc e es)
  then have "invar (insert_all s es)" by (auto intro: insert_all_invar)
  moreover have "insert_all s (es @ [e]) = insert (insert_all s es) (fst e) (snd e)"
    by (simp add: insert_all_def case_prod_beta)
  ultimately show ?case
    using snoc by (auto simp: lookup_insert case_prod_beta)
qed

lemma lookup_eqk:
  "invar s \<Longrightarrow> k \<in> valid \<Longrightarrow> l \<in> valid \<Longrightarrow> eqk k l \<Longrightarrow> lookup (insert s k v) l = Some v"
  by (simp add: lookup_insert)

end

subsection \<open>Well-formed tables\<close>

definition ht_entries :: "('k, 'v) di_hash_table \<Rightarrow> ('k \<times> 'v) set" where
  "ht_entries t = set (concat (nodes t))"

text \<open>
  Every node is in the chain its key hashes to, no two nodes have equal keys, and the node
  count is the number of nodes.
\<close>

definition ht_wf :: "'k set \<Rightarrow> ('k, 'v) di_hash_table \<Rightarrow> bool" where
  "ht_wf V t =
     (nodes t \<noteq> [] \<and> nnodes t = length (concat (nodes t)) \<and> distinct (concat (nodes t)) \<and>
      (\<forall>i < length (nodes t). \<forall>x \<in> set (nodes t ! i).
         fst x \<in> V \<and> bucket (hash_func t) (length (nodes t)) (fst x) = i) \<and>
      (\<forall>x \<in> ht_entries t. \<forall>y \<in> ht_entries t.
         key_eq t (fst x) (fst y) \<longrightarrow> x = y))"

lemma bucket_lt [simp]: "ns \<noteq> [] \<Longrightarrow> bucket h (length ns) k < length ns"
  by (simp add: bucket_def)

lemma key_eq_update [simp]:
  "key_eq (t\<lparr>nodes := ns\<rparr>) = key_eq t" "key_eq (t\<lparr>nodes := ns, nnodes := n\<rparr>) = key_eq t"
  by (auto simp: key_eq_def fun_eq_iff)

lemma lookup_find:
  "di_hash_table_lookup t k =
     map_option snd (find (\<lambda>x. key_eq t (fst x) k)
       (nodes t ! bucket (hash_func t) (length (nodes t)) k))"
  by (simp add: di_hash_table_lookup_def internal_di_hash_table_lookup_node_def Let_def
      find_takeWhile)

subsection \<open>Resizing\<close>

lemma length_rehash_node [simp]: "length (rehash_node h x ns) = length ns"
  by (simp add: rehash_node_def Let_def)

lemma length_fold_rehash [simp]: "length (fold (rehash_node h) xs ns) = length ns"
  by (induction xs arbitrary: ns) auto

lemma fold_rehash_nth:
  "i < length ns \<Longrightarrow>
   fold (rehash_node h) xs ns ! i =
     rev (filter (\<lambda>x. bucket h (length ns) (fst x) = i) xs) @ ns ! i"
proof (induction xs arbitrary: ns)
  case Nil
  then show ?case by simp
next
  case (Cons x xs)
  then show ?case by (auto simp: rehash_node_def Let_def nth_list_update)
qed

lemma mset_concat_rehash_node:
  "ns \<noteq> [] \<Longrightarrow> mset (concat (rehash_node h x ns)) = add_mset x (mset (concat ns))"
proof -
  assume n: "ns \<noteq> []"
  let ?b = "bucket h (length ns) (fst x)"
  have "mset (concat (ns[?b := x # ns ! ?b])) + mset (ns ! ?b)
      = mset (concat ns) + mset (x # ns ! ?b)"
    using n by (intro concat_list_update_mset) simp
  then show ?thesis by (simp add: rehash_node_def Let_def)
qed

lemma mset_concat_fold_rehash:
  "ns \<noteq> [] \<Longrightarrow> mset (concat (fold (rehash_node h) xs ns)) = mset xs + mset (concat ns)"
proof (induction xs arbitrary: ns)
  case (Cons x xs)
  from Cons.prems have "rehash_node h x ns \<noteq> []" by (metis length_0_conv length_rehash_node)
  with Cons show ?case by (simp add: mset_concat_rehash_node)
qed simp

lemma concat_replicate_Nil [simp]: "concat (replicate n []) = []"
  by (induction n) auto

lemma resize_size_bounds:
  "HASH_TABLE_MIN_SIZE \<le> length (nodes (internal_di_hash_table_resize t))"
  "length (nodes (internal_di_hash_table_resize t)) \<le> HASH_TABLE_MAX_SIZE"
  by (auto simp: internal_di_hash_table_resize_def Let_def CLAMP_def HASH_TABLE_MIN_SIZE_def
      HASH_TABLE_MAX_SIZE_def)

lemma resize_fields [simp, frame_simps]:
  "nnodes (internal_di_hash_table_resize t) = nnodes t"
  "hash_func (internal_di_hash_table_resize t) = hash_func t"
  "key_eq (internal_di_hash_table_resize t) = key_eq t"
  "key_equal_func (internal_di_hash_table_resize t) = key_equal_func t"
  "key_destroy_func (internal_di_hash_table_resize t) = key_destroy_func t"
  "value_destroy_func (internal_di_hash_table_resize t) = value_destroy_func t"
  by (simp_all add: internal_di_hash_table_resize_def Let_def)

lemma resize_mset:
  "mset (concat (nodes (internal_di_hash_table_resize t))) = mset (concat (nodes t))"
  by (simp add: internal_di_hash_table_resize_def Let_def mset_concat_fold_rehash CLAMP_def
      HASH_TABLE_MIN_SIZE_def HASH_TABLE_MAX_SIZE_def)

lemma resize_entries [simp, frame_simps]:
  "ht_entries (internal_di_hash_table_resize t) = ht_entries t"
  unfolding ht_entries_def using resize_mset [of t] by (rule mset_eq_setD)

lemma resize_placed:
  "i < length (nodes (internal_di_hash_table_resize t)) \<Longrightarrow>
   x \<in> set (nodes (internal_di_hash_table_resize t) ! i) \<Longrightarrow>
   x \<in> ht_entries t \<and>
   bucket (hash_func t) (length (nodes (internal_di_hash_table_resize t))) (fst x) = i"
  by (auto simp: internal_di_hash_table_resize_def Let_def fold_rehash_nth ht_entries_def)

lemma ht_wf_resize:
  assumes "ht_wf V t"
  shows "ht_wf V (internal_di_hash_table_resize t)"
proof -
  let ?t = "internal_di_hash_table_resize t"
  have "nodes ?t \<noteq> []"
    using resize_size_bounds(1) [of t] by (auto simp: HASH_TABLE_MIN_SIZE_def)
  moreover have "nnodes ?t = length (concat (nodes ?t))"
    using assms resize_mset [of t] by (simp add: ht_wf_def) (metis size_mset)
  moreover have "distinct (concat (nodes ?t))"
    using assms resize_mset [of t] by (simp add: ht_wf_def) (metis mset_eq_imp_distinct_iff)
  moreover have "fst x \<in> V" if "x \<in> ht_entries t" for x
    using that assms by (auto simp: ht_wf_def ht_entries_def set_concat_nth simp del: set_concat)
  ultimately show ?thesis
    using assms resize_placed [of _ t]
    unfolding ht_wf_def resize_fields resize_entries by blast
qed

lemma ht_wf_RESIZE: "ht_wf V t \<Longrightarrow> ht_wf V (HASH_TABLE_RESIZE t)"
  by (simp add: HASH_TABLE_RESIZE_def ht_wf_resize)

lemma RESIZE_fields [simp, frame_simps]:
  "nnodes (HASH_TABLE_RESIZE t) = nnodes t"
  "hash_func (HASH_TABLE_RESIZE t) = hash_func t"
  "key_eq (HASH_TABLE_RESIZE t) = key_eq t"
  "ht_entries (HASH_TABLE_RESIZE t) = ht_entries t"
  "key_equal_func (HASH_TABLE_RESIZE t) = key_equal_func t"
  "key_destroy_func (HASH_TABLE_RESIZE t) = key_destroy_func t"
  "value_destroy_func (HASH_TABLE_RESIZE t) = value_destroy_func t"
  by (simp_all add: HASH_TABLE_RESIZE_def)

subsection \<open>Insertion\<close>

lemma insert_cases:
  fixes t :: "('k, 'v) di_hash_table" and k :: 'k and v :: 'v
  assumes ne: "nodes t \<noteq> []"
  defines "b \<equiv> bucket (hash_func t) (length (nodes t)) k"
  obtains
    (old) A C k0 v0 L R where "nodes t ! b = A @ (k0, v0) # C" "key_eq t k0 k"
      "concat (nodes t) = L @ (k0, v0) # R"
      "concat ((nodes t)[b := A @ (k0, v) # C]) = L @ (k0, v) # R"
      "ht_insert t k v = t\<lparr>nodes := (nodes t)[b := A @ (k0, v) # C]\<rparr>"
      "di_hash_table_lookup t k = Some v0"
  | (new) L R where "\<forall>x \<in> set (nodes t ! b). \<not> key_eq t (fst x) k"
      "concat (nodes t) = L @ R"
      "concat ((nodes t)[b := nodes t ! b @ [(k, v)]]) = L @ (k, v) # R"
      "ht_insert t k v = HASH_TABLE_RESIZE
         (t\<lparr>nodes := (nodes t)[b := nodes t ! b @ [(k, v)]], nnodes := nnodes t + 1\<rparr>)"
      "di_hash_table_lookup t k = None"
proof -
  let ?chain = "nodes t ! b"
  let ?i = "length (takeWhile (\<lambda>x. \<not> key_eq t (fst x) k) ?chain)"
  have b: "b < length (nodes t)" using ne by (simp add: b_def)
  have node: "internal_di_hash_table_lookup_node t k = (b, ?i)"
    by (simp add: internal_di_hash_table_lookup_node_def b_def Let_def)
  show thesis
  proof (cases "?i < length ?chain")
    case True
    obtain k0 v0 where n0: "?chain ! ?i = (k0, v0)" by fastforce
    obtain A C where split: "?chain = A @ [(k0, v0)] @ C"
      and upd: "?chain[?i := (k0, v)] = A @ [(k0, v)] @ C"
      using True id_take_nth_drop [OF True] n0 upd_conv_take_nth_drop [OF True, of "(k0, v)"]
      by (metis append_Cons append_Nil)
    have eq: "key_eq t k0 k"
      using nth_length_takeWhile [OF True] n0 by simp
    have ins: "ht_insert t k v = t\<lparr>nodes := (nodes t)[b := A @ (k0, v) # C]\<rparr>"
      using True node n0 upd by (simp add: di_hash_table_insert_def Let_def)
    have look: "di_hash_table_lookup t k = Some v0"
      using True node n0 by (simp add: di_hash_table_lookup_def)
    show thesis
      by (rule old [OF _ eq _ _ ins look, where L = "concat (take b (nodes t)) @ A"
            and R = "C @ concat (drop (Suc b) (nodes t))"])
        (use split concat_update_split(1) [OF b split]
          concat_update_split(2) [OF b split, of "[(k0, v)]"] in simp_all)
  next
    case False
    then have "takeWhile (\<lambda>x. \<not> key_eq t (fst x) k) ?chain = ?chain"
      by (metis append_Nil2 takeWhile_dropWhile_id length_append nless_le
          le_add1 length_0_conv add_cancel_left_right)
    then have "\<forall>x \<in> set ?chain. \<not> key_eq t (fst x) k" by (metis set_takeWhileD)
    moreover have "?chain = ?chain @ [] @ []" by simp
    note split = concat_update_split(1) [OF b this] concat_update_split(2) [OF b this, of "[(k, v)]"]
    have ins: "ht_insert t k v = HASH_TABLE_RESIZE
        (t\<lparr>nodes := (nodes t)[b := nodes t ! b @ [(k, v)]], nnodes := nnodes t + 1\<rparr>)"
      using False node by (simp add: di_hash_table_insert_def Let_def)
    have look: "di_hash_table_lookup t k = None"
      using False node by (simp add: di_hash_table_lookup_def)
    ultimately show thesis
      using split by (intro new [OF _ _ _ ins look, where L = "concat (take b (nodes t)) @ nodes t ! b"
          and R = "concat (drop (Suc b) (nodes t))"]) simp_all
  qed
qed

lemma insert_absent:
  assumes "nodes t \<noteq> []" "di_hash_table_lookup t k = None"
  shows "ht_entries (ht_insert t k v) = insert (k, v) (ht_entries t)"
    and "snd (di_hash_table_insert t k v) = (None, None)"
proof -
  show "ht_entries (ht_insert t k v) = insert (k, v) (ht_entries t)"
    using assms(1)
  proof (cases rule: insert_cases [of t k v, consumes 1, case_names old new])
    case (new L R)
    then show ?thesis unfolding new(4) RESIZE_fields by (auto simp: ht_entries_def simp del: set_concat)
  qed (use assms(2) in simp)
  show "snd (di_hash_table_insert t k v) = (None, None)"
    using assms(2) by (auto simp: di_hash_table_insert_def di_hash_table_lookup_def Let_def
        split: prod.splits if_splits)
qed

lemma insert_destroys:
  "di_hash_table_lookup t k = Some v0 \<Longrightarrow> value_destroy_func t \<Longrightarrow>
   snd (snd (di_hash_table_insert t k v)) = Some v0"
  by (auto simp: di_hash_table_insert_def di_hash_table_lookup_def Let_def split: prod.splits if_splits)

lemma insert_funcs [simp]:
  "hash_func (ht_insert t k v) = hash_func t" "key_equal_func (ht_insert t k v) = key_equal_func t"
  "value_destroy_func (ht_insert t k v) = value_destroy_func t"
  by (simp_all add: di_hash_table_insert_def Let_def case_prod_beta)

lemma insert_nodes_placed:
  assumes "ht_wf V t" and "\<And>x. x \<in> set chain \<Longrightarrow>
      fst x \<in> V \<and> bucket (hash_func t) (length (nodes t)) (fst x) = b"
  shows "\<forall>i < length ((nodes t)[b := chain]). \<forall>x \<in> set ((nodes t)[b := chain] ! i).
      fst x \<in> V \<and> bucket (hash_func t) (length ((nodes t)[b := chain])) (fst x) = i"
proof (intro allI impI)
  fix i
  assume "i < length ((nodes t)[b := chain])"
  then show "\<forall>x \<in> set ((nodes t)[b := chain] ! i).
      fst x \<in> V \<and> bucket (hash_func t) (length ((nodes t)[b := chain])) (fst x) = i"
    using assms by (cases "i = b") (simp_all add: ht_wf_def)
qed

subsection \<open>Requirements on a hash and an equality function\<close>

definition ht_ok :: "'k set \<Rightarrow> ('k \<Rightarrow> u32) \<Rightarrow> ('k \<Rightarrow> 'k \<Rightarrow> bool) \<Rightarrow> ('k, 'v) di_hash_table \<Rightarrow> bool" where
  "ht_ok V h eq t = (ht_wf V t \<and> hash_func t = h \<and> key_eq t = eq)"

locale hash_key =
  fixes valid :: "'k set"
    and hash :: "'k \<Rightarrow> u32"
    and eqk :: "'k \<Rightarrow> 'k \<Rightarrow> bool"
  assumes eq_refl: "k \<in> valid \<Longrightarrow> eqk k k"
    and eq_sym: "k \<in> valid \<Longrightarrow> l \<in> valid \<Longrightarrow> eqk k l \<Longrightarrow> eqk l k"
    and eq_trans: "k \<in> valid \<Longrightarrow> l \<in> valid \<Longrightarrow> m \<in> valid \<Longrightarrow> eqk k l \<Longrightarrow> eqk l m \<Longrightarrow> eqk k m"
    and eq_hash: "k \<in> valid \<Longrightarrow> l \<in> valid \<Longrightarrow> eqk k l \<Longrightarrow> hash k = hash l"
begin

lemma entry_valid: "ht_ok valid hash eqk t \<Longrightarrow> x \<in> ht_entries t \<Longrightarrow> fst x \<in> valid"
  by (auto simp: ht_ok_def ht_wf_def ht_entries_def set_concat_nth simp del: set_concat)

lemma lookup_entries:
  assumes ok: "ht_ok valid hash eqk t" and k: "k \<in> valid"
  shows "di_hash_table_lookup t k = Some v \<longleftrightarrow> (\<exists>k0. (k0, v) \<in> ht_entries t \<and> eqk k0 k)"
proof
  let ?b = "bucket hash (length (nodes t)) k"
  have b: "?b < length (nodes t)" using ok by (simp add: ht_ok_def ht_wf_def)
  have in_chain: "x \<in> set (nodes t ! ?b) \<Longrightarrow> x \<in> ht_entries t" for x
    using b by (auto simp: ht_entries_def set_concat_nth simp del: set_concat)
  { assume "di_hash_table_lookup t k = Some v"
    then obtain k0 where "find (\<lambda>x. eqk (fst x) k) (nodes t ! ?b) = Some (k0, v)"
      using ok by (auto simp: lookup_find ht_ok_def)
    then show "\<exists>k0. (k0, v) \<in> ht_entries t \<and> eqk k0 k"
      using in_chain by (fastforce dest: find_Some_set) }
  { assume "\<exists>k0. (k0, v) \<in> ht_entries t \<and> eqk k0 k"
    then obtain k0 where e: "(k0, v) \<in> ht_entries t" and q: "eqk k0 k" by blast
    have k0: "k0 \<in> valid" using entry_valid [OF ok e] by simp
    obtain i where i: "i < length (nodes t)" "(k0, v) \<in> set (nodes t ! i)"
      using e by (auto simp: ht_entries_def set_concat_nth simp del: set_concat)
    then have "i = bucket hash (length (nodes t)) k0"
      using ok by (fastforce simp: ht_ok_def ht_wf_def)
    then have ib: "i = ?b" using eq_hash [OF k0 k q] by (simp add: bucket_def)
    then obtain x where x: "find (\<lambda>x. eqk (fst x) k) (nodes t ! ?b) = Some x"
      using i(2) q by (cases "find (\<lambda>x. eqk (fst x) k) (nodes t ! ?b)")
        (auto simp: find_None_iff)
    then have xe: "x \<in> ht_entries t" and xk: "eqk (fst x) k"
      using find_Some_set [OF x] in_chain [of x] by auto
    have "eqk (fst x) k0"
      using xk q k k0 entry_valid [OF ok xe] by (meson eq_sym eq_trans)
    then have "x = (k0, v)"
      using ok xe e by (fastforce simp: ht_ok_def ht_wf_def)
    with x show "di_hash_table_lookup t k = Some v"
      using ok by (simp add: lookup_find ht_ok_def) }
qed

lemma ht_ok_new: "ht_ok valid hash eqk (di_hash_table_new_full hash (Some eqk) kd vd)"
  by (simp add: ht_ok_def ht_wf_def di_hash_table_new_full_def ht_entries_def key_eq_def
      HASH_TABLE_MIN_SIZE_def fun_eq_iff)

lemma lookup_new: "di_hash_table_lookup (di_hash_table_new_full hash (Some eqk) kd vd) k = None"
  by (simp add: lookup_find di_hash_table_new_full_def HASH_TABLE_MIN_SIZE_def bucket_def)

lemma entries_unique:
  "ht_ok valid hash eqk t \<Longrightarrow> x \<in> ht_entries t \<Longrightarrow> y \<in> ht_entries t \<Longrightarrow> eqk (fst x) (fst y) \<Longrightarrow> x = y"
  by (simp add: ht_ok_def ht_wf_def)

lemma entry_placed:
  "ht_ok valid hash eqk t \<Longrightarrow> i < length (nodes t) \<Longrightarrow> x \<in> set (nodes t ! i) \<Longrightarrow>
   fst x \<in> valid \<and> bucket hash (length (nodes t)) (fst x) = i"
  by (auto simp: ht_ok_def ht_wf_def)

text \<open>The node of a key is the only one with an equal key.\<close>

lemma split_unique:
  assumes ok: "ht_ok valid hash eqk t" and k: "k \<in> valid"
    and conc: "concat (nodes t) = L @ (k0, v0) # R" and eq: "eqk k0 k"
    and x: "x \<in> set L \<union> set R"
  shows "\<not> eqk (fst x) k"
proof
  assume xk: "eqk (fst x) k"
  have xe: "x \<in> ht_entries t" and ke: "(k0, v0) \<in> ht_entries t"
    using x by (auto simp: ht_entries_def conc)
  have "eqk (fst x) k0"
    using xk eq k entry_valid [OF ok xe] entry_valid [OF ok ke] by simp (meson eq_sym eq_trans)
  then have "x = (k0, v0)" using entries_unique [OF ok xe ke] by simp
  with x show False using ok conc by (auto simp: ht_ok_def ht_wf_def)
qed

text \<open>A table whose chain \<open>b\<close> is replaced stays well formed if the new chain is.\<close>

lemma ht_ok_update:
  assumes ok: "ht_ok valid hash eqk t"
    and chain: "\<And>x. x \<in> set chain \<Longrightarrow> fst x \<in> valid \<and> bucket hash (length (nodes t)) (fst x) = b"
    and conc: "concat ((nodes t)[b := chain]) = L @ (k0, v) # R"
    and old: "set L \<union> set R \<subseteq> ht_entries t" "distinct (L @ R)"
    and k: "k \<in> valid" "k0 \<in> valid" "eqk k0 k"
    and neq: "\<And>x. x \<in> set L \<union> set R \<Longrightarrow> \<not> eqk (fst x) k"
    and n: "n = length L + length R + 1"
  shows "ht_ok valid hash eqk (t\<lparr>nodes := (nodes t)[b := chain], nnodes := n\<rparr>)" (is "ht_ok _ _ _ ?t")
proof -
  have ent: "ht_entries ?t = set L \<union> set R \<union> {(k0, v)}"
    by (auto simp: ht_entries_def conc simp del: set_concat)
  have valid: "fst x \<in> valid" if "x \<in> set L \<union> set R" for x
    using that old(1) entry_valid [OF ok] by blast
  have nk0: "\<not> eqk (fst x) k0" "\<not> eqk k0 (fst x)" if "x \<in> set L \<union> set R" for x
    using neq [OF that] valid [OF that] k by (meson eq_sym eq_trans)+
  have "\<forall>x \<in> ht_entries ?t. \<forall>y \<in> ht_entries ?t. key_eq ?t (fst x) (fst y) \<longrightarrow> x = y"
  proof (intro ballI impI)
    fix x y
    assume x: "x \<in> ht_entries ?t" and y: "y \<in> ht_entries ?t" and "key_eq ?t (fst x) (fst y)"
    then have e: "eqk (fst x) (fst y)" using ok by (simp add: ht_ok_def)
    show "x = y"
    proof (cases "x = (k0, v) \<or> y = (k0, v)")
      case True
      with e nk0 [of x] nk0 [of y] x y show ?thesis unfolding ent by auto
    next
      case False
      with x y old(1) have "x \<in> ht_entries t" "y \<in> ht_entries t" unfolding ent by auto
      then show ?thesis using e by (rule entries_unique [OF ok])
    qed
  qed
  moreover have "(k0, v) \<notin> set L \<union> set R"
    using nk0 [of "(k0, v)"] eq_refl [OF k(2)] by auto
  moreover have "nodes t \<noteq> []" using ok by (simp add: ht_ok_def ht_wf_def)
  moreover have "ht_wf valid t" "hash_func t = hash" "key_eq t = eqk"
    using ok by (simp_all add: ht_ok_def)
  ultimately show ?thesis
    using insert_nodes_placed [of valid t chain b] chain old(2) n
    by (simp add: ht_ok_def ht_wf_def conc del: concat.simps)
qed

text \<open>Insertion replaces whatever entry has an equal key by one with the new value.\<close>

lemma insert_entries:
  assumes ok: "ht_ok valid hash eqk t" and k: "k \<in> valid"
  shows "\<exists>k0 \<in> valid. eqk k0 k \<and> ht_ok valid hash eqk (ht_insert t k v) \<and>
    ht_entries (ht_insert t k v) = {x \<in> ht_entries t. \<not> eqk (fst x) k} \<union> {(k0, v)}"
proof -
  have [simp]: "hash_func t = hash" "key_eq t = eqk" using ok by (simp_all add: ht_ok_def)
  have ne: "nodes t \<noteq> []" and wf: "ht_wf valid t" using ok by (simp_all add: ht_ok_def ht_wf_def)
  let ?b = "bucket hash (length (nodes t)) k"
  have b: "?b < length (nodes t)" using ne by simp
  from ne show ?thesis
  proof (cases rule: insert_cases [of t k v, consumes 1, case_names old new])
    case (old A C k0 v0 L R)
    have node: "k0 \<in> valid \<and> bucket hash (length (nodes t)) k0 = ?b"
      using entry_placed [OF ok b, of "(k0, v0)"] old(1) by simp
    have eq: "eqk k0 k" using old(2) by simp
    note neq = split_unique [OF ok k old(3) eq]
    have n: "nnodes t = length L + length R + 1" and d: "distinct (L @ R)"
      using wf old(3) by (auto simp: ht_wf_def)
    have "ht_ok valid hash eqk (t\<lparr>nodes := (nodes t)[?b := A @ (k0, v) # C], nnodes := nnodes t\<rparr>)"
    proof (rule ht_ok_update [OF ok _ _ _ d k _ eq neq n, where v = v])
      show "fst x \<in> valid \<and> bucket hash (length (nodes t)) (fst x) = ?b"
        if "x \<in> set (A @ (k0, v) # C)" for x
        using that node entry_placed [OF ok b, of x] old(1) by (cases "x = (k0, v)") auto
    qed (use node old(3,4) in \<open>auto simp: ht_entries_def\<close>)
    moreover have "ht_entries (ht_insert t k v) = {x \<in> ht_entries t. \<not> eqk (fst x) k} \<union> {(k0, v)}"
      using old(3,4,5) neq eq by (auto simp: ht_entries_def)
    ultimately show ?thesis using node eq old(5) by auto
  next
    case (new L R)
    let ?t = "t\<lparr>nodes := (nodes t)[?b := nodes t ! ?b @ [(k, v)]], nnodes := nnodes t + 1\<rparr>"
    have neq: "\<not> eqk (fst x) k" if "x \<in> ht_entries t" for x
      using new(5) lookup_entries [OF ok k] that by (metis option.distinct(1) prod.collapse)
    have LR: "set L \<union> set R = ht_entries t" "distinct (L @ R)" "nnodes t = length L + length R"
      using wf new(2) by (auto simp: ht_wf_def ht_entries_def simp del: set_concat)
    have "ht_ok valid hash eqk ?t"
    proof (rule ht_ok_update [OF ok _ _ _ LR(2) k k eq_refl [OF k], where v = v])
      show "fst x \<in> valid \<and> bucket hash (length (nodes t)) (fst x) = ?b"
        if "x \<in> set (nodes t ! ?b @ [(k, v)])" for x
        using that k entry_placed [OF ok b, of x] by auto
    qed (use new(3) LR neq in \<open>auto\<close>)
    moreover have "ht_entries ?t = {x \<in> ht_entries t. \<not> eqk (fst x) k} \<union> {(k, v)}"
      using new(2,3) neq by (auto simp: ht_entries_def)
    ultimately show ?thesis
      using k eq_refl new(4) by (auto simp: ht_ok_def ht_wf_RESIZE)
  qed
qed

lemma insert_present:
  assumes ok: "ht_ok valid hash eqk t" and k: "k \<in> valid" and look: "di_hash_table_lookup t k = Some v0"
  obtains k0 where "(k0, v0) \<in> ht_entries t" "eqk k0 k"
    "ht_entries (ht_insert t k v) = {x \<in> ht_entries t. \<not> eqk (fst x) k} \<union> {(k0, v)}"
proof -
  have [simp]: "key_eq t = eqk" and ne: "nodes t \<noteq> []" using ok by (simp_all add: ht_ok_def ht_wf_def)
  from ne show thesis
  proof (cases rule: insert_cases [of t k v, consumes 1, case_names old new])
    case (old A C k0 v0' L R)
    then have eq: "eqk k0 k" and v0: "v0' = v0" using look by simp_all
    note neq = split_unique [OF ok k old(3) eq]
    show thesis
      by (rule that [of k0]) (use old(3,4,5) neq eq v0 in \<open>auto simp: ht_entries_def simp del: set_concat\<close>)
  qed (use look in simp)
qed

lemma ht_ok_insert: "ht_ok valid hash eqk t \<Longrightarrow> k \<in> valid \<Longrightarrow> ht_ok valid hash eqk (ht_insert t k v)"
  using insert_entries [of t k v] by auto

lemma lookup_ht_insert:
  assumes ok: "ht_ok valid hash eqk t" and k: "k \<in> valid" and l: "l \<in> valid"
  shows "di_hash_table_lookup (ht_insert t k v) l =
    (if eqk k l then Some v else di_hash_table_lookup t l)"
proof -
  obtain k0 where k0: "k0 \<in> valid" "eqk k0 k" and ok': "ht_ok valid hash eqk (ht_insert t k v)"
    and ent: "ht_entries (ht_insert t k v) = {x \<in> ht_entries t. \<not> eqk (fst x) k} \<union> {(k0, v)}"
    using insert_entries [OF ok k] by blast
  have "di_hash_table_lookup (ht_insert t k v) l = Some w \<longleftrightarrow>
      (if eqk k l then Some v else di_hash_table_lookup t l) = Some w" for w
  proof (cases "eqk k l")
    case True
    have "eqk x k" if "eqk x l" "x \<in> valid" for x
      using that True k l by (meson eq_sym eq_trans)
    moreover have "eqk k0 l" using True k0 k l by (meson eq_trans)
    ultimately show ?thesis
      using True entry_valid [OF ok] by (auto simp: lookup_entries [OF ok' l] ent)
  next
    case False
    have "\<not> eqk x k" if "eqk x l" "x \<in> valid" for x
      using that False k l by (meson eq_sym eq_trans)
    moreover have "\<not> eqk k0 l" using False k0 k l by (meson eq_sym eq_trans)
    ultimately show ?thesis
      using False entry_valid [OF ok] lookup_entries [OF ok l, of w]
      by (auto simp: lookup_entries [OF ok' l] ent)
  qed
  then show ?thesis by (metis not_Some_eq)
qed

end

subsection \<open>Tables keyed by sized strings\<close>

text \<open>
  Every table of the library uses \<open>di_rstring_hash\<close> and \<open>di_rstring_equal\<close>. They fit
  together on keys without NUL bytes (a NUL stops the comparison but not the hash).
\<close>

abbreviation rstring_keys :: "di_rstring set" where
  "rstring_keys \<equiv> {s. nul_free s}"

abbreviation rstring_table :: "(di_rstring, 'v) di_hash_table" where
  "rstring_table \<equiv> di_hash_table_new di_rstring_hash (Some di_rstring_equal)"

interpretation rstr: hash_key rstring_keys di_rstring_hash di_rstring_equal
  by unfold_locales (auto simp: di_rstring_equal_iff intro: di_rstring_equal_hash)

interpretation rstr_store: key_store rstring_keys di_rstring_equal
  "ht_ok rstring_keys di_rstring_hash di_rstring_equal" rstring_table ht_insert di_hash_table_lookup
  by unfold_locales
    (auto simp: rstr.lookup_ht_insert rstr.ht_ok_new rstr.lookup_new rstr.ht_ok_insert
      di_hash_table_new_def di_rstring_equal_iff)

text \<open>A new table after the insertion of a list of entries, from left to right.\<close>

definition insert_list :: "(di_rstring \<times> 'v) list \<Rightarrow> (di_rstring, 'v) di_hash_table" where
  "insert_list es = foldl (\<lambda>t (k, v). ht_insert t k v) rstring_table es"

abbreviation nul_free_keys :: "(di_rstring \<times> 'v) list \<Rightarrow> bool" where
  "nul_free_keys es \<equiv> list_all (\<lambda>(k, v). nul_free k) es"

lemma insert_list_simps [simp]:
  "insert_list [] = rstring_table"
  "insert_list (es @ [e]) = ht_insert (insert_list es) (fst e) (snd e)"
  by (simp_all add: insert_list_def case_prod_beta)

lemma insert_list_all: "insert_list es = rstr_store.insert_all rstring_table es"
  by (simp add: insert_list_def rstr_store.insert_all_def)

lemma nul_free_keys_iff: "nul_free_keys es \<longleftrightarrow> fst ` set es \<subseteq> rstring_keys"
  by (induction es) auto

lemma ht_ok_insert_list:
  "nul_free_keys es \<Longrightarrow>
   ht_ok rstring_keys di_rstring_hash di_rstring_equal (insert_list es)"
  using rstr_store.insert_all_invar [OF rstr_store.invar_empty, of es]
  by (simp add: insert_list_all nul_free_keys_iff)

abbreviation fold_key :: "di_rstring \<times> 'v \<Rightarrow> string" where
  "fold_key x \<equiv> map c_tolower (fst x)"

lemma fold_key_entries_insert:
  assumes "ht_ok rstring_keys di_rstring_hash di_rstring_equal t" and k: "nul_free k"
  shows "fold_key ` ht_entries (ht_insert t k v) = insert (map c_tolower k) (fold_key ` ht_entries t)"
proof -
  obtain k0 where k0: "nul_free k0" "di_rstring_equal k0 k"
    and ent: "ht_entries (ht_insert t k v) =
      {x \<in> ht_entries t. \<not> di_rstring_equal (fst x) k} \<union> {(k0, v)}"
    using rstr.insert_entries [OF assms(1), of k v] k by auto
  have eq: "di_rstring_equal (fst x) k \<longleftrightarrow> fold_key x = map c_tolower k"
    if "x \<in> ht_entries t" for x
    using rstr.entry_valid [OF assms(1) that] k by (simp add: di_rstring_equal_iff)
  have "map c_tolower k0 = map c_tolower k" using k0 k by (simp add: di_rstring_equal_iff)
  then show ?thesis unfolding ent using eq by auto
qed

lemma fold_key_entries_insert_list:
  "nul_free_keys es \<Longrightarrow> fold_key ` ht_entries (insert_list es) = fold_key ` set es"
proof (induction es rule: rev_induct)
  case Nil
  then show ?case
    by (simp add: ht_entries_def di_hash_table_new_def di_hash_table_new_full_def)
next
  case (snoc e es)
  obtain k v where e: "e = (k, v)" by fastforce
  from snoc have "nul_free_keys es" "nul_free k" by (simp_all add: e)
  from fold_key_entries_insert [OF ht_ok_insert_list [OF this(1)] this(2)] snoc
  show ?case by (simp add: e)
qed

lemma card_fold_keys:
  assumes ok: "ht_ok rstring_keys di_rstring_hash di_rstring_equal t"
  shows "nnodes t = card (fold_key ` ht_entries t)"
proof -
  have "inj_on fold_key (ht_entries t)"
  proof (rule inj_onI)
    fix x y
    assume x: "x \<in> ht_entries t" and y: "y \<in> ht_entries t" and "fold_key x = fold_key y"
    then have "di_rstring_equal (fst x) (fst y)"
      using rstr.entry_valid [OF ok] by (simp add: di_rstring_equal_iff)
    with x y show "x = y" by (rule rstr.entries_unique [OF ok])
  qed
  then have "card (fold_key ` ht_entries t) = card (ht_entries t)" by (rule card_image)
  also have "\<dots> = length (concat (nodes t))"
    using ok unfolding ht_entries_def by (intro distinct_card) (simp add: ht_ok_def ht_wf_def)
  finally show ?thesis using ok by (simp add: ht_ok_def ht_wf_def)
qed

lemma insert_size_bounds:
  "HASH_TABLE_MIN_SIZE \<le> length (nodes t) \<Longrightarrow> length (nodes t) \<le> HASH_TABLE_MAX_SIZE \<Longrightarrow>
   HASH_TABLE_MIN_SIZE \<le> length (nodes (ht_insert t k v)) \<and>
   length (nodes (ht_insert t k v)) \<le> HASH_TABLE_MAX_SIZE"
  by (auto simp: di_hash_table_insert_def HASH_TABLE_RESIZE_def case_prod_beta Let_def
      resize_size_bounds)

lemma insert_list_size_bounds:
  "HASH_TABLE_MIN_SIZE \<le> length (nodes (insert_list es)) \<and>
   length (nodes (insert_list es)) \<le> HASH_TABLE_MAX_SIZE"
proof (induction es rule: rev_induct)
  case Nil
  then show ?case
    by (simp add: di_hash_table_new_def di_hash_table_new_full_def HASH_TABLE_MIN_SIZE_def
        HASH_TABLE_MAX_SIZE_def)
next
  case (snoc e es)
  then show ?case by (simp add: insert_size_bounds)
qed

subsection \<open>Properties\<close>

text \<open>
  Property C13. After any sequence of insertions into a new table with NUL-free keys,
  \<open>di_hash_table_lookup\<close> returns the value of the last inserted entry whose key agrees
  with the searched one up to ASCII case, through every resize on the way.
\<close>

theorem hash_table_last_entry_wins:
  assumes "nul_free_keys es" and "nul_free l"
  shows "di_hash_table_lookup (insert_list es) l =
    map_option snd (find (\<lambda>(k, v). map c_tolower k = map c_tolower l) (rev es))"
proof -
  have "find (\<lambda>(k, v). di_rstring_equal k l) (rev es) =
      find (\<lambda>(k, v). map c_tolower k = map c_tolower l) (rev es)"
    by (rule find_cong) (use assms in \<open>auto simp: di_rstring_equal_iff list_all_iff\<close>)
  then show ?thesis
    using rstr_store.lookup_insert_all [OF rstr_store.invar_empty, of es l] assms
    by (auto simp: insert_list_all nul_free_keys_iff rstr_store.lookup_empty split: option.splits)
qed

theorem hash_table_last_entry_wins_witness:
  "di_hash_table_lookup (insert_list [(''Depends'', 1::nat), (''Size'', 2), (''DEPENDS'', 3)])
     ''depends'' = Some 3"
proof -
  have "nul_free_keys [(''Depends'', 1::nat), (''Size'', 2), (''DEPENDS'', 3)]"
    and "nul_free ''depends''"
    by simp_all
  from hash_table_last_entry_wins [OF this] show ?thesis
    by (simp add: c_tolower_eval)
qed

text \<open>
  In a table filled by insertions, the node count that
  \<open>di_hash_table_size\<close> reports is the number of different keys up to ASCII case,
  \<open>di_hash_table_foreach\<close> visits exactly that many pairs and none twice, and the number of
  chains stays between the smallest and the largest table size.
\<close>

theorem hash_table_counts_keys:
  assumes "nul_free_keys es"
  shows "di_hash_table_size (insert_list es) = card ((\<lambda>(k, v). map c_tolower k) ` set es) \<and>
    length (di_hash_table_foreach (insert_list es)) = di_hash_table_size (insert_list es) \<and>
    distinct (di_hash_table_foreach (insert_list es)) \<and>
    11 \<le> length (nodes (insert_list es)) \<and> length (nodes (insert_list es)) \<le> 13845163"
proof -
  note ok = ht_ok_insert_list [OF assms]
  have "(\<lambda>(k, v). map c_tolower k) ` set es = fold_key ` set es" by force
  then have "di_hash_table_size (insert_list es) = card ((\<lambda>(k, v). map c_tolower k) ` set es)"
    using card_fold_keys [OF ok] fold_key_entries_insert_list [OF assms]
    by (simp add: di_hash_table_size_def)
  moreover have "length (di_hash_table_foreach (insert_list es)) = di_hash_table_size (insert_list es)"
    and "distinct (di_hash_table_foreach (insert_list es))"
    using ok by (simp_all add: di_hash_table_foreach_def di_hash_table_size_def ht_ok_def ht_wf_def)
  ultimately show ?thesis
    using insert_list_size_bounds [of es]
    by (simp add: HASH_TABLE_MIN_SIZE_def HASH_TABLE_MAX_SIZE_def)
qed

theorem hash_table_counts_keys_witness:
  "di_hash_table_size (insert_list [(''a'', 1::nat), (''b'', 2), (''A'', 3)]) = 2"
proof -
  have "nul_free_keys [(''a'', 1::nat), (''b'', 2), (''A'', 3)]" by simp
  from hash_table_counts_keys [OF this] show ?thesis
    by (simp add: c_tolower_eval card_insert_if)
qed

end
