(* ===== verification/DI_Version.thy ===== *)
theory DI_Version
  imports DI_Prelude
begin

text \<open>
  The version arithmetic of \<^verbatim>\<open>libdebian-installer/src/package.c\<close>: parsing a version
  string and the comparison of versions. Each of the three nested loops of
  \<open>verrevcmp\<close> is a function on the two pointers, given as the suffixes they point to.

  The comparison is related to a reference definition, \<open>version_key\<close>: a version string
  is the sequence of its character weights and numbers, and two sequences compare
  lexicographically with zeros after their ends.
\<close>

subsection \<open>The source\<close>

definition order :: "char \<Rightarrow> int" where
  "order x = (if x = CHR ''~'' then -1
     else if c_isdigit x then 0
     else if x = NUL then 0
     else if c_isalpha x then schar x
     else schar x + 256)"

text \<open>The condition \<open>*p && !isdigit (*p)\<close>.\<close>

definition at_nondigit :: "string \<Rightarrow> bool" where
  "at_nondigit s \<longleftrightarrow> peek s \<noteq> NUL \<and> \<not> c_isdigit (peek s)"

lemma at_nondigit_simps [simp]:
  "\<not> at_nondigit []" "at_nondigit (c # s) \<longleftrightarrow> c \<noteq> NUL \<and> \<not> c_isdigit c"
  by (simp_all add: at_nondigit_def)

text \<open>The loop over non-digits: the result of the comparison, or the pointers where it ends.\<close>

function verrevcmp_nondigit :: "string \<Rightarrow> string \<Rightarrow> int + string \<times> string" where
  "verrevcmp_nondigit val ref =
     (if at_nondigit val \<or> at_nondigit ref then
        (let vc = order (peek val); rc = order (peek ref)
         in if vc \<noteq> rc then Inl (vc - rc) else verrevcmp_nondigit (tl val) (tl ref))
      else Inr (val, ref))"
  by pat_completeness auto
termination
proof (relation "measure (\<lambda>(val, ref). length val + length ref)", goal_cases)
  case (2 val ref)
  then have "val \<noteq> [] \<or> ref \<noteq> []" by auto
  then show ?case by (cases val; cases ref) auto
qed simp

declare verrevcmp_nondigit.simps [simp del]

text \<open>The loop over the common digits, with \<open>first_diff\<close> as accumulator.\<close>

fun verrevcmp_digits :: "int \<Rightarrow> string \<Rightarrow> string \<Rightarrow> int \<times> string \<times> string" where
  "verrevcmp_digits first_diff (v # val) (r # ref) =
     (if c_isdigit v \<and> c_isdigit r
      then verrevcmp_digits (if first_diff = 0 then schar v - schar r else first_diff) val ref
      else (first_diff, v # val, r # ref))"
| "verrevcmp_digits first_diff val ref = (first_diff, val, ref)"

lemma verrevcmp_nondigit_length:
  "verrevcmp_nondigit val ref = Inr (v, r) \<Longrightarrow>
   length v \<le> length val \<and> length r \<le> length ref \<and> \<not> at_nondigit v \<and> \<not> at_nondigit r \<and>
   (at_nondigit val \<or> at_nondigit ref \<longrightarrow> length v + length r < length val + length ref)"
proof (induction val ref rule: verrevcmp_nondigit.induct)
  case (1 val ref)
  show ?case
  proof (cases "at_nondigit val \<or> at_nondigit ref")
    case True
    with 1 have "verrevcmp_nondigit (tl val) (tl ref) = Inr (v, r)" and "order (peek val) = order (peek ref)"
      by (auto simp: verrevcmp_nondigit.simps [of val ref] Let_def split: if_splits)
    with 1(1) [OF True refl refl] have "length v \<le> length (tl val)" "length r \<le> length (tl ref)"
      "\<not> at_nondigit v" "\<not> at_nondigit r" by auto
    moreover have "val \<noteq> [] \<or> ref \<noteq> []" using True by auto
    ultimately show ?thesis by (cases val; cases ref) auto
  next
    case False
    with 1(2) show ?thesis by (auto simp: verrevcmp_nondigit.simps [of val ref])
  qed
qed

lemma verrevcmp_digits_stop:
  "\<not> (c_isdigit (peek val) \<and> c_isdigit (peek ref)) \<Longrightarrow> verrevcmp_digits d val ref = (d, val, ref)"
  by (cases "(d, val, ref)" rule: verrevcmp_digits.cases) auto

lemma verrevcmp_digits_length:
  "verrevcmp_digits d val ref = (fd, v, r) \<Longrightarrow>
   length v \<le> length val \<and> length r \<le> length ref \<and>
   (c_isdigit (peek val) \<and> c_isdigit (peek ref) \<longrightarrow> length v < length val)"
proof (induction d val ref rule: verrevcmp_digits.induct)
  case (1 first_diff v val r ref)
  then show ?case by (cases "c_isdigit v \<and> c_isdigit r") force+
qed (auto simp: c_isdigit_def)

abbreviation skip0 :: "string \<Rightarrow> string" where
  "skip0 \<equiv> dropWhile (\<lambda>c. c = CHR ''0'')"

lemma skip0_length: "length (skip0 s) \<le> length s"
  by (rule length_dropWhile_le)

lemma skip0_zero: "peek s = CHR ''0'' \<Longrightarrow> length (skip0 s) < length s"
  by (cases s) (auto simp: le_imp_less_Suc length_dropWhile_le)

lemma skip0_nonzero: "peek s \<noteq> CHR ''0'' \<Longrightarrow> skip0 s = s"
  by (cases s) auto

lemma verrevcmp_round_shorter:
  assumes "\<not> (peek val = NUL \<and> peek ref = NUL)" "verrevcmp_nondigit val ref = Inr (v, r)"
    "verrevcmp_digits 0 (skip0 v) (skip0 r) = (fd, v', r')"
    "\<not> c_isdigit (peek v')" "\<not> c_isdigit (peek r')"
  shows "length v' + length r' < length val + length ref"
proof -
  note nd = verrevcmp_nondigit_length [OF assms(2)]
  note dg = verrevcmp_digits_length [OF assms(3)]
  note s0 = skip0_length [of v] skip0_length [of r]
  show ?thesis
  proof (cases "at_nondigit val \<or> at_nondigit ref")
    case True
    then show ?thesis using nd dg s0 by linarith
  next
    case False
    then have [simp]: "v = val" "r = ref" using assms(2) by (auto simp: verrevcmp_nondigit.simps [of val ref])
    show ?thesis
    proof (cases "peek v = CHR ''0'' \<or> peek r = CHR ''0''")
      case True
      then show ?thesis using skip0_zero [of v] skip0_zero [of r] nd dg s0 by auto
    next
      case nz: False
      then have [simp]: "skip0 val = val" "skip0 ref = ref" using skip0_nonzero by auto
      have "c_isdigit (peek val) \<and> c_isdigit (peek ref)"
      proof (rule ccontr)
        assume "\<not> ?thesis"
        then have "v' = val" "r' = ref" using assms(3) verrevcmp_digits_stop by auto
        with False assms show False by (auto simp: at_nondigit_def)
      qed
      then show ?thesis using dg by auto
    qed
  qed
qed

text \<open>The whole comparison; a NULL argument is the empty string.\<close>

function verrevcmp_loop :: "string \<Rightarrow> string \<Rightarrow> int" where
  "verrevcmp_loop val ref =
     (if peek val = NUL \<and> peek ref = NUL then 0
      else case verrevcmp_nondigit val ref of
        Inl d \<Rightarrow> d
      | Inr (v, r) \<Rightarrow>
          (case verrevcmp_digits 0 (skip0 v) (skip0 r) of (first_diff, v', r') \<Rightarrow>
             if c_isdigit (peek v') then 1
             else if c_isdigit (peek r') then -1
             else if first_diff \<noteq> 0 then first_diff
             else verrevcmp_loop v' r'))"
  by pat_completeness auto
termination
  by (relation "measure (\<lambda>(val, ref). length val + length ref)")
    (auto intro: verrevcmp_round_shorter [OF _ _ sym])

declare verrevcmp_loop.simps [simp del]

definition verrevcmp :: "string option \<Rightarrow> string option \<Rightarrow> int" where
  "verrevcmp val ref = verrevcmp_loop (case val of None \<Rightarrow> [] | Some s \<Rightarrow> s)
     (case ref of None \<Rightarrow> [] | Some s \<Rightarrow> s)"

record di_package_version =
  epoch :: "64 word"
  upstream :: "string option"
  debian_revision :: "string option"

definition di_package_version_compare :: "di_package_version \<Rightarrow> di_package_version \<Rightarrow> int" where
  "di_package_version_compare a b =
     (if epoch a > epoch b then 1
      else if epoch a < epoch b then -1
      else (let r = verrevcmp (upstream a) (upstream b)
            in if r \<noteq> 0 then r else verrevcmp (debian_revision a) (debian_revision b)))"

definition di_package_version_parse :: "string option \<Rightarrow> di_package_version option" where
  "di_package_version_parse pversion =
     (case pversion of None \<Rightarrow> None
      | Some version \<Rightarrow>
          (let split = (\<lambda>e string.
             case strrchr string CHR ''-'' of
               Some h \<Rightarrow> \<lparr>epoch = e, upstream = Some (take h string),
                          debian_revision = Some (drop (h + 1) string)\<rparr>
             | None \<Rightarrow> \<lparr>epoch = e, upstream = Some string, debian_revision = None\<rparr>)
           in case memchr version CHR '':'' of
                Some colon \<Rightarrow>
                  (let (e, eepochcolon) = strtoul version
                   in if drop colon version \<noteq> eepochcolon then None
                      else if drop (colon + 1) version = [] then None
                      else Some (split e (drop (colon + 1) version)))
              | None \<Rightarrow> Some (split 0 version)))"

text \<open>The enumerations of \<^verbatim>\<open>package.h\<close>; \<open>di_package_priority_unspecified\<close> is the zero
  that \<open>array_text_from\<close> returns for an unknown text.\<close>

datatype di_package_priority =
    di_package_priority_unspecified
  | di_package_priority_extra
  | di_package_priority_optional
  | di_package_priority_standard
  | di_package_priority_important
  | di_package_priority_required

datatype di_package_status =
    di_package_status_undefined
  | di_package_status_not_installed
  | di_package_status_unpacked
  | di_package_status_installed
  | di_package_status_half_configured
  | di_package_status_config_files

datatype di_package_status_want =
    di_package_status_want_unknown
  | di_package_status_want_install
  | di_package_status_want_hold
  | di_package_status_want_deinstall
  | di_package_status_want_purge

text \<open>The sources compare priorities and states by their numeric values.\<close>

fun priority_index :: "di_package_priority \<Rightarrow> nat" where
  "priority_index di_package_priority_unspecified = 0"
| "priority_index di_package_priority_extra = 1"
| "priority_index di_package_priority_optional = 2"
| "priority_index di_package_priority_standard = 3"
| "priority_index di_package_priority_important = 4"
| "priority_index di_package_priority_required = 5"

fun status_index :: "di_package_status \<Rightarrow> nat" where
  "status_index di_package_status_undefined = 0"
| "status_index di_package_status_not_installed = 1"
| "status_index di_package_status_unpacked = 2"
| "status_index di_package_status_installed = 3"
| "status_index di_package_status_half_configured = 4"
| "status_index di_package_status_config_files = 5"

lemma priority_index_inj: "priority_index a = priority_index b \<Longrightarrow> a = b"
  by (cases a; cases b; simp)

lemma status_index_inj: "status_index a = status_index b \<Longrightarrow> a = b"
  by (cases a; cases b; simp)

instantiation di_package_priority :: linorder
begin

definition less_eq_di_package_priority :: "di_package_priority \<Rightarrow> di_package_priority \<Rightarrow> bool" where
  "less_eq_di_package_priority a b \<longleftrightarrow> priority_index a \<le> priority_index b"

definition less_di_package_priority :: "di_package_priority \<Rightarrow> di_package_priority \<Rightarrow> bool" where
  "less_di_package_priority a b \<longleftrightarrow> priority_index a < priority_index b"

instance
  by standard
    (auto simp: less_eq_di_package_priority_def less_di_package_priority_def intro: priority_index_inj)

end

instantiation di_package_status :: linorder
begin

definition less_eq_di_package_status :: "di_package_status \<Rightarrow> di_package_status \<Rightarrow> bool" where
  "less_eq_di_package_status a b \<longleftrightarrow> status_index a \<le> status_index b"

definition less_di_package_status :: "di_package_status \<Rightarrow> di_package_status \<Rightarrow> bool" where
  "less_di_package_status a b \<longleftrightarrow> status_index a < status_index b"

instance
  by standard
    (auto simp: less_eq_di_package_status_def less_di_package_status_def intro: status_index_inj)

end

datatype di_package_type =
    di_package_type_non_existent
  | di_package_type_virtual_package
  | di_package_type_real_package

text \<open>The text of each enumeration value and the values in numeric order.\<close>

definition di_package_priority_text :: "(string \<times> di_package_priority) list" where
  "di_package_priority_text =
     [(''unspecified'', di_package_priority_unspecified), (''extra'', di_package_priority_extra),
      (''optional'', di_package_priority_optional), (''standard'', di_package_priority_standard),
      (''important'', di_package_priority_important), (''required'', di_package_priority_required)]"

definition di_package_status_want_text :: "(string \<times> di_package_status_want) list" where
  "di_package_status_want_text =
     [(''unknown'', di_package_status_want_unknown), (''install'', di_package_status_want_install),
      (''hold'', di_package_status_want_hold), (''deinstall'', di_package_status_want_deinstall),
      (''purge'', di_package_status_want_purge)]"

definition di_package_status_text :: "(string \<times> di_package_status) list" where
  "di_package_status_text =
     [(''undefined'', di_package_status_undefined),
      (''not-installed'', di_package_status_not_installed),
      (''unpacked'', di_package_status_unpacked), (''installed'', di_package_status_installed),
      (''half-configured'', di_package_status_half_configured),
      (''config-files'', di_package_status_config_files)]"

text \<open>
  The scan starts at index 1 and compares \<open>text->size\<close> bytes; the value with index 0 is
  returned when nothing matches.
\<close>

definition di_package_array_text_from_rstring :: "(string \<times> 'e) list \<Rightarrow> string \<Rightarrow> 'e" where
  "di_package_array_text_from_rstring array text =
     (case find (\<lambda>(s, e). strncmp_eq (length text) s text) (tl array) of
        Some (s, e) \<Rightarrow> e
      | None \<Rightarrow> snd (hd array))"

subsection \<open>Reference order\<close>

abbreviation nondigit :: "char \<Rightarrow> bool" where
  "nondigit \<equiv> \<lambda>c. c \<noteq> NUL \<and> \<not> c_isdigit c"

text \<open>
  The key of a version string: the weights of a run of non-digits, a zero, the number that
  follows, and so on to the end of the string.
\<close>

function version_key :: "string \<Rightarrow> int list" where
  "version_key s =
     (if peek s = NUL then []
      else map order (takeWhile nondigit s) @
        0 # int (dval (takeWhile c_isdigit (dropWhile nondigit s))) #
        version_key (dropWhile c_isdigit (dropWhile nondigit s)))"
  by pat_completeness auto
termination
proof (relation "measure length", goal_cases)
  case (2 s)
  then obtain c t where "s = c # t" "c \<noteq> NUL" by (cases s) auto
  then show ?case
    by (auto intro!: le_imp_less_Suc length_dropWhile_le
        order_trans [OF length_dropWhile_le length_dropWhile_le])
qed simp

declare version_key.simps [simp del]

text \<open>Lexicographic comparison of keys, zeros after the end.\<close>

fun padcmp :: "int list \<Rightarrow> int list \<Rightarrow> int" where
  "padcmp [] [] = 0"
| "padcmp (x # xs) [] = (if x = 0 then padcmp xs [] else sgn x)"
| "padcmp [] (y # ys) = (if y = 0 then padcmp [] ys else - sgn y)"
| "padcmp (x # xs) (y # ys) = (if x = y then padcmp xs ys else sgn (x - y))"

definition round_key :: "string \<Rightarrow> int list \<Rightarrow> int list" where
  "round_key s rest = map order (takeWhile nondigit s) @
     0 # int (dval (takeWhile c_isdigit (dropWhile nondigit s))) # rest"

lemma padcmp_00: "padcmp (0 # 0 # []) ys = padcmp [] ys" "padcmp ys (0 # 0 # []) = padcmp ys []"
proof -
  have "ys = [] \<or> (\<exists>y. ys = [y]) \<or> (\<exists>y z zs. ys = y # z # zs)" by (metis list.exhaust)
  then show "padcmp (0 # 0 # []) ys = padcmp [] ys" "padcmp ys (0 # 0 # []) = padcmp ys []"
    by (auto simp: sgn_if)
qed

lemma version_key_round:
  "padcmp (version_key s) ys =
   padcmp (round_key s (version_key (dropWhile c_isdigit (dropWhile nondigit s)))) ys"
  "padcmp ys (version_key s) =
   padcmp ys (round_key s (version_key (dropWhile c_isdigit (dropWhile nondigit s))))"
proof -
  have "version_key s = [] \<and> round_key s (version_key (dropWhile c_isdigit (dropWhile nondigit s))) = [0, 0]"
    if "peek s = NUL"
    using that by (cases s) (auto simp: round_key_def version_key.simps c_isdigit_def)
  moreover have "version_key s = round_key s (version_key (dropWhile c_isdigit (dropWhile nondigit s)))"
    if "peek s \<noteq> NUL"
    using that by (subst version_key.simps) (simp add: round_key_def)
  ultimately show "padcmp (version_key s) ys =
     padcmp (round_key s (version_key (dropWhile c_isdigit (dropWhile nondigit s)))) ys"
    "padcmp ys (version_key s) =
     padcmp ys (round_key s (version_key (dropWhile c_isdigit (dropWhile nondigit s))))"
    using padcmp_00 by metis+
qed

lemma order_0_iff: "order c = 0 \<longleftrightarrow> \<not> nondigit c"
proof (cases "c = NUL")
  case True
  then show ?thesis by (simp add: order_def c_isdigit_def)
next
  case False
  then have "(of_char c :: nat) \<noteq> 0" "(of_char c :: nat) < 256"
    using of_char_lt_256 by (metis of_char_NUL of_char_eq_iff, simp)
  with False show ?thesis by (auto simp: order_def schar_nat c_isdigit_def c_isalpha_def c_isupper_def)
qed

lemma order_simps [simp]: "order NUL = 0" "c_isdigit c \<Longrightarrow> order c = 0"
  by (simp_all add: order_0_iff)

lemma padcmp_same [simp]: "padcmp (xs @ ys) (xs @ zs) = padcmp ys zs"
  by (induction xs) auto

lemma nondigit_Inl:
  "verrevcmp_nondigit val ref = Inl d \<Longrightarrow>
   sgn d = padcmp (map order (takeWhile nondigit val) @ 0 # xs) (map order (takeWhile nondigit ref) @ 0 # ys)"
proof (induction val ref rule: verrevcmp_nondigit.induct)
  case (1 val ref)
  from 1(2) have nd: "at_nondigit val \<or> at_nondigit ref"
    by (simp add: verrevcmp_nondigit.simps [of val ref] split: if_splits)
  show ?case
  proof (cases "order (peek val) = order (peek ref)")
    case False
    with 1(2) nd have d: "d = order (peek val) - order (peek ref)"
      by (simp add: verrevcmp_nondigit.simps [of val ref] Let_def)
    have "order (peek val) = 0" if "\<not> at_nondigit val"
      using that by (simp add: at_nondigit_def order_0_iff)
    moreover have "order (peek ref) = 0" if "\<not> at_nondigit ref"
      using that by (simp add: at_nondigit_def order_0_iff)
    ultimately show ?thesis using False nd d
      by (cases val; cases ref) (auto simp: order_0_iff)
  next
    case True
    with nd have both: "at_nondigit val" "at_nondigit ref"
      by (metis at_nondigit_def order_0_iff)+
    from True nd 1(2) have "verrevcmp_nondigit (tl val) (tl ref) = Inl d"
      by (simp add: verrevcmp_nondigit.simps [of val ref] Let_def)
    with 1(1) [OF nd refl refl] True both show ?thesis by (cases val; cases ref) auto
  qed
qed

lemma nondigit_Inr:
  "verrevcmp_nondigit val ref = Inr (v, r) \<Longrightarrow>
   v = dropWhile nondigit val \<and> r = dropWhile nondigit ref \<and>
   map order (takeWhile nondigit val) = map order (takeWhile nondigit ref)"
proof (induction val ref rule: verrevcmp_nondigit.induct)
  case (1 val ref)
  show ?case
  proof (cases "at_nondigit val \<or> at_nondigit ref")
    case False
    with 1(2) have "v = val" "r = ref" by (auto simp: verrevcmp_nondigit.simps [of val ref])
    with False show ?thesis by (cases val; cases ref) auto
  next
    case True
    with 1(2) have eq: "order (peek val) = order (peek ref)" "verrevcmp_nondigit (tl val) (tl ref) = Inr (v, r)"
      by (auto simp: verrevcmp_nondigit.simps [of val ref] Let_def split: if_splits)
    with True have "at_nondigit val" "at_nondigit ref" by (metis at_nondigit_def order_0_iff)+
    with 1(1) [OF True refl refl] eq show ?thesis by (cases val; cases ref) auto
  qed
qed

lemma dval_longer:
  assumes "\<forall>c \<in> set a. c_isdigit c" "\<forall>c \<in> set b. c_isdigit c" "length b < length a" "peek a \<noteq> CHR ''0''"
  shows "dval b < dval a"
proof -
  obtain c a' where a: "a = c # a'" using assms(3) by (cases a) auto
  have "(of_char c :: nat) \<noteq> of_char CHR ''0''" using assms(4) a by (simp only: of_char_eq_iff) simp
  then have "1 \<le> digit_val c" using assms(1) a by (auto simp: digit_val_def c_isdigit_def)
  then have "10 ^ length a' \<le> dval a" using a by (simp add: trans_le_add1)
  moreover have "dval b < 10 ^ length b" using dval_bound [OF assms(2)] .
  moreover have "(10 :: nat) ^ length b \<le> 10 ^ length a'"
    using assms(3) a by (intro power_increasing) auto
  ultimately show ?thesis by linarith
qed

lemma dval_Cons_sgn:
  assumes "c_isdigit x" "c_isdigit y" "\<forall>c \<in> set a. c_isdigit c" "\<forall>c \<in> set b. c_isdigit c"
    "length a = length b"
  shows "sgn (int (dval (x # a)) - int (dval (y # b))) =
    (if x = y then sgn (int (dval a) - int (dval b)) else sgn (schar x - schar y))"
proof -
  define p where "p = (10 :: int) ^ length b"
  have v: "schar x = int (digit_val x) + 48" "schar y = int (digit_val y) + 48"
    using assms(1,2) by (auto simp: schar_nat digit_val_def c_isdigit_def)
  have "x = y \<longleftrightarrow> (of_char x :: nat) = of_char y" by simp
  also have "\<dots> \<longleftrightarrow> digit_val x = digit_val y"
    using assms(1,2) by (auto simp: digit_val_def c_isdigit_def simp del: of_char_eq_iff)
  finally have eq: "x = y \<longleftrightarrow> digit_val x = digit_val y" .
  have bd: "int (dval a) < p" "int (dval b) < p"
    using dval_bound [OF assms(3)] dval_bound [OF assms(4)] assms(5)
    by (auto simp: p_def simp flip: of_nat_less_iff)
  have val: "int (dval (x # a)) = int (digit_val x) * p + int (dval a)"
    "int (dval (y # b)) = int (digit_val y) * p + int (dval b)"
    using assms(5) by (simp_all add: p_def)
  consider "digit_val x = digit_val y" | "digit_val x < digit_val y" | "digit_val y < digit_val x"
    by linarith
  then show ?thesis
  proof cases
    case 2
    then have "(int (digit_val x) + 1) * p \<le> int (digit_val y) * p"
      using bd by (intro mult_right_mono) auto
    with 2 eq v bd show ?thesis unfolding val by (auto simp: sgn_if algebra_simps)
  next
    case 3
    then have "(int (digit_val y) + 1) * p \<le> int (digit_val x) * p"
      using bd by (intro mult_right_mono) auto
    with 3 eq v bd show ?thesis unfolding val by (auto simp: sgn_if algebra_simps)
  next
    case 1
    then show ?thesis unfolding val by (simp add: eq)
  qed
qed

text \<open>The digit loop decides which run is longer and finds the sign of the first difference.\<close>

lemma verrevcmp_digits_runs:
  assumes "verrevcmp_digits fd val ref = (fd', v, r)"
  defines "a \<equiv> takeWhile c_isdigit val" and "b \<equiv> takeWhile c_isdigit ref"
  shows "(c_isdigit (peek v) \<longleftrightarrow> length b < length a) \<and> (c_isdigit (peek r) \<longleftrightarrow> length a < length b) \<and>
    (length a = length b \<longrightarrow> v = dropWhile c_isdigit val \<and> r = dropWhile c_isdigit ref \<and>
       sgn fd' = (if fd \<noteq> 0 then sgn fd else sgn (int (dval a) - int (dval b))))"
  using assms
proof (induction fd val ref arbitrary: a b
    rule: verrevcmp_digits.induct [case_names both val_end ref_end])
  case (both first_diff x val y ref)
  show ?case
  proof (cases "c_isdigit x \<and> c_isdigit y")
    case True
    have "schar x - schar y = 0 \<longleftrightarrow> x = y"
      using True by (auto simp: schar_nat c_isdigit_def)
    moreover have "\<forall>c \<in> set (takeWhile c_isdigit t). c_isdigit c" for t
      by (auto dest: set_takeWhileD)
    ultimately show ?thesis
      using both True dval_Cons_sgn [of x y "takeWhile c_isdigit val" "takeWhile c_isdigit ref"]
      by (auto split: if_splits)
  next
    case False
    with both show ?thesis by (auto split: if_splits)
  qed
next
  case (val_end fd ref)
  then show ?case by (cases ref) (auto simp: not_digit_NUL split: if_splits)
next
  case (ref_end fd val)
  then show ?case by (cases val) (auto simp: not_digit_NUL split: if_splits)
qed

lemma skip0_runs:
  "takeWhile c_isdigit (skip0 s) = skip0 (takeWhile c_isdigit s)"
  "dropWhile c_isdigit (skip0 s) = dropWhile c_isdigit s"
  "dval (skip0 s) = dval s"
  by (induction s) (auto simp: c_isdigit_def digit_val_def)

lemma verrevcmp_digits_number:
  assumes "verrevcmp_digits 0 (skip0 val) (skip0 ref) = (fd, v, r)"
  defines "m \<equiv> dval (takeWhile c_isdigit val)" and "n \<equiv> dval (takeWhile c_isdigit ref)"
  shows "c_isdigit (peek v) \<Longrightarrow> n < m"
    and "c_isdigit (peek r) \<Longrightarrow> m < n"
    and "\<not> c_isdigit (peek v) \<Longrightarrow> \<not> c_isdigit (peek r) \<Longrightarrow> sgn fd = sgn (int m - int n) \<and>
      v = dropWhile c_isdigit val \<and> r = dropWhile c_isdigit ref"
proof -
  define a where "a = skip0 (takeWhile c_isdigit val)"
  define b where "b = skip0 (takeWhile c_isdigit ref)"
  have digits: "\<forall>c \<in> set a. c_isdigit c" "\<forall>c \<in> set b. c_isdigit c"
    unfolding a_def b_def by (auto dest!: set_dropWhileD set_takeWhileD)
  have nz: "a \<noteq> [] \<Longrightarrow> peek a \<noteq> CHR ''0''" "b \<noteq> [] \<Longrightarrow> peek b \<noteq> CHR ''0''"
    unfolding a_def b_def using hd_dropWhile [of "\<lambda>c. c = CHR ''0''"]
    by (metis list.collapse peek_simps(2))+
  have mn: "m = dval a" "n = dval b" by (simp_all add: m_def n_def a_def b_def skip0_runs)
  note runs = verrevcmp_digits_runs [OF assms(1), unfolded skip0_runs, folded a_def b_def]
  show "c_isdigit (peek v) \<Longrightarrow> n < m" using runs nz dval_longer [OF digits] mn by fastforce
  show "c_isdigit (peek r) \<Longrightarrow> m < n" using runs nz dval_longer [OF digits(2,1)] mn by fastforce
  show "\<not> c_isdigit (peek v) \<Longrightarrow> \<not> c_isdigit (peek r) \<Longrightarrow> sgn fd = sgn (int m - int n) \<and>
      v = dropWhile c_isdigit val \<and> r = dropWhile c_isdigit ref"
    using runs unfolding m_def n_def by (auto simp: a_def b_def skip0_runs)
qed

text \<open>\<open>verrevcmp\<close> computes the sign of the comparison of keys.\<close>

lemma verrevcmp_loop_key:
  "sgn (verrevcmp_loop val ref) = padcmp (version_key val) (version_key ref)"
proof (induction val ref rule: verrevcmp_loop.induct)
  case (1 val ref)
  define xs where "xs = version_key (dropWhile c_isdigit (dropWhile nondigit val))"
  define ys where "ys = version_key (dropWhile c_isdigit (dropWhile nondigit ref))"
  have rhs: "padcmp (version_key val) (version_key ref) = padcmp (round_key val xs) (round_key ref ys)"
    unfolding version_key_round(1) [of val] version_key_round(2) [of _ ref] xs_def ys_def ..
  show ?case
  proof (cases "peek val = NUL \<and> peek ref = NUL")
    case True
    then show ?thesis by (simp add: verrevcmp_loop.simps version_key.simps)
  next
    case run: False
    show ?thesis
    proof (cases "verrevcmp_nondigit val ref")
      case (Inl d)
      with run show ?thesis unfolding rhs
        by (auto simp: verrevcmp_loop.simps [of val ref] round_key_def nondigit_Inl)
    next
      case (Inr vr)
      obtain v r where vr: "vr = (v, r)" by fastforce
      obtain fd v' r' where dg: "verrevcmp_digits 0 (skip0 v) (skip0 r) = (fd, v', r')"
        using prod_cases3 by blast
      note nd = nondigit_Inr [OF Inr [unfolded vr]]
      note num = verrevcmp_digits_number [OF dg]
      let ?m = "int (dval (takeWhile c_isdigit v))" and ?n = "int (dval (takeWhile c_isdigit r))"
      have cmp: "padcmp (round_key val xs) (round_key ref ys) = padcmp (?m # xs) (?n # ys)"
        using nd by (simp add: round_key_def)
      have loop: "verrevcmp_loop val ref = (if c_isdigit (peek v') then 1
          else if c_isdigit (peek r') then -1 else if fd \<noteq> 0 then fd else verrevcmp_loop v' r')"
        using run Inr vr dg by (auto simp: verrevcmp_loop.simps [of val ref])
      have IH: "sgn (verrevcmp_loop v' r') = padcmp (version_key v') (version_key r')"
        if "\<not> c_isdigit (peek v')" "\<not> c_isdigit (peek r')" "fd = 0"
        using 1 [OF run Inr vr [symmetric] dg [symmetric] refl] that by simp
      show ?thesis unfolding rhs cmp loop
        using num IH nd by (auto simp: xs_def ys_def sgn_0_0)
    qed
  qed
qed

lemma padcmp_antisym: "padcmp xs ys = - padcmp ys xs"
  by (induction xs ys rule: padcmp.induct) (auto simp: sgn_if)

lemma padcmp_trans: "padcmp xs ys \<le> 0 \<Longrightarrow> padcmp ys zs \<le> 0 \<Longrightarrow> padcmp xs zs \<le> 0"
proof (induction "length xs + length ys + length zs" arbitrary: xs ys zs rule: less_induct)
  case less
  show ?case
  proof (cases "xs = [] \<and> ys = [] \<and> zs = []")
    case False
    then have "length (tl xs) + length (tl ys) + length (tl zs) < length xs + length ys + length zs"
      by (cases xs; cases ys; cases zs) auto
    from less.hyps [OF this] less.prems show ?thesis
      by (cases xs; cases ys; cases zs) (auto simp: sgn_if split: if_splits)
  qed simp
qed

abbreviation opt_str :: "string option \<Rightarrow> string" where
  "opt_str s \<equiv> (case s of None \<Rightarrow> [] | Some s \<Rightarrow> s)"

lemma verrevcmp_key: "sgn (verrevcmp a b) = padcmp (version_key (opt_str a)) (version_key (opt_str b))"
  by (simp add: verrevcmp_def verrevcmp_loop_key)

lemma verrevcmp_le_iff: "verrevcmp a b \<le> 0 \<longleftrightarrow> padcmp (version_key (opt_str a)) (version_key (opt_str b)) \<le> 0"
  using verrevcmp_key [of a b] by (auto simp: sgn_if split: if_splits)

interpretation verrev: compare_func verrevcmp
proof
  show "sgn (verrevcmp a b) = - sgn (verrevcmp b a)" for a b
    unfolding verrevcmp_key by (rule padcmp_antisym)
  show "verrevcmp a b \<le> 0 \<Longrightarrow> verrevcmp b c \<le> 0 \<Longrightarrow> verrevcmp a c \<le> 0" for a b c
    unfolding verrevcmp_le_iff by (rule padcmp_trans)
qed

interpretation version: compare_func di_package_version_compare
proof
  show "sgn (di_package_version_compare a b) = - sgn (di_package_version_compare b a)" for a b
    using verrev.cmp_sgn [of "upstream a" "upstream b"]
      verrev.cmp_sgn [of "debian_revision a" "debian_revision b"]
    by (cases "epoch a" "epoch b" rule: linorder_cases)
      (auto simp: di_package_version_compare_def Let_def sgn_0_0)
  fix a b c
  assume le: "di_package_version_compare a b \<le> 0" "di_package_version_compare b c \<le> 0"
  note split = verrev.cmp_trans [of "upstream a" "upstream b" "upstream c"]
    verrev.cmp_trans [of "debian_revision a" "debian_revision b" "debian_revision c"]
    verrev.cmp_less_trans [of "upstream a" "upstream b" "upstream c"]
  from le have "epoch a \<le> epoch b" "epoch b \<le> epoch c"
    by (auto simp: di_package_version_compare_def split: if_splits)
  then consider "epoch a < epoch c" | "epoch a = epoch b" "epoch b = epoch c" by fastforce
  then show "di_package_version_compare a c \<le> 0"
  proof cases
    case 2
    with le split show ?thesis
      by (auto simp: di_package_version_compare_def Let_def split: if_splits)
  qed (auto simp: di_package_version_compare_def)
qed

text \<open>The texts of the tables denote their values; so do prefixes of them, and the empty text.\<close>

lemma text_tables_roundtrip:
  "\<forall>(s, e) \<in> set di_package_priority_text. di_package_array_text_from_rstring di_package_priority_text s = e"
  "\<forall>(s, e) \<in> set di_package_status_want_text. di_package_array_text_from_rstring di_package_status_want_text s = e"
  "\<forall>(s, e) \<in> set di_package_status_text. di_package_array_text_from_rstring di_package_status_text s = e"
  by code_simp+

lemma priority_text_prefix:
  "di_package_array_text_from_rstring di_package_priority_text [] = di_package_priority_extra"
  "di_package_array_text_from_rstring di_package_priority_text ''r'' = di_package_priority_required"
  by code_simp+

subsection \<open>Properties\<close>

text \<open>
  Property C16: versions compare by epoch, then by the keys of the upstream versions, then by
  the keys of the revisions, where a key lists the character weights (a tilde lowest, then
  the end of the string, letters, other characters) and the values of the numbers.
\<close>

theorem version_compare_key:
  "sgn (di_package_version_compare a b) =
     (if epoch a \<noteq> epoch b then (if epoch a < epoch b then -1 else 1)
      else let u = padcmp (version_key (opt_str (upstream a))) (version_key (opt_str (upstream b)))
           in if u \<noteq> 0 then u
              else padcmp (version_key (opt_str (debian_revision a)))
                     (version_key (opt_str (debian_revision b))))"
  using verrevcmp_key [of "upstream a" "upstream b"]
    verrevcmp_key [of "debian_revision a" "debian_revision b"]
  by (auto simp: di_package_version_compare_def Let_def sgn_0_0)

text \<open>
  The comparison of versions is a total preorder: its sign is antisymmetric and
  at-most is transitive.
\<close>

theorem version_compare_total_preorder:
  "sgn (di_package_version_compare a b) = - sgn (di_package_version_compare b a) \<and>
   (di_package_version_compare a b \<le> 0 \<longrightarrow> di_package_version_compare b c \<le> 0 \<longrightarrow>
    di_package_version_compare a c \<le> 0)"
  using version.cmp_sgn version.cmp_trans by blast

theorem version_compare_total_preorder_witness:
  "di_package_version_compare
     \<lparr>epoch = 0, upstream = Some ''1~'', debian_revision = None\<rparr>
     \<lparr>epoch = 1, upstream = Some ''0'', debian_revision = None\<rparr> \<le> 0"
proof -
  let ?a = "\<lparr>epoch = 0, upstream = Some ''1~'', debian_revision = None\<rparr>"
  let ?b = "\<lparr>epoch = 0, upstream = Some ''1'', debian_revision = Some ''2''\<rparr>"
  let ?c = "\<lparr>epoch = 1, upstream = Some ''0'', debian_revision = None\<rparr>"
  have "di_package_version_compare ?a ?b \<le> 0" "di_package_version_compare ?b ?c \<le> 0"
    by code_simp+
  then show ?thesis using version_compare_total_preorder [of ?a ?b ?c] by blast
qed

text \<open>
  A version string made of an epoch in digits, a colon, an upstream version, a
  hyphen and a revision without hyphens parses into exactly these parts.
\<close>

theorem version_parse_parts:
  assumes "\<forall>c \<in> set e. c_isdigit c" "e \<noteq> []" "dval e < 2 ^ 64" "CHR ''-'' \<notin> set r"
  shows "di_package_version_parse (Some (e @ CHR '':'' # u @ CHR ''-'' # r)) =
    Some \<lparr>epoch = of_nat (dval e), upstream = Some u, debian_revision = Some r\<rparr>"
proof -
  have "CHR '':'' \<notin> set e" "\<not> c_isdigit CHR '':''"
    using assms(1) by (auto simp: c_isdigit_def)
  with assms strtoul_digits [OF assms(1-3)] show ?thesis
    by (simp add: di_package_version_parse_def)
qed

theorem version_parse_parts_witness:
  "di_package_version_parse (Some ''1:2.0-3'') =
    Some \<lparr>epoch = 1, upstream = Some ''2.0'', debian_revision = Some ''3''\<rparr>"
  using version_parse_parts [of "''1''" "''3''" "''2.0''"] by (simp add: c_isdigit_def digit_val_def)

end
