(* ===== verification/DI_Packages.thy ===== *)
theory DI_Packages
  imports DI_Hash DI_Version
begin

text \<open>
  The package store of \<^verbatim>\<open>libdebian-installer\<close>: \<open>struct di_package\<close> of
  \<^verbatim>\<open>package.h\<close>, \<open>struct di_packages\<close> of \<^verbatim>\<open>packages.h\<close> and the operations of
  \<^verbatim>\<open>packages.c\<close> on the container.

  Packages refer to each other by pointer, so they live in an explicit heap: a pointer is a
  natural number, the heap maps it to the record. The hash table stores pointers too: its
  key is the address of the \<open>key\<close> member of a package (\<open>KeyOf p\<close>) or, for a lookup, of a
  string on the stack (\<open>KeyTmp s\<close>), and hashing or comparing a key reads the heap.
\<close>

subsection \<open>Packages and dependencies\<close>

type_synonym pkg_ptr = nat

datatype di_package_dependency_type =
    di_package_dependency_type_replaces
  | di_package_dependency_type_provides
  | di_package_dependency_type_depends
  | di_package_dependency_type_pre_depends
  | di_package_dependency_type_recommends
  | di_package_dependency_type_suggests
  | di_package_dependency_type_conflicts
  | di_package_dependency_type_enhances
  | di_package_dependency_type_reverse_provides
  | di_package_dependency_type_reverse_enhances

record di_package_dependency =
  dep_type :: di_package_dependency_type
  dep_ptr :: pkg_ptr

record di_package =
  pkg_package :: string
  pkg_type :: di_package_type
  pkg_status_want :: di_package_status_want
  pkg_status :: di_package_status
  pkg_essential :: bool
  pkg_priority :: di_package_priority
  pkg_section :: "string option"
  pkg_installed_size :: int
  pkg_maintainer :: "string option"
  pkg_architecture :: "string option"
  pkg_version :: "string option"
  pkg_depends :: "di_package_dependency list"
  pkg_filename :: "string option"
  pkg_size :: int
  pkg_sha256 :: "string option"
  pkg_short_description :: "string option"
  pkg_description :: "string option"
  pkg_resolver :: u32

text \<open>
  \<open>struct di_system_package\<close> extends it; the installer's programs allocate system packages
  throughout, so they are the packages of the heap.
\<close>

record di_system_package = di_package +
  installer_menu_item :: int
  subarchitecture :: "string option"
  kernel_version :: "string option"

type_synonym pkg_heap = "pkg_ptr \<Rightarrow> di_system_package"

text \<open>Zeroed memory, as \<open>di_mem_chunk_alloc0\<close> returns it and \<open>di_package_destroy\<close> leaves it.\<close>

definition zero_package :: di_system_package where
  "zero_package =
     \<lparr>pkg_package = [], pkg_type = di_package_type_non_existent,
      pkg_status_want = di_package_status_want_unknown, pkg_status = di_package_status_undefined,
      pkg_essential = False, pkg_priority = di_package_priority_unspecified, pkg_section = None,
      pkg_installed_size = 0, pkg_maintainer = None, pkg_architecture = None,
      pkg_version = None, pkg_depends = [], pkg_filename = None, pkg_size = 0,
      pkg_sha256 = None, pkg_short_description = None, pkg_description = None,
      pkg_resolver = 0, installer_menu_item = 0, subarchitecture = None, kernel_version = None\<rparr>"

text \<open>
  \<open>di_system_package_destroy\<close> frees the strings and clears the embedded \<open>di_package\<close>; the
  freed \<open>subarchitecture\<close> is not read afterwards and is modelled as NULL.
\<close>

definition di_system_package_destroy :: "di_system_package \<Rightarrow> di_system_package" where
  "di_system_package_destroy p =
     zero_package\<lparr>installer_menu_item := installer_menu_item p, kernel_version := kernel_version p\<rparr>"

subsection \<open>The container\<close>

datatype key_ref = KeyOf pkg_ptr | KeyTmp string

fun key_string :: "pkg_heap \<Rightarrow> key_ref \<Rightarrow> string" where
  "key_string h (KeyOf p) = pkg_package (h p)"
| "key_string h (KeyTmp s) = s"

text \<open>
  The container with the memory it refers to. \<open>heap_next\<close> is the next unused address of the
  package memory chunk.
\<close>

record di_packages =
  table :: "(key_ref, pkg_ptr) di_hash_table"
  pkg_list :: "pkg_ptr list"
  resolver :: u32
  heap :: pkg_heap
  heap_next :: pkg_ptr

text \<open>The hash functions of the table as they act on the current heap.\<close>

definition key_hash :: "pkg_heap \<Rightarrow> key_ref \<Rightarrow> u32" where
  "key_hash h k = di_rstring_hash (key_string h k)"

definition key_equal :: "pkg_heap \<Rightarrow> key_ref \<Rightarrow> key_ref \<Rightarrow> bool" where
  "key_equal h a b = di_rstring_equal (key_string h a) (key_string h b)"

definition table_at :: "pkg_heap \<Rightarrow> (key_ref, pkg_ptr) di_hash_table \<Rightarrow> (key_ref, pkg_ptr) di_hash_table" where
  "table_at h t = t\<lparr>hash_func := key_hash h, key_equal_func := Some (key_equal h)\<rparr>"

definition di_packages_alloc :: "pkg_heap \<Rightarrow> pkg_ptr \<Rightarrow> di_packages" where
  "di_packages_alloc h n =
     \<lparr>table = di_hash_table_new_full (key_hash h) (Some (key_equal h)) False True,
      pkg_list = [], resolver = 0, heap = h, heap_next = n\<rparr>"

text \<open>A length of zero stands for \<open>strlen (name)\<close>.\<close>

definition di_packages_get_package :: "di_packages \<Rightarrow> string \<Rightarrow> nat \<Rightarrow> pkg_ptr option" where
  "di_packages_get_package packages name n =
     (let size = (if n \<noteq> 0 then n else length (cstr name))
      in di_hash_table_lookup (table_at (heap packages) (table packages)) (KeyTmp (take size name)))"

text \<open>Insertion into the table runs the value destroy function on a replaced package.\<close>

definition table_insert :: "di_packages \<Rightarrow> pkg_ptr \<Rightarrow> di_packages" where
  "table_insert packages p =
     (case di_hash_table_insert (table_at (heap packages) (table packages)) (KeyOf p) p of
        (t, kd, vd) \<Rightarrow>
          packages\<lparr>table := t,
            heap := (case vd of None \<Rightarrow> heap packages
                     | Some old \<Rightarrow> (heap packages)(old := di_system_package_destroy (heap packages old)))\<rparr>)"

definition di_packages_append_package :: "di_packages \<Rightarrow> pkg_ptr \<Rightarrow> di_packages" where
  "di_packages_append_package packages package =
     (let tmp = di_packages_get_package packages (pkg_package (heap packages package)) 0;
          packages = (if tmp = None then packages\<lparr>pkg_list := pkg_list packages @ [package]\<rparr>
                      else packages)
      in table_insert packages package)"

text \<open>\<open>di_package_alloc\<close>: the next zeroed package of the memory chunk.\<close>

definition di_package_alloc :: "di_packages \<Rightarrow> pkg_ptr \<times> di_packages" where
  "di_package_alloc packages =
     (heap_next packages,
      packages\<lparr>heap := (heap packages)(heap_next packages := zero_package),
               heap_next := Suc (heap_next packages)\<rparr>)"

definition di_packages_get_package_new :: "di_packages \<Rightarrow> string \<Rightarrow> nat \<Rightarrow> pkg_ptr \<times> di_packages" where
  "di_packages_get_package_new packages name n =
     (case di_packages_get_package packages name n of
        Some ret \<Rightarrow> (ret, packages)
      | None \<Rightarrow>
          (case di_package_alloc packages of (ret, packages) \<Rightarrow>
             let packages = packages\<lparr>heap := (heap packages)(ret :=
                   (heap packages ret)\<lparr>pkg_package := di_stradup name n\<rparr>)\<rparr>
             in (ret, table_insert packages ret)))"

subsection \<open>Keys\<close>

definition valid_keys :: "pkg_heap \<Rightarrow> key_ref set" where
  "valid_keys h = {k. nul_free (key_string h k)}"

interpretation pkgkey: hash_key "valid_keys h" "key_hash h" "key_equal h" for h
  by unfold_locales
    (auto simp: valid_keys_def key_hash_def key_equal_def di_rstring_equal_iff
      intro: di_rstring_equal_hash)

lemma table_at_simps [simp]:
  "nodes (table_at h t) = nodes t" "nnodes (table_at h t) = nnodes t"
  "hash_func (table_at h t) = key_hash h" "key_equal_func (table_at h t) = Some (key_equal h)"
  "value_destroy_func (table_at h t) = value_destroy_func t"
  "ht_entries (table_at h t) = ht_entries t" "table_at h (table_at h' t) = table_at h t"
  by (simp_all add: table_at_def ht_entries_def)

lemma table_at_id:
  "hash_func t = key_hash h \<Longrightarrow> key_equal_func t = Some (key_equal h) \<Longrightarrow> table_at h t = t"
  by (simp add: table_at_def)

subsection \<open>Invariant of the container\<close>

text \<open>
  Every entry of the table is a package under its own name, the names are C strings and
  pairwise different up to case, and all packages are below \<open>heap_next\<close>.
\<close>

definition table_ok :: "pkg_heap \<Rightarrow> (key_ref, pkg_ptr) di_hash_table \<Rightarrow> bool" where
  "table_ok h t \<longleftrightarrow> ht_ok (valid_keys h) (key_hash h) (key_equal h) (table_at h t) \<and>
     (\<forall>x \<in> ht_entries t. fst x = KeyOf (snd x)) \<and> value_destroy_func t"

definition packages_ok :: "di_packages \<Rightarrow> bool" where
  "packages_ok ps \<longleftrightarrow> table_ok (heap ps) (table ps) \<and>
     (\<forall>x \<in> ht_entries (table ps). snd x < heap_next ps) \<and>
     set (pkg_list ps) \<subseteq> snd ` ht_entries (table ps) \<and> distinct (pkg_list ps)"

text \<open>The packages a container holds.\<close>

definition members :: "di_packages \<Rightarrow> pkg_ptr set" where
  "members ps = snd ` ht_entries (table ps)"

lemma table_ok_heap:
  assumes "table_ok h t" "\<And>p. p \<in> snd ` ht_entries t \<Longrightarrow> pkg_package (h' p) = pkg_package (h p)"
  shows "table_ok h' t"
proof -
  have same: "key_string h' (fst x) = key_string h (fst x)" if "x \<in> ht_entries t" for x
  proof -
    have "fst x = KeyOf (snd x)" using assms(1) that by (simp add: table_ok_def)
    with assms(2) that show ?thesis by simp
  qed
  have inb: "x \<in> ht_entries t" if "i < length (nodes t)" "x \<in> set (nodes t ! i)" for i x
    using that by (auto simp: ht_entries_def set_concat_nth simp del: set_concat)
  from assms(1) have wf: "ht_wf (valid_keys h) (table_at h t)" "value_destroy_func t"
    "\<forall>x \<in> ht_entries t. fst x = KeyOf (snd x)" by (auto simp: table_ok_def ht_ok_def)
  have "ht_wf (valid_keys h') (table_at h' t)"
    unfolding ht_wf_def
  proof (intro conjI allI impI ballI)
    fix i x assume "i < length (nodes (table_at h' t))" "x \<in> set (nodes (table_at h' t) ! i)"
    then show "fst x \<in> valid_keys h'"
      "bucket (hash_func (table_at h' t)) (length (nodes (table_at h' t))) (fst x) = i"
      using wf(1) inb [of i x] same [of x]
      by (auto simp: ht_wf_def valid_keys_def bucket_def key_hash_def)
  next
    fix x y assume "x \<in> ht_entries (table_at h' t)" "y \<in> ht_entries (table_at h' t)"
      "key_eq (table_at h' t) (fst x) (fst y)"
    then have "x \<in> ht_entries t" "y \<in> ht_entries t" and eq: "key_equal h' (fst x) (fst y)"
      unfolding table_at_simps key_eq_def by simp_all
    moreover from this have "key_equal h (fst x) (fst y)"
      unfolding key_equal_def same [OF \<open>x \<in> ht_entries t\<close>] same [OF \<open>y \<in> ht_entries t\<close>] by simp
    moreover
    have "\<forall>x \<in> ht_entries t. \<forall>y \<in> ht_entries t. key_equal h (fst x) (fst y) \<longrightarrow> x = y"
      using wf(1) by (simp add: ht_wf_def key_eq_def)
    ultimately show "x = y" by blast
  qed (use wf(1) in \<open>auto simp: ht_wf_def\<close>)
  with wf show ?thesis by (simp add: table_ok_def ht_ok_def fun_eq_iff key_eq_def)
qed

lemma get_package_iff:
  assumes "packages_ok ps" "nul_free name" "n = 0 \<or> n \<le> length name"
  defines "key \<equiv> (if n = 0 then name else take n name)"
  shows "di_packages_get_package ps name n = Some p \<longleftrightarrow>
    p \<in> members ps \<and> map c_tolower (pkg_package (heap ps p)) = map c_tolower key"
proof -
  let ?t = "table_at (heap ps) (table ps)"
  have ok: "ht_ok (valid_keys (heap ps)) (key_hash (heap ps)) (key_equal (heap ps)) ?t"
    and own: "\<forall>x \<in> ht_entries (table ps). fst x = KeyOf (snd x)"
    using assms(1) by (auto simp: packages_ok_def table_ok_def)
  have key: "nul_free key" "KeyTmp key \<in> valid_keys (heap ps)"
    using assms(2) by (auto simp: key_def valid_keys_def)
  have "di_packages_get_package ps name n = di_hash_table_lookup ?t (KeyTmp key)"
    using assms(2) by (auto simp: di_packages_get_package_def key_def)
  also have "\<dots> = Some p \<longleftrightarrow>
      (\<exists>k0. (k0, p) \<in> ht_entries (table ps) \<and> key_equal (heap ps) k0 (KeyTmp key))"
    using pkgkey.lookup_entries [OF ok key(2)] by simp
  also have "\<dots> \<longleftrightarrow> p \<in> members ps \<and> map c_tolower (pkg_package (heap ps p)) = map c_tolower key"
  proof -
    have nf: "nul_free (pkg_package (heap ps p))" if "(KeyOf p, p) \<in> ht_entries (table ps)"
      using pkgkey.entry_valid [OF ok, of "(KeyOf p, p)"] that by (simp add: valid_keys_def)
    have mem: "p \<in> members ps \<longleftrightarrow> (KeyOf p, p) \<in> ht_entries (table ps)"
      using own by (force simp: members_def)
    have "(\<exists>k0. (k0, p) \<in> ht_entries (table ps) \<and> key_equal (heap ps) k0 (KeyTmp key)) \<longleftrightarrow>
        (KeyOf p, p) \<in> ht_entries (table ps) \<and> key_equal (heap ps) (KeyOf p) (KeyTmp key)"
      using own by force
    then show ?thesis
      unfolding mem using nf key(1) by (auto simp: key_equal_def di_rstring_equal_iff)
  qed
  finally show ?thesis .
qed

text \<open>A package whose name is not in the table yet.\<close>

lemma table_insert_new:
  assumes ok: "packages_ok ps" and p: "p < heap_next ps" "nul_free (pkg_package (heap ps p))"
    and new: "di_packages_get_package ps (pkg_package (heap ps p)) 0 = None"
  defines "ps' \<equiv> table_insert ps p"
  shows "packages_ok ps'" "heap ps' = heap ps" "members ps' = insert p (members ps)"
    "pkg_list ps' = pkg_list ps" "resolver ps' = resolver ps" "heap_next ps' = heap_next ps"
proof -
  let ?h = "heap ps" and ?t = "table_at (heap ps) (table ps)"
  have tok: "ht_ok (valid_keys ?h) (key_hash ?h) (key_equal ?h) ?t"
    and own: "\<forall>x \<in> ht_entries (table ps). fst x = KeyOf (snd x)" and vd: "value_destroy_func (table ps)"
    using ok by (auto simp: packages_ok_def table_ok_def)
  have key: "KeyOf p \<in> valid_keys ?h" using p by (simp add: valid_keys_def)
  have "key_equal ?h k (KeyOf p) = key_equal ?h k (KeyTmp (pkg_package (?h p)))" for k
    by (simp add: key_equal_def)
  then have none: "di_hash_table_lookup ?t (KeyOf p) = None"
    using new p by (simp add: di_packages_get_package_def lookup_find key_eq_def key_hash_def bucket_def)
  have ne: "nodes ?t \<noteq> []" using tok by (simp add: ht_ok_def ht_wf_def)
  note abs = insert_absent [OF ne none, where v = p]
  have step: "ps' = ps\<lparr>table := ht_insert ?t (KeyOf p) p\<rparr>"
    using abs(2) by (simp add: ps'_def table_insert_def case_prod_beta)
  have "table_at ?h (ht_insert ?t (KeyOf p) p) = ht_insert ?t (KeyOf p) p"
    by (simp add: table_at_id)
  then have "table_ok ?h (ht_insert ?t (KeyOf p) p)"
    using pkgkey.ht_ok_insert [OF tok key] abs(1) own vd by (auto simp: table_ok_def)
  then show "packages_ok ps'"
    using ok p abs(1) by (auto simp: packages_ok_def step)
  show "heap ps' = heap ps" "members ps' = insert p (members ps)" "pkg_list ps' = pkg_list ps"
    "resolver ps' = resolver ps" "heap_next ps' = heap_next ps"
    using abs(1) by (auto simp: step members_def)
qed

subsection \<open>Properties\<close>

lemma packages_ok_alloc: "packages_ok (di_packages_alloc h n)"
  using pkgkey.ht_ok_new [of h False True]
  by (simp add: packages_ok_def table_ok_def di_packages_alloc_def table_at_def
      di_hash_table_new_full_def ht_entries_def)

lemma get_package_alloc [simp]: "di_packages_get_package (di_packages_alloc h n) name k = None"
  by (simp add: di_packages_get_package_def di_packages_alloc_def table_at_def
      di_hash_table_new_full_def pkgkey.lookup_new [unfolded di_hash_table_new_full_def])

lemma get_package_None:
  assumes "packages_ok ps" "nul_free name"
  shows "di_packages_get_package ps name 0 = None \<longleftrightarrow>
    (\<forall>p \<in> members ps. map c_tolower (pkg_package (heap ps p)) \<noteq> map c_tolower name)"
  using get_package_iff [OF assms, of 0] by (metis not_Some_eq)

lemma get_package_new_lemma:
  assumes ok: "packages_ok ps" and name: "nul_free name" "name \<noteq> []"
  shows "case di_packages_get_package_new ps name (length name) of (p, ps') \<Rightarrow>
    packages_ok ps' \<and> p \<in> members ps' \<and>
    map c_tolower (pkg_package (heap ps' p)) = map c_tolower name \<and>
    di_packages_get_package_new ps' name (length name) = (p, ps') \<and>
    members ps \<subseteq> members ps' \<and> (\<forall>q \<in> members ps. heap ps' q = heap ps q) \<and>
    pkg_list ps' = pkg_list ps \<and> members ps' = insert p (members ps) \<and>
    (p \<in> members ps \<or> heap ps' p = zero_package\<lparr>pkg_package := name\<rparr>)"
proof (cases "di_packages_get_package ps name (length name)")
  case (Some p)
  with get_package_iff [OF ok name(1), of "length name" p] name(2) ok show ?thesis
    by (auto simp: di_packages_get_package_new_def)
next
  case None
  define p where "p = heap_next ps"
  define ps1 where "ps1 = ps\<lparr>heap_next := Suc p, heap := (heap ps)(p := zero_package\<lparr>pkg_package := name\<rparr>)\<rparr>"
  have lt: "q < p" if "q \<in> members ps" for q using ok that by (auto simp: packages_ok_def members_def p_def)
  have mem1: "members ps1 = members ps" by (simp add: members_def ps1_def)
  have same: "heap ps1 q = heap ps q" if "q \<in> members ps" for q using lt [OF that] by (simp add: ps1_def)
  have "table_ok (heap ps1) (table ps)"
    by (rule table_ok_heap [of "heap ps"]) (use ok same in \<open>auto simp: packages_ok_def members_def\<close>)
  then have ok1: "packages_ok ps1"
    using ok by (auto simp: packages_ok_def ps1_def p_def less_Suc_eq)
  have none: "\<forall>q \<in> members ps. map c_tolower (pkg_package (heap ps q)) \<noteq> map c_tolower name"
    using None get_package_iff [OF ok name(1), of "length name"] name(2) by auto
  have new: "di_packages_get_package ps1 (pkg_package (heap ps1 p)) 0 = None"
    using get_package_None [OF ok1, of name] name(1) none same mem1 by (simp add: ps1_def)
  have p1: "p < heap_next ps1" "nul_free (pkg_package (heap ps1 p))" using name(1) by (simp_all add: ps1_def)
  note ins = table_insert_new [OF ok1 p1 new]
  have res: "di_packages_get_package_new ps name (length name) = (p, table_insert ps1 p)"
    using None by (simp add: di_packages_get_package_new_def di_package_alloc_def Let_def p_def
        ps1_def di_stradup_def)
  have "di_packages_get_package (table_insert ps1 p) name (length name) = Some p"
    using get_package_iff [OF ins(1) name(1), of "length name" p] ins(2,3) name(2) by (simp add: ps1_def)
  with res ins mem1 same show ?thesis
    by (auto simp: di_packages_get_package_new_def) (simp_all add: ps1_def)
qed

text \<open>
  Property C17: asking for a package by name, creating it when it is missing, returns a package
  with that name, keeps the container consistent, gives the same package when asked again,
  and neither moves nor changes any package that was there.
\<close>

theorem get_package_new_ok:
  assumes ok: "packages_ok ps" and name: "nul_free name" "name \<noteq> []"
  shows "case di_packages_get_package_new ps name (length name) of (p, ps') \<Rightarrow>
    packages_ok ps' \<and> p \<in> members ps' \<and>
    map c_tolower (pkg_package (heap ps' p)) = map c_tolower name \<and>
    di_packages_get_package_new ps' name (length name) = (p, ps') \<and>
    members ps \<subseteq> members ps' \<and> (\<forall>q \<in> members ps. heap ps' q = heap ps q) \<and>
    pkg_list ps' = pkg_list ps"
  using get_package_new_lemma [OF assms] by (simp add: case_prod_beta subset_insertI)

abbreviation example_packages :: di_packages where
  "example_packages \<equiv> di_packages_alloc (\<lambda>_. zero_package) 0"

theorem get_package_new_ok_witness:
  "fst (di_packages_get_package_new example_packages ''udeb'' 4) = 0 \<and>
   packages_ok (snd (di_packages_get_package_new example_packages ''udeb'' 4))"
proof -
  have "fst (di_packages_get_package_new example_packages ''udeb'' 4) = 0"
    by (simp add: di_packages_get_package_new_def di_package_alloc_def Let_def)
      (simp add: di_packages_alloc_def)
  moreover have "packages_ok (snd (di_packages_get_package_new example_packages ''udeb'' 4))"
    using get_package_new_ok [OF packages_ok_alloc, of "''udeb''" "\<lambda>_. zero_package" 0]
    by (simp add: case_prod_beta eval_nat_numeral)
  ultimately show ?thesis by simp
qed

text \<open>
  Appending a package whose name the container does not have yet keeps the
  container consistent, puts the package at the end of the list and makes it the result of
  a lookup by name, in any case; lookups by other names keep their results.
\<close>

theorem append_package_new:
  assumes ok: "packages_ok ps" and p: "p < heap_next ps" "nul_free (pkg_package (heap ps p))"
    and new: "di_packages_get_package ps (pkg_package (heap ps p)) 0 = None"
  shows "packages_ok (di_packages_append_package ps p) \<and>
    pkg_list (di_packages_append_package ps p) = pkg_list ps @ [p] \<and>
    heap (di_packages_append_package ps p) = heap ps \<and>
    (\<forall>name. nul_free name \<longrightarrow> di_packages_get_package (di_packages_append_package ps p) name 0 =
       (if map c_tolower name = map c_tolower (pkg_package (heap ps p)) then Some p
        else di_packages_get_package ps name 0))"
proof -
  note ins = table_insert_new [OF ok p new]
  define ps' where "ps' = di_packages_append_package ps p"
  have ps': "ps' = (table_insert ps p)\<lparr>pkg_list := pkg_list ps @ [p]\<rparr>"
    by (rule di_packages.equality)
      (simp_all add: new ps'_def di_packages_append_package_def table_insert_def case_prod_beta Let_def
        split: option.split)
  have "p \<notin> members ps"
    using new get_package_None [OF ok p(2)] by blast
  then have "p \<notin> set (pkg_list ps)" using ok by (auto simp: packages_ok_def members_def)
  then have ok': "packages_ok ps'"
    using ins(1,3,4) by (auto simp: ps' packages_ok_def members_def)
  have mem: "members ps' = insert p (members ps)" "heap ps' = heap ps"
    using ins by (simp_all add: ps' members_def)
  have "di_packages_get_package ps' name 0 =
       (if map c_tolower name = map c_tolower (pkg_package (heap ps p)) then Some p
        else di_packages_get_package ps name 0)" if name: "nul_free name" for name
  proof -
    have "di_packages_get_package ps' name 0 = Some q \<longleftrightarrow>
       (if map c_tolower name = map c_tolower (pkg_package (heap ps p)) then Some p
        else di_packages_get_package ps name 0) = Some q" for q
      using get_package_iff [OF ok' name, of 0 q] get_package_iff [OF ok name, of 0 q]
        get_package_None [OF ok p(2)] new mem by auto
    then show ?thesis by (metis not_Some_eq)
  qed
  with ok' mem show ?thesis unfolding ps'_def [symmetric] by (simp add: ps')
qed

theorem append_package_new_witness:
  "di_packages_get_package (di_packages_append_package
     (di_packages_alloc (\<lambda>_. zero_package\<lparr>pkg_package := ''Anna''\<rparr>) 1) 0) ''anna'' 0 = Some 0"
proof -
  let ?ps = "di_packages_alloc (\<lambda>_. zero_package\<lparr>pkg_package := ''Anna''\<rparr>) 1"
  have none: "di_packages_get_package ?ps (pkg_package (heap ?ps 0)) 0 = None" by simp
  have name: "pkg_package (heap ?ps 0) = ''Anna''" by (simp add: di_packages_alloc_def)
  show ?thesis
    using append_package_new [OF packages_ok_alloc _ _ none] unfolding name
    by (simp add: di_packages_alloc_def c_tolower_eval)
qed

text \<open>
  Appending a second package with a name the container already has destroys the first one,
  whose name the table still refers to: afterwards neither package is found.
\<close>

lemma append_package_replaced_lost:
  assumes ok: "packages_ok ps" and p: "nul_free (pkg_package (heap ps p))" "pkg_package (heap ps p) \<noteq> []"
    and old: "di_packages_get_package ps (pkg_package (heap ps p)) 0 = Some q" and "q \<noteq> p"
  shows "di_packages_get_package (di_packages_append_package ps p) (pkg_package (heap ps p)) 0 = None"
proof -
  define name where "name = pkg_package (heap ps p)"
  let ?h = "heap ps" and ?t = "table_at (heap ps) (table ps)"
  have tok: "ht_ok (valid_keys ?h) (key_hash ?h) (key_equal ?h) ?t"
    and own: "\<forall>x \<in> ht_entries (table ps). fst x = KeyOf (snd x)" and vd: "value_destroy_func ?t"
    using ok by (auto simp: packages_ok_def table_ok_def)
  have key: "KeyOf p \<in> valid_keys ?h" using p by (simp add: valid_keys_def)
  have q: "di_hash_table_lookup ?t (KeyOf p) = Some q"
    using old p by (simp add: di_packages_get_package_def lookup_find key_eq_def key_hash_def
        bucket_def key_equal_def)
  let ?t' = "ht_insert ?t (KeyOf p) p" and ?h' = "?h(q := di_system_package_destroy (?h q))"
  have step: "table (di_packages_append_package ps p) = ?t'" "heap (di_packages_append_package ps p) = ?h'"
    using old insert_destroys [OF q vd] by (simp_all add: di_packages_append_package_def table_insert_def
        Let_def case_prod_beta)
  obtain k0 where k0: "(k0, q) \<in> ht_entries ?t" and
    ent: "ht_entries ?t' = {x \<in> ht_entries ?t. \<not> key_equal ?h (fst x) (KeyOf p)} \<union> {(k0, p)}"
    by (rule pkgkey.insert_present [OF tok key q, where v = p])
  have "\<not> key_equal ?h' (fst x) (KeyTmp name)" if "x \<in> ht_entries ?t'" for x
  proof (cases "fst x = KeyOf q")
    case True
    with p show ?thesis
      by (auto simp: key_equal_def di_rstring_equal_def di_system_package_destroy_def zero_package_def name_def)
  next
    case False
    then have "fst x = KeyOf (snd x)" "snd x \<noteq> q" "\<not> key_equal ?h (fst x) (KeyOf p)"
      using that own k0 unfolding ent by auto
    then show ?thesis by (simp add: key_equal_def name_def)
  qed
  then have "find (\<lambda>x. key_equal ?h' (fst x) (KeyTmp name))
      (nodes ?t' ! bucket (key_hash ?h') (length (nodes ?t')) (KeyTmp name)) = None"
    using pkgkey.ht_ok_insert [OF tok key, of p]
    by (fastforce simp: find_None_iff ht_entries_def ht_ok_def ht_wf_def intro: nth_mem)
  then show ?thesis
    using p(1) by (simp add: di_packages_get_package_def step lookup_find key_eq_def name_def)
qed

end
