(* ===== verification/DI_Resolver.thy ===== *)
theory DI_Resolver
  imports DI_Packages
begin

text \<open>
  The dependency resolver of \<^verbatim>\<open>packages.c\<close> and the checks of \<^verbatim>\<open>system/packages.c\<close>
  that the installer passes to it.

  The resolver walks the dependency graph depth first and keeps its marks in the
  \<open>resolver\<close> word of each package: with \<open>r\<close> the current marker, bit \<open>r\<close> says visited, bit
  \<open>r << 1\<close> says resolvable and bit \<open>r << 2\<close> says that the provider search is over. A run
  never clears the marks of an earlier one; it takes the next marker instead.

  The recursion and the \<open>while (1)\<close> loop over providers take fuel; \<open>None\<close> means that the
  code has not returned within it. How much fuel is enough is proved below.
\<close>

subsection \<open>Checks\<close>

datatype check_real_func = CheckReal | CheckRealAnna

datatype do_real_func = DoRealListAppend | DoRealMark

text \<open>
  \<open>struct di_packages_resolve_dependencies_check\<close>. The three \<open>check_non_existant\<close> functions
  differ in a log message and in the constant they return.
\<close>

record resolve_check =
  check_real :: check_real_func
  check_virtual :: "pkg_heap \<Rightarrow> di_package_dependency option \<Rightarrow> di_package_dependency \<Rightarrow>
     di_package_dependency option"
  check_non_existant :: bool
  do_real :: do_real_func
  check_resolver :: u32

text \<open>The memory a run changes: the packages and the list of \<open>do_real_list_append\<close>.\<close>

record resolve_state =
  rs_heap :: pkg_heap
  rs_list :: "pkg_ptr list"

definition di_packages_resolve_dependencies_check_virtual ::
  "pkg_heap \<Rightarrow> di_package_dependency option \<Rightarrow> di_package_dependency \<Rightarrow> di_package_dependency option" where
  "di_packages_resolve_dependencies_check_virtual h best d =
     (case best of None \<Rightarrow> Some d
      | Some b \<Rightarrow>
          if pkg_priority (h (dep_ptr b)) < pkg_priority (h (dep_ptr d)) \<or>
             (pkg_status (h (dep_ptr d)) \<ge> di_package_status_unpacked \<and>
              pkg_status (h (dep_ptr b)) < di_package_status_unpacked)
          then Some d else Some b)"

definition di_packages_resolve_dependencies_check_non_existant :: bool where
  "di_packages_resolve_dependencies_check_non_existant = False"

definition di_packages_resolve_dependencies_check_non_existant_quiet :: bool where
  "di_packages_resolve_dependencies_check_non_existant_quiet = False"

definition di_packages_resolve_dependencies_check_non_existant_permissive :: bool where
  "di_packages_resolve_dependencies_check_non_existant_permissive = True"

definition di_packages_resolve_dependencies_do_real ::
  "do_real_func \<Rightarrow> pkg_ptr \<Rightarrow> resolve_state \<Rightarrow> resolve_state" where
  "di_packages_resolve_dependencies_do_real f p s =
     (case f of
        DoRealListAppend \<Rightarrow> s\<lparr>rs_list := rs_list s @ [p]\<rparr>
      | DoRealMark \<Rightarrow> s\<lparr>rs_heap := (rs_heap s)(p :=
          (rs_heap s p)\<lparr>pkg_status_want := di_package_status_want_install\<rparr>)\<rparr>)"

subsection \<open>The recursion\<close>

definition set_resolver :: "pkg_ptr \<Rightarrow> (u32 \<Rightarrow> u32) \<Rightarrow> resolve_state \<Rightarrow> resolve_state" where
  "set_resolver p f s = s\<lparr>rs_heap := (rs_heap s)(p :=
     (rs_heap s p)\<lparr>pkg_resolver := f (pkg_resolver (rs_heap s p))\<rparr>)\<rparr>"

text \<open>\<open>check_real\<close> of a dependency, given the recursive call.\<close>

definition di_packages_resolve_dependencies_check_real ::
  "resolve_check \<Rightarrow> (pkg_ptr \<Rightarrow> resolve_state \<Rightarrow> (bool \<times> resolve_state) option) \<Rightarrow>
   di_package_dependency \<Rightarrow> resolve_state \<Rightarrow> (bool \<times> resolve_state) option" where
  "di_packages_resolve_dependencies_check_real r rec d s =
     (case check_real r of
        CheckReal \<Rightarrow> rec (dep_ptr d) s
      | CheckRealAnna \<Rightarrow>
          if pkg_status (rs_heap s (dep_ptr d)) \<ge> di_package_status_unpacked then Some (True, s)
          else rec (dep_ptr d) s)"

definition is_depends :: "di_package_dependency \<Rightarrow> bool" where
  "is_depends d \<longleftrightarrow> dep_type d = di_package_dependency_type_depends \<or>
     dep_type d = di_package_dependency_type_pre_depends"

definition is_reverse_provides :: "di_package_dependency \<Rightarrow> bool" where
  "is_reverse_provides d \<longleftrightarrow> dep_type d = di_package_dependency_type_reverse_provides"

text \<open>The loop over the dependencies of a real package.\<close>

primrec depends_loop ::
  "(di_package_dependency \<Rightarrow> resolve_state \<Rightarrow> (bool \<times> resolve_state) option) \<Rightarrow>
   di_package_dependency list \<Rightarrow> resolve_state \<Rightarrow> (bool \<times> resolve_state) option" where
  "depends_loop chk [] s = Some (True, s)"
| "depends_loop chk (d # ds) s =
     (if is_depends d
      then (case chk d s of
              None \<Rightarrow> None
            | Some (ok, s') \<Rightarrow> if ok then depends_loop chk ds s' else Some (False, s'))
      else depends_loop chk ds s)"

text \<open>The choice of the best provider; the test is on the virtual package itself.\<close>

definition best_provide :: "resolve_check \<Rightarrow> pkg_ptr \<Rightarrow> pkg_heap \<Rightarrow> di_package_dependency option" where
  "best_provide r p h =
     fold (\<lambda>d best. if pkg_resolver (h p) AND push_bit 2 (check_resolver r) = 0
                    then check_virtual r h best d else best)
       (filter is_reverse_provides (pkg_depends (h p))) None"

text \<open>The loop \<open>while (1)\<close> of a virtual package.\<close>

primrec provide_loop ::
  "resolve_check \<Rightarrow> (di_package_dependency \<Rightarrow> resolve_state \<Rightarrow> (bool \<times> resolve_state) option) \<Rightarrow>
   pkg_ptr \<Rightarrow> nat \<Rightarrow> resolve_state \<Rightarrow> (bool \<times> resolve_state) option" where
  "provide_loop r chk p 0 s = None"
| "provide_loop r chk p (Suc m) s =
     (case best_provide r p (rs_heap s) of
        Some b \<Rightarrow>
          (case chk b s of
             None \<Rightarrow> None
           | Some (ok, s') \<Rightarrow>
               if ok then Some (True, s')
               else provide_loop r chk p m
                      (set_resolver p (\<lambda>w. w OR push_bit 2 (check_resolver r)) s'))
      | None \<Rightarrow> Some (check_non_existant r, s))"

text \<open>The assignments to \<open>package->resolver\<close>, in the order of the code.\<close>

definition mark_visited :: "resolve_check \<Rightarrow> pkg_ptr \<Rightarrow> resolve_state \<Rightarrow> resolve_state" where
  "mark_visited r p = set_resolver p (\<lambda>w. (w OR check_resolver r) OR push_bit 1 (check_resolver r))"

definition start_search :: "resolve_check \<Rightarrow> pkg_ptr \<Rightarrow> resolve_state \<Rightarrow> resolve_state" where
  "start_search r p s =
     (if list_ex is_reverse_provides (pkg_depends (rs_heap s p))
      then set_resolver p (\<lambda>w. w AND NOT (push_bit 2 (check_resolver r))) s else s)"

definition unmark_okay :: "resolve_check \<Rightarrow> pkg_ptr \<Rightarrow> resolve_state \<Rightarrow> resolve_state" where
  "unmark_okay r p = set_resolver p (\<lambda>w. w AND NOT (push_bit 1 (check_resolver r)))"

text \<open>The switch over the type of the package; \<open>False\<close> is the jump to \<open>error\<close>.\<close>

definition resolve_switch ::
  "resolve_check \<Rightarrow> (di_package_dependency \<Rightarrow> resolve_state \<Rightarrow> (bool \<times> resolve_state) option) \<Rightarrow>
   nat \<Rightarrow> pkg_ptr \<Rightarrow> resolve_state \<Rightarrow> (bool \<times> resolve_state) option" where
  "resolve_switch r chk n p s =
     (case pkg_type (rs_heap s p) of
        di_package_type_real_package \<Rightarrow>
          (case depends_loop chk (pkg_depends (rs_heap s p)) s of
             None \<Rightarrow> None
           | Some (ok, s') \<Rightarrow>
               Some (ok, if ok then di_packages_resolve_dependencies_do_real (do_real r) p s' else s'))
      | di_package_type_virtual_package \<Rightarrow> provide_loop r chk p n (start_search r p s)
      | di_package_type_non_existent \<Rightarrow> Some (check_non_existant r, s))"

primrec di_packages_resolve_dependencies_recurse ::
  "resolve_check \<Rightarrow> nat \<Rightarrow> pkg_ptr \<Rightarrow> resolve_state \<Rightarrow> (bool \<times> resolve_state) option" where
  "di_packages_resolve_dependencies_recurse r 0 p s = None"
| "di_packages_resolve_dependencies_recurse r (Suc n) p s =
     (if pkg_resolver (rs_heap s p) AND check_resolver r \<noteq> 0
      then Some (pkg_resolver (rs_heap s p) AND push_bit 1 (check_resolver r) \<noteq> 0, s)
      else
        (case resolve_switch r
                (di_packages_resolve_dependencies_check_real r
                   (\<lambda>q t. di_packages_resolve_dependencies_recurse r n q t))
                n p (mark_visited r p s) of
           None \<Rightarrow> None
         | Some (ok, s') \<Rightarrow>
             if ok then Some (True, s') else Some (False, unmark_okay r p s')))"

subsection \<open>Runs\<close>

definition resolve_dependencies_marker_reset :: "di_packages \<Rightarrow> pkg_heap" where
  "resolve_dependencies_marker_reset packages =
     fold (\<lambda>(key, p) h. h(p := (h p)\<lparr>pkg_resolver := 0\<rparr>))
       (di_hash_table_foreach (table packages)) (heap packages)"

definition di_packages_resolve_dependencies_marker :: "di_packages \<Rightarrow> di_packages" where
  "di_packages_resolve_dependencies_marker packages =
     (if resolver packages = 0 then packages\<lparr>resolver := 1\<rparr>
      else if resolver packages > 0x1FFFFFFF
      then packages\<lparr>heap := resolve_dependencies_marker_reset packages, resolver := 1\<rparr>
      else packages\<lparr>resolver := push_bit 3 (resolver packages)\<rparr>)"

text \<open>
  The loop over the wanted packages: \<open>install\<close> takes over the collected list after every
  success (\<open>internal_di_slist_append_list\<close> empties it), a failure leaves the list as it is.
\<close>

fun resolve_all ::
  "resolve_check \<Rightarrow> nat \<Rightarrow> pkg_ptr list \<Rightarrow> pkg_ptr list \<Rightarrow> resolve_state \<Rightarrow> (pkg_ptr list \<times> resolve_state) option" where
  "resolve_all r fuel [] install s = Some (install, s)"
| "resolve_all r fuel (p # ps) install s =
     (case di_packages_resolve_dependencies_recurse r fuel p s of
        None \<Rightarrow> None
      | Some (ok, s') \<Rightarrow>
          if ok then resolve_all r fuel ps (install @ rs_list s') (s'\<lparr>rs_list := []\<rparr>)
          else resolve_all r fuel ps install s')"

definition di_packages_resolve_dependencies_special ::
  "nat \<Rightarrow> di_packages \<Rightarrow> pkg_ptr list \<Rightarrow> resolve_check \<Rightarrow> (pkg_ptr list \<times> di_packages) option" where
  "di_packages_resolve_dependencies_special fuel packages list s =
     (let packages = di_packages_resolve_dependencies_marker packages
      in map_option (\<lambda>(install, st). (install, packages\<lparr>heap := rs_heap st\<rparr>))
           (resolve_all (s\<lparr>check_resolver := resolver packages\<rparr>) fuel list []
              \<lparr>rs_heap = heap packages, rs_list = []\<rparr>))"

definition default_check :: resolve_check where
  "default_check =
     \<lparr>check_real = CheckReal,
      check_virtual = di_packages_resolve_dependencies_check_virtual,
      check_non_existant = di_packages_resolve_dependencies_check_non_existant,
      do_real = DoRealListAppend, check_resolver = 0\<rparr>"

definition di_packages_resolve_dependencies ::
  "nat \<Rightarrow> di_packages \<Rightarrow> pkg_ptr list \<Rightarrow> (pkg_ptr list \<times> di_packages) option" where
  "di_packages_resolve_dependencies fuel packages list =
     di_packages_resolve_dependencies_special fuel packages list default_check"

definition di_packages_resolve_dependencies_array_special ::
  "nat \<Rightarrow> di_packages \<Rightarrow> pkg_ptr list \<Rightarrow> resolve_check \<Rightarrow> (pkg_ptr list \<times> di_packages) option" where
  "di_packages_resolve_dependencies_array_special fuel packages array s =
     (let packages = di_packages_resolve_dependencies_marker packages
      in map_option (\<lambda>(install, st). (install, packages\<lparr>heap := rs_heap st\<rparr>))
           (resolve_all (s\<lparr>check_resolver := resolver packages\<rparr>) fuel array []
              \<lparr>rs_heap = heap packages, rs_list = []\<rparr>))"

definition di_packages_resolve_dependencies_array ::
  "nat \<Rightarrow> di_packages \<Rightarrow> pkg_ptr list \<Rightarrow> (pkg_ptr list \<times> di_packages) option" where
  "di_packages_resolve_dependencies_array fuel packages array =
     di_packages_resolve_dependencies_array_special fuel packages array default_check"

fun mark_all :: "resolve_check \<Rightarrow> nat \<Rightarrow> pkg_ptr list \<Rightarrow> resolve_state \<Rightarrow> resolve_state option" where
  "mark_all r fuel [] s = Some s"
| "mark_all r fuel (p # ps) s =
     (if pkg_resolver (rs_heap s p) AND check_resolver r = 0 \<and>
         pkg_status_want (rs_heap s p) = di_package_status_want_install
      then (case di_packages_resolve_dependencies_recurse r fuel p s of
              None \<Rightarrow> None
            | Some (ok, s') \<Rightarrow> mark_all r fuel ps s')
      else mark_all r fuel ps s)"

definition di_packages_resolve_dependencies_mark_special ::
  "nat \<Rightarrow> di_packages \<Rightarrow> resolve_check \<Rightarrow> di_packages option" where
  "di_packages_resolve_dependencies_mark_special fuel packages s =
     (let packages = di_packages_resolve_dependencies_marker packages
      in map_option (\<lambda>st. packages\<lparr>heap := rs_heap st\<rparr>)
           (mark_all (s\<lparr>check_resolver := resolver packages\<rparr>) fuel (pkg_list packages)
              \<lparr>rs_heap = heap packages, rs_list = []\<rparr>))"

definition mark_check :: resolve_check where
  "mark_check =
     \<lparr>check_real = CheckReal,
      check_virtual = di_packages_resolve_dependencies_check_virtual,
      check_non_existant = di_packages_resolve_dependencies_check_non_existant_quiet,
      do_real = DoRealMark, check_resolver = 0\<rparr>"

definition di_packages_resolve_dependencies_mark :: "nat \<Rightarrow> di_packages \<Rightarrow> di_packages option" where
  "di_packages_resolve_dependencies_mark fuel packages =
     di_packages_resolve_dependencies_mark_special fuel packages mark_check"

subsection \<open>Checks of the installer\<close>

text \<open>The loop over the words of the \<open>Subarchitecture\<close> field.\<close>

abbreviation blanks :: string where
  "blanks \<equiv> [SP, TAB, NL]"

lemma blanks_progress:
  assumes "peek s \<noteq> NUL"
  shows "length (drop (strcspn (drop (strspn s blanks) s) blanks) (drop (strspn s blanks) s)) < length s"
proof -
  obtain c t where s: "s = c # t" "c \<noteq> NUL" using assms by (cases s) auto
  show ?thesis
  proof (cases "c \<in> set blanks")
    case True
    then have "0 < strspn s blanks" using s by (auto simp: strspn_def)
    then show ?thesis using s by simp
  next
    case False
    then have "strspn s blanks = 0" "0 < strcspn s blanks" using s by (auto simp: strspn_def strcspn_def)
    then show ?thesis using s by simp
  qed
qed

function check_subarchitecture_loop :: "string \<Rightarrow> string \<Rightarrow> bool" where
  "check_subarchitecture_loop begin sub =
     (if peek begin = NUL then False
      else (let begin' = drop (strspn begin blanks) begin;
                n = strcspn begin' blanks
            in if n = length sub \<and> strncmp_eq (length sub) begin' sub then True
               else check_subarchitecture_loop (drop n begin') sub))"
  by pat_completeness auto
termination
  by (relation "measure (\<lambda>(begin, sub). length begin)") (use blanks_progress in auto)

declare check_subarchitecture_loop.simps [simp del]

definition di_system_package_check_subarchitecture :: "di_system_package \<Rightarrow> string \<Rightarrow> bool" where
  "di_system_package_check_subarchitecture package sub =
     (case subarchitecture package of None \<Rightarrow> True | Some s \<Rightarrow> check_subarchitecture_loop s sub)"

definition check_virtual_anna ::
  "string \<Rightarrow> string \<Rightarrow> pkg_heap \<Rightarrow> di_package_dependency option \<Rightarrow> di_package_dependency \<Rightarrow>
   di_package_dependency option" where
  "check_virtual_anna sub kver h best d =
     (let p = h (dep_ptr d)
      in if kernel_version p \<noteq> None \<and> kernel_version p \<noteq> Some kver then best
         else if \<not> di_system_package_check_subarchitecture p sub then best
         else case best of None \<Rightarrow> Some d
              | Some b \<Rightarrow>
                  if pkg_priority (h (dep_ptr b)) < pkg_priority p \<or>
                     (pkg_status p \<ge> di_package_status_unpacked \<and>
                      pkg_status (h (dep_ptr b)) < di_package_status_unpacked) \<or>
                     (pkg_status_want p = di_package_status_want_install \<and>
                      pkg_status_want (h (dep_ptr b)) \<noteq> di_package_status_want_install)
                  then Some d else Some b)"

definition anna_check :: "string \<Rightarrow> string \<Rightarrow> resolve_check" where
  "anna_check sub kver =
     \<lparr>check_real = CheckRealAnna, check_virtual = check_virtual_anna sub kver,
      check_non_existant = di_packages_resolve_dependencies_check_non_existant_permissive,
      do_real = DoRealMark, check_resolver = 0\<rparr>"

definition di_system_packages_resolve_dependencies_mark_anna ::
  "nat \<Rightarrow> di_packages \<Rightarrow> string \<Rightarrow> string \<Rightarrow> di_packages option" where
  "di_system_packages_resolve_dependencies_mark_anna fuel packages sub kver =
     di_packages_resolve_dependencies_mark_special fuel packages (anna_check sub kver)"

definition permissive_check :: resolve_check where
  "permissive_check =
     \<lparr>check_real = CheckReal,
      check_virtual = di_packages_resolve_dependencies_check_virtual,
      check_non_existant = di_packages_resolve_dependencies_check_non_existant_permissive,
      do_real = DoRealListAppend, check_resolver = 0\<rparr>"

definition di_system_packages_resolve_dependencies_array_permissive ::
  "nat \<Rightarrow> di_packages \<Rightarrow> pkg_ptr list \<Rightarrow> (pkg_ptr list \<times> di_packages) option" where
  "di_system_packages_resolve_dependencies_array_permissive fuel packages array =
     di_packages_resolve_dependencies_array_special fuel packages array permissive_check"

subsection \<open>Marks\<close>

text \<open>The marker of a run is a single bit, \<open>2 ^ k\<close>.\<close>

definition visited :: "nat \<Rightarrow> pkg_heap \<Rightarrow> pkg_ptr \<Rightarrow> bool" where
  "visited k h p \<longleftrightarrow> bit (pkg_resolver (h p)) k"

definition okay :: "nat \<Rightarrow> pkg_heap \<Rightarrow> pkg_ptr \<Rightarrow> bool" where
  "okay k h p \<longleftrightarrow> bit (pkg_resolver (h p)) (Suc k)"

lemma marker_test:
  "(w :: u32) AND 2 ^ k = 0 \<longleftrightarrow> \<not> bit w k" "(w :: u32) AND push_bit j (2 ^ k) = 0 \<longleftrightarrow> \<not> bit w (k + j)"
proof -
  show test: "(w :: u32) AND 2 ^ k = 0 \<longleftrightarrow> \<not> bit w k" for k by (rule and_exp_eq_0_iff_not_bit)
  have "push_bit j (2 ^ k) = (2 ^ (k + j) :: u32)" by (simp add: push_bit_eq_mult power_add)
  then show "(w :: u32) AND push_bit j (2 ^ k) = 0 \<longleftrightarrow> \<not> bit w (k + j)" by (simp add: test)
qed

text \<open>What changes neither the graph nor the attributes the checks look at.\<close>

definition same_graph :: "pkg_heap \<Rightarrow> pkg_heap \<Rightarrow> bool" where
  "same_graph h h' \<longleftrightarrow> (\<forall>p. pkg_type (h' p) = pkg_type (h p) \<and> pkg_depends (h' p) = pkg_depends (h p))"

definition same_static :: "pkg_heap \<Rightarrow> pkg_heap \<Rightarrow> bool" where
  "same_static h h' \<longleftrightarrow> (\<forall>p. (h' p)\<lparr>pkg_resolver := 0\<rparr> = (h p)\<lparr>pkg_resolver := 0\<rparr>)"

lemma same_static_fields:
  assumes "same_static h h'"
  shows "pkg_depends (h' p) = pkg_depends (h p)" "pkg_type (h' p) = pkg_type (h p)"
    "pkg_priority (h' p) = pkg_priority (h p)" "pkg_status (h' p) = pkg_status (h p)"
    "pkg_package (h' p) = pkg_package (h p)" "installer_menu_item (h' p) = installer_menu_item (h p)"
proof -
  have eq: "(h' p)\<lparr>pkg_resolver := 0\<rparr> = (h p)\<lparr>pkg_resolver := 0\<rparr>" using assms by (simp add: same_static_def)
  show "pkg_depends (h' p) = pkg_depends (h p)" using arg_cong [OF eq, of pkg_depends] by simp
  show "pkg_type (h' p) = pkg_type (h p)" using arg_cong [OF eq, of pkg_type] by simp
  show "pkg_priority (h' p) = pkg_priority (h p)" using arg_cong [OF eq, of pkg_priority] by simp
  show "pkg_status (h' p) = pkg_status (h p)" using arg_cong [OF eq, of pkg_status] by simp
  show "pkg_package (h' p) = pkg_package (h p)" using arg_cong [OF eq, of pkg_package] by simp
  show "installer_menu_item (h' p) = installer_menu_item (h p)" using arg_cong [OF eq, of installer_menu_item] by simp
qed

lemma same_static_trans: "same_static a b \<Longrightarrow> same_static b c \<Longrightarrow> same_static a c"
  by (simp add: same_static_def)

lemma set_resolver_heap:
  "rs_heap (set_resolver p f s) q =
     (if q = p then (rs_heap s p)\<lparr>pkg_resolver := f (pkg_resolver (rs_heap s p))\<rparr> else rs_heap s q)"
  "rs_list (set_resolver p f s) = rs_list s"
  by (simp_all add: set_resolver_def)

lemma same_graph_simps [simp]:
  "same_graph h h" "same_graph h (rs_heap (set_resolver p f s)) \<longleftrightarrow> same_graph h (rs_heap s)"
  "same_graph h (rs_heap (di_packages_resolve_dependencies_do_real g p s)) \<longleftrightarrow> same_graph h (rs_heap s)"
  by (auto simp: same_graph_def set_resolver_heap di_packages_resolve_dependencies_do_real_def
      split: do_real_func.splits)

lemma same_static_simps [simp]:
  "same_static h h" "same_static h (rs_heap (set_resolver p f s)) \<longleftrightarrow> same_static h (rs_heap s)"
  by (auto simp: same_static_def set_resolver_heap)

lemma visited_set_resolver [simp]:
  "visited k (rs_heap (set_resolver p f s)) q \<longleftrightarrow>
     (if q = p then bit (f (pkg_resolver (rs_heap s p))) k else visited k (rs_heap s) q)"
  "okay k (rs_heap (set_resolver p f s)) q \<longleftrightarrow>
     (if q = p then bit (f (pkg_resolver (rs_heap s p))) (Suc k) else okay k (rs_heap s) q)"
  by (simp_all add: visited_def okay_def set_resolver_heap)

lemma visited_do_real [simp]:
  "visited k (rs_heap (di_packages_resolve_dependencies_do_real g p s)) = visited k (rs_heap s)"
  "okay k (rs_heap (di_packages_resolve_dependencies_do_real g p s)) = okay k (rs_heap s)"
  by (auto simp: fun_eq_iff visited_def okay_def di_packages_resolve_dependencies_do_real_def
      split: do_real_func.splits)

lemma bit_marker [simp]:
  "bit (push_bit j (2 ^ k) :: u32) i \<longleftrightarrow> i = k + j \<and> i < 32"
  "bit (2 ^ k :: u32) i \<longleftrightarrow> i = k \<and> i < 32"
proof -
  show bit: "bit (2 ^ k :: u32) i \<longleftrightarrow> i = k \<and> i < 32" for k by (auto simp: bit_exp_iff)
  have "push_bit j (2 ^ k) = (2 ^ (k + j) :: u32)" by (simp add: push_bit_eq_mult power_add)
  then show "bit (push_bit j (2 ^ k) :: u32) i \<longleftrightarrow> i = k + j \<and> i < 32" by (simp add: bit)
qed

lemma bit_u32_lt: "bit (w :: u32) i \<Longrightarrow> i < 32"
  using bit_imp_le_length [of w i] by simp

lemmas marker_bits = bit_or_iff bit_and_iff bit_not_iff_eq

subsection \<open>Termination\<close>

text \<open>A finite set of packages that is closed under dependencies.\<close>

definition closed :: "pkg_heap \<Rightarrow> pkg_ptr set \<Rightarrow> bool" where
  "closed g P \<longleftrightarrow> finite P \<and> (\<forall>p \<in> P. \<forall>d \<in> set (pkg_depends (g p)). dep_ptr d \<in> P)"

text \<open>
  The contract of a provider check: it keeps the best provider so far or takes the one it
  is asked about.
\<close>

locale provide_check =
  fixes r :: resolve_check and k :: nat
  assumes choice: "check_virtual r h best d = best \<or> check_virtual r h best d = Some d"
    and marker: "check_resolver r = 2 ^ k" and room: "k + 2 < 32"
begin

abbreviation recurse :: "nat \<Rightarrow> pkg_ptr \<Rightarrow> resolve_state \<Rightarrow> (bool \<times> resolve_state) option" where
  "recurse \<equiv> di_packages_resolve_dependencies_recurse r"

abbreviation chk :: "nat \<Rightarrow> di_package_dependency \<Rightarrow> resolve_state \<Rightarrow> (bool \<times> resolve_state) option" where
  "chk n \<equiv> di_packages_resolve_dependencies_check_real r (\<lambda>q t. recurse n q t)"

lemma best_provide_member:
  "best_provide r p h = Some b \<Longrightarrow> b \<in> set (pkg_depends (h p)) \<and> is_reverse_provides b"
proof -
  have "fold (\<lambda>d best. if c then check_virtual r h best d else best) ds b0 = Some b \<Longrightarrow>
      b0 = Some b \<or> b \<in> set ds" for ds b0 c
  proof (induction ds arbitrary: b0)
    case (Cons d ds)
    then show ?case using choice [of h b0 d] by (cases c) fastforce+
  qed simp
  from this [of _ "filter is_reverse_provides (pkg_depends (h p))" None]
  show "best_provide r p h = Some b \<Longrightarrow> ?thesis" by (auto simp: best_provide_def)
qed

lemma best_provide_over: "bit (pkg_resolver (h p)) (k + 2) \<Longrightarrow> best_provide r p h = None"
proof -
  have "fold (\<lambda>d best. best) ds b = b" for ds :: "di_package_dependency list" and b :: "'x"
    by (induction ds) auto
  then show "bit (pkg_resolver (h p)) (k + 2) \<Longrightarrow> ?thesis"
    by (simp add: best_provide_def marker marker_test)
qed

definition fresh :: "pkg_ptr set \<Rightarrow> pkg_heap \<Rightarrow> pkg_ptr set" where
  "fresh P h = {q \<in> P. \<not> visited k h q}"

text \<open>The invariant of a run: the graph stays and visits are not undone.\<close>

definition going :: "pkg_heap \<Rightarrow> pkg_ptr set \<Rightarrow> pkg_ptr set \<Rightarrow> resolve_state \<Rightarrow> bool" where
  "going g P F s \<longleftrightarrow> same_graph g (rs_heap s) \<and> fresh P (rs_heap s) \<subseteq> F"

lemma going_set_resolver:
  assumes "going g P F s" "\<And>w. bit (f w) k \<longleftrightarrow> bit w k"
  shows "going g P F (set_resolver p f s)"
  using assms by (auto simp: going_def fresh_def visited_def set_resolver_heap split: if_splits)

lemma going_do_real: "going g P F s \<Longrightarrow> going g P F (di_packages_resolve_dependencies_do_real f p s)"
  by (simp add: going_def fresh_def)

lemma chk_returns:
  assumes "\<And>q t. q \<in> P \<Longrightarrow> going g P F t \<Longrightarrow> \<exists>b t'. recurse n q t = Some (b, t') \<and> going g P F t'"
    and "dep_ptr d \<in> P" "going g P F s"
  shows "\<exists>b s'. chk n d s = Some (b, s') \<and> going g P F s'"
  using assms by (auto simp: di_packages_resolve_dependencies_check_real_def split: check_real_func.split)

lemma depends_loop_returns:
  assumes "\<And>d t. d \<in> set ds \<Longrightarrow> going g P F t \<Longrightarrow> \<exists>b t'. f d t = Some (b, t') \<and> going g P F t'"
    and "going g P F s"
  shows "\<exists>b s'. depends_loop f ds s = Some (b, s') \<and> going g P F s'"
  using assms
proof (induction ds arbitrary: s)
  case (Cons d ds)
  show ?case
  proof (cases "is_depends d")
    case True
    obtain b t where t: "f d s = Some (b, t)" "going g P F t"
      using Cons.prems(1) [of d s] Cons.prems(2) by auto
    with True Cons.IH [of t] Cons.prems(1) show ?thesis by (cases b) auto
  qed (use Cons in auto)
qed auto

lemma provide_loop_returns:
  assumes f: "\<And>d t. d \<in> set (pkg_depends (g p)) \<Longrightarrow> going g P F t \<Longrightarrow>
      \<exists>b t'. f d t = Some (b, t') \<and> going g P F t'"
    and s: "going g P F s" and n: "2 \<le> n"
  shows "\<exists>b s'. provide_loop r f p n s = Some (b, s') \<and> going g P F s'"
proof -
  obtain m where m: "n = Suc (Suc m)" using n by (metis Suc_le_D Suc_le_mono numeral_2_eq_2)
  show ?thesis
  proof (cases "best_provide r p (rs_heap s)")
    case None
    with s m show ?thesis by simp
  next
    case (Some d)
    then have "d \<in> set (pkg_depends (g p))"
      using best_provide_member [OF Some] s by (simp add: going_def same_graph_def)
    then obtain b t where t: "f d s = Some (b, t)" "going g P F t" using f s by blast
    let ?t = "set_resolver p (\<lambda>w. w OR push_bit 2 (check_resolver r)) t"
    have "going g P F ?t"
      by (rule going_set_resolver [OF t(2)]) (auto simp: marker marker_bits)
    moreover have "best_provide r p (rs_heap ?t) = None"
      by (rule best_provide_over) (use room in \<open>simp add: set_resolver_heap marker marker_bits\<close>)
    ultimately show ?thesis using Some t m by (cases b) auto
  qed
qed

lemma resolver_updates:
  "bit (pkg_resolver (rs_heap (mark_visited r p s) q)) i \<longleftrightarrow>
     bit (pkg_resolver (rs_heap s q)) i \<or> q = p \<and> (i = k \<or> i = Suc k)"
  "bit (pkg_resolver (rs_heap (start_search r p s) q)) i \<longleftrightarrow>
     bit (pkg_resolver (rs_heap s q)) i \<and>
     \<not> (q = p \<and> i = k + 2 \<and> list_ex is_reverse_provides (pkg_depends (rs_heap s p)))"
  "bit (pkg_resolver (rs_heap (unmark_okay r p s) q)) i \<longleftrightarrow>
     bit (pkg_resolver (rs_heap s q)) i \<and> \<not> (q = p \<and> i = Suc k)"
  using room bit_marker(1) [of 1 k i]
  by (auto simp: mark_visited_def start_search_def unmark_okay_def set_resolver_heap marker marker_bits
      simp del: push_bit_numeral_minus_1 dest: bit_u32_lt)

lemma resolver_updates_graph [simp]:
  "same_graph h (rs_heap (mark_visited r p s)) \<longleftrightarrow> same_graph h (rs_heap s)"
  "same_graph h (rs_heap (start_search r p s)) \<longleftrightarrow> same_graph h (rs_heap s)"
  "same_graph h (rs_heap (unmark_okay r p s)) \<longleftrightarrow> same_graph h (rs_heap s)"
  by (simp_all add: mark_visited_def start_search_def unmark_okay_def)

lemma going_updates:
  "going g P F s \<Longrightarrow> going g P (F - {p}) (mark_visited r p s)"
  "going g P F s \<Longrightarrow> going g P F (start_search r p s)"
  "going g P F s \<Longrightarrow> going g P F (unmark_okay r p s)"
  by (auto simp: going_def fresh_def visited_def resolver_updates)

lemma recurse_Suc:
  "recurse (Suc n) p s =
     (if visited k (rs_heap s) p then Some (okay k (rs_heap s) p, s)
      else case resolve_switch r (chk n) n p (mark_visited r p s) of None \<Rightarrow> None
        | Some (ok, s') \<Rightarrow> if ok then Some (True, s') else Some (False, unmark_okay r p s'))"
  using marker_test(2) [of _ 1 k]
  by (simp add: marker marker_test visited_def okay_def del: push_bit_numeral_minus_1)

lemma recurse_returns:
  assumes "closed g P" "p \<in> P" "going g P F s" "card (F \<inter> P) + 3 \<le> n"
  shows "\<exists>b s'. recurse n p s = Some (b, s') \<and> going g P F s'"
  using assms(2-)
proof (induction n arbitrary: p s F)
  case (Suc n)
  show ?case
  proof (cases "visited k (rs_heap s) p")
    case True
    with Suc.prems show ?thesis by (simp add: recurse_Suc del: di_packages_resolve_dependencies_recurse.simps)
  next
    case False
    define F' where "F' = F - {p}"
    have "p \<in> F \<inter> P" "finite P" using False Suc.prems assms(1) by (auto simp: going_def fresh_def closed_def)
    then have card: "card (F' \<inter> P) < card (F \<inter> P)"
      by (auto simp: F'_def intro!: psubset_card_mono)
    define s1 where "s1 = mark_visited r p s"
    have s1: "going g P F' s1" using going_updates(1) [OF Suc.prems(2)] by (simp add: s1_def F'_def)
    have chk: "\<exists>b t'. chk n d t = Some (b, t') \<and> going g P F' t'"
      if "d \<in> set (pkg_depends (g p))" "going g P F' t" for d t
    proof (rule chk_returns [OF _ _ that(2)])
      show "dep_ptr d \<in> P" using assms(1) Suc.prems(1) that(1) by (auto simp: closed_def)
      show "\<exists>b t'. recurse n q t = Some (b, t') \<and> going g P F' t'" if "q \<in> P" "going g P F' t" for q t
        by (rule Suc.IH [OF that]) (use card Suc.prems(3) in simp)
    qed
    have graph: "pkg_depends (rs_heap s1 p) = pkg_depends (g p)" using s1 by (simp add: going_def same_graph_def)
    obtain b1 t1 where real: "depends_loop (chk n) (pkg_depends (g p)) s1 = Some (b1, t1)" "going g P F' t1"
      using depends_loop_returns [of "pkg_depends (g p)" g P F' "chk n" s1] chk s1 by blast
    obtain b2 t2 where virt: "provide_loop r (chk n) p n (start_search r p s1) = Some (b2, t2)" "going g P F' t2"
      using provide_loop_returns [of g p P F' "chk n" "start_search r p s1" n] chk going_updates(2) [OF s1]
        Suc.prems(3) by auto
    have "\<exists>b t. resolve_switch r (chk n) n p s1 = Some (b, t) \<and> going g P F' t"
      using real virt graph s1 going_do_real by (auto simp: resolve_switch_def split: di_package_type.split)
    then obtain b t where "resolve_switch r (chk n) n p s1 = Some (b, t)" and t: "going g P F' t" by blast
    moreover have "going g P F t" "going g P F (unmark_okay r p t)"
      using going_updates(3) [OF t] t by (auto simp: going_def F'_def)
    ultimately show ?thesis using False
      by (auto simp: recurse_Suc s1_def simp del: di_packages_resolve_dependencies_recurse.simps)
  qed
qed simp

lemma mark_all_returns:
  assumes "closed g P" "card P + 3 \<le> n"
  shows "set ps \<subseteq> P \<Longrightarrow> going g P P s \<Longrightarrow> \<exists>s'. mark_all r n ps s = Some s'"
proof (induction ps arbitrary: s)
  case (Cons p ps)
  obtain b t where "recurse n p s = Some (b, t)" "going g P P t"
    using recurse_returns [OF assms(1) _ Cons.prems(2), of p n] Cons.prems(1) assms(2) by auto
  with Cons show ?case by auto
qed simp

end

subsection \<open>What the resolver decides\<close>

text \<open>The provider the resolver tries for a virtual package.\<close>

definition best_of :: "resolve_check \<Rightarrow> pkg_heap \<Rightarrow> pkg_ptr \<Rightarrow> di_package_dependency option" where
  "best_of r g p = fold (\<lambda>d best. check_virtual r g best d)
     (filter is_reverse_provides (pkg_depends (g p))) None"

text \<open>
  A package can be resolved if its dependencies can; a cycle of packages that need only
  each other can.
\<close>

coinductive resolvable :: "resolve_check \<Rightarrow> pkg_heap \<Rightarrow> pkg_ptr \<Rightarrow> bool" for r g where
  real: "pkg_type (g p) = di_package_type_real_package \<Longrightarrow>
     (\<And>d. d \<in> set (pkg_depends (g p)) \<Longrightarrow> is_depends d \<Longrightarrow> resolvable r g (dep_ptr d)) \<Longrightarrow>
     resolvable r g p"
| virtual: "pkg_type (g p) = di_package_type_virtual_package \<Longrightarrow> best_of r g p = Some b \<Longrightarrow>
     resolvable r g (dep_ptr b) \<Longrightarrow> resolvable r g p"
| ignored: "pkg_type (g p) \<noteq> di_package_type_real_package \<Longrightarrow> check_non_existant r \<Longrightarrow> resolvable r g p"

text \<open>What a list of installed packages provides.\<close>

inductive satisfied :: "resolve_check \<Rightarrow> pkg_heap \<Rightarrow> pkg_ptr list \<Rightarrow> pkg_ptr \<Rightarrow> bool" for r g xs where
  real: "pkg_type (g p) = di_package_type_real_package \<Longrightarrow> p \<in> set xs \<Longrightarrow> satisfied r g xs p"
| virtual: "pkg_type (g p) = di_package_type_virtual_package \<Longrightarrow> best_of r g p = Some b \<Longrightarrow>
     satisfied r g xs (dep_ptr b) \<Longrightarrow> satisfied r g xs p"
| ignored: "pkg_type (g p) \<noteq> di_package_type_real_package \<Longrightarrow> check_non_existant r \<Longrightarrow> satisfied r g xs p"

inductive_cases resolvable_realE: "resolvable r g p"

lemma satisfied_mono: "satisfied r g xs p \<Longrightarrow> set xs \<subseteq> set ys \<Longrightarrow> satisfied r g ys p"
  by (induction rule: satisfied.induct) (auto intro: satisfied.intros)

text \<open>An installation order: every package comes once, after all it depends on.\<close>

inductive install_order :: "resolve_check \<Rightarrow> pkg_heap \<Rightarrow> pkg_ptr list \<Rightarrow> bool" for r g where
  empty: "install_order r g []"
| snoc: "install_order r g xs \<Longrightarrow> pkg_type (g p) = di_package_type_real_package \<Longrightarrow> p \<notin> set xs \<Longrightarrow>
     (\<And>d. d \<in> set (pkg_depends (g p)) \<Longrightarrow> is_depends d \<Longrightarrow> satisfied r g xs (dep_ptr d)) \<Longrightarrow>
     install_order r g (xs @ [p])"

lemma install_order_prefix: "install_order r g zs \<Longrightarrow> zs = xs @ ys \<Longrightarrow> install_order r g xs"
proof (induction arbitrary: ys rule: install_order.induct)
  case empty
  then show ?case by (simp add: install_order.empty)
next
  case (snoc zs p)
  show ?case
  proof (cases ys rule: rev_cases)
    case Nil
    with snoc show ?thesis by (metis append_Nil2 install_order.snoc)
  next
    case (snoc ys' y)
    with snoc.IH snoc.prems show ?thesis by auto
  qed
qed

text \<open>A graph without cycles of dependencies and providers.\<close>

definition acyclic_by :: "(pkg_ptr \<Rightarrow> nat) \<Rightarrow> pkg_heap \<Rightarrow> bool" where
  "acyclic_by rank g \<longleftrightarrow> (\<forall>p d. d \<in> set (pkg_depends (g p)) \<longrightarrow> is_depends d \<or> is_reverse_provides d \<longrightarrow>
     rank (dep_ptr d) < rank p)"

text \<open>
  Checks that collect a list: they look only at what a run does not change, and visit every
  dependency.
\<close>

locale collecting_check = provide_check +
  assumes virtual_static: "same_static h h' \<Longrightarrow> check_virtual r h' = check_virtual r h"
    and collects: "do_real r = DoRealListAppend" "check_real r = CheckReal"
begin

lemma chk_recurse: "chk n d = recurse n (dep_ptr d)"
  by (auto simp: fun_eq_iff di_packages_resolve_dependencies_check_real_def collects)

lemma best_provide_of:
  assumes "same_static g h" "\<not> bit (pkg_resolver (h p)) (k + 2) \<or> \<not> list_ex is_reverse_provides (pkg_depends (h p))"
  shows "best_provide r p h = best_of r g p"
proof -
  have dep: "pkg_depends (h p) = pkg_depends (g p)"
    by (rule same_static_fields [OF assms(1)])
  from assms(2) consider "\<not> bit (pkg_resolver (h p)) (k + 2)" | "filter is_reverse_provides (pkg_depends (h p)) = []"
    by (auto simp: filter_empty_conv list_ex_iff)
  then show ?thesis
    by cases (simp_all add: best_provide_def best_of_def marker marker_test virtual_static [OF assms(1)] dep)
qed

text \<open>What the provider loop amounts to: only the best provider is ever tried.\<close>

lemma provide_loop_cases:
  assumes loop: "provide_loop r f p n s = Some (b, s')" and st: "same_static g (rs_heap s)"
    and clear: "\<not> bit (pkg_resolver (rs_heap s p)) (k + 2) \<or>
      \<not> list_ex is_reverse_provides (pkg_depends (rs_heap s p))"
  obtains (none) "best_of r g p = None" "b = check_non_existant r" "s' = s"
  | (found) d where "best_of r g p = Some d" "f d s = Some (True, s')" "b"
  | (failed) d t where "best_of r g p = Some d" "f d s = Some (False, t)" "b = check_non_existant r"
      "s' = set_resolver p (\<lambda>w. w OR push_bit 2 (check_resolver r)) t"
proof -
  have best: "best_provide r p (rs_heap s) = best_of r g p" by (rule best_provide_of [OF st clear])
  obtain m where m: "n = Suc m" using loop by (cases n) auto
  show thesis
  proof (cases "best_of r g p")
    case None
    with loop best m none show thesis by simp
  next
    case (Some d)
    with loop best m obtain ok t where f: "f d s = Some (ok, t)" by (auto split: option.splits)
    let ?t = "set_resolver p (\<lambda>w. w OR push_bit 2 (check_resolver r)) t"
    have over: "best_provide r p (rs_heap ?t) = None"
      by (rule best_provide_over) (use room in \<open>simp add: set_resolver_heap marker marker_bits\<close>)
    show thesis
    proof (cases ok)
      case True
      with loop best m Some f found show thesis by simp
    next
      case False
      with loop best m Some f have "provide_loop r f p m ?t = Some (b, s')" by simp
      then have "b = check_non_existant r" "s' = ?t" using over by (cases m; simp)+
      with Some f False failed show thesis by simp
    qed
  qed
qed

text \<open>The effect of a call on the memory, as its caller sees it.\<close>

definition advances :: "resolve_state \<Rightarrow> resolve_state \<Rightarrow> bool" where
  "advances s s' \<longleftrightarrow> same_static (rs_heap s) (rs_heap s') \<and>
     (\<forall>q. visited k (rs_heap s) q \<longrightarrow> visited k (rs_heap s') q \<and> (okay k (rs_heap s') q \<longleftrightarrow> okay k (rs_heap s) q)) \<and>
     (\<exists>ys. rs_list s' = rs_list s @ ys)"

lemma advances_refl [simp]: "advances s s"
  by (simp add: advances_def)

lemma advances_trans: "advances a b \<Longrightarrow> advances b c \<Longrightarrow> advances a c"
  unfolding advances_def by (metis append.assoc same_static_trans)

lemma depends_loop_rule:
  assumes "depends_loop f ds s = Some (b, s')" and "I s"
    and step: "\<And>d t b t'. d \<in> set ds \<Longrightarrow> is_depends d \<Longrightarrow> I t \<Longrightarrow> f d t = Some (b, t') \<Longrightarrow>
       I t' \<and> (if b then Q d t' else R d) \<and> (\<forall>d'. Q d' t \<longrightarrow> Q d' t')"
  shows "I s' \<and> (if b then \<forall>d \<in> set ds. is_depends d \<longrightarrow> Q d s' else \<exists>d \<in> set ds. is_depends d \<and> R d)"
proof -
  have "I s' \<and> (\<forall>d'. Q d' s \<longrightarrow> Q d' s') \<and>
      (if b then \<forall>d \<in> set ds. is_depends d \<longrightarrow> Q d s' else \<exists>d \<in> set ds. is_depends d \<and> R d)"
    using assms
  proof (induction ds arbitrary: s)
    case (Cons d ds)
    have IH: "I s' \<and> (\<forall>d'. Q d' t \<longrightarrow> Q d' s') \<and>
        (if b then \<forall>d \<in> set ds. is_depends d \<longrightarrow> Q d s' else \<exists>d \<in> set ds. is_depends d \<and> R d)"
      if "depends_loop f ds t = Some (b, s')" "I t" for t
      by (rule Cons.IH [OF that]) (rule Cons.prems(3), simp_all)
    show ?case
    proof (cases "is_depends d")
      case True
      with Cons.prems(1) obtain ok t where t: "f d s = Some (ok, t)"
        and rest: "if ok then depends_loop f ds t = Some (b, s') else b = False \<and> s' = t"
        by (auto split: option.splits if_splits)
      have "d \<in> set (d # ds)" by simp
      from Cons.prems(3) [OF this True Cons.prems(2) t]
      have "I t" "if ok then Q d t else R d" "\<forall>d'. Q d' s \<longrightarrow> Q d' t" by blast+
      with rest IH [of t] True show ?thesis by (cases ok; cases b) auto
    next
      case False
      with Cons.prems(1,2) IH [of s] show ?thesis by (cases b) auto
    qed
  qed auto
  then show ?thesis by blast
qed

lemma resolver_updates_static [simp]:
  "same_static h (rs_heap (mark_visited r p s)) \<longleftrightarrow> same_static h (rs_heap s)"
  "same_static h (rs_heap (start_search r p s)) \<longleftrightarrow> same_static h (rs_heap s)"
  "same_static h (rs_heap (unmark_okay r p s)) \<longleftrightarrow> same_static h (rs_heap s)"
  by (simp_all add: mark_visited_def start_search_def unmark_okay_def)

lemma resolver_updates_list [simp]:
  "rs_list (mark_visited r p s) = rs_list s" "rs_list (start_search r p s) = rs_list s"
  "rs_list (unmark_okay r p s) = rs_list s"
  by (simp_all add: mark_visited_def start_search_def unmark_okay_def set_resolver_heap)

lemma do_real_append:
  "di_packages_resolve_dependencies_do_real (do_real r) p s = s\<lparr>rs_list := rs_list s @ [p]\<rparr>"
  by (simp add: di_packages_resolve_dependencies_do_real_def collects)

lemma start_search_clear:
  "\<not> bit (pkg_resolver (rs_heap (start_search r p s) p)) (k + 2) \<or>
   \<not> list_ex is_reverse_provides (pkg_depends (rs_heap (start_search r p s) p))"
  using same_static_fields(1) [of "rs_heap s" "rs_heap (start_search r p s)" p]
  by (auto simp: resolver_updates)

lemma advances_updates:
  "\<not> visited k (rs_heap s) p \<Longrightarrow> advances s (mark_visited r p s)"
  "advances s (start_search r p s)"
  "advances s (set_resolver p (\<lambda>w. w OR push_bit 2 (check_resolver r)) s)"
  "advances s (s\<lparr>rs_list := rs_list s @ ys\<rparr>)"
  using room by (auto simp: advances_def resolver_updates visited_def okay_def set_resolver_heap marker marker_bits)

lemma advances_unmark:
  "advances s s' \<Longrightarrow> \<not> visited k (rs_heap s) p \<Longrightarrow> advances s (unmark_okay r p s')"
  by (auto simp: advances_def resolver_updates visited_def okay_def)

text \<open>The three ways through the switch.\<close>

lemma switch_cases:
  assumes "resolve_switch r f n p s = Some (b, t)" and st: "same_static g (rs_heap s)"
  obtains (missing) "pkg_type (g p) = di_package_type_non_existent" "b = check_non_existant r" "t = s"
  | (none) "pkg_type (g p) = di_package_type_virtual_package" "best_of r g p = None"
      "b = check_non_existant r" "t = start_search r p s"
  | (found) d where "pkg_type (g p) = di_package_type_virtual_package" "best_of r g p = Some d"
      "f d (start_search r p s) = Some (True, t)" "b"
  | (failed) d t' where "pkg_type (g p) = di_package_type_virtual_package" "best_of r g p = Some d"
      "f d (start_search r p s) = Some (False, t')" "b = check_non_existant r"
      "t = set_resolver p (\<lambda>w. w OR push_bit 2 (check_resolver r)) t'"
  | (real) t' where "pkg_type (g p) = di_package_type_real_package"
      "depends_loop f (pkg_depends (g p)) s = Some (b, t')"
      "t = (if b then t'\<lparr>rs_list := rs_list t' @ [p]\<rparr> else t')"
proof (cases "pkg_type (g p)")
  case di_package_type_non_existent
  with assms missing show thesis by (simp add: resolve_switch_def same_static_fields [OF st])
next
  case di_package_type_real_package
  with assms(1) show thesis
    by (auto simp: resolve_switch_def same_static_fields [OF st] do_real_append split: option.splits intro: real)
next
  case di_package_type_virtual_package
  with assms(1) have "provide_loop r f p n (start_search r p s) = Some (b, t)"
    by (simp add: resolve_switch_def same_static_fields [OF st])
  moreover have "same_static g (rs_heap (start_search r p s))" using st by simp
  ultimately show thesis
    by (cases rule: provide_loop_cases [OF _ _ start_search_clear, consumes 2])
      (use di_package_type_virtual_package none found failed in blast)+
qed

lemma switch_advances:
  assumes "resolve_switch r f n p s = Some (b, t)"
    and step: "\<And>d t b' t'. f d t = Some (b', t') \<Longrightarrow> advances t t'"
  shows "advances s t"
  using assms(1) same_static_simps(1)
proof (cases rule: switch_cases)
  case (failed d t')
  then have "advances s t'" using step advances_updates(2) advances_trans by blast
  then show ?thesis unfolding failed(5) by (rule advances_trans [OF _ advances_updates(3)])
next
  case (real t')
  have "advances s t' \<and> (if b then \<forall>d \<in> set (pkg_depends (rs_heap s p)). is_depends d \<longrightarrow> True
      else \<exists>d \<in> set (pkg_depends (rs_heap s p)). is_depends d \<and> True)"
    by (rule depends_loop_rule [OF real(2) advances_refl]) (use step advances_trans in fastforce)
  then show ?thesis unfolding real(3) using advances_updates(4) advances_trans by (cases b) auto
next
  case (found d)
  then show ?thesis using step advances_updates(2) advances_trans by blast
qed (simp_all add: advances_updates)

lemma recurse_unvisited:
  assumes "recurse (Suc n) p s = Some (b, s')" "\<not> visited k (rs_heap s) p"
  obtains t where "resolve_switch r (\<lambda>d. recurse n (dep_ptr d)) n p (mark_visited r p s) = Some (b, t)"
    "s' = (if b then t else unmark_okay r p t)"
  using assms unfolding recurse_Suc chk_recurse by (auto split: option.splits if_splits)

lemma recurse_visited:
  "recurse (Suc n) p s = Some (b, s') \<Longrightarrow> visited k (rs_heap s) p \<Longrightarrow> b = okay k (rs_heap s) p \<and> s' = s"
  unfolding recurse_Suc by auto

lemma recurse_advances:
  "recurse n p s = Some (b, s') \<Longrightarrow>
   advances s s' \<and> visited k (rs_heap s') p \<and> (okay k (rs_heap s') p \<longleftrightarrow> b)"
proof (induction n arbitrary: p s b s')
  case (Suc n)
  show ?case
  proof (cases "visited k (rs_heap s) p")
    case True
    with recurse_visited [OF Suc.prems] show ?thesis by simp
  next
    case False
    define s1 where "s1 = mark_visited r p s"
    have s1: "advances s s1" "visited k (rs_heap s1) p" "okay k (rs_heap s1) p"
      using advances_updates(1) [OF False] room by (auto simp: s1_def visited_def okay_def resolver_updates)
    from recurse_unvisited [OF Suc.prems False] obtain t where
      sw: "resolve_switch r (\<lambda>d. recurse n (dep_ptr d)) n p s1 = Some (b, t)" and
      s': "s' = (if b then t else unmark_okay r p t)" unfolding s1_def .
    have "advances s1 t" by (rule switch_advances [OF sw]) (use Suc.IH in blast)
    then have "advances s t" "visited k (rs_heap t) p" "okay k (rs_heap t) p"
      using s1 advances_trans unfolding advances_def by blast+
    then show ?thesis unfolding s' using advances_unmark [OF _ False] by (auto simp: visited_def okay_def resolver_updates)
  qed
qed simp

text \<open>Every package found not to be okay is not resolvable.\<close>

definition rejects_rightly :: "pkg_heap \<Rightarrow> resolve_state \<Rightarrow> bool" where
  "rejects_rightly g s \<longleftrightarrow> same_static g (rs_heap s) \<and>
     (\<forall>q. visited k (rs_heap s) q \<longrightarrow> okay k (rs_heap s) q \<or> \<not> resolvable r g q)"

lemma rejects_updates:
  "rejects_rightly g s \<Longrightarrow> rejects_rightly g (mark_visited r p s)"
  "rejects_rightly g s \<Longrightarrow> rejects_rightly g (start_search r p s)"
  "rejects_rightly g s \<Longrightarrow> rejects_rightly g (set_resolver p (\<lambda>w. w OR push_bit 2 (check_resolver r)) s)"
  "rejects_rightly g s \<Longrightarrow> rejects_rightly g (s\<lparr>rs_list := ys\<rparr>)"
  using room by (auto simp: rejects_rightly_def resolver_updates visited_def okay_def set_resolver_heap
      marker marker_bits)

lemma switch_complete:
  assumes "resolve_switch r f n p s = Some (b, t)" and s: "rejects_rightly g s"
    and step: "\<And>d t b' t'. f d t = Some (b', t') \<Longrightarrow> rejects_rightly g t \<Longrightarrow>
      rejects_rightly g t' \<and> (b' \<or> \<not> resolvable r g (dep_ptr d))"
  shows "rejects_rightly g t \<and> (b \<or> \<not> resolvable r g p)"
proof -
  have st: "same_static g (rs_heap s)" using s by (simp add: rejects_rightly_def)
  note s2 = rejects_updates(2) [OF s, of p]
  from assms(1) st show ?thesis
  proof (cases rule: switch_cases)
    case missing
    then show ?thesis using s by (auto elim: resolvable.cases)
  next
    case none
    then show ?thesis using s2 by (auto elim: resolvable.cases)
  next
    case (found d)
    then show ?thesis using step s2 by blast
  next
    case (failed d t')
    have "rejects_rightly g t'" "\<not> resolvable r g (dep_ptr d)" using step [OF failed(3) s2] by auto
    then show ?thesis using failed(1,2,4) unfolding failed(5)
      by (auto simp: rejects_updates elim: resolvable.cases)
  next
    case (real t')
    have "rejects_rightly g t' \<and> (if b then \<forall>d \<in> set (pkg_depends (g p)). is_depends d \<longrightarrow> True
        else \<exists>d \<in> set (pkg_depends (g p)). is_depends d \<and> \<not> resolvable r g (dep_ptr d))"
      by (rule depends_loop_rule [OF real(2), where I = "rejects_rightly g", OF s]) (use step in fastforce)
    then show ?thesis unfolding real(3) using real(1) rejects_updates(4)
      by (cases b) (auto elim: resolvable.cases)
  qed
qed

lemma recurse_complete:
  "recurse n p s = Some (b, s') \<Longrightarrow> rejects_rightly g s \<Longrightarrow>
   rejects_rightly g s' \<and> (b \<or> \<not> resolvable r g p)"
proof (induction n arbitrary: p s b s')
  case (Suc n)
  show ?case
  proof (cases "visited k (rs_heap s) p")
    case True
    with recurse_visited [OF Suc.prems(1)] Suc.prems(2) show ?thesis by (auto simp: rejects_rightly_def)
  next
    case False
    from recurse_unvisited [OF Suc.prems(1) False] obtain t where
      sw: "resolve_switch r (\<lambda>d. recurse n (dep_ptr d)) n p (mark_visited r p s) = Some (b, t)" and
      s': "s' = (if b then t else unmark_okay r p t)" .
    have "rejects_rightly g t \<and> (b \<or> \<not> resolvable r g p)"
      by (rule switch_complete [OF sw rejects_updates(1) [OF Suc.prems(2)]]) (use Suc.IH in blast)
    then show ?thesis unfolding s'
      by (auto simp: rejects_rightly_def resolver_updates visited_def okay_def)
  qed
qed simp

text \<open>
  Without cycles, what is found okay below a rank is satisfied by the packages collected so
  far, which are in installation order. \<open>zs\<close> are the packages already taken over.
\<close>

definition accepts_rightly ::
  "pkg_heap \<Rightarrow> (pkg_ptr \<Rightarrow> nat) \<Rightarrow> nat \<Rightarrow> pkg_ptr list \<Rightarrow> resolve_state \<Rightarrow> bool" where
  "accepts_rightly g rank m zs s \<longleftrightarrow> same_static g (rs_heap s) \<and> install_order r g (zs @ rs_list s) \<and>
     (\<forall>q \<in> set (zs @ rs_list s). visited k (rs_heap s) q) \<and>
     (\<forall>q. rank q < m \<longrightarrow> visited k (rs_heap s) q \<longrightarrow> okay k (rs_heap s) q \<longrightarrow> satisfied r g (zs @ rs_list s) q)"

text \<open>A call collects only packages it visits first, and visits only what has a lower rank.\<close>

definition explores :: "(pkg_ptr \<Rightarrow> nat) \<Rightarrow> nat \<Rightarrow> resolve_state \<Rightarrow> resolve_state \<Rightarrow> bool" where
  "explores rank m s s' \<longleftrightarrow> advances s s' \<and>
     (\<forall>q. visited k (rs_heap s) q \<longrightarrow> q \<in> set (rs_list s') \<longrightarrow> q \<in> set (rs_list s)) \<and>
     (\<forall>q. visited k (rs_heap s') q \<longrightarrow> visited k (rs_heap s) q \<or> rank q < m)"

lemma explores_trans: "explores rank m a b \<Longrightarrow> explores rank m b c \<Longrightarrow> explores rank m a c"
  unfolding explores_def using advances_trans by (metis advances_def)

lemma explores_mono: "explores rank m a b \<Longrightarrow> m \<le> m' \<Longrightarrow> explores rank m' a b"
  unfolding explores_def by force

lemma explores_updates [simp]:
  "explores rank m s s" "explores rank m s (start_search r p s)"
  "explores rank m s (set_resolver p (\<lambda>w. w OR push_bit 2 (check_resolver r)) s)"
  using advances_updates(2,3) room
  by (auto simp: explores_def resolver_updates visited_def set_resolver_heap marker marker_bits)

lemma accepts_updates:
  "accepts_rightly g rank m zs s \<Longrightarrow> accepts_rightly g rank m zs (start_search r p s)"
  "accepts_rightly g rank m zs s \<Longrightarrow>
   accepts_rightly g rank m zs (set_resolver p (\<lambda>w. w OR push_bit 2 (check_resolver r)) s)"
  "accepts_rightly g rank m zs s \<Longrightarrow> rank p \<le> m \<Longrightarrow> accepts_rightly g rank (rank p) zs (mark_visited r p s)"
  using room by (auto simp: accepts_rightly_def resolver_updates visited_def okay_def set_resolver_heap marker
      marker_bits)

lemma accepts_append:
  assumes "accepts_rightly g rank (rank p) zs s" "pkg_type (g p) = di_package_type_real_package"
    "visited k (rs_heap s) p" "p \<notin> set (zs @ rs_list s)"
    "\<forall>d \<in> set (pkg_depends (g p)). is_depends d \<longrightarrow> satisfied r g (zs @ rs_list s) (dep_ptr d)"
  shows "accepts_rightly g rank (rank p) zs (s\<lparr>rs_list := rs_list s @ [p]\<rparr>)"
proof -
  have "install_order r g ((zs @ rs_list s) @ [p])"
    by (rule install_order.snoc) (use assms in \<open>auto simp: accepts_rightly_def\<close>)
  moreover have "satisfied r g (zs @ rs_list s @ [p]) q" if "satisfied r g (zs @ rs_list s) q" for q
    by (rule satisfied_mono [OF that]) auto
  ultimately show ?thesis using assms(1,3) by (auto simp: accepts_rightly_def)
qed

text \<open>What a check must promise for the packages below \<open>p\<close>.\<close>

definition sound_below ::
  "pkg_heap \<Rightarrow> (pkg_ptr \<Rightarrow> nat) \<Rightarrow> nat \<Rightarrow> pkg_ptr list \<Rightarrow>
   (di_package_dependency \<Rightarrow> resolve_state \<Rightarrow> (bool \<times> resolve_state) option) \<Rightarrow> bool" where
  "sound_below g rank m zs f \<longleftrightarrow> (\<forall>d t b t'. f d t = Some (b, t') \<longrightarrow> rank (dep_ptr d) < m \<longrightarrow>
      accepts_rightly g rank m zs t \<longrightarrow> accepts_rightly g rank m zs t' \<and>
        explores rank m t t' \<and> (b \<longrightarrow> satisfied r g (zs @ rs_list t') (dep_ptr d)))"

lemma depends_sound:
  assumes loop: "depends_loop f (pkg_depends (g p)) s = Some (b, t')" and acyclic: "acyclic_by rank g"
    and s: "accepts_rightly g rank (rank p) zs s" and step: "sound_below g rank (rank p) zs f"
  shows "(accepts_rightly g rank (rank p) zs t' \<and> explores rank (rank p) s t') \<and>
      (if b then \<forall>d \<in> set (pkg_depends (g p)). is_depends d \<longrightarrow> satisfied r g (zs @ rs_list t') (dep_ptr d)
       else \<exists>d \<in> set (pkg_depends (g p)). is_depends d \<and> True)"
proof (rule depends_loop_rule [OF loop])
  fix d u b' u' assume d: "d \<in> set (pkg_depends (g p))" "is_depends d"
    and u: "accepts_rightly g rank (rank p) zs u \<and> explores rank (rank p) s u" and f: "f d u = Some (b', u')"
  have "rank (dep_ptr d) < rank p" using d acyclic by (auto simp: acyclic_by_def)
  from step f this u have 1: "accepts_rightly g rank (rank p) zs u'" "explores rank (rank p) u u'"
    "b' \<longrightarrow> satisfied r g (zs @ rs_list u') (dep_ptr d)" unfolding sound_below_def by blast+
  then have "set (zs @ rs_list u) \<subseteq> set (zs @ rs_list u')" by (auto simp: explores_def advances_def)
  with 1 u explores_trans show "(accepts_rightly g rank (rank p) zs u' \<and> explores rank (rank p) s u') \<and>
    (if b' then satisfied r g (zs @ rs_list u') (dep_ptr d) else True) \<and>
    (\<forall>d'. satisfied r g (zs @ rs_list u) (dep_ptr d') \<longrightarrow> satisfied r g (zs @ rs_list u') (dep_ptr d'))"
    using satisfied_mono by auto
qed (use s in auto)

lemma switch_sound:
  assumes "resolve_switch r f n p s = Some (b, t)" and acyclic: "acyclic_by rank g"
    and s: "accepts_rightly g rank (rank p) zs s" "visited k (rs_heap s) p" "p \<notin> set (zs @ rs_list s)"
    and step: "sound_below g rank (rank p) zs f"
  shows "accepts_rightly g rank (rank p) zs t \<and> (b \<longrightarrow> satisfied r g (zs @ rs_list t) p) \<and>
    (\<exists>t'. explores rank (rank p) s t' \<and> (t = t' \<or> t = t'\<lparr>rs_list := rs_list t' @ [p]\<rparr>))"
proof -
  have st: "same_static g (rs_heap s)" using s(1) by (simp add: accepts_rightly_def)
  note s2 = accepts_updates(1) [OF s(1), of p]
  have low: "rank (dep_ptr d) < rank p" if "best_of r g p = Some d" for d
  proof -
    have "best_provide r p (rs_heap (start_search r p s)) = Some d"
      by (rule trans [OF best_provide_of [OF _ start_search_clear] that]) (use st in simp)
    from best_provide_member [OF this] have "d \<in> set (pkg_depends (g p))" "is_reverse_provides d"
      using same_static_fields(1) [OF st, of p]
        same_static_fields(1) [of "rs_heap s" "rs_heap (start_search r p s)" p] by auto
    then show ?thesis using acyclic by (auto simp: acyclic_by_def)
  qed
  from assms(1) st show ?thesis
  proof (cases rule: switch_cases)
    case missing
    then show ?thesis using s by (auto intro: satisfied.ignored exI [of _ s])
  next
    case none
    then show ?thesis using s2 by (auto intro: satisfied.ignored exI [of _ t])
  next
    case (found d)
    from step [unfolded sound_below_def] found(3) low [OF found(2)] s2 found explores_trans [OF explores_updates(2)]
    show ?thesis by (blast intro: satisfied.virtual)
  next
    case (failed d t')
    from step [unfolded sound_below_def] failed(3) low [OF failed(2)] s2
    have "accepts_rightly g rank (rank p) zs t'" "explores rank (rank p) s t'"
      using explores_trans [OF explores_updates(2)] by blast+
    then have "accepts_rightly g rank (rank p) zs t" "explores rank (rank p) s t"
      unfolding failed(5) using accepts_updates(2) explores_trans explores_updates(3) by blast+
    then show ?thesis using failed(1,4) by (auto intro: satisfied.ignored)
  next
    case (real t')
    from depends_sound [OF real(2) acyclic s(1) step]
    have t': "accepts_rightly g rank (rank p) zs t'" "explores rank (rank p) s t'" and
      deps: "b \<Longrightarrow> \<forall>d \<in> set (pkg_depends (g p)). is_depends d \<longrightarrow> satisfied r g (zs @ rs_list t') (dep_ptr d)"
      by (auto split: if_splits)
    have "visited k (rs_heap t') p" "p \<notin> set (zs @ rs_list t')"
      using t'(2) s(2,3) by (auto simp: explores_def advances_def)
    with accepts_append [OF t'(1) real(1)] deps t' show ?thesis
      unfolding real(3) by (auto intro: satisfied.real real(1))
  qed
qed

lemma recurse_sound:
  assumes acyclic: "acyclic_by rank g"
  shows "recurse n p s = Some (b, s') \<Longrightarrow> accepts_rightly g rank m zs s \<Longrightarrow> rank p < m \<Longrightarrow>
    accepts_rightly g rank m zs s' \<and> explores rank m s s' \<and> (b \<longrightarrow> satisfied r g (zs @ rs_list s') p)"
proof (induction n arbitrary: p s b s' m)
  case (Suc n)
  show ?case
  proof (cases "visited k (rs_heap s) p")
    case True
    with recurse_visited [OF Suc.prems(1)] Suc.prems(2,3) show ?thesis by (auto simp: accepts_rightly_def)
  next
    case False
    define s1 where "s1 = mark_visited r p s"
    from recurse_unvisited [OF Suc.prems(1) False] obtain t where
      sw: "resolve_switch r (\<lambda>d. recurse n (dep_ptr d)) n p s1 = Some (b, t)" and
      s': "s' = (if b then t else unmark_okay r p t)" unfolding s1_def .
    have "accepts_rightly g rank (rank p) zs s1"
      using accepts_updates(3) [OF Suc.prems(2)] Suc.prems(3) by (simp add: s1_def)
    moreover have "visited k (rs_heap s1) p" "p \<notin> set (zs @ rs_list s1)"
      using Suc.prems(2) False by (auto simp: s1_def accepts_rightly_def visited_def resolver_updates)
    ultimately have s1: "accepts_rightly g rank (rank p) zs s1" "visited k (rs_heap s1) p"
      "p \<notin> set (zs @ rs_list s1)" .
    have "sound_below g rank (rank p) zs (\<lambda>d. recurse n (dep_ptr d))"
      using Suc.IH unfolding sound_below_def by blast
    from switch_sound [OF sw acyclic s1 this] obtain t' where
      t: "accepts_rightly g rank (rank p) zs t" "b \<Longrightarrow> satisfied r g (zs @ rs_list t) p"
      and t': "explores rank (rank p) s1 t'" "t = t' \<or> t = t'\<lparr>rs_list := rs_list t' @ [p]\<rparr>" by blast
    have adv: "advances s s'" "visited k (rs_heap s') p" "okay k (rs_heap s') p \<longleftrightarrow> b"
      using recurse_advances [OF Suc.prems(1)] by auto
    have vis: "visited k (rs_heap s') q \<longleftrightarrow> visited k (rs_heap t') q" "rs_list s' = rs_list t"
      "q \<noteq> p \<Longrightarrow> okay k (rs_heap s') q \<longleftrightarrow> okay k (rs_heap t) q" for q
      using t'(2) by (auto simp: s' visited_def okay_def resolver_updates)
    have new: "visited k (rs_heap s) q \<or> rank q < rank p \<or> q = p" if "visited k (rs_heap s') q" for q
      using that t'(1) unfolding vis by (auto simp: explores_def s1_def visited_def resolver_updates)
    have "explores rank m s s'"
      using adv(1) new t' False Suc.prems(3) unfolding explores_def vis
      by (auto simp: s1_def visited_def resolver_updates)
    moreover have "satisfied r g (zs @ rs_list s') q"
      if q: "rank q < m" "visited k (rs_heap s') q" "okay k (rs_heap s') q" for q
    proof -
      consider "q = p" | "q \<noteq> p" "visited k (rs_heap s) q" | "q \<noteq> p" "rank q < rank p" using new [OF q(2)] by blast
      then show ?thesis
      proof cases
        case 1
        with q(3) adv(3) t(2) vis(2) show ?thesis by simp
      next
        case 2
        then have "satisfied r g (zs @ rs_list s) q"
          using q(1,3) adv(1) Suc.prems(2) by (auto simp: accepts_rightly_def advances_def)
        then show ?thesis by (rule satisfied_mono) (use adv(1) in \<open>auto simp: advances_def\<close>)
      next
        case 3
        with q vis t(1) t'(2) show ?thesis by (auto simp: accepts_rightly_def)
      qed
    qed
    ultimately show ?thesis using t vis t'(2) by (auto simp: accepts_rightly_def s')
  qed
qed simp

text \<open>The whole run: what is collected is in order, and satisfies exactly what can be resolved.\<close>

lemma resolve_all_correct:
  assumes "acyclic_by rank g" "\<forall>p \<in> set ps. rank p < m"
  shows "resolve_all r n ps zs s = Some (install, s') \<Longrightarrow> accepts_rightly g rank m zs s \<Longrightarrow>
    rejects_rightly g s \<Longrightarrow> install_order r g install \<and> set zs \<subseteq> set install \<and>
    (\<forall>p \<in> set ps. resolvable r g p \<longrightarrow> satisfied r g install p)"
  using assms(2)
proof (induction ps arbitrary: zs s)
  case Nil
  then show ?case using install_order_prefix by (fastforce simp: accepts_rightly_def)
next
  case (Cons p ps)
  obtain b t where t: "recurse n p s = Some (b, t)" using Cons.prems(1) by (auto split: option.splits)
  have acc: "accepts_rightly g rank m zs t" "b \<Longrightarrow> satisfied r g (zs @ rs_list t) p"
    using recurse_sound [OF assms(1) t Cons.prems(2)] Cons.prems(4) by auto
  have rej: "rejects_rightly g t" "b \<or> \<not> resolvable r g p"
    using recurse_complete [OF t Cons.prems(3)] by auto
  show ?case
  proof (cases b)
    case True
    let ?t = "t\<lparr>rs_list := []\<rparr>"
    have "resolve_all r n ps (zs @ rs_list t) ?t = Some (install, s')" using Cons.prems(1) t True by simp
    moreover have "accepts_rightly g rank m (zs @ rs_list t) ?t" using acc(1) by (simp add: accepts_rightly_def)
    moreover have "rejects_rightly g ?t" using rej(1) by (rule rejects_updates(4))
    ultimately have "install_order r g install \<and> set (zs @ rs_list t) \<subseteq> set install \<and>
        (\<forall>p \<in> set ps. resolvable r g p \<longrightarrow> satisfied r g install p)"
      using Cons.IH [of "zs @ rs_list t" ?t] Cons.prems(4) by auto
    then show ?thesis using satisfied_mono [OF acc(2) [OF True]] by auto
  next
    case False
    have "resolve_all r n ps zs t = Some (install, s')" using Cons.prems(1) t False by simp
    then show ?thesis using Cons.IH acc(1) rej Cons.prems(4) False by auto
  qed
qed

lemma satisfied_resolvable:
  "satisfied r g xs p \<Longrightarrow> (\<And>q. q \<in> set xs \<Longrightarrow> resolvable r g q) \<Longrightarrow> resolvable r g p"
  by (induction rule: satisfied.induct) (auto intro: resolvable.intros)

lemma install_order_resolvable: "install_order r g xs \<Longrightarrow> q \<in> set xs \<Longrightarrow> resolvable r g q"
proof (induction arbitrary: q rule: install_order.induct)
  case (snoc xs p)
  then have "resolvable r g (dep_ptr d)" if "d \<in> set (pkg_depends (g p))" "is_depends d" for d
    using satisfied_resolvable that by blast
  with snoc show ?case by (auto intro: resolvable.real)
qed simp

lemma resolve_all_returns:
  assumes "closed g P" "set ps \<subseteq> P" "going g P P s" "card P + 3 \<le> n"
  shows "\<exists>install s'. resolve_all r n ps zs s = Some (install, s')"
  using assms(2,3)
proof (induction ps arbitrary: zs s)
  case (Cons p ps)
  obtain b t where t: "recurse n p s = Some (b, t)" "going g P P t"
    using recurse_returns [OF assms(1) _ Cons.prems(2), of p n] Cons.prems(1) assms(4) by auto
  then have "going g P P (t\<lparr>rs_list := []\<rparr>)" by (simp add: going_def)
  with t Cons show ?case by (cases b) auto
qed simp

lemma resolve_all_static: "resolve_all r n ps zs s = Some (install, s') \<Longrightarrow> same_static (rs_heap s) (rs_heap s')"
proof (induction ps arbitrary: zs s)
  case (Cons p ps)
  obtain b t where t: "recurse n p s = Some (b, t)" using Cons.prems by (auto split: option.splits)
  then have "same_static (rs_heap s) (rs_heap t)" using recurse_advances by (auto simp: advances_def)
  moreover have "same_static (rs_heap t) (rs_heap s')"
    using Cons.prems t Cons.IH [of _ "t\<lparr>rs_list := []\<rparr>"] Cons.IH [of _ t] by (cases b) auto
  ultimately show ?case by (rule same_static_trans)
qed simp

lemma run_correct:
  assumes "acyclic_by rank g" "closed g P" "set ps \<subseteq> P" "card P + 3 \<le> n"
    and fresh: "\<forall>p. \<not> visited k g p"
  shows "\<exists>install s'. resolve_all r n ps [] \<lparr>rs_heap = g, rs_list = []\<rparr> = Some (install, s') \<and>
    install_order r g install \<and> (\<forall>p \<in> set ps. satisfied r g install p \<longleftrightarrow> resolvable r g p)"
proof -
  let ?s = "\<lparr>rs_heap = g, rs_list = []\<rparr>"
  have "going g P P ?s" by (auto simp: going_def fresh_def)
  then obtain install s' where run: "resolve_all r n ps [] ?s = Some (install, s')"
    using resolve_all_returns [OF assms(2,3) _ assms(4)] by blast
  define m where "m = Suc (Max (insert 0 (rank ` set ps)))"
  have "\<forall>p \<in> set ps. rank p < m" by (auto simp: m_def less_Suc_eq_le intro: Max_ge)
  moreover have "accepts_rightly g rank m [] ?s" "rejects_rightly g ?s"
    using fresh by (auto simp: accepts_rightly_def rejects_rightly_def install_order.empty)
  ultimately have "install_order r g install" "\<forall>p \<in> set ps. resolvable r g p \<longrightarrow> satisfied r g install p"
    using resolve_all_correct [OF assms(1) _ run] by auto
  then show ?thesis using run satisfied_resolvable install_order_resolvable by blast
qed

end

subsection \<open>The checks of the library fulfil the contracts\<close>

text \<open>The markers that leave room for the third bit: \<open>2 ^ 0\<close>, \<open>2 ^ 3\<close>, up to \<open>2 ^ 27\<close>.\<close>

definition marker_index :: "nat \<Rightarrow> nat" where
  "marker_index j = 3 * (j mod 10)"

lemma marker_index_room: "marker_index j + 2 < 32"
  using mod_less_divisor [of 10 j] unfolding marker_index_def by linarith

lemma check_virtual_choice:
  "di_packages_resolve_dependencies_check_virtual h best d = best \<or>
   di_packages_resolve_dependencies_check_virtual h best d = Some d"
  by (simp add: di_packages_resolve_dependencies_check_virtual_def split: option.split)

lemma check_virtual_static:
  "same_static h h' \<Longrightarrow> di_packages_resolve_dependencies_check_virtual h' = di_packages_resolve_dependencies_check_virtual h"
  by (intro ext) (auto simp: di_packages_resolve_dependencies_check_virtual_def
      same_static_fields(3) [of h h'] same_static_fields(4) [of h h'] split: option.split)

interpretation default: collecting_check "default_check\<lparr>check_resolver := 2 ^ marker_index j\<rparr>" "marker_index j" for j
  using marker_index_room check_virtual_choice
  by unfold_locales (auto simp: default_check_def check_virtual_static)

interpretation permissive: collecting_check "permissive_check\<lparr>check_resolver := 2 ^ marker_index j\<rparr>" "marker_index j" for j
  using marker_index_room check_virtual_choice
  by unfold_locales (auto simp: permissive_check_def check_virtual_static)

lemma check_virtual_anna_choice:
  "check_virtual_anna sub kver h best d = best \<or> check_virtual_anna sub kver h best d = Some d"
  by (simp add: check_virtual_anna_def Let_def split: option.split)

interpretation anna: provide_check "(anna_check sub kver)\<lparr>check_resolver := 2 ^ marker_index j\<rparr>" "marker_index j" for sub kver j
  using marker_index_room check_virtual_anna_choice
  by unfold_locales (auto simp: anna_check_def)

interpretation marking: provide_check "mark_check\<lparr>check_resolver := 2 ^ marker_index j\<rparr>" "marker_index j" for j
  using marker_index_room check_virtual_choice
  by unfold_locales (auto simp: mark_check_def)

lemma resolvable_cong:
  assumes "check_virtual r' = check_virtual r" "check_non_existant r' = check_non_existant r"
  shows "resolvable r g p \<Longrightarrow> resolvable r' g p"
proof (coinduction arbitrary: p)
  case resolvable
  then show ?case using assms by cases (auto simp: best_of_def)
qed

lemma satisfied_cong:
  assumes "check_virtual r' = check_virtual r" "check_non_existant r' = check_non_existant r"
  shows "satisfied r g xs p \<Longrightarrow> satisfied r' g xs p"
  by (induction rule: satisfied.induct) (use assms in \<open>auto simp: best_of_def intro: satisfied.intros\<close>)

lemma check_resolver_irrelevant [simp]:
  "resolvable (r\<lparr>check_resolver := w\<rparr>) g = resolvable r g"
  "satisfied (r\<lparr>check_resolver := w\<rparr>) g xs = satisfied r g xs"
  by (auto intro!: ext intro: resolvable_cong [rotated -1] satisfied_cong [rotated -1])

lemma install_order_resolver [simp]: "install_order (r\<lparr>check_resolver := w\<rparr>) g = install_order r g"
proof (intro ext)
  have "install_order (r\<lparr>check_resolver := w\<rparr>) g xs" if "install_order r g xs" for xs
    using that by induction (auto intro: install_order.intros)
  moreover have "install_order r g xs" if "install_order (r\<lparr>check_resolver := w\<rparr>) g xs" for xs
    using that by induction (auto intro: install_order.intros)
  ultimately show "install_order (r\<lparr>check_resolver := w\<rparr>) g xs = install_order r g xs" for xs by blast
qed

subsection \<open>Properties\<close>

text \<open>
  Property C1: on an acyclic dependency graph the resolver returns, with fuel for the number of
  packages, a list in which every package occurs once and after everything it depends on,
  and which satisfies exactly those wanted packages that can be resolved.
\<close>

theorem resolve_dependencies_correct:
  assumes marker: "resolver (di_packages_resolve_dependencies_marker packages) = 2 ^ marker_index j"
    and h: "h = heap (di_packages_resolve_dependencies_marker packages)"
    and fresh: "\<forall>p. \<not> visited (marker_index j) h p"
    and acyclic: "acyclic_by rank h"
    and P: "closed h P" "set wanted \<subseteq> P" "card P + 3 \<le> fuel"
  shows "\<exists>install packages'.
    di_packages_resolve_dependencies fuel packages wanted = Some (install, packages') \<and>
    install_order default_check h install \<and>
    (\<forall>p \<in> set wanted. satisfied default_check h install p \<longleftrightarrow> resolvable default_check h p)"
proof -
  from default.run_correct [OF acyclic P fresh] obtain install s' where
    "resolve_all (default_check\<lparr>check_resolver := 2 ^ marker_index j\<rparr>) fuel wanted []
       \<lparr>rs_heap = h, rs_list = []\<rparr> = Some (install, s')"
    "install_order default_check h install"
    "\<forall>p \<in> set wanted. satisfied default_check h install p \<longleftrightarrow> resolvable default_check h p"
    by auto
  then show ?thesis
    by (auto simp: di_packages_resolve_dependencies_def di_packages_resolve_dependencies_special_def
        Let_def marker h [symmetric])
qed

text \<open>Three packages: 0 depends on 1, 1 depends on 2, 2 depends on nothing.\<close>

definition real_package :: "string \<Rightarrow> pkg_ptr list \<Rightarrow> di_system_package" where
  "real_package name ds = zero_package\<lparr>pkg_package := name, pkg_type := di_package_type_real_package,
     pkg_depends := map (\<lambda>d. \<lparr>dep_type = di_package_dependency_type_depends, dep_ptr = d\<rparr>) ds\<rparr>"

definition chain_heap :: pkg_heap where
  "chain_heap = (\<lambda>_. zero_package)(0 := real_package ''a'' [1], 1 := real_package ''b'' [2],
     2 := real_package ''c'' [])"

abbreviation chain_packages :: di_packages where
  "chain_packages \<equiv> di_packages_alloc chain_heap 3"

lemma chain_marker:
  "resolver (di_packages_resolve_dependencies_marker chain_packages) = 1"
  "heap (di_packages_resolve_dependencies_marker chain_packages) = chain_heap"
  by (simp_all add: di_packages_resolve_dependencies_marker_def di_packages_alloc_def)

theorem resolve_dependencies_correct_witness:
  "\<exists>install packages'. di_packages_resolve_dependencies 6 chain_packages [0] = Some (install, packages') \<and>
     install_order default_check chain_heap install"
proof -
  have "resolver (di_packages_resolve_dependencies_marker chain_packages) = 2 ^ marker_index 0"
    by (simp add: chain_marker marker_index_def)
  moreover have "\<forall>p. \<not> visited (marker_index 0) chain_heap p"
    by (simp add: visited_def chain_heap_def real_package_def zero_package_def)
  moreover have "acyclic_by (\<lambda>p. 3 - p) chain_heap"
    by (auto simp: acyclic_by_def chain_heap_def real_package_def zero_package_def split: if_splits)
  moreover have "closed chain_heap {0, 1, 2}"
    by (auto simp: closed_def chain_heap_def real_package_def zero_package_def split: if_splits)
  ultimately show ?thesis
    using resolve_dependencies_correct [of chain_packages 0 chain_heap "\<lambda>p. 3 - p" "{0, 1, 2}" "[0]" 6]
    by (auto simp: chain_marker)
qed

lemma chain_install: "map_option fst (di_packages_resolve_dependencies 6 chain_packages [0]) = Some [2, 1, 0]"
  by code_simp

text \<open>
  The markers of successive runs, starting with a new container, are 1, 8, 64 and so
  on up to \<open>2 ^ 30\<close>, and then start again at 1.
\<close>

theorem marker_sequence:
  "resolver packages = 0 \<Longrightarrow>
   resolver ((di_packages_resolve_dependencies_marker ^^ Suc n) packages) = 2 ^ (3 * (n mod 11))"
proof (induction n)
  case 0
  then show ?case by (simp add: di_packages_resolve_dependencies_marker_def)
next
  case (Suc n)
  define i where "i = n mod 11"
  define q where "q = (di_packages_resolve_dependencies_marker ^^ Suc n) packages"
  have IH: "resolver q = 2 ^ (3 * i)" using Suc by (simp add: q_def i_def)
  have "i < 11" by (simp add: i_def)
  then have "i = 0 \<or> i = 1 \<or> i = 2 \<or> i = 3 \<or> i = 4 \<or> i = 5 \<or> i = 6 \<or> i = 7 \<or> i = 8 \<or> i = 9 \<or> i = 10"
    by presburger
  then have "resolver (di_packages_resolve_dependencies_marker q) = 2 ^ (3 * (if i = 10 then 0 else Suc i))"
    using IH by (elim disjE) (simp_all add: di_packages_resolve_dependencies_marker_def push_bit_eq_mult)
  moreover have "Suc n mod 11 = (if i = 10 then 0 else Suc i)" by (simp add: i_def mod_Suc)
  ultimately show ?case by (simp add: q_def)
qed

theorem marker_sequence_witness:
  "resolver ((di_packages_resolve_dependencies_marker ^^ Suc 10) example_packages) = 2 ^ 30"
  using marker_sequence [of example_packages 10] by (simp add: di_packages_alloc_def)

text \<open>
  With the eleventh marker the bit that ends the search for a provider is shifted out of
  the word, and a search whose best provider has failed never ends.
\<close>

definition late_check :: resolve_check where
  "late_check = default_check\<lparr>check_resolver := 2 ^ 30\<rparr>"

lemma late_bit: "push_bit 2 (check_resolver late_check) = 0"
  by (simp add: late_check_def push_bit_eq_mult)

lemma late_check_simps [simp]:
  "check_resolver late_check = 2 ^ 30" "check_real late_check = CheckReal"
  "check_virtual late_check = di_packages_resolve_dependencies_check_virtual"
  by (simp_all add: late_check_def default_check_def)

lemma late_loop:
  assumes "best_provide late_check p (rs_heap s) = Some d" "f d s = None \<or> f d s = Some (False, s)"
  shows "provide_loop late_check f p n s = None"
proof (induction n)
  case (Suc n)
  have "set_resolver p (\<lambda>w. w OR push_bit 2 (check_resolver late_check)) s = s"
    unfolding late_bit by (simp add: set_resolver_def)
  with Suc assms show ?case by (auto simp del: late_check_simps)
qed simp

lemma late_best: "same_static g h \<Longrightarrow> best_provide late_check p h = best_of late_check g p"
  using same_static_fields(1) [of g h p] check_virtual_static [of g h]
  unfolding best_provide_def best_of_def late_bit by simp

text \<open>
  Property C18: in the eleventh run of a container, a request for a virtual package whose best
  provider has already been found not resolvable in this run does not return, whatever the
  fuel.
\<close>

theorem late_marker_never_returns:
  assumes "pkg_type (rs_heap s p) = di_package_type_virtual_package" "\<not> visited 30 (rs_heap s) p"
    "best_of late_check (rs_heap s) p = Some d" "dep_ptr d \<noteq> p"
    "visited 30 (rs_heap s) (dep_ptr d)" "\<not> okay 30 (rs_heap s) (dep_ptr d)"
  shows "di_packages_resolve_dependencies_recurse late_check n p s = None"
proof (cases n)
  case (Suc m)
  define t where "t = start_search late_check p (mark_visited late_check p s)"
  have other: "rs_heap t q = rs_heap s q" if "q \<noteq> p" for q
    using that by (simp add: t_def start_search_def mark_visited_def set_resolver_heap)
  have static: "same_static (rs_heap s) (rs_heap t)"
    by (simp add: t_def start_search_def mark_visited_def)
  let ?f = "di_packages_resolve_dependencies_check_real late_check
    (\<lambda>q t. di_packages_resolve_dependencies_recurse late_check m q t)"
  have "provide_loop late_check ?f p m t = None"
  proof (rule late_loop)
    show "best_provide late_check p (rs_heap t) = Some d" using late_best [OF static] assms(3) by simp
    have "bit (pkg_resolver (rs_heap t (dep_ptr d))) 30" "\<not> bit (pkg_resolver (rs_heap t (dep_ptr d))) 31"
      using assms(4-6) other by (simp_all add: visited_def okay_def)
    then show "?f d t = None \<or> ?f d t = Some (False, t)"
      using marker_test(1) [of "pkg_resolver (rs_heap t (dep_ptr d))" 30]
        marker_test(2) [of "pkg_resolver (rs_heap t (dep_ptr d))" 1 30]
      by (cases m) (auto simp: di_packages_resolve_dependencies_check_real_def)
  qed
  moreover have "pkg_type (rs_heap (mark_visited late_check p s) p) = di_package_type_virtual_package"
    using assms(1) by (simp add: mark_visited_def set_resolver_heap)
  moreover have "pkg_resolver (rs_heap s p) AND check_resolver late_check = 0"
    using assms(2) marker_test(1) [of "pkg_resolver (rs_heap s p)" 30] by (simp add: visited_def)
  ultimately show ?thesis
    unfolding Suc di_packages_resolve_dependencies_recurse.simps resolve_switch_def t_def by simp
qed simp

text \<open>A virtual package 0 with providers 1 and 2; 1 depends on a package that does not exist.\<close>

definition provided_heap :: pkg_heap where
  "provided_heap = (\<lambda>_. zero_package)
     (0 := zero_package\<lparr>pkg_package := ''v'', pkg_type := di_package_type_virtual_package,
             pkg_depends := [\<lparr>dep_type = di_package_dependency_type_reverse_provides, dep_ptr = 1\<rparr>,
                             \<lparr>dep_type = di_package_dependency_type_reverse_provides, dep_ptr = 2\<rparr>]\<rparr>,
      1 := real_package ''broken'' [3], 2 := real_package ''good'' [])"

theorem late_marker_never_returns_witness:
  "\<forall>n. di_packages_resolve_dependencies_recurse late_check n 0
     \<lparr>rs_heap = provided_heap(1 := (provided_heap 1)\<lparr>pkg_resolver := 2 ^ 30\<rparr>), rs_list = []\<rparr> = None"
  by (rule allI, rule late_marker_never_returns [where d = "\<lparr>dep_type = di_package_dependency_type_reverse_provides, dep_ptr = 1\<rparr>"])
    (simp_all add: provided_heap_def real_package_def zero_package_def visited_def okay_def best_of_def
      is_reverse_provides_def di_packages_resolve_dependencies_check_virtual_def bit_numeral_rec
      less_eq_di_package_status_def)

text \<open>
  The search stops after the first failure: the skip mark is set on the virtual package and
  not on the provider that failed, so a second provider that could be installed is not
  tried.
\<close>

lemma second_provider_not_tried:
  "map_option fst (di_packages_resolve_dependencies_recurse (default_check\<lparr>check_resolver := 1\<rparr>) 6 0
     \<lparr>rs_heap = provided_heap, rs_list = []\<rparr>) = Some False \<and>
   map_option fst (di_packages_resolve_dependencies_recurse (default_check\<lparr>check_resolver := 1\<rparr>) 6 2
     \<lparr>rs_heap = provided_heap, rs_list = []\<rparr>) = Some True"
  by code_simp

text \<open>
  Package 0 depends on 1 and on a package that does not exist, 2 depends on nothing. The
  request for 0 fails, but its dependency 1 stays in the collected list and is returned with
  the next package that succeeds.
\<close>

definition leftover_heap :: pkg_heap where
  "leftover_heap = (\<lambda>_. zero_package)(0 := real_package ''a'' [1, 3], 1 := real_package ''b'' [],
     2 := real_package ''c'' [])"

lemma failed_request_leaves_dependencies:
  "map_option fst (di_packages_resolve_dependencies 7 (di_packages_alloc leftover_heap 3) [0, 2]) = Some [1, 2]"
  by code_simp

end
