(* ===== verification/Anna_Select.thy ===== *)
theory Anna_Select
  imports DI_Resolver
begin

text \<open>
  What \<open>di_system_packages_resolve_dependencies_mark_anna\<close> of \<^verbatim>\<open>system/packages.c\<close>
  achieves: the set of packages that anna downloads is closed under dependencies, also in
  the presence of cycles. The check of missing packages is permissive, so no request fails.
\<close>

abbreviation anna_run :: "string \<Rightarrow> string \<Rightarrow> nat \<Rightarrow> resolve_check" where
  "anna_run sub kver j \<equiv> (anna_check sub kver)\<lparr>check_resolver := 2 ^ marker_index j\<rparr>"

text \<open>A provider that fits the running kernel and the subarchitecture.\<close>

definition compatible :: "string \<Rightarrow> string \<Rightarrow> di_system_package \<Rightarrow> bool" where
  "compatible sub kver p \<longleftrightarrow> (kernel_version p = None \<or> kernel_version p = Some kver) \<and>
     di_system_package_check_subarchitecture p sub"

text \<open>A dependency is taken care of when it is unpacked or has been visited in this run.\<close>

definition reached :: "nat \<Rightarrow> pkg_heap \<Rightarrow> di_package_dependency \<Rightarrow> bool" where
  "reached k h d \<longleftrightarrow> pkg_status (h (dep_ptr d)) \<ge> di_package_status_unpacked \<or> visited k h (dep_ptr d)"

definition provided_by :: "string \<Rightarrow> string \<Rightarrow> pkg_heap \<Rightarrow> pkg_ptr \<Rightarrow> di_package_dependency set" where
  "provided_by sub kver h p =
     {d \<in> set (pkg_depends (h p)). is_reverse_provides d \<and> compatible sub kver (h (dep_ptr d))}"

definition finished :: "string \<Rightarrow> string \<Rightarrow> nat \<Rightarrow> pkg_heap \<Rightarrow> pkg_ptr \<Rightarrow> bool" where
  "finished sub kver k h p \<longleftrightarrow>
     (pkg_type (h p) = di_package_type_real_package \<longrightarrow>
        pkg_status_want (h p) = di_package_status_want_install \<and>
        (\<forall>d \<in> set (pkg_depends (h p)). is_depends d \<longrightarrow> reached k h d)) \<and>
     (pkg_type (h p) = di_package_type_virtual_package \<longrightarrow> provided_by sub kver h p \<noteq> {} \<longrightarrow>
        (\<exists>d \<in> provided_by sub kver h p. reached k h d))"

text \<open>What a run leaves alone: everything but the marks and the wanted state.\<close>

definition same_attributes :: "pkg_heap \<Rightarrow> pkg_heap \<Rightarrow> bool" where
  "same_attributes h h' \<longleftrightarrow> (\<forall>p. (h' p)\<lparr>pkg_resolver := 0, pkg_status_want := di_package_status_want_unknown\<rparr> =
     (h p)\<lparr>pkg_resolver := 0, pkg_status_want := di_package_status_want_unknown\<rparr>)"

lemma same_attributes_fields:
  assumes "same_attributes h h'"
  shows "pkg_depends (h' p) = pkg_depends (h p)" "pkg_type (h' p) = pkg_type (h p)"
    "pkg_status (h' p) = pkg_status (h p)" "kernel_version (h' p) = kernel_version (h p)"
    "subarchitecture (h' p) = subarchitecture (h p)"
proof -
  have eq: "(h' p)\<lparr>pkg_resolver := 0, pkg_status_want := di_package_status_want_unknown\<rparr> =
      (h p)\<lparr>pkg_resolver := 0, pkg_status_want := di_package_status_want_unknown\<rparr>"
    using assms by (simp add: same_attributes_def)
  show "pkg_depends (h' p) = pkg_depends (h p)" using arg_cong [OF eq, of pkg_depends] by simp
  show "pkg_type (h' p) = pkg_type (h p)" using arg_cong [OF eq, of pkg_type] by simp
  show "pkg_status (h' p) = pkg_status (h p)" using arg_cong [OF eq, of pkg_status] by simp
  show "kernel_version (h' p) = kernel_version (h p)" using arg_cong [OF eq, of kernel_version] by simp
  show "subarchitecture (h' p) = subarchitecture (h p)" using arg_cong [OF eq, of subarchitecture] by simp
qed

lemma same_attributes_trans: "same_attributes a b \<Longrightarrow> same_attributes b c \<Longrightarrow> same_attributes a c"
  by (simp add: same_attributes_def)

lemma same_static_attributes: "same_static h h' \<Longrightarrow> same_attributes h h'"
proof -
  assume "same_static h h'"
  then have "((h' p)\<lparr>pkg_resolver := 0\<rparr>)\<lparr>pkg_status_want := di_package_status_want_unknown\<rparr> =
      ((h p)\<lparr>pkg_resolver := 0\<rparr>)\<lparr>pkg_status_want := di_package_status_want_unknown\<rparr>" for p
    by (simp add: same_static_def)
  then show ?thesis by (simp add: same_attributes_def)
qed

text \<open>The effect of a call: marks and wanted states only grow.\<close>

definition grows :: "nat \<Rightarrow> resolve_state \<Rightarrow> resolve_state \<Rightarrow> bool" where
  "grows k s s' \<longleftrightarrow> same_attributes (rs_heap s) (rs_heap s') \<and>
     (\<forall>q. visited k (rs_heap s) q \<longrightarrow> visited k (rs_heap s') q) \<and>
     (\<forall>q. okay k (rs_heap s) q \<longrightarrow> okay k (rs_heap s') q) \<and>
     (\<forall>q. pkg_status_want (rs_heap s' q) = pkg_status_want (rs_heap s q) \<or>
          pkg_status_want (rs_heap s' q) = di_package_status_want_install)"

lemma grows_refl [simp]: "grows k s s"
  by (simp add: grows_def same_attributes_def)

lemma grows_trans: "grows k a b \<Longrightarrow> grows k b c \<Longrightarrow> grows k a c"
  unfolding grows_def using same_attributes_trans by metis

lemma compatible_same: "same_attributes h h' \<Longrightarrow> compatible sub kver (h' p) \<longleftrightarrow> compatible sub kver (h p)"
  using same_attributes_fields(4,5) [of h h' p]
  by (simp add: compatible_def di_system_package_check_subarchitecture_def)

lemma provided_by_same: "same_attributes h h' \<Longrightarrow> provided_by sub kver h' p = provided_by sub kver h p"
  using compatible_same [of h h'] same_attributes_fields(1) [of h h'] by (simp add: provided_by_def)

lemma reached_grows: "grows k s s' \<Longrightarrow> reached k (rs_heap s) d \<Longrightarrow> reached k (rs_heap s') d"
  using same_attributes_fields(3) by (auto simp: reached_def grows_def)

lemma finished_grows: "grows k s s' \<Longrightarrow> finished sub kver k (rs_heap s) p \<Longrightarrow> finished sub kver k (rs_heap s') p"
proof -
  assume g: "grows k s s'" and f: "finished sub kver k (rs_heap s) p"
  then have a: "same_attributes (rs_heap s) (rs_heap s')" by (simp add: grows_def)
  have w: "pkg_status_want (rs_heap s' p) = di_package_status_want_install"
    if "pkg_status_want (rs_heap s p) = di_package_status_want_install"
    using g that by (metis grows_def)
  show ?thesis
    using f w reached_grows [OF g]
    unfolding finished_def same_attributes_fields [OF a] provided_by_same [OF a] by blast
qed

subsection \<open>The recursion\<close>

text \<open>
  The invariant of the recursion, \<open>X\<close> being the packages whose calls are still active:
  every visited package is okay and every visited package outside \<open>X\<close> is finished.
\<close>

definition anna_inv :: "string \<Rightarrow> string \<Rightarrow> nat \<Rightarrow> pkg_ptr set \<Rightarrow> resolve_state \<Rightarrow> bool" where
  "anna_inv sub kver k X s \<longleftrightarrow> (\<forall>q. visited k (rs_heap s) q \<longrightarrow> okay k (rs_heap s) q) \<and>
     (\<forall>q. visited k (rs_heap s) q \<longrightarrow> q \<notin> X \<longrightarrow> finished sub kver k (rs_heap s) q)"

lemma anna_best_provide:
  assumes "\<not> bit (pkg_resolver (h p)) (marker_index j + 2)"
  shows "(case best_provide (anna_run sub kver j) p h of
      None \<Rightarrow> provided_by sub kver h p = {} | Some d \<Rightarrow> d \<in> provided_by sub kver h p)"
proof -
  have "case fold (\<lambda>d best. check_virtual_anna sub kver h best d) ds b of
      None \<Rightarrow> b = None \<and> (\<forall>d \<in> set ds. \<not> compatible sub kver (h (dep_ptr d)))
    | Some d \<Rightarrow> b = Some d \<or> d \<in> set ds \<and> compatible sub kver (h (dep_ptr d))" for ds b
  proof (induction ds arbitrary: b)
    case (Cons d ds)
    have step: "check_virtual_anna sub kver h b d = b \<and> (b = None \<longrightarrow> \<not> compatible sub kver (h (dep_ptr d))) \<or>
        check_virtual_anna sub kver h b d = Some d \<and> compatible sub kver (h (dep_ptr d))"
      by (auto simp: check_virtual_anna_def compatible_def Let_def split: option.split)
    from Cons.IH [of "check_virtual_anna sub kver h b d"] step show ?case
      by (auto split: option.splits)
  qed (simp split: option.split)
  from this [of None "filter is_reverse_provides (pkg_depends (h p))"] show ?thesis
    using assms marker_test(2) [of "pkg_resolver (h p)" 2 "marker_index j"]
    by (auto simp: best_provide_def provided_by_def anna_check_def split: option.splits)
qed

lemma anna_start_best:
  fixes s sub kver j p
  defines "h \<equiv> rs_heap (start_search (anna_run sub kver j) p s)"
  shows "case best_provide (anna_run sub kver j) p h of
      None \<Rightarrow> provided_by sub kver h p = {} | Some d \<Rightarrow> d \<in> provided_by sub kver h p"
proof (cases "list_ex is_reverse_provides (pkg_depends (rs_heap s p))")
  case True
  then show ?thesis by (intro anna_best_provide) (simp add: h_def anna.resolver_updates)
next
  case False
  then have "filter is_reverse_provides (pkg_depends (h p)) = []" "provided_by sub kver h p = {}"
    by (auto simp: h_def start_search_def list_ex_iff filter_empty_conv provided_by_def)
  then show ?thesis by (simp add: best_provide_def)
qed

lemma grows_updates:
  "grows (marker_index j) s (mark_visited (anna_run sub kver j) p s)"
  "grows (marker_index j) s (start_search (anna_run sub kver j) p s)"
  "grows (marker_index j) s (di_packages_resolve_dependencies_do_real (do_real (anna_run sub kver j)) p s)"
proof -
  have static: "same_static (rs_heap s) (rs_heap (mark_visited (anna_run sub kver j) p s))"
    "same_static (rs_heap s) (rs_heap (start_search (anna_run sub kver j) p s))"
    by (simp_all add: mark_visited_def start_search_def)
  have want: "pkg_status_want (rs_heap (mark_visited (anna_run sub kver j) p s) q) = pkg_status_want (rs_heap s q)"
    "pkg_status_want (rs_heap (start_search (anna_run sub kver j) p s) q) = pkg_status_want (rs_heap s q)" for q
    by (simp_all add: mark_visited_def start_search_def set_resolver_heap)
  show "grows (marker_index j) s (mark_visited (anna_run sub kver j) p s)"
    "grows (marker_index j) s (start_search (anna_run sub kver j) p s)"
    using same_static_attributes static want
    by (auto simp: grows_def visited_def okay_def anna.resolver_updates)
  show "grows (marker_index j) s (di_packages_resolve_dependencies_do_real (do_real (anna_run sub kver j)) p s)"
    by (auto simp: grows_def visited_def okay_def same_attributes_def anna_check_def
        di_packages_resolve_dependencies_do_real_def)
qed

text \<open>What a call for a package below promises, and the same for a check of a dependency.\<close>

definition anna_step ::
  "string \<Rightarrow> string \<Rightarrow> nat \<Rightarrow> (pkg_ptr \<Rightarrow> resolve_state \<Rightarrow> (bool \<times> resolve_state) option) \<Rightarrow> bool" where
  "anna_step sub kver k f \<longleftrightarrow> (\<forall>p s b s' X. f p s = Some (b, s') \<longrightarrow> anna_inv sub kver k X s \<longrightarrow>
     b \<and> anna_inv sub kver k X s' \<and> grows k s s' \<and> visited k (rs_heap s') p)"

lemma anna_chk:
  assumes "di_packages_resolve_dependencies_check_real (anna_run sub kver j) f d s = Some (b, s')"
    "anna_step sub kver (marker_index j) f" "anna_inv sub kver (marker_index j) X s"
  shows "b \<and> anna_inv sub kver (marker_index j) X s' \<and> grows (marker_index j) s s' \<and>
    reached (marker_index j) (rs_heap s') d"
proof (cases "pkg_status (rs_heap s (dep_ptr d)) \<ge> di_package_status_unpacked")
  case True
  with assms show ?thesis
    by (auto simp: di_packages_resolve_dependencies_check_real_def anna_check_def reached_def)
next
  case False
  with assms(1) have "f (dep_ptr d) s = Some (b, s')"
    by (simp add: di_packages_resolve_dependencies_check_real_def anna_check_def)
  with assms(2,3) show ?thesis unfolding anna_step_def reached_def by blast
qed

lemma anna_inv_grows:
  assumes "anna_inv sub kver k X s" "grows k s s'"
    "\<And>q. visited k (rs_heap s') q \<Longrightarrow> visited k (rs_heap s) q \<or> q \<in> Y \<and> okay k (rs_heap s') q" "X \<subseteq> Y"
  shows "anna_inv sub kver k Y s'"
  unfolding anna_inv_def
proof (intro conjI allI impI)
  fix q assume q: "visited k (rs_heap s') q"
  show "okay k (rs_heap s') q" using assms(1,2) assms(3) [OF q] by (auto simp: anna_inv_def grows_def)
  assume "q \<notin> Y"
  then have "finished sub kver k (rs_heap s) q" using assms(1,4) assms(3) [OF q] by (auto simp: anna_inv_def)
  then show "finished sub kver k (rs_heap s') q" by (rule finished_grows [OF assms(2)])
qed

lemma anna_switch_real:
  assumes sw: "resolve_switch (anna_run sub kver j)
      (di_packages_resolve_dependencies_check_real (anna_run sub kver j) f) n p s = Some (b, t)"
    and step: "anna_step sub kver (marker_index j) f"
    and s: "anna_inv sub kver (marker_index j) X s"
    and ty: "pkg_type (rs_heap s p) = di_package_type_real_package"
  shows "b \<and> anna_inv sub kver (marker_index j) X t \<and> grows (marker_index j) s t \<and>
    finished sub kver (marker_index j) (rs_heap t) p"
proof -
  let ?chk = "di_packages_resolve_dependencies_check_real (anna_run sub kver j) f"
  from ty sw obtain u where
    u: "depends_loop ?chk (pkg_depends (rs_heap s p)) s = Some (b, u)" and
    t: "t = (if b then di_packages_resolve_dependencies_do_real (do_real (anna_run sub kver j)) p u else u)"
    by (auto simp: resolve_switch_def split: option.splits)
  have "(anna_inv sub kver (marker_index j) X u \<and> grows (marker_index j) s u) \<and>
    (if b then \<forall>d \<in> set (pkg_depends (rs_heap s p)). is_depends d \<longrightarrow> reached (marker_index j) (rs_heap u) d
     else \<exists>d \<in> set (pkg_depends (rs_heap s p)). is_depends d \<and> False)"
    by (rule default.depends_loop_rule [OF u])
      (use s anna_chk [OF _ step] grows_trans reached_grows in \<open>auto, blast+\<close>)
  then have uu: "anna_inv sub kver (marker_index j) X u" "grows (marker_index j) s u" "b"
    "\<forall>d \<in> set (pkg_depends (rs_heap s p)). is_depends d \<longrightarrow> reached (marker_index j) (rs_heap u) d"
    by (auto split: if_splits)
  have tt: "t = di_packages_resolve_dependencies_do_real DoRealMark p u" "grows (marker_index j) u t"
    using t uu(3) grows_updates(3) [of j u sub kver p] by (simp_all add: anna_check_def)
  then have "grows (marker_index j) s t" using grows_trans uu(2) by blast
  moreover have "anna_inv sub kver (marker_index j) X t"
    by (rule anna_inv_grows [OF uu(1) tt(2)]) (simp_all add: tt(1))
  moreover have "finished sub kver (marker_index j) (rs_heap t) p"
    using ty uu(4) reached_grows [OF tt(2)] same_attributes_fields(1,2) [of "rs_heap s" "rs_heap t" p]
      calculation(1) by (auto simp: finished_def grows_def tt(1) di_packages_resolve_dependencies_do_real_def)
  ultimately show ?thesis using uu(3) by simp
qed

lemma anna_switch_virtual:
  assumes sw: "resolve_switch (anna_run sub kver j)
      (di_packages_resolve_dependencies_check_real (anna_run sub kver j) f) n p s = Some (b, t)"
    and step: "anna_step sub kver (marker_index j) f"
    and s: "anna_inv sub kver (marker_index j) X s"
    and ty: "pkg_type (rs_heap s p) = di_package_type_virtual_package"
  shows "b \<and> anna_inv sub kver (marker_index j) X t \<and> grows (marker_index j) s t \<and>
    finished sub kver (marker_index j) (rs_heap t) p"
proof -
  let ?chk = "di_packages_resolve_dependencies_check_real (anna_run sub kver j) f"
  define u where "u = start_search (anna_run sub kver j) p s"
  have loop: "provide_loop (anna_run sub kver j) ?chk p n u = Some (b, t)"
    using ty sw by (simp add: resolve_switch_def u_def)
  then obtain m where m: "n = Suc m" by (cases n) auto
  have gu: "grows (marker_index j) s u" by (simp add: u_def grows_updates)
  have iu: "anna_inv sub kver (marker_index j) X u"
    by (rule anna_inv_grows [OF s gu]) (auto simp: u_def visited_def anna.resolver_updates)
  have tyu: "pkg_type (rs_heap u p) = di_package_type_virtual_package"
    using ty by (simp add: u_def start_search_def set_resolver_heap)
  note best = anna_start_best [of sub kver j p s, folded u_def]
  show ?thesis
  proof (cases "best_provide (anna_run sub kver j) p (rs_heap u)")
    case None
    then have "b" "t = u" using loop m
      by (simp_all add: anna_check_def di_packages_resolve_dependencies_check_non_existant_permissive_def)
    moreover have "finished sub kver (marker_index j) (rs_heap u) p"
      using best None tyu by (simp add: finished_def)
    ultimately show ?thesis using iu gu by simp
  next
    case (Some d)
    then obtain ok v where v: "?chk d u = Some (ok, v)" using loop m by (auto split: option.splits)
    note d = anna_chk [OF v step iu]
    then have "b" "t = v" using loop m Some v by auto
    moreover have "finished sub kver (marker_index j) (rs_heap v) p"
    proof -
      have a: "same_attributes (rs_heap u) (rs_heap v)" using d by (simp add: grows_def)
      have "d \<in> provided_by sub kver (rs_heap v) p" using best Some provided_by_same [OF a] by simp
      then show ?thesis using d tyu same_attributes_fields(2) [OF a, of p] by (auto simp: finished_def)
    qed
    ultimately show ?thesis using d gu grows_trans by blast
  qed
qed

lemma anna_switch:
  assumes sw: "resolve_switch (anna_run sub kver j)
      (di_packages_resolve_dependencies_check_real (anna_run sub kver j) f) n p s = Some (b, t)"
    and step: "anna_step sub kver (marker_index j) f"
    and s: "anna_inv sub kver (marker_index j) X s"
  shows "b \<and> anna_inv sub kver (marker_index j) X t \<and> grows (marker_index j) s t \<and>
    finished sub kver (marker_index j) (rs_heap t) p"
proof (cases "pkg_type (rs_heap s p)")
  case di_package_type_non_existent
  with sw s show ?thesis
    by (auto simp: resolve_switch_def anna_check_def finished_def
        di_packages_resolve_dependencies_check_non_existant_permissive_def)
next
  case di_package_type_real_package
  with anna_switch_real [OF assms] show ?thesis by simp
next
  case di_package_type_virtual_package
  with anna_switch_virtual [OF assms] show ?thesis by simp
qed

lemma anna_recurse:
  "anna_step sub kver (marker_index j) (di_packages_resolve_dependencies_recurse (anna_run sub kver j) n)"
proof (induction n)
  case 0
  then show ?case by (simp add: anna_step_def)
next
  case (Suc n)
  have "b \<and> anna_inv sub kver (marker_index j) X s' \<and> grows (marker_index j) s s' \<and>
      visited (marker_index j) (rs_heap s') p"
    if run: "di_packages_resolve_dependencies_recurse (anna_run sub kver j) (Suc n) p s = Some (b, s')"
      and inv: "anna_inv sub kver (marker_index j) X s" for p s b s' X
  proof (cases "visited (marker_index j) (rs_heap s) p")
    case True
    with run inv show ?thesis
      unfolding anna.recurse_Suc by (auto simp: anna_inv_def)
  next
    case False
    define s1 where "s1 = mark_visited (anna_run sub kver j) p s"
    have g1: "grows (marker_index j) s s1" by (simp add: s1_def grows_updates)
    have i1: "anna_inv sub kver (marker_index j) (insert p X) s1"
      by (rule anna_inv_grows [OF inv g1]) (auto simp: s1_def visited_def okay_def anna.resolver_updates)
    have v1: "visited (marker_index j) (rs_heap s1) p" by (simp add: s1_def visited_def anna.resolver_updates)
    obtain t c where sw: "resolve_switch (anna_run sub kver j)
        (di_packages_resolve_dependencies_check_real (anna_run sub kver j)
           (di_packages_resolve_dependencies_recurse (anna_run sub kver j) n)) n p s1 = Some (c, t)"
      and res: "(b, s') = (if c then (True, t) else (False, unmark_okay (anna_run sub kver j) p t))"
      using run False unfolding anna.recurse_Suc s1_def by (auto split: option.splits if_splits)
    note t = anna_switch [OF sw Suc.IH i1]
    then have "b" "s' = t" using res by auto
    moreover have "anna_inv sub kver (marker_index j) X t" using t by (auto simp: anna_inv_def)
    moreover have "visited (marker_index j) (rs_heap t) p" using t v1 by (auto simp: grows_def)
    ultimately show ?thesis using t g1 grows_trans by blast
  qed
  then show ?case unfolding anna_step_def by blast
qed

lemma anna_mark_all:
  "mark_all (anna_run sub kver j) n ps s = Some s' \<Longrightarrow> anna_inv sub kver (marker_index j) {} s \<Longrightarrow>
   anna_inv sub kver (marker_index j) {} s' \<and> grows (marker_index j) s s' \<and>
   (\<forall>p \<in> set ps. pkg_status_want (rs_heap s p) = di_package_status_want_install \<longrightarrow>
      visited (marker_index j) (rs_heap s') p)"
proof (induction ps arbitrary: s)
  case (Cons p ps)
  let ?run = "pkg_resolver (rs_heap s p) AND check_resolver (anna_run sub kver j) = 0 \<and>
    pkg_status_want (rs_heap s p) = di_package_status_want_install"
  obtain t where t: "mark_all (anna_run sub kver j) n ps t = Some s'" "anna_inv sub kver (marker_index j) {} t"
    "grows (marker_index j) s t" "?run \<longrightarrow> visited (marker_index j) (rs_heap t) p"
  proof (cases ?run)
    case True
    then obtain b t where r: "di_packages_resolve_dependencies_recurse (anna_run sub kver j) n p s = Some (b, t)"
      "mark_all (anna_run sub kver j) n ps t = Some s'" using Cons.prems(1) by (auto split: option.splits)
    then show ?thesis using that anna_recurse [of sub kver j n] Cons.prems(2) unfolding anna_step_def by blast
  next
    case False
    then have "mark_all (anna_run sub kver j) n ps s = Some s'" using Cons.prems(1) by (simp split: if_splits)
    then show ?thesis using that [of s] False Cons.prems(2) by auto
  qed
  note IH = Cons.IH [OF t(1,2)]
  have "visited (marker_index j) (rs_heap s') p" if "pkg_status_want (rs_heap s p) = di_package_status_want_install"
  proof -
    have "visited (marker_index j) (rs_heap t) p"
      using that t(3,4) marker_test(1) [of "pkg_resolver (rs_heap s p)" "marker_index j"]
      by (auto simp: visited_def grows_def)
    then show ?thesis using IH by (auto simp: grows_def)
  qed
  moreover have "pkg_status_want (rs_heap t q) = di_package_status_want_install"
    if "pkg_status_want (rs_heap s q) = di_package_status_want_install" for q
    using t(3) that unfolding grows_def by metis
  ultimately show ?case using IH t(3) grows_trans by auto
qed simp

text \<open>
  Property C2: the selection of anna returns, on graphs with cycles too, and afterwards every
  package that was to be installed and everything visited from it is marked for
  installation together with all its dependencies that are not unpacked yet; a visited
  virtual package with providers that fit kernel and subarchitecture has one of them
  unpacked or visited. Only marks and wanted states change, and a wanted state changes only
  to install.
\<close>

theorem mark_anna_closed:
  assumes marker: "resolver (di_packages_resolve_dependencies_marker packages) = 2 ^ marker_index j"
    and h: "h = heap (di_packages_resolve_dependencies_marker packages)"
    and fresh: "\<forall>p. \<not> visited (marker_index j) h p"
    and P: "closed h P" "set (pkg_list packages) \<subseteq> P" "card P + 3 \<le> fuel"
  shows "\<exists>packages'.
    di_system_packages_resolve_dependencies_mark_anna fuel packages sub kver = Some packages' \<and>
    (\<forall>p \<in> set (pkg_list packages). pkg_status_want (h p) = di_package_status_want_install \<longrightarrow>
       visited (marker_index j) (heap packages') p) \<and>
    (\<forall>p. visited (marker_index j) (heap packages') p \<longrightarrow>
       finished sub kver (marker_index j) (heap packages') p) \<and>
    same_attributes h (heap packages') \<and>
    (\<forall>p. pkg_status_want (heap packages' p) = pkg_status_want (h p) \<or>
         pkg_status_want (heap packages' p) = di_package_status_want_install)"
proof -
  let ?s = "\<lparr>rs_heap = h, rs_list = []\<rparr>"
  have list: "pkg_list (di_packages_resolve_dependencies_marker packages) = pkg_list packages"
    by (simp add: di_packages_resolve_dependencies_marker_def)
  have "provide_check.going (marker_index j) h P P ?s"
    by (auto simp: anna.going_def anna.fresh_def)
  then obtain s' where run: "mark_all (anna_run sub kver j) fuel (pkg_list packages) ?s = Some s'"
    using anna.mark_all_returns [OF P(1,3,2)] by blast
  have "anna_inv sub kver (marker_index j) {} ?s" using fresh by (simp add: anna_inv_def)
  note res = anna_mark_all [OF run this]
  have "di_system_packages_resolve_dependencies_mark_anna fuel packages sub kver =
      Some ((di_packages_resolve_dependencies_marker packages)\<lparr>heap := rs_heap s'\<rparr>)"
    using run by (simp add: di_system_packages_resolve_dependencies_mark_anna_def
        di_packages_resolve_dependencies_mark_special_def Let_def marker list h [symmetric])
  then show ?thesis using res by (auto simp: anna_inv_def grows_def)
qed

text \<open>Two packages that depend on each other, the first one wanted.\<close>

definition cycle_heap :: pkg_heap where
  "cycle_heap = (\<lambda>_. zero_package)
     (0 := (real_package ''a'' [1])\<lparr>pkg_status_want := di_package_status_want_install\<rparr>,
      1 := real_package ''b'' [0])"

definition cycle_packages :: di_packages where
  "cycle_packages = (di_packages_alloc cycle_heap 2)\<lparr>pkg_list := [0]\<rparr>"

theorem mark_anna_closed_witness:
  "\<exists>packages'. di_system_packages_resolve_dependencies_mark_anna 5 cycle_packages ''generic'' ''5.10'' = Some packages' \<and>
     visited 0 (heap packages') 0 \<and> finished ''generic'' ''5.10'' 0 (heap packages') 0"
proof -
  have marker: "resolver (di_packages_resolve_dependencies_marker cycle_packages) = 2 ^ marker_index 0"
    "heap (di_packages_resolve_dependencies_marker cycle_packages) = cycle_heap"
    by (simp_all add: di_packages_resolve_dependencies_marker_def cycle_packages_def di_packages_alloc_def
        marker_index_def)
  have "\<forall>p. \<not> visited (marker_index 0) cycle_heap p"
    by (simp add: visited_def cycle_heap_def real_package_def zero_package_def)
  moreover have "closed cycle_heap {0, 1}"
    by (auto simp: closed_def cycle_heap_def real_package_def zero_package_def split: if_splits)
  ultimately show ?thesis
    using mark_anna_closed [OF marker(1) marker(2) [symmetric], of "{0, 1}" 5 "''generic''" "''5.10''"]
    by (auto simp: cycle_packages_def cycle_heap_def marker_index_def)
qed

end
