(* ===== verification/DI_Rfc822.thy ===== *)
theory DI_Rfc822
  imports DI_Hash
begin

text \<open>
  \<^verbatim>\<open>libdebian-installer/src/parser.c\<close> and \<^verbatim>\<open>parser_rfc822.c\<close>: the reader and writer of
  control files (\<open>Packages\<close>, \<open>status\<close>, \<open>templates\<close>), generic in the fields.

  The buffer of \<open>size\<close> bytes is a list, a pointer into it is the suffix that starts there.
  A file is mapped into memory, where the bytes behind its end up to the end of the page
  are zero; the suffix \<open>[]\<close> reads as NUL. A read function gets the suffix at the value and
  its size, because several of them scan on by \<open>strcspn\<close> or \<open>strtol\<close>; \<open>None\<close> means that it
  dereferences a NULL pointer.

  The sources are compiled without \<open>MODIFIER\<close>, so field modifiers only occur for wildcards.
\<close>

subsection \<open>Parser information\<close>

record ('d, 's) di_parser_fieldinfo =
  fi_key :: di_rstring
  fi_read :: "'d option \<Rightarrow> di_rstring option \<Rightarrow> string \<Rightarrow> nat \<Rightarrow> 's \<Rightarrow> ('d option \<times> 's) option"
  fi_write :: "('d \<Rightarrow> 's \<Rightarrow> (di_rstring \<times> di_rstring) list) option"

record ('d, 's) di_parser_info =
  info_table :: "(di_rstring, ('d, 's) di_parser_fieldinfo) di_hash_table"
  info_list :: "('d, 's) di_parser_fieldinfo list"
  info_wildcard :: bool

definition di_parser_info_alloc :: "('d, 's) di_parser_info" where
  "di_parser_info_alloc =
     \<lparr>info_table = di_hash_table_new di_rstring_hash (Some di_rstring_equal), info_list = [],
      info_wildcard = False\<rparr>"

fun di_parser_info_add ::
  "('d, 's) di_parser_info \<Rightarrow> ('d, 's) di_parser_fieldinfo list \<Rightarrow> ('d, 's) di_parser_info" where
  "di_parser_info_add info [] = info"
| "di_parser_info_add info (fip # fips) =
     di_parser_info_add
       (info\<lparr>info_table := ht_insert (info_table info) (fi_key fip) fip,
             info_list := info_list info @ [fip]\<rparr>) fips"

subsection \<open>Reading\<close>

datatype rfc822_error =
    NoFieldEnd | NoValueEnd | FieldAfterLine | NoLargeValueEnd | EntryRejected | NullDeref

abbreviation is_blank :: "char \<Rightarrow> bool" where
  "is_blank c \<equiv> c = SP \<or> c = TAB"

text \<open>
  The loop over continuation lines: \<open>e\<close> is the offset of a newline, the result that of the
  newline before the first line that does not start with a blank.
\<close>

function large_value_end :: "string \<Rightarrow> nat \<Rightarrow> nat option" where
  "large_value_end cur e =
     (if is_blank (peek (drop (Suc e) cur))
      then (case memchr (drop (Suc e) cur) NL of
              None \<Rightarrow> None
            | Some n \<Rightarrow> large_value_end cur (Suc e + n))
      else Some e)"
  by pat_completeness auto
termination
proof (relation "measure (\<lambda>(cur, e). length cur - e)", goal_cases)
  case (2 cur e n)
  then have "n < length (drop (Suc e) cur)" by (intro memchr_lt) simp
  then show ?case by simp
qed simp

declare large_value_end.simps [simp del]

text \<open>
  One field at \<open>cur\<close>: the sizes of the field name, of the blanks before the value and of the
  value, and the offset of the next line.
\<close>

definition scan_field :: "string \<Rightarrow> rfc822_error + nat \<times> nat \<times> nat \<times> nat" where
  "scan_field cur =
     (case memchr cur CHR '':'' of
        None \<Rightarrow> Inl NoFieldEnd
      | Some field_end \<Rightarrow>
          (let value_begin = field_end + 1 + length (takeWhile is_blank (drop (field_end + 1) cur))
           in case memchr cur NL of
                None \<Rightarrow> Inl NoValueEnd
              | Some value_end \<Rightarrow>
                  if value_end < field_end then Inl FieldAfterLine
                  else (case large_value_end cur value_end of
                          None \<Rightarrow> Inl NoLargeValueEnd
                        | Some value_end \<Rightarrow> Inr (field_end, value_begin, value_end - value_begin, value_end + 1))))"

text \<open>The call of the read function of a field; a field without one is skipped.\<close>

definition dispatch_field ::
  "('d, 's) di_parser_info \<Rightarrow> di_rstring \<Rightarrow> string \<Rightarrow> nat \<Rightarrow> 'd option \<Rightarrow> 's \<Rightarrow> ('d option \<times> 's) option" where
  "dispatch_field info field value value_size act s =
     (case di_hash_table_lookup (info_table info) field of
        Some fip \<Rightarrow> fi_read fip act None value value_size s
      | None \<Rightarrow>
          if \<not> info_wildcard info then Some (act, s)
          else (case di_hash_table_lookup (info_table info) [] of
                  Some fip \<Rightarrow> fi_read fip act (Some field) value value_size s
                | None \<Rightarrow> Some (act, s)))"

text \<open>The inner loop: the fields of one entry.\<close>

lemma scan_field_progress:
  "scan_field cur = Inr (f, b, v, n) \<Longrightarrow> 0 < n \<and> cur \<noteq> []"
  by (auto simp: scan_field_def Let_def split: option.splits if_splits)

function read_fields ::
  "('d, 's) di_parser_info \<Rightarrow> string \<Rightarrow> 'd option \<Rightarrow> 's \<Rightarrow> rfc822_error + string \<times> 'd option \<times> 's" where
  "read_fields info cur act s =
     (if cur = [] then Inr (cur, act, s)
      else case scan_field cur of
        Inl e \<Rightarrow> Inl e
      | Inr (field_size, value_begin, value_size, next) \<Rightarrow>
          (case dispatch_field info (take field_size cur) (drop value_begin cur) value_size act s of
             None \<Rightarrow> Inl NullDeref
           | Some (act', s') \<Rightarrow>
               if drop next cur = [] \<or> peek (drop next cur) = NL then Inr (drop next cur, act', s')
               else read_fields info (drop next cur) act' s'))"
  by pat_completeness auto
termination
  by (relation "measure (\<lambda>(info, cur, act, s). length cur)") (auto dest!: scan_field_progress)

declare read_fields.simps [simp del]

lemma read_fields_shorter:
  "read_fields info cur act s = Inr (cur', act', s') \<Longrightarrow> cur \<noteq> [] \<Longrightarrow> length cur' < length cur"
proof (induction info cur act s rule: read_fields.induct)
  case (1 info cur act s)
  obtain f b v n where sc: "scan_field cur = Inr (f, b, v, n)"
    using 1(2,3) by (auto simp: read_fields.simps [of info cur] split: sum.splits)
  obtain a2 s2 where d: "dispatch_field info (take f cur) (drop b cur) v act s = Some (a2, s2)"
    using 1(2,3) sc by (auto simp: read_fields.simps [of info cur] split: option.splits)
  have n: "length (drop n cur) < length cur" using scan_field_progress [OF sc] by auto
  show ?case
  proof (cases "drop n cur = [] \<or> peek (drop n cur) = NL")
    case True
    with 1(2,3) sc d n show ?thesis by (auto simp: read_fields.simps [of info cur])
  next
    case False
    with 1(2,3) sc d have "read_fields info (drop n cur) a2 s2 = Inr (cur', act', s')"
      by (auto simp: read_fields.simps [of info cur])
    with 1(1) [OF 1(3) sc refl refl refl d refl False] False n show ?thesis by simp
  qed
qed

text \<open>
  The outer loop. \<open>entry_new\<close> and \<open>entry_finish\<close> may be NULL; the entry is rejected if the
  latter returns a value other than zero.
\<close>

function di_parser_rfc822_read ::
  "('d, 's) di_parser_info \<Rightarrow> ('s \<Rightarrow> 'd option \<times> 's) option \<Rightarrow> ('d option \<Rightarrow> 's \<Rightarrow> int \<times> 's) option \<Rightarrow>
   string \<Rightarrow> nat \<Rightarrow> 's \<Rightarrow> rfc822_error + nat \<times> 's" where
  "di_parser_rfc822_read info entry_new entry_finish cur nr s =
     (if cur = [] then Inr (nr, s)
      else if peek cur = NL then di_parser_rfc822_read info entry_new entry_finish (tl cur) nr s
      else (case (case entry_new of Some f \<Rightarrow> f s | None \<Rightarrow> (None, s)) of (act, s1) \<Rightarrow>
        (case read_fields info cur act s1 of
           Inl e \<Rightarrow> Inl e
         | Inr (cur', act', s2) \<Rightarrow>
             (case (case entry_finish of Some f \<Rightarrow> f act' s2 | None \<Rightarrow> (0, s2)) of (r, s3) \<Rightarrow>
                if r \<noteq> 0 then Inl EntryRejected
                else di_parser_rfc822_read info entry_new entry_finish cur' (Suc nr) s3))))"
  by pat_completeness auto
termination
  by (relation "measure (\<lambda>(info, n, f, cur, nr, s). length cur)") (auto dest: read_fields_shorter)

declare di_parser_rfc822_read.simps [simp del]

subsection \<open>Writing\<close>

text \<open>The callback of the writer appends a field to the file.\<close>

definition callback :: "di_rstring \<times> di_rstring \<Rightarrow> string" where
  "callback fv = fst fv @ '': '' @ snd fv @ [NL]"

text \<open>
  The text written for the entries that \<open>entry_next\<close> returns one after the other, and their
  number.
\<close>

definition write_entry :: "('d, 's) di_parser_info \<Rightarrow> 's \<Rightarrow> 'd \<Rightarrow> string" where
  "write_entry info s act =
     concat (map (\<lambda>fip. case fi_write fip of
         Some write \<Rightarrow> concat (map callback (write act s)) | None \<Rightarrow> []) (info_list info)) @ [NL]"

definition di_parser_rfc822_write :: "('d, 's) di_parser_info \<Rightarrow> 's \<Rightarrow> 'd list \<Rightarrow> nat \<times> string" where
  "di_parser_rfc822_write info s acts = (length acts, concat (map (write_entry info s) acts))"

subsection \<open>Parsers built from a list of fields\<close>

lemma info_add_list: "info_list (di_parser_info_add info fips) = info_list info @ fips"
  by (induction info fips rule: di_parser_info_add.induct) auto

lemma info_add_append: "di_parser_info_add info (fips @ fips') = di_parser_info_add (di_parser_info_add info fips) fips'"
  by (induction info fips rule: di_parser_info_add.induct) auto

lemma info_add_table:
  "info_table (di_parser_info_add di_parser_info_alloc fips) = insert_list (map (\<lambda>fip. (fi_key fip, fip)) fips)"
  by (induction fips rule: rev_induct) (auto simp: info_add_append di_parser_info_alloc_def)

text \<open>A field is dispatched to its own read function, whatever the case of its name.\<close>

lemma dispatch_known:
  assumes keys: "\<forall>fip \<in> set fips. nul_free (fi_key fip)" "distinct (map (\<lambda>fip. map c_tolower (fi_key fip)) fips)"
    and fip: "fip \<in> set fips" and f: "nul_free f" "map c_tolower f = map c_tolower (fi_key fip)"
  shows "dispatch_field (di_parser_info_add di_parser_info_alloc fips) f v n act s = fi_read fip act None v n s"
proof -
  let ?es = "map (\<lambda>fip. (fi_key fip, fip)) fips"
  have "find (\<lambda>(k, v). di_rstring_equal k f) (rev ?es) = Some (fi_key fip, fip)"
  proof -
    have "(fi_key fip, fip) \<in> set (rev ?es)" "di_rstring_equal (fi_key fip) f"
      using fip f keys(1) by (auto simp: di_rstring_equal_iff)
    then obtain e where e: "find (\<lambda>(k, v). di_rstring_equal k f) (rev ?es) = Some e"
      by (metis (mono_tags, lifting) case_prod_conv find_None_iff not_Some_eq)
    then have "e \<in> set ?es" "di_rstring_equal (fst e) f" using find_Some_set by fastforce+
    then obtain g where g: "e = (fi_key g, g)" "g \<in> set fips" "map c_tolower (fi_key g) = map c_tolower f"
      using keys(1) f(1) by (auto simp: di_rstring_equal_iff)
    then have "g = fip" using keys(2) fip f(2) by (auto simp: distinct_map inj_on_def)
    with e g show ?thesis by simp
  qed
  moreover have "fst ` set ?es \<subseteq> rstring_keys" using keys(1) by auto
  ultimately have "di_hash_table_lookup (insert_list ?es) f = Some fip"
    using rstr_store.lookup_insert_all [OF rstr_store.invar_empty, of ?es f] f(1) by (simp add: insert_list_all)
  then show ?thesis by (simp add: dispatch_field_def info_add_table)
qed

subsection \<open>Reading what was written\<close>

text \<open>Inside a value every newline is followed by a blank.\<close>

fun folded :: "string \<Rightarrow> bool" where
  "folded [] = True"
| "folded [c] = (c \<noteq> NL)"
| "folded (c # d # s) = ((c = NL \<longrightarrow> is_blank d) \<and> folded (d # s))"

definition good_field :: "di_rstring \<Rightarrow> bool" where
  "good_field f \<longleftrightarrow> f \<noteq> [] \<and> \<not> is_blank (peek f) \<and> CHR '':'' \<notin> set f \<and> NL \<notin> set f"

definition good_value :: "di_rstring \<Rightarrow> bool" where
  "good_value v \<longleftrightarrow> folded v \<and> \<not> is_blank (peek v)"

lemma folded_split: "folded (a @ NL # c) \<Longrightarrow> NL \<notin> set a \<Longrightarrow> folded c \<and> c \<noteq> [] \<and> is_blank (peek c)"
proof (induction a)
  case Nil
  then show ?case by (cases c) auto
next
  case (Cons x a)
  then show ?case by (cases a) auto
qed

lemma large_value_end_stop:
  "drop (Suc e) cur = rest \<Longrightarrow> \<not> is_blank (peek rest) \<Longrightarrow> large_value_end cur e = Some e"
  by (simp add: large_value_end.simps)

lemma large_value_end_folded:
  "drop (Suc e) cur = w @ NL # rest \<Longrightarrow> folded w \<Longrightarrow> is_blank (peek w) \<Longrightarrow> \<not> is_blank (peek rest) \<Longrightarrow>
   large_value_end cur e = Some (Suc e + length w)"
proof (induction "length w" arbitrary: w e rule: less_induct)
  case less
  have blank: "is_blank (peek (drop (Suc e) cur))" using less.prems(1,3) by (cases w) auto
  show ?case
  proof (cases "NL \<in> set w")
    case False
    then have "memchr (drop (Suc e) cur) NL = Some (length w)" using less.prems(1) by simp
    moreover have "drop (Suc (Suc e + length w)) cur = rest"
    proof -
      have "drop (Suc (Suc e + length w)) cur = drop (Suc (length w)) (drop (Suc e) cur)"
        by (simp add: add.commute)
      then show ?thesis using less.prems(1) by simp
    qed
    ultimately show ?thesis
      using blank large_value_end_stop [of "Suc e + length w"] less.prems(4)
      by (simp add: large_value_end.simps [of cur e])
  next
    case True
    then obtain a c where w: "w = a @ NL # c" "NL \<notin> set a" by (meson split_list_first)
    have m: "memchr (drop (Suc e) cur) NL = Some (length a)" using less.prems(1) w by simp
    have "drop (Suc (Suc e + length a)) cur = drop (Suc (length a)) (drop (Suc e) cur)"
      by (simp add: add.commute)
    then have d: "drop (Suc (Suc e + length a)) cur = c @ NL # rest" using less.prems(1) w by simp
    from folded_split w less.prems(2) have "folded c" "c \<noteq> []" "is_blank (peek c)" by auto
    then have "large_value_end cur (Suc e + length a) = Some (Suc (Suc e + length a) + length c)"
      using less.hyps [OF _ d] w less.prems(4) by simp
    then show ?thesis using blank m w by (simp add: large_value_end.simps [of cur e])
  qed
qed

lemma scan_written:
  assumes f: "good_field f" and v: "good_value v" and rest: "\<not> is_blank (peek rest)"
  shows "scan_field (callback (f, v) @ rest) =
    Inr (length f, length f + 2, length v, length f + length v + 3)"
proof -
  let ?cur = "callback (f, v) @ rest"
  have cur: "?cur = f @ CHR '':'' # SP # v @ NL # rest" by (simp add: callback_def)
  have colon: "memchr ?cur CHR '':'' = Some (length f)" unfolding cur using f by (simp add: good_field_def)
  have blanks: "takeWhile is_blank (drop (length f + 1) ?cur) = [SP]"
    unfolding cur using v by (cases v) (auto simp: good_value_def)
  obtain e where e: "memchr ?cur NL = Some e" "length f \<le> e"
    and large: "large_value_end ?cur e = Some (length f + length v + 2)"
  proof (cases "NL \<in> set v")
    case False
    have "memchr ((f @ CHR '':'' # SP # v) @ NL # rest) NL = Some (length (f @ CHR '':'' # SP # v))"
      using f False by (intro memchr_append_first) (auto simp: good_field_def)
    then have "memchr ?cur NL = Some (length f + length v + 2)" unfolding cur by simp
    moreover have "drop (Suc (length f + length v + 2)) ?cur = rest"
      unfolding cur by (simp add: eval_nat_numeral)
    ultimately show thesis using that large_value_end_stop rest by simp
  next
    case True
    then obtain a c where w: "v = a @ NL # c" "NL \<notin> set a" by (meson split_list_first)
    have fc: "folded c" "c \<noteq> []" "is_blank (peek c)" using folded_split w v by (auto simp: good_value_def)
    let ?p = "f @ CHR '':'' # SP # a"
    have "memchr (?p @ NL # c @ NL # rest) NL = Some (length ?p)"
      using f w by (intro memchr_append_first) (auto simp: good_field_def)
    moreover have split: "?cur = ?p @ NL # c @ NL # rest" by (simp add: callback_def w)
    ultimately have "memchr ?cur NL = Some (length ?p)" by simp
    moreover have "drop (Suc (length ?p)) ?cur = c @ NL # rest"
      unfolding split by (simp add: eval_nat_numeral)
    ultimately show thesis using that [of "length ?p"] large_value_end_folded [of "length ?p" ?cur c rest] fc rest w
      by simp
  qed
  show ?thesis unfolding scan_field_def using colon e large blanks by (simp add: Let_def)
qed

lemma read_fields_step:
  assumes "cur \<noteq> []" "scan_field cur = Inr (a, b, c, n)" "take a cur = f" "drop b cur = val" "drop n cur = t"
  shows "read_fields info cur act s =
    (case dispatch_field info f val c act s of None \<Rightarrow> Inl NullDeref
     | Some (act', s') \<Rightarrow> if t = [] \<or> peek t = NL then Inr (t, act', s') else read_fields info t act' s')"
  unfolding assms(3-5) [symmetric] using assms(1,2) by (simp add: read_fields.simps [of info cur])

lemma written_tail:
  fixes rest :: string
  assumes "\<forall>(f, v) \<in> set fvs. good_field f"
  defines "tail \<equiv> concat (map callback fvs) @ NL # rest"
  shows "\<not> is_blank (peek tail)" "peek tail = NL \<longleftrightarrow> fvs = []" "tail \<noteq> []"
proof -
  have first: "peek (callback (f, v) @ t) = peek f \<and> peek f \<noteq> NL \<and> \<not> is_blank (peek f)" if "good_field f" for f v t
    using that by (cases f) (auto simp: good_field_def callback_def)
  show "\<not> is_blank (peek tail)" "peek tail = NL \<longleftrightarrow> fvs = []" "tail \<noteq> []"
    using assms first by (cases fvs; force simp: tail_def)+
qed

text \<open>
  The contract of the read functions of a parser: on a written value they only look at the
  value and the newline behind it. \<open>good\<close> are the fields and values they are used for.
\<close>

locale field_readers =
  fixes info :: "('d, 's) di_parser_info" and good :: "di_rstring \<Rightarrow> di_rstring \<Rightarrow> bool"
  assumes good_format: "good f v \<Longrightarrow> good_field f \<and> good_value v"
    and within: "good f v \<Longrightarrow> dispatch_field info f (v @ NL # rest) (length v) act s =
      dispatch_field info f (v @ [NL]) (length v) act s"
begin

text \<open>The reference: the read functions applied to the fields one after the other.\<close>

fun feed :: "(di_rstring \<times> di_rstring) list \<Rightarrow> 'd option \<Rightarrow> 's \<Rightarrow> ('d option \<times> 's) option" where
  "feed [] act s = Some (act, s)"
| "feed ((f, v) # fvs) act s =
     (case dispatch_field info f (v @ [NL]) (length v) act s of
        None \<Rightarrow> None | Some (act', s') \<Rightarrow> feed fvs act' s')"

fun feed_entries :: "(di_rstring \<times> di_rstring) list list \<Rightarrow> 's \<Rightarrow> 's option" where
  "feed_entries [] s = Some s"
| "feed_entries (e # es) s =
     (case feed e None s of None \<Rightarrow> None | Some (act, s') \<Rightarrow> feed_entries es s')"

lemma feed_append:
  "feed (fvs @ gvs) act s = (case feed fvs act s of None \<Rightarrow> None | Some (act', s') \<Rightarrow> feed gvs act' s')"
  by (induction fvs act s rule: feed.induct) (auto split: option.splits)

lemma read_fields_written:
  assumes "\<forall>(f, v) \<in> set fvs. good f v" "fvs \<noteq> []"
  shows "read_fields info (concat (map callback fvs) @ NL # rest) act s =
    (case feed fvs act s of None \<Rightarrow> Inl NullDeref | Some (act', s') \<Rightarrow> Inr (NL # rest, act', s'))"
  using assms
proof (induction fvs arbitrary: act s)
  case (Cons p fvs)
  obtain f v where p: "p = (f, v)" by fastforce
  let ?tail = "concat (map callback fvs) @ NL # rest"
  let ?cur = "callback (f, v) @ ?tail"
  have g: "good_field f" "good_value v" "good f v" using Cons.prems(1) good_format p by auto
  have "\<forall>(f, v) \<in> set fvs. good_field f" using Cons.prems(1) good_format by fastforce
  note tail = written_tail [OF this, of rest]
  have cur: "?cur = f @ CHR '':'' # SP # v @ NL # ?tail" by (simp add: callback_def)
  have pieces: "take (length f) ?cur = f" "drop (length f + 2) ?cur = v @ NL # ?tail"
    "drop (length f + length v + 3) ?cur = ?tail" "?cur \<noteq> []"
    unfolding cur by (simp_all add: eval_nat_numeral)
  have step: "read_fields info ?cur act s =
      (case dispatch_field info f (v @ [NL]) (length v) act s of None \<Rightarrow> Inl NullDeref
       | Some (act', s') \<Rightarrow> if fvs = [] then Inr (?tail, act', s') else read_fields info ?tail act' s')"
    unfolding read_fields_step [OF pieces(4) scan_written [OF g(1,2) tail(1)] pieces(1-3)]
      within [OF g(3), of ?tail] using tail(2,3) by (simp split: option.split)
  show ?case
  proof (cases "dispatch_field info f (v @ [NL]) (length v) act s")
    case None
    with step p show ?thesis by simp
  next
    case (Some as)
    obtain a1 s1 where as: "as = (a1, s1)" by fastforce
    show ?thesis
    proof (cases "fvs = []")
      case True
      with step Some p as show ?thesis by simp
    next
      case False
      with Cons.IH [of a1 s1] Cons.prems(1) step Some p as show ?thesis by simp
    qed
  qed
qed simp

lemma read_written:
  assumes "\<forall>e \<in> set es. e \<noteq> [] \<and> (\<forall>(f, v) \<in> set e. good f v)"
  shows "di_parser_rfc822_read info None None (concat (map (\<lambda>e. concat (map callback e) @ [NL]) es)) nr s =
    (case feed_entries es s of None \<Rightarrow> Inl NullDeref | Some s' \<Rightarrow> Inr (nr + length es, s'))"
  using assms
proof (induction es arbitrary: nr s)
  case Nil
  then show ?case by (simp add: di_parser_rfc822_read.simps)
next
  case (Cons e es)
  let ?rest = "concat (map (\<lambda>e. concat (map callback e) @ [NL]) es)"
  let ?cur = "concat (map callback e) @ NL # ?rest"
  have e: "e \<noteq> []" "\<forall>(f, v) \<in> set e. good f v" "\<forall>(f, v) \<in> set e. good_field f"
    using Cons.prems good_format by fastforce+
  have first: "peek ?cur \<noteq> NL" "?cur \<noteq> []" using written_tail [OF e(3), of ?rest] e(1) by auto
  have nl: "di_parser_rfc822_read info None None (NL # ?rest) n t = di_parser_rfc822_read info None None ?rest n t" for n t
    by (simp add: di_parser_rfc822_read.simps [of info None None "NL # ?rest"])
  have "di_parser_rfc822_read info None None ?cur nr s =
      (case feed e None s of None \<Rightarrow> Inl NullDeref
       | Some (act, s') \<Rightarrow> di_parser_rfc822_read info None None ?rest (Suc nr) s')"
    unfolding di_parser_rfc822_read.simps [of info None None ?cur] read_fields_written [OF e(2,1)]
    using first nl by (simp split: option.split)
  with Cons show ?case by (simp split: option.split)
qed

end

end
