(* ===== verification/DI_PackageParser.thy ===== *)
theory DI_PackageParser
  imports DI_Rfc822 DI_Packages
begin

text \<open>
  The fields of package control files: \<^verbatim>\<open>package_parser.c\<close>, \<^verbatim>\<open>packages_parser.c\<close>, the
  field functions of \<^verbatim>\<open>parser.c\<close> and the extra fields of \<^verbatim>\<open>system/packages.c\<close>.

  The data of the parser is the package pointer \<open>*data\<close>, NULL before the first \<open>Package\<close>
  field of an entry; the user data is the container the packages go to. A field at an
  \<open>offsetof\<close> in the structure is an update and a selector of the record.
\<close>

type_synonym pkg_read =
  "pkg_ptr option \<Rightarrow> di_rstring option \<Rightarrow> string \<Rightarrow> nat \<Rightarrow> di_packages \<Rightarrow> (pkg_ptr option \<times> di_packages) option"

type_synonym pkg_write = "pkg_ptr \<Rightarrow> di_packages \<Rightarrow> (di_rstring \<times> di_rstring) list"

type_synonym pkg_fieldinfo = "(pkg_ptr, di_packages) di_parser_fieldinfo"

definition upd_pkg :: "pkg_ptr \<Rightarrow> (di_system_package \<Rightarrow> di_system_package) \<Rightarrow> di_packages \<Rightarrow> di_packages" where
  "upd_pkg p f s = s\<lparr>heap := (heap s)(p := f (heap s p))\<rparr>"

text \<open>An access to the structure behind \<open>*data\<close>.\<close>

definition at_data :: "pkg_ptr option \<Rightarrow> (di_system_package \<Rightarrow> di_system_package) \<Rightarrow> di_packages \<Rightarrow>
   (pkg_ptr option \<times> di_packages) option" where
  "at_data data f s = (case data of None \<Rightarrow> None | Some p \<Rightarrow> Some (Some p, upd_pkg p f s))"

subsection \<open>Values\<close>

definition di_parser_read_boolean :: "(bool \<Rightarrow> di_system_package \<Rightarrow> di_system_package) \<Rightarrow> pkg_read" where
  "di_parser_read_boolean upd data m value sz s =
     at_data data (upd (strncasecmp_eq 3 value ''yes'')) s"

definition di_parser_write_boolean :: "di_rstring \<Rightarrow> (di_system_package \<Rightarrow> bool) \<Rightarrow> pkg_write" where
  "di_parser_write_boolean key sel p s = (if sel (heap s p) then [(key, ''Yes'')] else [])"

definition di_parser_read_int :: "(int \<Rightarrow> di_system_package \<Rightarrow> di_system_package) \<Rightarrow> pkg_read" where
  "di_parser_read_int upd data m value sz s = at_data data (upd (to_int32 (strtol value))) s"

definition di_parser_write_int :: "di_rstring \<Rightarrow> (di_system_package \<Rightarrow> int) \<Rightarrow> pkg_write" where
  "di_parser_write_int key sel p s =
     (if sel (heap s p) \<noteq> 0 then [(key, dec_int (sel (heap s p)))] else [])"

definition di_parser_read_rstring :: "(di_rstring \<Rightarrow> di_system_package \<Rightarrow> di_system_package) \<Rightarrow> pkg_read" where
  "di_parser_read_rstring upd data m value sz s = at_data data (upd (di_stradup value sz)) s"

definition di_parser_write_rstring :: "di_rstring \<Rightarrow> (di_system_package \<Rightarrow> di_rstring) \<Rightarrow> pkg_write" where
  "di_parser_write_rstring key sel p s = [(key, sel (heap s p))]"

definition di_parser_read_string :: "(string option \<Rightarrow> di_system_package \<Rightarrow> di_system_package) \<Rightarrow> pkg_read" where
  "di_parser_read_string upd data m value sz s = at_data data (upd (Some (di_stradup value sz))) s"

definition di_parser_write_string :: "di_rstring \<Rightarrow> (di_system_package \<Rightarrow> string option) \<Rightarrow> pkg_write" where
  "di_parser_write_string key sel p s =
     (case sel (heap s p) of None \<Rightarrow> [] | Some v \<Rightarrow> [(key, v)])"

subsection \<open>Package fields\<close>

text \<open>
  The loop of \<open>di_package_parser_read_dependency\<close>. \<open>cur\<close> is the rest of the text, \<open>left\<close> the
  number of bytes before \<open>end\<close>; the step to the next name always goes past a separator.
\<close>

definition read_dependency_one ::
  "di_package_dependency_type \<Rightarrow> pkg_ptr \<Rightarrow> string \<Rightarrow> nat \<Rightarrow> di_packages \<Rightarrow> di_packages" where
  "read_dependency_one ty p name n s =
     (case di_packages_get_package_new s name n of (q, s) \<Rightarrow>
        let s = upd_pkg p (\<lambda>x. x\<lparr>pkg_depends := pkg_depends x @ [\<lparr>dep_type = ty, dep_ptr = q\<rparr>]\<rparr>) s
        in if ty = di_package_dependency_type_provides \<or> ty = di_package_dependency_type_enhances
           then
             (let s = (if pkg_type (heap s q) = di_package_type_non_existent
                       then upd_pkg q (\<lambda>x. x\<lparr>pkg_type := di_package_type_virtual_package\<rparr>) s else s);
                  s = (if pkg_type (heap s q) = di_package_type_virtual_package \<and>
                          pkg_priority (heap s q) < pkg_priority (heap s p)
                       then upd_pkg q (\<lambda>x. x\<lparr>pkg_priority := pkg_priority (heap s p)\<rparr>) s else s);
                  rty = (if ty = di_package_dependency_type_provides
                         then di_package_dependency_type_reverse_provides
                         else di_package_dependency_type_reverse_enhances)
              in upd_pkg q (\<lambda>x. x\<lparr>pkg_depends := pkg_depends x @ [\<lparr>dep_type = rty, dep_ptr = p\<rparr>]\<rparr>) s)
           else s)"

definition name_end :: string where
  "name_end = [SP, TAB, NL, CHR ''('', CHR '','', CHR ''|'']"

definition dependency_step :: "string \<Rightarrow> nat" where
  "dependency_step cur =
     (let e = Suc (strcspn cur [NL, CHR '','']) in e + length (takeWhile c_isspace (drop e cur)))"

function read_dependency_loop ::
  "di_package_dependency_type \<Rightarrow> pkg_ptr \<Rightarrow> string \<Rightarrow> nat \<Rightarrow> di_packages \<Rightarrow> di_packages" where
  "read_dependency_loop ty p cur left s =
     (if left = 0 then s
      else read_dependency_loop ty p (drop (dependency_step cur) cur) (left - dependency_step cur)
             (read_dependency_one ty p cur (strcspn cur name_end) s))"
  by pat_completeness auto
termination
  by (relation "measure (\<lambda>(ty, p, cur, left, s). left)") (auto simp: dependency_step_def Let_def)

declare read_dependency_loop.simps [simp del]

definition di_package_parser_read_dependency :: "di_package_dependency_type \<Rightarrow> pkg_read" where
  "di_package_parser_read_dependency ty data m value sz s =
     (case data of None \<Rightarrow> (if sz = 0 then Some (None, s) else None)
      | Some p \<Rightarrow> Some (Some p, read_dependency_loop ty p value sz s))"

definition dependency_names :: "di_package_dependency_type \<Rightarrow> pkg_heap \<Rightarrow> pkg_ptr \<Rightarrow> string list" where
  "dependency_names ty h p =
     map (\<lambda>d. pkg_package (h (dep_ptr d))) (filter (\<lambda>d. dep_type d = ty) (pkg_depends (h p)))"

text \<open>The names separated by a comma and a space.\<close>

fun join_names :: "string list \<Rightarrow> string" where
  "join_names [] = []"
| "join_names [n] = n"
| "join_names (n # ns) = n @ '', '' @ join_names ns"

definition di_package_parser_write_dependency :: "di_rstring \<Rightarrow> di_package_dependency_type \<Rightarrow> pkg_write" where
  "di_package_parser_write_dependency key ty p s =
     (let value = join_names (dependency_names ty (heap s) p)
      in if value \<noteq> [] then [(key, value)] else [])"

definition di_package_parser_read_description :: pkg_read where
  "di_package_parser_read_description data m value sz s =
     at_data data (\<lambda>x. case memchr (take sz value) NL of
         Some temp \<Rightarrow> x\<lparr>pkg_short_description := Some (take temp value),
                        pkg_description := Some (take (sz - temp - 1) (drop (temp + 1) value))\<rparr>
       | None \<Rightarrow> x\<lparr>pkg_short_description := Some (take sz value)\<rparr>) s"

definition di_package_parser_write_description :: "di_rstring \<Rightarrow> pkg_write" where
  "di_package_parser_write_description key p s =
     (case pkg_short_description (heap s p) of
        None \<Rightarrow> []
      | Some short \<Rightarrow>
          (case pkg_description (heap s p) of
             Some long \<Rightarrow> [(key, short @ NL # long)]
           | None \<Rightarrow> [(key, short)]))"

definition di_package_parser_read_priority :: pkg_read where
  "di_package_parser_read_priority data m value sz s =
     at_data data (\<lambda>x. x\<lparr>pkg_priority :=
       di_package_array_text_from_rstring di_package_priority_text (take sz value)\<rparr>) s"

definition text_to :: "(string \<times> 'e) list \<Rightarrow> 'e \<Rightarrow> string" where
  "text_to tab e = (case find (\<lambda>(s, e'). e' = e) tab of Some (s, e') \<Rightarrow> s | None \<Rightarrow> [])"

definition di_package_parser_write_priority :: "di_rstring \<Rightarrow> pkg_write" where
  "di_package_parser_write_priority key p s =
     [(key, text_to di_package_priority_text (pkg_priority (heap s p)))]"

text \<open>The results of \<open>memchr\<close> are used without a test.\<close>

definition di_package_parser_read_status :: pkg_read where
  "di_package_parser_read_status data m value sz s =
     (case memchr (take sz value) SP of
        None \<Rightarrow> None
      | Some n1 \<Rightarrow>
          (case memchr (take (sz - n1) (drop (n1 + 1) value)) SP of
             None \<Rightarrow> None
           | Some n2 \<Rightarrow>
               at_data data (\<lambda>x. x\<lparr>
                 pkg_status_want := di_package_array_text_from_rstring di_package_status_want_text (take n1 value),
                 pkg_status := di_package_array_text_from_rstring di_package_status_text
                   (take (sz - (n1 + n2 + 2)) (drop (n1 + n2 + 2) value))\<rparr>) s))"

definition di_package_parser_write_status :: "di_rstring \<Rightarrow> pkg_write" where
  "di_package_parser_write_status key p s =
     [(key, text_to di_package_status_want_text (pkg_status_want (heap s p)) @ '' ok '' @
            text_to di_package_status_text (pkg_status (heap s p)))]"

text \<open>The \<open>Package\<close> field of a file with many packages.\<close>

definition di_packages_parser_read_name :: pkg_read where
  "di_packages_parser_read_name data m value sz s =
     (case di_packages_get_package_new s value sz of (p, s) \<Rightarrow>
        let s = upd_pkg p (\<lambda>x. x\<lparr>pkg_type := di_package_type_real_package\<rparr>) s
        in Some (Some p, s\<lparr>pkg_list := pkg_list s @ [p]\<rparr>))"

subsection \<open>Tables\<close>

definition internal_di_package_parser_field_package :: pkg_fieldinfo where
  "internal_di_package_parser_field_package =
     \<lparr>fi_key = ''Package'', fi_read = di_parser_read_rstring (\<lambda>v x. x\<lparr>pkg_package := v\<rparr>),
      fi_write = Some (di_parser_write_rstring ''Package'' pkg_package)\<rparr>"

definition internal_di_package_parser_field_status :: pkg_fieldinfo where
  "internal_di_package_parser_field_status =
     \<lparr>fi_key = ''Status'', fi_read = di_package_parser_read_status,
      fi_write = Some (di_package_parser_write_status ''Status'')\<rparr>"

definition internal_di_package_parser_field_essential :: pkg_fieldinfo where
  "internal_di_package_parser_field_essential =
     \<lparr>fi_key = ''Essential'', fi_read = di_parser_read_boolean (\<lambda>v x. x\<lparr>pkg_essential := v\<rparr>),
      fi_write = Some (di_parser_write_boolean ''Essential'' pkg_essential)\<rparr>"

definition internal_di_package_parser_field_priority :: pkg_fieldinfo where
  "internal_di_package_parser_field_priority =
     \<lparr>fi_key = ''Priority'', fi_read = di_package_parser_read_priority,
      fi_write = Some (di_package_parser_write_priority ''Priority'')\<rparr>"

definition internal_di_package_parser_field_section :: pkg_fieldinfo where
  "internal_di_package_parser_field_section =
     \<lparr>fi_key = ''Section'', fi_read = di_parser_read_string (\<lambda>v x. x\<lparr>pkg_section := v\<rparr>),
      fi_write = Some (di_parser_write_string ''Section'' pkg_section)\<rparr>"

definition internal_di_package_parser_field_installed_size :: pkg_fieldinfo where
  "internal_di_package_parser_field_installed_size =
     \<lparr>fi_key = ''Installed-Size'', fi_read = di_parser_read_int (\<lambda>v x. x\<lparr>pkg_installed_size := v\<rparr>),
      fi_write = Some (di_parser_write_int ''Installed-Size'' pkg_installed_size)\<rparr>"

definition internal_di_package_parser_field_maintainer :: pkg_fieldinfo where
  "internal_di_package_parser_field_maintainer =
     \<lparr>fi_key = ''Maintainer'', fi_read = di_parser_read_string (\<lambda>v x. x\<lparr>pkg_maintainer := v\<rparr>),
      fi_write = Some (di_parser_write_string ''Maintainer'' pkg_maintainer)\<rparr>"

definition internal_di_package_parser_field_architecture :: pkg_fieldinfo where
  "internal_di_package_parser_field_architecture =
     \<lparr>fi_key = ''Architecture'', fi_read = di_parser_read_string (\<lambda>v x. x\<lparr>pkg_architecture := v\<rparr>),
      fi_write = Some (di_parser_write_string ''Architecture'' pkg_architecture)\<rparr>"

definition internal_di_package_parser_field_version :: pkg_fieldinfo where
  "internal_di_package_parser_field_version =
     \<lparr>fi_key = ''Version'', fi_read = di_parser_read_string (\<lambda>v x. x\<lparr>pkg_version := v\<rparr>),
      fi_write = Some (di_parser_write_string ''Version'' pkg_version)\<rparr>"

definition internal_di_package_parser_field_replaces :: pkg_fieldinfo where
  "internal_di_package_parser_field_replaces =
     \<lparr>fi_key = ''Replaces'', fi_read = di_package_parser_read_dependency di_package_dependency_type_replaces,
      fi_write = Some (di_package_parser_write_dependency ''Replaces'' di_package_dependency_type_replaces)\<rparr>"

definition internal_di_package_parser_field_provides :: pkg_fieldinfo where
  "internal_di_package_parser_field_provides =
     \<lparr>fi_key = ''Provides'', fi_read = di_package_parser_read_dependency di_package_dependency_type_provides,
      fi_write = Some (di_package_parser_write_dependency ''Provides'' di_package_dependency_type_provides)\<rparr>"

definition internal_di_package_parser_field_depends :: pkg_fieldinfo where
  "internal_di_package_parser_field_depends =
     \<lparr>fi_key = ''Depends'', fi_read = di_package_parser_read_dependency di_package_dependency_type_depends,
      fi_write = Some (di_package_parser_write_dependency ''Depends'' di_package_dependency_type_depends)\<rparr>"

definition internal_di_package_parser_field_pre_depends :: pkg_fieldinfo where
  "internal_di_package_parser_field_pre_depends =
     \<lparr>fi_key = ''Pre-Depends'', fi_read = di_package_parser_read_dependency di_package_dependency_type_pre_depends,
      fi_write = Some (di_package_parser_write_dependency ''Pre-Depends'' di_package_dependency_type_pre_depends)\<rparr>"

definition internal_di_package_parser_field_recommends :: pkg_fieldinfo where
  "internal_di_package_parser_field_recommends =
     \<lparr>fi_key = ''Recommends'', fi_read = di_package_parser_read_dependency di_package_dependency_type_recommends,
      fi_write = Some (di_package_parser_write_dependency ''Recommends'' di_package_dependency_type_recommends)\<rparr>"

definition internal_di_package_parser_field_suggests :: pkg_fieldinfo where
  "internal_di_package_parser_field_suggests =
     \<lparr>fi_key = ''Suggests'', fi_read = di_package_parser_read_dependency di_package_dependency_type_suggests,
      fi_write = Some (di_package_parser_write_dependency ''Suggests'' di_package_dependency_type_suggests)\<rparr>"

definition internal_di_package_parser_field_conflicts :: pkg_fieldinfo where
  "internal_di_package_parser_field_conflicts =
     \<lparr>fi_key = ''Conflicts'', fi_read = di_package_parser_read_dependency di_package_dependency_type_conflicts,
      fi_write = Some (di_package_parser_write_dependency ''Conflicts'' di_package_dependency_type_conflicts)\<rparr>"

definition internal_di_package_parser_field_enhances :: pkg_fieldinfo where
  "internal_di_package_parser_field_enhances =
     \<lparr>fi_key = ''Enhances'', fi_read = di_package_parser_read_dependency di_package_dependency_type_enhances,
      fi_write = Some (di_package_parser_write_dependency ''Enhances'' di_package_dependency_type_enhances)\<rparr>"

definition internal_di_package_parser_field_filename :: pkg_fieldinfo where
  "internal_di_package_parser_field_filename =
     \<lparr>fi_key = ''Filename'', fi_read = di_parser_read_string (\<lambda>v x. x\<lparr>pkg_filename := v\<rparr>),
      fi_write = Some (di_parser_write_string ''Filename'' pkg_filename)\<rparr>"

definition internal_di_package_parser_field_size :: pkg_fieldinfo where
  "internal_di_package_parser_field_size =
     \<lparr>fi_key = ''Size'', fi_read = di_parser_read_int (\<lambda>v x. x\<lparr>pkg_size := v\<rparr>),
      fi_write = Some (di_parser_write_int ''Size'' pkg_size)\<rparr>"

definition internal_di_package_parser_field_sha256 :: pkg_fieldinfo where
  "internal_di_package_parser_field_sha256 =
     \<lparr>fi_key = ''SHA256'', fi_read = di_parser_read_string (\<lambda>v x. x\<lparr>pkg_sha256 := v\<rparr>),
      fi_write = Some (di_parser_write_string ''SHA256'' pkg_sha256)\<rparr>"

definition internal_di_package_parser_field_description :: pkg_fieldinfo where
  "internal_di_package_parser_field_description =
     \<lparr>fi_key = ''Description'', fi_read = di_package_parser_read_description,
      fi_write = Some (di_package_parser_write_description ''Description'')\<rparr>"

definition internal_di_packages_parser_field_package :: pkg_fieldinfo where
  "internal_di_packages_parser_field_package =
     \<lparr>fi_key = ''Package'', fi_read = di_packages_parser_read_name,
      fi_write = Some (di_parser_write_string ''Package'' (\<lambda>x. Some (pkg_package x)))\<rparr>"

definition di_package_parser_fieldinfo :: "pkg_fieldinfo list" where
  "di_package_parser_fieldinfo =
     [internal_di_package_parser_field_package,
      internal_di_package_parser_field_essential,
      internal_di_package_parser_field_priority,
      internal_di_package_parser_field_section,
      internal_di_package_parser_field_installed_size,
      internal_di_package_parser_field_maintainer,
      internal_di_package_parser_field_architecture,
      internal_di_package_parser_field_version,
      internal_di_package_parser_field_replaces,
      internal_di_package_parser_field_provides,
      internal_di_package_parser_field_depends,
      internal_di_package_parser_field_pre_depends,
      internal_di_package_parser_field_recommends,
      internal_di_package_parser_field_suggests,
      internal_di_package_parser_field_conflicts,
      internal_di_package_parser_field_enhances,
      internal_di_package_parser_field_filename,
      internal_di_package_parser_field_size,
      internal_di_package_parser_field_sha256,
      internal_di_package_parser_field_description]"

definition di_packages_parser_fieldinfo :: "pkg_fieldinfo list" where
  "di_packages_parser_fieldinfo =
     [internal_di_packages_parser_field_package,
      internal_di_package_parser_field_essential,
      internal_di_package_parser_field_priority,
      internal_di_package_parser_field_section,
      internal_di_package_parser_field_installed_size,
      internal_di_package_parser_field_maintainer,
      internal_di_package_parser_field_architecture,
      internal_di_package_parser_field_version,
      internal_di_package_parser_field_replaces,
      internal_di_package_parser_field_provides,
      internal_di_package_parser_field_depends,
      internal_di_package_parser_field_pre_depends,
      internal_di_package_parser_field_recommends,
      internal_di_package_parser_field_suggests,
      internal_di_package_parser_field_conflicts,
      internal_di_package_parser_field_enhances,
      internal_di_package_parser_field_filename,
      internal_di_package_parser_field_size,
      internal_di_package_parser_field_sha256,
      internal_di_package_parser_field_description]"

definition di_packages_status_parser_fieldinfo :: "pkg_fieldinfo list" where
  "di_packages_status_parser_fieldinfo =
     [internal_di_packages_parser_field_package,
      internal_di_package_parser_field_status,
      internal_di_package_parser_field_essential,
      internal_di_package_parser_field_priority,
      internal_di_package_parser_field_section,
      internal_di_package_parser_field_installed_size,
      internal_di_package_parser_field_maintainer,
      internal_di_package_parser_field_version,
      internal_di_package_parser_field_replaces,
      internal_di_package_parser_field_provides,
      internal_di_package_parser_field_depends,
      internal_di_package_parser_field_pre_depends,
      internal_di_package_parser_field_recommends,
      internal_di_package_parser_field_suggests,
      internal_di_package_parser_field_conflicts,
      internal_di_package_parser_field_enhances,
      internal_di_package_parser_field_description]"

definition di_packages_minimal_parser_fieldinfo :: "pkg_fieldinfo list" where
  "di_packages_minimal_parser_fieldinfo =
     [internal_di_packages_parser_field_package,
      internal_di_package_parser_field_essential,
      internal_di_package_parser_field_priority,
      internal_di_package_parser_field_installed_size,
      internal_di_package_parser_field_version,
      internal_di_package_parser_field_provides,
      internal_di_package_parser_field_depends,
      internal_di_package_parser_field_pre_depends,
      internal_di_package_parser_field_filename,
      internal_di_package_parser_field_sha256,
      internal_di_package_parser_field_size]"

definition di_system_package_parser_fieldinfo :: "pkg_fieldinfo list" where
  "di_system_package_parser_fieldinfo =
     [\<lparr>fi_key = ''Installer-Menu-Item'', fi_read = di_parser_read_int (\<lambda>v x. x\<lparr>installer_menu_item := v\<rparr>),
       fi_write = Some (di_parser_write_int ''Installer-Menu-Item'' installer_menu_item)\<rparr>,
      \<lparr>fi_key = ''Subarchitecture'', fi_read = di_parser_read_string (\<lambda>v x. x\<lparr>subarchitecture := v\<rparr>),
       fi_write = Some (di_parser_write_string ''Subarchitecture'' subarchitecture)\<rparr>,
      \<lparr>fi_key = ''Kernel-Version'', fi_read = di_parser_read_string (\<lambda>v x. x\<lparr>kernel_version := v\<rparr>),
       fi_write = Some (di_parser_write_string ''Kernel-Version'' kernel_version)\<rparr>]"

definition di_packages_parser_info :: "(pkg_ptr, di_packages) di_parser_info" where
  "di_packages_parser_info = di_parser_info_add di_parser_info_alloc di_packages_parser_fieldinfo"

definition di_packages_minimal_parser_info :: "(pkg_ptr, di_packages) di_parser_info" where
  "di_packages_minimal_parser_info = di_parser_info_add di_parser_info_alloc di_packages_minimal_parser_fieldinfo"

definition di_packages_status_parser_info :: "(pkg_ptr, di_packages) di_parser_info" where
  "di_packages_status_parser_info = di_parser_info_add di_parser_info_alloc di_packages_status_parser_fieldinfo"

definition di_system_packages_parser_info :: "(pkg_ptr, di_packages) di_parser_info" where
  "di_system_packages_parser_info = di_parser_info_add di_packages_parser_info di_system_package_parser_fieldinfo"

definition di_system_packages_status_parser_info :: "(pkg_ptr, di_packages) di_parser_info" where
  "di_system_packages_status_parser_info =
     di_parser_info_add di_packages_status_parser_info di_system_package_parser_fieldinfo"

subsection \<open>Files\<close>

text \<open>
  Reading the text of a file into a new container: NULL when the text is not well formed.
  \<open>Inl\<close> is a crash in a field function.
\<close>

definition di_packages_special_read_file ::
  "string \<Rightarrow> pkg_heap \<Rightarrow> pkg_ptr \<Rightarrow> (pkg_ptr, di_packages) di_parser_info \<Rightarrow> unit + di_packages option" where
  "di_packages_special_read_file file_text h n info =
     (case di_parser_rfc822_read info None None file_text 0 (di_packages_alloc h n) of
        Inl e \<Rightarrow> if e = NullDeref then Inl () else Inr None
      | Inr (nr, packages) \<Rightarrow> Inr (Some packages))"

text \<open>The entries \<open>internal_di_packages_parser_write_entry_next\<close> returns one after the other.\<close>

definition internal_di_packages_parser_write_entry_next :: "di_packages \<Rightarrow> pkg_ptr list" where
  "internal_di_packages_parser_write_entry_next packages = pkg_list packages"

definition di_packages_special_write_file ::
  "di_packages \<Rightarrow> (pkg_ptr, di_packages) di_parser_info \<Rightarrow> nat \<times> string" where
  "di_packages_special_write_file packages info =
     di_parser_rfc822_write info packages (internal_di_packages_parser_write_entry_next packages)"

subsection \<open>Updates of packages\<close>

lemma upd_pkg_simps [simp]:
  "heap (upd_pkg p f s) = (heap s)(p := f (heap s p))" "members (upd_pkg p f s) = members s"
  "pkg_list (upd_pkg p f s) = pkg_list s" "heap_next (upd_pkg p f s) = heap_next s"
  "table (upd_pkg p f s) = table s"
  by (simp_all add: upd_pkg_def members_def)

lemma packages_ok_upd:
  assumes "packages_ok s" "pkg_package (f (heap s p)) = pkg_package (heap s p)"
  shows "packages_ok (upd_pkg p f s)"
proof -
  have "table_ok (heap (upd_pkg p f s)) (table s)"
    by (rule table_ok_heap [of "heap s"]) (use assms in \<open>auto simp: packages_ok_def\<close>)
  with assms(1) show ?thesis by (simp add: packages_ok_def)
qed

end
