(* ===== verification/Deb_Strutl.thy ===== *)
theory Deb_Strutl
  imports DI_Prelude
begin

text \<open>
  String routines of \<^verbatim>\<open>cdebconf/src/strutl.c\<close>: stripping, splitting of command lines and of
  choice lists, escaping, variable expansion and replacement.

  Strings are lists without the terminating NUL. An output buffer of \<open>maxlen\<close> bytes is
  represented by its size, because the routines stop when it is full; \<open>None\<close> stands for an
  access outside of a buffer. The width and wrapping routines, which depend on the locale,
  are not modelled.
\<close>

subsection \<open>Comparison and stripping\<close>

fun strcountcmp :: "string \<Rightarrow> string \<Rightarrow> int" where
  "strcountcmp [] [] = 0"
| "strcountcmp [] (d # t) = 1"
| "strcountcmp (c # s) [] = -1"
| "strcountcmp (c # s) (d # t) =
     (if c = d then strcountcmp s t else if schar c < schar d then -1 else 1)"

text \<open>\<open>isspace\<close> gets a signed \<open>char\<close>; in the C locale bytes from 128 on are not spaces.\<close>

definition strstrip :: "string \<Rightarrow> string" where
  "strstrip buf =
     (let b = dropWhile c_isspace buf
      in if b = [] then b else rev (dropWhile c_isspace (rev b)))"

text \<open>
  The loop of \<open>strlower\<close> tests and assigns \<open>*p\<close> and never advances \<open>p\<close>: \<open>n\<close> bounds the number
  of its rounds, \<open>None\<close> means that it still runs.
\<close>

fun strlower :: "nat \<Rightarrow> string \<Rightarrow> string option" where
  "strlower n [] = Some []"
| "strlower 0 (c # s) = None"
| "strlower (Suc n) (c # s) = strlower n (c_tolower c # s)"

text \<open>
  \<open>strvacat\<close>: the strings are appended as long as the length does not exceed \<open>maxlen\<close>. A
  length of \<open>maxlen\<close> passes the test, so that the NUL behind it is outside of a buffer of
  \<open>maxlen\<close> bytes.
\<close>

fun strvacat :: "string \<Rightarrow> nat \<Rightarrow> string list \<Rightarrow> string" where
  "strvacat buf maxlen [] = buf"
| "strvacat buf maxlen (str # strs) =
     (if length buf + length str > maxlen then buf else strvacat (buf @ str) maxlen strs)"

subsection \<open>Escaping\<close>

datatype strescape_mode = STRESCAPE_822 | STRESCAPE_QUOTE | STRESCAPE_CAPB

text \<open>
  \<open>room\<close> is \<open>maxlen - 1 - i\<close>, the number of characters that still fit.
\<close>

fun strunescape_loop :: "strescape_mode \<Rightarrow> nat \<Rightarrow> string \<Rightarrow> string option" where
  "strunescape_loop mode room [] = Some []"
| "strunescape_loop mode 0 (c # p) = Some []"
| "strunescape_loop mode (Suc room) (c # p) =
     (if c = CHR 0x5C
      then if peek p = CHR ''n'' then map_option ((#) NL) (strunescape_loop mode room (tl p))
           else if mode = STRESCAPE_QUOTE \<and> peek p = CHR 0x22
           then map_option ((#) (peek p)) (strunescape_loop mode room (tl p))
           else if mode = STRESCAPE_CAPB
           then (case p of [] \<Rightarrow> None | d # p' \<Rightarrow> map_option ((#) d) (strunescape_loop mode room p'))
           else map_option ((#) c) (strunescape_loop mode room p)
      else map_option ((#) c) (strunescape_loop mode room p))"

text \<open>\<open>maxlen - 1\<close> is computed in \<open>size_t\<close>.\<close>

definition room_of :: "nat \<Rightarrow> nat" where
  "room_of maxlen = (if maxlen = 0 then 2 ^ 64 - 1 else maxlen - 1)"

definition strunescape :: "string \<Rightarrow> nat \<Rightarrow> strescape_mode \<Rightarrow> string option" where
  "strunescape inbuf maxlen mode = strunescape_loop mode (room_of maxlen) inbuf"

definition must_escape :: "strescape_mode \<Rightarrow> char \<Rightarrow> bool" where
  "must_escape mode c \<longleftrightarrow> c = NL \<or> (mode = STRESCAPE_QUOTE \<and> c = CHR 0x22) \<or>
     (mode = STRESCAPE_CAPB \<and> c = CHR 0x5C)"

fun strescape_loop :: "strescape_mode \<Rightarrow> nat \<Rightarrow> string \<Rightarrow> string" where
  "strescape_loop mode room [] = []"
| "strescape_loop mode 0 (c # p) = []"
| "strescape_loop mode (Suc room) (c # p) =
     (if must_escape mode c
      then if room = 0 then []
           else CHR 0x5C # (if c = NL then CHR ''n'' else c) # strescape_loop mode (room - 1) p
      else c # strescape_loop mode room p)"

definition strescape :: "string \<Rightarrow> nat \<Rightarrow> strescape_mode \<Rightarrow> string" where
  "strescape inbuf maxlen mode = strescape_loop mode (room_of maxlen) inbuf"

text \<open>
  The variants that keep a static buffer: \<open>buflen\<close> is its size before the call, the result
  pairs the text with its size afterwards. \<open>escapestr_frontend\<close> is that of \<^verbatim>\<open>commands.c\<close>.
\<close>

definition unescapestr :: "nat \<Rightarrow> string \<Rightarrow> string option \<times> nat" where
  "unescapestr buflen s =
     (let buflen = max buflen (length s + 1) in (strunescape s buflen STRESCAPE_822, buflen))"

definition escapestr :: "nat \<Rightarrow> string \<Rightarrow> string \<times> nat" where
  "escapestr buflen s =
     (let inlen = length s + 1 + length (filter (\<lambda>c. c = NL) s);
          buflen = max buflen inlen
      in (strescape s buflen STRESCAPE_822, buflen))"

definition escapestr_frontend :: "nat \<Rightarrow> string \<Rightarrow> string \<times> nat" where
  "escapestr_frontend buflen s =
     (let inlen = length s + 1 + length (filter (\<lambda>c. c = CHR 0x5C \<or> c = NL) s);
          buflen = max buflen inlen
      in (strescape s buflen STRESCAPE_CAPB, buflen))"

subsection \<open>Splitting\<close>

text \<open>
  \<open>strcmdsplit\<close> overwrites white space with NUL and collects the offsets at which words
  start. \<open>done\<close> is the part of the buffer already passed.
\<close>

fun strcmdsplit_loop :: "nat \<Rightarrow> bool \<Rightarrow> string \<Rightarrow> string \<Rightarrow> nat list \<Rightarrow> string \<times> nat list" where
  "strcmdsplit_loop maxnarg inspace done [] argv = (done, argv)"
| "strcmdsplit_loop maxnarg inspace done (c # s) argv =
     (if c_isspace c then strcmdsplit_loop maxnarg True (done @ [NUL]) s argv
      else if inspace
      then (let argv = argv @ [length done]
            in if length argv \<ge> maxnarg then (done @ c # s, argv)
               else strcmdsplit_loop maxnarg False (done @ [c]) s argv)
      else strcmdsplit_loop maxnarg False (done @ [c]) s argv)"

text \<open>The arguments are the C strings at the offsets.\<close>

definition strcmdsplit :: "string \<Rightarrow> nat \<Rightarrow> string list" where
  "strcmdsplit inbuf maxnarg =
     (if maxnarg = 0 then []
      else case strcmdsplit_loop maxnarg True [] inbuf [] of
             (buf, argv) \<Rightarrow> map (\<lambda>i. cstr (drop i buf)) argv)"

fun strgetargc_loop :: "string \<Rightarrow> nat \<Rightarrow> nat" where
  "strgetargc_loop [] cnt = cnt"
| "strgetargc_loop (c # s) cnt =
     (if c = CHR 0x5C \<and> peek s = CHR '','' then strgetargc_loop (tl s) cnt
      else if c = CHR '','' then strgetargc_loop s (Suc cnt) else strgetargc_loop s cnt)"

definition strgetargc :: "string option \<Rightarrow> nat" where
  "strgetargc inbuf = (case inbuf of None \<Rightarrow> 0 | Some s \<Rightarrow> if s = [] then 0 else strgetargc_loop s 1)"

abbreviation choice_escape :: "string \<Rightarrow> bool" where
  "choice_escape s \<equiv> peek s = CHR '','' \<or> peek s = SP"

text \<open>The end of a choice: the text up to it and the rest.\<close>

fun choice_end :: "string \<Rightarrow> string \<times> string" where
  "choice_end [] = ([], [])"
| "choice_end (c # s) =
     (if c = CHR 0x5C \<and> choice_escape s
      then (case choice_end (tl s) of (a, b) \<Rightarrow> (c # hd s # a, b))
      else if c = CHR '','' then ([], c # s)
      else (case choice_end s of (a, b) \<Rightarrow> (c # a, b)))"

fun choice_copy :: "string \<Rightarrow> string" where
  "choice_copy [] = []"
| "choice_copy (c # s) =
     (if c = CHR 0x5C \<and> s \<noteq> [] \<and> choice_escape s then hd s # choice_copy (tl s)
      else c # choice_copy s)"

text \<open>Trailing spaces are removed, but never the first character.\<close>

definition strip_choice :: "string \<Rightarrow> string" where
  "strip_choice a = (case a of [] \<Rightarrow> [] | c # s \<Rightarrow> c # rev (dropWhile (\<lambda>c. c = SP) (rev s)))"

lemma choice_end_length: "length (snd (choice_end s)) \<le> length s"
  by (induction s rule: choice_end.induct) (auto split: prod.split)

lemma choice_end_rest: "choice_end s = (a, b) \<Longrightarrow> b \<noteq> [] \<Longrightarrow> hd b = CHR '',''"
  by (induction s arbitrary: a rule: choice_end.induct) (auto split: prod.splits if_splits)

lemma choice_end_progress:
  assumes "choice_end s = (a, b)" "s \<noteq> []"
  shows "length (if peek b = CHR '','' then tl b else b) < length s"
proof (cases "b = []")
  case True
  with assms show ?thesis by simp
next
  case False
  then have "peek b = CHR '',''" using choice_end_rest [OF assms(1)] by (cases b) auto
  moreover have "length b \<le> length s" using choice_end_length [of s] assms(1) by simp
  ultimately show ?thesis using False by (cases b) auto
qed

function strchoicesplit_loop :: "string \<Rightarrow> nat \<Rightarrow> string list" where
  "strchoicesplit_loop s 0 = []"
| "strchoicesplit_loop s (Suc n) =
     (if s = [] then []
      else case choice_end (dropWhile c_isspace s) of
             (a, b) \<Rightarrow> strip_choice (choice_copy a) #
               strchoicesplit_loop (if peek b = CHR '','' then tl b else b) n)"
  by pat_completeness auto
termination
  by (relation "measure snd") auto

definition strchoicesplit :: "string option \<Rightarrow> nat \<Rightarrow> string list" where
  "strchoicesplit inbuf maxnarg = (case inbuf of None \<Rightarrow> [] | Some s \<Rightarrow> strchoicesplit_loop s maxnarg)"

text \<open>
  \<open>strchoicesplitsort\<close>: the untranslated choices, the translated ones in the order of the
  indices, and the indices; \<open>None\<close> is \<open>DC_NOTOK\<close>. Indices that are missing or out of range
  leave the list unsorted.
\<close>

definition strchoicesplitsort ::
  "string \<Rightarrow> string \<Rightarrow> string option \<Rightarrow> nat \<Rightarrow> (string list \<times> string list \<times> nat list) option" where
  "strchoicesplitsort origbuf transbuf indices maxnarg =
     (let oargv = strchoicesplit (Some origbuf) maxnarg;
          targv = strchoicesplit (Some transbuf) maxnarg
      in if length oargv \<noteq> maxnarg \<or> length targv \<noteq> maxnarg then None
         else if indices = None \<or> indices = Some [] then Some (oargv, targv, [0..<maxnarg])
         else (let cindex = strchoicesplit indices maxnarg
               in if length cindex \<noteq> maxnarg then Some (oargv, targv, [0..<maxnarg])
                  else (let ix = map (\<lambda>c. to_int32 (strtol c - 1)) cindex
                        in if list_all (\<lambda>i. 0 \<le> i \<and> i < int maxnarg) ix
                           then Some (oargv, map (\<lambda>i. targv ! nat i) ix, map nat ix)
                           else Some (oargv, targv, [0..<maxnarg]))))"

subsection \<open>Words of the configuration file\<close>

text \<open>
  The scan over a quoted string behind its opening quote: the rest that starts with the
  closing quote. \<open>None\<close> when the string is not closed.
\<close>

fun skip_quoted :: "string \<Rightarrow> string option" where
  "skip_quoted [] = None"
| "skip_quoted (c # s) =
     (if c = CHR 0x22 then Some (c # s)
      else if c = CHR 0x5C then (case s of [] \<Rightarrow> None | d # s' \<Rightarrow> skip_quoted s')
      else skip_quoted s)"

lemma skip_quoted_length: "skip_quoted s = Some r \<Longrightarrow> length r \<le> length s \<and> r \<noteq> []"
  by (induction s rule: skip_quoted.induct) (auto split: if_splits list.splits)

text \<open>The loop of \<open>strparsequoteword\<close> from \<open>c\<close> on: the rest where the word ends.\<close>

function quoteword_end :: "string \<Rightarrow> string option" where
  "quoteword_end [] = Some []"
| "quoteword_end (c # s) =
     (if c_isspace c then Some (c # s)
      else case (if c = CHR 0x22 then skip_quoted s else Some (c # s)) of
             None \<Rightarrow> None
           | Some r \<Rightarrow>
               if hd r = CHR ''['' then
                 (let r' = dropWhile (\<lambda>c. c \<noteq> CHR '']'') (tl r) in if r' = [] then None else quoteword_end (tl r'))
               else quoteword_end (tl r))"
  by pat_completeness auto
termination
proof (relation "measure length", goal_cases)
  case (2 c s r x)
  have "length (tl r) \<le> length s" using 2(2) by (auto split: if_splits dest: skip_quoted_length)
  moreover have "length (tl x) \<le> length (tl r)" using 2(4) by (metis length_dropWhile_le length_tl diff_le_self le_trans)
  ultimately show ?case by simp
next
  case (3 c s r)
  then have "length (tl r) \<le> length s" by (auto split: if_splits dest: skip_quoted_length)
  then show ?case by simp
qed simp

definition strparsequoteword :: "string \<Rightarrow> (string \<times> string) option" where
  "strparsequoteword inbuf =
     (let start = dropWhile c_isspace inbuf
      in if start = [] then None
         else case quoteword_end start of
                None \<Rightarrow> None
              | Some c \<Rightarrow>
                  map_option (\<lambda>out. (out, dropWhile c_isspace c))
                    (strunescape start (length start - length c + 1) STRESCAPE_QUOTE))"

subsection \<open>Variables and replacement\<close>

definition VAR_SIZE :: nat where
  "VAR_SIZE = 100"

text \<open>
  The pieces of the rope: literal text up to a variable, the value of the variable, and so
  on. \<open>lit\<close> is the literal piece being collected. A name of \<open>VAR_SIZE\<close> characters writes its
  NUL behind the array.
\<close>

function strexpand_rope :: "(string \<Rightarrow> string option) \<Rightarrow> string \<Rightarrow> string \<Rightarrow> string list option" where
  "strexpand_rope func lit [] = Some [lit]"
| "strexpand_rope func lit (c # s) =
     (if c \<noteq> CHR ''$'' \<or> peek s \<noteq> CHR 0x7B then strexpand_rope func (lit @ [c]) s
      else (let name = takeWhile (\<lambda>c. c \<noteq> CHR 0x7D) (take VAR_SIZE (tl s));
                rest = drop (length name) (tl s)
            in if rest = [] then Some [lit @ c # s]
               else if length name = VAR_SIZE then None
               else map_option (\<lambda>rope. lit # (case func name of Some v \<Rightarrow> v | None \<Rightarrow> ''${'' @ name @ ''}'') # rope)
                      (strexpand_rope func [] (tl rest))))"
  by pat_completeness auto
termination
  by (relation "measure (\<lambda>(func, lit, s). length s)") auto

declare strexpand_rope.simps(2) [simp del]

definition strexpand :: "string option \<Rightarrow> (string \<Rightarrow> string option) \<Rightarrow> string option option" where
  "strexpand src func =
     (case src of None \<Rightarrow> Some None
      | Some s \<Rightarrow> map_option (\<lambda>rope. Some (concat rope)) (strexpand_rope func [] s))"

fun strjoinv_loop :: "string \<Rightarrow> string \<Rightarrow> string list \<Rightarrow> string" where
  "strjoinv_loop sep str [] = str"
| "strjoinv_loop sep str (arg # args) = strjoinv_loop sep ((if str = [] then str else str @ sep) @ arg) args"

definition strjoinv :: "string \<Rightarrow> string list \<Rightarrow> string" where
  "strjoinv sep args = strjoinv_loop sep [] args"

text \<open>\<open>strstr\<close>: the offset of the first occurrence.\<close>

fun strstr :: "string \<Rightarrow> string \<Rightarrow> nat option" where
  "strstr s t =
     (if take (length t) s = t then Some 0
      else case s of [] \<Rightarrow> None | c # s' \<Rightarrow> map_option Suc (strstr s' t))"

declare strstr.simps [simp del]

text \<open>The loop may not end: an empty \<open>from\<close> is found again and again at the same place.\<close>

partial_function (option) strreplace_loop :: "string \<Rightarrow> string \<Rightarrow> string \<Rightarrow> string \<Rightarrow> string option" where
  "strreplace_loop str prev from to =
     (case strstr prev from of
        None \<Rightarrow> Some (str @ prev)
      | Some p \<Rightarrow> strreplace_loop (str @ take p prev @ to) (drop (p + length from) prev) from to)"

definition strreplace :: "string \<Rightarrow> string \<Rightarrow> string \<Rightarrow> string option" where
  "strreplace src from to = strreplace_loop [] src from to"

subsection \<open>Escaping: lemmas\<close>

definition escape_char :: "strescape_mode \<Rightarrow> char \<Rightarrow> string" where
  "escape_char mode c = (if must_escape mode c then [CHR 0x5C, if c = NL then CHR ''n'' else c] else [c])"

definition escape_all :: "strescape_mode \<Rightarrow> string \<Rightarrow> string" where
  "escape_all mode s = concat (map (escape_char mode) s)"

lemma strescape_loop_enough:
  "length (escape_all mode s) \<le> room \<Longrightarrow> strescape_loop mode room s = escape_all mode s"
  by (induction mode room s rule: strescape_loop.induct) (auto simp: escape_all_def escape_char_def)

lemma strescape_loop_length: "length (strescape_loop mode room s) \<le> room"
  by (induction mode room s rule: strescape_loop.induct) auto

text \<open>Cut off or not, what is written are the escapes of a prefix of the text.\<close>

lemma strescape_loop_prefix: "\<exists>k. strescape_loop mode room s = escape_all mode (take k s)"
proof (induction mode room s rule: strescape_loop.induct)
  case (3 mode room c p)
  show ?case
  proof (cases "must_escape mode c")
    case True
    show ?thesis
    proof (cases "room = 0")
      case True
      with \<open>must_escape mode c\<close> have "strescape_loop mode (Suc room) (c # p) = escape_all mode (take 0 (c # p))"
        by (simp add: escape_all_def)
      then show ?thesis by blast
    next
      case False
      with 3(1) \<open>must_escape mode c\<close> obtain k where "strescape_loop mode (room - 1) p = escape_all mode (take k p)" by blast
      with False \<open>must_escape mode c\<close>
      have "strescape_loop mode (Suc room) (c # p) = escape_all mode (take (Suc k) (c # p))"
        by (simp add: escape_all_def escape_char_def)
      then show ?thesis by blast
    qed
  next
    case False
    with 3(2) obtain k where "strescape_loop mode room p = escape_all mode (take k p)" by blast
    with False have "strescape_loop mode (Suc room) (c # p) = escape_all mode (take (Suc k) (c # p))"
      by (simp add: escape_all_def escape_char_def)
    then show ?thesis by blast
  qed
qed (auto simp: escape_all_def intro: exI [of _ 0])

lemma length_escape_all: "length (escape_all mode s) = length s + length (filter (must_escape mode) s)"
  by (induction s) (auto simp: escape_all_def escape_char_def)

lemma unescape_escape_all:
  "length s \<le> room \<Longrightarrow> strunescape_loop STRESCAPE_CAPB room (escape_all STRESCAPE_CAPB s) = Some s"
proof (induction s arbitrary: room)
  case (Cons c s)
  then obtain r where "room = Suc r" "length s \<le> r" by (cases room) auto
  with Cons.IH [of r] show ?case
    by (auto simp: escape_all_def escape_char_def must_escape_def)
qed (simp add: escape_all_def)

lemma NL_escape_all: "NL \<notin> set (escape_all mode s)"
  by (induction s) (auto simp: escape_all_def escape_char_def must_escape_def)

lemma escapestr_frontend_all: "fst (escapestr_frontend buflen s) = escape_all STRESCAPE_CAPB s"
proof -
  have "filter (\<lambda>c. c = CHR 0x5C \<or> c = NL) s = filter (must_escape STRESCAPE_CAPB) s"
    by (rule filter_cong) (auto simp: must_escape_def)
  then show ?thesis
    by (simp add: escapestr_frontend_def strescape_def room_of_def Let_def strescape_loop_enough length_escape_all)
qed

text \<open>
  A value that is escaped for a client with the escape capability contains no
  newline, and unescaping it the way a client or the module reader does gives the value back,
  whatever the size of the buffer was before.
\<close>

theorem frontend_escape_roundtrip:
  "let e = fst (escapestr_frontend buflen s)
   in NL \<notin> set e \<and> strunescape e (length e + 1) STRESCAPE_CAPB = Some s"
  by (simp add: escapestr_frontend_all NL_escape_all strunescape_def room_of_def unescape_escape_all length_escape_all)

text \<open>
  Escaping into a buffer never fills it beyond its size, and what is left of a
  text that does not fit is the escaped form of a prefix of it: no escape is cut in half.
\<close>

theorem strescape_bounded:
  assumes "0 < maxlen"
  shows "length (strescape s maxlen mode) < maxlen \<and> (\<exists>k. strescape s maxlen mode = escape_all mode (take k s))"
  using strescape_loop_length [of mode "maxlen - 1" s] strescape_loop_prefix [of mode "maxlen - 1" s] assms
  by (auto simp: strescape_def room_of_def)

theorem strescape_bounded_witness:
  "length (strescape ''ab'' 3 STRESCAPE_CAPB) < 3 \<and> strescape [CHR ''a'', NL, CHR ''b''] 3 STRESCAPE_822 = ''a''"
proof -
  have "length (strescape ''ab'' 3 STRESCAPE_CAPB) < 3" using strescape_bounded [of 3 "''ab''" STRESCAPE_CAPB] by simp
  moreover have "strescape [CHR ''a'', NL, CHR ''b''] 3 STRESCAPE_822 = ''a''" by code_simp
  ultimately show ?thesis by simp
qed

text \<open>The default mode is not invertible: a backslash before an \<open>n\<close> is not escaped.\<close>

lemma escape_822_not_injective:
  "strescape [CHR 0x5C, CHR ''n''] 10 STRESCAPE_822 = strescape [NL] 10 STRESCAPE_822"
  by code_simp

lemma strunescape_trailing_backslash: "strunescape [CHR ''a'', CHR 0x5C] 3 STRESCAPE_CAPB = None"
  by code_simp

lemma strlower_runs_on: "strlower n (c # s) = None"
  by (induction n arbitrary: c) auto

subsection \<open>Command lines\<close>

text \<open>The reference: at most \<open>n\<close> words, the last of which takes the rest of the line.\<close>

fun words_max :: "nat \<Rightarrow> string \<Rightarrow> string list" where
  "words_max 0 s = []"
| "words_max (Suc n) s =
     (let t = dropWhile c_isspace s
      in if t = [] then []
         else if n = 0 then [t]
         else takeWhile (\<lambda>c. \<not> c_isspace c) t # words_max n (dropWhile (\<lambda>c. \<not> c_isspace c) t))"

lemma words_max_space: "c_isspace c \<Longrightarrow> words_max n (c # s) = words_max n s"
  by (cases n) auto

lemma cstr_append: "NUL \<in> set a \<Longrightarrow> cstr (a @ b) = cstr a"
  by (simp add: cstr_def takeWhile_append1)

text \<open>The words already ended by a NUL in the passed part of the buffer.\<close>

abbreviation sealed :: "string \<Rightarrow> nat list \<Rightarrow> bool" where
  "sealed b argv \<equiv> \<forall>i \<in> set argv. i \<le> length b \<and> NUL \<in> set (drop i b)"

abbreviation args_of :: "string \<times> nat list \<Rightarrow> string list" where
  "args_of r \<equiv> map (\<lambda>i. cstr (drop i (fst r))) (snd r)"

lemma args_sealed: "sealed b argv \<Longrightarrow> args_of (b @ x, argv) = args_of (b, argv)"
  by (auto simp: cstr_append)

lemma strcmdsplit_loop_words:
  assumes "nul_free s"
  shows "sealed b argv \<Longrightarrow> length argv < n \<Longrightarrow>
      args_of (strcmdsplit_loop n True b s argv) = args_of (b, argv) @ words_max (n - length argv) s"
    and "sealed b argv \<Longrightarrow> Suc (length argv) < n \<Longrightarrow> nul_free w \<Longrightarrow>
      args_of (strcmdsplit_loop n False (b @ w) s (argv @ [length b])) =
        args_of (b, argv) @ (w @ takeWhile (\<lambda>c. \<not> c_isspace c) s) #
        words_max (n - Suc (length argv)) (dropWhile (\<lambda>c. \<not> c_isspace c) s)"
  using assms
proof (induction s arbitrary: b argv w)
  case Nil
  { case 1
    then show ?case by (cases "n - length argv") auto
  next
    case 2
    then show ?case by (cases "n - Suc (length argv)") (auto simp: cstr_append)
  }
next
  case (Cons c s)
  { case 1
    show ?case
    proof (cases "c_isspace c")
      case True
      have "sealed (b @ [NUL]) argv" using 1(1) by auto
      from Cons.IH(1) [OF this 1(2)] 1 True args_sealed [OF 1(1), of "[NUL]"] show ?thesis
        by (simp add: words_max_space)
    next
      case False
      from 1(2) obtain k where k: "n - length argv = Suc k" by (metis Suc_diff_Suc)
      have c: "nul_free (c # s)" using 1(3) .
      show ?thesis
      proof (cases "k = 0")
        case True
        then have "n \<le> Suc (length argv)" using k by simp
        then have "strcmdsplit_loop n True b (c # s) argv = (b @ c # s, argv @ [length b])"
          using False by simp
        then show ?thesis using k True False args_sealed [OF 1(1), of "c # s"] c by simp
      next
        case False
        then have n: "Suc (length argv) < n" "n - Suc (length argv) = k" using k by auto
        then have "strcmdsplit_loop n True b (c # s) argv = strcmdsplit_loop n False (b @ [c]) s (argv @ [length b])"
          using \<open>\<not> c_isspace c\<close> by simp
        with Cons.IH(2) [OF 1(1) n(1), of "[c]"] c n(2) k False \<open>\<not> c_isspace c\<close> show ?thesis by simp
      qed
    qed
  next
    case 2
    show ?case
    proof (cases "c_isspace c")
      case True
      have sealed: "sealed (b @ w @ [NUL]) (argv @ [length b])" using 2(1) by auto
      have "args_of (strcmdsplit_loop n True (b @ w @ [NUL]) s (argv @ [length b])) =
          args_of (b @ w @ [NUL], argv @ [length b]) @ words_max (n - length (argv @ [length b])) s"
        by (rule Cons.IH(1) [OF sealed]) (use 2 in auto)
      moreover have "\<forall>c \<in> set w. c \<noteq> NUL" using 2(3) by (auto simp: nul_free_def)
      then have "cstr (w @ [NUL]) = w" by (simp add: cstr_def takeWhile_append_stop)
      ultimately show ?thesis using True args_sealed [OF 2(1), of "w @ [NUL]"]
        by (simp add: words_max_space)
    next
      case False
      with Cons.IH(2) [OF 2(1,2), of "w @ [c]"] 2(3,4) show ?thesis by simp
    qed
  }
qed

lemma strcmdsplit_reference: "nul_free s \<Longrightarrow> strcmdsplit s n = words_max n s"
  using strcmdsplit_loop_words(1) [of s "[]" "[]" n]
  by (cases "n = 0") (simp_all add: strcmdsplit_def case_prod_beta)

text \<open>
  A command line is split into its words; when there are more words than the
  caller has room for, the last one keeps the rest of the line with its white space.
\<close>

theorem strcmdsplit_words:
  assumes "nul_free s"
  shows "strcmdsplit s n = words_max n s"
  using assms by (rule strcmdsplit_reference)

theorem strcmdsplit_words_witness: "strcmdsplit ''  set a/b  x  y '' 3 = [''set'', ''a/b'', ''x  y '']"
proof -
  have "strcmdsplit ''  set a/b  x  y '' 3 = words_max 3 ''  set a/b  x  y ''"
    by (rule strcmdsplit_words) code_simp
  also have "\<dots> = [''set'', ''a/b'', ''x  y '']" by code_simp
  finally show ?thesis .
qed

subsection \<open>Choices\<close>

text \<open>
  A choice list as programs write it: commas inside of a choice are escaped, the choices are
  separated by a comma and a space.
\<close>

definition comma_escape :: "string \<Rightarrow> string" where
  "comma_escape s = concat (map (\<lambda>c. if c = CHR '','' then [CHR 0x5C, c] else [c]) s)"

fun comma_join :: "string list \<Rightarrow> string" where
  "comma_join [] = []"
| "comma_join [c] = comma_escape c"
| "comma_join (c # cs) = comma_escape c @ '', '' @ comma_join cs"

text \<open>Choices that survive: not empty, no backslashes, no space at either end.\<close>

definition plain_choice :: "string \<Rightarrow> bool" where
  "plain_choice s \<longleftrightarrow> s \<noteq> [] \<and> CHR 0x5C \<notin> set s \<and> \<not> c_isspace (hd s) \<and> last s \<noteq> SP"

lemma comma_escape_simps [simp]:
  "comma_escape [] = []"
  "comma_escape (c # s) = (if c = CHR '','' then [CHR 0x5C, c] else [c]) @ comma_escape s"
  by (simp_all add: comma_escape_def)

lemma choice_end_escaped:
  "CHR 0x5C \<notin> set s \<Longrightarrow> r = [] \<or> hd r = CHR '','' \<Longrightarrow> choice_end (comma_escape s @ r) = (comma_escape s, r)"
proof (induction s)
  case Nil
  then show ?case by (cases r) auto
next
  case (Cons c s)
  then show ?case by (cases "comma_escape s @ r") auto
qed

lemma choice_copy_escaped: "CHR 0x5C \<notin> set s \<Longrightarrow> choice_copy (comma_escape s) = s"
  by (induction s) auto

lemma strip_choice_plain: "s \<noteq> [] \<Longrightarrow> last s \<noteq> SP \<Longrightarrow> strip_choice s = s"
proof (cases s)
  case (Cons c t)
  assume "last s \<noteq> SP"
  show ?thesis
  proof (cases t rule: rev_cases)
    case Nil
    with Cons show ?thesis by (simp add: strip_choice_def)
  next
    case (snoc u d)
    with Cons \<open>last s \<noteq> SP\<close> show ?thesis by (simp add: strip_choice_def)
  qed
qed simp

lemma skip_escaped: "plain_choice s \<Longrightarrow> dropWhile c_isspace (comma_escape s @ r) = comma_escape s @ r"
  by (cases s) (auto simp: plain_choice_def c_isspace_def)

lemma strchoicesplit_Nil [simp]: "strchoicesplit_loop [] n = []"
  by (cases n) auto

lemma strchoicesplit_space: "s \<noteq> [] \<Longrightarrow> dropWhile c_isspace s = s \<Longrightarrow>
   strchoicesplit_loop (SP # s) n = strchoicesplit_loop s n"
  by (cases n) (auto simp: c_isspace_def)

lemma strchoicesplit_join:
  assumes "\<forall>c \<in> set cs. plain_choice c"
  shows "strchoicesplit_loop (comma_join cs) n = take n cs"
  using assms
proof (induction cs arbitrary: n rule: comma_join.induct [case_names Nil One More])
  case Nil
  then show ?case by (cases n) auto
next
  case (One c)
  have "comma_escape c \<noteq> []" using One by (cases c) (auto simp: plain_choice_def)
  then show ?case using One choice_end_escaped [of c "[]"] skip_escaped [of c "[]"]
    by (cases n) (auto simp: plain_choice_def choice_copy_escaped strip_choice_plain)
next
  case (More c d cs)
  let ?rest = "comma_join (d # cs)"
  have ne: "comma_escape c \<noteq> []" using More.prems by (cases c) (auto simp: plain_choice_def)
  have rest: "?rest \<noteq> []" "dropWhile c_isspace ?rest = ?rest"
  proof -
    have d: "plain_choice d" using More.prems by simp
    obtain r where "?rest = comma_escape d @ r" by (cases cs) auto
    moreover have "comma_escape d \<noteq> []" using d by (cases d) (auto simp: plain_choice_def)
    ultimately show "?rest \<noteq> []" "dropWhile c_isspace ?rest = ?rest" using skip_escaped [OF d] by auto
  qed
  show ?case
  proof (cases n)
    case (Suc k)
    have "strchoicesplit_loop (comma_escape c @ CHR '','' # SP # ?rest) (Suc k) = c # strchoicesplit_loop (SP # ?rest) k"
      using More.prems ne choice_end_escaped [of c "CHR '','' # SP # ?rest"] skip_escaped [of c "CHR '','' # SP # ?rest"]
      by (simp add: plain_choice_def choice_copy_escaped strip_choice_plain)
    with Suc More strchoicesplit_space [OF rest] show ?thesis by simp
  qed simp
qed

lemma strgetargc_escaped:
  "CHR 0x5C \<notin> set s \<Longrightarrow> strgetargc_loop (comma_escape s @ r) k = strgetargc_loop r k"
  by (induction s arbitrary: k) auto

lemma strgetargc_join:
  "\<forall>c \<in> set cs. plain_choice c \<Longrightarrow> cs \<noteq> [] \<Longrightarrow> strgetargc_loop (comma_join cs) (Suc k) = k + length cs"
proof (induction cs arbitrary: k rule: comma_join.induct [case_names Nil One More])
  case (One c)
  then show ?case using strgetargc_escaped [of c "[]" "Suc k"] by (simp add: plain_choice_def)
next
  case (More c d cs)
  then show ?case using strgetargc_escaped [of c "CHR '','' # SP # comma_join (d # cs)" "Suc k"]
    by (simp add: plain_choice_def)
qed simp

lemma comma_join_Nil: "\<forall>c \<in> set cs. plain_choice c \<Longrightarrow> comma_join cs = [] \<longleftrightarrow> cs = []"
proof (induction cs rule: comma_join.induct [case_names Nil One More])
  case (One c)
  then show ?case by (cases c) (auto simp: plain_choice_def)
qed auto

text \<open>Counting the choices of a list and splitting it gives all of them back.\<close>

lemma split_comma_join:
  assumes "\<forall>c \<in> set cs. plain_choice c"
  shows "strgetargc (Some (comma_join cs)) = length cs"
    "strchoicesplit (Some (comma_join cs)) (length cs) = cs"
  using strchoicesplit_join [OF assms, of "length cs"] strgetargc_join [OF assms, of 0] comma_join_Nil [OF assms]
  by (auto simp: strgetargc_def strchoicesplit_def)

text \<open>The two routines disagree on a list that ends in a comma.\<close>

lemma trailing_comma: "strgetargc (Some ''a,'') = 2 \<and> length (strchoicesplit (Some ''a,'') 2) = 1"
  by code_simp

text \<open>
  The translated choices come out in the order of the indices, so that an answer
  at position \<open>i\<close> of the sorted list stands for the untranslated choice with that index; with
  unusable indices the order is left alone.
\<close>

theorem strchoicesplitsort_order:
  assumes "strchoicesplitsort obuf tbuf indices n = Some (oargv, targv, oindex)"
  shows "length oargv = n \<and> length targv = n \<and> length oindex = n \<and> (\<forall>i < n. oindex ! i < n) \<and>
    (\<forall>i < n. targv ! i = strchoicesplit (Some tbuf) n ! (oindex ! i)) \<and>
    (\<forall>i < n. oargv ! (oindex ! i) = strchoicesplit (Some obuf) n ! (oindex ! i))"
proof -
  have len: "length (strchoicesplit (Some obuf) n) = n" "length (strchoicesplit (Some tbuf) n) = n"
    and oargv: "oargv = strchoicesplit (Some obuf) n"
    using assms by (auto simp: strchoicesplitsort_def Let_def split: if_splits)
  consider (sorted) ix where "list_all (\<lambda>i. 0 \<le> i \<and> i < int n) ix" "length ix = n"
      "targv = map (\<lambda>i. strchoicesplit (Some tbuf) n ! nat i) ix" "oindex = map nat ix"
    | (unsorted) "targv = strchoicesplit (Some tbuf) n" "oindex = [0..<n]"
    using assms by (auto simp: strchoicesplitsort_def Let_def split: if_splits)
  then show ?thesis
  proof cases
    case sorted
    then have "nat (ix ! i) < n" if "i < n" for i using that by (auto simp: list_all_length)
    with sorted len oargv show ?thesis by simp
  next
    case unsorted
    with len oargv show ?thesis by simp
  qed
qed

theorem strchoicesplitsort_order_witness:
  "strchoicesplitsort ''a, b'' ''x, y'' (Some ''2, 1'') 2 = Some ([''a'', ''b''], [''y'', ''x''], [1, 0]) \<and>
   [''y'', ''x''] ! 0 = strchoicesplit (Some ''x, y'') 2 ! ([1, 0] ! 0)"
proof -
  have e: "strchoicesplitsort ''a, b'' ''x, y'' (Some ''2, 1'') 2 = Some ([''a'', ''b''], [''y'', ''x''], [1, 0])"
    by code_simp
  from strchoicesplitsort_order [OF e] have "\<forall>i < 2. [''y'', ''x''] ! i = strchoicesplit (Some ''x, y'') 2 ! ([1, 0] ! i)"
    by blast
  then have "[''y'', ''x''] ! 0 = strchoicesplit (Some ''x, y'') 2 ! ([1, 0] ! 0)" by (rule allE [of _ 0]) simp
  with e show ?thesis by blast
qed

subsection \<open>Variables\<close>

text \<open>A text with variables, its source form and its expansion.\<close>

datatype segment = Lit string | Var string

fun segment_source :: "segment \<Rightarrow> string" where
  "segment_source (Lit s) = s"
| "segment_source (Var n) = ''${'' @ n @ ''}''"

fun segment_value :: "(string \<Rightarrow> string option) \<Rightarrow> segment \<Rightarrow> string" where
  "segment_value func (Lit s) = s"
| "segment_value func (Var n) = (case func n of Some v \<Rightarrow> v | None \<Rightarrow> ''${'' @ n @ ''}'')"

fun segment_ok :: "segment \<Rightarrow> bool" where
  "segment_ok (Lit s) \<longleftrightarrow> CHR ''$'' \<notin> set s"
| "segment_ok (Var n) \<longleftrightarrow> CHR 0x7D \<notin> set n \<and> length n < VAR_SIZE"

lemma strexpand_rope_lit:
  "CHR ''$'' \<notin> set s \<Longrightarrow> strexpand_rope func lit (s @ r) = strexpand_rope func (lit @ s) r"
proof (induction s arbitrary: lit)
  case (Cons c s)
  then have "c \<noteq> CHR ''$''" "CHR ''$'' \<notin> set s" by auto
  with Cons.IH [of "lit @ [c]"] show ?case by (simp add: strexpand_rope.simps(2))
qed simp

lemma takeWhile_take_stop:
  "\<forall>x \<in> set a. P x \<Longrightarrow> \<not> P y \<Longrightarrow> length a < n \<Longrightarrow> takeWhile P (take n (a @ y # b)) = a"
  by (induction a arbitrary: n) (auto simp: take_Cons' Suc_diff_Suc)

lemma strexpand_rope_var:
  assumes "CHR 0x7D \<notin> set n" "length n < VAR_SIZE"
  shows "strexpand_rope func lit (''${'' @ n @ ''}'' @ r) =
    map_option (\<lambda>rope. lit # (case func n of Some v \<Rightarrow> v | None \<Rightarrow> ''${'' @ n @ ''}'') # rope) (strexpand_rope func [] r)"
proof -
  have "takeWhile (\<lambda>c. c \<noteq> CHR 0x7D) (take VAR_SIZE (n @ CHR 0x7D # r)) = n"
    using assms by (intro takeWhile_take_stop) auto
  then show ?thesis using assms(2) by (simp add: strexpand_rope.simps(2) Let_def)
qed

lemma strexpand_rope_segments:
  "\<forall>x \<in> set segs. segment_ok x \<Longrightarrow>
   \<exists>rope. strexpand_rope func lit (concat (map segment_source segs)) = Some rope \<and>
     concat rope = lit @ concat (map (segment_value func) segs)"
proof (induction segs arbitrary: lit)
  case (Cons x segs)
  show ?case
  proof (cases x)
    case (Lit s)
    with Cons.prems Cons.IH [of "lit @ s"] show ?thesis by (auto simp: strexpand_rope_lit)
  next
    case (Var n)
    with Cons.prems Cons.IH [of "[]"] show ?thesis
      using strexpand_rope_var [of n func lit] by auto
  qed
qed simp

text \<open>
  A text is expanded by replacing every variable by its value, a variable
  without a value stays as it is written, and values are not expanded again. Names are
  shorter than \<open>VAR_SIZE\<close>.
\<close>

theorem strexpand_substitutes:
  assumes "\<forall>x \<in> set segs. segment_ok x"
  shows "strexpand (Some (concat (map segment_source segs))) func =
    Some (Some (concat (map (segment_value func) segs)))"
  using strexpand_rope_segments [OF assms, of func "[]"] by (auto simp: strexpand_def)

theorem strexpand_substitutes_witness:
  "strexpand (Some ''a ${X} b'') (\<lambda>n. if n = ''X'' then Some ''${Y}'' else None) = Some (Some ''a ${Y} b'')"
  using strexpand_substitutes [of "[Lit ''a '', Var ''X'', Lit '' b'']" "\<lambda>n. if n = ''X'' then Some ''${Y}'' else None"]
  by (simp add: VAR_SIZE_def)

lemma strexpand_long_name: "strexpand (Some (''${'' @ replicate 100 (CHR ''a'') @ ''}'')) func = None"
  by (simp add: strexpand_def strexpand_rope.simps(2) VAR_SIZE_def Let_def numeral_eq_Suc)

subsection \<open>Replacement\<close>

text \<open>The reference: occurrences replaced from left to right, without overlaps.\<close>

function replace_all :: "string \<Rightarrow> string \<Rightarrow> string \<Rightarrow> string" where
  "replace_all fr to [] = []"
| "replace_all fr to (c # s) =
     (if fr \<noteq> [] \<and> take (length fr) (c # s) = fr then to @ replace_all fr to (drop (length fr) (c # s))
      else c # replace_all fr to s)"
  by pat_completeness auto
termination
  by (relation "measure (\<lambda>(fr, to, s). length s)") auto

declare replace_all.simps(2) [simp del]

lemma strstr_None: "fr \<noteq> [] \<Longrightarrow> strstr s fr = None \<Longrightarrow> replace_all fr to s = s"
proof (induction s)
  case (Cons c s)
  from Cons.prems have "take (length fr) (c # s) \<noteq> fr" "strstr s fr = None"
    by (auto simp: strstr.simps [of "c # s"] split: if_splits)
  with Cons show ?case by (simp add: replace_all.simps(2))
qed simp

lemma strstr_Some:
  "fr \<noteq> [] \<Longrightarrow> strstr s fr = Some p \<Longrightarrow>
   replace_all fr to s = take p s @ to @ replace_all fr to (drop (p + length fr) s) \<and> p + length fr \<le> length s"
proof (induction s arbitrary: p)
  case Nil
  then show ?case by (auto simp: strstr.simps split: if_splits)
next
  case (Cons c s)
  show ?case
  proof (cases "take (length fr) (c # s) = fr")
    case True
    with Cons.prems have "p = 0" by (simp add: strstr.simps)
    moreover have "length fr \<le> length (c # s)" using True by (metis length_take min.cobounded1)
    ultimately show ?thesis using True Cons.prems(1) by (simp add: replace_all.simps(2))
  next
    case False
    with Cons.prems obtain k where "strstr s fr = Some k" "p = Suc k" by (auto simp: strstr.simps [of "c # s"])
    with Cons.IH [of k] Cons.prems(1) False show ?thesis by (simp add: replace_all.simps(2))
  qed
qed

lemma strreplace_loop_all: "fr \<noteq> [] \<Longrightarrow> strreplace_loop str prev fr to = Some (str @ replace_all fr to prev)"
proof (induction "length prev" arbitrary: str prev rule: less_induct)
  case less
  show ?case
  proof (cases "strstr prev fr")
    case None
    then show ?thesis using strstr_None [OF less.prems None] by (simp add: strreplace_loop.simps)
  next
    case (Some p)
    note st = strstr_Some [OF less.prems Some, of to]
    then have "length (drop (p + length fr) prev) < length prev" using less.prems by (cases fr) auto
    from less.hyps [OF this less.prems] Some st show ?thesis by (subst strreplace_loop.simps) simp
  qed
qed

text \<open>
  Replacing a non-empty text ends and replaces all its occurrences from left to
  right.
\<close>

theorem strreplace_replaces:
  assumes "fr \<noteq> []"
  shows "strreplace src fr to = Some (replace_all fr to src)"
  using strreplace_loop_all [OF assms, of "[]" src to] by (simp add: strreplace_def)

theorem strreplace_replaces_witness: "strreplace ''a.b..c'' ''.'' ''--'' = Some ''a--b----c''"
proof -
  have "strreplace ''a.b..c'' ''.'' ''--'' = Some (replace_all ''.'' ''--'' ''a.b..c'')"
    by (rule strreplace_replaces) simp
  also have "replace_all ''.'' ''--'' ''a.b..c'' = ''a--b----c''" by code_simp
  finally show ?thesis .
qed

lemma strreplace_empty_never_returns: "strreplace src [] to = None"
proof -
  have empty: "strstr s [] = Some 0" for s by (simp add: strstr.simps)
  have "fr \<noteq> []" if "strreplace_loop str prev fr to = Some r" for str prev fr to r
    by (rule strreplace_loop.raw_induct [where P = "\<lambda>str prev fr to r. fr \<noteq> []", OF _ that]) (auto simp: empty, blast)
  then show ?thesis unfolding strreplace_def by (metis not_None_eq)
qed

end
