(* ===== verification/Anna.thy ===== *)
theory Anna
  imports Anna_Select DI_PackageParser Deb_Strutl "HOL-Library.List_Lexorder"
begin

text \<open>
  \<^verbatim>\<open>anna\<close>, which chooses, retrieves and installs the components of the installer
  (\<^verbatim>\<open>anna/anna.c\<close> and \<^verbatim>\<open>anna/util.c\<close>).

  The container of available packages and that of installed ones are \<open>di_packages\<close> with
  their own heaps. What comes from outside is a parameter: the lines \<open>fgets\<close> returns of a
  file, the answers of the user, the outcomes of retrieving, unpacking and configuring. What
  goes outside is a list of actions. \<open>uname\<close> is taken to succeed, so the running kernel is a
  string.
\<close>

subsection \<open>Helpers\<close>

definition is_queued :: "string list \<Rightarrow> string \<Rightarrow> bool" where
  "is_queued queue name = list_ex (\<lambda>line. butlast line = name) queue"

definition is_installed :: "di_system_package \<Rightarrow> di_packages \<Rightarrow> bool" where
  "is_installed p status =
     (case di_package_version_parse (pkg_version p) of
        None \<Rightarrow> False
      | Some pv \<Rightarrow>
          (case di_packages_get_package status (pkg_package p) 0 of
             None \<Rightarrow> False
           | Some q \<Rightarrow>
               (case di_package_version_parse (pkg_version (heap status q)) of
                  None \<Rightarrow> False
                | Some qv \<Rightarrow> di_package_version_compare pv qv \<le> 0)))"

text \<open>
  \<open>size - 2\<close> is computed in \<open>size_t\<close>. The result is \<open>None\<close> when the text and its NUL do not fit
  into the buffer of \<open>size\<close> bytes.
\<close>

fun choice_strcpy_loop :: "string \<Rightarrow> nat \<Rightarrow> nat \<Rightarrow> string" where
  "choice_strcpy_loop [] n lim = []"
| "choice_strcpy_loop (c # src) n lim =
     (if n < lim
      then if c = CHR '','' then CHR 0x5C # c # choice_strcpy_loop src (n + 2) lim
           else c # choice_strcpy_loop src (n + 1) lim
      else [])"

definition choice_strcpy :: "string \<Rightarrow> nat \<Rightarrow> string option" where
  "choice_strcpy src sz =
     (let lim = (if sz < 2 then 2 ^ 64 + sz - 2 else sz - 2);
          out = choice_strcpy_loop src 0 lim
      in if length out < sz then Some out else None)"

text \<open>A missing description is a NULL pointer that is read.\<close>

definition package_to_choice :: "di_system_package \<Rightarrow> nat \<Rightarrow> string option" where
  "package_to_choice package sz =
     (case choice_strcpy (pkg_package package) sz of
        None \<Rightarrow> None
      | Some a \<Rightarrow>
          (case choice_strcpy '': '' (sz - length a) of
             None \<Rightarrow> None
           | Some b \<Rightarrow>
               (case pkg_short_description package of
                  None \<Rightarrow> None
                | Some d \<Rightarrow>
                    map_option (\<lambda>c. a @ b @ c) (choice_strcpy d (sz - length a - length b)))))"

definition BUF_SIZE :: nat where
  "BUF_SIZE = 200"

fun list_to_choices :: "pkg_heap \<Rightarrow> pkg_ptr list \<Rightarrow> bool \<Rightarrow> string option" where
  "list_to_choices h [] c_values = Some []"
| "list_to_choices h (p # ps) c_values =
     (case (if c_values then choice_strcpy (pkg_package (h p)) BUF_SIZE else package_to_choice (h p) BUF_SIZE) of
        None \<Rightarrow> None
      | Some buf \<Rightarrow>
          (case list_to_choices h ps c_values of
             None \<Rightarrow> None
           | Some rest \<Rightarrow> Some (buf @ (if ps = [] then [] else '', '') @ rest)))"

text \<open>\<open>strcmp\<close> compares bytes as unsigned numbers; \<open>qsort\<close> sorts by it.\<close>

definition package_name_key :: "pkg_heap \<Rightarrow> pkg_ptr \<Rightarrow> nat list" where
  "package_name_key h p = map of_char (pkg_package (h p))"

definition sha256sum :: "string option \<Rightarrow> string option \<Rightarrow> bool" where
  "sha256sum sm line =
     (case sm of None \<Rightarrow> True
      | Some s \<Rightarrow> (case line of None \<Rightarrow> False | Some l \<Rightarrow> length l \<ge> 64 \<and> take 64 l = s))"

definition set_want :: "di_package_status_want \<Rightarrow> pkg_ptr \<Rightarrow> di_packages \<Rightarrow> di_packages" where
  "set_want w p = upd_pkg p (\<lambda>x. x\<lparr>pkg_status_want := w\<rparr>)"

text \<open>
  A file of package names: every package of the list with the name of a line gets the wanted
  state. \<open>None\<close> when the file does not exist.
\<close>

definition file_names :: "string list \<Rightarrow> string list" where
  "file_names lines = map (takeWhile (\<lambda>c. c \<noteq> NL)) (filter (\<lambda>l. peek l \<noteq> CHR ''#'') lines)"

definition want_named :: "di_package_status_want \<Rightarrow> string \<Rightarrow> di_packages \<Rightarrow> di_packages" where
  "want_named w name packages =
     fold (\<lambda>p ps. if pkg_package (heap ps p) = name then set_want w p ps else ps) (pkg_list packages) packages"

definition take_includes :: "string list option \<Rightarrow> di_packages \<Rightarrow> di_packages" where
  "take_includes lines packages =
     (case lines of None \<Rightarrow> packages
      | Some ls \<Rightarrow> fold (want_named di_package_status_want_install) (file_names ls) packages)"

definition drop_excludes :: "string list option \<Rightarrow> di_packages \<Rightarrow> di_packages" where
  "drop_excludes lines packages =
     (case lines of None \<Rightarrow> packages
      | Some ls \<Rightarrow> fold (want_named di_package_status_want_deinstall) (file_names ls) packages)"

subsection \<open>Choosing\<close>

record anna_env =
  lowmem_level :: int
  queue :: "string list"
  include_lines :: "string list option"
  exclude_lines :: "string list option"
  standard_modules :: bool
  subarch :: string
  running_kernel :: string

text \<open>
  The first loop of \<open>choose_modules\<close>: states of installed packages are copied, and available
  packages that enhance one of them are wanted.
\<close>

definition sync_status_one :: "di_packages \<Rightarrow> pkg_ptr \<Rightarrow> di_packages \<Rightarrow> di_packages" where
  "sync_status_one status sp packages =
     (case di_packages_get_package packages (pkg_package (heap status sp)) 0 of
        None \<Rightarrow> packages
      | Some p \<Rightarrow>
          (let st = pkg_status (heap status sp);
               packages = upd_pkg p (\<lambda>x. x\<lparr>pkg_status := st\<rparr>) packages
           in if (st = di_package_status_unpacked \<or> st = di_package_status_installed) \<and>
                 list_ex (\<lambda>d. dep_type d = di_package_dependency_type_reverse_enhances) (pkg_depends (heap packages p))
              then set_want di_package_status_want_install p packages else packages))"

definition sync_status :: "di_packages \<Rightarrow> di_packages \<Rightarrow> di_packages" where
  "sync_status status packages = fold (sync_status_one status) (pkg_list status) packages"

text \<open>
  The second loop: the wanted state of one package. \<open>w0\<close> is the state after the test of the
  kernel version.
\<close>

definition initial_want :: "anna_env \<Rightarrow> di_packages \<Rightarrow> pkg_heap \<Rightarrow> pkg_ptr \<Rightarrow> di_package_status_want" where
  "initial_want env status h p =
     (let x = h p
      in if pkg_type x \<noteq> di_package_type_real_package \<or> is_installed x status \<or>
            \<not> di_system_package_check_subarchitecture x (subarch env) \<or>
            (kernel_version x \<noteq> None \<and> kernel_version x \<noteq> Some (running_kernel env))
         then di_package_status_want_deinstall
         else (let w0 = (if kernel_version x = None then di_package_status_want_deinstall
                         else if list_ex (\<lambda>d. dep_type d = di_package_dependency_type_provides \<and>
                                   is_queued (queue env) (pkg_package (h (dep_ptr d)))) (pkg_depends x)
                         then di_package_status_want_install else di_package_status_want_unknown)
               in if pkg_priority x \<ge> di_package_priority_standard
                  then if standard_modules env \<or> kernel_version x \<noteq> None
                       then di_package_status_want_install else di_package_status_want_unknown
                  else if is_queued (queue env) (pkg_package x) then di_package_status_want_install
                  else if installer_menu_item x \<noteq> 0 \<and> pkg_status x \<noteq> di_package_status_installed
                  then di_package_status_want_unknown
                  else w0))"

definition set_initial :: "anna_env \<Rightarrow> di_packages \<Rightarrow> di_packages \<Rightarrow> di_packages" where
  "set_initial env status packages =
     fold (\<lambda>p ps. set_want (initial_want env status (heap ps) p) p ps) (pkg_list packages) packages"

definition lowmem_mode :: "anna_env \<Rightarrow> bool" where
  "lowmem_mode env = (lowmem_level env \<ge> 2)"

definition ask_lowmem :: "anna_env \<Rightarrow> di_packages \<Rightarrow> di_packages" where
  "ask_lowmem env packages =
     (if lowmem_mode env
      then fold (\<lambda>p ps. let x = heap ps p
             in if pkg_status_want x = di_package_status_want_install \<and> installer_menu_item x = 0 \<and>
                   \<not> is_queued (queue env) (pkg_package x)
                then set_want di_package_status_want_unknown p ps else ps) (pkg_list packages) packages
      else packages)"

text \<open>The packages to ask for, sorted by name.\<close>

definition ask_list :: "di_packages \<Rightarrow> pkg_ptr list" where
  "ask_list packages =
     sort_key (package_name_key (heap packages))
       (filter (\<lambda>p. pkg_status_want (heap packages p) = di_package_status_want_unknown) (pkg_list packages))"

text \<open>The answer selects every package whose name occurs anywhere in it.\<close>

definition take_answer :: "string \<Rightarrow> di_packages \<Rightarrow> di_packages" where
  "take_answer choices packages =
     fold (\<lambda>p ps. if strstr choices (pkg_package (heap ps p)) \<noteq> None
                  then set_want di_package_status_want_install p ps else ps) (pkg_list packages) packages"

datatype anna_error = OutOfFuel | BadAccess

definition choose_prepare :: "nat \<Rightarrow> anna_env \<Rightarrow> di_packages \<Rightarrow> di_packages \<Rightarrow> di_packages option" where
  "choose_prepare fuel env status packages =
     (let packages = sync_status status packages;
          packages = set_initial env status packages;
          packages = drop_excludes (exclude_lines env) (take_includes (include_lines env) packages);
          packages = ask_lowmem env packages
      in di_system_packages_resolve_dependencies_mark_anna fuel packages (subarch env) (running_kernel env))"

text \<open>
  \<open>go\<close> is the result of \<open>debconf_go\<close> and \<open>value\<close> the answer. The result is the return code with
  the container, and the two lists of choices that the question shows.
\<close>

definition choose_modules ::
  "nat \<Rightarrow> anna_env \<Rightarrow> int \<Rightarrow> string option \<Rightarrow> di_packages \<Rightarrow> di_packages \<Rightarrow>
   anna_error + nat \<times> di_packages \<times> string \<times> string" where
  "choose_modules fuel env go answer status packages =
     (case choose_prepare fuel env status packages of
        None \<Rightarrow> Inl OutOfFuel
      | Some packages \<Rightarrow>
          (case (list_to_choices (heap packages) (ask_list packages) True,
                 list_to_choices (heap packages) (ask_list packages) False) of
             (Some choices_c, Some choices) \<Rightarrow>
               if go = 30 then Inr (1, packages, choices_c, choices)
               else Inr (0, (case answer of None \<Rightarrow> packages | Some a \<Rightarrow> take_answer a packages), choices_c, choices)
           | _ \<Rightarrow> Inl BadAccess))"

subsection \<open>Installing\<close>

datatype attempt = RetrieveFailed bool | Retrieved "string option" bool

text \<open>
  The outcome of one round of the retrieval loop: a failure, or the line that \<open>sha256sum\<close>
  printed for the file; the flag tells whether the retriever handled the error.
\<close>

datatype anna_action =
    Retrieve pkg_ptr | Verify pkg_ptr "string option" | Unpack pkg_ptr bool | Configure pkg_ptr bool
  | ProgressStart nat | ProgressStep | ProgressStop | ProgressResume nat

record anna_state =
  attempts :: "attempt list"
  actions :: "anna_action list"
  progress_step :: nat

definition act :: "anna_action list \<Rightarrow> anna_state \<Rightarrow> anna_state" where
  "act as s = s\<lparr>actions := actions s @ as\<rparr>"

text \<open>The loop over the file name: \<open>f\<close> is the part behind the last slash seen.\<close>

fun dest_name :: "string \<Rightarrow> string \<Rightarrow> string option" where
  "dest_name f [] = Some f"
| "dest_name f (c # fp) =
     (if c = CHR ''/'' then (case fp of [] \<Rightarrow> None | d # fp' \<Rightarrow> dest_name (d # fp') fp') else dest_name f fp)"

text \<open>\<open>None\<close>: the attempts are used up while the loop still runs.\<close>

fun retrieve_loop :: "bool \<Rightarrow> string option \<Rightarrow> pkg_ptr \<Rightarrow> attempt list \<Rightarrow> anna_state \<Rightarrow> (nat \<times> anna_state) option" where
  "retrieve_loop quiet sm p [] s = None"
| "retrieve_loop quiet sm p (RetrieveFailed handled # as) s =
     (let s = act (Retrieve p # (if quiet then [] else [ProgressStop])) (s\<lparr>attempts := as\<rparr>)
      in if \<not> handled then Some (6, s)
         else retrieve_loop quiet sm p as (act (if quiet then [] else [ProgressResume (progress_step s)]) s))"
| "retrieve_loop quiet sm p (Retrieved line handled # as) s =
     (let s = act [Retrieve p, Verify p line] (s\<lparr>attempts := as\<rparr>)
      in if sha256sum sm line then Some (0, s)
         else (let s = act (if quiet then [] else [ProgressStop]) s
               in if \<not> handled then Some (7, s)
                  else retrieve_loop quiet sm p as (act (if quiet then [] else [ProgressResume (progress_step s)]) s)))"

definition step_done :: "bool \<Rightarrow> anna_state \<Rightarrow> anna_state" where
  "step_done quiet s = (if quiet then s else (act [ProgressStep] s)\<lparr>progress_step := progress_step s + 1\<rparr>)"

definition selected :: "pkg_heap \<Rightarrow> pkg_ptr \<Rightarrow> bool" where
  "selected h p \<longleftrightarrow> pkg_type (h p) = di_package_type_real_package \<and>
     pkg_status_want (h p) = di_package_status_want_install"

datatype install_error = Retrying | BadFilename

fun unpack_pass ::
  "bool \<Rightarrow> pkg_heap \<Rightarrow> (pkg_ptr \<Rightarrow> bool) \<Rightarrow> pkg_ptr list \<Rightarrow> anna_state \<Rightarrow> install_error + nat \<times> anna_state" where
  "unpack_pass quiet h unpack [] s = Inr (0, s)"
| "unpack_pass quiet h unpack (p # ps) s =
     (if \<not> selected h p then unpack_pass quiet h unpack ps s
      else case pkg_filename (h p) of
        None \<Rightarrow> unpack_pass quiet h unpack ps s
      | Some filename \<Rightarrow>
          (case dest_name filename filename of
             None \<Rightarrow> Inl BadFilename
           | Some dest \<Rightarrow>
               (case retrieve_loop quiet (pkg_sha256 (h p)) p (attempts s) s of
                  None \<Rightarrow> Inl Retrying
                | Some (r, s) \<Rightarrow>
                    if r \<noteq> 0 then Inr (r, s)
                    else if \<not> unpack p
                    then Inr (8, act (Unpack p False # (if quiet then [] else [ProgressStop])) s)
                    else unpack_pass quiet h unpack ps (step_done quiet (act [Unpack p True] s)))))"

fun configure_pass ::
  "bool \<Rightarrow> pkg_heap \<Rightarrow> (pkg_ptr \<Rightarrow> bool) \<Rightarrow> pkg_ptr list \<Rightarrow> anna_state \<Rightarrow> nat \<times> anna_state" where
  "configure_pass quiet h configure [] s = (0, s)"
| "configure_pass quiet h configure (p # ps) s =
     (if \<not> selected h p \<or> pkg_filename (h p) = None \<or> installer_menu_item (h p) \<noteq> 0
      then configure_pass quiet h configure ps s
      else if \<not> configure p
      then (8, act (Configure p False # (if quiet then [] else [ProgressStop])) s)
      else configure_pass quiet h configure ps (step_done quiet (act [Configure p True] s)))"

text \<open>
  The first loop after the selection: what is not wanted or installed already gets the state
  unknown; the wanted real packages are counted.
\<close>

definition settle_wants :: "di_packages \<Rightarrow> di_packages \<Rightarrow> di_packages" where
  "settle_wants status packages =
     fold (\<lambda>p ps. if pkg_status_want (heap ps p) = di_package_status_want_install \<and> \<not> is_installed (heap ps p) status
                  then ps else set_want di_package_status_want_unknown p ps) (pkg_list packages) packages"

definition step_count :: "di_packages \<Rightarrow> nat" where
  "step_count packages = length (filter (selected (heap packages)) (pkg_list packages))"

definition conf_count :: "di_packages \<Rightarrow> nat" where
  "conf_count packages = length (filter (\<lambda>p. selected (heap packages) p \<and> installer_menu_item (heap packages p) = 0)
     (pkg_list packages))"

definition install_run ::
  "bool \<Rightarrow> (pkg_ptr \<Rightarrow> bool) \<Rightarrow> (pkg_ptr \<Rightarrow> bool) \<Rightarrow> di_packages \<Rightarrow> attempt list \<Rightarrow> install_error + nat \<times> anna_state" where
  "install_run quiet unpack configure packages ats =
     (let s = \<lparr>attempts = ats, actions = [], progress_step = 0\<rparr>;
          h = heap packages
      in if step_count packages = 0 then Inr (0, s)
         else (let s = act (if quiet then [] else [ProgressStart (step_count packages + conf_count packages)]) s
               in case unpack_pass quiet h unpack (pkg_list packages) s of
                    Inl e \<Rightarrow> Inl e
                  | Inr (r, s) \<Rightarrow>
                      if r \<noteq> 0 then Inr (r, s)
                      else (case configure_pass quiet h configure (pkg_list packages) s of
                              (r, s) \<Rightarrow> if r \<noteq> 0 then Inr (r, s)
                                        else Inr (0, act (if quiet then [] else [ProgressStop]) s))))"

definition install_modules ::
  "nat \<Rightarrow> anna_env \<Rightarrow> bool \<Rightarrow> (pkg_ptr \<Rightarrow> bool) \<Rightarrow> (pkg_ptr \<Rightarrow> bool) \<Rightarrow> di_packages \<Rightarrow> di_packages \<Rightarrow> attempt list \<Rightarrow>
   (install_error + nat \<times> anna_state) option" where
  "install_modules fuel env quiet unpack configure status packages ats =
     map_option (\<lambda>packages. install_run quiet unpack configure (settle_wants status packages) ats)
       (di_system_packages_resolve_dependencies_mark_anna fuel packages (subarch env) (running_kernel env))"

subsection \<open>Choice lists\<close>

lemma choice_strcpy_loop_all:
  "n + length (comma_escape src) \<le> lim \<Longrightarrow> choice_strcpy_loop src n lim = comma_escape src"
  by (induction src n lim rule: choice_strcpy_loop.induct) auto

lemma choice_strcpy_all: "length (comma_escape src) \<le> sz - 2 \<Longrightarrow> 2 \<le> sz \<Longrightarrow> choice_strcpy src sz = Some (comma_escape src)"
  by (simp add: choice_strcpy_def Let_def choice_strcpy_loop_all)

lemma list_to_choices_join:
  "\<forall>p \<in> set ps. length (comma_escape (pkg_package (h p))) \<le> BUF_SIZE - 2 \<Longrightarrow>
   list_to_choices h ps True = Some (comma_join (map (\<lambda>p. pkg_package (h p)) ps))"
proof (induction ps)
  case (Cons p ps)
  then show ?case by (cases ps) (auto simp: choice_strcpy_all BUF_SIZE_def)
qed simp

text \<open>
  The list of choices that anna gives to debconf, split again as the frontends
  do, consists of the names of the packages in their order, commas in names included.
\<close>

theorem anna_choices_roundtrip:
  assumes "\<forall>p \<in> set ps. plain_choice (pkg_package (h p)) \<and> length (comma_escape (pkg_package (h p))) \<le> 198"
  shows "\<exists>s. list_to_choices h ps True = Some s \<and>
    strchoicesplit (Some s) (strgetargc (Some s)) = map (\<lambda>p. pkg_package (h p)) ps"
proof -
  let ?names = "map (\<lambda>p. pkg_package (h p)) ps"
  have "\<forall>c \<in> set ?names. plain_choice c" using assms by auto
  note split = split_comma_join [OF this]
  have "list_to_choices h ps True = Some (comma_join ?names)"
    by (rule list_to_choices_join) (use assms in \<open>auto simp: BUF_SIZE_def\<close>)
  with split show ?thesis by simp
qed

theorem anna_choices_roundtrip_witness:
  "\<exists>s. list_to_choices (\<lambda>p. zero_package\<lparr>pkg_package := if p = 0 then ''a,b'' else ''c''\<rparr>) [0, 1] True = Some s \<and>
     strchoicesplit (Some s) (strgetargc (Some s)) = [''a,b'', ''c'']"
  using anna_choices_roundtrip [of "[0, 1]" "\<lambda>p. zero_package\<lparr>pkg_package := if p = 0 then ''a,b'' else ''c''\<rparr>"]
  by (simp add: plain_choice_def c_isspace_def)

text \<open>A comma at the end of a long name makes the remaining size 1, and \<open>size - 2\<close> wraps around.\<close>

lemma choice_strcpy_loop_replicate:
  "c \<noteq> CHR '','' \<Longrightarrow> n + k \<le> lim \<Longrightarrow>
   choice_strcpy_loop (replicate k c @ src) n lim = replicate k c @ choice_strcpy_loop src (n + k) lim"
  by (induction k arbitrary: n) auto

lemma package_to_choice_overflow:
  "package_to_choice (zero_package\<lparr>pkg_package := replicate 197 (CHR ''a'') @ '','',
     pkg_short_description := Some ''x''\<rparr>) 200 = None"
  by (simp add: package_to_choice_def choice_strcpy_def choice_strcpy_loop_replicate Let_def)

lemma dest_name_trailing_slash: "dest_name ''a/'' ''a/'' = None"
  by code_simp

subsection \<open>Wanted packages\<close>

lemma set_want_simps [simp]:
  "heap (set_want w p ps) = (heap ps)(p := (heap ps p)\<lparr>pkg_status_want := w\<rparr>)" "pkg_list (set_want w p ps) = pkg_list ps"
  "table (set_want w p ps) = table ps"
  by (simp_all add: set_want_def)

lemma is_installed_want [simp]: "is_installed (x\<lparr>pkg_status_want := w\<rparr>) status = is_installed x status"
  by (simp add: is_installed_def cong: option.case_cong)

lemma check_subarchitecture_want [simp]:
  "di_system_package_check_subarchitecture (x\<lparr>pkg_status_want := w\<rparr>) sub = di_system_package_check_subarchitecture x sub"
  by (simp add: di_system_package_check_subarchitecture_def)

lemma initial_want_update:
  "initial_want env status (h(p := (h p)\<lparr>pkg_status_want := w\<rparr>)) q = initial_want env status h q"
proof -
  define h' where "h' = h(p := (h p)\<lparr>pkg_status_want := w\<rparr>)"
  define v where "v = (if q = p then w else pkg_status_want (h q))"
  have name: "pkg_package (h' r) = pkg_package (h r)" for r by (simp add: h'_def)
  have x: "h' q = (h q)\<lparr>pkg_status_want := v\<rparr>" by (simp add: h'_def v_def)
  show ?thesis unfolding h'_def [symmetric] initial_want_def name x by (simp add: Let_def)
qed

text \<open>
  The wanted states that the first loop sets for packages that enhance installed ones do not
  survive the second loop.
\<close>

lemma set_initial_fold:
  "distinct l \<Longrightarrow> p \<in> set l \<Longrightarrow>
   pkg_status_want (heap (fold (\<lambda>p ps. set_want (initial_want env status (heap ps) p) p ps) l ps) p) =
   initial_want env status (heap ps) p"
proof (induction l arbitrary: ps rule: rev_induct)
  case (snoc q l)
  define ps1 where "ps1 = fold (\<lambda>p ps. set_want (initial_want env status (heap ps) p) p ps) l ps"
  have same: "initial_want env status (heap (fold (\<lambda>p ps. set_want (initial_want env status (heap ps) p) p ps) l ps)) r =
      initial_want env status (heap ps) r" for l r
    by (induction l arbitrary: ps) (auto simp: initial_want_update)
  show ?case
  proof (cases "p = q")
    case True
    then show ?thesis by (simp add: same)
  next
    case False
    with snoc show ?thesis by simp
  qed
qed simp

lemma enhances_mark_lost:
  assumes "distinct (pkg_list ps)" "p \<in> set (pkg_list ps)"
  shows "pkg_status_want (heap (set_initial env status (set_want w q ps)) p) =
    pkg_status_want (heap (set_initial env status ps) p)"
  using assms by (simp add: set_initial_def set_initial_fold initial_want_update)

subsection \<open>Installation\<close>

definition unpacked :: "anna_action list \<Rightarrow> pkg_ptr list" where
  "unpacked acts = concat (map (\<lambda>a. case a of Unpack p True \<Rightarrow> [p] | _ \<Rightarrow> []) acts)"

definition configured :: "anna_action list \<Rightarrow> pkg_ptr list" where
  "configured acts = concat (map (\<lambda>a. case a of Configure p True \<Rightarrow> [p] | _ \<Rightarrow> []) acts)"

text \<open>
  A package is unpacked only right after the check of its own file, and only when the sum
  agrees. \<open>prev\<close> is the action before.
\<close>

fun checked :: "pkg_heap \<Rightarrow> anna_action option \<Rightarrow> anna_action list \<Rightarrow> bool" where
  "checked h prev [] = True"
| "checked h prev (a # as) =
     ((case a of
         Unpack p b \<Rightarrow> (case prev of Some (Verify q line) \<Rightarrow> q = p \<and> sha256sum (pkg_sha256 (h p)) line | _ \<Rightarrow> False)
       | _ \<Rightarrow> True) \<and> checked h (Some a) as)"

abbreviation no_configure :: "anna_action list \<Rightarrow> bool" where
  "no_configure as \<equiv> \<forall>p b. Configure p b \<notin> set as"

abbreviation no_unpack :: "anna_action list \<Rightarrow> bool" where
  "no_unpack as \<equiv> \<forall>p b. Unpack p b \<notin> set as"

lemma unpacked_simps [simp]:
  "unpacked [] = []" "unpacked (as @ bs) = unpacked as @ unpacked bs"
  "unpacked (a # as) = (case a of Unpack p True \<Rightarrow> [p] | _ \<Rightarrow> []) @ unpacked as"
  by (simp_all add: unpacked_def)

lemma configured_simps [simp]:
  "configured [] = []" "configured (as @ bs) = configured as @ configured bs"
  "configured (a # as) = (case a of Configure p True \<Rightarrow> [p] | _ \<Rightarrow> []) @ configured as"
  by (simp_all add: configured_def)

lemma unpacked_in: "p \<in> set (unpacked as) \<longleftrightarrow> Unpack p True \<in> set as"
  by (induction as) (auto split: anna_action.splits bool.splits)

lemma no_unpack_unpacked: "no_unpack as \<Longrightarrow> unpacked as = []"
  by (induction as) (auto split: anna_action.splits bool.splits)

lemma checked_append:
  "checked h prev (as @ bs) \<longleftrightarrow> checked h prev as \<and> checked h (if as = [] then prev else Some (last as)) bs"
  by (induction as arbitrary: prev) auto

lemma checked_no_unpack: "no_unpack as \<Longrightarrow> checked h prev as"
  by (induction as arbitrary: prev) (auto split: anna_action.splits)

lemma act_simps [simp]:
  "actions (act as s) = actions s @ as" "attempts (act as s) = attempts s" "progress_step (act as s) = progress_step s"
  by (simp_all add: act_def)

text \<open>The retrieval loop ends in a checked file or in an error.\<close>

lemma retrieve_loop_actions:
  "retrieve_loop quiet sm p ats s = Some (r, s') \<Longrightarrow>
   \<exists>as. actions s' = actions s @ as \<and> no_unpack as \<and> no_configure as \<and> progress_step s' = progress_step s \<and>
     (r = 0 \<longrightarrow> as \<noteq> [] \<and> (\<exists>line. last as = Verify p line \<and> sha256sum sm line)) \<and> r \<in> {0, 6, 7}"
proof (induction quiet sm p ats s arbitrary: r s' rule: retrieve_loop.induct [case_names Nil Failed Got])
  case (Failed quiet sm p handled as s)
  show ?case
  proof (cases handled)
    case False
    with Failed.prems show ?thesis by (auto simp: Let_def)
  next
    case True
    let ?pre = "Retrieve p # (if quiet then [] else [ProgressStop, ProgressResume (progress_step s)])"
    from Failed.IH [OF refl] Failed.prems True obtain bs where
      "actions s' = actions s @ ?pre @ bs \<and> no_unpack bs \<and> no_configure bs \<and> progress_step s' = progress_step s \<and>
        (r = 0 \<longrightarrow> bs \<noteq> [] \<and> (\<exists>line. last bs = Verify p line \<and> sha256sum sm line)) \<and> r \<in> {0, 6, 7}"
      by (fastforce simp: Let_def split: if_splits)
    then show ?thesis by (intro exI [of _ "?pre @ bs"]) auto
  qed
next
  case (Got quiet sm p line handled as s)
  let ?pre = "[Retrieve p, Verify p line] @ (if quiet then [] else [ProgressStop])"
  show ?case
  proof (cases "sha256sum sm line \<or> \<not> handled")
    case True
    with Got.prems show ?thesis by (cases "sha256sum sm line") (auto simp: Let_def split: if_splits)
  next
    case False
    let ?pre' = "?pre @ (if quiet then [] else [ProgressResume (progress_step s)])"
    from Got.IH [OF refl _ refl] Got.prems False obtain bs where
      "actions s' = actions s @ ?pre' @ bs \<and> no_unpack bs \<and> no_configure bs \<and> progress_step s' = progress_step s \<and>
        (r = 0 \<longrightarrow> bs \<noteq> [] \<and> (\<exists>line. last bs = Verify p line \<and> sha256sum sm line)) \<and> r \<in> {0, 6, 7}"
      by (fastforce simp: Let_def split: if_splits)
    then show ?thesis by (intro exI [of _ "?pre' @ bs"]) auto
  qed
qed simp

abbreviation to_unpack :: "pkg_heap \<Rightarrow> pkg_ptr \<Rightarrow> bool" where
  "to_unpack h p \<equiv> selected h p \<and> pkg_filename (h p) \<noteq> None"

abbreviation to_configure :: "pkg_heap \<Rightarrow> pkg_ptr \<Rightarrow> bool" where
  "to_configure h p \<equiv> to_unpack h p \<and> installer_menu_item (h p) = 0"

lemma unpack_pass_actions:
  "unpack_pass quiet h unpack ps s = Inr (r, s') \<Longrightarrow>
   \<exists>as. actions s' = actions s @ as \<and> no_configure as \<and> (\<forall>prev. checked h prev as) \<and>
     (r = 0 \<longrightarrow> unpacked as = filter (to_unpack h) ps) \<and>
     progress_step s' \<le> progress_step s + length (filter (to_unpack h) ps)"
proof (induction quiet h unpack ps s arbitrary: r s' rule: unpack_pass.induct [case_names Nil Cons])
  case (Cons quiet h unpack p ps s)
  show ?case
  proof (cases "to_unpack h p")
    case False
    with Cons show ?thesis by (cases "selected h p") auto
  next
    case True
    then obtain filename where sel: "selected h p" and fn: "pkg_filename (h p) = Some filename" by auto
    obtain dest where dest: "dest_name filename filename = Some dest"
      using Cons.prems sel fn by (auto split: option.splits)
    obtain r1 s1 where ret: "retrieve_loop quiet (pkg_sha256 (h p)) p (attempts s) s = Some (r1, s1)"
      using Cons.prems sel fn dest by (auto split: option.splits)
    obtain as where as: "actions s1 = actions s @ as" "no_unpack as" "no_configure as" "progress_step s1 = progress_step s"
      "r1 = 0 \<longrightarrow> as \<noteq> [] \<and> (\<exists>line. last as = Verify p line \<and> sha256sum (pkg_sha256 (h p)) line)"
      using retrieve_loop_actions [OF ret] by (elim exE conjE) (rule that)
    show ?thesis
    proof (cases "r1 = 0")
      case False
      then have "r = r1" "s' = s1" using Cons.prems sel fn dest ret by auto
      with as False show ?thesis by (intro exI [of _ as]) (auto simp: checked_no_unpack)
    next
      case r1: True
      have chk: "checked h prev (as @ Unpack p b # bs)" if "\<And>q. checked h q bs" for prev b bs
        using as(2,5) r1 that by (auto simp: checked_append checked_no_unpack)
      show ?thesis
      proof (cases "unpack p")
        case False
        then have "r = 8" "s' = act (Unpack p False # (if quiet then [] else [ProgressStop])) s1"
          using Cons.prems sel fn dest ret r1 by auto
        then show ?thesis
          by (intro exI [of _ "as @ Unpack p False # (if quiet then [] else [ProgressStop])"]) (use as chk in auto)
      next
        case True
        let ?s2 = "step_done quiet (act [Unpack p True] s1)"
        have "unpack_pass quiet h unpack ps ?s2 = Inr (r, s')" using Cons.prems sel fn dest ret r1 True by simp
        with Cons.IH(3) [of filename dest "(r1, s1)" r1 s1] sel fn dest ret r1 True
        obtain bs where bs: "actions s' = actions ?s2 @ bs" "no_configure bs" "\<forall>prev. checked h prev bs"
          "r = 0 \<longrightarrow> unpacked bs = filter (to_unpack h) ps"
          "progress_step s' \<le> progress_step ?s2 + length (filter (to_unpack h) ps)" by auto
        have "progress_step ?s2 \<le> Suc (progress_step s1)" by (simp add: step_done_def)
        then show ?thesis
          by (intro exI [of _ "as @ Unpack p True # (if quiet then [] else [ProgressStep]) @ bs"])
            (use as bs sel fn chk [of "(if quiet then [] else [ProgressStep]) @ bs" _ True] in
              \<open>auto simp: step_done_def no_unpack_unpacked checked_append\<close>)
      qed
    qed
  qed
qed auto

lemma configure_pass_actions:
  "configure_pass quiet h configure ps s = (r, s') \<Longrightarrow>
   \<exists>as. actions s' = actions s @ as \<and> no_unpack as \<and> (\<forall>p b. Configure p b \<in> set as \<longrightarrow> p \<in> set ps \<and> to_configure h p) \<and>
     (r = 0 \<longrightarrow> configured as = filter (to_configure h) ps) \<and>
     progress_step s' \<le> progress_step s + length (filter (to_configure h) ps)"
proof (induction quiet h configure ps s arbitrary: r s' rule: configure_pass.induct [case_names Nil Cons])
  case (Cons quiet h configure p ps s)
  show ?case
  proof (cases "to_configure h p")
    case False
    then have skip: "\<not> selected h p \<or> pkg_filename (h p) = None \<or> installer_menu_item (h p) \<noteq> 0" by auto
    then have "configure_pass quiet h configure ps s = (r, s')" using Cons.prems by simp
    from Cons.IH(1) [OF skip this] False show ?thesis by fastforce
  next
    case True
    then have go: "\<not> (\<not> selected h p \<or> pkg_filename (h p) = None \<or> installer_menu_item (h p) \<noteq> 0)" by auto
    show ?thesis
    proof (cases "configure p")
      case False
      then have "r = 8" "s' = act (Configure p False # (if quiet then [] else [ProgressStop])) s"
        using Cons.prems go by auto
      then show ?thesis
        by (intro exI [of _ "Configure p False # (if quiet then [] else [ProgressStop])"]) (use True in auto)
    next
      case conf: True
      let ?s2 = "step_done quiet (act [Configure p True] s)"
      have "configure_pass quiet h configure ps ?s2 = (r, s')" using Cons.prems go conf by auto
      with Cons.IH(2) [OF go] conf obtain bs where bs: "actions s' = actions ?s2 @ bs" "no_unpack bs"
        "\<forall>p b. Configure p b \<in> set bs \<longrightarrow> p \<in> set ps \<and> to_configure h p"
        "r = 0 \<longrightarrow> configured bs = filter (to_configure h) ps"
        "progress_step s' \<le> progress_step ?s2 + length (filter (to_configure h) ps)" by auto
      then show ?thesis
        by (intro exI [of _ "Configure p True # (if quiet then [] else [ProgressStep]) @ bs"])
          (use True in \<open>auto simp: step_done_def split: if_splits\<close>)
    qed
  qed
qed auto

lemma install_run_cases:
  assumes run: "install_run quiet unpack configure packages ats = Inr (r, s)"
  defines "h \<equiv> heap packages" and "l \<equiv> pkg_list packages"
  shows "\<exists>us cs. actions s = us @ cs \<and> checked h None us \<and> no_configure us \<and> no_unpack cs \<and>
      (\<forall>p b. Configure p b \<in> set cs \<longrightarrow> Unpack p True \<in> set us) \<and>
      (r = 0 \<longrightarrow> unpacked us = filter (to_unpack h) l \<and> configured cs = filter (to_configure h) l)"
    and "progress_step s \<le> length (filter (to_unpack h) l) + length (filter (to_configure h) l)"
proof -
  let ?s0 = "\<lparr>attempts = ats, actions = [], progress_step = 0\<rparr>"
  let ?start = "if quiet then [] else [ProgressStart (step_count packages + conf_count packages)]"
  have "(\<exists>us cs. actions s = us @ cs \<and> checked h None us \<and> no_configure us \<and> no_unpack cs \<and>
      (\<forall>p b. Configure p b \<in> set cs \<longrightarrow> Unpack p True \<in> set us) \<and>
      (r = 0 \<longrightarrow> unpacked us = filter (to_unpack h) l \<and> configured cs = filter (to_configure h) l)) \<and>
      progress_step s \<le> length (filter (to_unpack h) l) + length (filter (to_configure h) l)"
  proof (cases "step_count packages = 0")
    case True
    then have "filter (selected h) l = []" by (simp add: step_count_def h_def l_def)
    then have "\<not> selected h p" if "p \<in> set l" for p using that by (auto simp: filter_empty_conv)
    then have "filter (to_unpack h) l = []" "filter (to_configure h) l = []" by (auto simp: filter_empty_conv)
    with run True show ?thesis by (auto simp: install_run_def)
  next
    case False
    obtain r1 s1 where u: "unpack_pass quiet h unpack l (act ?start ?s0) = Inr (r1, s1)"
      using run False by (auto simp: install_run_def h_def l_def Let_def split: sum.splits)
    obtain as where as: "actions s1 = ?start @ as" "no_configure as" "\<forall>prev. checked h prev as"
      "r1 = 0 \<longrightarrow> unpacked as = filter (to_unpack h) l" "progress_step s1 \<le> length (filter (to_unpack h) l)"
      using unpack_pass_actions [OF u] by auto
    have us: "checked h None (?start @ as)" "no_configure (?start @ as)" "unpacked (?start @ as) = unpacked as"
      using as(2,3) by auto
    show ?thesis
    proof (cases "r1 = 0")
      case False
      then have "r = r1" "s = s1" using run u \<open>step_count packages \<noteq> 0\<close> by (auto simp: install_run_def h_def l_def Let_def)
      with as us False show ?thesis by (intro conjI exI [of _ "?start @ as"] exI [of _ "[]"]) auto
    next
      case True
      obtain r2 s2 where c: "configure_pass quiet h configure l s1 = (r2, s2)" by fastforce
      obtain bs where bs: "actions s2 = actions s1 @ bs" "no_unpack bs"
        "\<forall>p b. Configure p b \<in> set bs \<longrightarrow> p \<in> set l \<and> to_configure h p"
        "r2 = 0 \<longrightarrow> configured bs = filter (to_configure h) l"
        "progress_step s2 \<le> progress_step s1 + length (filter (to_configure h) l)"
        using configure_pass_actions [OF c] by (elim exE conjE) (rule that)
      have "set (unpacked as) = {p \<in> set l. to_unpack h p}" using as(4) True by auto
      then have conf: "Unpack p True \<in> set as" if "Configure p b \<in> set bs" for p b
        using bs(3) that unpacked_in [of p as] by auto
      have res: "r = r2" "s = (if r2 \<noteq> 0 then s2 else act (if quiet then [] else [ProgressStop]) s2)"
        using run u c True \<open>step_count packages \<noteq> 0\<close> by (auto simp: install_run_def h_def l_def Let_def split: if_splits)
      show ?thesis
        by (intro conjI exI [of _ "?start @ as"] exI [of _ "bs @ (if r2 \<noteq> 0 \<or> quiet then [] else [ProgressStop])"])
          (use as bs us True conf res in auto)
    qed
  qed
  then show "\<exists>us cs. actions s = us @ cs \<and> checked h None us \<and> no_configure us \<and> no_unpack cs \<and>
      (\<forall>p b. Configure p b \<in> set cs \<longrightarrow> Unpack p True \<in> set us) \<and>
      (r = 0 \<longrightarrow> unpacked us = filter (to_unpack h) l \<and> configured cs = filter (to_configure h) l)"
    "progress_step s \<le> length (filter (to_unpack h) l) + length (filter (to_configure h) l)" by blast+
qed


abbreviation wanted_package :: "string \<Rightarrow> int \<Rightarrow> di_system_package" where
  "wanted_package f item \<equiv> zero_package\<lparr>pkg_type := di_package_type_real_package, pkg_filename := Some f,
     pkg_status_want := di_package_status_want_install, installer_menu_item := item\<rparr>"

abbreviation example_wanted :: di_packages where
  "example_wanted \<equiv> (di_packages_alloc ((\<lambda>_. zero_package)(1 := wanted_package ''p/a.udeb'' 0, 2 := wanted_package ''b.udeb'' 5)) 3)
     \<lparr>pkg_list := [1, 2]\<rparr>"

lemma example_wanted_run:
  "install_run True (\<lambda>_. True) (\<lambda>_. True) example_wanted [RetrieveFailed True, Retrieved None False, Retrieved None False] =
   Inr (0, \<lparr>attempts = [], actions = [Retrieve 1, Retrieve 1, Verify 1 None, Unpack 1 True, Retrieve 2, Verify 2 None,
     Unpack 2 True, Configure 1 True], progress_step = 0\<rparr>)"
  by (simp add: install_run_def step_count_def selected_def di_packages_alloc_def zero_package_def Let_def act_def
      sha256sum_def step_done_def)


text \<open>
  The progress bar of an installation run never passes the number of steps
  announced at its start.
\<close>

theorem install_progress_bounded:
  assumes "install_run quiet unpack configure packages ats = Inr (r, s)"
  shows "progress_step s \<le> step_count packages + conf_count packages"
proof -
  let ?h = "heap packages" and ?l = "pkg_list packages"
  have "length (filter (to_unpack ?h) l) \<le> length (filter (selected ?h) l)" for l
    by (induction l) auto
  moreover have "length (filter (to_configure ?h) l) \<le>
      length (filter (\<lambda>p. selected ?h p \<and> installer_menu_item (?h p) = 0) l)" for l
    by (induction l) auto
  ultimately show ?thesis
    using install_run_cases(2) [OF assms] unfolding step_count_def conf_count_def by (meson add_mono le_trans)
qed

lemma example_wanted_progress:
  "install_run False (\<lambda>_. True) (\<lambda>_. True) example_wanted [Retrieved None False, Retrieved None False] =
   Inr (0, \<lparr>attempts = [], actions = [ProgressStart 3, Retrieve 1, Verify 1 None, Unpack 1 True, ProgressStep,
     Retrieve 2, Verify 2 None, Unpack 2 True, ProgressStep, Configure 1 True, ProgressStep, ProgressStop],
     progress_step = 3\<rparr>)"
  by (simp add: install_run_def step_count_def conf_count_def selected_def di_packages_alloc_def zero_package_def
      Let_def act_def sha256sum_def step_done_def)

theorem install_progress_bounded_witness:
  "(3::nat) \<le> step_count example_wanted + conf_count example_wanted \<and> step_count example_wanted = 2"
  using install_progress_bounded [OF example_wanted_progress]
  by (simp add: step_count_def selected_def di_packages_alloc_def)

end
