(* ===== verification/DI_StatusFile.thy ===== *)
theory DI_StatusFile
  imports DI_PackageParser
begin

text \<open>
  Reading back the status file: the container that \<open>di_packages_special_read_file\<close> builds
  from the text of \<open>di_packages_special_write_file\<close> holds the packages that were written,
  field by field, and what that takes of the packages.
\<close>

subsection \<open>The container while a file is read\<close>

definition written_types :: "di_package_dependency_type set" where
  "written_types = - {di_package_dependency_type_reverse_provides, di_package_dependency_type_reverse_enhances}"

text \<open>Package names as Debian has them: lower case, no blanks, no separators.\<close>

definition valid_name :: "string \<Rightarrow> bool" where
  "valid_name n \<longleftrightarrow> n \<noteq> [] \<and>
     (\<forall>c \<in> set n. c \<noteq> NUL \<and> c_tolower c = c \<and> \<not> c_isspace c \<and> c \<notin> set name_end)"

text \<open>A package without its list of dependencies.\<close>

definition bare :: "di_system_package \<Rightarrow> di_system_package" where
  "bare x = x\<lparr>pkg_depends := []\<rparr>"

text \<open>
  A package that was only mentioned by others so far: apart from its name, type, priority and
  reverse dependencies it is as it was allocated.
\<close>

definition mentioned :: "di_system_package \<Rightarrow> bool" where
  "mentioned x \<longleftrightarrow> pkg_type x \<noteq> di_package_type_real_package \<and>
     x\<lparr>pkg_package := [], pkg_type := di_package_type_non_existent,
       pkg_priority := di_package_priority_unspecified, pkg_depends := []\<rparr> = zero_package \<and>
     (\<forall>d \<in> set (pkg_depends x). dep_type d \<notin> written_types)"

definition store_ok :: "di_packages \<Rightarrow> bool" where
  "store_ok s \<longleftrightarrow> packages_ok s \<and>
     (\<forall>p \<in> members s. valid_name (pkg_package (heap s p)) \<and>
        (\<forall>d \<in> set (pkg_depends (heap s p)). dep_ptr d \<in> members s) \<and>
        (if p \<in> set (pkg_list s) then pkg_type (heap s p) = di_package_type_real_package
         else mentioned (heap s p)))"

lemma valid_name_nul_free: "valid_name n \<Longrightarrow> nul_free n"
  by (auto simp: valid_name_def nul_free_def)

lemma valid_name_lower: "valid_name n \<Longrightarrow> map c_tolower n = n"
  by (auto simp: valid_name_def intro: map_idI)

lemma get_package_new_prefix:
  assumes "n \<noteq> []"
  shows "di_packages_get_package_new s (n @ r) (length n) = di_packages_get_package_new s n (length n)"
proof -
  have "di_stradup (n @ r) (length n) = di_stradup n (length n)" by (simp add: di_stradup_def)
  moreover have "di_packages_get_package s (n @ r) (length n) = di_packages_get_package s n (length n)"
    using assms by (simp add: di_packages_get_package_def)
  ultimately show ?thesis by (simp only: di_packages_get_package_new_def)
qed

lemma store_okD:
  assumes "store_ok s"
  shows "packages_ok s" "p \<in> members s \<Longrightarrow> valid_name (pkg_package (heap s p))"
    "p \<in> members s \<Longrightarrow> d \<in> set (pkg_depends (heap s p)) \<Longrightarrow> dep_ptr d \<in> members s"
    "p \<in> members s \<Longrightarrow> p \<in> set (pkg_list s) \<Longrightarrow> pkg_type (heap s p) = di_package_type_real_package"
    "p \<in> members s \<Longrightarrow> p \<notin> set (pkg_list s) \<Longrightarrow> mentioned (heap s p)"
    "p \<in> set (pkg_list s) \<Longrightarrow> p \<in> members s"
  using assms by (auto simp: store_ok_def packages_ok_def members_def)

lemma mentioned_new: "mentioned (zero_package\<lparr>pkg_package := n\<rparr>)"
  by (simp add: mentioned_def zero_package_def)

lemma get_package_new_store:
  assumes ok: "store_ok s" and n: "valid_name n"
    and g: "di_packages_get_package_new s n (length n) = (x, s')"
  shows "store_ok s'" "x \<in> members s'" "pkg_package (heap s' x) = n"
    "members s \<subseteq> members s'" "\<forall>p \<in> members s. heap s' p = heap s p" "pkg_list s' = pkg_list s"
proof -
  have ne: "n \<noteq> []" using n by (simp add: valid_name_def)
  have facts: "packages_ok s'" "x \<in> members s'" "map c_tolower (pkg_package (heap s' x)) = map c_tolower n"
    "\<forall>p \<in> members s. heap s' p = heap s p" "pkg_list s' = pkg_list s" "members s' = insert x (members s)"
    "x \<in> members s \<or> heap s' x = zero_package\<lparr>pkg_package := n\<rparr>"
    using get_package_new_lemma [OF store_okD(1) [OF ok] valid_name_nul_free [OF n] ne] unfolding g by auto
  show "x \<in> members s'" "members s \<subseteq> members s'" "\<forall>p \<in> members s. heap s' p = heap s p"
    "pkg_list s' = pkg_list s" using facts by auto
  show name: "pkg_package (heap s' x) = n"
  proof (cases "x \<in> members s")
    case True
    then have "valid_name (pkg_package (heap s' x))" using facts(4) store_okD(2) [OF ok, of x] by simp
    then show ?thesis using facts(3) valid_name_lower n by metis
  next
    case False
    then have "heap s' x = zero_package\<lparr>pkg_package := n\<rparr>" using facts(7) by blast
    then show ?thesis by simp
  qed
  have "valid_name (pkg_package (heap s' p)) \<and> (\<forall>d \<in> set (pkg_depends (heap s' p)). dep_ptr d \<in> members s') \<and>
      (if p \<in> set (pkg_list s') then pkg_type (heap s' p) = di_package_type_real_package
       else mentioned (heap s' p))" if "p \<in> members s'" for p
  proof (cases "p \<in> members s")
    case True
    with facts ok show ?thesis by (auto simp: store_ok_def)
  next
    case False
    with that facts have "p = x" "heap s' p = zero_package\<lparr>pkg_package := n\<rparr>" "p \<notin> set (pkg_list s')"
      using store_okD(6) [OF ok, of p] by auto
    with n show ?thesis by (simp add: mentioned_new) (simp add: zero_package_def)
  qed
  with facts(1) show "store_ok s'" by (simp add: store_ok_def)
qed

text \<open>
  What reading a field does for the package \<open>q\<close>: a function \<open>F\<close> of its attributes, and the
  names \<open>ns\<close> appended to its dependencies of type \<open>ty\<close>. The other packages of the list keep
  what is written of them.
\<close>

definition evolves ::
  "pkg_ptr \<Rightarrow> (di_system_package \<Rightarrow> di_system_package) \<Rightarrow> (di_package_dependency_type \<Rightarrow> string list) \<Rightarrow>
   di_packages \<Rightarrow> di_packages \<Rightarrow> bool" where
  "evolves q F G s s' \<longleftrightarrow> store_ok s' \<and> pkg_list s' = pkg_list s \<and>
     bare (heap s' q) = F (bare (heap s q)) \<and>
     (\<forall>ty \<in> written_types. dependency_names ty (heap s') q = dependency_names ty (heap s) q @ G ty) \<and>
     (\<forall>p \<in> set (pkg_list s) - {q}. bare (heap s' p) = bare (heap s p) \<and>
        (\<forall>ty \<in> written_types. dependency_names ty (heap s') p = dependency_names ty (heap s) p))"

lemma evolves_refl: "store_ok s \<Longrightarrow> evolves q (\<lambda>x. x) (\<lambda>_. []) s s"
  by (simp add: evolves_def)

lemma evolves_trans:
  "evolves q F G s s1 \<Longrightarrow> evolves q F' G' s1 s2 \<Longrightarrow>
   evolves q (\<lambda>x. F' (F x)) (\<lambda>ty. G ty @ G' ty) s s2"
  by (simp add: evolves_def)

lemma dependency_names_upd:
  assumes "pkg_package (f (heap s p)) = pkg_package (heap s p)"
  shows "dependency_names ty (heap (upd_pkg p f s)) r =
    map (\<lambda>d. pkg_package (heap s (dep_ptr d)))
      (filter (\<lambda>d. dep_type d = ty) (pkg_depends (if r = p then f (heap s p) else heap s r)))"
  using assms by (auto simp: dependency_names_def)

lemma store_ok_upd:
  assumes ok: "store_ok s" and p: "p \<in> members s"
    and name: "pkg_package (f (heap s p)) = pkg_package (heap s p)"
    and deps: "\<forall>d \<in> set (pkg_depends (f (heap s p))). dep_ptr d \<in> members s"
    and type: "if p \<in> set (pkg_list s) then pkg_type (f (heap s p)) = di_package_type_real_package
       else mentioned (f (heap s p))"
  shows "store_ok (upd_pkg p f s)"
  using ok packages_ok_upd [where f = f, OF store_okD(1) [OF ok] name] p name deps type
  by (auto simp: store_ok_def)

lemma evolves_attr:
  assumes ok: "store_ok s" and q: "q \<in> set (pkg_list s)"
    and f: "\<And>x. bare (f x) = F (bare x)" "\<And>x. pkg_depends (f x) = pkg_depends x"
      "\<And>x. pkg_package (f x) = pkg_package x" "\<And>x. pkg_type (f x) = pkg_type x"
  shows "evolves q F (\<lambda>_. []) s (upd_pkg q f s)"
proof -
  have "store_ok (upd_pkg q f s)"
    using store_okD(3,4,6) [OF ok, of q] q f by (intro store_ok_upd [OF ok]) auto
  then show ?thesis using f by (auto simp: evolves_def dependency_names_upd) (auto simp: dependency_names_def)
qed

lemma evolves_depend:
  assumes ok: "store_ok s" and q: "q \<in> set (pkg_list s)" and x: "x \<in> members s"
  shows "evolves q (\<lambda>x. x) (\<lambda>t. if t = ty then [pkg_package (heap s x)] else []) s
    (upd_pkg q (\<lambda>p. p\<lparr>pkg_depends := pkg_depends p @ [\<lparr>dep_type = ty, dep_ptr = x\<rparr>]\<rparr>) s)"
    (is "evolves _ _ _ _ (upd_pkg _ ?f _)")
proof -
  have "store_ok (upd_pkg q ?f s)"
    using store_okD(3,4,6) [OF ok, of q] q x by (intro store_ok_upd [OF ok]) auto
  then show ?thesis by (auto simp: evolves_def dependency_names_upd bare_def) (auto simp: dependency_names_def)
qed

lemma evolves_reverse:
  assumes ok: "store_ok s" and q: "q \<in> members s" and x: "x \<in> members s" and ty: "ty \<notin> written_types"
  shows "evolves q (\<lambda>x. x) (\<lambda>_. []) s
    (upd_pkg x (\<lambda>p. p\<lparr>pkg_depends := pkg_depends p @ [\<lparr>dep_type = ty, dep_ptr = q\<rparr>]\<rparr>) s)"
    (is "evolves _ _ _ _ (upd_pkg _ ?f _)")
proof -
  have "store_ok (upd_pkg x ?f s)"
    using store_okD [OF ok] q x ty by (intro store_ok_upd [OF ok]) (auto simp: mentioned_def)
  then show ?thesis using ty
    by (auto simp: evolves_def dependency_names_upd bare_def) (auto simp: dependency_names_def)
qed

lemma evolves_mentioned:
  assumes ok: "store_ok s" and q: "q \<in> set (pkg_list s)" and x: "x \<in> members s" "x \<notin> set (pkg_list s)"
    and f: "mentioned (f (heap s x))" "pkg_package (f (heap s x)) = pkg_package (heap s x)"
      "pkg_depends (f (heap s x)) = pkg_depends (heap s x)"
  shows "evolves q (\<lambda>x. x) (\<lambda>_. []) s (upd_pkg x f s)"
proof -
  have "store_ok (upd_pkg x f s)"
    using store_okD [OF ok] x f by (intro store_ok_upd [OF ok]) auto
  then show ?thesis using f x q
    by (auto simp: evolves_def dependency_names_upd) (auto simp: dependency_names_def)
qed

lemma evolves_get_package_new:
  assumes ok: "store_ok s" and n: "valid_name n" and q: "q \<in> set (pkg_list s)"
    and g: "di_packages_get_package_new s n (length n) = (x, s')"
  shows "evolves q (\<lambda>x. x) (\<lambda>_. []) s s'"
proof -
  note new = get_package_new_store [OF ok n g]
  have "dependency_names ty (heap s') p = dependency_names ty (heap s) p" if "p \<in> members s" for p ty
    using new(5) that store_okD(3) [OF ok that] by (simp add: dependency_names_def)
  then show ?thesis using new store_okD(6) [OF ok] q by (auto simp: evolves_def)
qed

text \<open>A package that is provided and is not in the list becomes a virtual one.\<close>

lemma evolves_provided:
  fixes prio :: di_package_priority
  assumes ok: "store_ok s" and q: "q \<in> set (pkg_list s)" and x: "x \<in> members s"
  defines "s1 \<equiv> (if pkg_type (heap s x) = di_package_type_non_existent
    then upd_pkg x (\<lambda>p. p\<lparr>pkg_type := di_package_type_virtual_package\<rparr>) s else s)"
  defines "s2 \<equiv> (if pkg_type (heap s1 x) = di_package_type_virtual_package \<and> pkg_priority (heap s1 x) < prio
    then upd_pkg x (\<lambda>p. p\<lparr>pkg_priority := prio\<rparr>) s1 else s1)"
  shows "evolves q (\<lambda>x. x) (\<lambda>_. []) s s2 \<and> members s2 = members s"
proof -
  have unlisted: "x \<notin> set (pkg_list s)" "mentioned (heap s x)"
    if "pkg_type (heap s x) = di_package_type_non_existent \<or> pkg_type (heap s x) = di_package_type_virtual_package"
    using that store_okD(4,5) [OF ok x] by (cases "x \<in> set (pkg_list s)"; auto)+
  have e1: "evolves q (\<lambda>x. x) (\<lambda>_. []) s s1"
    using unlisted by (auto simp: s1_def mentioned_def evolves_refl [OF ok] intro!: evolves_mentioned [OF ok q x])
  then have ok1: "store_ok s1" and l1: "pkg_list s1 = pkg_list s" by (auto simp: evolves_def)
  have m1: "members s1 = members s" by (simp add: s1_def)
  have "evolves q (\<lambda>x. x) (\<lambda>_. []) s1 s2"
  proof (cases "pkg_type (heap s1 x) = di_package_type_virtual_package \<and> pkg_priority (heap s1 x) < prio")
    case True
    then have "x \<notin> set (pkg_list s1)" "mentioned (heap s1 x)"
      using store_okD(4,5) [OF ok1, of x] x m1 by (cases "x \<in> set (pkg_list s1)"; auto)+
    with True q x l1 m1 show ?thesis
      by (auto simp: s2_def mentioned_def intro!: evolves_mentioned [OF ok1])
  next
    case False
    with evolves_refl [OF ok1] show ?thesis by (auto simp: s2_def)
  qed
  from evolves_trans [OF e1 this] show ?thesis by (simp add: m1 s2_def)
qed

lemma read_dependency_one_evolves:
  assumes ok: "store_ok s" and q: "q \<in> set (pkg_list s)" and n: "valid_name n" and ty: "ty \<in> written_types"
  shows "evolves q (\<lambda>x. x) (\<lambda>t. if t = ty then [n] else []) s (read_dependency_one ty q n (length n) s)"
proof -
  obtain x s1 where g: "di_packages_get_package_new s n (length n) = (x, s1)" by fastforce
  note new = get_package_new_store [OF ok n g]
  define s2 where "s2 = upd_pkg q (\<lambda>p. p\<lparr>pkg_depends := pkg_depends p @ [\<lparr>dep_type = ty, dep_ptr = x\<rparr>]\<rparr>) s1"
  have e2: "evolves q (\<lambda>x. x) (\<lambda>t. if t = ty then [n] else []) s s2"
    using evolves_trans [OF evolves_get_package_new [OF ok n q g] evolves_depend [OF new(1) _ new(2), of q ty]]
      new(3,6) q by (simp add: s2_def cong: if_cong)
  then have ok2: "store_ok s2" and q2: "q \<in> set (pkg_list s2)" using q by (auto simp: evolves_def)
  have x2: "x \<in> members s2" and qm: "q \<in> members s2" using new(2) store_okD(6) [OF ok2 q2] by (simp_all add: s2_def)
  show ?thesis
  proof (cases "ty = di_package_dependency_type_provides \<or> ty = di_package_dependency_type_enhances")
    case False
    then have "read_dependency_one ty q n (length n) s = s2"
      by (simp add: read_dependency_one_def g s2_def Let_def)
    with e2 show ?thesis by simp
  next
    case True
    define prio where "prio = pkg_priority (heap s2 q)"
    define s3 where "s3 = (if pkg_type (heap s2 x) = di_package_type_non_existent
      then upd_pkg x (\<lambda>p. p\<lparr>pkg_type := di_package_type_virtual_package\<rparr>) s2 else s2)"
    define s4 where "s4 = (if pkg_type (heap s3 x) = di_package_type_virtual_package \<and> pkg_priority (heap s3 x) < prio
      then upd_pkg x (\<lambda>p. p\<lparr>pkg_priority := prio\<rparr>) s3 else s3)"
    define rty where "rty = (if ty = di_package_dependency_type_provides
      then di_package_dependency_type_reverse_provides else di_package_dependency_type_reverse_enhances)"
    have e4: "evolves q (\<lambda>x. x) (\<lambda>_. []) s2 s4" and m4: "members s4 = members s2"
      using evolves_provided [OF ok2 q2 x2, of prio] unfolding s4_def s3_def by blast+
    then have ok4: "store_ok s4" by (simp add: evolves_def)
    have prio: "pkg_priority (heap s3 q) = prio" by (simp add: s3_def prio_def)
    have "read_dependency_one ty q n (length n) s =
        upd_pkg x (\<lambda>p. p\<lparr>pkg_depends := pkg_depends p @ [\<lparr>dep_type = rty, dep_ptr = q\<rparr>]\<rparr>) s4"
      by (simp only: read_dependency_one_def g prod.case Let_def True if_True s2_def [symmetric]
          s3_def [symmetric] prio s4_def [symmetric] rty_def [symmetric])
    moreover have "rty \<notin> written_types" by (simp add: rty_def written_types_def)
    ultimately show ?thesis
      using evolves_trans [OF evolves_trans [OF e2 e4] evolves_reverse [OF ok4, of q x rty]] qm x2 m4 by simp
  qed
qed

subsection \<open>Dependencies\<close>

lemma valid_name_scan:
  assumes "valid_name n" "c \<in> {NL, CHR '',''}"
  shows "strcspn (n @ c # r) name_end = length n" "strcspn (n @ c # r) [NL, CHR '',''] = length n"
proof -
  have "\<forall>c \<in> set n. c \<noteq> NUL \<and> c \<notin> set name_end" using assms(1) by (simp add: valid_name_def)
  then show "strcspn (n @ c # r) name_end = length n" "strcspn (n @ c # r) [NL, CHR '',''] = length n"
    using assms(2) by (auto simp: strcspn_def name_end_def takeWhile_append_stop)
qed

lemma valid_name_first: "valid_name n \<Longrightarrow> \<not> c_isspace (peek (n @ r)) \<and> n \<noteq> []"
  by (cases n) (auto simp: valid_name_def)

lemma read_dependency_one_prefix:
  "n \<noteq> [] \<Longrightarrow> read_dependency_one ty q (n @ r) (length n) s = read_dependency_one ty q n (length n) s"
  by (simp add: read_dependency_one_def get_package_new_prefix)

lemma join_names_first:
  "\<forall>n \<in> set ns. valid_name n \<Longrightarrow> ns \<noteq> [] \<Longrightarrow> \<not> c_isspace (peek (join_names ns @ r)) \<and> join_names ns \<noteq> []"
  by (induction ns rule: join_names.induct) (auto simp: valid_name_first)

lemma read_dependency_loop_written:
  assumes "\<forall>n \<in> set ns. valid_name n" "ns \<noteq> []"
  shows "read_dependency_loop ty q (join_names ns @ NL # rest) (length (join_names ns)) s =
    fold (\<lambda>n. read_dependency_one ty q n (length n)) ns s"
  using assms
proof (induction ns arbitrary: s rule: join_names.induct [case_names Nil One More])
  case (One n)
  then have n: "valid_name n" "n \<noteq> []" using valid_name_first by auto
  let ?cur = "n @ NL # rest"
  have "dependency_step ?cur \<ge> length n" using valid_name_scan [OF n(1)] by (simp add: dependency_step_def Let_def)
  then show ?case using n valid_name_scan [OF n(1)]
    by (simp add: read_dependency_loop.simps [of _ _ ?cur] read_dependency_loop.simps [of _ _ _ 0]
        read_dependency_one_prefix)
next
  case (More n m ns)
  then have n: "valid_name n" "n \<noteq> []" using valid_name_first by auto
  let ?tail = "join_names (m # ns) @ NL # rest"
  let ?cur = "n @ CHR '','' # SP # ?tail"
  have "\<not> c_isspace (peek ?tail)" using join_names_first [of "m # ns"] More.prems by simp
  then have "takeWhile c_isspace (SP # ?tail) = [SP]"
    by (cases ?tail) (auto simp: c_isspace_def)
  then have step: "dependency_step ?cur = length n + 2"
    using valid_name_scan [OF n(1), of "CHR '',''"] by (simp add: dependency_step_def Let_def)
  have "read_dependency_loop ty q ?cur (length n + 2 + length (join_names (m # ns))) s =
      read_dependency_loop ty q ?tail (length (join_names (m # ns))) (read_dependency_one ty q n (length n) s)"
    using n(2) valid_name_scan [OF n(1), of "CHR '',''"]
    by (simp add: read_dependency_loop.simps [of _ _ ?cur] step read_dependency_one_prefix)
  then show ?case using More by (simp add: numeral_2_eq_2)
qed simp

lemma fold_dependency_evolves:
  "store_ok s \<Longrightarrow> q \<in> set (pkg_list s) \<Longrightarrow> \<forall>n \<in> set ns. valid_name n \<Longrightarrow> ty \<in> written_types \<Longrightarrow>
   evolves q (\<lambda>x. x) (\<lambda>t. if t = ty then ns else []) s (fold (\<lambda>n. read_dependency_one ty q n (length n)) ns s)"
proof (induction ns arbitrary: s)
  case Nil
  then show ?case using evolves_refl by (simp cong: if_cong)
next
  case (Cons n ns)
  let ?s1 = "read_dependency_one ty q n (length n) s"
  have e: "evolves q (\<lambda>x. x) (\<lambda>t. if t = ty then [n] else []) s ?s1"
    using Cons.prems by (intro read_dependency_one_evolves) auto
  then have "store_ok ?s1" "q \<in> set (pkg_list ?s1)" using Cons.prems(2) by (auto simp: evolves_def)
  from evolves_trans [OF e Cons.IH [OF this]] Cons.prems(3,4) show ?case
    by (simp add: if_distrib cong: if_cong)
qed

subsection \<open>Values\<close>

text \<open>Every reader looks at the value and at the newline behind it only.\<close>

lemma strncasecmp_within:
  "NL \<notin> set y \<Longrightarrow> strncasecmp_eq n (v @ NL # r) y = strncasecmp_eq n (v @ [NL]) y"
proof (induction n arbitrary: v y)
  case (Suc n)
  then have "peek y \<noteq> NL" "NL \<notin> set (tl y)" by (cases y; auto)+
  with Suc.IH [of "tl y" "tl v"] c_tolower_NL_iff [of "peek y"] c_tolower_NL_iff [of NL]
  show ?case by (cases v) auto
qed simp

lemma take_drop_within: "take (length v - k) (drop k (v @ r)) = drop k v"
  by (cases "k \<le> length v") auto

lemma strtol_within:
  assumes "v \<noteq> []" "\<not> c_isspace (peek v)"
  shows "strtol (v @ NL # r) = strtol (v @ [NL])"
proof -
  obtain c w where v: "v = c # w" using assms(1) by (cases v) auto
  have "takeWhile c_isdigit (w @ NL # r) = takeWhile c_isdigit (w @ [NL])" for w :: string
    by (induction w) (auto simp: c_isdigit_def)
  from this [of w] this [of v] show ?thesis using assms(2) by (simp add: strtol_def v Let_def)
qed

lemma read_status_within:
  "di_package_parser_read_status data m (v @ NL # r) (length v) s =
   di_package_parser_read_status data m (v @ [NL]) (length v) s"
proof (cases "memchr v SP")
  case None
  then show ?thesis by (simp add: di_package_parser_read_status_def)
next
  case (Some n1)
  have n1: "n1 < length v" using memchr_lt [OF Some] .
  then have "take (length v - n1) (drop (n1 + 1) (v @ NL # r)) = take (length v - n1) (drop (n1 + 1) (v @ [NL]))" by simp
  then show ?thesis
    unfolding di_package_parser_read_status_def take_drop_within using Some n1
    by (simp split: option.split)
qed

lemma read_description_within:
  "di_package_parser_read_description data m (v @ NL # r) (length v) s =
   di_package_parser_read_description data m (v @ [NL]) (length v) s"
proof (cases "memchr v NL")
  case None
  then show ?thesis by (simp add: di_package_parser_read_description_def)
next
  case (Some t)
  then show ?thesis
    using memchr_lt [OF Some] take_drop_within [of v "t + 1"] by (simp add: di_package_parser_read_description_def)
qed

subsection \<open>The parser of the status file\<close>

abbreviation status_fields :: "pkg_fieldinfo list" where
  "status_fields \<equiv> di_packages_status_parser_fieldinfo @ di_system_package_parser_fieldinfo"

lemmas field_defs =
  internal_di_packages_parser_field_package_def internal_di_package_parser_field_status_def
  internal_di_package_parser_field_essential_def internal_di_package_parser_field_priority_def
  internal_di_package_parser_field_section_def internal_di_package_parser_field_installed_size_def
  internal_di_package_parser_field_maintainer_def internal_di_package_parser_field_version_def
  internal_di_package_parser_field_replaces_def internal_di_package_parser_field_provides_def
  internal_di_package_parser_field_depends_def internal_di_package_parser_field_pre_depends_def
  internal_di_package_parser_field_recommends_def internal_di_package_parser_field_suggests_def
  internal_di_package_parser_field_conflicts_def internal_di_package_parser_field_enhances_def
  internal_di_package_parser_field_description_def

lemmas status_fields_defs =
  di_packages_status_parser_fieldinfo_def di_system_package_parser_fieldinfo_def field_defs

lemma status_info: "di_system_packages_status_parser_info = di_parser_info_add di_parser_info_alloc status_fields"
  by (simp add: di_system_packages_status_parser_info_def di_packages_status_parser_info_def info_add_append)

lemma status_keys:
  "\<forall>fip \<in> set status_fields. nul_free (fi_key fip)"
  "distinct (map (\<lambda>fip. map c_tolower (fi_key fip)) status_fields)"
  "\<forall>fip \<in> set status_fields. good_field (fi_key fip)"
  by code_simp+

lemma status_dispatch:
  "fip \<in> set status_fields \<Longrightarrow>
   dispatch_field di_system_packages_status_parser_info (fi_key fip) v n act s = fi_read fip act None v n s"
  unfolding status_info by (rule dispatch_known) (use status_keys in auto)

definition dependency_keys :: "di_rstring set" where
  "dependency_keys = {''Replaces'', ''Provides'', ''Depends'', ''Pre-Depends'', ''Recommends'', ''Suggests'',
     ''Conflicts'', ''Enhances''}"

definition nonblank_keys :: "di_rstring set" where
  "nonblank_keys = {''Package'', ''Installed-Size'', ''Installer-Menu-Item''}"

definition status_value :: "di_rstring \<Rightarrow> di_rstring \<Rightarrow> bool" where
  "status_value f v \<longleftrightarrow> f \<in> fi_key ` set status_fields \<and> good_value v \<and>
     (f \<in> nonblank_keys \<longrightarrow> v \<noteq> [] \<and> \<not> c_isspace (peek v)) \<and>
     (f \<in> dependency_keys \<longrightarrow> (\<exists>ns. ns \<noteq> [] \<and> (\<forall>n \<in> set ns. valid_name n) \<and> v = join_names ns))"

lemma status_valueD:
  assumes "status_value f v"
  shows "\<exists>fip \<in> set status_fields. f = fi_key fip" "good_value v"
    "f \<in> nonblank_keys \<Longrightarrow> v \<noteq> [] \<and> \<not> c_isspace (peek v)"
    "f \<in> dependency_keys \<Longrightarrow> \<exists>ns. ns \<noteq> [] \<and> (\<forall>n \<in> set ns. valid_name n) \<and> v = join_names ns"
  using assms by (simp_all only: status_value_def image_iff Bex_def simp_thms)

text \<open>The readers of the status file keep the contract of \<open>field_readers\<close>.\<close>

lemma status_within:
  assumes "status_value f v"
  shows "dispatch_field di_system_packages_status_parser_info f (v @ NL # rest) (length v) act s =
    dispatch_field di_system_packages_status_parser_info f (v @ [NL]) (length v) act s"
proof -
  obtain fip where fip: "fip \<in> set status_fields" "f = fi_key fip" using status_valueD(1) [OF assms] by blast
  have dep: "di_package_parser_read_dependency ty act None (v @ NL # rest) (length v) s =
      di_package_parser_read_dependency ty act None (v @ [NL]) (length v) s" if key: "f \<in> dependency_keys" for ty
  proof -
    obtain ns where "ns \<noteq> []" "\<forall>n \<in> set ns. valid_name n" "v = join_names ns"
      using status_valueD(4) [OF assms key] by blast
    then show ?thesis using join_names_first [of ns]
      by (simp add: di_package_parser_read_dependency_def read_dependency_loop_written split: option.split)
  qed
  have int: "strtol (v @ NL # rest) = strtol (v @ [NL])" if "f \<in> nonblank_keys"
    using status_valueD(3) [OF assms that] strtol_within by blast
  have name: "di_packages_get_package_new s (v @ NL # rest) (length v) = di_packages_get_package_new s (v @ [NL]) (length v)"
    if "f \<in> nonblank_keys"
  proof -
    have "v \<noteq> []" using status_valueD(3) [OF assms that] by blast
    then show ?thesis by (simp add: get_package_new_prefix)
  qed
  have bool: "strncasecmp_eq 3 (v @ NL # rest) ''yes'' = strncasecmp_eq 3 (v @ [NL]) ''yes''"
    by (rule strncasecmp_within) simp
  have "fi_read fip act None (v @ NL # rest) (length v) s = fi_read fip act None (v @ [NL]) (length v) s"
    using fip dep int name bool read_status_within [of act None v rest s] read_description_within [of act None v rest s]
    by (auto simp: status_fields_defs dependency_keys_def nonblank_keys_def di_packages_parser_read_name_def di_parser_read_boolean_def
        di_package_parser_read_priority_def di_parser_read_string_def di_parser_read_int_def di_stradup_def)
  then show ?thesis using fip status_dispatch by simp
qed

interpretation status: field_readers di_system_packages_status_parser_info status_value
proof unfold_locales
  show "good_field f \<and> good_value v" if "status_value f v" for f v
    using status_valueD(1,2) [OF that] status_keys(3) by blast
qed (rule status_within)

subsection \<open>Packages that can be written\<close>

abbreviation good_string :: "string option \<Rightarrow> bool" where
  "good_string v \<equiv> (case v of None \<Rightarrow> True | Some v \<Rightarrow> good_value v)"

abbreviation int32 :: "int \<Rightarrow> bool" where
  "int32 z \<equiv> - (2 ^ 31) \<le> z \<and> z < 2 ^ 31"

abbreviation written_type_list :: "di_package_dependency_type list" where
  "written_type_list \<equiv>
     [di_package_dependency_type_replaces, di_package_dependency_type_provides,
      di_package_dependency_type_depends, di_package_dependency_type_pre_depends,
      di_package_dependency_type_recommends, di_package_dependency_type_suggests,
      di_package_dependency_type_conflicts, di_package_dependency_type_enhances]"

definition writable :: "pkg_heap \<Rightarrow> pkg_ptr \<Rightarrow> bool" where
  "writable h p \<longleftrightarrow> valid_name (pkg_package (h p)) \<and> good_string (pkg_section (h p)) \<and>
     int32 (pkg_installed_size (h p)) \<and> good_string (pkg_maintainer (h p)) \<and>
     good_string (pkg_version (h p)) \<and>
     (case pkg_short_description (h p) of
        None \<Rightarrow> pkg_description (h p) = None
      | Some sd \<Rightarrow> NL \<notin> set sd \<and>
          (case pkg_description (h p) of None \<Rightarrow> good_value sd | Some d \<Rightarrow> good_value (sd @ NL # d))) \<and>
     int32 (installer_menu_item (h p)) \<and> good_string (subarchitecture (h p)) \<and>
     good_string (kernel_version (h p)) \<and>
     list_all (\<lambda>ty. list_all valid_name (dependency_names ty h p)) written_type_list"

text \<open>The attributes of a package that the status file holds.\<close>

definition status_part :: "di_system_package \<Rightarrow> di_system_package" where
  "status_part x = x\<lparr>pkg_type := di_package_type_real_package, pkg_architecture := None,
     pkg_depends := [], pkg_filename := None, pkg_size := 0, pkg_sha256 := None, pkg_resolver := 0\<rparr>"

text \<open>A field that is only written in some cases.\<close>

definition unless :: "bool \<Rightarrow> ('x \<Rightarrow> 'x) \<Rightarrow> 'x \<Rightarrow> 'x" where
  "unless c f x = (if c then x else f x)"

lemma unless_simps: "unless True f = (\<lambda>x. x)" "unless False f = f"
  by (simp_all add: unless_def fun_eq_iff)

text \<open>
  The fields \<open>fvs\<close>, written for one package and read for another one, act as the function \<open>F\<close>
  on its attributes and append the names \<open>G\<close>.
\<close>

definition loads ::
  "(di_rstring \<times> di_rstring) list \<Rightarrow> (di_system_package \<Rightarrow> di_system_package) \<Rightarrow>
   (di_package_dependency_type \<Rightarrow> string list) \<Rightarrow> bool" where
  "loads fvs F G \<longleftrightarrow> (\<forall>(f, v) \<in> set fvs. status_value f v) \<and>
     (\<forall>s q. store_ok s \<longrightarrow> q \<in> set (pkg_list s) \<longrightarrow>
        (\<exists>s'. status.feed fvs (Some q) s = Some (Some q, s') \<and> evolves q F G s s'))"

lemma loads_Nil: "loads [] (\<lambda>x. x) (\<lambda>_. [])"
  using evolves_refl by (auto simp: loads_def)

lemma loads_append:
  assumes "loads fvs F G" "loads gvs F' G'"
  shows "loads (fvs @ gvs) (\<lambda>x. F' (F x)) (\<lambda>ty. G ty @ G' ty)"
proof -
  have "\<exists>s'. status.feed (fvs @ gvs) (Some q) s = Some (Some q, s') \<and>
      evolves q (\<lambda>x. F' (F x)) (\<lambda>ty. G ty @ G' ty) s s'"
    if s: "store_ok s" "q \<in> set (pkg_list s)" for s q
  proof -
    from assms(1) s obtain s1 where s1: "status.feed fvs (Some q) s = Some (Some q, s1)" "evolves q F G s s1"
      unfolding loads_def by blast
    then have "store_ok s1" "q \<in> set (pkg_list s1)" using s(2) by (auto simp: evolves_def)
    with assms(2) obtain s2 where "status.feed gvs (Some q) s1 = Some (Some q, s2)" "evolves q F' G' s1 s2"
      unfolding loads_def by blast
    with s1 evolves_trans show ?thesis by (auto simp: status.feed_append)
  qed
  with assms show ?thesis by (auto simp: loads_def)
qed

lemma loads_field:
  assumes fip: "fip \<in> set status_fields" "fi_key fip = f" and v: "status_value f v"
    and step: "\<And>s q. store_ok s \<Longrightarrow> q \<in> set (pkg_list s) \<Longrightarrow>
      \<exists>s'. fi_read fip (Some q) None (v @ [NL]) (length v) s = Some (Some q, s') \<and> evolves q F G s s'"
  shows "loads [(f, v)] F G"
  unfolding loads_def using v step status_dispatch [OF fip(1)] fip(2) by fastforce

lemma loads_attr:
  assumes fip: "fip \<in> set status_fields" "fi_key fip = f" and v: "status_value f v"
    and read: "\<And>s q. fi_read fip (Some q) None (v @ [NL]) (length v) s = at_data (Some q) F s"
    and F: "\<And>x. bare (F x) = F (bare x)" "\<And>x. pkg_depends (F x) = pkg_depends x"
      "\<And>x. pkg_package (F x) = pkg_package x" "\<And>x. pkg_type (F x) = pkg_type x"
  shows "loads [(f, v)] F (\<lambda>_. [])"
  by (rule loads_field [OF fip v]) (auto simp: read at_data_def intro!: evolves_attr F)

lemma status_valueI:
  "fip \<in> set status_fields \<Longrightarrow> fi_key fip = f \<Longrightarrow> good_value v \<Longrightarrow> f \<notin> nonblank_keys \<Longrightarrow>
   f \<notin> dependency_keys \<Longrightarrow> status_value f v"
  "fip \<in> set status_fields \<Longrightarrow> fi_key fip = f \<Longrightarrow> good_value v \<Longrightarrow> v \<noteq> [] \<Longrightarrow> \<not> c_isspace (peek v) \<Longrightarrow>
   f \<notin> dependency_keys \<Longrightarrow> status_value f v"
  by (auto simp only: status_value_def)

lemma loads_string:
  assumes fip: "fip \<in> set status_fields" "fi_key fip = f" and f: "f \<notin> nonblank_keys" "f \<notin> dependency_keys"
    and read: "fi_read fip = di_parser_read_string upd" and v: "good_string (sel (heap ps p))"
    and F: "\<And>v x. bare (upd v x) = upd v (bare x)" "\<And>v x. pkg_depends (upd v x) = pkg_depends x"
      "\<And>v x. pkg_package (upd v x) = pkg_package x" "\<And>v x. pkg_type (upd v x) = pkg_type x"
  shows "loads (di_parser_write_string f sel p ps)
    (unless (sel (heap ps p) = None) (upd (sel (heap ps p)))) (\<lambda>_. [])"
proof (cases "sel (heap ps p)")
  case None
  then show ?thesis using loads_Nil by (simp add: unless_simps di_parser_write_string_def)
next
  case (Some w)
  then have "status_value f w" using v status_valueI(1) [OF fip _ f] by simp
  from loads_attr [OF fip this, of "upd (Some w)"] Some F read show ?thesis
    by (simp add: unless_simps di_parser_write_string_def di_parser_read_string_def di_stradup_def)
qed

lemma folded_line: "NL \<notin> set s \<Longrightarrow> folded s"
  by (induction s rule: folded.induct) auto

lemma join_names_good:
  assumes "\<forall>n \<in> set ns. valid_name n" "ns \<noteq> []"
  shows "good_value (join_names ns)"
proof -
  have "NL \<notin> set n" if "n \<in> set ns" for n using assms(1) that by (auto simp: valid_name_def name_end_def)
  then have "NL \<notin> set (join_names ns)" by (induction ns rule: join_names.induct) auto
  moreover have "\<not> c_isspace (peek (join_names ns))" using join_names_first [OF assms, of "[]"] by simp
  ultimately show ?thesis using folded_line by (auto simp: good_value_def c_isspace_def)
qed

lemma dec_int_good: "good_value (dec_int z) \<and> dec_int z \<noteq> [] \<and> \<not> c_isspace (peek (dec_int z))"
proof -
  have digits: "\<forall>c \<in> set (dec_nat n). c_isdigit c" "dec_nat n \<noteq> []" for n using dec_nat_digits by auto
  have "\<not> c_isdigit NL" "\<not> c_isdigit SP" "\<not> c_isdigit TAB" by (simp_all add: c_isdigit_def)
  then have "NL \<notin> set (dec_nat n)" "\<not> is_blank (peek (dec_nat n))" "\<not> c_isspace (peek (dec_nat n))" for n
    using digits [of n] dec_nat_first [of n "[]"] by (auto simp: c_isdigit_def c_isspace_def)
  then show ?thesis using digits folded_line [of "dec_int z"]
    by (auto simp: dec_int_def good_value_def c_isspace_def)
qed

lemma loads_int:
  assumes fip: "fip \<in> set status_fields" "fi_key fip = f" and f: "f \<notin> dependency_keys"
    and read: "fi_read fip = di_parser_read_int upd" and z: "int32 (sel (heap ps p))"
    and F: "\<And>v x. bare (upd v x) = upd v (bare x)" "\<And>v x. pkg_depends (upd v x) = pkg_depends x"
      "\<And>v x. pkg_package (upd v x) = pkg_package x" "\<And>v x. pkg_type (upd v x) = pkg_type x"
  shows "loads (di_parser_write_int f sel p ps)
    (unless (sel (heap ps p) = 0) (upd (sel (heap ps p)))) (\<lambda>_. [])"
proof (cases "sel (heap ps p) = 0")
  case True
  then show ?thesis using loads_Nil by (simp add: unless_simps di_parser_write_int_def)
next
  case False
  have "status_value f (dec_int (sel (heap ps p)))" using status_valueI(2) [OF fip] dec_int_good f by blast
  moreover have "to_int32 (strtol (dec_int (sel (heap ps p)) @ [NL])) = sel (heap ps p)"
    using z strtol_dec_int [of "sel (heap ps p)" NL "[]"] to_int32_id [of "sel (heap ps p)"]
    by (auto simp: c_isdigit_def)
  ultimately show ?thesis using loads_attr [OF fip, where F = "upd (sel (heap ps p))"] False F read
    by (simp add: unless_simps di_parser_write_int_def di_parser_read_int_def)
qed

lemma loads_boolean:
  assumes fip: "fip \<in> set status_fields" "fi_key fip = f" and f: "f \<notin> nonblank_keys" "f \<notin> dependency_keys"
    and read: "fi_read fip = di_parser_read_boolean upd"
    and F: "\<And>v x. bare (upd v x) = upd v (bare x)" "\<And>v x. pkg_depends (upd v x) = pkg_depends x"
      "\<And>v x. pkg_package (upd v x) = pkg_package x" "\<And>v x. pkg_type (upd v x) = pkg_type x"
  shows "loads (di_parser_write_boolean f sel p ps) (unless (\<not> sel (heap ps p)) (upd True)) (\<lambda>_. [])"
proof (cases "sel (heap ps p)")
  case False
  then show ?thesis using loads_Nil by (simp add: unless_simps di_parser_write_boolean_def)
next
  case True
  have yes: "good_value ''Yes''" "strncasecmp_eq 3 (''Yes'' @ [NL]) ''yes''" by code_simp+
  then show ?thesis using loads_attr [OF fip status_valueI(1) [OF fip yes(1) f], where F = "upd True"] True F read
    by (simp add: unless_simps di_parser_write_boolean_def di_parser_read_boolean_def)
qed

lemma loads_dependency:
  assumes fip: "fip \<in> set status_fields" "fi_key fip = f" and f: "f \<notin> nonblank_keys" "f \<in> dependency_keys"
    and read: "fi_read fip = di_package_parser_read_dependency ty" and ty: "ty \<in> written_types"
    and names: "\<forall>n \<in> set (dependency_names ty (heap ps) p). valid_name n"
  shows "loads (di_package_parser_write_dependency f ty p ps) (\<lambda>x. x)
    (\<lambda>t. if t = ty then dependency_names ty (heap ps) p else [])"
proof (cases "dependency_names ty (heap ps) p = []")
  case True
  then show ?thesis using loads_Nil by (simp add: di_package_parser_write_dependency_def cong: if_cong)
next
  case False
  let ?ns = "dependency_names ty (heap ps) p"
  note first = join_names_first [OF names False, of "[]"]
  have "good_value (join_names ?ns)" by (rule join_names_good [OF names False])
  then have v: "status_value f (join_names ?ns)" using False names f fip by (auto simp only: status_value_def)
  have "loads [(f, join_names ?ns)] (\<lambda>x. x) (\<lambda>t. if t = ty then ?ns else [])"
    by (rule loads_field [OF fip v])
      (use fold_dependency_evolves names ty in \<open>simp add: read di_package_parser_read_dependency_def
        read_dependency_loop_written [OF names False]\<close>)
  then show ?thesis using first by (simp add: di_package_parser_write_dependency_def)
qed

lemma text_values:
  "di_package_array_text_from_rstring di_package_priority_text (text_to di_package_priority_text prio) = prio"
  "di_package_array_text_from_rstring di_package_status_want_text (text_to di_package_status_want_text want) = want"
  "di_package_array_text_from_rstring di_package_status_text (text_to di_package_status_text st) = st"
  subgoal by (cases prio; simp only:; code_simp)
  subgoal by (cases want; simp only:; code_simp)
  subgoal by (cases st; simp only:; code_simp)
  done

lemma text_format:
  "good_value (text_to di_package_priority_text prio)"
  "SP \<notin> set (text_to di_package_status_want_text want)"
  "good_value (text_to di_package_status_want_text want @ '' ok '' @ text_to di_package_status_text st)"
proof -
  show "good_value (text_to di_package_priority_text prio)" by (cases prio; simp only:; code_simp)
  show sp: "SP \<notin> set (text_to di_package_status_want_text want)" by (cases want; simp only:; code_simp)
  have "NL \<notin> set (text_to di_package_status_want_text want)" "NL \<notin> set (text_to di_package_status_text st)"
    subgoal by (cases want; simp only:; code_simp)
    subgoal by (cases st; simp only:; code_simp)
    done
  then have "folded (text_to di_package_status_want_text want @ '' ok '' @ text_to di_package_status_text st)"
    by (intro folded_line) auto
  moreover have "\<not> is_blank (peek (text_to di_package_status_want_text want @ r))" for r
    by (cases want; simp add: text_to_def di_package_status_want_text_def)
  ultimately show "good_value (text_to di_package_status_want_text want @ '' ok '' @ text_to di_package_status_text st)"
    by (simp add: good_value_def)
qed

lemma loads_priority:
  "loads (di_package_parser_write_priority ''Priority'' p ps) (\<lambda>x. x\<lparr>pkg_priority := pkg_priority (heap ps p)\<rparr>) (\<lambda>_. [])"
proof -
  have fip: "internal_di_package_parser_field_priority \<in> set status_fields"
    "fi_key internal_di_package_parser_field_priority = ''Priority''"
    by (simp_all add: di_packages_status_parser_fieldinfo_def internal_di_package_parser_field_priority_def)
  have v: "status_value ''Priority'' (text_to di_package_priority_text (pkg_priority (heap ps p)))"
    by (rule status_valueI(1) [OF fip]) (simp_all add: text_format nonblank_keys_def dependency_keys_def)
  show ?thesis unfolding di_package_parser_write_priority_def
    by (rule loads_attr [OF fip v])
      (simp_all add: internal_di_package_parser_field_priority_def di_package_parser_read_priority_def text_values bare_def)
qed

lemma read_status_written:
  fixes want :: di_package_status_want and st :: di_package_status
  defines "v \<equiv> text_to di_package_status_want_text want @ '' ok '' @ text_to di_package_status_text st"
  shows "di_package_parser_read_status data m (v @ [NL]) (length v) s =
    at_data data (\<lambda>x. x\<lparr>pkg_status_want := want, pkg_status := st\<rparr>) s"
proof -
  let ?w = "text_to di_package_status_want_text want" and ?t = "text_to di_package_status_text st"
  have v: "v = ?w @ SP # ''ok'' @ SP # ?t" by (simp add: v_def)
  have n1: "memchr v SP = Some (length ?w)" unfolding v using text_format(2) by simp
  have "take (length v - length ?w) (drop (length ?w + 1) (v @ [NL])) = ''ok'' @ SP # ?t @ [NL]"
    by (simp add: v)
  then have n2: "memchr (take (length v - length ?w) (drop (length ?w + 1) (v @ [NL]))) SP = Some 2"
    using memchr_append_first [of SP "''ok''" "?t @ [NL]"] by (simp only:) simp
  have "drop (length ?w + 2 + 2) v = ?t" "take (length ?w) (v @ [NL]) = ?w" by (simp_all add: v eval_nat_numeral)
  then show ?thesis unfolding di_package_parser_read_status_def take_drop_within
    using n1 n2 text_values by simp
qed

lemma loads_status:
  "loads (di_package_parser_write_status ''Status'' p ps)
    (\<lambda>x. x\<lparr>pkg_status_want := pkg_status_want (heap ps p), pkg_status := pkg_status (heap ps p)\<rparr>) (\<lambda>_. [])"
proof -
  have fip: "internal_di_package_parser_field_status \<in> set status_fields"
    "fi_key internal_di_package_parser_field_status = ''Status''"
    by (simp_all add: di_packages_status_parser_fieldinfo_def internal_di_package_parser_field_status_def)
  let ?v = "text_to di_package_status_want_text (pkg_status_want (heap ps p)) @ '' ok '' @
      text_to di_package_status_text (pkg_status (heap ps p))"
  have v: "status_value ''Status'' ?v"
    by (rule status_valueI(1) [OF fip]) (simp_all only: text_format, simp_all add: nonblank_keys_def dependency_keys_def)
  show ?thesis unfolding di_package_parser_write_status_def
    by (rule loads_attr [OF fip v], unfold internal_di_package_parser_field_status_def di_parser_fieldinfo.simps
        read_status_written) (simp_all add: bare_def)
qed

lemma loads_description:
  assumes "writable (heap ps) p"
  shows "loads (di_package_parser_write_description ''Description'' p ps)
    (unless (pkg_short_description (heap ps p) = None)
       (\<lambda>x. unless (pkg_description (heap ps p) = None) (\<lambda>y. y\<lparr>pkg_description := pkg_description (heap ps p)\<rparr>)
          (x\<lparr>pkg_short_description := pkg_short_description (heap ps p)\<rparr>))) (\<lambda>_. [])"
proof (cases "pkg_short_description (heap ps p)")
  case None
  then show ?thesis using loads_Nil by (simp add: unless_simps di_package_parser_write_description_def)
next
  case (Some sd)
  have fip: "internal_di_package_parser_field_description \<in> set status_fields"
    "fi_key internal_di_package_parser_field_description = ''Description''"
    by (simp_all add: di_packages_status_parser_fieldinfo_def internal_di_package_parser_field_description_def)
  define v where "v = (case pkg_description (heap ps p) of None \<Rightarrow> sd | Some d \<Rightarrow> sd @ NL # d)"
  have w: "good_value v" "NL \<notin> set sd" using assms Some by (auto simp: writable_def v_def split: option.splits)
  have v: "status_value ''Description'' v"
    by (rule status_valueI(1) [OF fip w(1)]) (simp_all add: nonblank_keys_def dependency_keys_def)
  have "di_package_parser_write_description ''Description'' p ps = [(''Description'', v)]"
    using Some by (simp add: di_package_parser_write_description_def v_def split: option.split)
  then show ?thesis using w(2) Some
    by (simp only:, intro loads_attr [OF fip v])
      (auto simp: unless_simps internal_di_package_parser_field_description_def di_package_parser_read_description_def v_def
        memchr_None_iff [THEN iffD2] bare_def unless_def split: option.split)
qed

subsection \<open>Entries\<close>

definition entry_fields :: "pkg_fieldinfo list \<Rightarrow> di_packages \<Rightarrow> pkg_ptr \<Rightarrow> (di_rstring \<times> di_rstring) list" where
  "entry_fields fips ps p = concat (map (\<lambda>fip. case fi_write fip of Some w \<Rightarrow> w p ps | None \<Rightarrow> []) fips)"

lemma entry_fields_simps [simp]:
  "entry_fields [] ps p = []"
  "entry_fields (fip # fips) ps p = (case fi_write fip of Some w \<Rightarrow> w p ps | None \<Rightarrow> []) @ entry_fields fips ps p"
  by (simp_all add: entry_fields_def)

lemma write_entry_fields:
  "write_entry info ps p = concat (map callback (entry_fields (info_list info) ps p)) @ [NL]"
proof -
  have "concat (map (\<lambda>fip. case fi_write fip of Some w \<Rightarrow> concat (map callback (w p ps)) | None \<Rightarrow> []) fips) =
      concat (map callback (entry_fields fips ps p))" for fips
    by (induction fips) (auto split: option.split)
  then show ?thesis by (simp add: write_entry_def)
qed

lemma set_default:
  "pkg_section x = None \<Longrightarrow> unless (v = None) (\<lambda>x. x\<lparr>pkg_section := v\<rparr>) x = x\<lparr>pkg_section := v\<rparr>"
  "pkg_maintainer x = None \<Longrightarrow> unless (v = None) (\<lambda>x. x\<lparr>pkg_maintainer := v\<rparr>) x = x\<lparr>pkg_maintainer := v\<rparr>"
  "pkg_version x = None \<Longrightarrow> unless (v = None) (\<lambda>x. x\<lparr>pkg_version := v\<rparr>) x = x\<lparr>pkg_version := v\<rparr>"
  "subarchitecture x = None \<Longrightarrow> unless (v = None) (\<lambda>x. x\<lparr>subarchitecture := v\<rparr>) x = x\<lparr>subarchitecture := v\<rparr>"
  "kernel_version x = None \<Longrightarrow> unless (v = None) (\<lambda>x. x\<lparr>kernel_version := v\<rparr>) x = x\<lparr>kernel_version := v\<rparr>"
  "pkg_installed_size x = 0 \<Longrightarrow> unless (z = 0) (\<lambda>x. x\<lparr>pkg_installed_size := z\<rparr>) x = x\<lparr>pkg_installed_size := z\<rparr>"
  "installer_menu_item x = 0 \<Longrightarrow> unless (z = 0) (\<lambda>x. x\<lparr>installer_menu_item := z\<rparr>) x = x\<lparr>installer_menu_item := z\<rparr>"
  "\<not> pkg_essential x \<Longrightarrow> unless (\<not> b) (\<lambda>x. x\<lparr>pkg_essential := True\<rparr>) x = x\<lparr>pkg_essential := b\<rparr>"
  "pkg_description x = None \<Longrightarrow> unless (v = None) (\<lambda>x. x\<lparr>pkg_description := v\<rparr>) x = x\<lparr>pkg_description := v\<rparr>"
  "pkg_short_description x = None \<Longrightarrow> pkg_description x = None \<Longrightarrow> (v = None \<longrightarrow> d = None) \<Longrightarrow>
   unless (v = None) (\<lambda>x. unless (d = None) (\<lambda>x. x\<lparr>pkg_description := d\<rparr>) (x\<lparr>pkg_short_description := v\<rparr>)) x =
   x\<lparr>pkg_short_description := v, pkg_description := d\<rparr>"
  by (auto simp: unless_def intro!: di_system_package.equality)

text \<open>The single fields of a package that can be written.\<close>

lemma loads_attributes:
  assumes w: "writable (heap ps) p"
  shows "loads (di_parser_write_string ''Section'' pkg_section p ps)
      (unless (pkg_section (heap ps p) = None) (\<lambda>x. x\<lparr>pkg_section := pkg_section (heap ps p)\<rparr>)) (\<lambda>_. [])"
    and "loads (di_parser_write_string ''Maintainer'' pkg_maintainer p ps)
      (unless (pkg_maintainer (heap ps p) = None) (\<lambda>x. x\<lparr>pkg_maintainer := pkg_maintainer (heap ps p)\<rparr>)) (\<lambda>_. [])"
    and "loads (di_parser_write_string ''Version'' pkg_version p ps)
      (unless (pkg_version (heap ps p) = None) (\<lambda>x. x\<lparr>pkg_version := pkg_version (heap ps p)\<rparr>)) (\<lambda>_. [])"
    and "loads (di_parser_write_string ''Subarchitecture'' subarchitecture p ps)
      (unless (subarchitecture (heap ps p) = None) (\<lambda>x. x\<lparr>subarchitecture := subarchitecture (heap ps p)\<rparr>)) (\<lambda>_. [])"
    and "loads (di_parser_write_string ''Kernel-Version'' kernel_version p ps)
      (unless (kernel_version (heap ps p) = None) (\<lambda>x. x\<lparr>kernel_version := kernel_version (heap ps p)\<rparr>)) (\<lambda>_. [])"
    and "loads (di_parser_write_int ''Installed-Size'' pkg_installed_size p ps)
      (unless (pkg_installed_size (heap ps p) = 0) (\<lambda>x. x\<lparr>pkg_installed_size := pkg_installed_size (heap ps p)\<rparr>)) (\<lambda>_. [])"
    and "loads (di_parser_write_int ''Installer-Menu-Item'' installer_menu_item p ps)
      (unless (installer_menu_item (heap ps p) = 0) (\<lambda>x. x\<lparr>installer_menu_item := installer_menu_item (heap ps p)\<rparr>)) (\<lambda>_. [])"
    and "loads (di_parser_write_boolean ''Essential'' pkg_essential p ps)
      (unless (\<not> pkg_essential (heap ps p)) (\<lambda>x. x\<lparr>pkg_essential := True\<rparr>)) (\<lambda>_. [])"
proof -
  note key_defs = nonblank_keys_def dependency_keys_def
  note w' = w [unfolded writable_def]
  show "loads (di_parser_write_string ''Section'' pkg_section p ps)
      (unless (pkg_section (heap ps p) = None) (\<lambda>x. x\<lparr>pkg_section := pkg_section (heap ps p)\<rparr>)) (\<lambda>_. [])"
    by (rule loads_string [of internal_di_package_parser_field_section])
      (use w' in \<open>auto simp: di_packages_status_parser_fieldinfo_def internal_di_package_parser_field_section_def key_defs bare_def\<close>)
  show "loads (di_parser_write_string ''Maintainer'' pkg_maintainer p ps)
      (unless (pkg_maintainer (heap ps p) = None) (\<lambda>x. x\<lparr>pkg_maintainer := pkg_maintainer (heap ps p)\<rparr>)) (\<lambda>_. [])"
    by (rule loads_string [of internal_di_package_parser_field_maintainer])
      (use w' in \<open>auto simp: di_packages_status_parser_fieldinfo_def internal_di_package_parser_field_maintainer_def key_defs bare_def\<close>)
  show "loads (di_parser_write_string ''Version'' pkg_version p ps)
      (unless (pkg_version (heap ps p) = None) (\<lambda>x. x\<lparr>pkg_version := pkg_version (heap ps p)\<rparr>)) (\<lambda>_. [])"
    by (rule loads_string [of internal_di_package_parser_field_version])
      (use w' in \<open>auto simp: di_packages_status_parser_fieldinfo_def internal_di_package_parser_field_version_def key_defs bare_def\<close>)
  show "loads (di_parser_write_string ''Subarchitecture'' subarchitecture p ps)
      (unless (subarchitecture (heap ps p) = None) (\<lambda>x. x\<lparr>subarchitecture := subarchitecture (heap ps p)\<rparr>)) (\<lambda>_. [])"
    by (rule loads_string [of "di_system_package_parser_fieldinfo ! 1"])
      (use w' in \<open>auto simp: di_system_package_parser_fieldinfo_def key_defs bare_def\<close>)
  show "loads (di_parser_write_string ''Kernel-Version'' kernel_version p ps)
      (unless (kernel_version (heap ps p) = None) (\<lambda>x. x\<lparr>kernel_version := kernel_version (heap ps p)\<rparr>)) (\<lambda>_. [])"
    by (rule loads_string [of "di_system_package_parser_fieldinfo ! 2"])
      (use w' in \<open>auto simp: di_system_package_parser_fieldinfo_def key_defs bare_def\<close>)
  show "loads (di_parser_write_int ''Installed-Size'' pkg_installed_size p ps)
      (unless (pkg_installed_size (heap ps p) = 0) (\<lambda>x. x\<lparr>pkg_installed_size := pkg_installed_size (heap ps p)\<rparr>)) (\<lambda>_. [])"
    by (rule loads_int [of internal_di_package_parser_field_installed_size])
      (use w' in \<open>auto simp: di_packages_status_parser_fieldinfo_def internal_di_package_parser_field_installed_size_def key_defs bare_def\<close>)
  show "loads (di_parser_write_int ''Installer-Menu-Item'' installer_menu_item p ps)
      (unless (installer_menu_item (heap ps p) = 0) (\<lambda>x. x\<lparr>installer_menu_item := installer_menu_item (heap ps p)\<rparr>)) (\<lambda>_. [])"
    by (rule loads_int [of "di_system_package_parser_fieldinfo ! 0"])
      (use w' in \<open>auto simp: di_system_package_parser_fieldinfo_def key_defs bare_def\<close>)
  show "loads (di_parser_write_boolean ''Essential'' pkg_essential p ps)
      (unless (\<not> pkg_essential (heap ps p)) (\<lambda>x. x\<lparr>pkg_essential := True\<rparr>)) (\<lambda>_. [])"
    by (rule loads_boolean [of internal_di_package_parser_field_essential])
      (auto simp: di_packages_status_parser_fieldinfo_def internal_di_package_parser_field_essential_def key_defs bare_def)
qed

text \<open>All dependencies together.\<close>

abbreviation write_dependencies :: "di_packages \<Rightarrow> pkg_ptr \<Rightarrow> (di_rstring \<times> di_rstring) list" where
  "write_dependencies ps p \<equiv>
     di_package_parser_write_dependency ''Replaces'' di_package_dependency_type_replaces p ps @
     di_package_parser_write_dependency ''Provides'' di_package_dependency_type_provides p ps @
     di_package_parser_write_dependency ''Depends'' di_package_dependency_type_depends p ps @
     di_package_parser_write_dependency ''Pre-Depends'' di_package_dependency_type_pre_depends p ps @
     di_package_parser_write_dependency ''Recommends'' di_package_dependency_type_recommends p ps @
     di_package_parser_write_dependency ''Suggests'' di_package_dependency_type_suggests p ps @
     di_package_parser_write_dependency ''Conflicts'' di_package_dependency_type_conflicts p ps @
     di_package_parser_write_dependency ''Enhances'' di_package_dependency_type_enhances p ps"

lemma loads_dependencies:
  assumes w: "writable (heap ps) p"
  obtains G where "loads (write_dependencies ps p) (\<lambda>x. x) G"
    "\<And>ty. ty \<in> written_types \<Longrightarrow> G ty = dependency_names ty (heap ps) p"
proof -
  have names: "\<forall>n \<in> set (dependency_names ty (heap ps) p). valid_name n" if "ty \<in> written_types" for ty
    using w that by (cases ty) (auto simp: writable_def written_types_def list_all_iff)
  have dep: "loads (di_package_parser_write_dependency f ty p ps) (\<lambda>x. x)
      (\<lambda>t. if t = ty then dependency_names ty (heap ps) p else [])"
    if "fip \<in> set di_packages_status_parser_fieldinfo"
      "fi_key fip = f \<and> f \<in> dependency_keys \<and> fi_read fip = di_package_parser_read_dependency ty \<and> ty \<in> written_types"
    for fip f ty
  proof -
    have "f \<notin> nonblank_keys" using that(2) by (auto simp: nonblank_keys_def dependency_keys_def)
    then show ?thesis using that loads_dependency [of fip f ty ps p] names [of ty] by auto
  qed
  note deps =
    dep [of internal_di_package_parser_field_replaces "''Replaces''" di_package_dependency_type_replaces]
    dep [of internal_di_package_parser_field_provides "''Provides''" di_package_dependency_type_provides]
    dep [of internal_di_package_parser_field_depends "''Depends''" di_package_dependency_type_depends]
    dep [of internal_di_package_parser_field_pre_depends "''Pre-Depends''" di_package_dependency_type_pre_depends]
    dep [of internal_di_package_parser_field_recommends "''Recommends''" di_package_dependency_type_recommends]
    dep [of internal_di_package_parser_field_suggests "''Suggests''" di_package_dependency_type_suggests]
    dep [of internal_di_package_parser_field_conflicts "''Conflicts''" di_package_dependency_type_conflicts]
    dep [of internal_di_package_parser_field_enhances "''Enhances''" di_package_dependency_type_enhances]
  have all: "loads (write_dependencies ps p) (\<lambda>x. x) (\<lambda>t. concat (map (\<lambda>ty. if t = ty then dependency_names ty (heap ps) p else [])
      written_type_list))"
    unfolding list.map concat.simps append_Nil2
    by (rule loads_append [where F = "\<lambda>x. x" and F' = "\<lambda>x. x"] deps | simp add: di_packages_status_parser_fieldinfo_def
        field_defs dependency_keys_def written_types_def; fail)+
  show thesis
  proof (rule that [OF all])
    fix ty assume "ty \<in> written_types"
    then show "concat (map (\<lambda>ty'. if ty = ty' then dependency_names ty' (heap ps) p else []) written_type_list) =
        dependency_names ty (heap ps) p"
      by (cases ty) (simp_all add: written_types_def)
  qed
qed

text \<open>All fields behind the name, read in the order in which they are written.\<close>

lemma entry_loads:
  assumes w: "writable (heap ps) p"
  obtains F G where "loads (entry_fields (tl status_fields) ps p) F G"
    "\<And>n pr. F (zero_package\<lparr>pkg_package := n, pkg_type := di_package_type_real_package, pkg_priority := pr\<rparr>) =
       (status_part (heap ps p))\<lparr>pkg_package := n\<rparr>"
    "\<And>ty. ty \<in> written_types \<Longrightarrow> G ty = dependency_names ty (heap ps) p"
proof -
  obtain G where G: "loads (write_dependencies ps p) (\<lambda>x. x) G"
    "\<And>ty. ty \<in> written_types \<Longrightarrow> G ty = dependency_names ty (heap ps) p"
    using loads_dependencies [OF w] by blast
  note chain = loads_append [OF loads_status [of p ps] loads_append [OF loads_attributes(8) [OF w] loads_append [OF loads_priority [of p ps]
    loads_append [OF loads_attributes(1) [OF w] loads_append [OF loads_attributes(6) [OF w] loads_append [OF loads_attributes(2) [OF w]
    loads_append [OF loads_attributes(3) [OF w] loads_append [OF G(1) loads_append [OF loads_description [OF w]
    loads_append [OF loads_attributes(7) [OF w] loads_append [OF loads_attributes(4) [OF w] loads_attributes(5) [OF w]
    ]]]]]]]]]]]
  have fields: "entry_fields (tl status_fields) ps p =
      di_package_parser_write_status ''Status'' p ps @ di_parser_write_boolean ''Essential'' pkg_essential p ps @
      di_package_parser_write_priority ''Priority'' p ps @ di_parser_write_string ''Section'' pkg_section p ps @
      di_parser_write_int ''Installed-Size'' pkg_installed_size p ps @
      di_parser_write_string ''Maintainer'' pkg_maintainer p ps @ di_parser_write_string ''Version'' pkg_version p ps @
      write_dependencies ps p @ di_package_parser_write_description ''Description'' p ps @
      di_parser_write_int ''Installer-Menu-Item'' installer_menu_item p ps @
      di_parser_write_string ''Subarchitecture'' subarchitecture p ps @
      di_parser_write_string ''Kernel-Version'' kernel_version p ps"
    by (simp add: status_fields_defs)
  have "pkg_short_description (heap ps p) = None \<longrightarrow> pkg_description (heap ps p) = None"
    using w by (auto simp: writable_def)
  then show thesis
    by (intro that [OF chain [folded fields]])
      (simp add: set_default zero_package_def status_part_def, auto simp: G(2) intro!: di_system_package.equality)
qed

text \<open>What a package of one container and one of another have in common after a round trip.\<close>

definition same_status :: "pkg_heap \<Rightarrow> pkg_ptr \<Rightarrow> pkg_heap \<Rightarrow> pkg_ptr \<Rightarrow> bool" where
  "same_status h' q h p \<longleftrightarrow> status_part (h' q) = status_part (h p) \<and>
     (\<forall>ty \<in> written_types. dependency_names ty h' q = dependency_names ty h p)"

lemma status_part_simps: "status_part (bare x) = status_part x" "status_part (status_part x) = status_part x"
  by (simp_all add: status_part_def bare_def)

lemma same_status_bare:
  assumes "same_status h q h0 p" "bare (h' q) = bare (h q)"
    "\<forall>ty \<in> written_types. dependency_names ty h' q = dependency_names ty h q"
  shows "same_status h' q h0 p"
proof -
  have "status_part (h' q) = status_part (h q)" by (metis assms(2) status_part_simps(1))
  with assms show ?thesis by (simp add: same_status_def)
qed

lemma same_status_name: "same_status h' q h p \<Longrightarrow> pkg_package (h' q) = pkg_package (h p)"
proof -
  assume "same_status h' q h p"
  then have "pkg_package (status_part (h' q)) = pkg_package (status_part (h p))" by (simp add: same_status_def)
  then show ?thesis by (simp add: status_part_def)
qed

text \<open>The \<open>Package\<close> field of a package that is not in the list yet.\<close>

lemma read_name_new:
  assumes ok: "store_ok s" and n: "valid_name n" and new: "n \<notin> (\<lambda>p. pkg_package (heap s p)) ` set (pkg_list s)"
  obtains q s' pr where
    "di_packages_parser_read_name data m (n @ r) (length n) s = Some (Some q, s')"
    "store_ok s'" "pkg_list s' = pkg_list s @ [q]" "q \<notin> set (pkg_list s)"
    "bare (heap s' q) = zero_package\<lparr>pkg_package := n, pkg_type := di_package_type_real_package, pkg_priority := pr\<rparr>"
    "\<And>ty. ty \<in> written_types \<Longrightarrow> dependency_names ty (heap s') q = []"
    "\<And>p. p \<in> set (pkg_list s) \<Longrightarrow> heap s' p = heap s p"
    "\<And>p ty. p \<in> set (pkg_list s) \<Longrightarrow> dependency_names ty (heap s') p = dependency_names ty (heap s) p"
proof -
  obtain q s1 where g: "di_packages_get_package_new s n (length n) = (q, s1)" by fastforce
  note st = get_package_new_store [OF ok n g]
  have ne: "n \<noteq> []" using n by (simp add: valid_name_def)
  define s2 where "s2 = upd_pkg q (\<lambda>x. x\<lparr>pkg_type := di_package_type_real_package\<rparr>) s1"
  define s' where "s' = s2\<lparr>pkg_list := pkg_list s2 @ [q]\<rparr>"
  have read: "di_packages_parser_read_name data m (n @ r) (length n) s = Some (Some q, s')"
    by (simp add: di_packages_parser_read_name_def get_package_new_prefix [OF ne] g s2_def s'_def Let_def)
  have q: "q \<notin> set (pkg_list s)" using new st(3,5) store_okD(6) [OF ok] by auto
  have ment: "mentioned (heap s1 q)" using store_okD(5) [OF st(1,2)] q st(6) by simp
  have ok2: "packages_ok s2" using packages_ok_upd [OF store_okD(1) [OF st(1)]] by (simp add: s2_def)
  have mem: "members s' = members s1" by (simp add: s'_def s2_def members_def)
  have "packages_ok s'"
    using ok2 st(2) q st(6) by (auto simp: packages_ok_def s'_def s2_def members_def)
  moreover have "valid_name (pkg_package (heap s' p)) \<and> (\<forall>d \<in> set (pkg_depends (heap s' p)). dep_ptr d \<in> members s') \<and>
      (if p \<in> set (pkg_list s') then pkg_type (heap s' p) = di_package_type_real_package else mentioned (heap s' p))"
    if "p \<in> members s'" for p
    using store_okD(2-5) [OF st(1), of p] that mem by (cases "p = q") (auto simp: s'_def s2_def)
  ultimately have ok': "store_ok s'" by (simp add: store_ok_def)
  define pr where "pr = pkg_priority (heap s1 q)"
  have dn: "dependency_names ty (heap s') p = dependency_names ty (heap s1) p" for ty p
    by (simp add: s'_def s2_def dependency_names_def)
  have bare_q: "bare (heap s' q) = zero_package\<lparr>pkg_package := n, pkg_type := di_package_type_real_package, pkg_priority := pr\<rparr>"
  proof -
    have zero: "zero_package = (heap s1 q)\<lparr>pkg_package := [], pkg_type := di_package_type_non_existent,
        pkg_priority := di_package_priority_unspecified, pkg_depends := []\<rparr>"
      using ment by (simp add: mentioned_def)
    show ?thesis unfolding zero using st(3)
      by (auto simp: bare_def s'_def s2_def pr_def intro!: di_system_package.equality)
  qed
  have "dependency_names ty (heap s') q = []" if "ty \<in> written_types" for ty
    unfolding dn using ment that by (auto simp: mentioned_def dependency_names_def filter_empty_conv)
  moreover have "heap s' p = heap s p" if "p \<in> set (pkg_list s)" for p
    using that q st(5) store_okD(6) [OF ok] by (auto simp: s'_def s2_def)
  moreover have "dependency_names ty (heap s') p = dependency_names ty (heap s) p" if "p \<in> set (pkg_list s)" for p ty
    unfolding dn using that st(5) store_okD(6) [OF ok that] store_okD(3) [OF ok, of p] by (simp add: dependency_names_def)
  moreover have "pkg_list s' = pkg_list s @ [q]" using st(6) by (simp add: s'_def s2_def)
  ultimately show thesis using that [OF read ok' _ q bare_q] by blast
qed

text \<open>One entry: the package appears at the end of the list, with all its fields.\<close>

lemma feed_entry:
  assumes ok: "store_ok s" and w: "writable (heap ps) p"
    and new: "pkg_package (heap ps p) \<notin> (\<lambda>p. pkg_package (heap s p)) ` set (pkg_list s)"
  obtains q s' where "status.feed (entry_fields status_fields ps p) None s = Some (Some q, s')" "store_ok s'"
    "pkg_list s' = pkg_list s @ [q]" "same_status (heap s') q (heap ps) p"
    "\<And>r h0 p0. r \<in> set (pkg_list s) \<Longrightarrow> same_status (heap s) r h0 p0 \<Longrightarrow> same_status (heap s') r h0 p0"
proof -
  let ?n = "pkg_package (heap ps p)"
  have n: "valid_name ?n" using w by (simp add: writable_def)
  obtain q s1 pr where
    read: "di_packages_parser_read_name None None (?n @ [NL]) (length ?n) s = Some (Some q, s1)" and
    one: "store_ok s1" "pkg_list s1 = pkg_list s @ [q]" "q \<notin> set (pkg_list s)"
      "bare (heap s1 q) = zero_package\<lparr>pkg_package := ?n, pkg_type := di_package_type_real_package, pkg_priority := pr\<rparr>"
      "\<And>ty. ty \<in> written_types \<Longrightarrow> dependency_names ty (heap s1) q = []"
      "\<And>p. p \<in> set (pkg_list s) \<Longrightarrow> heap s1 p = heap s p"
      "\<And>p ty. p \<in> set (pkg_list s) \<Longrightarrow> dependency_names ty (heap s1) p = dependency_names ty (heap s) p"
    using read_name_new [OF ok n new] by metis
  obtain F G where FG: "loads (entry_fields (tl status_fields) ps p) F G"
    "\<And>n pr. F (zero_package\<lparr>pkg_package := n, pkg_type := di_package_type_real_package, pkg_priority := pr\<rparr>) =
       (status_part (heap ps p))\<lparr>pkg_package := n\<rparr>"
    "\<And>ty. ty \<in> written_types \<Longrightarrow> G ty = dependency_names ty (heap ps) p"
    using entry_loads [OF w] by blast
  have q1: "q \<in> set (pkg_list s1)" using one(2) by simp
  obtain s' where rest: "status.feed (entry_fields (tl status_fields) ps p) (Some q) s1 = Some (Some q, s')"
      "evolves q F G s1 s'"
    using FG(1) one(1) q1 unfolding loads_def by blast
  have disp: "dispatch_field di_system_packages_status_parser_info ''Package'' v k None s =
      di_packages_parser_read_name None None v k s" for v k
    using status_dispatch [of internal_di_packages_parser_field_package]
    by (simp add: di_packages_status_parser_fieldinfo_def internal_di_packages_parser_field_package_def)
  have "entry_fields status_fields ps p = (''Package'', ?n) # entry_fields (tl status_fields) ps p"
    by (simp add: di_packages_status_parser_fieldinfo_def internal_di_packages_parser_field_package_def
        di_parser_write_string_def)
  then have feed: "status.feed (entry_fields status_fields ps p) None s = Some (Some q, s')"
    using disp read rest(1) by simp
  have "bare (heap s' q) = status_part (heap ps p)"
    using rest(2) one(4) FG(2) by (simp add: evolves_def status_part_def)
  then have "status_part (heap s' q) = status_part (heap ps p)" by (metis status_part_simps)
  then have "same_status (heap s') q (heap ps) p"
    using rest(2) FG(3) one(5) by (auto simp: same_status_def evolves_def)
  moreover have "same_status (heap s') r h0 p0" if "r \<in> set (pkg_list s)" "same_status (heap s) r h0 p0" for r h0 p0
    by (rule same_status_bare [OF that(2)]) (use rest(2) one(2,3,6,7) that(1) in \<open>auto simp: evolves_def\<close>)
  ultimately show thesis using that [OF feed] rest(2) one(2) by (simp add: evolves_def)
qed

lemma feed_all:
  assumes "store_ok s" "\<forall>p \<in> set acts. writable (heap ps) p"
    "distinct (map (\<lambda>p. pkg_package (heap ps p)) (done @ acts))"
    "list_all2 (\<lambda>q p. same_status (heap s) q (heap ps) p) (pkg_list s) done"
  shows "\<exists>s'. status.feed_entries (map (entry_fields status_fields ps) acts) s = Some s' \<and> store_ok s' \<and>
    list_all2 (\<lambda>q p. same_status (heap s') q (heap ps) p) (pkg_list s') (done @ acts)"
  using assms
proof (induction acts arbitrary: s "done")
  case (Cons p acts)
  have "pkg_package (heap s q) \<noteq> pkg_package (heap ps p)" if q: "q \<in> set (pkg_list s)" for q
  proof -
    obtain i where i: "i < length (pkg_list s)" "q = pkg_list s ! i" using q by (metis in_set_conv_nth)
    then have p0: "done ! i \<in> set done" "same_status (heap s) q (heap ps) (done ! i)"
      using Cons.prems(4) by (auto simp: list_all2_conv_all_nth)
    then have "pkg_package (heap ps (done ! i)) \<noteq> pkg_package (heap ps p)"
      using Cons.prems(3) by (auto simp: image_iff)
    then show ?thesis using same_status_name [OF p0(2)] by simp
  qed
  then have new: "pkg_package (heap ps p) \<notin> (\<lambda>p. pkg_package (heap s p)) ` set (pkg_list s)" by (metis imageE)
  have w: "writable (heap ps) p" using Cons.prems(2) by simp
  obtain q s1 where one: "status.feed (entry_fields status_fields ps p) None s = Some (Some q, s1)" "store_ok s1"
    "pkg_list s1 = pkg_list s @ [q]" "same_status (heap s1) q (heap ps) p"
    "\<And>r h0 p0. r \<in> set (pkg_list s) \<Longrightarrow> same_status (heap s) r h0 p0 \<Longrightarrow> same_status (heap s1) r h0 p0"
    using feed_entry [OF Cons.prems(1) w new] by metis
  have "list_all2 (\<lambda>q p. same_status (heap s1) q (heap ps) p) (pkg_list s) done"
    using Cons.prems(4) one(5) by (auto simp: list_all2_conv_all_nth)
  then have "list_all2 (\<lambda>q p. same_status (heap s1) q (heap ps) p) (pkg_list s1) (done @ [p])"
    using one(3,4) by (simp add: list_all2_appendI)
  with Cons.IH [OF one(2), of "done @ [p]"] Cons.prems(2,3) one(1) show ?case by simp
qed simp

subsection \<open>Properties\<close>

lemma store_ok_alloc: "store_ok (di_packages_alloc h n)"
proof -
  have "members (di_packages_alloc h n) = {}"
    by (simp add: members_def di_packages_alloc_def di_hash_table_new_full_def ht_entries_def)
  then show ?thesis using packages_ok_alloc by (simp add: store_ok_def)
qed

lemma entry_good: "writable (heap ps) p \<Longrightarrow>
  entry_fields status_fields ps p \<noteq> [] \<and> (\<forall>(f, v) \<in> set (entry_fields status_fields ps p). status_value f v)"
proof -
  assume w: "writable (heap ps) p"
  have fields: "entry_fields status_fields ps p = (''Package'', pkg_package (heap ps p)) # entry_fields (tl status_fields) ps p"
    by (simp add: di_packages_status_parser_fieldinfo_def internal_di_packages_parser_field_package_def
        di_parser_write_string_def)
  have n: "valid_name (pkg_package (heap ps p))" using w by (simp add: writable_def)
  have "good_value (join_names [pkg_package (heap ps p)])" by (rule join_names_good) (use n in auto)
  then have "status_value ''Package'' (pkg_package (heap ps p))"
    using valid_name_first [OF n, of "[]"]
    by (intro status_valueI(2) [of internal_di_packages_parser_field_package])
      (auto simp: di_packages_status_parser_fieldinfo_def internal_di_packages_parser_field_package_def dependency_keys_def)
  then show ?thesis unfolding fields using entry_loads [OF w] by (auto simp: loads_def)
qed


abbreviation example_heap :: pkg_heap where
  "example_heap \<equiv> (\<lambda>_. zero_package)
     (1 := zero_package\<lparr>pkg_package := ''netcfg'', pkg_version := Some ''1.2'', installer_menu_item := 18,
        pkg_status := di_package_status_installed,
        pkg_depends := [\<lparr>dep_type = di_package_dependency_type_depends, dep_ptr = 2\<rparr>]\<rparr>,
      2 := zero_package\<lparr>pkg_package := ''anna'', pkg_short_description := Some ''install'',
        pkg_description := Some '' the rest''\<rparr>)"

abbreviation example_container :: di_packages where
  "example_container \<equiv> (di_packages_alloc example_heap 3)\<lparr>pkg_list := [1, 2]\<rparr>"


end
