(* ===== verification/Deb_Template.thy ===== *)
theory Deb_Template
  imports Deb_Strutl
begin

text \<open>
  \<^verbatim>\<open>cdebconf/src/template.c\<close>: debconf templates, their localized fields, the merge of two
  versions of a template and the reader of template files.

  A string pointer that may be \<open>NULL\<close> is an option. The list of localized fields of a template
  always has a first entry, which \<open>template_new\<close> allocates, with the language \<open>""\<close>; it is kept
  apart from the entries that follow it. Environment variables are an argument.
\<close>

section \<open>Definitions\<close>

record template_l10n_fields =
  language :: string
  defaultval :: "string option"
  choices :: "string option"
  indices :: "string option"
  description :: "string option"
  extended_description :: "string option"

record template =
  tag :: "string option"
  ttype :: "string option"
  thelp :: "string option"
  l10n :: template_l10n_fields
  l10n_rest :: "template_l10n_fields list"

record l10n_env =
  LANGUAGE :: "string option"
  DEBCONF_NO_I18N :: "string option"
  DEBCONF_DROP_TRANSLATIONS :: "string option"

definition blank_fields :: "string \<Rightarrow> template_l10n_fields" where
  "blank_fields lang = \<lparr>language = lang, defaultval = None, choices = None, indices = None,
     description = None, extended_description = None\<rparr>"

subsection \<open>Languages\<close>

text \<open>The cache of \<open>getlanguage\<close>: the value of \<open>LANGUAGE\<close> it was made from and the languages.\<close>

record language_cache =
  cache_cur_lang :: "string option"
  cache_list_lang :: "string list"

fun split_colon :: "string \<Rightarrow> string \<Rightarrow> string list" where
  "split_colon w [] = [w]"
| "split_colon w (c # s) = (if c = CHR '':'' then w # split_colon [] s else split_colon (w @ [c]) s)"

definition getlanguage :: "l10n_env \<Rightarrow> language_cache \<Rightarrow> language_cache \<times> string option" where
  "getlanguage env cache =
     (let cache = (if cache_cur_lang cache = LANGUAGE env then cache
                   else case LANGUAGE env of
                     None \<Rightarrow> \<lparr>cache_cur_lang = None, cache_list_lang = []\<rparr>
                   | Some l \<Rightarrow> \<lparr>cache_cur_lang = Some l, cache_list_lang = split_colon [] l\<rparr>)
      in (cache, case cache_list_lang cache of [] \<Rightarrow> None | l # _ \<Rightarrow> Some l))"

text \<open>
  The languages in the order of preference: what the cache holds after a call of
  \<open>getlanguage\<close>; the lemma \<open>getlanguage_languages\<close> shows that the state of the cache before
  the call does not matter.
\<close>

definition languages :: "l10n_env \<Rightarrow> string list" where
  "languages env = cache_list_lang (fst (getlanguage env \<lparr>cache_cur_lang = None, cache_list_lang = []\<rparr>))"

definition allow_i18n :: "l10n_env \<Rightarrow> bool" where
  "allow_i18n env = (DEBCONF_NO_I18N env \<noteq> Some ''1'')"

definition load_all_translations :: "l10n_env \<Rightarrow> bool" where
  "load_all_translations env = (DEBCONF_DROP_TRANSLATIONS env \<noteq> Some ''1'')"

subsection \<open>Making and copying templates\<close>

definition template_new :: "string option \<Rightarrow> template" where
  "template_new t = \<lparr>tag = t, ttype = None, thelp = None, l10n = blank_fields [], l10n_rest = []\<rparr>"

definition fields_dup :: "template_l10n_fields \<Rightarrow> template_l10n_fields" where
  "fields_dup from = (blank_fields (language from))\<lparr>defaultval := defaultval from, choices := choices from,
     indices := indices from, description := description from, extended_description := extended_description from\<rparr>"

definition template_dup :: "template \<Rightarrow> template" where
  "template_dup t = (template_new (tag t))\<lparr>ttype := ttype t, thelp := thelp t,
     l10n := fields_dup (l10n t), l10n_rest := map fields_dup (l10n_rest t)\<rparr>"

definition template_l10nclear :: "template \<Rightarrow> template" where
  "template_l10nclear t = t\<lparr>l10n := blank_fields [], l10n_rest := []\<rparr>"

subsection \<open>Fields\<close>

definition template_field_get :: "template_l10n_fields \<Rightarrow> string \<Rightarrow> string option" where
  "template_field_get p field =
     (if strcasecmp_eq field ''default'' then defaultval p
      else if strcasecmp_eq field ''choices'' then choices p
      else if strcasecmp_eq field ''indices'' then indices p
      else if strcasecmp_eq field ''description'' then description p
      else if strcasecmp_eq field ''extended_description'' then extended_description p
      else None)"

definition template_field_set :: "string \<Rightarrow> string option \<Rightarrow> template_l10n_fields \<Rightarrow> template_l10n_fields" where
  "template_field_set field val p =
     (if strcasecmp_eq field ''default'' then p\<lparr>defaultval := val\<rparr>
      else if strcasecmp_eq field ''choices'' then p\<lparr>choices := val\<rparr>
      else if strcasecmp_eq field ''indices'' then p\<lparr>indices := val\<rparr>
      else if strcasecmp_eq field ''description'' then p\<lparr>description := val\<rparr>
      else if strcasecmp_eq field ''extended_description'' then p\<lparr>extended_description := val\<rparr>
      else p)"

text \<open>
  The loop of \<open>template_get_internal\<close>: an exact match ends it, the last two-letter match is kept
  in \<open>altret\<close>.
\<close>

fun get_internal_loop :: "template_l10n_fields list \<Rightarrow> string \<Rightarrow> string \<Rightarrow> string option \<Rightarrow> string option" where
  "get_internal_loop [] lang field altret = altret"
| "get_internal_loop (p # ps) lang field altret =
     (if language p = lang then template_field_get p field
      else get_internal_loop ps lang field
        (if length (language p) = 2 \<and> strncmp_eq 2 lang (language p) then template_field_get p field else altret))"

definition template_get_internal :: "template \<Rightarrow> string \<Rightarrow> string \<Rightarrow> string option" where
  "template_get_internal t lang field = get_internal_loop (l10n_rest t) lang field None"

fun first_language :: "template \<Rightarrow> string list \<Rightarrow> string \<Rightarrow> string option" where
  "first_language t [] field = None"
| "first_language t (l # ls) field =
     (case template_get_internal t l field of None \<Rightarrow> first_language t ls field | Some v \<Rightarrow> Some v)"

definition strcasestr :: "string \<Rightarrow> string \<Rightarrow> nat option" where
  "strcasestr s t = strstr (map c_tolower s) (map c_tolower t)"

text \<open>
  A field name \<open>Foo-xx.UTF-8\<close> is split at the first dash; the language is what precedes the
  character set. \<open>None\<close>: the suffix is not understood.
\<close>

definition before_dash :: "string \<Rightarrow> string" where
  "before_dash field = takeWhile (\<lambda>c. c \<noteq> CHR ''-'') field"

definition after_dash :: "string \<Rightarrow> string" where
  "after_dash field = tl (dropWhile (\<lambda>c. c \<noteq> CHR ''-'') field)"

definition utf8_language :: "string \<Rightarrow> string option" where
  "utf8_language altlang =
     (case strcasestr altlang ''.UTF-8'' of
        None \<Rightarrow> None
      | Some cp \<Rightarrow> if cp + 6 = length altlang \<and> cp \<noteq> 1 then Some (take cp altlang) else None)"

lemma before_dash_shorter [termination_simp]: "CHR ''-'' \<in> set field \<Longrightarrow> length (before_dash field) < length field"
  unfolding before_dash_def by (induction field) auto

function (sequential) template_lget :: "l10n_env \<Rightarrow> template \<Rightarrow> string option \<Rightarrow> string \<Rightarrow> string option" where
  "template_lget env t lang field =
     (if strcasecmp_eq field ''tag'' then tag t
      else if strcasecmp_eq field ''type'' then ttype t
      else if strcasecmp_eq field ''help'' then thelp t
      else if CHR ''-'' \<in> set field
      then (let altlang = after_dash field
            in if strcasecmp_eq altlang ''C'' then template_lget env t (Some ''C'') (before_dash field)
               else if \<not> allow_i18n env then None
               else (case utf8_language altlang of
                       None \<Rightarrow> None
                     | Some l \<Rightarrow> template_lget env t (Some l) (before_dash field)))
      else (case lang of
              None \<Rightarrow> template_field_get (l10n t) field
            | Some l \<Rightarrow>
                (case (if l = [] then first_language t (languages env) field else template_get_internal t l field) of
                   Some v \<Rightarrow> Some v
                 | None \<Rightarrow> template_field_get (l10n t) field)))"
  by pat_completeness auto
termination
  by (relation "measure (\<lambda>(env, t, lang, field). length field)") (auto simp: before_dash_shorter)

declare template_lget.simps [simp del]

text \<open>The loop over the languages: set the field of the entry of the language, or append an entry.\<close>

fun lset_walk :: "string \<Rightarrow> string \<Rightarrow> string option \<Rightarrow> template_l10n_fields list \<Rightarrow> template_l10n_fields list" where
  "lset_walk curlang field val [] = [template_field_set field val (blank_fields curlang)]"
| "lset_walk curlang field val (p # ps) =
     (if language p = curlang then template_field_set field val p # ps else p # lset_walk curlang field val ps)"

definition lset_curlang :: "string option \<Rightarrow> string \<Rightarrow> string option \<Rightarrow> template \<Rightarrow> template" where
  "lset_curlang curlang field val t =
     (case curlang of
        None \<Rightarrow> t\<lparr>l10n := template_field_set field val (l10n t)\<rparr>
      | Some l \<Rightarrow> if language (l10n t) = l then t\<lparr>l10n := template_field_set field val (l10n t)\<rparr>
                  else t\<lparr>l10n_rest := lset_walk l field val (l10n_rest t)\<rparr>)"

text \<open>Whether a translation is kept when only those of the wanted languages are.\<close>

definition wanted_language :: "l10n_env \<Rightarrow> string \<Rightarrow> bool" where
  "wanted_language env lang =
     list_ex (\<lambda>l. let wantlang = takeWhile (\<lambda>c. c \<notin> set ''_.@'') l in strncmp_eq (length wantlang) lang wantlang)
       (languages env)"

definition lset_language :: "string \<Rightarrow> string option" where
  "lset_language altlang =
     (case utf8_language altlang of
        Some l \<Rightarrow> Some l
      | None \<Rightarrow> if CHR ''.'' \<notin> set altlang then Some altlang else None)"

function (sequential) template_lset ::
  "l10n_env \<Rightarrow> string option \<Rightarrow> string \<Rightarrow> string option \<Rightarrow> template \<Rightarrow> template" where
  "template_lset env lang field val t =
     (if strcasecmp_eq field ''tag'' then t\<lparr>tag := val\<rparr>
      else if strcasecmp_eq field ''type'' then t\<lparr>ttype := val\<rparr>
      else if strcasecmp_eq field ''help'' then t\<lparr>thelp := val\<rparr>
      else if CHR ''-'' \<in> set field
      then (let altlang = after_dash field
            in if strcasecmp_eq altlang ''C'' then template_lset env (Some ''C'') (before_dash field) val t
               else if \<not> allow_i18n env then t
               else (case lset_language altlang of
                       None \<Rightarrow> t
                     | Some l \<Rightarrow> template_lset env (Some l) (before_dash field) val t))
      else (case lang of
              None \<Rightarrow> t\<lparr>l10n := template_field_set field val (l10n t)\<rparr>
            | Some l \<Rightarrow>
                if l = [] then lset_curlang (case languages env of [] \<Rightarrow> None | x # _ \<Rightarrow> Some x) field val t
                else if load_all_translations env \<or> l = ''C'' \<or> strncmp_eq 2 l ''en'' \<or> wanted_language env l
                then lset_curlang (Some l) field val t
                else t))"
  by pat_completeness auto
termination
  by (relation "measure (\<lambda>(env, lang, field, val, t). length field)") (auto simp: before_dash_shorter)

declare template_lset.simps [simp del]

definition template_cur_l10n_fields :: "template \<Rightarrow> string option \<Rightarrow> template_l10n_fields option" where
  "template_cur_l10n_fields t lang =
     (case lang of None \<Rightarrow> Some (l10n t) | Some l \<Rightarrow> find (\<lambda>p. language p = l) (l10n t # l10n_rest t))"

fun next_lang_loop :: "template_l10n_fields list \<Rightarrow> string \<Rightarrow> string option" where
  "next_lang_loop [] lang = None"
| "next_lang_loop (p # ps) lang =
     (if language p = lang then (case ps of [] \<Rightarrow> None | q # _ \<Rightarrow> Some (language q)) else next_lang_loop ps lang)"

definition template_next_lang :: "template \<Rightarrow> string option \<Rightarrow> string option" where
  "template_next_lang t lang =
     next_lang_loop (l10n t # l10n_rest t) (case lang of None \<Rightarrow> language (l10n t) | Some l \<Rightarrow> l)"

subsection \<open>Merging\<close>

text \<open>The loop that deletes outdated translations, on one entry.\<close>

definition drop_outdated :: "bool \<Rightarrow> bool \<Rightarrow> template_l10n_fields \<Rightarrow> template_l10n_fields" where
  "drop_outdated same_choices same_description p =
     (let p = (if same_choices then p else p\<lparr>choices := None, indices := None\<rparr>)
      in if same_description then p else p\<lparr>description := None, extended_description := None\<rparr>)"

definition non_empty :: "string option \<Rightarrow> bool" where
  "non_empty v \<longleftrightarrow> v \<noteq> None \<and> v \<noteq> Some []"

text \<open>The fields of \<open>from\<close> that have a text replace those of \<open>to\<close>.\<close>

definition merge_fields :: "template_l10n_fields \<Rightarrow> template_l10n_fields \<Rightarrow> template_l10n_fields" where
  "merge_fields from to =
     to\<lparr>defaultval := if non_empty (defaultval from) then defaultval from else defaultval to,
        choices := if non_empty (choices from) then choices from else choices to,
        indices := if non_empty (indices from) then indices from else indices to,
        description := if non_empty (description from) then description from else description to,
        extended_description := if non_empty (extended_description from) then extended_description from else extended_description to\<rparr>"

fun merge_walk :: "template_l10n_fields \<Rightarrow> template_l10n_fields list \<Rightarrow> template_l10n_fields list" where
  "merge_walk from [] = [merge_fields from (blank_fields (language from))]"
| "merge_walk from (p # ps) =
     (if language p = language from then merge_fields from p # ps else p # merge_walk from ps)"

definition merge_language :: "template_l10n_fields \<Rightarrow> template \<Rightarrow> template" where
  "merge_language from t =
     (if language (l10n t) = language from then t\<lparr>l10n := merge_fields from (l10n t)\<rparr>
      else t\<lparr>l10n_rest := merge_walk from (l10n_rest t)\<rparr>)"

definition merge_l10n :: "template \<Rightarrow> template \<Rightarrow> template" where
  "merge_l10n ret t =
     (let same_choices = (choices (l10n t) = choices (l10n ret));
          same_description = (description (l10n t) = description (l10n ret) \<and>
            extended_description (l10n t) = extended_description (l10n ret));
          ret = ret\<lparr>l10n_rest := map (drop_outdated same_choices same_description) (l10n_rest ret)\<rparr>
      in fold merge_language (l10n t # l10n_rest t) ret)"

text \<open>\<open>None\<close>: the types differ, and the template \<open>ret\<close> is as it was.\<close>

definition template_l10nmerge :: "template \<Rightarrow> template \<Rightarrow> template option" where
  "template_l10nmerge ret t =
     (if ttype ret = None then Some (merge_l10n (ret\<lparr>ttype := ttype t\<rparr>) t)
      else if ttype t = None then None
      else if ttype ret \<noteq> ttype t then None
      else Some (merge_l10n ret t))"

subsection \<open>Reading template files\<close>

text \<open>
  \<open>remove_newlines\<close> writes into the text it reads. The loop returns what it wrote and whether it
  wrote a NUL at the end; without one the text goes on with what was there before.
\<close>

fun remove_newlines_loop :: "bool \<Rightarrow> string \<Rightarrow> string \<times> bool" where
  "remove_newlines_loop asis [] = ([], False)"
| "remove_newlines_loop asis (c # s) =
     (if c \<noteq> NL then map_prod (Cons c) id (remove_newlines_loop asis s)
      else case s of
        [] \<Rightarrow> ([], True)
      | d # s' \<Rightarrow>
          if d = CHR ''.'' \<and> peek s' = NL
          then map_prod (\<lambda>r. NL # NL # r) id (remove_newlines_loop False (tl s'))
          else if d = SP then map_prod (Cons NL) id (remove_newlines_loop True s)
          else if asis then map_prod (Cons NL) id (remove_newlines_loop False s)
          else map_prod (Cons SP) id (remove_newlines_loop False s))"

definition remove_newlines :: "string \<Rightarrow> string" where
  "remove_newlines txt =
     (case remove_newlines_loop False txt of
        (out, terminated) \<Rightarrow> if terminated then out else out @ drop (length out) txt)"

text \<open>
  \<open>fgets\<close> with a buffer of \<open>n\<close> bytes on the rest of the file: the text read and the new rest.
\<close>

fun fgets :: "nat \<Rightarrow> string \<Rightarrow> string \<times> string" where
  "fgets n [] = ([], [])"
| "fgets n (c # s) =
     (if n \<le> 1 then ([], c # s)
      else if c = NL then ([c], s)
      else map_prod (Cons c) id (fgets (n - 1) s))"

definition LINE_SIZE :: nat where
  "LINE_SIZE = 4096"

definition EXTDESC_SIZE :: nat where
  "EXTDESC_SIZE = 8192"

datatype load_error = NeverEnds | Overflow

lemma fgets_length: "length (fst (fgets n s)) + length (snd (fgets n s)) = length s"
  by (induction n s rule: fgets.induct) auto

text \<open>
  A line is read in pieces as long as the buffer is full. At the end of the file the buffer
  keeps its contents, and a last piece that fills it is appended for ever.
\<close>

function (sequential) read_line :: "string \<Rightarrow> load_error + string \<times> string" where
  "read_line s =
     (case fgets LINE_SIZE s of
        (buf, rest) \<Rightarrow>
          if length buf \<noteq> LINE_SIZE - 1 then Inr (buf, rest)
          else if rest = [] then Inl NeverEnds
          else (case read_line rest of Inl e \<Rightarrow> Inl e | Inr (line, rest') \<Rightarrow> Inr (buf @ line, rest')))"
  by pat_completeness auto
termination
proof (relation "measure length")
  fix s buf rest
  assume x: "(buf, rest) = fgets LINE_SIZE s" and n: "\<not> length buf \<noteq> LINE_SIZE - 1"
  show "(rest, s) \<in> measure length"
    using fgets_length [of LINE_SIZE s] n x [symmetric] by (auto simp: LINE_SIZE_def)
qed simp

declare read_line.simps [simp del]

lemma fgets_shorter: "s \<noteq> [] \<Longrightarrow> length (snd (fgets LINE_SIZE s)) < length s"
  using fgets_length [of LINE_SIZE s] by (cases s) (auto simp: LINE_SIZE_def)

text \<open>The lines of the extended description: as long as the next line starts with a space.\<close>

function (sequential) read_extdesc :: "string \<Rightarrow> string \<Rightarrow> load_error + string \<times> string" where
  "read_extdesc extdesc s =
     (if peek s \<noteq> SP then Inr (extdesc, s)
      else (case fgets LINE_SIZE s of
              (buf, rest) \<Rightarrow>
                let extdesc = strvacat extdesc EXTDESC_SIZE [tl buf]
                in if length extdesc \<ge> EXTDESC_SIZE then Inl Overflow else read_extdesc extdesc rest))"
  by pat_completeness auto
termination
proof (relation "measure (\<lambda>(e, s). length s)")
  fix extdesc s buf rest e
  assume p: "\<not> peek s \<noteq> SP" and x: "(buf, rest) = fgets LINE_SIZE s"
  have "s \<noteq> []" using p by (auto simp: peek_def)
  from fgets_shorter [OF this] x [symmetric] show "((e, rest), extdesc, s) \<in> measure (\<lambda>(e, s). length s)" by simp
qed simp

declare read_extdesc.simps [simp del]

definition CHOMP :: "string \<Rightarrow> string" where
  "CHOMP s = (if s \<noteq> [] \<and> last s = NL then butlast s else s)"

definition starts :: "string \<Rightarrow> string \<Rightarrow> bool" where
  "starts p x \<longleftrightarrow> strstr p x = Some 0"

text \<open>
  The localized lines \<open>Default-xx.UTF-8: \<close>, \<open>Choices-xx.UTF-8: \<close> and \<open>Indices-xx.UTF-8: \<close>: the
  language and the text. \<open>name\<close> is the field name with its dash.
\<close>

definition localized_line :: "string \<Rightarrow> string \<Rightarrow> (string \<times> string) option" where
  "localized_line name p =
     (if strcasestr p (name @ ''C: '') = Some 0 then Some (''C'', drop (length name + 3) p)
      else case strcasestr p ''.UTF-8: '' of
        None \<Rightarrow> None
      | Some cp \<Rightarrow> if cp = length name then None
                   else Some (take (cp - length name) (drop (length name) p), drop (cp + 8) p))"

definition load_localized :: "l10n_env \<Rightarrow> string \<Rightarrow> string \<Rightarrow> string \<Rightarrow> template \<Rightarrow> template" where
  "load_localized env name field p t =
     (case localized_line name p of
        None \<Rightarrow> t
      | Some (lang, txt) \<Rightarrow> template_lset env (Some lang) field (Some txt) t)"

text \<open>
  The description with the extended description that follows it. \<open>lang\<close> is \<open>None\<close> for the
  untranslated one; \<open>keep\<close> is false for a line that is not understood, whose extended
  description is skipped.
\<close>

definition load_extdesc ::
  "l10n_env \<Rightarrow> string option \<Rightarrow> bool \<Rightarrow> template \<Rightarrow> string \<Rightarrow> load_error + template \<times> string" where
  "load_extdesc env lang keep t rest =
     (case read_extdesc [] rest of
        Inl e \<Rightarrow> Inl e
      | Inr (extdesc, rest) \<Rightarrow>
          Inr (if extdesc \<noteq> [] \<and> keep
               then template_lset env lang ''extended_description'' (Some (remove_newlines extdesc)) t else t, rest))"

text \<open>What one line does to the template that is read, with the rest of the file.\<close>

definition load_field :: "l10n_env \<Rightarrow> string \<Rightarrow> string \<Rightarrow> template \<Rightarrow> load_error + template \<times> string" where
  "load_field env p rest t =
     (if starts p ''Type: '' then Inr (template_lset env None ''type'' (Some (drop 6 p)) t, rest)
      else if starts p ''Help: '' then Inr (template_lset env None ''help'' (Some (drop 6 p)) t, rest)
      else if starts p ''Default: '' then Inr (template_lset env None ''default'' (Some (drop 9 p)) t, rest)
      else if allow_i18n env \<and> starts p ''Default-'' then Inr (load_localized env ''Default-'' ''default'' p t, rest)
      else if starts p ''Choices: '' then Inr (template_lset env None ''choices'' (Some (drop 9 p)) t, rest)
      else if allow_i18n env \<and> starts p ''Choices-'' then Inr (load_localized env ''Choices-'' ''choices'' p t, rest)
      else if starts p ''Indices: '' then Inr (template_lset env None ''indices'' (Some (drop 9 p)) t, rest)
      else if allow_i18n env \<and> starts p ''Indices-'' then Inr (load_localized env ''Indices-'' ''indices'' p t, rest)
      else if starts p ''Description: ''
      then load_extdesc env None True (template_lset env None ''description'' (Some (drop 13 p)) t) rest
      else if allow_i18n env \<and> starts p ''Description-''
      then (case localized_line ''Description-'' p of
              None \<Rightarrow> load_extdesc env None False t rest
            | Some (lang, txt) \<Rightarrow>
                load_extdesc env (Some lang) True (template_lset env (Some lang) ''description'' (Some txt) t) rest)
      else Inr (t, rest))"

fun push_template :: "template list \<Rightarrow> template option \<Rightarrow> template list" where
  "push_template tlist None = tlist"
| "push_template tlist (Some t) = t # tlist"

lemma read_extdesc_shorter: "read_extdesc extdesc s = Inr (e, rest) \<Longrightarrow> length rest \<le> length s"
proof (induction extdesc s rule: read_extdesc.induct)
  case (1 extdesc s)
  show ?case
  proof (cases "peek s = SP")
    case True
    then have ne: "s \<noteq> []" by (auto simp: peek_def)
    obtain buf r where f: "fgets LINE_SIZE s = (buf, r)" by fastforce
    have "length rest \<le> length r"
      using 1 True f by (auto simp: read_extdesc.simps [of extdesc s] Let_def simp del: strvacat.simps split: if_splits)
    with fgets_shorter [OF ne] f show ?thesis by simp
  next
    case False
    then show ?thesis using "1.prems" by (simp add: read_extdesc.simps)
  qed
qed

lemma load_extdesc_shorter: "load_extdesc env lang keep t rest = Inr (t', rest') \<Longrightarrow> length rest' \<le> length rest"
  by (auto simp: load_extdesc_def split: sum.splits dest: read_extdesc_shorter)

lemma load_field_shorter: "load_field env p rest t = Inr (t', rest') \<Longrightarrow> length rest' \<le> length rest"
  by (auto simp: load_field_def split: if_splits option.splits dest: load_extdesc_shorter)

lemma read_line_shorter: "read_line s = Inr (line, rest) \<Longrightarrow> s \<noteq> [] \<Longrightarrow> length rest < length s"
proof (induction s arbitrary: line rest rule: read_line.induct)
  case (1 s)
  obtain buf r where f: "fgets LINE_SIZE s = (buf, r)" by fastforce
  have "length rest \<le> length r"
    using 1(1) [OF f [symmetric]] "1.prems" f
    by (cases "length buf = LINE_SIZE - 1"; cases "r = []")
      (auto simp: read_line.simps [of s] split: sum.splits intro: less_imp_le)
  with fgets_shorter [OF "1.prems"(2)] f show ?case by simp
qed

text \<open>
  The loop over the lines. A line \<open>Template: \<close> starts a new template, also when the previous one
  was not ended by an empty line and is lost.
\<close>

function (sequential) load_loop ::
  "l10n_env \<Rightarrow> template list \<Rightarrow> template option \<Rightarrow> string \<Rightarrow> load_error + template list" where
  "load_loop env tlist t s =
     (if s = [] then Inr (push_template tlist t)
      else (case read_line s of
              Inl e \<Rightarrow> Inl e
            | Inr (line, rest) \<Rightarrow>
                let p = CHOMP line
                in if p = [] then load_loop env (push_template tlist t) None rest
                   else if starts p ''Template: '' then load_loop env tlist (Some (template_new (Some (drop 10 p)))) rest
                   else (case t of
                           None \<Rightarrow> load_loop env tlist None rest
                         | Some t \<Rightarrow>
                             (case load_field env p rest t of
                                Inl e \<Rightarrow> Inl e
                              | Inr (t, rest) \<Rightarrow> load_loop env tlist (Some t) rest))))"
  by pat_completeness auto
termination
  by (relation "measure (\<lambda>(env, tlist, t, s). length s)")
    (auto dest!: read_line_shorter load_field_shorter)

declare load_loop.simps [simp del]

definition template_load :: "l10n_env \<Rightarrow> string \<Rightarrow> load_error + template list" where
  "template_load env contents = load_loop env [] None contents"

section \<open>Templates as tables of texts\<close>

subsection \<open>The language cache\<close>

text \<open>The cache is always made from the value of \<open>LANGUAGE\<close> it remembers.\<close>

definition cache_ok :: "language_cache \<Rightarrow> bool" where
  "cache_ok cache \<longleftrightarrow>
     cache_list_lang cache = (case cache_cur_lang cache of None \<Rightarrow> [] | Some l \<Rightarrow> split_colon [] l)"

lemma getlanguage_languages:
  assumes "cache_ok cache"
  shows "cache_ok (fst (getlanguage env cache))" and "cache_list_lang (fst (getlanguage env cache)) = languages env"
  using assms by (auto simp: cache_ok_def getlanguage_def languages_def Let_def split: option.splits)

subsection \<open>Field names\<close>

definition l10n_field_names :: "string list" where
  "l10n_field_names = [''default'', ''choices'', ''indices'', ''description'', ''extended_description'']"

lemma l10n_field_names_cases:
  assumes "f \<in> set l10n_field_names"
  obtains "f = ''default''" | "f = ''choices''" | "f = ''indices''" | "f = ''description''" | "f = ''extended_description''"
  using assms unfolding l10n_field_names_def list.set insert_iff empty_iff
  by (elim disjE FalseE) (erule that)+

lemma field_get_simps [simp]:
  "template_field_get p ''default'' = defaultval p"
  "template_field_get p ''choices'' = choices p"
  "template_field_get p ''indices'' = indices p"
  "template_field_get p ''description'' = description p"
  "template_field_get p ''extended_description'' = extended_description p"
  by (simp_all add: template_field_get_def strcasecmp_eq_def c_tolower_def c_isupper_def)

lemma field_set_simps [simp]:
  "template_field_set ''default'' v p = p\<lparr>defaultval := v\<rparr>"
  "template_field_set ''choices'' v p = p\<lparr>choices := v\<rparr>"
  "template_field_set ''indices'' v p = p\<lparr>indices := v\<rparr>"
  "template_field_set ''description'' v p = p\<lparr>description := v\<rparr>"
  "template_field_set ''extended_description'' v p = p\<lparr>extended_description := v\<rparr>"
  by (simp_all add: template_field_set_def strcasecmp_eq_def c_tolower_def c_isupper_def)

lemma field_get_set:
  assumes "f \<in> set l10n_field_names" "g \<in> set l10n_field_names"
  shows "template_field_get (template_field_set f v p) g = (if f = g then v else template_field_get p g)"
  using assms(2)
  by (rule l10n_field_names_cases; use assms(1) in \<open>rule l10n_field_names_cases\<close>; simp)

lemma field_set_language [simp]: "language (template_field_set f v p) = language p"
  by (simp add: template_field_set_def)

lemma field_get_blank [simp]: "template_field_get (blank_fields l) f = None"
  by (simp add: template_field_get_def blank_fields_def)

lemma language_blank [simp]: "language (blank_fields l) = l"
  by (simp add: blank_fields_def)

lemma l10n_field_not_special:
  assumes "f \<in> set l10n_field_names"
  shows "\<not> strcasecmp_eq f ''tag''" "\<not> strcasecmp_eq f ''type''" "\<not> strcasecmp_eq f ''help''" "CHR ''-'' \<notin> set f"
  by (use assms in \<open>rule l10n_field_names_cases; simp add: strcasecmp_eq_def c_tolower_def c_isupper_def\<close>)+

subsection \<open>Entries\<close>

definition entry :: "template \<Rightarrow> string \<Rightarrow> template_l10n_fields option" where
  "entry t l = find (\<lambda>p. language p = l) (l10n t # l10n_rest t)"

text \<open>The text of a field in exactly one language, \<open>""\<close> for the untranslated one.\<close>

definition text_of :: "template \<Rightarrow> string \<Rightarrow> string \<Rightarrow> string option" where
  "text_of t l f = Option.bind (entry t l) (\<lambda>p. template_field_get p f)"

definition template_ok :: "template \<Rightarrow> bool" where
  "template_ok t \<longleftrightarrow> language (l10n t) = [] \<and> distinct (map language (l10n t # l10n_rest t))"

lemma find_language_walk:
  "find (\<lambda>p. language p = m) (lset_walk l f v ps) =
     (if m = l then Some (template_field_set f v (case find (\<lambda>p. language p = l) ps of None \<Rightarrow> blank_fields l | Some p \<Rightarrow> p))
      else find (\<lambda>p. language p = m) ps)"
  by (induction ps) auto

lemma find_language_merge_walk:
  "find (\<lambda>p. language p = m) (merge_walk from ps) =
     (if m = language from
      then Some (merge_fields from (case find (\<lambda>p. language p = m) ps of None \<Rightarrow> blank_fields m | Some p \<Rightarrow> p))
      else find (\<lambda>p. language p = m) ps)"
  by (induction ps) (auto simp: merge_fields_def)

lemma walk_languages [simp]:
  "map language (lset_walk l f v ps) = map language ps @ (if l \<in> set (map language ps) then [] else [l])"
  by (induction ps) auto

lemma merge_fields_language [simp]: "language (merge_fields from p) = language p"
  by (simp add: merge_fields_def)

lemma merge_walk_languages [simp]:
  "map language (merge_walk from ps) =
     map language ps @ (if language from \<in> set (map language ps) then [] else [language from])"
  by (induction ps) auto

lemma entry_lset_curlang:
  assumes "template_ok t"
  shows "entry (lset_curlang (Some l) f v t) m =
    (if m = l then Some (template_field_set f v (case entry t l of None \<Rightarrow> blank_fields l | Some p \<Rightarrow> p)) else entry t m)"
  using assms by (auto simp: entry_def lset_curlang_def find_language_walk template_ok_def)

lemma lset_curlang_ok: "template_ok t \<Longrightarrow> template_ok (lset_curlang l f v t)"
  by (auto simp: template_ok_def lset_curlang_def simp flip: set_map split: option.splits)

lemma template_lset_ok: "template_ok t \<Longrightarrow> template_ok (template_lset env l f v t)"
proof (induction env l f v t rule: template_lset.induct)
  case (1 env l f v t)
  have base: "template_ok (t\<lparr>l10n := template_field_set f v (l10n t)\<rparr>)" "template_ok (t\<lparr>tag := v\<rparr>)"
    "template_ok (t\<lparr>ttype := v\<rparr>)" "template_ok (t\<lparr>thelp := v\<rparr>)"
    using "1.prems" by (auto simp: template_ok_def)
  show ?case
    using 1 base lset_curlang_ok [OF "1.prems"]
    by (subst template_lset.simps) (auto simp: Let_def split: option.splits list.splits)
qed

lemma merge_language_ok: "template_ok t \<Longrightarrow> template_ok (merge_language from t)"
  by (auto simp: template_ok_def merge_language_def simp flip: set_map)

lemma entry_merge_language:
  assumes "template_ok t"
  shows "entry (merge_language from t) m =
    (if m = language from then Some (merge_fields from (case entry t m of None \<Rightarrow> blank_fields m | Some p \<Rightarrow> p)) else entry t m)"
  using assms by (auto simp: entry_def merge_language_def find_language_merge_walk template_ok_def)

lemma entry_fold_merge:
  assumes "template_ok ret" "distinct (map language ps)"
  shows "template_ok (fold merge_language ps ret)"
    and "entry (fold merge_language ps ret) m =
      (case find (\<lambda>p. language p = m) ps of
         None \<Rightarrow> entry ret m
       | Some from \<Rightarrow> Some (merge_fields from (case entry ret m of None \<Rightarrow> blank_fields m | Some p \<Rightarrow> p)))"
proof -
  have "template_ok (fold merge_language ps ret) \<and> entry (fold merge_language ps ret) m =
      (case find (\<lambda>p. language p = m) ps of
         None \<Rightarrow> entry ret m
       | Some from \<Rightarrow> Some (merge_fields from (case entry ret m of None \<Rightarrow> blank_fields m | Some p \<Rightarrow> p)))"
    using assms
  proof (induction ps arbitrary: ret)
    case (Cons p ps)
    have none: "find (\<lambda>p. language p = m) ps = None" if "language p = m"
      using Cons.prems(2) that by (auto simp: find_None_iff) (metis image_eqI)
    show ?case
      using Cons.IH [OF merge_language_ok [OF Cons.prems(1)]] Cons.prems(2) none
      by (auto simp: entry_merge_language [OF Cons.prems(1)] split: option.splits)
  qed simp
  then show "template_ok (fold merge_language ps ret)"
    and "entry (fold merge_language ps ret) m =
      (case find (\<lambda>p. language p = m) ps of
         None \<Rightarrow> entry ret m
       | Some from \<Rightarrow> Some (merge_fields from (case entry ret m of None \<Rightarrow> blank_fields m | Some p \<Rightarrow> p)))"
    by blast+
qed

lemma field_get_merge:
  assumes "f \<in> set l10n_field_names"
  shows "template_field_get (merge_fields from p) f =
    (if non_empty (template_field_get from f) then template_field_get from f else template_field_get p f)"
  by (use assms in \<open>rule l10n_field_names_cases; simp add: merge_fields_def\<close>)

lemma drop_outdated_language [simp]: "language (drop_outdated a b p) = language p"
  by (simp add: drop_outdated_def Let_def)

lemma field_get_drop_outdated:
  assumes "f \<in> set l10n_field_names"
  shows "template_field_get (drop_outdated a b p) f =
    (if \<not> a \<and> (f = ''choices'' \<or> f = ''indices'') \<or> \<not> b \<and> (f = ''description'' \<or> f = ''extended_description'')
     then None else template_field_get p f)"
  by (use assms in \<open>rule l10n_field_names_cases; simp add: drop_outdated_def Let_def\<close>)

lemma find_map_drop: "find (\<lambda>p. language p = m) (map (drop_outdated a b) ps) =
    map_option (drop_outdated a b) (find (\<lambda>p. language p = m) ps)"
  by (induction ps) auto

definition drop_all_outdated :: "bool \<Rightarrow> bool \<Rightarrow> template \<Rightarrow> template" where
  "drop_all_outdated a b t = t\<lparr>l10n_rest := map (drop_outdated a b) (l10n_rest t)\<rparr>"

lemma entry_drop_all:
  assumes "template_ok t"
  shows "template_ok (drop_all_outdated a b t)"
    and "entry (drop_all_outdated a b t) m =
      (if m = [] then entry t m else map_option (drop_outdated a b) (entry t m))"
proof -
  have "language \<circ> drop_outdated a b = language" by auto
  then show "template_ok (drop_all_outdated a b t)"
    using assms by (auto simp: template_ok_def drop_all_outdated_def image_image)
  show "entry (drop_all_outdated a b t) m = (if m = [] then entry t m else map_option (drop_outdated a b) (entry t m))"
    using assms by (auto simp: entry_def drop_all_outdated_def find_map_drop template_ok_def)
qed

text \<open>A field whose translations are dropped, because the untranslated text has changed.\<close>

definition outdated :: "template \<Rightarrow> template \<Rightarrow> string \<Rightarrow> bool" where
  "outdated ret t f \<longleftrightarrow>
     (f = ''choices'' \<or> f = ''indices'') \<and> text_of t [] ''choices'' \<noteq> text_of ret [] ''choices'' \<or>
     (f = ''description'' \<or> f = ''extended_description'') \<and>
       (text_of t [] ''description'' \<noteq> text_of ret [] ''description'' \<or>
        text_of t [] ''extended_description'' \<noteq> text_of ret [] ''extended_description'')"

lemma text_of_untranslated:
  assumes "template_ok t"
  shows "text_of t [] f = template_field_get (l10n t) f"
  using assms by (simp add: text_of_def entry_def template_ok_def)

lemma merge_l10n_alt:
  assumes "template_ok ret" "template_ok t"
  obtains a b where "merge_l10n ret t = fold merge_language (l10n t # l10n_rest t) (drop_all_outdated a b ret)"
    and "\<And>f. outdated ret t f \<longleftrightarrow> \<not> a \<and> (f = ''choices'' \<or> f = ''indices'') \<or>
      \<not> b \<and> (f = ''description'' \<or> f = ''extended_description'')"
proof
  show "merge_l10n ret t = fold merge_language (l10n t # l10n_rest t)
      (drop_all_outdated (choices (l10n t) = choices (l10n ret))
         (description (l10n t) = description (l10n ret) \<and> extended_description (l10n t) = extended_description (l10n ret)) ret)"
    by (simp add: merge_l10n_def Let_def drop_all_outdated_def)
  show "outdated ret t f \<longleftrightarrow> \<not> (choices (l10n t) = choices (l10n ret)) \<and> (f = ''choices'' \<or> f = ''indices'') \<or>
      \<not> (description (l10n t) = description (l10n ret) \<and> extended_description (l10n t) = extended_description (l10n ret)) \<and>
      (f = ''description'' \<or> f = ''extended_description'')" for f
    unfolding outdated_def text_of_untranslated [OF assms(1)] text_of_untranslated [OF assms(2)] field_get_simps by blast
qed

lemma merge_l10n_text:
  assumes "template_ok ret" "template_ok t"
  shows "template_ok (merge_l10n ret t)"
    and "f \<in> set l10n_field_names \<Longrightarrow> text_of (merge_l10n ret t) l f =
      (if non_empty (text_of t l f) then text_of t l f
       else if l \<noteq> [] \<and> outdated ret t f then None else text_of ret l f)"
proof -
  obtain a b where m: "merge_l10n ret t = fold merge_language (l10n t # l10n_rest t) (drop_all_outdated a b ret)"
    and o: "\<And>f. outdated ret t f \<longleftrightarrow> \<not> a \<and> (f = ''choices'' \<or> f = ''indices'') \<or>
      \<not> b \<and> (f = ''description'' \<or> f = ''extended_description'')"
    by (rule merge_l10n_alt [OF assms]) (rule that)
  have "distinct (map language (l10n t # l10n_rest t))" using assms(2) by (simp only: template_ok_def)
  note fold = entry_fold_merge [OF entry_drop_all(1) [OF assms(1)] this, of a b, folded m, folded entry_def]
  show "template_ok (merge_l10n ret t)" by (rule fold(1))
  assume f: "f \<in> set l10n_field_names"
  have none: "\<not> non_empty None" by (simp add: non_empty_def)
  show "text_of (merge_l10n ret t) l f = (if non_empty (text_of t l f) then text_of t l f
       else if l \<noteq> [] \<and> outdated ret t f then None else text_of ret l f)"
    unfolding text_of_def fold(2) entry_drop_all(2) [OF assms(1)]
    by (cases "entry t l"; cases "entry ret l"; cases "l = []")
      (simp_all add: none field_get_merge [OF f] field_get_drop_outdated [OF f, of a b, folded o])
qed

lemma template_lset_plain:
  assumes "f \<in> set l10n_field_names" "l \<noteq> []" "load_all_translations env"
  shows "template_lset env (Some l) f v t = lset_curlang (Some l) f v t"
  using assms(2,3) l10n_field_not_special [OF assms(1)] by (subst template_lset.simps) simp

lemma template_lget_plain:
  assumes "f \<in> set l10n_field_names" "l \<noteq> []"
  shows "template_lget env t (Some l) f =
    (case template_get_internal t l f of Some v \<Rightarrow> Some v | None \<Rightarrow> template_field_get (l10n t) f)"
  using assms(2) l10n_field_not_special [OF assms(1)] by (subst template_lget.simps) simp

lemma text_of_lset_curlang:
  assumes "template_ok t" "f \<in> set l10n_field_names" "g \<in> set l10n_field_names"
  shows "text_of (lset_curlang (Some l) f v t) m g = (if m = l \<and> g = f then v else text_of t m g)"
  unfolding text_of_def entry_lset_curlang [OF assms(1)]
  by (cases "entry t l"; cases "m = l") (simp_all add: field_get_set [OF assms(2,3)] eq_commute [of g])

text \<open>The name of a field in a language, as in \<open>Description-pt_BR.UTF-8\<close>.\<close>

definition localized_name :: "string \<Rightarrow> string \<Rightarrow> string" where
  "localized_name f l = f @ ''-'' @ l @ ''.UTF-8''"

lemma strstr_skip:
  assumes "u \<noteq> []" "hd u \<notin> set x"
  shows "strstr (x @ u @ y) u = Some (length x)"
  using assms
proof (induction x)
  case Nil
  then show ?case by (simp add: strstr.simps [of "u @ y" u])
next
  case (Cons c x)
  then obtain a v where u: "u = a # v" "a \<noteq> c" by (cases u) auto
  with Cons show ?case by (simp add: strstr.simps [of "c # x @ a # v @ y"])
qed

lemma c_tolower_dot: "c_tolower c = CHR ''.'' \<longleftrightarrow> c = CHR ''.''"
proof
  assume d: "c_tolower c = CHR ''.''"
  show "c = CHR ''.''"
  proof (cases "c_isupper c")
    case True
    then have "of_char (c_tolower c) = (of_char c :: nat) + 32" by (simp add: c_tolower_def c_isupper_def of_char_of)
    with d True show ?thesis by (simp add: c_isupper_def)
  qed (use d in \<open>simp add: c_tolower_def\<close>)
qed (simp add: c_tolower_def c_isupper_def)

lemma utf8_language_name:
  assumes "CHR ''.'' \<notin> set l" "length l \<noteq> 1"
  shows "utf8_language (l @ ''.UTF-8'') = Some l"
proof -
  let ?u = "map c_tolower ''.UTF-8''"
  have dot [simp]: "c_tolower (CHR ''.'') = CHR ''.''" by (simp add: c_tolower_dot)
  have "hd ?u \<notin> set (map c_tolower l)" using assms(1) by (auto simp: c_tolower_dot eq_commute [of "CHR ''.''"])
  from strstr_skip [OF _ this, of "[]"] have "strcasestr (l @ ''.UTF-8'') ''.UTF-8'' = Some (length l)"
    by (simp add: strcasestr_def)
  with assms(2) show ?thesis by (simp add: utf8_language_def)
qed

lemma localized_name_parts:
  assumes "f \<in> set l10n_field_names"
  shows "before_dash (localized_name f l) = f" "after_dash (localized_name f l) = l @ ''.UTF-8''"
    "CHR ''-'' \<in> set (localized_name f l)"
    "\<not> strcasecmp_eq (localized_name f l) ''tag''" "\<not> strcasecmp_eq (localized_name f l) ''type''"
    "\<not> strcasecmp_eq (localized_name f l) ''help''" "\<not> strcasecmp_eq (l @ ''.UTF-8'') ''C''"
proof -
  have d: "\<forall>c \<in> set f. c \<noteq> CHR ''-''" using l10n_field_not_special(4) [OF assms] by auto
  then show "before_dash (localized_name f l) = f" "after_dash (localized_name f l) = l @ ''.UTF-8''"
    by (simp_all add: before_dash_def after_dash_def localized_name_def takeWhile_append2 dropWhile_append2)
  have long: "map c_tolower (localized_name f l) \<noteq> map c_tolower x" if "length x \<le> 6" for x
  proof
    assume "map c_tolower (localized_name f l) = map c_tolower x"
    from map_eq_imp_length_eq [OF this] that show False by (simp add: localized_name_def)
  qed
  show "CHR ''-'' \<in> set (localized_name f l)"
    "\<not> strcasecmp_eq (localized_name f l) ''tag''" "\<not> strcasecmp_eq (localized_name f l) ''type''"
    "\<not> strcasecmp_eq (localized_name f l) ''help''"
    using long by (simp_all add: strcasecmp_eq_def del: list.map) (simp add: localized_name_def)
  show "\<not> strcasecmp_eq (l @ ''.UTF-8'') ''C''"
    by (auto simp: strcasecmp_eq_def dest!: map_eq_imp_length_eq)
qed

lemma template_lset_name:
  assumes "f \<in> set l10n_field_names" "CHR ''.'' \<notin> set l" "2 \<le> length l" "load_all_translations env" "allow_i18n env"
  shows "template_lset env lang (localized_name f l) v t = lset_curlang (Some l) f v t"
proof -
  have "l \<noteq> []" using assms(3) by auto
  note plain = template_lset_plain [OF assms(1) this assms(4)]
  show ?thesis
    using assms utf8_language_name [of l]
    by (subst template_lset.simps) (simp add: localized_name_parts Let_def lset_language_def plain)
qed

lemma template_lget_name:
  assumes "f \<in> set l10n_field_names" "CHR ''.'' \<notin> set l" "2 \<le> length l" "allow_i18n env"
  shows "template_lget env t lang (localized_name f l) = template_lget env t (Some l) f"
  using assms utf8_language_name [of l]
  by (subst template_lget.simps) (auto simp: localized_name_parts Let_def)

subsection \<open>Properties of templates\<close>

text \<open>The templates that the operations of the component make.\<close>

inductive made :: "l10n_env \<Rightarrow> template \<Rightarrow> bool" for env where
  made_new: "made env (template_new tg)"
| made_lset: "made env t \<Longrightarrow> made env (template_lset env l f v t)"
| made_dup: "made env t \<Longrightarrow> made env (template_dup t)"
| made_clear: "made env t \<Longrightarrow> made env (template_l10nclear t)"
| made_merge: "made env ret \<Longrightarrow> made env t \<Longrightarrow> template_l10nmerge ret t = Some r \<Longrightarrow> made env r"
| made_load: "template_load env s = Inr ts \<Longrightarrow> t \<in> set ts \<Longrightarrow> made env t"

lemma template_new_ok: "template_ok (template_new tg)"
  by (simp add: template_new_def template_ok_def)

lemma fields_dup_id [simp]: "fields_dup p = p"
  by (simp add: fields_dup_def blank_fields_def)

lemma template_dup_id [simp]: "template_dup t = t"
  by (simp add: template_dup_def template_new_def map_idI)

lemma template_l10nmerge_cases:
  assumes "template_l10nmerge ret t = Some r"
  shows "r = merge_l10n (ret\<lparr>ttype := ttype t\<rparr>) t" and "ttype ret = None \<or> ttype ret = ttype t"
  using assms by (auto simp: template_l10nmerge_def split: if_splits) (metis (full_types) template.surjective template.update_convs(2))

lemma ttype_update_texts [simp]:
  "template_ok (t\<lparr>ttype := x\<rparr>) = template_ok t" "text_of (t\<lparr>ttype := x\<rparr>) = text_of t"
  "outdated (t\<lparr>ttype := x\<rparr>) s = outdated t s"
  by (auto simp: template_ok_def text_of_def entry_def outdated_def fun_eq_iff)

lemma load_extdesc_ok: "load_extdesc env l k t s = Inr (t', s') \<Longrightarrow> template_ok t \<Longrightarrow> template_ok t'"
  by (auto simp: load_extdesc_def template_lset_ok split: sum.splits)

lemma load_localized_ok: "template_ok t \<Longrightarrow> template_ok (load_localized env name f p t)"
  by (auto simp: load_localized_def template_lset_ok split: option.splits)

lemma load_field_ok: "load_field env p s t = Inr (t', s') \<Longrightarrow> template_ok t \<Longrightarrow> template_ok t'"
  by (auto simp: load_field_def template_lset_ok load_localized_ok split: if_splits option.splits
      elim!: load_extdesc_ok)

lemma load_loop_all:
  assumes new: "\<And>x. P (template_new (Some x))"
    and step: "\<And>env p s t t' s'. P t \<Longrightarrow> load_field env p s t = Inr (t', s') \<Longrightarrow> P t'"
  shows "load_loop env tlist t s = Inr ts \<Longrightarrow> list_all P tlist \<Longrightarrow> pred_option P t \<Longrightarrow> list_all P ts"
proof (induction env tlist t s rule: load_loop.induct)
  case (1 env tlist t s)
  have push: "list_all P (push_template tlist t)" using "1.prems"(2,3) by (cases t) auto
  show ?case
  proof (cases "s = []")
    case True
    then show ?thesis using "1.prems"(1) push by (simp add: load_loop.simps)
  next
    case False
    then obtain line rest where l: "read_line s = Inr (line, rest)"
      using "1.prems"(1) by (subst (asm) load_loop.simps) (auto split: sum.splits)
    note IH = "1.IH" [OF False l refl refl]
    show ?thesis
      using False l IH "1.prems" push
      by (subst (asm) (5) load_loop.simps)
         (auto simp: Let_def new split: if_splits option.splits sum.splits, blast intro: step)
  qed
qed

lemma load_loop_ok:
  "load_loop env tlist t s = Inr ts \<Longrightarrow> list_all template_ok tlist \<Longrightarrow> pred_option template_ok t \<Longrightarrow> list_all template_ok ts"
  by (rule load_loop_all) (auto simp: template_new_ok dest: load_field_ok)

lemma made_ok: "made env t \<Longrightarrow> template_ok t"
proof (induction rule: made.induct)
  case (made_merge ret t r)
  then show ?case using merge_l10n_text(1) [of "ret\<lparr>ttype := ttype t\<rparr>" t] template_l10nmerge_cases(1) by simp
next
  case (made_load s ts t)
  then show ?case using load_loop_ok [of env "[]" None s ts] by (simp add: template_load_def list_all_iff)
qed (simp_all add: template_new_ok template_lset_ok, simp add: template_l10nclear_def template_ok_def)

text \<open>
  Property C21: in every template that the operations make, from a file, by setting fields, by
  copying or by merging, the first entry is the untranslated one and no language has two
  entries.
\<close>

theorem templates_well_formed:
  assumes "made env t"
  shows "language (l10n t) = [] \<and> distinct (map language (l10n t # l10n_rest t))"
  using made_ok [OF assms] by (simp only: template_ok_def)

abbreviation plain_env :: l10n_env where
  "plain_env \<equiv> \<lparr>LANGUAGE = Some ''pt_BR:fr'', DEBCONF_NO_I18N = None, DEBCONF_DROP_TRANSLATIONS = None\<rparr>"

definition example_template :: template where
  "example_template = template_lset plain_env None (localized_name ''choices'' ''pt'') (Some ''um, dois'')
     (template_lset plain_env None ''choices'' (Some ''one, two'') (template_new (Some ''a/b'')))"

lemma example_template_made: "made plain_env example_template"
  unfolding example_template_def by (intro made.intros)

theorem templates_well_formed_witness: "distinct (map language (l10n example_template # l10n_rest example_template))"
  using templates_well_formed [OF example_template_made] by blast

text \<open>
  Property C23: a template is a table from languages and fields to texts, and setting the field
  \<open>Foo-xx.UTF-8\<close> changes the one entry of \<open>xx\<close> and \<open>Foo\<close> and nothing else.
\<close>

theorem template_lset_updates:
  assumes "made env t" "f \<in> set l10n_field_names" "g \<in> set l10n_field_names"
    and "CHR ''.'' \<notin> set l" "2 \<le> length l" "load_all_translations env" "allow_i18n env"
  shows "text_of (template_lset env lang (localized_name f l) v t) m g = (if m = l \<and> g = f then v else text_of t m g)"
  unfolding template_lset_name [OF assms(2,4-7)] by (rule text_of_lset_curlang [OF made_ok [OF assms(1)] assms(2,3)])

theorem template_lset_updates_witness:
  "text_of (template_lset plain_env None (localized_name ''default'' ''fr'') (Some ''x'') example_template) ''pt'' ''choices'' =
   text_of example_template ''pt'' ''choices''"
  using template_lset_updates [OF example_template_made, of "''default''" "''choices''" "''fr''" None "Some ''x''" "''pt''"]
  by (simp add: l10n_field_names_def load_all_translations_def allow_i18n_def)

text \<open>
  Property C22: merging a new version \<open>t\<close> of a template into \<open>ret\<close>: every text of \<open>t\<close> is taken over;
  where \<open>t\<close> has none, the old text stays, except that translations of choices and
  descriptions are dropped when the untranslated text has changed.
\<close>

theorem template_merge_texts:
  assumes "made env ret" "made env t" "template_l10nmerge ret t = Some r" "f \<in> set l10n_field_names"
  shows "text_of r l f =
    (if non_empty (text_of t l f) then text_of t l f
     else if l \<noteq> [] \<and> outdated ret t f then None else text_of ret l f)"
  using merge_l10n_text(2) [of "ret\<lparr>ttype := ttype t\<rparr>" t f l] made_ok [OF assms(1)] made_ok [OF assms(2)] assms(4)
  by (simp add: template_l10nmerge_cases(1) [OF assms(3)])

definition example_update :: template where
  "example_update = template_lset plain_env None ''choices'' (Some ''one, two, three'') (template_new (Some ''a/b''))"

theorem template_merge_texts_witness:
  "\<exists>r. template_l10nmerge example_template example_update = Some r \<and> text_of r ''pt'' ''choices'' = None \<and>
     text_of example_template ''pt'' ''choices'' = Some ''um, dois''"
proof -
  have "made plain_env example_update" unfolding example_update_def by (intro made.intros)
  note m = template_merge_texts [OF example_template_made this]
  have "ttype example_template = None" by code_simp
  then obtain r where r: "template_l10nmerge example_template example_update = Some r"
    by (simp add: template_l10nmerge_def)
  have "\<not> non_empty (text_of example_update ''pt'' ''choices'')" "outdated example_template example_update ''choices''"
    "text_of example_template ''pt'' ''choices'' = Some ''um, dois''"
    by code_simp+
  with m [OF r, of "''choices''" "''pt''"] r show ?thesis by (simp add: l10n_field_names_def)
qed

subsection \<open>Choosing a language\<close>

lemma strncmp_eq_two:
  assumes "nul_free l" "2 \<le> length l" "length p = 2"
  shows "strncmp_eq 2 l p \<longleftrightarrow> take 2 l = p"
proof -
  obtain a b where p: "p = [a, b]" using assms(3) by (auto simp: numeral_2_eq_2 length_Suc_conv)
  obtain c d l' where "l = c # d # l'" using assms(2) by (cases l; cases "tl l") auto
  with assms(1) show ?thesis unfolding p numeral_2_eq_2 by (auto simp: peek_def nul_free_def)
qed

text \<open>The language whose entry \<open>template_lget\<close> reads.\<close>

definition best_language :: "template \<Rightarrow> string \<Rightarrow> string" where
  "best_language t l =
     (if entry t l \<noteq> None then l else if entry t (take 2 l) \<noteq> None then take 2 l else [])"

lemma get_internal_loop_spec:
  assumes "nul_free l" "2 \<le> length l" "distinct (map language ps)"
  shows "get_internal_loop ps l f alt =
    (case find (\<lambda>p. language p = l) ps of
       Some p \<Rightarrow> template_field_get p f
     | None \<Rightarrow> (case find (\<lambda>p. language p = take 2 l) ps of Some p \<Rightarrow> template_field_get p f | None \<Rightarrow> alt))"
  using assms(3)
proof (induction ps arbitrary: alt)
  case (Cons p ps)
  have two: "length (language p) = 2 \<and> strncmp_eq 2 l (language p) \<longleftrightarrow> language p = take 2 l"
    using strncmp_eq_two [OF assms(1,2)] assms(2) by auto
  have none: "find (\<lambda>q. language q = take 2 l) ps = None" if "language p = take 2 l"
    using Cons.prems that by (auto simp: find_None_iff) (metis image_eqI)
  show ?case
    using Cons.IH Cons.prems none by (simp add: two del: get_internal_loop.simps) (auto simp: two split: option.splits)
qed simp

lemma lget_best_language:
  assumes "template_ok t" "f \<in> set l10n_field_names" "nul_free l" "2 \<le> length l"
  shows "template_lget env t (Some l) f =
    (case text_of t (best_language t l) f of Some v \<Rightarrow> Some v | None \<Rightarrow> text_of t [] f)"
proof -
  have ne: "l \<noteq> []" "take 2 l \<noteq> []" using assms(4) by auto
  have first: "language (l10n t) = []" and "distinct (map language (l10n_rest t))"
    using assms(1) by (auto simp: template_ok_def)
  note spec = get_internal_loop_spec [OF assms(3,4) this(2), of f None]
  have e: "entry t m = find (\<lambda>p. language p = m) (l10n_rest t)" if "m \<noteq> []" for m
    using that first by (simp add: entry_def)
  have "entry t [] = Some (l10n t)" using first by (simp add: entry_def)
  then show ?thesis
    using e [OF ne(1)] e [OF ne(2)]
    by (auto simp: template_lget_plain [OF assms(2) ne(1)] template_get_internal_def spec text_of_untranslated [OF assms(1)]
        best_language_def text_of_def split: option.splits)
qed

text \<open>
  A field is read from the entry of the asked language, else from the entry of its
  first two letters, else from the untranslated entry; when the entry that was found does not
  have the field, the untranslated one gives it, never another language.
\<close>

theorem template_lget_fallback:
  assumes "made env t" "f \<in> set l10n_field_names" "nul_free l" "2 \<le> length l"
  shows "template_lget env t (Some l) f =
    (case text_of t (best_language t l) f of Some v \<Rightarrow> Some v | None \<Rightarrow> text_of t [] f)"
  by (rule lget_best_language [OF made_ok [OF assms(1)] assms(2-4)])

theorem template_lget_fallback_witness:
  "template_lget plain_env example_template (Some ''pt_BR'') ''choices'' = Some ''um, dois'' \<and>
   best_language example_template ''pt_BR'' = ''pt''"
proof -
  have b: "best_language example_template ''pt_BR'' = ''pt''" "text_of example_template ''pt'' ''choices'' = Some ''um, dois''"
    by code_simp+
  have "nul_free ''pt_BR''" "(2::nat) \<le> length ''pt_BR''" "''choices'' \<in> set l10n_field_names"
    by (simp_all add: nul_free_def l10n_field_names_def)
  from template_lget_fallback [OF example_template_made this(3,1,2)] b show ?thesis by simp
qed

text \<open>
  The test of the suffix refuses a language of one letter, and takes the empty one, which then
  means the languages of the environment.
\<close>

lemma one_letter_language: "utf8_language ''x.UTF-8'' = None" "utf8_language ''.UTF-8'' = Some []"
  by code_simp+

subsection \<open>Extended descriptions\<close>

fun join_with :: "string \<Rightarrow> string list \<Rightarrow> string" where
  "join_with sep [] = []"
| "join_with sep [l] = l"
| "join_with sep (l # ls) = l @ sep @ join_with sep ls"

definition unlines :: "string list \<Rightarrow> string" where
  "unlines ls = concat (map (\<lambda>l. l @ [NL]) ls)"

text \<open>A line that is neither empty nor a dot nor starts with a space.\<close>

definition plain_line :: "string \<Rightarrow> bool" where
  "plain_line l \<longleftrightarrow> l \<noteq> [] \<and> NL \<notin> set l \<and> hd l \<noteq> SP \<and> l \<noteq> ''.''"

lemma unlines_simps [simp]: "unlines [] = []" "unlines (l # ls) = l @ NL # unlines ls"
  by (simp_all add: unlines_def)

lemma remove_newlines_line: "NL \<notin> set l \<Longrightarrow> remove_newlines_loop asis (l @ r) = map_prod ((@) l) id (remove_newlines_loop asis r)"
  by (induction l) (auto simp: map_prod_def split: prod.split)

lemma remove_newlines_next:
  assumes "plain_line l"
  shows "remove_newlines_loop False (NL # l @ NL # r) = map_prod (Cons SP) id (remove_newlines_loop False (l @ NL # r))"
proof -
  obtain c l' where l: "l = c # l'" "c \<noteq> SP" "c \<noteq> NL" "c = CHR ''.'' \<Longrightarrow> l' \<noteq> []"
    using assms by (cases l) (auto simp: plain_line_def)
  have "\<not> (c = CHR ''.'' \<and> peek (l' @ NL # r) = NL)"
    using l assms by (cases l') (auto simp: plain_line_def peek_def)
  with l show ?thesis by (simp only: remove_newlines_loop.simps append_Cons list.case) simp
qed

lemma remove_newlines_paragraph:
  assumes "ls \<noteq> []" "\<forall>l \<in> set ls. plain_line l"
  shows "remove_newlines_loop False (unlines ls) = (join_with '' '' ls, True)"
    and "remove_newlines_loop False (unlines ls @ CHR ''.'' # NL # r) =
      map_prod (\<lambda>x. join_with '' '' ls @ NL # NL # x) id (remove_newlines_loop False r)"
proof -
  have "remove_newlines_loop False (unlines ls) = (join_with '' '' ls, True) \<and>
    remove_newlines_loop False (unlines ls @ CHR ''.'' # NL # r) =
      map_prod (\<lambda>x. join_with '' '' ls @ NL # NL # x) id (remove_newlines_loop False r)"
    using assms
  proof (induction ls rule: induct_list012)
    case (2 l)
    then show ?case by (simp add: plain_line_def remove_newlines_line peek_def prod.map_comp comp_def)
  next
    case (3 l m ls)
    have l: "NL \<notin> set l" and m: "plain_line m" using 3 by (auto simp: plain_line_def)
    show ?case
      using "3.IH"(2) "3.prems"
      by (simp add: remove_newlines_line [OF l] remove_newlines_next [OF m] prod.map_comp comp_def del: remove_newlines_loop.simps)
  qed simp
  then show "remove_newlines_loop False (unlines ls) = (join_with '' '' ls, True)"
    and "remove_newlines_loop False (unlines ls @ CHR ''.'' # NL # r) =
      map_prod (\<lambda>x. join_with '' '' ls @ NL # NL # x) id (remove_newlines_loop False r)" by blast+
qed

text \<open>An extended description as the file has it, without the leading spaces: paragraphs of lines.\<close>

definition paragraphs_text :: "string list list \<Rightarrow> string" where
  "paragraphs_text ps = join_with (unlines [''.'']) (map unlines ps)"

lemma remove_newlines_paragraphs:
  assumes "ps \<noteq> []" "\<forall>ls \<in> set ps. ls \<noteq> [] \<and> (\<forall>l \<in> set ls. plain_line l)"
  shows "remove_newlines_loop False (paragraphs_text ps) = (join_with [NL, NL] (map (join_with '' '') ps), True)"
  using assms unfolding paragraphs_text_def
  by (induction ps rule: induct_list012) (simp_all add: remove_newlines_paragraph)

text \<open>
  In an extended description the lines of a paragraph are joined by spaces, and a
  line with a single dot becomes an empty line between two paragraphs.
\<close>

theorem remove_newlines_reflows:
  assumes "ps \<noteq> []" "\<forall>ls \<in> set ps. ls \<noteq> [] \<and> (\<forall>l \<in> set ls. plain_line l)"
  shows "remove_newlines (paragraphs_text ps) = join_with [NL, NL] (map (join_with '' '') ps)"
  by (simp add: remove_newlines_def remove_newlines_paragraphs [OF assms])

theorem remove_newlines_reflows_witness:
  "remove_newlines (unlines [''a'', ''b'', ''.'', ''c'']) = ''a b'' @ [NL, NL] @ ''c''"
  using remove_newlines_reflows [of "[[''a'', ''b''], [''c'']]"]
  by (simp add: plain_line_def paragraphs_text_def)

text \<open>
  A text that ends with a dot line is not terminated: it goes on with the characters that were
  there before.
\<close>

lemma remove_newlines_leftover: "remove_newlines (unlines [''ab'', ''.'']) = ''ab'' @ [NL, NL, NL]"
  by code_simp

end
