(* ===== verification/Deb_TemplateFile.thy ===== *)
theory Deb_TemplateFile
  imports Deb_Template
begin

text \<open>
  Template files as they are written: a grammar of files, and the theorem that
  \<open>template_load\<close> reads a file of the grammar as the updates its lines stand for.
\<close>

datatype item =
    TypeLine string | HelpLine string
  | FieldLine "string option" string string
  | DescLine "string option" string "string list list"

fun capital :: "string \<Rightarrow> string" where
  "capital f = (if f = ''default'' then ''Default'' else if f = ''choices'' then ''Choices'' else ''Indices'')"

definition label :: "string \<Rightarrow> string option \<Rightarrow> string" where
  "label name lang = name @ (case lang of None \<Rightarrow> '': '' | Some l \<Rightarrow> ''-'' @ l @ ''.UTF-8: '')"

text \<open>The lines of the extended description: the paragraphs with a dot line between two of them.\<close>

fun paragraph_lines :: "string list list \<Rightarrow> string list" where
  "paragraph_lines [] = []"
| "paragraph_lines [ls] = ls"
| "paragraph_lines (ls # ps) = ls @ ''.'' # paragraph_lines ps"

definition extdesc_text :: "string list list \<Rightarrow> string" where
  "extdesc_text ps = concat (map (\<lambda>l. SP # l @ [NL]) (paragraph_lines ps))"

fun item_line :: "item \<Rightarrow> string" where
  "item_line (TypeLine v) = ''Type: '' @ v"
| "item_line (HelpLine v) = ''Help: '' @ v"
| "item_line (FieldLine lang f v) = label (capital f) lang @ v"
| "item_line (DescLine lang v ps) = label ''Description'' lang @ v"

fun item_text :: "item \<Rightarrow> string" where
  "item_text (DescLine lang v ps) = item_line (DescLine lang v ps) @ NL # extdesc_text ps"
| "item_text i = item_line i @ [NL]"

text \<open>What a line stands for.\<close>

fun item_apply :: "l10n_env \<Rightarrow> item \<Rightarrow> template \<Rightarrow> template" where
  "item_apply env (TypeLine v) t = t\<lparr>ttype := Some v\<rparr>"
| "item_apply env (HelpLine v) t = t\<lparr>thelp := Some v\<rparr>"
| "item_apply env (FieldLine lang f v) t = template_lset env lang f (Some v) t"
| "item_apply env (DescLine lang v ps) t =
     (let t = template_lset env lang ''description'' (Some v) t
      in if ps = [] then t
         else template_lset env lang ''extended_description'' (Some (join_with [NL, NL] (map (join_with '' '') ps))) t)"

definition line_ok :: "string \<Rightarrow> bool" where
  "line_ok l \<longleftrightarrow> NL \<notin> set l \<and> length l + 2 < LINE_SIZE"

definition lang_ok :: "string option \<Rightarrow> bool" where
  "lang_ok lang = (case lang of None \<Rightarrow> True | Some l \<Rightarrow> l \<noteq> [] \<and> CHR ''.'' \<notin> set l \<and> CHR '':'' \<notin> set l)"

fun item_ok :: "item \<Rightarrow> bool" where
  "item_ok (FieldLine lang f v) \<longleftrightarrow> lang_ok lang \<and> f \<in> {''default'', ''choices'', ''indices''} \<and>
     line_ok (item_line (FieldLine lang f v))"
| "item_ok (DescLine lang v ps) \<longleftrightarrow> lang_ok lang \<and> line_ok (item_line (DescLine lang v ps)) \<and>
     (\<forall>ls \<in> set ps. ls \<noteq> [] \<and> (\<forall>l \<in> set ls. plain_line l \<and> length l + 3 < LINE_SIZE)) \<and>
     length (paragraphs_text ps) < EXTDESC_SIZE"
| "item_ok i \<longleftrightarrow> line_ok (item_line i)"

datatype source_template = Source string "item list"

fun source_text :: "source_template \<Rightarrow> string" where
  "source_text (Source tg items) = ''Template: '' @ tg @ NL # concat (map item_text items) @ [NL]"

fun source_template_of :: "l10n_env \<Rightarrow> source_template \<Rightarrow> template" where
  "source_template_of env (Source tg items) = fold (item_apply env) items (template_new (Some tg))"

fun source_ok :: "source_template \<Rightarrow> bool" where
  "source_ok (Source tg items) \<longleftrightarrow> line_ok (''Template: '' @ tg) \<and> (\<forall>i \<in> set items. item_ok i)"

subsection \<open>Lines\<close>

lemma fgets_line: "NL \<notin> set l \<Longrightarrow> length l + 2 \<le> n \<Longrightarrow> fgets n (l @ NL # r) = (l @ [NL], r)"
  by (induction l arbitrary: n) auto

lemma read_line_short:
  assumes "line_ok l"
  shows "read_line (l @ NL # r) = Inr (l @ [NL], r)"
proof -
  have "fgets LINE_SIZE (l @ NL # r) = (l @ [NL], r)"
    by (rule fgets_line) (use assms in \<open>auto simp: line_ok_def\<close>)
  moreover have "length (l @ [NL]) \<noteq> LINE_SIZE - 1" using assms by (auto simp: line_ok_def)
  ultimately show ?thesis by (subst read_line.simps) (simp del: length_append)
qed

lemma CHOMP_line [simp]: "CHOMP (l @ [NL]) = l"
  by (simp add: CHOMP_def)

lemma strstr_0_iff: "strstr p x = Some 0 \<longleftrightarrow> take (length x) p = x"
  by (subst strstr.simps) (auto split: list.splits)

lemma starts_iff: "starts p x \<longleftrightarrow> take (length x) p = x"
  by (simp add: starts_def strstr_0_iff)

lemma LINE_SIZE_gt: "4 < LINE_SIZE"
  by (simp add: LINE_SIZE_def)

lemma unlines_paragraph_lines: "unlines (paragraph_lines ps) = paragraphs_text ps"
  unfolding paragraphs_text_def by (induction ps rule: paragraph_lines.induct) (simp_all add: unlines_def)

lemma read_extdesc_lines:
  assumes "\<forall>l \<in> set ls. NL \<notin> set l \<and> length l + 3 < LINE_SIZE" "length (acc @ unlines ls) < EXTDESC_SIZE" "peek r \<noteq> SP"
  shows "read_extdesc acc (concat (map (\<lambda>l. SP # l @ [NL]) ls) @ r) = Inr (acc @ unlines ls, r)"
  using assms(1,2)
proof (induction ls arbitrary: acc)
  case Nil
  then show ?case using assms(3) by (simp add: read_extdesc.simps)
next
  case (Cons l ls)
  let ?r = "concat (map (\<lambda>l. SP # l @ [NL]) ls) @ r"
  have "fgets LINE_SIZE ((SP # l) @ NL # ?r) = ((SP # l) @ [NL], ?r)"
    by (rule fgets_line) (use Cons.prems in auto)
  moreover have "read_extdesc (acc @ l @ [NL]) ?r = Inr ((acc @ l @ [NL]) @ unlines ls, r)"
    by (rule Cons.IH) (use Cons.prems in auto)
  ultimately show ?case
    using Cons.prems by (subst read_extdesc.simps) (auto simp: peek_def)
qed

lemma paragraph_lines_all: "list_all (list_all P) ps \<Longrightarrow> P ''.'' \<Longrightarrow> list_all P (paragraph_lines ps)"
  by (induction ps rule: paragraph_lines.induct) simp_all

lemma paragraph_lines_ok:
  assumes "\<forall>ls \<in> set ps. ls \<noteq> [] \<and> (\<forall>l \<in> set ls. plain_line l \<and> length l + 3 < LINE_SIZE)"
  shows "\<forall>l \<in> set (paragraph_lines ps). NL \<notin> set l \<and> length l + 3 < LINE_SIZE"
proof -
  have "list_all (list_all (\<lambda>l. NL \<notin> set l \<and> length l + 3 < LINE_SIZE)) ps"
    using assms by (simp add: list_all_iff plain_line_def)
  from paragraph_lines_all [OF this] LINE_SIZE_gt show ?thesis by (simp add: list_all_iff)
qed

lemma paragraphs_text_empty:
  assumes "\<forall>ls \<in> set ps. ls \<noteq> [] \<and> (\<forall>l \<in> set ls. plain_line l \<and> length l + 3 < LINE_SIZE)"
  shows "paragraphs_text ps = [] \<longleftrightarrow> ps = []"
  using assms unfolding paragraphs_text_def
  by (induction ps rule: paragraph_lines.induct) (auto simp: unlines_def neq_Nil_conv)

lemma load_extdesc_text:
  assumes "\<forall>ls \<in> set ps. ls \<noteq> [] \<and> (\<forall>l \<in> set ls. plain_line l \<and> length l + 3 < LINE_SIZE)"
    and "length (paragraphs_text ps) < EXTDESC_SIZE" "peek r \<noteq> SP"
  shows "load_extdesc env lang True t (extdesc_text ps @ r) =
    Inr (if ps = [] then t
         else template_lset env lang ''extended_description'' (Some (join_with [NL, NL] (map (join_with '' '') ps))) t, r)"
proof -
  have "read_extdesc [] (extdesc_text ps @ r) = Inr (paragraphs_text ps, r)"
    using read_extdesc_lines [OF paragraph_lines_ok [OF assms(1)], of "[]" r] assms(2,3)
    by (simp add: unlines_paragraph_lines extdesc_text_def)
  moreover have "remove_newlines (paragraphs_text ps) = join_with [NL, NL] (map (join_with '' '') ps)" if "ps \<noteq> []"
    using remove_newlines_paragraphs [OF that] assms(1) by (simp add: remove_newlines_def)
  ultimately show ?thesis using paragraphs_text_empty [OF assms(1)] by (simp add: load_extdesc_def)
qed

subsection \<open>Localized lines\<close>

lemma c_tolower_colon: "c_tolower c = CHR '':'' \<longleftrightarrow> c = CHR '':''"
proof
  assume d: "c_tolower c = CHR '':''"
  show "c = CHR '':''"
  proof (cases "c_isupper c")
    case True
    then have "of_char (c_tolower c) = (of_char c :: nat) + 32" by (simp add: c_tolower_def c_isupper_def of_char_of)
    with d True show ?thesis by (simp add: c_isupper_def)
  qed (use d in \<open>simp add: c_tolower_def\<close>)
qed (simp add: c_tolower_def c_isupper_def)

lemma localized_line_label:
  assumes "l \<noteq> []" "CHR ''.'' \<notin> set l" "CHR '':'' \<notin> set l" "CHR ''.'' \<notin> set name"
  shows "localized_line (name @ ''-'') (label name (Some l) @ v) = Some (l, v)"
proof -
  let ?p = "label name (Some l) @ v" and ?u = "''.UTF-8: ''"
  have dot: "c_tolower (CHR ''.'') = CHR ''.''" by (simp add: c_tolower_dot)
  have "hd (map c_tolower ?u) \<notin> set (map c_tolower (name @ ''-'' @ l))"
    using assms(2,4) by (auto simp: dot c_tolower_dot eq_commute [of "CHR ''.''"])
  from strstr_skip [OF _ this, of "map c_tolower v"]
  have u: "strcasestr ?p ?u = Some (length name + 1 + length l)" by (simp add: strcasestr_def label_def)
  have len: "length ((name @ ''-'') @ ''C: '') = length name + 4" by simp
  have "map c_tolower (take (length name + 4) ?p) \<noteq> map c_tolower ((name @ ''-'') @ ''C: '')"
  proof
    assume "map c_tolower (take (length name + 4) ?p) = map c_tolower ((name @ ''-'') @ ''C: '')"
    then have "map c_tolower (take 3 (l @ ?u @ v)) ! 1 = CHR '':''" by (simp add: label_def c_tolower_colon)
    moreover obtain c l' where l: "l = c # l'" using assms(1) by (cases l) auto
    ultimately show False
      using assms(3) by (cases l') (auto simp: c_tolower_colon)
  qed
  then have "strcasestr ?p ((name @ ''-'') @ ''C: '') \<noteq> Some 0"
    unfolding strcasestr_def strstr_0_iff length_map len take_map .
  with u assms(1) show ?thesis by (simp add: localized_line_def) (simp add: label_def)
qed

subsection \<open>Reading a file\<close>

lemma lset_untranslated:
  assumes "f \<in> set l10n_field_names"
  shows "template_lset env None f v t = t\<lparr>l10n := template_field_set f v (l10n t)\<rparr>"
  using l10n_field_not_special [OF assms] by (subst template_lset.simps) simp

lemma lset_special:
  "template_lset env l ''type'' v t = t\<lparr>ttype := v\<rparr>" "template_lset env l ''help'' v t = t\<lparr>thelp := v\<rparr>"
  by (subst template_lset.simps, simp add: strcasecmp_eq_def c_tolower_def c_isupper_def)+

lemma load_field_localized:
  assumes "f \<in> {''default'', ''choices'', ''indices''}" "allow_i18n env"
  shows "load_field env (label (capital f) (Some l) @ v) rest t =
    Inr (load_localized env (capital f @ ''-'') f (label (capital f) (Some l) @ v) t, rest)"
proof -
  consider "f = ''default''" | "f = ''choices''" | "f = ''indices''" using assms(1) by blast
  then show ?thesis
    by (cases; simp only:) (simp_all add: assms(2) load_field_def starts_iff label_def)
qed

lemma load_field_description:
  assumes "allow_i18n env"
  shows "load_field env (label ''Description'' (Some l) @ v) rest t =
    (case localized_line ''Description-'' (label ''Description'' (Some l) @ v) of
       None \<Rightarrow> load_extdesc env None False t rest
     | Some (lang, txt) \<Rightarrow>
         load_extdesc env (Some lang) True (template_lset env (Some lang) ''description'' (Some txt) t) rest)"
  by (simp add: load_field_def starts_iff label_def assms)

lemma load_loop_line:
  assumes "line_ok l" "l \<noteq> []"
  shows "load_loop env tlist t (l @ NL # r) =
    (if starts l ''Template: '' then load_loop env tlist (Some (template_new (Some (drop 10 l)))) r
     else case t of
       None \<Rightarrow> load_loop env tlist None r
     | Some t \<Rightarrow> (case load_field env l r t of Inl e \<Rightarrow> Inl e | Inr (t, rest) \<Rightarrow> load_loop env tlist (Some t) rest))"
  by (subst load_loop.simps) (use assms in \<open>cases t; simp add: read_line_short Let_def\<close>)

lemma load_field_item:
  assumes "item_ok i" "allow_i18n env" "peek r \<noteq> SP"
  shows "load_field env (item_line i) (case i of DescLine lang v ps \<Rightarrow> extdesc_text ps @ r | _ \<Rightarrow> r) t =
    Inr (item_apply env i t, r)"
proof (cases i)
  case (TypeLine v)
  then show ?thesis by (simp add: load_field_def starts_iff lset_special)
next
  case (HelpLine v)
  then show ?thesis by (simp add: load_field_def starts_iff lset_special)
next
  case (FieldLine lang f v)
  show ?thesis
  proof (cases lang)
    case None
    with FieldLine assms(1) show ?thesis by (auto simp: load_field_def starts_iff label_def)
  next
    case (Some l)
    have ok: "l \<noteq> []" "CHR ''.'' \<notin> set l" "CHR '':'' \<notin> set l"
      using assms(1) FieldLine Some by (auto simp: lang_ok_def)
    have f: "f \<in> {''default'', ''choices'', ''indices''}" using assms(1) FieldLine by simp
    then have "CHR ''.'' \<notin> set (capital f)" by auto
    from localized_line_label [OF ok this] show ?thesis
      by (simp add: FieldLine Some load_field_localized [OF f assms(2)] load_localized_def del: capital.simps)
  qed
next
  case (DescLine lang v ps)
  have ps: "\<forall>ls \<in> set ps. ls \<noteq> [] \<and> (\<forall>l \<in> set ls. plain_line l \<and> length l + 3 < LINE_SIZE)"
    "length (paragraphs_text ps) < EXTDESC_SIZE" using assms(1) DescLine by auto
  note ext = load_extdesc_text [OF this assms(3)]
  show ?thesis
  proof (cases lang)
    case None
    with DescLine ext show ?thesis by (simp add: load_field_def starts_iff label_def Let_def)
  next
    case (Some l)
    have ok: "l \<noteq> []" "CHR ''.'' \<notin> set l" "CHR '':'' \<notin> set l"
      using assms(1) DescLine Some by (auto simp: lang_ok_def)
    have "localized_line ''Description-'' (label ''Description'' (Some l) @ v) = Some (l, v)"
      using localized_line_label [OF ok, of "''Description''" v] by simp
    then show ?thesis
      by (simp only: DescLine Some item_line.simps item.case load_field_description [OF assms(2)] option.case prod.case
          ext item_apply.simps Let_def)
  qed
qed

lemma item_text_line:
  "item_text i @ r = item_line i @ NL # (case i of DescLine lang v ps \<Rightarrow> extdesc_text ps @ r | _ \<Rightarrow> r)"
  by (cases i) simp_all

lemma item_ok_line: "item_ok i \<Longrightarrow> line_ok (item_line i)"
  by (cases i) simp_all

lemma item_line_start: "item_ok i \<Longrightarrow> item_line i \<noteq> [] \<and> \<not> starts (item_line i) ''Template: '' \<and> peek (item_text i @ r) \<noteq> SP"
  by (cases i) (auto simp: starts_iff peek_def label_def)

lemma load_loop_item:
  assumes "item_ok i" "allow_i18n env" "peek r \<noteq> SP"
  shows "load_loop env tlist (Some t) (item_text i @ r) = load_loop env tlist (Some (item_apply env i t)) r"
  using item_line_start [OF assms(1)]
  by (simp add: item_text_line load_loop_line [OF item_ok_line [OF assms(1)]] load_field_item [OF assms])

lemma load_loop_items:
  assumes "\<forall>i \<in> set items. item_ok i" "allow_i18n env" "peek r \<noteq> SP"
  shows "load_loop env tlist (Some t) (concat (map item_text items) @ r) =
    load_loop env tlist (Some (fold (item_apply env) items t)) r"
  using assms(1)
proof (induction items arbitrary: t)
  case (Cons i items)
  have "peek (concat (map item_text items) @ r) \<noteq> SP"
    using Cons.prems assms(3) item_line_start by (cases items) auto
  with Cons show ?case by (simp add: load_loop_item [OF _ assms(2)])
qed simp

lemma load_loop_source:
  assumes "source_ok src" "allow_i18n env"
  shows "load_loop env tlist None (source_text src @ r) = load_loop env (source_template_of env src # tlist) None r"
proof -
  obtain tg items where src: "src = Source tg items" by (cases src)
  let ?t = "fold (item_apply env) items (template_new (Some tg))" and ?rest = "concat (map item_text items) @ NL # r"
  have l: "line_ok (''Template: '' @ tg)" and items: "\<forall>i \<in> set items. item_ok i" using assms(1) src by auto
  have "source_text src @ r = (''Template: '' @ tg) @ NL # ?rest" by (simp add: src)
  then have "load_loop env tlist None (source_text src @ r) = load_loop env tlist (Some (template_new (Some tg))) ?rest"
    using load_loop_line [OF l, of env tlist None ?rest] by (simp add: starts_iff)
  also have "\<dots> = load_loop env tlist (Some ?t) (NL # r)"
    using items by (rule load_loop_items) (simp_all add: assms(2) peek_def)
  also have "\<dots> = load_loop env (?t # tlist) None r"
    using read_line_short [of "[]" r] LINE_SIZE_gt by (subst load_loop.simps) (simp add: line_ok_def CHOMP_def)
  finally show ?thesis by (simp add: src)
qed

lemma load_loop_sources:
  assumes "\<forall>src \<in> set srcs. source_ok src" "allow_i18n env"
  shows "load_loop env tlist None (concat (map source_text srcs)) = Inr (rev (map (source_template_of env) srcs) @ tlist)"
  using assms(1)
proof (induction srcs arbitrary: tlist)
  case (Cons src srcs)
  then show ?case by (simp add: load_loop_source [OF _ assms(2)])
qed (simp add: load_loop.simps)

text \<open>
  Property C20: loading a template file that is written as templates of fields, translations
  and descriptions with paragraphs returns all its templates, the last one first, each with
  exactly the fields that its lines set.
\<close>

theorem template_load_reads:
  assumes "\<forall>src \<in> set srcs. source_ok src" "allow_i18n env"
  shows "template_load env (concat (map source_text srcs)) = Inr (rev (map (source_template_of env) srcs))"
  using load_loop_sources [OF assms, of "[]"] by (simp add: template_load_def)

definition example_source :: source_template where
  "example_source = Source ''a/b'' [TypeLine ''select'', FieldLine None ''choices'' ''x, y'',
     FieldLine (Some ''fr'') ''choices'' ''u, v'', DescLine None ''Pick'' [[''one'', ''two''], [''three'']]]"

theorem template_load_reads_witness:
  "template_load plain_env (source_text example_source) = Inr [source_template_of plain_env example_source] \<and>
   text_of (source_template_of plain_env example_source) ''fr'' ''choices'' = Some ''u, v''"
proof -
  have "source_ok example_source" "allow_i18n plain_env"
    "text_of (source_template_of plain_env example_source) ''fr'' ''choices'' = Some ''u, v''" by code_simp+
  with template_load_reads [of "[example_source]" plain_env] show ?thesis by simp
qed

text \<open>
  A line of exactly \<open>sizeof(buf) - 1\<close> characters with its newline is taken for an unfinished one
  and swallows the next line; at the end of a file without a newline such a line is read for
  ever.
\<close>

lemma fgets_full: "NL \<notin> set l \<Longrightarrow> length l + 1 = n \<Longrightarrow> fgets n (l @ r) = (l, r)"
proof (induction l arbitrary: n)
  case Nil
  then show ?case by (cases r) auto
qed auto

lemma read_line_never_ends:
  assumes "NL \<notin> set l" "length l + 1 = LINE_SIZE"
  shows "read_line l = Inl NeverEnds"
  using fgets_full [OF assms, of "[]"] assms(2) by (subst read_line.simps) auto

end
