(* ===== verification/Deb_Question.thy ===== *)
theory Deb_Question
  imports Deb_Template "HOL-Library.Monad_Syntax"
begin

text \<open>
  \<^verbatim>\<open>cdebconf/src/question.c\<close> and \<^verbatim>\<open>priority.c\<close>: questions with their values, flags, variables and
  owners, and the priorities they are asked with.

  A question points to its template; the templates are in a heap, and reading through a
  \<open>NULL\<close> template is \<open>None\<close>. So is the overflow of the name buffer in \<open>strexpand\<close>. Reference
  counts only decide when memory is freed and are not modelled.
\<close>

unbundle bit_operations_syntax

section \<open>Definitions\<close>

type_synonym tmpl_ptr = nat
type_synonym tmpl_heap = "tmpl_ptr \<Rightarrow> template"

record question =
  qtag :: string
  qvalue :: "string option"
  flags :: u32
  qtemplate :: "tmpl_ptr option"
  variables :: "(string \<times> string) list"
  owners :: "string list"
  priority :: "string option"

definition question_new :: "string \<Rightarrow> question" where
  "question_new t = \<lparr>qtag = t, qvalue = None, flags = 0, qtemplate = None, variables = [], owners = [], priority = None\<rparr>"

definition question_setvalue :: "string option \<Rightarrow> question \<Rightarrow> question" where
  "question_setvalue v q = q\<lparr>qvalue := v\<rparr>"

text \<open>The outer option is \<open>None\<close> when there is neither a value nor a template.\<close>

definition question_getvalue :: "l10n_env \<Rightarrow> tmpl_heap \<Rightarrow> question \<Rightarrow> string option \<Rightarrow> string option option" where
  "question_getvalue env h q lang =
     (case qvalue q of
        Some v \<Rightarrow> Some (Some v)
      | None \<Rightarrow> map_option (\<lambda>t. template_lget env (h t) lang ''default'') (qtemplate q))"

definition question_get_variable :: "question \<Rightarrow> string \<Rightarrow> string option" where
  "question_get_variable q var = map_of (variables q) var"

text \<open>
  The test \<open>qvi->value != value\<close> compares pointers; callers pass a new string, so it always
  holds.
\<close>

fun variable_add_loop :: "string \<Rightarrow> string \<Rightarrow> (string \<times> string) list \<Rightarrow> (string \<times> string) list" where
  "variable_add_loop var val [] = [(var, val)]"
| "variable_add_loop var val ((x, y) # qs) =
     (if x = var then (x, val) # qs else (x, y) # variable_add_loop var val qs)"

definition question_variable_add :: "string \<Rightarrow> string \<Rightarrow> question \<Rightarrow> question" where
  "question_variable_add var val q = q\<lparr>variables := variable_add_loop var val (variables q)\<rparr>"

fun owner_add_loop :: "string \<Rightarrow> string list \<Rightarrow> string list" where
  "owner_add_loop owner [] = [owner]"
| "owner_add_loop owner (x # xs) = (if x = owner then x # xs else x # owner_add_loop owner xs)"

definition question_owner_add :: "string \<Rightarrow> question \<Rightarrow> question" where
  "question_owner_add owner q = q\<lparr>owners := owner_add_loop owner (owners q)\<rparr>"

fun owner_delete_loop :: "string \<Rightarrow> string list \<Rightarrow> string list" where
  "owner_delete_loop owner [] = []"
| "owner_delete_loop owner (x # xs) =
     (if x = owner then owner_delete_loop owner xs else x # owner_delete_loop owner xs)"

definition question_owner_delete :: "string \<Rightarrow> question \<Rightarrow> question" where
  "question_owner_delete owner q = q\<lparr>owners := owner_delete_loop owner (owners q)\<rparr>"

definition question_dup :: "question \<Rightarrow> question" where
  "question_dup q =
     fold question_owner_add (owners q)
       (fold (\<lambda>(var, val). question_variable_add var val) (variables q)
         ((question_new (qtag q))\<lparr>qvalue := qvalue q, flags := flags q, qtemplate := qtemplate q\<rparr>))"

definition DC_QFLAG_SEEN :: string where
  "DC_QFLAG_SEEN = ''seen''"

definition flag_value :: "string \<Rightarrow> u32" where
  "flag_value type = (if type = DC_QFLAG_SEEN then 1 else 0)"

definition question_set_flag :: "string \<Rightarrow> question \<Rightarrow> question" where
  "question_set_flag flag q = q\<lparr>flags := flags q OR flag_value flag\<rparr>"

definition question_clear_flag :: "string \<Rightarrow> question \<Rightarrow> question" where
  "question_clear_flag flag q = q\<lparr>flags := flags q AND NOT (flag_value flag)\<rparr>"

definition question_get_flag :: "question \<Rightarrow> string \<Rightarrow> u32" where
  "question_get_flag q flag = flags q AND flag_value flag"

text \<open>Directives, which start with an exclamation mark, are left to the frontend.\<close>

definition lookup_vars :: "(string \<times> string) list \<Rightarrow> string \<Rightarrow> string option" where
  "lookup_vars vars name =
     (if peek name = CHR ''!'' then None
      else Some (case map_of vars name of None \<Rightarrow> [] | Some v \<Rightarrow> v))"

definition question_expand_vars :: "question \<Rightarrow> string option \<Rightarrow> string option option" where
  "question_expand_vars q field = strexpand field (lookup_vars (variables q))"

definition owners_field :: "string list \<Rightarrow> string option" where
  "owners_field os = (if os = [] then None else Some (foldl (\<lambda>ret owner. ret @ '', '' @ owner) (hd os) (tl os)))"

definition question_get_raw_field :: "l10n_env \<Rightarrow> tmpl_heap \<Rightarrow> question \<Rightarrow> string option \<Rightarrow> string \<Rightarrow> string option" where
  "question_get_raw_field env h q lang field =
     do {
       ret \<leftarrow> (if field = ''value'' then question_getvalue env h q lang \<bind> question_expand_vars q
               else if strcasecmp_eq field ''owners'' then Some (owners_field (owners q))
               else qtemplate q \<bind> (\<lambda>t. question_expand_vars q (template_lget env (h t) lang field)));
       Some (case ret of None \<Rightarrow> [] | Some r \<Rightarrow> r)
     }"

text \<open>
  The names that \<open>strexpand\<close> looks up in a text, in their order. \<open>lookup_directive\<close> asserts that
  they start with an exclamation mark; an assertion that fails ends the program.
\<close>

function (sequential) strexpand_names :: "string \<Rightarrow> string list" where
  "strexpand_names [] = []"
| "strexpand_names (c # s) =
     (if c \<noteq> CHR ''$'' \<or> peek s \<noteq> CHR 0x7B then strexpand_names s
      else (let name = takeWhile (\<lambda>c. c \<noteq> CHR 0x7D) (take VAR_SIZE (tl s));
                rest = drop (length name) (tl s)
            in if rest = [] then [] else name # strexpand_names (tl rest)))"
  by pat_completeness auto
termination
  by (relation "measure length") auto

declare strexpand_names.simps(2) [simp del]

text \<open>\<open>lookup\<close> is the method \<open>lookup_directive\<close> of the frontend.\<close>

definition lookup_directive :: "(string \<Rightarrow> string option) \<Rightarrow> string \<Rightarrow> string option" where
  "lookup_directive lookup directive = lookup (tl directive)"

definition question_get_field ::
  "(string \<Rightarrow> string option) \<Rightarrow> l10n_env \<Rightarrow> tmpl_heap \<Rightarrow> question \<Rightarrow> string option \<Rightarrow> string \<Rightarrow> string option option" where
  "question_get_field lookup env h q lang field =
     do {
       raw \<leftarrow> question_get_raw_field env h q lang field;
       if list_all (\<lambda>n. peek n = CHR ''!'') (strexpand_names raw)
       then strexpand (Some raw) (lookup_directive lookup) else None
     }"

subsection \<open>Priorities\<close>

definition priority_code :: "string option \<Rightarrow> int" where
  "priority_code p =
     (if p = None then - 1
      else if p = Some ''low'' then 0
      else if p = Some ''medium'' then 1
      else if p = Some ''high'' then 2
      else if p = Some ''critical'' then 3
      else - 1)"

definition priority_compare :: "string option \<Rightarrow> string option \<Rightarrow> int" where
  "priority_compare p1 p2 =
     (let i1 = priority_code p1; i2 = priority_code p2
      in if i1 > i2 then 1 else if i1 = i2 then 0 else - 1)"

section \<open>Variables, owners and flags\<close>

lemma variable_add_map_of [simp]: "map_of (variable_add_loop var val vs) = (map_of vs)(var \<mapsto> val)"
  by (induction var val vs rule: variable_add_loop.induct) (auto simp: fun_eq_iff)

lemma variable_add_names:
  "map fst (variable_add_loop var val vs) = map fst vs @ (if var \<in> fst ` set vs then [] else [var])"
  by (induction var val vs rule: variable_add_loop.induct) auto

lemma set_owner_add [simp]: "set (owner_add_loop x xs) = insert x (set xs)"
  by (induction x xs rule: owner_add_loop.induct) auto

lemma distinct_owner_add: "distinct xs \<Longrightarrow> distinct (owner_add_loop x xs)"
  by (induction x xs rule: owner_add_loop.induct) auto

lemma owner_add_loop_new: "x \<notin> set xs \<Longrightarrow> owner_add_loop x xs = xs @ [x]"
  by (induction x xs rule: owner_add_loop.induct) auto

lemma owner_add_loop_old [simp]: "x \<in> set xs \<Longrightarrow> owner_add_loop x xs = xs"
  by (induction x xs rule: owner_add_loop.induct) auto

lemma owner_delete_filter [simp]: "owner_delete_loop x xs = filter (\<lambda>y. y \<noteq> x) xs"
  by (induction x xs rule: owner_delete_loop.induct) auto

text \<open>A question has every variable and every owner once.\<close>

definition question_ok :: "question \<Rightarrow> bool" where
  "question_ok q \<longleftrightarrow> distinct (map fst (variables q)) \<and> distinct (owners q)"

lemma question_new_ok: "question_ok (question_new t)"
  by (simp add: question_ok_def question_new_def)

lemma question_ops_ok:
  assumes "question_ok q"
  shows "question_ok (question_variable_add var val q)" and "question_ok (question_owner_add x q)"
    and "question_ok (question_owner_delete x q)" and "question_ok (q\<lparr>qvalue := v\<rparr>)"
    and "question_ok (q\<lparr>flags := w\<rparr>)" and "question_ok (q\<lparr>qtemplate := t\<rparr>)" and "question_ok (q\<lparr>priority := p\<rparr>)"
  using assms
  by (auto simp: question_ok_def question_variable_add_def question_owner_add_def question_owner_delete_def
      variable_add_names distinct_owner_add)

lemma fold_variable_add:
  assumes "distinct (map fst (vs @ ws))"
  shows "fold (\<lambda>(var, val). variable_add_loop var val) ws vs = vs @ ws"
  using assms
proof (induction ws arbitrary: vs)
  case (Cons w ws)
  obtain x y where w: "w = (x, y)" by fastforce
  have "x \<notin> fst ` set vs" using Cons.prems w by auto
  then have "variable_add_loop x y vs = vs @ [(x, y)]" by (induction x y vs rule: variable_add_loop.induct) auto
  moreover have "distinct (map fst ((vs @ [(x, y)]) @ ws))" using Cons.prems w by auto
  ultimately show ?case using Cons.IH [of "vs @ [(x, y)]"] w by simp
qed simp

lemma fold_owner_add:
  assumes "distinct (vs @ ws)"
  shows "fold owner_add_loop ws vs = vs @ ws"
  using assms
proof (induction ws arbitrary: vs)
  case (Cons w ws)
  then show ?case using Cons.IH [of "vs @ [w]"] by (simp add: owner_add_loop_new)
qed simp

lemma question_owner_add_fold:
  "fold question_owner_add os q = q\<lparr>owners := fold owner_add_loop os (owners q)\<rparr>"
  by (induction os arbitrary: q) (simp_all add: question_owner_add_def)

lemma question_variable_add_fold:
  "fold (\<lambda>(var, val). question_variable_add var val) vs q =
   q\<lparr>variables := fold (\<lambda>(var, val). variable_add_loop var val) vs (variables q)\<rparr>"
  by (induction vs arbitrary: q) (auto simp: question_variable_add_def split: prod.splits)

lemma question_dup_id:
  assumes "question_ok q"
  shows "question_dup q = q\<lparr>priority := None\<rparr>"
  using assms fold_variable_add [of "[]" "variables q"] fold_owner_add [of "[]" "owners q"]
  by (simp add: question_dup_def question_owner_add_fold question_variable_add_fold question_ok_def question_new_def)

lemma question_flags:
  "question_get_flag (question_set_flag f q) g = (if flag_value f = flag_value g then flag_value g else question_get_flag q g)"
  "question_get_flag (question_clear_flag f q) g = (if flag_value f = flag_value g then 0 else question_get_flag q g)"
  by (simp_all add: question_get_flag_def question_set_flag_def question_clear_flag_def flag_value_def
      and.assoc and.left_commute bit.conj_disj_distrib2)

section \<open>Texts of questions\<close>

lemma strexpand_segments:
  assumes "\<forall>x \<in> set segs. segment_ok x"
  shows "strexpand (Some (concat (map segment_source segs))) func = Some (Some (concat (map (segment_value func) segs)))"
  using strexpand_rope_segments [OF assms, of func "[]"] by (auto simp: strexpand_def)

text \<open>
  Property C24: a text of a template is shown for a question with every variable replaced by
  its value, an unknown variable by nothing; directives are left for the frontend.
\<close>

theorem question_field_expands:
  assumes "qtemplate q = Some t" "template_lget env (h t) lang field = Some (concat (map segment_source segs))"
    and "\<forall>x \<in> set segs. segment_ok x" "field \<noteq> ''value''" "\<not> strcasecmp_eq field ''owners''"
  shows "question_get_raw_field env h q lang field = Some (concat (map
    (\<lambda>x. case x of Lit s \<Rightarrow> s
       | Var n \<Rightarrow> if peek n = CHR ''!'' then ''${'' @ n @ ''}''
                  else case question_get_variable q n of None \<Rightarrow> [] | Some v \<Rightarrow> v) segs))"
proof -
  have "segment_value (lookup_vars (variables q)) = (\<lambda>x. case x of Lit s \<Rightarrow> s
       | Var n \<Rightarrow> if peek n = CHR ''!'' then ''${'' @ n @ ''}''
                  else case question_get_variable q n of None \<Rightarrow> [] | Some v \<Rightarrow> v)"
    by (auto simp: fun_eq_iff lookup_vars_def question_get_variable_def split: segment.split)
  with strexpand_segments [OF assms(3)] show ?thesis
    using assms by (simp add: question_get_raw_field_def question_expand_vars_def)
qed

definition example_question :: question where
  "example_question = question_variable_add ''DISK'' ''/dev/sda'' ((question_new ''a/b'')\<lparr>qtemplate := Some 0\<rparr>)"

definition example_theap :: tmpl_heap where
  "example_theap = (\<lambda>_. template_lset plain_env None ''description'' (Some ''Erase ${DISK}${X}?'') (template_new (Some ''a/b'')))"

theorem question_field_expands_witness:
  "question_get_raw_field plain_env example_theap example_question (Some []) ''description'' = Some ''Erase /dev/sda?''"
proof -
  let ?segs = "[Lit ''Erase '', Var ''DISK'', Var ''X'', Lit ''?'']"
  have "qtemplate example_question = Some 0" by code_simp
  moreover have "template_lget plain_env (example_theap 0) (Some []) ''description'' = Some (concat (map segment_source ?segs))"
    by code_simp
  moreover have "\<forall>x \<in> set ?segs. segment_ok x" by (simp add: VAR_SIZE_def)
  moreover have "\<not> strcasecmp_eq ''description'' ''owners''" by code_simp
  ultimately have "question_get_raw_field plain_env example_theap example_question (Some []) ''description'' =
    Some (concat (map (\<lambda>x. case x of Lit s \<Rightarrow> s
       | Var n \<Rightarrow> if peek n = CHR ''!'' then ''${'' @ n @ ''}''
                  else case question_get_variable example_question n of None \<Rightarrow> [] | Some v \<Rightarrow> v) ?segs))"
    by (intro question_field_expands) simp_all
  also have "\<dots> = Some ''Erase /dev/sda?''" by code_simp
  finally show ?thesis .
qed

text \<open>A variable whose value has the form of a variable makes the assertion of \<open>lookup_directive\<close> fail.\<close>

lemma directive_assertion_fails:
  "question_get_field (\<lambda>_. Some []) plain_env example_theap (question_variable_add ''DISK'' ''${X}'' example_question)
     (Some []) ''description'' = None"
  by code_simp

end
