(* ===== verification/C_Search.thy ===== *)
theory C_Search
  imports DI_Prelude "HOL-Library.List_Lexorder"
begin

text \<open>
  The binary search trees of \<^verbatim>\<open><search.h>\<close>, which debconf and udpkg use with \<open>strcmp\<close> on the
  name of an object. A tree is the list of its elements in the order of their names, which is
  what \<open>twalk\<close> visits; \<open>key\<close> gives the name of an element.
\<close>

text \<open>The order of \<open>strcmp\<close>: bytes are compared as unsigned numbers.\<close>

definition strkey :: "string \<Rightarrow> nat list" where
  "strkey s = map of_char s"

definition tfind :: "('p \<Rightarrow> string) \<Rightarrow> string \<Rightarrow> 'p list \<Rightarrow> 'p option" where
  "tfind key k ps = find (\<lambda>p. key p = k) ps"

definition tdelete :: "('p \<Rightarrow> string) \<Rightarrow> string \<Rightarrow> 'p list \<Rightarrow> 'p list" where
  "tdelete key k ps = filter (\<lambda>p. key p \<noteq> k) ps"

fun tsearch :: "('p \<Rightarrow> string) \<Rightarrow> 'p \<Rightarrow> 'p list \<Rightarrow> 'p list" where
  "tsearch key p [] = [p]"
| "tsearch key p (x # ps) =
     (if key p = key x then x # ps
      else if strkey (key p) < strkey (key x) then p # x # ps
      else x # tsearch key p ps)"

subsection \<open>Lemmas\<close>

lemma strkey_inj [simp]: "strkey a = strkey b \<longleftrightarrow> a = b"
  by (simp add: strkey_def inj_map_eq_map [OF inj_of_char])

definition ordered :: "('p \<Rightarrow> string) \<Rightarrow> 'p list \<Rightarrow> bool" where
  "ordered key ps \<longleftrightarrow> sorted_wrt (\<lambda>p r. strkey (key p) < strkey (key r)) ps"

lemma ordered_distinct: "ordered key ps \<Longrightarrow> distinct (map key ps)"
  unfolding ordered_def by (induction ps) (auto dest: less_imp_neq)

lemma set_tsearch: "p \<in> set (tsearch key p' ps) \<Longrightarrow> p = p' \<or> p \<in> set ps"
  by (induction ps) (auto split: if_splits)

lemma set_tsearch_new: "key p \<notin> key ` set ps \<Longrightarrow> set (tsearch key p ps) = insert p (set ps)"
  by (induction ps) auto

lemma ordered_tsearch:
  assumes "ordered key ps"
  shows "ordered key (tsearch key p ps)"
  using assms unfolding ordered_def
proof (induction ps)
  case (Cons x ps)
  have "strkey (key x) < strkey (key p)" if "key p \<noteq> key x" "\<not> strkey (key p) < strkey (key x)"
    using that by (metis antisym_conv3 strkey_inj)
  with Cons show ?case by (auto dest!: set_tsearch dest: less_trans)
qed simp

lemma ordered_tdelete: "ordered key ps \<Longrightarrow> ordered key (tdelete key k ps)"
  by (auto simp: ordered_def tdelete_def intro: sorted_wrt_filter)

lemma set_tdelete [simp]: "set (tdelete key k ps) = {p \<in> set ps. key p \<noteq> k}"
  by (simp add: tdelete_def)

lemma tfind_Some: "tfind key k ps = Some p \<Longrightarrow> p \<in> set ps \<and> key p = k"
  by (auto simp: tfind_def find_Some_iff)

lemma tfind_None: "tfind key k ps = None \<longleftrightarrow> k \<notin> key ` set ps"
  by (auto simp: tfind_def find_None_iff)

lemma tfind_iff:
  assumes "ordered key ps"
  shows "tfind key k ps = Some p \<longleftrightarrow> p \<in> set ps \<and> key p = k"
proof
  assume p: "p \<in> set ps \<and> key p = k"
  then have "tfind key k ps \<noteq> None" by (auto simp: tfind_None)
  then obtain r where r: "tfind key k ps = Some r" by blast
  moreover from tfind_Some [OF r] have "r = p"
    using p ordered_distinct [OF assms] by (metis distinct_map inj_onD)
  ultimately show "tfind key k ps = Some p" by simp
qed (rule tfind_Some)

text \<open>Replacing an element: delete what has the same tag, then insert.\<close>

lemma replace_set: "set (tsearch key p (tdelete key (key p) ps)) = insert p {x \<in> set ps. key x \<noteq> key p}"
  by (subst set_tsearch_new) auto

lemma replace_ordered: "ordered key ps \<Longrightarrow> ordered key (tsearch key p (tdelete key (key p) ps))"
  by (intro ordered_tsearch ordered_tdelete)

lemma replace_tfind:
  assumes "ordered key ps"
  shows "tfind key k (tsearch key p (tdelete key (key p) ps)) = (if k = key p then Some p else tfind key k ps)"
proof -
  note o = replace_ordered [OF assms, of p]
  show ?thesis
  proof (cases "k = key p")
    case True
    then show ?thesis by (simp add: tfind_iff [OF o] replace_set)
  next
    case False
    show ?thesis
    proof (cases "tfind key k ps")
      case None
      then have "tfind key k (tsearch key p (tdelete key (key p) ps)) = None"
        using False by (auto simp: tfind_None replace_set)
      with None False show ?thesis by simp
    next
      case (Some r)
      then have "tfind key k (tsearch key p (tdelete key (key p) ps)) = Some r"
        using False by (auto simp: tfind_iff [OF o] replace_set dest: tfind_Some)
      with Some False show ?thesis by simp
    qed
  qed
qed

lemma delete_tfind:
  assumes "ordered key ps"
  shows "tfind key k (tdelete key j ps) = (if k = j then None else tfind key k ps)"
proof (cases "tfind key k ps")
  case None
  then have "tfind key k (tdelete key j ps) = None" by (auto simp: tfind_None)
  with None show ?thesis by simp
next
  case (Some r)
  show ?thesis
  proof (cases "k = j")
    case True
    then show ?thesis by (auto simp: tfind_None)
  next
    case False
    then have "tfind key k (tdelete key j ps) = Some r"
      using tfind_Some [OF Some] by (simp add: tfind_iff [OF ordered_tdelete [OF assms]])
    with Some False show ?thesis by simp
  qed
qed

end
