(* ===== verification/Deb_Database.thy ===== *)
theory Deb_Database
  imports Deb_Question C_Search
begin

text \<open>
  The databases of templates and questions: \<^verbatim>\<open>cdebconf/src/database.c\<close> and the operations on the
  loaded data in \<^verbatim>\<open>cdebconf/src/modules/db/rfc822db/rfc822db.c\<close>.

  Templates and questions are in heaps, and a tree of \<^verbatim>\<open><search.h>\<close> is the list of its pointers
  in the order of their tags, which is what \<open>twalk\<close> visits. A database never frees what is
  still in use, so addresses are never reused.
\<close>

section \<open>Definitions\<close>

type_synonym q_ptr = nat

record debconf_db =
  theap :: tmpl_heap
  tnext :: tmpl_ptr
  troot :: "tmpl_ptr list"
  tdirty :: bool
  qheap :: "q_ptr \<Rightarrow> question"
  qnext :: q_ptr
  qroot :: "q_ptr list"
  qdirty :: bool

subsection \<open>Templates\<close>

definition ttag :: "tmpl_heap \<Rightarrow> tmpl_ptr \<Rightarrow> string" where
  "ttag h p = (case tag (h p) of None \<Rightarrow> [] | Some s \<Rightarrow> s)"

definition template_alloc :: "template \<Rightarrow> debconf_db \<Rightarrow> tmpl_ptr \<times> debconf_db" where
  "template_alloc t d = (tnext d, d\<lparr>theap := (theap d)(tnext d := t), tnext := tnext d + 1\<rparr>)"

definition template_upd :: "tmpl_ptr \<Rightarrow> (template \<Rightarrow> template) \<Rightarrow> debconf_db \<Rightarrow> debconf_db" where
  "template_upd p f d = d\<lparr>theap := (theap d)(p := f (theap d p))\<rparr>"

definition rfc822db_template_get :: "debconf_db \<Rightarrow> string \<Rightarrow> tmpl_ptr option" where
  "rfc822db_template_get d ltag = tfind (ttag (theap d)) ltag (troot d)"

definition rfc822db_template_set :: "tmpl_ptr \<Rightarrow> debconf_db \<Rightarrow> debconf_db" where
  "rfc822db_template_set p d =
     (let key = ttag (theap d)
      in d\<lparr>troot := tsearch key p (tdelete key (key p) (troot d)), tdirty := True\<rparr>)"

definition rfc822db_template_remove :: "string \<Rightarrow> debconf_db \<Rightarrow> bool \<times> debconf_db" where
  "rfc822db_template_remove tg d =
     (case rfc822db_template_get d tg of
        None \<Rightarrow> (False, d)
      | Some p \<Rightarrow> (True, d\<lparr>troot := tdelete (ttag (theap d)) tg (troot d), tdirty := True\<rparr>))"

subsection \<open>Questions\<close>

definition question_alloc :: "question \<Rightarrow> debconf_db \<Rightarrow> q_ptr \<times> debconf_db" where
  "question_alloc q d = (qnext d, d\<lparr>qheap := (qheap d)(qnext d := q), qnext := qnext d + 1\<rparr>)"

definition question_upd :: "q_ptr \<Rightarrow> (question \<Rightarrow> question) \<Rightarrow> debconf_db \<Rightarrow> debconf_db" where
  "question_upd p f d = d\<lparr>qheap := (qheap d)(p := f (qheap d p))\<rparr>"

definition qkey :: "debconf_db \<Rightarrow> q_ptr \<Rightarrow> string" where
  "qkey d p = qtag (qheap d p)"

definition rfc822db_question_get :: "debconf_db \<Rightarrow> string \<Rightarrow> q_ptr option" where
  "rfc822db_question_get d ltag = tfind (qkey d) ltag (qroot d)"

definition rfc822db_question_set :: "q_ptr \<Rightarrow> debconf_db \<Rightarrow> debconf_db" where
  "rfc822db_question_set p d =
     (let d = (case rfc822db_question_get d (qkey d p) of
                 None \<Rightarrow> d
               | Some r \<Rightarrow> question_upd p (fold question_owner_add (owners (qheap d r))) d)
      in d\<lparr>qroot := tsearch (qkey d) p (tdelete (qkey d) (qkey d p) (qroot d)), qdirty := True\<rparr>)"

definition rfc822db_question_remove :: "string \<Rightarrow> debconf_db \<Rightarrow> bool \<times> debconf_db" where
  "rfc822db_question_remove tg d =
     (case rfc822db_question_get d tg of
        None \<Rightarrow> (False, d)
      | Some p \<Rightarrow> (True, d\<lparr>qroot := tdelete (qkey d) tg (qroot d), qdirty := True\<rparr>))"

definition rfc822db_question_disown :: "string \<Rightarrow> string \<Rightarrow> debconf_db \<Rightarrow> bool \<times> debconf_db" where
  "rfc822db_question_disown tg owner d =
     (case rfc822db_question_get d tg of
        None \<Rightarrow> (False, d)
      | Some p \<Rightarrow>
          (let d = question_upd p (question_owner_delete owner) d
           in if owners (qheap d p) = [] then (True, snd (rfc822db_question_remove (qkey d p) d))
              else (True, rfc822db_question_set p d)))"

text \<open>
  The iteration copies all questions first and then returns the copies one after the other;
  \<open>question_dup\<close> reads through the pointer to the template.
\<close>

definition rfc822db_question_iterate :: "debconf_db \<Rightarrow> question list option" where
  "rfc822db_question_iterate d =
     (if list_all (\<lambda>p. qtemplate (qheap d p) \<noteq> None) (qroot d)
      then Some (map (\<lambda>p. question_dup (qheap d p)) (qroot d)) else None)"

definition question_db_disownall :: "string \<Rightarrow> debconf_db \<Rightarrow> debconf_db option" where
  "question_db_disownall owner d =
     map_option (\<lambda>qs. fold (\<lambda>q d. snd (rfc822db_question_disown (qtag q) owner d)) qs d) (rfc822db_question_iterate d)"

subsection \<open>Loading templates\<close>

definition set_question_template :: "tmpl_ptr \<Rightarrow> debconf_db \<Rightarrow> q_ptr \<times> debconf_db" where
  "set_question_template t d =
     (case rfc822db_question_get d (ttag (theap d) t) of
        None \<Rightarrow> question_alloc ((question_new (ttag (theap d) t))\<lparr>qtemplate := Some t\<rparr>) d
      | Some q \<Rightarrow> (q, question_upd q (\<lambda>x. x\<lparr>qtemplate := Some t\<rparr>) d))"

definition loadfile_store :: "bool \<Rightarrow> tmpl_ptr \<Rightarrow> debconf_db \<Rightarrow> debconf_db" where
  "loadfile_store merge t d =
     (case rfc822db_template_get d (ttag (theap d) t) of
        None \<Rightarrow> rfc822db_template_set t d
      | Some oldt \<Rightarrow>
          if \<not> merge then rfc822db_template_set t d
          else (case template_l10nmerge (theap d oldt) (theap d t) of
                  None \<Rightarrow> rfc822db_template_set t d
                | Some m \<Rightarrow> template_upd oldt (\<lambda>_. m) d))"

definition loadfile_one :: "string \<Rightarrow> bool \<Rightarrow> template \<Rightarrow> debconf_db \<Rightarrow> debconf_db" where
  "loadfile_one owner merge tm d =
     (let (t, d) = template_alloc tm d;
          (q, d) = set_question_template t (loadfile_store merge t d)
      in rfc822db_question_set q (question_upd q (question_owner_add owner) d))"

definition template_db_loadfile ::
  "l10n_env \<Rightarrow> string \<Rightarrow> string \<Rightarrow> bool \<Rightarrow> debconf_db \<Rightarrow> load_error + debconf_db" where
  "template_db_loadfile env contents owner merge d =
     (case template_load env contents of
        Inl e \<Rightarrow> Inl e
      | Inr ts \<Rightarrow> Inr (fold (loadfile_one owner merge) ts d))"

subsection \<open>Which questions are shown\<close>

text \<open>The settings that decide about it: command line and environment.\<close>

record visible_env =
  cmdline_priority :: "string option"
  cmdline_showold :: "string option"
  DEBIAN_PRIORITY :: "string option"

text \<open>The value of another question, \<open>Some None\<close> when there is no such question.\<close>

definition other_value :: "l10n_env \<Rightarrow> debconf_db \<Rightarrow> string \<Rightarrow> string option option" where
  "other_value env d name =
     (case rfc822db_question_get d name of
        None \<Rightarrow> Some None
      | Some p \<Rightarrow> question_getvalue env (theap d) (qheap d p) None)"

definition wanted_priority :: "l10n_env \<Rightarrow> visible_env \<Rightarrow> debconf_db \<Rightarrow> string option" where
  "wanted_priority env ve d =
     do {
       p \<leftarrow> (case cmdline_priority ve of Some p \<Rightarrow> Some (Some p)
             | None \<Rightarrow> (case DEBIAN_PRIORITY ve of Some p \<Rightarrow> Some (Some p)
                        | None \<Rightarrow> other_value env d ''debconf/priority''));
       Some (case p of None \<Rightarrow> ''medium'' | Some p \<Rightarrow> if p = [] then ''medium'' else p)
     }"

definition question_db_is_visible :: "l10n_env \<Rightarrow> visible_env \<Rightarrow> debconf_db \<Rightarrow> string \<Rightarrow> string \<Rightarrow> bool option" where
  "question_db_is_visible env ve d name prio =
     (let q = map_option (qheap d) (rfc822db_question_get d name)
      in if q \<bind> qtemplate \<bind> (\<lambda>t. ttype (theap d t)) = Some ''error'' then Some True
         else do {
           wantprio \<leftarrow> wanted_priority env ve d;
           if priority_compare (Some prio) (Some wantprio) < 0 then Some False
           else if (case q of None \<Rightarrow> False | Some x \<Rightarrow> question_get_flag x DC_QFLAG_SEEN \<noteq> 0)
           then do {
             showold \<leftarrow> (case cmdline_showold ve of Some s \<Rightarrow> Some (Some s)
                         | None \<Rightarrow> other_value env d ''debconf/showold'');
             Some (showold = Some ''true'')
           }
           else Some True
         })"

definition common_accept :: "string \<Rightarrow> string list option \<Rightarrow> string list option \<Rightarrow> bool" where
  "common_accept type accept_types reject_types =
     (if accept_types \<noteq> None \<and> type \<notin> set (the accept_types) then False
      else if reject_types \<noteq> None \<and> type \<in> set (the reject_types) then False
      else True)"

definition question_db_accept ::
  "string list option \<Rightarrow> string list option \<Rightarrow> debconf_db \<Rightarrow> string \<Rightarrow> string option \<Rightarrow> bool" where
  "question_db_accept accept_types reject_types d name type =
     (let type = (case type of
                    Some (c # s) \<Rightarrow> c # s
                  | _ \<Rightarrow> (case map_option (qheap d) (rfc822db_question_get d name) \<bind> qtemplate \<bind> (\<lambda>t. ttype (theap d t)) of
                            Some ty \<Rightarrow> ty | None \<Rightarrow> []))
      in common_accept type accept_types reject_types)"

section \<open>The store interface\<close>

text \<open>
  What the rest of debconf uses of a database: a partial map from tags to objects with
  replacement. The object itself may be changed when it is stored, its tag is not.
\<close>

locale tag_store =
  fixes inv :: "'d \<Rightarrow> bool" and key :: "'d \<Rightarrow> 'p \<Rightarrow> string"
    and get :: "'d \<Rightarrow> string \<Rightarrow> 'p option" and put :: "'p \<Rightarrow> 'd \<Rightarrow> 'd"
  assumes inv_put: "inv d \<Longrightarrow> inv (put p d)"
    and key_put: "key (put p d) = key d"
    and get_put: "inv d \<Longrightarrow> get (put p d) k = (if k = key d p then Some p else get d k)"
    and get_key: "inv d \<Longrightarrow> get d k = Some p \<Longrightarrow> key d p = k"
begin

lemma inv_puts: "inv d \<Longrightarrow> inv (fold put ps d)"
  by (induction ps arbitrary: d) (simp_all add: inv_put)

lemma key_puts [simp]: "key (fold put ps d) = key d"
  by (induction ps arbitrary: d) (simp_all add: key_put)

text \<open>After storing several objects, the last one with a tag is found.\<close>

lemma get_puts:
  assumes "inv d"
  shows "get (fold put ps d) k = (case find (\<lambda>p. key d p = k) (rev ps) of None \<Rightarrow> get d k | Some p \<Rightarrow> Some p)"
proof (induction ps rule: rev_induct)
  case (snoc p ps)
  show ?case using snoc get_put [OF inv_puts [OF assms], of p ps k] by auto
qed simp

lemma get_put_get:
  assumes "inv d" "get d k = Some p"
  shows "get (put p d) = get d"
  using assms get_key [OF assms] by (auto simp: fun_eq_iff get_put)

end

lemma question_owner_add_tag [simp]: "qtag (question_owner_add x q) = qtag q"
  by (simp add: question_owner_add_def)

lemma fold_owner_add_simps [simp]:
  "qtag (fold question_owner_add xs q) = qtag q" "qtemplate (fold question_owner_add xs q) = qtemplate q"
  "qvalue (fold question_owner_add xs q) = qvalue q" "flags (fold question_owner_add xs q) = flags q"
  "variables (fold question_owner_add xs q) = variables q"
  by (simp_all add: question_owner_add_fold)

lemma question_upd_key: "(\<And>q. qtag (f q) = qtag q) \<Longrightarrow> qkey (question_upd p f d) = qkey d"
  by (auto simp: question_upd_def qkey_def fun_eq_iff)

lemma qkey_update [simp]:
  "qkey (d\<lparr>theap := h\<rparr>) = qkey d" "qkey (d\<lparr>tnext := n\<rparr>) = qkey d" "qkey (d\<lparr>troot := r\<rparr>) = qkey d"
  "qkey (d\<lparr>tdirty := b\<rparr>) = qkey d" "qkey (d\<lparr>qnext := n\<rparr>) = qkey d" "qkey (d\<lparr>qroot := r\<rparr>) = qkey d"
  "qkey (d\<lparr>qdirty := b\<rparr>) = qkey d"
  by (simp_all add: qkey_def fun_eq_iff)

lemma question_upd_simps [simp]:
  "qroot (question_upd p f d) = qroot d" "theap (question_upd p f d) = theap d" "troot (question_upd p f d) = troot d"
  "tnext (question_upd p f d) = tnext d" "qnext (question_upd p f d) = qnext d"
  "rfc822db_template_get (question_upd p f d) = rfc822db_template_get d"
  by (simp_all add: question_upd_def rfc822db_template_get_def fun_eq_iff)

lemma question_set_key: "qkey (rfc822db_question_set p d) = qkey d"
  by (auto simp: rfc822db_question_set_def Let_def question_upd_key split: option.split)

lemma question_set_root: "qroot (rfc822db_question_set p d) = tsearch (qkey d) p (tdelete (qkey d) (qkey d p) (qroot d))"
  by (auto simp: rfc822db_question_set_def Let_def question_upd_key split: option.split)

interpretation questions: tag_store "\<lambda>d. ordered (qkey d) (qroot d)" qkey rfc822db_question_get rfc822db_question_set
proof unfold_locales
  fix d :: debconf_db and p k
  assume "ordered (qkey d) (qroot d)"
  then show "ordered (qkey (rfc822db_question_set p d)) (qroot (rfc822db_question_set p d))"
    and "rfc822db_question_get (rfc822db_question_set p d) k = (if k = qkey d p then Some p else rfc822db_question_get d k)"
    by (simp_all add: question_set_key question_set_root replace_ordered replace_tfind rfc822db_question_get_def)
qed (auto simp: question_set_key rfc822db_question_get_def dest: tfind_Some)

interpretation templates: tag_store "\<lambda>d. ordered (ttag (theap d)) (troot d)" "\<lambda>d. ttag (theap d)"
  rfc822db_template_get rfc822db_template_set
  by unfold_locales (auto simp: rfc822db_template_set_def rfc822db_template_get_def Let_def replace_ordered replace_tfind
      dest: tfind_Some)

section \<open>Well-formed databases\<close>

definition q_valid :: "debconf_db \<Rightarrow> question \<Rightarrow> bool" where
  "q_valid d q \<longleftrightarrow> question_ok q \<and> (\<exists>t < tnext d. qtemplate q = Some t)"

definition db_ok :: "debconf_db \<Rightarrow> bool" where
  "db_ok d \<longleftrightarrow> ordered (qkey d) (qroot d) \<and> ordered (ttag (theap d)) (troot d) \<and>
     (\<forall>p \<in> set (qroot d). p < qnext d) \<and> (\<forall>p < qnext d. q_valid d (qheap d p)) \<and>
     (\<forall>t \<in> set (troot d). t < tnext d) \<and> (\<forall>t < tnext d. template_ok (theap d t))"

lemma db_ok_get:
  assumes "db_ok d" "rfc822db_question_get d k = Some p"
  shows "p < qnext d" "q_valid d (qheap d p)" "qtag (qheap d p) = k" "p \<in> set (qroot d)"
  using assms tfind_Some [of "qkey d" k "qroot d" p] by (auto simp: db_ok_def rfc822db_question_get_def qkey_def)

lemma db_ok_template_get:
  assumes "db_ok d" "rfc822db_template_get d k = Some t"
  shows "t < tnext d" "ttag (theap d) t = k"
  using assms tfind_Some [of "ttag (theap d)" k "troot d" t] by (auto simp: db_ok_def rfc822db_template_get_def)

lemma question_upd_ok:
  assumes "db_ok d" "\<And>q. qtag (f q) = qtag q" "q_valid d (qheap d p) \<Longrightarrow> q_valid d (f (qheap d p))"
  shows "db_ok (question_upd p f d)"
  using assms question_upd_key [of f p d] by (auto simp: db_ok_def q_valid_def question_upd_def)

lemma q_valid_owner_add: "q_valid d q \<Longrightarrow> q_valid d (question_owner_add x q)"
  by (auto simp: q_valid_def question_ops_ok) (simp add: question_owner_add_def)

lemma q_valid_owner_adds: "q_valid d q \<Longrightarrow> q_valid d (fold question_owner_add xs q)"
  by (induction xs arbitrary: q) (simp_all add: q_valid_owner_add)

lemma db_ok_simps [simp]:
  "db_ok (d\<lparr>qdirty := b\<rparr>) = db_ok d" "db_ok (d\<lparr>tdirty := b\<rparr>) = db_ok d"
  by (simp_all add: db_ok_def q_valid_def)

lemma db_ok_root:
  assumes "db_ok d" "ordered (qkey d) ps" "\<forall>p \<in> set ps. p < qnext d"
  shows "db_ok (d\<lparr>qroot := ps, qdirty := b\<rparr>)"
  using assms by (auto simp: db_ok_def q_valid_def)

lemma question_set_ok:
  assumes "db_ok d" "p < qnext d"
  shows "db_ok (rfc822db_question_set p d)"
proof -
  let ?d = "case rfc822db_question_get d (qkey d p) of None \<Rightarrow> d
    | Some r \<Rightarrow> question_upd p (fold question_owner_add (owners (qheap d r))) d"
  have d: "db_ok ?d" and k: "qkey ?d = qkey d" "qroot ?d = qroot d" "qnext ?d = qnext d"
    using assms(1) by (auto intro!: question_upd_ok q_valid_owner_adds simp: question_upd_key split: option.split)
  have "ordered (qkey d) (qroot d)" "\<forall>r \<in> set (qroot d). r < qnext d" using assms(1) by (auto simp: db_ok_def)
  then show ?thesis
    unfolding rfc822db_question_set_def Let_def k
    by (intro db_ok_root d) (auto simp: k replace_ordered replace_set assms(2))
qed

lemma question_alloc_ok:
  assumes "db_ok d" "q_valid d q" "question_alloc q d = (p, d')"
  shows "db_ok d'" "p < qnext d'" "qheap d' p = q" "rfc822db_question_get d' = rfc822db_question_get d"
    "tnext d' = tnext d" "theap d' = theap d" "rfc822db_template_get d' = rfc822db_template_get d"
proof -
  have d': "d' = d\<lparr>qheap := (qheap d)(qnext d := q), qnext := qnext d + 1\<rparr>" "p = qnext d"
    using assms(3) by (auto simp: question_alloc_def)
  have k: "\<forall>r \<in> set (qroot d). qkey d' r = qkey d r"
    using assms(1) by (auto simp: d' qkey_def db_ok_def)
  then have "ordered (qkey d') (qroot d)"
    using assms(1) unfolding db_ok_def ordered_def by (metis (no_types, lifting) sorted_wrt_mono_rel)
  then show "db_ok d'"
    using assms(1,2) by (auto simp: db_ok_def d' q_valid_def less_Suc_eq)
  show "rfc822db_question_get d' = rfc822db_question_get d"
    using k by (auto simp: rfc822db_question_get_def tfind_def fun_eq_iff d' intro: find_cong)
  show "p < qnext d'" "qheap d' p = q" "tnext d' = tnext d" "theap d' = theap d"
    "rfc822db_template_get d' = rfc822db_template_get d"
    by (simp_all add: d' rfc822db_template_get_def fun_eq_iff)
qed

lemma question_remove_ok:
  assumes "db_ok d"
  shows "db_ok (snd (rfc822db_question_remove tg d))"
    and "rfc822db_question_get (snd (rfc822db_question_remove tg d)) k = (if k = tg then None else rfc822db_question_get d k)"
    and "qheap (snd (rfc822db_question_remove tg d)) = qheap d"
proof -
  have o: "ordered (qkey d) (qroot d)" using assms by (simp add: db_ok_def)
  show "db_ok (snd (rfc822db_question_remove tg d))"
    using assms by (auto simp: rfc822db_question_remove_def db_ok_def ordered_tdelete q_valid_def split: option.split)
  show "rfc822db_question_get (snd (rfc822db_question_remove tg d)) k = (if k = tg then None else rfc822db_question_get d k)"
    by (auto simp: rfc822db_question_remove_def rfc822db_question_get_def delete_tfind [OF o] split: option.split)
  show "qheap (snd (rfc822db_question_remove tg d)) = qheap d"
    by (auto simp: rfc822db_question_remove_def split: option.split)
qed

lemma template_alloc_ok:
  assumes "db_ok d" "template_ok t" "template_alloc t d = (p, d')"
  shows "db_ok d'" "p < tnext d'" "theap d' p = t" "rfc822db_question_get d' = rfc822db_question_get d" "qheap d' = qheap d"
    "rfc822db_template_get d' = rfc822db_template_get d" "\<And>r. r < tnext d \<Longrightarrow> theap d' r = theap d r" "p = tnext d"
    "qnext d' = qnext d"
proof -
  have d': "d' = d\<lparr>theap := (theap d)(tnext d := t), tnext := tnext d + 1\<rparr>" "p = tnext d"
    using assms(3) by (auto simp: template_alloc_def)
  have k: "\<forall>r \<in> set (troot d). ttag (theap d') r = ttag (theap d) r"
    using assms(1) by (auto simp: d' ttag_def db_ok_def)
  then have "ordered (ttag (theap d')) (troot d)"
    using assms(1) unfolding db_ok_def ordered_def by (metis (no_types, lifting) sorted_wrt_mono_rel)
  moreover have "\<exists>t < Suc (tnext d). qtemplate q = Some t" if "\<exists>t < tnext d. qtemplate q = Some t" for q
    using that less_SucI by blast
  ultimately show "db_ok d'"
    using assms(1,2) by (auto simp: db_ok_def d' q_valid_def less_Suc_eq)
  show "rfc822db_template_get d' = rfc822db_template_get d"
    using k by (auto simp: rfc822db_template_get_def tfind_def fun_eq_iff d' intro: find_cong)
  show "p < tnext d'" "theap d' p = t" "rfc822db_question_get d' = rfc822db_question_get d" "qheap d' = qheap d"
    "\<And>r. r < tnext d \<Longrightarrow> theap d' r = theap d r" "p = tnext d" "qnext d' = qnext d"
    by (simp_all add: d' rfc822db_question_get_def fun_eq_iff)
qed

lemma template_set_ok:
  assumes "db_ok d" "p < tnext d"
  shows "db_ok (rfc822db_template_set p d)"
  using assms
  by (auto simp: db_ok_def rfc822db_template_set_def Let_def replace_ordered replace_set q_valid_def)

lemma template_set_frame [simp]:
  "qheap (rfc822db_template_set p d) = qheap d" "theap (rfc822db_template_set p d) = theap d"
  "tnext (rfc822db_template_set p d) = tnext d" "qnext (rfc822db_template_set p d) = qnext d"
  "rfc822db_question_get (rfc822db_template_set p d) = rfc822db_question_get d"
  by (simp_all add: rfc822db_template_set_def Let_def rfc822db_question_get_def fun_eq_iff)

lemma template_upd_ok:
  assumes "db_ok d" "tag (f (theap d p)) = tag (theap d p)" "template_ok (theap d p) \<Longrightarrow> template_ok (f (theap d p))"
  shows "db_ok (template_upd p f d)"
proof -
  have "ttag ((theap d)(p := f (theap d p))) = ttag (theap d)" using assms(2) by (auto simp: ttag_def fun_eq_iff)
  then show ?thesis using assms(1,3) by (auto simp: db_ok_def template_upd_def q_valid_def)
qed

lemma template_upd_frame [simp]:
  "qheap (template_upd p f d) = qheap d" "tnext (template_upd p f d) = tnext d" "qnext (template_upd p f d) = qnext d"
  "rfc822db_question_get (template_upd p f d) = rfc822db_question_get d"
  by (simp_all add: template_upd_def rfc822db_question_get_def fun_eq_iff)

subsection \<open>Giving up questions\<close>

lemma fold_owner_add_self [simp]: "set xs \<subseteq> set (owners q) \<Longrightarrow> fold question_owner_add xs q = q"
  by (induction xs) (simp_all add: question_owner_add_def)

lemma question_set_again:
  assumes "db_ok d" "rfc822db_question_get d k = Some p"
  shows "qheap (rfc822db_question_set p d) = qheap d" "rfc822db_question_get (rfc822db_question_set p d) = rfc822db_question_get d"
proof -
  have "rfc822db_question_get d (qkey d p) = Some p"
    using assms db_ok_get(3) [OF assms] by (simp add: qkey_def)
  then show "qheap (rfc822db_question_set p d) = qheap d"
    by (simp add: rfc822db_question_set_def Let_def question_upd_def)
  show "rfc822db_question_get (rfc822db_question_set p d) = rfc822db_question_get d"
    using assms by (intro questions.get_put_get) (auto simp: db_ok_def)
qed

lemma disown_spec:
  fixes tg owner :: string
  assumes "db_ok d"
  defines "d' \<equiv> snd (rfc822db_question_disown tg owner d)"
  shows "db_ok d'"
    and "rfc822db_question_get d' k =
      (case rfc822db_question_get d k of
         None \<Rightarrow> None
       | Some p \<Rightarrow> if k = tg \<and> set (owners (qheap d p)) \<subseteq> {owner} then None else Some p)"
    and "qheap d' = (case rfc822db_question_get d tg of
      None \<Rightarrow> qheap d | Some p \<Rightarrow> (qheap d)(p := question_owner_delete owner (qheap d p)))"
proof -
  have "db_ok d' \<and> rfc822db_question_get d' k =
      (case rfc822db_question_get d k of
         None \<Rightarrow> None
       | Some p \<Rightarrow> if k = tg \<and> set (owners (qheap d p)) \<subseteq> {owner} then None else Some p) \<and>
      qheap d' = (case rfc822db_question_get d tg of
      None \<Rightarrow> qheap d | Some p \<Rightarrow> (qheap d)(p := question_owner_delete owner (qheap d p)))"
  proof (cases "rfc822db_question_get d tg")
    case None
    then show ?thesis using assms by (auto simp: rfc822db_question_disown_def split: option.split)
  next
    case (Some p)
    let ?e = "question_upd p (question_owner_delete owner) d"
    have v: "q_valid d (question_owner_delete owner q)" if "q_valid d q" for q
      using that by (auto simp: q_valid_def question_ops_ok) (simp add: question_owner_delete_def)
    have key: "qkey ?e = qkey d" by (rule question_upd_key) (simp add: question_owner_delete_def)
    have e: "db_ok ?e"
      using assms(1) v by (intro question_upd_ok) (auto simp: question_owner_delete_def)
    have g: "rfc822db_question_get ?e = rfc822db_question_get d"
      by (simp add: rfc822db_question_get_def key fun_eq_iff)
    have p: "qkey ?e p = tg" using db_ok_get(3) [OF assms(1) Some] key by (simp add: qkey_def fun_eq_iff)
    have h: "qheap ?e = (qheap d)(p := question_owner_delete owner (qheap d p))" by (simp add: question_upd_def)
    have o: "owners (qheap ?e p) = [] \<longleftrightarrow> set (owners (qheap d p)) \<subseteq> {owner}"
      by (auto simp: h question_owner_delete_def filter_empty_conv)
    have same: "r = p" if "rfc822db_question_get d k = Some r" "k = tg" for r k using that Some by simp
    show ?thesis
    proof (cases "owners (qheap ?e p) = []")
      case True
      then have "d' = snd (rfc822db_question_remove tg ?e)"
        by (simp add: d'_def rfc822db_question_disown_def Some Let_def p)
      note rm = question_remove_ok [OF e, of tg, folded this, unfolded g h]
      have "set (owners (qheap d p)) \<subseteq> {owner}" using True o by blast
      with rm Some show ?thesis by (cases "k = tg"; cases "rfc822db_question_get d k") simp_all
    next
      case False
      then have d': "d' = rfc822db_question_set p ?e"
        by (simp add: d'_def rfc822db_question_disown_def Some Let_def)
      have "rfc822db_question_get ?e tg = Some p" using g Some by simp
      note again = question_set_again [OF e this]
      have "db_ok d'" unfolding d' using e db_ok_get(1) [OF assms(1) Some] by (intro question_set_ok) auto
      moreover have "\<not> (k = tg \<and> set (owners (qheap d r)) \<subseteq> {owner})" if "rfc822db_question_get d k = Some r" for r
        using same [OF that] False o by blast
      moreover have "rfc822db_question_get d' k = rfc822db_question_get d k" "qheap d' = qheap ?e"
        using again g d' by simp_all
      ultimately show ?thesis using h Some by (cases "rfc822db_question_get d k") simp_all
    qed
  qed
  then show "db_ok d'"
    and "rfc822db_question_get d' k =
      (case rfc822db_question_get d k of
         None \<Rightarrow> None
       | Some p \<Rightarrow> if k = tg \<and> set (owners (qheap d p)) \<subseteq> {owner} then None else Some p)"
    and "qheap d' = (case rfc822db_question_get d tg of
      None \<Rightarrow> qheap d | Some p \<Rightarrow> (qheap d)(p := question_owner_delete owner (qheap d p)))"
    by blast+
qed

lemma disown_fold:
  fixes owner :: string
  assumes "db_ok d" "distinct tags"
  defines "d' \<equiv> fold (\<lambda>tg d. snd (rfc822db_question_disown tg owner d)) tags d"
  shows "db_ok d' \<and> (\<forall>k. rfc822db_question_get d' k =
      (case rfc822db_question_get d k of
         None \<Rightarrow> None
       | Some p \<Rightarrow> if k \<in> set tags \<and> set (owners (qheap d p)) \<subseteq> {owner} then None else Some p)) \<and>
    (\<forall>k p. rfc822db_question_get d' k = Some p \<longrightarrow>
      qheap d' p = (if k \<in> set tags then question_owner_delete owner (qheap d p) else qheap d p))"
  using assms(1,2) unfolding d'_def
proof (induction tags arbitrary: d)
  case (Cons tg tags)
  let ?e = "snd (rfc822db_question_disown tg owner d)"
  have tg: "tg \<notin> set tags" "distinct tags" using Cons.prems(2) by auto
  note e = disown_spec [OF Cons.prems(1), of tg owner]
  have h: "qheap ?e p = (if k = tg then question_owner_delete owner (qheap d p) else qheap d p)"
    if "rfc822db_question_get d k = Some p" for k p
  proof (cases "rfc822db_question_get d tg")
    case None
    with that have "k \<noteq> tg" by auto
    then show ?thesis unfolding e(3) None by simp
  next
    case (Some r)
    have "r = p \<longleftrightarrow> k = tg"
      using db_ok_get(3) [OF Cons.prems(1) that] db_ok_get(3) [OF Cons.prems(1) Some] that Some by (metis option.inject)
    then show ?thesis unfolding e(3) Some by (cases "k = tg") auto
  qed
  have sub: "rfc822db_question_get d k = Some p" if "rfc822db_question_get ?e k = Some p" for k p
    using that e(2) [of k] by (auto split: option.splits if_splits)
  note IH = Cons.IH [OF e(1) tg(2)]
  let ?f = "fold (\<lambda>tg d. snd (rfc822db_question_disown tg owner d)) tags ?e"
  have get: "rfc822db_question_get ?f k =
      (case rfc822db_question_get d k of
         None \<Rightarrow> None
       | Some p \<Rightarrow> if k \<in> set (tg # tags) \<and> set (owners (qheap d p)) \<subseteq> {owner} then None else Some p)" for k
  proof (cases "rfc822db_question_get d k")
    case None
    then show ?thesis using IH e(2) [of k] by simp
  next
    case (Some p)
    show ?thesis using IH e(2) [of k] Some h [OF Some] tg(1) by (cases "k = tg") auto
  qed
  have "qheap ?f p = (if k \<in> set (tg # tags) then question_owner_delete owner (qheap d p) else qheap d p)"
    if "rfc822db_question_get ?f k = Some p" for k p
  proof -
    have p: "rfc822db_question_get ?e k = Some p" using IH that by (auto split: option.splits if_splits)
    show ?thesis using IH that h [OF sub [OF p]] tg(1) by auto
  qed
  with IH get show ?case by simp
qed (auto split: option.splits)

lemma disownall_spec:
  assumes "db_ok d"
  obtains d' where "question_db_disownall owner d = Some d'" "db_ok d'"
    and "\<And>k. rfc822db_question_get d' k = (case rfc822db_question_get d k of
         None \<Rightarrow> None | Some p \<Rightarrow> if set (owners (qheap d p)) \<subseteq> {owner} then None else Some p)"
    and "\<And>k p. rfc822db_question_get d' k = Some p \<Longrightarrow> qheap d' p = question_owner_delete owner (qheap d p)"
proof -
  let ?tags = "map (qkey d) (qroot d)"
  let ?d = "fold (\<lambda>tg d. snd (rfc822db_question_disown tg owner d)) ?tags d"
  have "list_all (\<lambda>p. qtemplate (qheap d p) \<noteq> None) (qroot d)"
    using assms by (auto simp: db_ok_def q_valid_def list_all_iff)
  moreover have "qtag (question_dup q) = qtag q" for q
    by (simp add: question_dup_def question_variable_add_fold question_new_def)
  ultimately have "question_db_disownall owner d = Some ?d"
    by (simp add: question_db_disownall_def rfc822db_question_iterate_def fold_map comp_def qkey_def)
  moreover have "distinct ?tags" using assms by (auto simp: db_ok_def intro: ordered_distinct)
  note D = disown_fold [OF assms this, of owner]
  have t: "k \<in> set ?tags" if "rfc822db_question_get d k = Some p" for k p
    using db_ok_get(3,4) [OF assms that] by (auto simp: qkey_def)
  have "rfc822db_question_get ?d k = (case rfc822db_question_get d k of
         None \<Rightarrow> None | Some p \<Rightarrow> if set (owners (qheap d p)) \<subseteq> {owner} then None else Some p)" for k
    using D t [of k] by (cases "rfc822db_question_get d k") simp_all
  moreover have "qheap ?d p = question_owner_delete owner (qheap d p)" if "rfc822db_question_get ?d k = Some p" for k p
  proof -
    have "rfc822db_question_get d k = Some p" using D that by (auto split: option.splits if_splits)
    from t [OF this] D that show ?thesis by simp
  qed
  ultimately show ?thesis using D that by blast
qed

subsection \<open>Loading a template file\<close>

lemma set_question_template_ok:
  assumes "db_ok d" "t < tnext d" "set_question_template t d = (q, d')"
  shows "db_ok d'" "q < qnext d'" "qtag (qheap d' q) = ttag (theap d) t" "qtemplate (qheap d' q) = Some t"
    "theap d' = theap d" "tnext d' = tnext d" "rfc822db_template_get d' = rfc822db_template_get d"
proof -
  have "db_ok d' \<and> q < qnext d' \<and> qtag (qheap d' q) = ttag (theap d) t \<and> qtemplate (qheap d' q) = Some t \<and>
    theap d' = theap d \<and> tnext d' = tnext d \<and> rfc822db_template_get d' = rfc822db_template_get d"
  proof (cases "rfc822db_question_get d (ttag (theap d) t)")
    case None
    have "q_valid d ((question_new (ttag (theap d) t))\<lparr>qtemplate := Some t\<rparr>)"
      using assms(2) by (simp add: q_valid_def question_ok_def question_new_def)
    from question_alloc_ok [OF assms(1) this, of q d'] None assms(3) show ?thesis
      by (auto simp: set_question_template_def question_new_def)
  next
    case (Some p)
    then have d': "d' = question_upd p (\<lambda>x. x\<lparr>qtemplate := Some t\<rparr>) d" "q = p"
      using assms(3) by (auto simp: set_question_template_def)
    have "db_ok d'" unfolding d'
      using assms(1,2) by (intro question_upd_ok) (auto simp: q_valid_def question_ok_def)
    then show ?thesis
      using db_ok_get [OF assms(1) Some] by (auto simp: d' question_upd_def rfc822db_template_get_def fun_eq_iff)
  qed
  then show "db_ok d'" "q < qnext d'" "qtag (qheap d' q) = ttag (theap d) t" "qtemplate (qheap d' q) = Some t"
    "theap d' = theap d" "tnext d' = tnext d" "rfc822db_template_get d' = rfc822db_template_get d"
    by blast+
qed

lemma question_set_frame [simp]:
  "theap (rfc822db_question_set p d) = theap d" "tnext (rfc822db_question_set p d) = tnext d"
  "qnext (rfc822db_question_set p d) = qnext d"
  "rfc822db_template_get (rfc822db_question_set p d) = rfc822db_template_get d"
  by (auto simp: rfc822db_question_set_def Let_def rfc822db_template_get_def fun_eq_iff split: option.split)

lemma question_set_value:
  "\<exists>xs. qheap (rfc822db_question_set p d) = (qheap d)(p := fold question_owner_add xs (qheap d p))"
  by (auto simp: rfc822db_question_set_def Let_def question_upd_def split: option.split intro: exI [of _ "[]"])

lemma set_fold_owner_add: "set (owners (fold question_owner_add xs q)) = set xs \<union> set (owners q)"
  by (induction xs arbitrary: q) (auto simp: question_owner_add_def)

text \<open>
  One template of a file. \<open>new_text\<close> is what the database holds for its tag afterwards: the
  template of the file, or the merged one.
\<close>

definition new_text :: "bool \<Rightarrow> debconf_db \<Rightarrow> template \<Rightarrow> template" where
  "new_text merge d tm =
     (case rfc822db_template_get d (case tag tm of None \<Rightarrow> [] | Some s \<Rightarrow> s) of
        None \<Rightarrow> tm
      | Some p \<Rightarrow> if merge then (case template_l10nmerge (theap d p) tm of None \<Rightarrow> tm | Some m \<Rightarrow> m) else tm)"

lemma merge_keeps_tag: "template_l10nmerge ret t = Some m \<Longrightarrow> tag m = tag ret"
proof -
  have one: "tag (merge_language p r) = tag r" for p r by (simp add: merge_language_def)
  moreover have "tag (fold merge_language ps r) = tag r" for ps r
    by (induction ps arbitrary: r) (simp_all add: one)
  moreover assume "template_l10nmerge ret t = Some m"
  ultimately show ?thesis
    by (auto simp: template_l10nmerge_def merge_l10n_def Let_def split: if_splits)
qed

lemma merge_ok: "template_l10nmerge ret t = Some m \<Longrightarrow> template_ok ret \<Longrightarrow> template_ok t \<Longrightarrow> template_ok m"
  using merge_l10n_text(1) [of "ret\<lparr>ttype := ttype t\<rparr>" t] template_l10nmerge_cases(1) by simp

lemma loadfile_store_spec:
  fixes merge :: bool
  assumes "db_ok d" "template_ok tm" "tag tm = Some tg" "template_alloc tm d = (t, d1)"
  defines "d2 \<equiv> loadfile_store merge t d1"
  shows "db_ok d2" "theap d2 t = tm" "tnext d2 = tnext d1" "t < tnext d2"
    and "\<exists>p. rfc822db_template_get d2 tg = Some p \<and> theap d2 p = new_text merge d tm"
proof -
  note A = template_alloc_ok [OF assms(1,2,4)]
  have t: "ttag (theap d1) t = tg" using A(3) assms(3) by (simp add: ttag_def)
  have "ordered (ttag (theap d1)) (troot d1)" using A(1) by (simp add: db_ok_def)
  from templates.get_put [OF this, of t tg]
  have set_case: "db_ok (rfc822db_template_set t d1)" "rfc822db_template_get (rfc822db_template_set t d1) tg = Some t"
    using template_set_ok [OF A(1,2)] t by simp_all
  have "db_ok d2 \<and> theap d2 t = tm \<and> tnext d2 = tnext d1 \<and>
    (\<exists>p. rfc822db_template_get d2 tg = Some p \<and> theap d2 p = new_text merge d tm)"
  proof (cases "\<exists>oldt m. rfc822db_template_get d tg = Some oldt \<and> merge \<and> template_l10nmerge (theap d oldt) tm = Some m")
    case False
    then have "d2 = rfc822db_template_set t d1" "new_text merge d tm = tm"
      using db_ok_template_get(1) [OF assms(1)] A(7)
      by (auto simp: d2_def loadfile_store_def new_text_def assms(3) A(3,6) t split: option.split)
    then show ?thesis using set_case A(3) by simp
  next
    case True
    then obtain oldt m where m: "rfc822db_template_get d tg = Some oldt" "merge" "template_l10nmerge (theap d oldt) tm = Some m"
      by blast
    note old = db_ok_template_get [OF assms(1) m(1)]
    have o: "theap d1 oldt = theap d oldt" "oldt \<noteq> t" using A(7,8) old(1) by auto
    have d2: "d2 = template_upd oldt (\<lambda>_. m) d1" "new_text merge d tm = m"
      using m by (simp_all add: d2_def loadfile_store_def new_text_def assms(3) A(3,6) t o)
    have tags: "tag m = tag (theap d1 oldt)" using merge_keeps_tag [OF m(3)] o by simp
    have "template_ok (theap d oldt)" using assms(1) old(1) by (simp add: db_ok_def)
    from merge_ok [OF m(3) this assms(2)] have "db_ok d2"
      unfolding d2 using A(1) tags by (intro template_upd_ok) auto
    have "ttag (theap d2) = ttag (theap d1)" using tags by (auto simp: d2 template_upd_def ttag_def fun_eq_iff)
    moreover have "troot d2 = troot d1" by (simp add: d2 template_upd_def)
    ultimately have "rfc822db_template_get d2 = rfc822db_template_get d1"
      by (intro ext) (simp only: rfc822db_template_get_def)
    note this [unfolded A(6)]
    moreover note \<open>db_ok d2\<close>
    ultimately show ?thesis using m(1) d2 o A(3) by (auto simp: template_upd_def)
  qed
  then show "db_ok d2" "theap d2 t = tm" "tnext d2 = tnext d1" "t < tnext d2"
    "\<exists>p. rfc822db_template_get d2 tg = Some p \<and> theap d2 p = new_text merge d tm"
    using A(2) by auto
qed

lemma loadfile_one_spec:
  fixes owner :: string and merge :: bool
  assumes "db_ok d" "template_ok tm" "tag tm = Some tg"
  defines "d' \<equiv> loadfile_one owner merge tm d"
  shows "db_ok d'"
    and "\<exists>p. rfc822db_template_get d' tg = Some p \<and> theap d' p = new_text merge d tm"
    and "\<exists>q t. rfc822db_question_get d' tg = Some q \<and> owner \<in> set (owners (qheap d' q)) \<and>
      qtemplate (qheap d' q) = Some t \<and> theap d' t = tm"
proof -
  obtain t d1 where alloc: "template_alloc tm d = (t, d1)" by fastforce
  let ?d2 = "loadfile_store merge t d1"
  note D2 = loadfile_store_spec [OF assms(1-3) alloc, of merge]
  obtain q d3 where sq: "set_question_template t ?d2 = (q, d3)" by fastforce
  have t2: "ttag (theap ?d2) t = tg" using D2(2) assms(3) by (simp add: ttag_def)
  note S = set_question_template_ok [OF D2(1,4) sq]
  let ?d4 = "question_upd q (question_owner_add owner) d3"
  have d4: "db_ok ?d4" using S(1) by (intro question_upd_ok) (auto simp: q_valid_owner_add)
  have q4: "qkey ?d4 q = tg" "q < qnext ?d4" using S(2,3) t2 by (simp_all add: qkey_def question_upd_def)
  have d': "d' = rfc822db_question_set q ?d4"
    unfolding d'_def loadfile_one_def Let_def alloc prod.case sq by simp
  have "ordered (qkey ?d4) (qroot ?d4)" using d4 by (simp add: db_ok_def)
  from questions.get_put [OF this, of q tg] have get: "rfc822db_question_get d' tg = Some q" using q4 d' by simp
  show "db_ok d'" unfolding d' using d4 q4(2) by (rule question_set_ok)
  obtain xs where "qheap d' = (qheap ?d4)(q := fold question_owner_add xs (qheap ?d4 q))"
    using question_set_value [of q ?d4] d' by auto
  then have "owner \<in> set (owners (qheap d' q))" "qtemplate (qheap d' q) = Some t"
    using S(4) by (auto simp: set_fold_owner_add question_upd_def question_owner_add_def)
  moreover have "theap d' = theap ?d2" using S(5) d' by simp
  ultimately show "\<exists>q t. rfc822db_question_get d' tg = Some q \<and> owner \<in> set (owners (qheap d' q)) \<and>
      qtemplate (qheap d' q) = Some t \<and> theap d' t = tm"
    using get D2(2) by auto
  show "\<exists>p. rfc822db_template_get d' tg = Some p \<and> theap d' p = new_text merge d tm"
    using D2(5) S(5,7) d' by simp
qed

text \<open>A template that is in the database together with its question.\<close>

definition installed :: "string \<Rightarrow> template \<Rightarrow> debconf_db \<Rightarrow> bool" where
  "installed owner tm d \<longleftrightarrow> (\<exists>tg p q t. tag tm = Some tg \<and> rfc822db_template_get d tg = Some p \<and> theap d p = tm \<and>
     rfc822db_question_get d tg = Some q \<and> owner \<in> set (owners (qheap d q)) \<and>
     qtemplate (qheap d q) = Some t \<and> theap d t = tm)"

lemma set_question_template_other:
  assumes "db_ok d" "set_question_template t d = (q, d')" "k \<noteq> ttag (theap d) t" "rfc822db_question_get d k = Some r"
  shows "rfc822db_question_get d' k = Some r \<and> qheap d' r = qheap d r \<and> r \<noteq> q"
proof (cases "rfc822db_question_get d (ttag (theap d) t)")
  case None
  then have d': "d' = d\<lparr>qheap := (qheap d)(qnext d := (question_new (ttag (theap d) t))\<lparr>qtemplate := Some t\<rparr>), qnext := qnext d + 1\<rparr>"
    "q = qnext d" using assms(2) by (auto simp: set_question_template_def question_alloc_def)
  have "\<forall>x \<in> set (qroot d). qkey d' x = qkey d x" using assms(1) by (auto simp: d' qkey_def db_ok_def)
  then have "rfc822db_question_get d' k = rfc822db_question_get d k"
    by (auto simp: rfc822db_question_get_def tfind_def d' intro!: find_cong)
  then show ?thesis using db_ok_get(1) [OF assms(1,4)] assms(4) by (simp add: d')
next
  case (Some p)
  then have d': "d' = question_upd p (\<lambda>x. x\<lparr>qtemplate := Some t\<rparr>) d" "q = p"
    using assms(2) by (auto simp: set_question_template_def)
  have "qkey d' = qkey d" unfolding d' by (rule question_upd_key) simp
  then have "rfc822db_question_get d' k = rfc822db_question_get d k" by (simp add: rfc822db_question_get_def d')
  moreover have "r \<noteq> p" using db_ok_get(3) [OF assms(1) Some] db_ok_get(3) [OF assms(1,4)] assms(3) by auto
  ultimately show ?thesis using assms(4) by (simp add: d' question_upd_def)
qed

lemma installed_loadfile_other:
  assumes "db_ok d" "template_ok tm" "tag tm = Some tg" "installed o' tm' d" "tag tm' \<noteq> Some tg"
  shows "installed o' tm' (loadfile_one owner False tm d)"
proof -
  obtain k p r s where k: "tag tm' = Some k" "rfc822db_template_get d k = Some p" "theap d p = tm'"
    "rfc822db_question_get d k = Some r" "o' \<in> set (owners (qheap d r))" "qtemplate (qheap d r) = Some s" "theap d s = tm'"
    using assms(4) unfolding installed_def by blast
  have s: "s < tnext d" using db_ok_get(2) [OF assms(1) k(4)] k(6) by (auto simp: q_valid_def)
  have p: "p < tnext d" using db_ok_template_get [OF assms(1) k(2)] by simp
  have kt: "k \<noteq> tg" using assms(5) k(1) by simp
  obtain t d1 where alloc: "template_alloc tm d = (t, d1)" by fastforce
  note A = template_alloc_ok [OF assms(1,2) alloc]
  let ?d2 = "rfc822db_template_set t d1"
  have store: "loadfile_store False t d1 = ?d2" by (simp add: loadfile_store_def split: option.split)
  obtain q d3 where sq: "set_question_template t ?d2 = (q, d3)" by fastforce
  have t: "ttag (theap d1) t = tg" using A(3) assms(3) by (simp add: ttag_def)
  have d2: "db_ok ?d2" "t < tnext ?d2" using template_set_ok [OF A(1,2)] A(2) by simp_all
  note S = set_question_template_ok [OF d2 sq]
  have "rfc822db_question_get ?d2 k = Some r" using A(4) k(4) by simp
  note R = set_question_template_other [OF d2(1) sq _ this]
  have r: "rfc822db_question_get d3 k = Some r" "qheap d3 r = qheap d r" "r \<noteq> q" using R t kt A(5) by simp_all
  let ?d4 = "question_upd q (question_owner_add owner) d3" and ?d5 = "loadfile_one owner False tm d"
  have d5: "?d5 = rfc822db_question_set q ?d4"
    unfolding loadfile_one_def Let_def alloc prod.case store sq by simp
  have key4: "qkey ?d4 = qkey d3" by (rule question_upd_key) simp
  have "ordered (qkey ?d4) (qroot ?d4)" using S(1) by (simp add: key4 db_ok_def)
  from questions.get_put [OF this, of q k] have "rfc822db_question_get ?d5 k = Some r"
    using r(1,3) S(3) t kt d5 db_ok_get(3) [OF S(1) r(1)]
    by (simp add: key4 qkey_def [of d3]) (simp add: rfc822db_question_get_def key4)
  moreover have "qheap ?d5 r = qheap d r"
    using question_set_value [of q ?d4] r d5 by (auto simp: question_upd_def)
  moreover have "ordered (ttag (theap d1)) (troot d1)" using A(1) by (simp add: db_ok_def)
  from templates.get_put [OF this, of t k] have "rfc822db_template_get ?d5 k = Some p"
    using kt t A(6) k(2) S(7) d5 by simp
  moreover have "theap ?d5 p = tm'" "theap ?d5 s = tm'"
    using S(5) d5 A(7) p s k(3,7) by simp_all
  ultimately show ?thesis using k unfolding installed_def by auto
qed

lemma loadfile_fold:
  assumes "db_ok d" "\<forall>tm \<in> set ts. template_ok tm \<and> tag tm \<noteq> None" "distinct (map tag ts)"
  shows "db_ok (fold (loadfile_one owner False) ts d) \<and> (\<forall>tm \<in> set ts. installed owner tm (fold (loadfile_one owner False) ts d))"
  using assms(2,3)
proof (induction ts rule: rev_induct)
  case (snoc tm ts)
  let ?d = "fold (loadfile_one owner False) ts d"
  have IH: "db_ok ?d" "\<forall>x \<in> set ts. installed owner x ?d" using snoc by auto
  obtain tg where tm: "template_ok tm" "tag tm = Some tg" using snoc.prems by auto
  note one = loadfile_one_spec [OF IH(1) tm, of owner False]
  have "new_text False ?d tm = tm" by (simp add: new_text_def split: option.split)
  then have "installed owner tm (loadfile_one owner False tm ?d)"
    using one(2,3) tm(2) unfolding installed_def by auto
  moreover have "installed owner x (loadfile_one owner False tm ?d)" if "x \<in> set ts" for x
  proof -
    have "tag x \<noteq> Some tg" using that snoc.prems(2) tm(2) by auto (metis image_eqI)
    with IH(2) that show ?thesis by (intro installed_loadfile_other [OF IH(1) tm]) auto
  qed
  ultimately show ?case using one(1) by simp
qed (simp add: assms(1))

lemma lset_tag:
  assumes "f \<in> set l10n_field_names \<or> f = ''type'' \<or> f = ''help''"
  shows "tag (template_lset env l f v t) = tag t"
proof -
  have walk: "tag (lset_curlang c f v t) = tag t" for c by (simp add: lset_curlang_def split: option.split)
  from assms show ?thesis
  proof (elim disjE)
    assume "f \<in> set l10n_field_names"
    note n = l10n_field_not_special [OF this]
    show ?thesis by (subst template_lset.simps) (simp add: n walk split: option.split)
  qed (subst template_lset.simps; simp add: strcasecmp_eq_def c_tolower_def c_isupper_def)+
qed

lemma load_extdesc_tag: "load_extdesc env l k t s = Inr (t', s') \<Longrightarrow> tag t' = tag t"
  by (auto simp: load_extdesc_def lset_tag l10n_field_names_def split: sum.splits)

lemma load_field_tag: "load_field env p s t = Inr (t', s') \<Longrightarrow> tag t' = tag t"
  by (auto simp: load_field_def load_localized_def lset_tag l10n_field_names_def dest!: load_extdesc_tag
      split: if_splits option.splits)

lemma load_loop_tags:
  "load_loop env [] None s = Inr ts \<Longrightarrow> list_all (\<lambda>x. tag x \<noteq> None) ts"
  by (rule load_loop_all) (auto simp: template_new_def dest: load_field_tag)

lemma loadfile_installs_lemma:
  assumes "db_ok d" "template_load env contents = Inr ts" "distinct (map tag ts)"
  obtains d' where "template_db_loadfile env contents owner False d = Inr d'" "db_ok d'" "\<forall>tm \<in> set ts. installed owner tm d'"
proof -
  have "list_all template_ok ts" "list_all (\<lambda>x. tag x \<noteq> None) ts"
    using assms(2) load_loop_ok [of env "[]" None contents ts] load_loop_tags [of env contents ts]
    by (simp_all add: template_load_def)
  then have "\<forall>tm \<in> set ts. template_ok tm \<and> tag tm \<noteq> None" by (simp add: list_all_iff)
  from loadfile_fold [OF assms(1) this assms(3), of owner] that show ?thesis
    by (simp add: template_db_loadfile_def assms(2))
qed

section \<open>Properties\<close>


definition empty_db :: debconf_db where
  "empty_db = \<lparr>theap = (\<lambda>_. template_new None), tnext = 0, troot = [], tdirty = False,
     qheap = (\<lambda>_. question_new []), qnext = 0, qroot = [], qdirty = False\<rparr>"

lemma empty_db_ok: "db_ok empty_db"
  by (simp add: db_ok_def empty_db_def ordered_def)

definition example_file :: string where
  "example_file = ''Template: a/b'' @ [NL] @ ''Type: boolean'' @ [NL, NL] @ ''Template: c'' @ [NL] @ ''Type: note'' @ [NL]"

lemma example_file_load: "template_load plain_env example_file =
    Inr [(template_new (Some ''c''))\<lparr>ttype := Some ''note''\<rparr>, (template_new (Some ''a/b''))\<lparr>ttype := Some ''boolean''\<rparr>]"
  by code_simp


text \<open>
  With the merge flag the database keeps the merged template, but the question is left with
  the one of the file, without the translations that were kept.
\<close>

lemma merge_question_template:
  assumes "db_ok d" "template_ok tm" "tag tm = Some tg" "rfc822db_template_get d tg = Some p"
    and "template_l10nmerge (theap d p) tm = Some m"
  shows "\<exists>p' q t. rfc822db_template_get (loadfile_one owner True tm d) tg = Some p' \<and>
    theap (loadfile_one owner True tm d) p' = m \<and>
    rfc822db_question_get (loadfile_one owner True tm d) tg = Some q \<and>
    qtemplate (qheap (loadfile_one owner True tm d) q) = Some t \<and> theap (loadfile_one owner True tm d) t = tm"
proof -
  have "new_text True d tm = m" using assms(3-5) by (simp add: new_text_def)
  with loadfile_one_spec [OF assms(1-3), of owner True] show ?thesis by blast
qed

lemma getvalue_defined: "q_valid d q \<Longrightarrow> question_getvalue env h q l \<noteq> None"
  by (auto simp: question_getvalue_def q_valid_def split: option.split)

lemma other_value_defined: "db_ok d \<Longrightarrow> other_value env d name \<noteq> None"
  by (cases "rfc822db_question_get d name") (simp_all add: other_value_def getvalue_defined [OF db_ok_get(2)] del: not_None_eq)

lemma wanted_priority_defined:
  assumes "db_ok d"
  shows "wanted_priority env ve d \<noteq> None"
  using other_value_defined [OF assms, of env "''debconf/priority''"]
  by (auto simp: wanted_priority_def split: option.split)

lemma is_visible_defined:
  assumes "db_ok d"
  shows "question_db_is_visible env ve d name prio \<noteq> None"
  using wanted_priority_defined [OF assms, of env ve] other_value_defined [OF assms, of env "''debconf/showold''"]
  by (auto simp: question_db_is_visible_def Let_def split: option.split)



end
