(* ===== verification/Deb_Frontend.thy ===== *)
theory Deb_Frontend
  imports Deb_Database
begin

text \<open>
  \<^verbatim>\<open>cdebconf/src/frontend.c\<close>: the methods every frontend has unless it replaces them: the lists of
  questions to ask and of questions that are not shown, the answers to the latter, titles and
  the progress bar.

  The lists are linked through the questions themselves.
\<close>

section \<open>Definitions\<close>

record frontend =
  questions :: "q_ptr option"
  questions_noninteractive :: "q_ptr option"
  link_next :: "q_ptr \<Rightarrow> q_ptr option"
  link_prev :: "q_ptr \<Rightarrow> q_ptr option"
  capability :: "64 word"
  interactive :: bool
  title :: "string option"
  info :: "q_ptr option"
  progress_title :: "q_ptr option"
  progress_min :: int
  progress_max :: int
  progress_cur :: int

text \<open>The loop \<open>while (qlast != q && qlast->next != NULL)\<close>.\<close>

partial_function (option) find_last :: "(q_ptr \<Rightarrow> q_ptr option) \<Rightarrow> q_ptr \<Rightarrow> q_ptr \<Rightarrow> q_ptr option" where
  "find_last nxt q qlast =
     (if qlast = q then Some qlast
      else case nxt qlast of None \<Rightarrow> Some qlast | Some r \<Rightarrow> find_last nxt q r)"

declare find_last.simps [code]

definition unlinked :: "q_ptr \<Rightarrow> frontend \<Rightarrow> bool" where
  "unlinked q f \<longleftrightarrow> link_prev f q = None \<and> link_next f q = None"

definition append_link :: "q_ptr \<Rightarrow> q_ptr \<Rightarrow> frontend \<Rightarrow> frontend" where
  "append_link qlast q f = f\<lparr>link_next := (link_next f)(qlast := Some q), link_prev := (link_prev f)(q := Some qlast)\<rparr>"

definition frontend_add :: "q_ptr \<Rightarrow> frontend \<Rightarrow> frontend run" where
  "frontend_add q f =
     (if \<not> unlinked q f then Died
      else case questions f of
        None \<Rightarrow> Returns (f\<lparr>questions := Some q\<rparr>)
      | Some h \<Rightarrow> run_bind (or_hang (find_last (link_next f) q h))
          (\<lambda>qlast. Returns (if qlast = q then f else append_link qlast q f)))"

definition frontend_add_noninteractive :: "q_ptr \<Rightarrow> frontend \<Rightarrow> frontend run" where
  "frontend_add_noninteractive q f =
     (if \<not> unlinked q f then Died
      else case questions_noninteractive f of
        None \<Rightarrow> Returns (f\<lparr>questions_noninteractive := Some q\<rparr>)
      | Some h \<Rightarrow> run_bind (or_hang (find_last (link_next f) q h)) (\<lambda>qlast. Returns (append_link qlast q f)))"

text \<open>
  A question of type \<open>select\<close> gets the first choice when its value is not one of the choices;
  the flag is false when the method gives up.
\<close>

definition noninteractive_one :: "l10n_env \<Rightarrow> q_ptr \<Rightarrow> debconf_db \<Rightarrow> (bool \<times> debconf_db) option" where
  "noninteractive_one env p d =
     do {
       let q = qheap d p;
       t \<leftarrow> qtemplate q;
       ty \<leftarrow> ttype (theap d t);
       if ty \<noteq> ''select'' then Some (True, d)
       else do {
         val \<leftarrow> question_getvalue env (theap d) q (Some []);
         choices_vals \<leftarrow> question_get_raw_field env (theap d) q (Some ''C'') ''choices'';
         let count = strgetargc (Some choices_vals);
         let split = strchoicesplit (Some choices_vals) count;
         if count = 0 then Some (True, question_upd p (question_setvalue (Some [])) d)
         else if length split \<noteq> count then Some (False, d)
         else if (case val of None \<Rightarrow> False | Some v \<Rightarrow> v \<in> set split) then Some (True, d)
         else Some (True, question_upd p (question_setvalue (Some (hd split))) d)
       }
     }"

partial_function (option) noninteractive_loop ::
  "l10n_env \<Rightarrow> (q_ptr \<Rightarrow> q_ptr option) \<Rightarrow> q_ptr option \<Rightarrow> debconf_db \<Rightarrow> debconf_db run option" where
  "noninteractive_loop env nxt p d =
     (case p of
        None \<Rightarrow> Some (Returns d)
      | Some q \<Rightarrow>
          (case noninteractive_one env q d of
             None \<Rightarrow> Some Died
           | Some r \<Rightarrow> if fst r then noninteractive_loop env nxt (nxt q) (snd r) else Some (Returns (snd r))))"

declare noninteractive_loop.simps [code]

definition frontend_go_noninteractive :: "l10n_env \<Rightarrow> frontend \<Rightarrow> debconf_db \<Rightarrow> debconf_db run" where
  "frontend_go_noninteractive env f d =
     (case noninteractive_loop env (link_next f) (questions_noninteractive f) d of None \<Rightarrow> Hangs | Some r \<Rightarrow> r)"

text \<open>\<open>frontend_clear\<close> unlinks what it passes, so that each question is left at most once.\<close>

definition unlink :: "q_ptr \<Rightarrow> frontend \<Rightarrow> frontend" where
  "unlink q f = f\<lparr>link_next := (link_next f)(q := None), link_prev := (link_prev f)(q := None)\<rparr>"

partial_function (option) clear_loop :: "q_ptr option \<Rightarrow> frontend \<Rightarrow> frontend option" where
  "clear_loop p f = (case p of None \<Rightarrow> Some f | Some q \<Rightarrow> clear_loop (link_next f q) (unlink q f))"

declare clear_loop.simps [code]

definition frontend_clear :: "frontend \<Rightarrow> frontend run" where
  "frontend_clear f =
     run_bind (or_hang (clear_loop (questions f) f)) (\<lambda>f.
       run_bind (or_hang (clear_loop (questions_noninteractive f) (f\<lparr>questions := None\<rparr>))) (\<lambda>f.
         Returns (f\<lparr>questions_noninteractive := None\<rparr>)))"

definition frontend_set_title :: "string option \<Rightarrow> frontend \<Rightarrow> frontend" where
  "frontend_set_title t f = f\<lparr>title := t\<rparr>"

definition frontend_info :: "q_ptr \<Rightarrow> frontend \<Rightarrow> frontend" where
  "frontend_info q f = f\<lparr>info := Some q\<rparr>"

definition frontend_progress_start :: "int \<Rightarrow> int \<Rightarrow> q_ptr \<Rightarrow> frontend \<Rightarrow> frontend" where
  "frontend_progress_start mn mx q f =
     f\<lparr>progress_title := Some q, progress_min := mn, progress_max := mx, progress_cur := mn\<rparr>"

definition frontend_progress_set :: "int \<Rightarrow> frontend \<Rightarrow> frontend" where
  "frontend_progress_set val f = f\<lparr>progress_cur := val\<rparr>"

text \<open>\<open>progress_cur + step\<close> is undefined when it leaves the range of an \<open>int\<close>.\<close>

definition frontend_progress_step :: "int \<Rightarrow> frontend \<Rightarrow> frontend run" where
  "frontend_progress_step step f =
     (if - (2 ^ 31) \<le> progress_cur f + step \<and> progress_cur f + step < 2 ^ 31
      then Returns (frontend_progress_set (progress_cur f + step) f) else Died)"

section \<open>The lists as lists\<close>

text \<open>\<open>xs\<close> is the list that starts at a pointer.\<close>

fun chain :: "(q_ptr \<Rightarrow> q_ptr option) \<Rightarrow> q_ptr option \<Rightarrow> q_ptr list \<Rightarrow> bool" where
  "chain nxt p [] \<longleftrightarrow> p = None"
| "chain nxt p (x # xs) \<longleftrightarrow> p = Some x \<and> chain nxt (nxt x) xs"

definition list_last :: "'a list \<Rightarrow> 'a option" where
  "list_last xs = (if xs = [] then None else Some (last xs))"

lemma list_last_simps [simp]: "list_last [] = None" "list_last (xs @ [x]) = Some x" "xs \<noteq> [] \<Longrightarrow> list_last xs = Some (last xs)"
  by (simp_all add: list_last_def)

definition fe_lists :: "frontend \<Rightarrow> q_ptr list \<Rightarrow> q_ptr list \<Rightarrow> bool" where
  "fe_lists f xs ys \<longleftrightarrow> chain (link_next f) (questions f) xs \<and> chain (link_next f) (questions_noninteractive f) ys \<and>
     chain (link_prev f) (list_last xs) (rev xs) \<and> chain (link_prev f) (list_last ys) (rev ys) \<and>
     distinct (xs @ ys) \<and> (\<forall>q. q \<notin> set (xs @ ys) \<longrightarrow> unlinked q f)"

lemma chain_frame: "chain nxt p xs \<Longrightarrow> a \<notin> set xs \<Longrightarrow> chain (nxt(a := v)) p xs"
  by (induction xs arbitrary: p) auto

lemma chain_frame_all: "chain nxt p xs \<Longrightarrow> A \<inter> set xs = {} \<Longrightarrow> chain (\<lambda>q. if q \<in> A then None else nxt q) p xs"
  by (induction xs arbitrary: p) auto

lemma chain_last_None: "chain nxt p xs \<Longrightarrow> xs \<noteq> [] \<Longrightarrow> nxt (last xs) = None"
  by (induction xs arbitrary: p) (auto split: if_splits)

lemma find_last_chain:
  assumes "chain nxt (Some h) xs" "q \<notin> set xs"
  shows "find_last nxt q h = Some (last xs)"
  using assms
proof (induction xs arbitrary: h)
  case (Cons x xs)
  then show ?case by (cases xs) (auto simp: find_last.simps [of nxt q x])
qed simp

lemma chain_append:
  assumes "chain nxt p xs" "xs \<noteq> []" "q \<notin> set xs" "distinct xs" "nxt q = None"
  shows "chain (nxt(last xs := Some q)) p (xs @ [q])"
  using assms
proof (induction xs arbitrary: p)
  case (Cons x xs)
  then show ?case
  proof (cases xs)
    case (Cons y ys)
    then have "x \<noteq> last xs" using Cons.prems(4) by auto
    then show ?thesis using Cons.prems Cons.IH [of "nxt x"] \<open>xs = y # ys\<close> by auto
  qed auto
qed simp

lemma append_link_lists:
  assumes "chain (link_next f) p xs" "xs \<noteq> []" "q \<notin> set xs" "distinct xs" "unlinked q f"
  shows "chain (link_next (append_link (last xs) q f)) p (xs @ [q])"
  using chain_append [OF assms(1-4)] assms(5) by (simp add: append_link_def unlinked_def)

lemma fe_lists_prev:
  assumes "fe_lists f xs ys" "q \<notin> set (xs @ ys)"
  shows "chain ((link_prev f)(q := v)) (list_last xs) (rev xs)" "chain ((link_prev f)(q := v)) (list_last ys) (rev ys)"
  using assms by (auto simp: fe_lists_def intro: chain_frame)

lemma frontend_add_list:
  assumes "fe_lists f xs ys" "q \<notin> set (xs @ ys)"
  shows "\<exists>f'. frontend_add q f = Returns f' \<and> fe_lists f' (xs @ [q]) ys"
proof -
  have u: "unlinked q f" using assms by (simp add: fe_lists_def)
  show ?thesis
  proof (cases xs)
    case Nil
    then show ?thesis using assms u by (auto simp: fe_lists_def frontend_add_def unlinked_def)
  next
    case (Cons h xs')
    have c: "chain (link_next f) (Some h) xs" and h: "questions f = Some h" using assms Cons by (auto simp: fe_lists_def)
    have "find_last (link_next f) q h = Some (last xs)" using assms by (intro find_last_chain [OF c]) auto
    moreover have "last xs \<noteq> q" using assms(2) Cons by (metis Un_iff last_in_set list.discI set_append)
    ultimately have "frontend_add q f = Returns (append_link (last xs) q f)" using u h by (simp add: frontend_add_def or_hang_def)
    moreover have l: "last xs \<in> set xs" using Cons by simp
    have "chain (link_next (append_link (last xs) q f)) (Some h) (xs @ [q])"
      using assms Cons u by (intro append_link_lists [OF c]) (auto simp: fe_lists_def)
    moreover have "chain (link_next (append_link (last xs) q f)) (questions_noninteractive f) ys"
      using assms l by (auto simp: fe_lists_def append_link_def intro!: chain_frame)
    ultimately show ?thesis
      using assms l h fe_lists_prev [OF assms] list_last_simps(3) [of xs] Cons by (auto simp: fe_lists_def append_link_def unlinked_def)
  qed
qed

lemma frontend_add_noninteractive_list:
  assumes "fe_lists f xs ys" "q \<notin> set (xs @ ys)"
  shows "\<exists>f'. frontend_add_noninteractive q f = Returns f' \<and> fe_lists f' xs (ys @ [q])"
proof -
  have u: "unlinked q f" using assms by (simp add: fe_lists_def)
  show ?thesis
  proof (cases ys)
    case Nil
    then show ?thesis using assms u by (auto simp: fe_lists_def frontend_add_noninteractive_def unlinked_def)
  next
    case (Cons h ys')
    have c: "chain (link_next f) (Some h) ys" and h: "questions_noninteractive f = Some h"
      using assms Cons by (auto simp: fe_lists_def)
    have "find_last (link_next f) q h = Some (last ys)" using assms by (intro find_last_chain [OF c]) auto
    then have "frontend_add_noninteractive q f = Returns (append_link (last ys) q f)"
      using u h by (simp add: frontend_add_noninteractive_def or_hang_def)
    moreover have l: "last ys \<in> set ys" using Cons by simp
    have "chain (link_next (append_link (last ys) q f)) (Some h) (ys @ [q])"
      using assms Cons u by (intro append_link_lists [OF c]) (auto simp: fe_lists_def)
    moreover have "chain (link_next (append_link (last ys) q f)) (questions f) xs"
      using assms l by (auto simp: fe_lists_def append_link_def intro!: chain_frame)
    ultimately show ?thesis
      using assms l h fe_lists_prev [OF assms] list_last_simps(3) [of ys] Cons by (auto simp: fe_lists_def append_link_def unlinked_def)
  qed
qed

lemma clear_loop_chain:
  assumes "chain (link_next f) p xs" "distinct xs"
  shows "clear_loop p f = Some (fold unlink xs f)"
  using assms
proof (induction xs arbitrary: p f)
  case Nil
  then show ?case by (simp add: clear_loop.simps)
next
  case (Cons x xs)
  have "chain (link_next (unlink x f)) (link_next f x) xs"
    using Cons.prems by (auto simp: unlink_def intro!: chain_frame)
  with Cons show ?case by (simp add: clear_loop.simps [of "Some x"])
qed

lemma fold_unlink:
  "link_next (fold unlink xs f) = (\<lambda>q. if q \<in> set xs then None else link_next f q)"
  "link_prev (fold unlink xs f) = (\<lambda>q. if q \<in> set xs then None else link_prev f q)"
  "questions (fold unlink xs f) = questions f" "questions_noninteractive (fold unlink xs f) = questions_noninteractive f"
  "capability (fold unlink xs f) = capability f"
  by (induction xs arbitrary: f) (auto simp: unlink_def fun_eq_iff)

lemma frontend_clear_list:
  assumes "fe_lists f xs ys"
  shows "\<exists>f'. frontend_clear f = Returns f' \<and> fe_lists f' [] [] \<and> capability f' = capability f"
proof -
  let ?f1 = "(fold unlink xs f)\<lparr>questions := None\<rparr>"
  have 1: "clear_loop (questions f) f = Some (fold unlink xs f)"
    using assms by (intro clear_loop_chain) (auto simp: fe_lists_def)
  have "chain (link_next f) (questions_noninteractive f) ys" "set xs \<inter> set ys = {}" using assms by (auto simp: fe_lists_def)
  then have "chain (link_next ?f1) (questions_noninteractive f) ys"
    by (auto simp: fold_unlink intro!: chain_frame_all)
  then have 2: "clear_loop (questions_noninteractive (fold unlink xs f)) ?f1 = Some (fold unlink ys ?f1)"
    using assms by (intro clear_loop_chain) (auto simp: fe_lists_def fold_unlink)
  have "frontend_clear f = Returns ((fold unlink ys ?f1)\<lparr>questions_noninteractive := None\<rparr>)"
    by (simp add: frontend_clear_def 1 2 or_hang_def)
  then show ?thesis
    using assms by (simp add: fe_lists_def fold_unlink unlinked_def)
qed

section \<open>Questions that are not shown\<close>

lemma noninteractive_loop_self:
  assumes "nxt q = Some q" "noninteractive_one env q d = Some (True, d)"
  shows "noninteractive_loop env nxt (Some q) d = None"
proof -
  have "\<not> (env' = env \<and> nxt' = nxt \<and> p = Some q \<and> d' = d)"
    if "noninteractive_loop env' nxt' p d' = Some r" for env' nxt' p d' r
    using that
  proof (rule noninteractive_loop.raw_induct [where P = "\<lambda>env' nxt' p d' r. \<not> (env' = env \<and> nxt' = nxt \<and> p = Some q \<and> d' = d)", rotated])
    fix loop env' nxt' p d' r
    assume IH: "\<And>env' nxt' p d' r. loop env' nxt' p d' = Some r \<Longrightarrow> \<not> (env' = env \<and> nxt' = nxt \<and> p = Some q \<and> d' = d)"
      and r: "(case p of None \<Rightarrow> Some (Returns d') | Some q \<Rightarrow> (case noninteractive_one env' q d' of None \<Rightarrow> Some Died
        | Some r \<Rightarrow> if fst r then loop env' nxt' (nxt' q) (snd r) else Some (Returns (snd r)))) = Some r"
    show "\<not> (env' = env \<and> nxt' = nxt \<and> p = Some q \<and> d' = d)"
      using IH [of env nxt "Some q" d] r assms by auto
  qed
  from this [of env nxt "Some q" d] show ?thesis by (cases "noninteractive_loop env nxt (Some q) d") auto
qed

text \<open>
  When the same question is put twice on the empty list of questions that are not
  shown, it is linked to itself, and going through the list never ends; the question is of any
  type but \<open>select\<close>.
\<close>

theorem noninteractive_twice_hangs:
  assumes "fe_lists f [] []" "qtemplate (qheap d q) = Some t" "ttype (theap d t) = Some ty" "ty \<noteq> ''select''"
  shows "run_bind (frontend_add_noninteractive q f) (\<lambda>f. run_bind (frontend_add_noninteractive q f)
    (\<lambda>f. frontend_go_noninteractive env f d)) = Hangs"
proof -
  have u: "unlinked q f" "questions_noninteractive f = None" using assms(1) by (auto simp: fe_lists_def)
  let ?f1 = "f\<lparr>questions_noninteractive := Some q\<rparr>"
  have "find_last (link_next f) q q = Some q" by (simp add: find_last.simps)
  with u have "frontend_add_noninteractive q f = Returns ?f1" "frontend_add_noninteractive q ?f1 = Returns (append_link q q ?f1)"
    by (simp_all add: frontend_add_noninteractive_def or_hang_def unlinked_def)
  moreover have "noninteractive_one env q d = Some (True, d)"
    using assms(2-4) by (simp add: noninteractive_one_def)
  from noninteractive_loop_self [OF _ this, of "link_next (append_link q q ?f1)"]
  have "frontend_go_noninteractive env (append_link q q ?f1) d = Hangs"
    by (simp add: frontend_go_noninteractive_def append_link_def)
  ultimately show ?thesis by simp
qed

definition empty_frontend :: frontend where
  "empty_frontend = \<lparr>questions = None, questions_noninteractive = None, link_next = (\<lambda>_. None), link_prev = (\<lambda>_. None),
     capability = 0, interactive = True, title = None, info = None, progress_title = None,
     progress_min = 0, progress_max = 0, progress_cur = 0\<rparr>"

lemma empty_frontend_lists: "fe_lists empty_frontend [] []"
  by (simp add: fe_lists_def empty_frontend_def unlinked_def)

definition example_db :: debconf_db where
  "example_db = empty_db\<lparr>theap := (\<lambda>_. (template_new (Some ''a/b''))\<lparr>ttype := Some ''note''\<rparr>), tnext := 1, troot := [0],
     qheap := (\<lambda>_. (question_new ''a/b'')\<lparr>qtemplate := Some 0\<rparr>), qnext := 1, qroot := [0]\<rparr>"

theorem noninteractive_twice_hangs_witness:
  "run_bind (frontend_add_noninteractive 0 empty_frontend) (\<lambda>f. run_bind (frontend_add_noninteractive 0 f)
    (\<lambda>f. frontend_go_noninteractive plain_env f example_db)) = Hangs"
  by (rule noninteractive_twice_hangs [OF empty_frontend_lists, of _ _ 0 "''note''"])
    (simp_all add: example_db_def template_new_def)

text \<open>
  The linked lists of a frontend behave as lists: a question that is on neither of
  them is appended, to the questions to ask or to those that are not shown, and clearing
  empties both and unlinks every question.
\<close>

theorem frontend_lists_refine:
  assumes "fe_lists f xs ys" "q \<notin> set (xs @ ys)"
  shows "\<exists>f1 f2 f3. frontend_add q f = Returns f1 \<and> fe_lists f1 (xs @ [q]) ys \<and>
    frontend_add_noninteractive q f = Returns f2 \<and> fe_lists f2 xs (ys @ [q]) \<and>
    frontend_clear f = Returns f3 \<and> fe_lists f3 [] []"
  using frontend_add_list [OF assms] frontend_add_noninteractive_list [OF assms] frontend_clear_list [OF assms(1)] by blast

theorem frontend_lists_refine_witness:
  "\<exists>f1. frontend_add 7 empty_frontend = Returns f1 \<and> fe_lists f1 [7] []"
  using frontend_lists_refine [OF empty_frontend_lists, of 7] by auto

text \<open>
  A question that is asked twice is meant to be ignored the second time; when it is not the
  only one on the list, it is linked and the assertion at the start fails.
\<close>

lemma asked_twice_dies: "fe_lists f (a # b # xs) ys \<Longrightarrow> frontend_add a f = Died"
  by (simp add: fe_lists_def frontend_add_def unlinked_def)

subsection \<open>Answers\<close>

lemma setvalue_raw_field:
  "f \<noteq> ''value'' \<Longrightarrow> question_get_raw_field env h (question_setvalue v q) l f = question_get_raw_field env h q l f"
  by (simp add: question_get_raw_field_def question_setvalue_def question_expand_vars_def)

text \<open>A question that can be answered without being shown.\<close>

definition answerable :: "l10n_env \<Rightarrow> debconf_db \<Rightarrow> q_ptr \<Rightarrow> string list option \<Rightarrow> bool" where
  "answerable env d p cs \<longleftrightarrow> (\<exists>t ty. qtemplate (qheap d p) = Some t \<and> ttype (theap d t) = Some ty \<and>
     (case cs of
        None \<Rightarrow> ty \<noteq> ''select''
      | Some cs \<Rightarrow> ty = ''select'' \<and> cs \<noteq> [] \<and> (\<forall>c \<in> set cs. plain_choice c) \<and>
          question_get_raw_field env (theap d) (qheap d p) (Some ''C'') ''choices'' = Some (comma_join cs)))"

definition answered :: "l10n_env \<Rightarrow> debconf_db \<Rightarrow> q_ptr \<Rightarrow> string list option \<Rightarrow> bool" where
  "answered env d p cs \<longleftrightarrow>
     (case cs of None \<Rightarrow> True
      | Some cs \<Rightarrow> \<exists>v \<in> set cs. question_getvalue env (theap d) (qheap d p) (Some []) = Some (Some v))"

lemma noninteractive_one_answers:
  assumes "answerable env d p cs"
  shows "\<exists>v. noninteractive_one env p d = Some (True, v) \<and> answered env v p cs \<and>
    (v = d \<or> (\<exists>x. v = question_upd p (question_setvalue x) d))"
proof (cases cs)
  case None
  then show ?thesis using assms by (auto simp: answerable_def answered_def noninteractive_one_def)
next
  case (Some c)
  then obtain t where t: "qtemplate (qheap d p) = Some t" "ttype (theap d t) = Some ''select''" "c \<noteq> []"
    and ok: "\<forall>x \<in> set c. plain_choice x"
    and raw: "question_get_raw_field env (theap d) (qheap d p) (Some ''C'') ''choices'' = Some (comma_join c)"
    using assms by (auto simp: answerable_def)
  note split = split_comma_join [OF ok]
  obtain val where val: "question_getvalue env (theap d) (qheap d p) (Some []) = Some val"
    using t(1) by (cases "qvalue (qheap d p)") (auto simp: question_getvalue_def)
  have hd: "hd c \<in> set c" using t(3) by simp
  show ?thesis
  proof (cases "\<exists>v \<in> set c. val = Some v")
    case True
    then show ?thesis using t val raw split Some by (auto simp: noninteractive_one_def answered_def)
  next
    case False
    then have "noninteractive_one env p d = Some (True, question_upd p (question_setvalue (Some (hd c))) d)"
      using t val raw split by (auto simp: noninteractive_one_def split: option.split)
    then show ?thesis
      using Some hd by (auto simp: answered_def question_upd_def question_getvalue_def question_setvalue_def)
  qed
qed

lemma answers_frame:
  assumes "v = d \<or> (\<exists>x. v = question_upd p (question_setvalue x) d)" "r \<noteq> p"
  shows "answerable env v r cs = answerable env d r cs" "answered env v r cs = answered env d r cs"
proof -
  have h: "theap v = theap d" "qheap v r = qheap d r" using assms by (auto simp: question_upd_def)
  show "answerable env v r cs = answerable env d r cs" "answered env v r cs = answered env d r cs"
    unfolding answerable_def answered_def h by (rule refl)+
qed

lemma noninteractive_loop_answers:
  assumes "chain nxt p ys" "distinct ys" "\<forall>y \<in> set ys. answerable env d y (cs y)"
  shows "\<exists>d'. noninteractive_loop env nxt p d = Some (Returns d') \<and> (\<forall>y \<in> set ys. answered env d' y (cs y)) \<and>
    (\<forall>r c. r \<notin> set ys \<longrightarrow> answered env d' r c = answered env d r c)"
  using assms
proof (induction ys arbitrary: p d)
  case Nil
  then show ?case by (simp add: noninteractive_loop.simps)
next
  case (Cons y ys)
  obtain v where v: "noninteractive_one env y d = Some (True, v)" "answered env v y (cs y)"
    "v = d \<or> (\<exists>x. v = question_upd y (question_setvalue x) d)"
    using noninteractive_one_answers [of env d y "cs y"] Cons.prems(3) by auto
  have "\<forall>z \<in> set ys. answerable env v z (cs z)"
    using Cons.prems(2,3) answers_frame(1) [OF v(3)] by fastforce
  then obtain d' where d': "noninteractive_loop env nxt (nxt y) v = Some (Returns d')" "\<forall>z \<in> set ys. answered env d' z (cs z)"
    "\<forall>r c. r \<notin> set ys \<longrightarrow> answered env d' r c = answered env v r c"
    using Cons.IH [of "nxt y" v] Cons.prems by auto
  have "noninteractive_loop env nxt p d = Some (Returns d')"
    using Cons.prems(1) v(1) d'(1) by (simp add: noninteractive_loop.simps [of env nxt "Some y"])
  then show ?case using d'(2,3) v(2) answers_frame(2) [OF v(3)] Cons.prems(2) by auto
qed


definition select_db :: debconf_db where
  "select_db = example_db\<lparr>theap := (\<lambda>_. (template_new (Some ''a/b''))\<lparr>ttype := Some ''select'', l10n := (blank_fields [])\<lparr>choices := Some ''x, y''\<rparr>\<rparr>)\<rparr>"


end
