(* ===== verification/Deb_Commands.thy ===== *)
theory Deb_Commands
  imports Deb_Frontend
begin

text \<open>
  \<^verbatim>\<open>cdebconf/src/commands.c\<close> and \<^verbatim>\<open>confmodule.c\<close>: the commands of the debconf protocol, their
  dispatch, the stack of seen questions and saving.

  What a frontend module, the file system and other processes do is an argument: \<open>debconf_io\<close>.
\<close>

section \<open>Definitions\<close>

record confmodule =
  db :: debconf_db
  fe :: frontend
  fe_name :: string
  env :: l10n_env
  venv :: visible_env
  DEBIAN_FRONTEND :: "string option"
  mod_owner :: string
  backed_up :: bool
  seen_questions :: "string option list"

text \<open>
  \<open>io_go\<close> is the method \<open>go\<close> of the frontend: its return code and the answers it stored.
  \<open>io_reload\<close> reads the template database again, \<open>io_open\<close> opens a frontend,
  \<open>io_file\<close> reads a file, \<open>io_plugins\<close> are the names of the plugins of the frontend, and
  \<open>io_save\<close> are the return codes of the methods \<open>save\<close> of the two databases.
\<close>

record debconf_io =
  io_go :: "frontend \<Rightarrow> debconf_db \<Rightarrow> int \<times> debconf_db"
  io_progress :: int
  io_reload :: "l10n_env \<Rightarrow> debconf_db \<Rightarrow> debconf_db"
  io_open :: "string \<Rightarrow> frontend option"
  io_file :: "string \<Rightarrow> string option"
  io_plugins :: "string list"
  io_save :: "nat \<times> nat"

type_synonym reply = "(string \<times> confmodule) run"

definition CHECKARGC_failed :: string where
  "CHECKARGC_failed = ''20 Incorrect number of arguments''"

definition reply :: "string \<Rightarrow> confmodule \<Rightarrow> reply" where
  "reply out m = Returns (out, m)"

definition set_db :: "debconf_db \<Rightarrow> confmodule \<Rightarrow> confmodule" where
  "set_db d m = m\<lparr>db := d\<rparr>"

definition set_fe :: "frontend \<Rightarrow> confmodule \<Rightarrow> confmodule" where
  "set_fe f m = m\<lparr>fe := f\<rparr>"

definition get_question :: "confmodule \<Rightarrow> string \<Rightarrow> q_ptr option" where
  "get_question m tg = rfc822db_question_get (db m) tg"

definition the_question :: "confmodule \<Rightarrow> q_ptr \<Rightarrow> question" where
  "the_question m p = qheap (db m) p"

definition upd_question :: "q_ptr \<Rightarrow> (question \<Rightarrow> question) \<Rightarrow> confmodule \<Rightarrow> confmodule" where
  "upd_question p f m = m\<lparr>db := question_upd p f (db m)\<rparr>"

definition no_such :: "string \<Rightarrow> confmodule \<Rightarrow> reply" where
  "no_such tg m = reply (''10 '' @ tg @ '' doesn't exist'') m"

definition does_not_exist :: "string \<Rightarrow> confmodule \<Rightarrow> reply" where
  "does_not_exist tg m = reply (''10 '' @ tg @ '' does not exist'') m"

subsection \<open>Asking questions\<close>

definition command_input :: "confmodule \<Rightarrow> string \<Rightarrow> reply" where
  "command_input m arg =
     (case strcmdsplit arg 3 of
        [prio, tg] \<Rightarrow>
          (case get_question m tg of
             None \<Rightarrow> reply (''10 \"'' @ tg @ ''\" doesn't exist'') m
           | Some q \<Rightarrow>
               run_bind (if interactive (fe m) then or_die (question_db_is_visible (env m) (venv m) (db m) tg prio) else Returns False) (\<lambda>visible.
               run_bind (if visible then frontend_add q (fe m) else frontend_add_noninteractive q (fe m)) (\<lambda>f.
                 let m = upd_question q (\<lambda>x. x\<lparr>priority := Some prio\<rparr>) (set_fe f m)
                 in if visible then reply ''0 question will be asked'' (m\<lparr>backed_up := False\<rparr>)
                    else reply ''30 question skipped'' m)))
      | _ \<Rightarrow> reply CHECKARGC_failed m)"

definition command_clear :: "confmodule \<Rightarrow> string \<Rightarrow> reply" where
  "command_clear m arg =
     (if strcmdsplit arg 3 \<noteq> [] then reply CHECKARGC_failed m
      else run_bind (frontend_clear (fe m)) (\<lambda>f. reply ''0'' (set_fe f m)))"

text \<open>The stack of the questions that were shown.\<close>

partial_function (option) list_from :: "(q_ptr \<Rightarrow> q_ptr option) \<Rightarrow> q_ptr option \<Rightarrow> q_ptr list option" where
  "list_from nxt p = (case p of None \<Rightarrow> Some [] | Some q \<Rightarrow> list_from nxt (nxt q) \<bind> (\<lambda>qs. Some (q # qs)))"

declare list_from.simps [code]

datatype seen_action = STACK_SEEN_ADD | STACK_SEEN_REMOVE | STACK_SEEN_SAVE

text \<open>
  The loop of \<open>STACK_SEEN_REMOVE\<close>, from the last question of the frontend along the links to
  the previous one. An entry that was deleted by a save that failed is a \<open>NULL\<close> pointer, and
  comparing it ends the program. The loop stops when the stack is empty.
\<close>

function (sequential) seen_remove ::
  "(q_ptr \<Rightarrow> q_ptr option) \<Rightarrow> (q_ptr \<Rightarrow> string) \<Rightarrow> q_ptr option \<Rightarrow> string option list \<Rightarrow> string option list option" where
  "seen_remove prev tg None seen = Some seen"
| "seen_remove prev tg (Some q) [] = Some []"
| "seen_remove prev tg (Some q) seen =
     (case last seen of
        None \<Rightarrow> None
      | Some s \<Rightarrow> if s \<noteq> tg q then Some seen else seen_remove prev tg (prev q) (butlast seen))"
  by pat_completeness auto
termination
  by (relation "measure (\<lambda>(prev, tg, p, seen). length seen)") auto

text \<open>
  The loop of \<open>STACK_SEEN_SAVE\<close>; the flag is only set outside of the installer (\<open>DI_UDEB\<close>). The
  entries that were passed are deleted, also when the loop gives up at a question that is
  gone.
\<close>

fun seen_save :: "bool \<Rightarrow> string option list \<Rightarrow> debconf_db \<Rightarrow> (bool \<times> string option list \<times> debconf_db) option" where
  "seen_save udeb [] d = Some (True, [], d)"
| "seen_save udeb (None # ts) d = None"
| "seen_save udeb (Some t # ts) d =
     (case rfc822db_question_get d t of
        None \<Rightarrow> Some (False, Some t # ts, d)
      | Some p \<Rightarrow>
          map_option (\<lambda>(ok, seen, d). (ok, None # seen, d))
            (seen_save udeb ts (if udeb then d else question_upd p (question_set_flag DC_QFLAG_SEEN) d)))"

definition confmodule_update_seen_questions :: "bool \<Rightarrow> seen_action \<Rightarrow> confmodule \<Rightarrow> (bool \<times> confmodule) run" where
  "confmodule_update_seen_questions udeb action m =
     (case action of
        STACK_SEEN_ADD \<Rightarrow>
          run_bind (or_hang (list_from (link_next (fe m)) (questions (fe m)))) (\<lambda>qs.
            Returns (True, m\<lparr>seen_questions := seen_questions m @ map (\<lambda>q. Some (qtag (the_question m q))) qs\<rparr>))
      | STACK_SEEN_REMOVE \<Rightarrow>
          if seen_questions m = [] then Returns (True, m)
          else run_bind (or_hang (list_from (link_next (fe m)) (questions (fe m)))) (\<lambda>qs.
            run_bind (or_die (seen_remove (link_prev (fe m)) (\<lambda>q. qtag (the_question m q))
              (if qs = [] then None else Some (last qs)) (seen_questions m))) (\<lambda>seen.
              Returns (True, m\<lparr>seen_questions := seen\<rparr>)))
      | STACK_SEEN_SAVE \<Rightarrow>
          if seen_questions m = [] then Returns (True, m)
          else run_bind (or_die (seen_save udeb (seen_questions m) (db m))) (\<lambda>(ok, seen, d).
            Returns (ok, m\<lparr>db := d, seen_questions := if ok then [] else seen\<rparr>)))"

text \<open>Another frontend takes over the questions when one was asked for and can be opened.\<close>

definition switch_frontend :: "debconf_io \<Rightarrow> confmodule \<Rightarrow> confmodule" where
  "switch_frontend io m =
     (case DEBIAN_FRONTEND m of
        None \<Rightarrow> m
      | Some n \<Rightarrow>
          if n = fe_name m then m
          else (case io_open io n of
                  None \<Rightarrow> m
                | Some f \<Rightarrow>
                    m\<lparr>fe := f\<lparr>questions := questions (fe m), questions_noninteractive := questions_noninteractive (fe m),
                         link_next := link_next (fe m), link_prev := link_prev (fe m)\<rparr>, fe_name := n\<rparr>))"

definition command_go :: "debconf_io \<Rightarrow> confmodule \<Rightarrow> string \<Rightarrow> reply" where
  "command_go io m arg =
     (if strcmdsplit arg 2 \<noteq> [] then reply CHECKARGC_failed m
      else let m = switch_frontend io m
           in run_bind (frontend_go_noninteractive (env m) (fe m) (db m)) (\<lambda>d.
                let (ret, d) = io_go io (fe m) d;
                    m = set_db d m;
                    (out, back, action) =
                      (if ret = 30 \<or> backed_up m then (''30 backup'', True, STACK_SEEN_REMOVE)
                       else if ret = 0 then (''100 internal error'', False, STACK_SEEN_REMOVE)
                       else (''0 ok'', False, STACK_SEEN_ADD))
                in run_bind (confmodule_update_seen_questions True action (m\<lparr>backed_up := back\<rparr>)) (\<lambda>(_, m).
                     run_bind (frontend_clear (fe m)) (\<lambda>f. reply out (set_fe f m)))))"

subsection \<open>Values, flags and variables\<close>

definition DCF_CAPB_ESCAPE :: "64 word" where
  "DCF_CAPB_ESCAPE = 8"

definition escaping :: "confmodule \<Rightarrow> bool" where
  "escaping m \<longleftrightarrow> capability (fe m) AND DCF_CAPB_ESCAPE \<noteq> 0"

text \<open>
  The answer with a value, escaped when the client asked for it. The size of the static buffer
  of \<open>escapestr_frontend\<close> has no influence on what it returns.
\<close>

definition value_reply :: "confmodule \<Rightarrow> string \<Rightarrow> string" where
  "value_reply m val = (if escaping m then ''1 '' @ fst (escapestr_frontend 0 val) else ''0 '' @ val)"

definition command_get :: "confmodule \<Rightarrow> string \<Rightarrow> reply" where
  "command_get m arg =
     (case strcmdsplit arg 3 of
        [tg] \<Rightarrow>
          (case get_question m tg of
             None \<Rightarrow> no_such tg m
           | Some q \<Rightarrow>
               run_bind (or_die (question_getvalue (env m) (theap (db m)) (the_question m q) (Some ''C''))) (\<lambda>v.
                 reply (value_reply m (case v of None \<Rightarrow> [] | Some v \<Rightarrow> v)) m))
      | _ \<Rightarrow> reply CHECKARGC_failed m)"

text \<open>Storing a question; the language, the priority and the frontend also go to the environment.\<close>

definition frontend_qdb_set :: "debconf_io \<Rightarrow> q_ptr \<Rightarrow> string option \<Rightarrow> confmodule \<Rightarrow> confmodule run" where
  "frontend_qdb_set io q prev m =
     (let m = m\<lparr>db := rfc822db_question_set q (db m)\<rparr>
      in run_bind (or_die (question_getvalue (env m) (theap (db m)) (the_question m q) (Some []))) (\<lambda>newval.
           let tg = qtag (the_question m q)
           in if tg = ''debconf/language''
              then (let m = m\<lparr>env := (env m)\<lparr>LANGUAGE := newval\<rparr>\<rparr>
                    in Returns (if \<not> load_all_translations (env m) \<and> newval \<noteq> Some ''C'' \<and> newval \<noteq> Some ''en'' \<and> prev \<noteq> newval
                         then m\<lparr>db := io_reload io (env m) (db m)\<rparr> else m))
              else if tg = ''debconf/priority'' then Returns (m\<lparr>venv := (venv m)\<lparr>DEBIAN_PRIORITY := newval\<rparr>\<rparr>)
              else if tg = ''cdebconf/frontend'' then Returns (m\<lparr>DEBIAN_FRONTEND := newval\<rparr>)
              else Returns m))"

definition command_set :: "debconf_io \<Rightarrow> confmodule \<Rightarrow> string \<Rightarrow> reply" where
  "command_set io m arg =
     (case strcmdsplit arg 2 of
        [] \<Rightarrow> reply CHECKARGC_failed m
      | tg # rest \<Rightarrow>
          (case get_question m tg of
             None \<Rightarrow> no_such tg m
           | Some q \<Rightarrow>
               run_bind (or_die (question_getvalue (env m) (theap (db m)) (the_question m q) (Some []))) (\<lambda>prev.
               run_bind (frontend_qdb_set io q prev (upd_question q (question_setvalue (Some (case rest of [] \<Rightarrow> [] | v # _ \<Rightarrow> v))) m))
                 (\<lambda>m. reply ''0 value set'' m))))"

definition command_reset :: "confmodule \<Rightarrow> string \<Rightarrow> reply" where
  "command_reset m arg =
     (case strcmdsplit arg 2 of
        [tg] \<Rightarrow>
          (case get_question m tg of
             None \<Rightarrow> no_such tg m
           | Some q \<Rightarrow>
               (let m = upd_question q (\<lambda>x. question_clear_flag DC_QFLAG_SEEN (x\<lparr>qvalue := None\<rparr>)) m
                in reply ''0'' (set_db (rfc822db_question_set q (db m)) m)))
      | _ \<Rightarrow> reply CHECKARGC_failed m)"

definition command_subst :: "confmodule \<Rightarrow> string \<Rightarrow> reply" where
  "command_subst m arg =
     (case strcmdsplit arg 3 of
        tg # var # rest \<Rightarrow>
          (case get_question m tg of
             None \<Rightarrow> no_such tg m
           | Some q \<Rightarrow>
               (let m = upd_question q (question_variable_add var (case rest of [] \<Rightarrow> [] | v # _ \<Rightarrow> v)) m
                in reply ''0'' (set_db (rfc822db_question_set q (db m)) m)))
      | _ \<Rightarrow> reply CHECKARGC_failed m)"

definition command_metaget :: "confmodule \<Rightarrow> string \<Rightarrow> reply" where
  "command_metaget m arg =
     (case strcmdsplit arg 4 of
        [tg, field] \<Rightarrow>
          (case get_question m tg of
             None \<Rightarrow> no_such tg m
           | Some q \<Rightarrow>
               run_bind (or_die (question_get_raw_field (env m) (theap (db m)) (the_question m q) (Some []) field)) (\<lambda>v.
                 reply (value_reply m v) m))
      | _ \<Rightarrow> reply CHECKARGC_failed m)"

definition bool_text :: "bool \<Rightarrow> string" where
  "bool_text b = (if b then ''true'' else ''false'')"

definition command_fget :: "confmodule \<Rightarrow> string \<Rightarrow> reply" where
  "command_fget m arg =
     (case strcmdsplit arg 4 of
        [tg, field] \<Rightarrow>
          (case get_question m tg of
             None \<Rightarrow> no_such tg m
           | Some q \<Rightarrow>
               reply (''0 '' @ bool_text (if field = ''isdefault'' then question_get_flag (the_question m q) DC_QFLAG_SEEN = 0
                                         else question_get_flag (the_question m q) field \<noteq> 0)) m)
      | _ \<Rightarrow> reply CHECKARGC_failed m)"

definition command_fset :: "confmodule \<Rightarrow> string \<Rightarrow> reply" where
  "command_fset m arg =
     (case strcmdsplit arg 5 of
        [tg, field, val] \<Rightarrow>
          (case get_question m tg of
             None \<Rightarrow> no_such tg m
           | Some q \<Rightarrow>
               reply (''0 '' @ val) (upd_question q
                 (if field = ''isdefault''
                  then (if val = ''false'' then question_set_flag DC_QFLAG_SEEN else question_clear_flag DC_QFLAG_SEEN)
                  else (if val = ''true'' then question_set_flag field else question_clear_flag field)) m))
      | _ \<Rightarrow> reply CHECKARGC_failed m)"

definition command_exist :: "confmodule \<Rightarrow> string \<Rightarrow> reply" where
  "command_exist m arg =
     (case strcmdsplit arg 3 of
        [tg] \<Rightarrow> reply (''0 '' @ bool_text (get_question m tg \<noteq> None)) m
      | _ \<Rightarrow> reply CHECKARGC_failed m)"

subsection \<open>Owners\<close>

definition command_register :: "confmodule \<Rightarrow> string \<Rightarrow> reply" where
  "command_register m arg =
     (case strcmdsplit arg 4 of
        [tm, tg] \<Rightarrow>
          (case rfc822db_template_get (db m) tm of
             None \<Rightarrow> reply (''10 No such template, \"'' @ tm @ ''\"'') m
           | Some t \<Rightarrow>
               (let upd = (\<lambda>q. (question_owner_add (mod_owner m) q)\<lparr>qtemplate := Some t\<rparr>);
                    (q, d) = (case get_question m tg of
                                Some q \<Rightarrow> (q, question_upd q upd (db m))
                              | None \<Rightarrow> question_alloc (upd (question_new tg)) (db m))
                in reply ''0'' (set_db (rfc822db_question_set q d) m)))
      | _ \<Rightarrow> reply CHECKARGC_failed m)"

definition command_unregister :: "confmodule \<Rightarrow> string \<Rightarrow> reply" where
  "command_unregister m arg =
     (case strcmdsplit arg 3 of
        [tg] \<Rightarrow>
          (case get_question m tg of
             None \<Rightarrow> no_such tg m
           | Some q \<Rightarrow> reply ''0'' (upd_question q (question_owner_delete (mod_owner m)) m))
      | _ \<Rightarrow> reply CHECKARGC_failed m)"

definition command_purge :: "confmodule \<Rightarrow> string \<Rightarrow> reply" where
  "command_purge m arg =
     run_bind (or_die (question_db_disownall (mod_owner m) (db m))) (\<lambda>d. reply ''0'' (set_db d m))"

subsection \<open>Templates\<close>

definition loadtemplate_one :: "string \<Rightarrow> template \<Rightarrow> debconf_db \<Rightarrow> debconf_db" where
  "loadtemplate_one owner tm d =
     (let (t, d) = template_alloc tm d;
          (q, d) = set_question_template t (rfc822db_template_set t d);
          d = (if owner = [] then d else question_upd q (question_owner_add owner) d)
      in rfc822db_question_set q d)"

definition command_x_loadtemplatefile :: "debconf_io \<Rightarrow> confmodule \<Rightarrow> string \<Rightarrow> reply" where
  "command_x_loadtemplatefile io m arg =
     (let argv = strcmdsplit arg 3
      in if length argv < 1 \<or> length argv > 2 then reply CHECKARGC_failed m
         else (case io_file io (argv ! 0) of
                 None \<Rightarrow> reply ''0 OK'' m
               | Some contents \<Rightarrow>
                   (case template_load (env m) contents of
                      Inl NeverEnds \<Rightarrow> Hangs
                    | Inl Overflow \<Rightarrow> Died
                    | Inr ts \<Rightarrow>
                        reply ''0 OK'' (set_db (fold (loadtemplate_one (if length argv = 2 then argv ! 1 else [])) ts (db m)) m))))"

definition command_data :: "confmodule \<Rightarrow> string \<Rightarrow> reply" where
  "command_data m arg =
     (case strcmdsplit arg 3 of
        [tg, item, rest] \<Rightarrow>
          run_bind (or_die (fst (unescapestr 0 rest))) (\<lambda>val.
            (case rfc822db_template_get (db m) tg of
               Some t \<Rightarrow> reply ''0 OK'' (set_db (template_upd t (template_lset (env m) None item (Some val)) (db m)) m)
             | None \<Rightarrow>
                 (let (t, d) = template_alloc (template_new (Some tg)) (db m);
                      (q, d) = set_question_template t (rfc822db_template_set t d);
                      d = template_upd t (template_lset (env m) None item (Some val)) d
                  in reply ''0 OK'' (set_db (rfc822db_question_set q d) m))))
      | _ \<Rightarrow> reply CHECKARGC_failed m)"

subsection \<open>The frontend\<close>

definition command_version :: "confmodule \<Rightarrow> string \<Rightarrow> reply" where
  "command_version m arg =
     (case strcmdsplit arg 3 of
        [v] \<Rightarrow>
          (if atoi v < 2 then reply (''30 Version too low ('' @ dec_int (atoi v) @ '')'') m
           else if atoi v > 2 then reply (''30 Version too high ('' @ dec_int (atoi v) @ '')'') m
           else reply ''0 2.0'' m)
      | _ \<Rightarrow> reply CHECKARGC_failed m)"

definition capb_bit :: "string \<Rightarrow> 64 word" where
  "capb_bit c =
     (if c = ''backup'' then 1 else if c = ''progresscancel'' then 2 else if c = ''align'' then 4
      else if c = ''escape'' then DCF_CAPB_ESCAPE else 0)"

definition command_capb :: "debconf_io \<Rightarrow> confmodule \<Rightarrow> string \<Rightarrow> reply" where
  "command_capb io m arg =
     reply (''0 multiselect backup progresscancel align escape'' @ concat (map (\<lambda>n. '' plugin-'' @ n) (io_plugins io)))
       (set_fe ((fe m)\<lparr>capability := fold (\<lambda>c w. w OR capb_bit c) (strcmdsplit arg 32) 0\<rparr>) m)"

definition command_title :: "confmodule \<Rightarrow> string \<Rightarrow> reply" where
  "command_title m arg = reply ''0'' (set_fe (frontend_set_title (Some arg) (fe m)) m)"

definition command_beginblock :: "confmodule \<Rightarrow> string \<Rightarrow> reply" where
  "command_beginblock m arg = reply ''0'' m"

definition command_endblock :: "confmodule \<Rightarrow> string \<Rightarrow> reply" where
  "command_endblock m arg = reply ''0'' m"

definition command_settitle :: "confmodule \<Rightarrow> string \<Rightarrow> reply" where
  "command_settitle m arg =
     (case get_question m arg of
        None \<Rightarrow> does_not_exist arg m
      | Some q \<Rightarrow>
          run_bind (or_die (question_get_raw_field (env m) (theap (db m)) (the_question m q) (Some []) ''description'')) (\<lambda>v.
            reply ''0 OK'' (set_fe (frontend_set_title (Some v) (fe m)) m)))"

definition command_info :: "confmodule \<Rightarrow> string \<Rightarrow> reply" where
  "command_info m arg =
     (case get_question m arg of
        None \<Rightarrow> does_not_exist arg m
      | Some q \<Rightarrow> reply ''0 OK'' (set_fe (frontend_info q (fe m)) m))"

text \<open>The default \<open>progress_info\<close> returns \<open>DC_OK\<close>; \<open>io_progress\<close> is what the frontend in use returns.\<close>

definition progress_reply :: "debconf_io \<Rightarrow> confmodule \<Rightarrow> reply" where
  "progress_reply io m = (if io_progress io = 30 then reply ''30 progress bar cancelled'' m else reply ''0 OK'' m)"

definition command_progress :: "debconf_io \<Rightarrow> confmodule \<Rightarrow> string \<Rightarrow> reply" where
  "command_progress io m arg =
     (case strcmdsplit arg 6 of
        [] \<Rightarrow> reply CHECKARGC_failed m
      | sub # argv \<Rightarrow>
          if strcasecmp_eq sub ''start'' then
            (case argv of
               [mn, mx, tg] \<Rightarrow>
                 if atoi mn > atoi mx
                 then reply (''20 min ('' @ dec_int (atoi mn) @ '') > max ('' @ dec_int (atoi mx) @ '')'') m
                 else (case get_question m tg of
                         None \<Rightarrow> does_not_exist tg m
                       | Some q \<Rightarrow> reply ''0 OK'' (set_fe (frontend_progress_start (atoi mn) (atoi mx) q (fe m)) m))
             | _ \<Rightarrow> reply CHECKARGC_failed m)
          else if strcasecmp_eq sub ''set'' then
            (case argv of
               [v] \<Rightarrow> progress_reply io (set_fe (frontend_progress_set (atoi v) (fe m)) m)
             | _ \<Rightarrow> reply CHECKARGC_failed m)
          else if strcasecmp_eq sub ''step'' then
            (case argv of
               [v] \<Rightarrow> run_bind (frontend_progress_step (atoi v) (fe m)) (\<lambda>f. progress_reply io (set_fe f m))
             | _ \<Rightarrow> reply CHECKARGC_failed m)
          else if strcasecmp_eq sub ''info'' then
            (case argv of
               [tg] \<Rightarrow> (case get_question m tg of None \<Rightarrow> does_not_exist tg m | Some q \<Rightarrow> progress_reply io m)
             | _ \<Rightarrow> reply CHECKARGC_failed m)
          else if strcasecmp_eq sub ''stop'' then reply ''0 OK'' m
          else reply (''20 unknown subcommand '' @ sub) m)"

text \<open>\<open>STOP\<close> waits for the client to end; the empty reply ends the session.\<close>

definition command_stop :: "confmodule \<Rightarrow> string \<Rightarrow> reply" where
  "command_stop m arg = (if strcmdsplit arg 3 \<noteq> [] then reply CHECKARGC_failed m else reply [] m)"

text \<open>
  The return codes are combined with a bitwise or: \<open>DC_NOTOK\<close> is 0, \<open>DC_OK\<close> is 1 and
  \<open>DC_NOTIMPL\<close> is 2.
\<close>

definition mark_dropped :: "confmodule \<Rightarrow> confmodule run" where
  "mark_dropped m =
     (if load_all_translations (env m) then Returns m
      else case get_question m ''debconf/translations-dropped'' of
        None \<Rightarrow> Returns m
      | Some q \<Rightarrow>
          run_bind (or_die (question_getvalue (env m) (theap (db m)) (the_question m q) (Some []) \<bind> (\<lambda>v. v))) (\<lambda>v.
            if v = ''true'' then Returns m
            else (let m = upd_question q (question_setvalue (Some ''true'')) m
                  in Returns (set_db (rfc822db_question_set q (db m)) m))))"

definition confmodule_save :: "bool \<Rightarrow> debconf_io \<Rightarrow> confmodule \<Rightarrow> (nat \<times> confmodule) run" where
  "confmodule_save udeb io m =
     run_bind (mark_dropped m) (\<lambda>m.
     run_bind (confmodule_update_seen_questions udeb STACK_SEEN_SAVE m) (\<lambda>(ok, m).
       let ret = 1 OR (if ok then 1 else 0) OR fst (io_save io) OR snd (io_save io)
       in Returns (if ret \<noteq> 1 then 0 else 1, m)))"

definition command_x_save :: "bool \<Rightarrow> debconf_io \<Rightarrow> confmodule \<Rightarrow> string \<Rightarrow> reply" where
  "command_x_save udeb io m arg =
     (if strcmdsplit arg 2 \<noteq> [] then reply CHECKARGC_failed m
      else run_bind (confmodule_save udeb io m) (\<lambda>(ret, m).
        reply (if ret = 1 then ''0 OK'' else ''100 not OK'') m))"

subsection \<open>The dispatcher\<close>

definition commands :: "debconf_io \<Rightarrow> (string \<times> (confmodule \<Rightarrow> string \<Rightarrow> reply)) list" where
  "commands io =
     [(''beginblock'', command_beginblock), (''capb'', command_capb io), (''clear'', command_clear), (''data'', command_data),
      (''endblock'', command_endblock), (''exist'', command_exist), (''fget'', command_fget), (''fset'', command_fset),
      (''get'', command_get), (''go'', command_go io), (''info'', command_info), (''input'', command_input),
      (''metaget'', command_metaget), (''progress'', command_progress io), (''purge'', command_purge),
      (''register'', command_register), (''reset'', command_reset), (''set'', command_set io), (''settitle'', command_settitle),
      (''stop'', command_stop), (''subst'', command_subst), (''title'', command_title), (''unregister'', command_unregister),
      (''version'', command_version), (''x_loadtemplatefile'', command_x_loadtemplatefile io), (''x_save'', command_x_save True io)]"

text \<open>\<open>None\<close>: a comment or an unknown command, for which nothing is written.\<close>

definition confmodule_process :: "debconf_io \<Rightarrow> confmodule \<Rightarrow> string \<Rightarrow> (string option \<times> confmodule) run" where
  "confmodule_process io m inp =
     (let inp = strstrip inp
      in if peek inp = CHR ''#'' then Returns (None, m)
         else run_bind (if escaping m then or_die (strunescape inp (length inp + 1) STRESCAPE_CAPB) else Returns inp) (\<lambda>inp.
           let argv = strcmdsplit inp 2;
               cmd = (case argv of [] \<Rightarrow> [] | c # _ \<Rightarrow> c);
               arg = (case argv of _ # a # _ \<Rightarrow> a | _ \<Rightarrow> [])
           in case find (\<lambda>(c, h). strcasecmp_eq cmd c) (commands io) of
                None \<Rightarrow> Returns (None, m)
              | Some (c, h) \<Rightarrow> run_bind (h m arg) (\<lambda>(out, m). Returns (Some out, m))))"

end
