(* ===== verification/Deb_Protocol.thy ===== *)
theory Deb_Protocol
  imports Deb_Commands DI_String
begin

text \<open>
  Theorems on the debconf protocol: what a client sees when it sends commands, what the
  commands keep of the databases, and what happens with the stack of seen questions.
\<close>

section \<open>Command lines\<close>

definition word :: "string \<Rightarrow> bool" where
  "word w \<longleftrightarrow> w \<noteq> [] \<and> (\<forall>c \<in> set w. \<not> c_isspace c \<and> c \<noteq> NUL)"

text \<open>A text that does not start or end with white space.\<close>

definition trimmed :: "string \<Rightarrow> bool" where
  "trimmed s \<longleftrightarrow> s \<noteq> [] \<and> \<not> c_isspace (hd s) \<and> \<not> c_isspace (last s) \<and> NUL \<notin> set s"

lemma word_trimmed: "word w \<Longrightarrow> trimmed w"
  by (auto simp: word_def trimmed_def)

lemma trimmed_join: "trimmed a \<Longrightarrow> trimmed b \<Longrightarrow> trimmed (a @ SP # b)"
  by (auto simp: trimmed_def)

lemma isspace_SP [simp]: "c_isspace SP"
  by (simp add: c_isspace_def)

lemma dropWhile_hd: "s \<noteq> [] \<Longrightarrow> \<not> P (hd s) \<Longrightarrow> dropWhile P s = s"
  by (cases s) auto

lemma strstrip_trimmed:
  assumes "trimmed s"
  shows "strstrip s = s"
proof -
  have "dropWhile c_isspace s = s" "dropWhile c_isspace (rev s) = rev s"
    using assms by (auto simp: trimmed_def hd_rev intro: dropWhile_hd)
  then show ?thesis by (simp add: strstrip_def Let_def)
qed

lemma words_max_word:
  assumes "word w"
  shows "words_max (Suc n) w = [w]" and "words_max (Suc (Suc n)) (w @ SP # s) = w # words_max (Suc n) s"
proof -
  have w: "w \<noteq> []" "\<forall>c \<in> set w. \<not> c_isspace c" using assms by (auto simp: word_def)
  have d: "dropWhile c_isspace (w @ r) = w @ r" for r using w by (intro dropWhile_hd) auto
  have e: "dropWhile (\<lambda>c. \<not> c_isspace c) w = []" "takeWhile (\<lambda>c. \<not> c_isspace c) w = w" using w by auto
  have "words_max n [] = []" by (cases n) auto
  then show "words_max (Suc n) w = [w]" using d [of "[]"] w by (simp add: Let_def e)
  show "words_max (Suc (Suc n)) (w @ SP # s) = w # words_max (Suc n) s"
    using d [of "SP # s"] w words_max_space [of SP "Suc n" s]
    by (simp add: Let_def takeWhile_append2 dropWhile_append2 del: words_max.simps(2)) (simp add: Let_def)
qed

lemma words_max_one: "s \<noteq> [] \<Longrightarrow> \<not> c_isspace (hd s) \<Longrightarrow> words_max (Suc 0) s = [s]"
  by (simp add: dropWhile_hd)

lemma strcmdsplit_words_of:
  assumes "word w"
  shows "strcmdsplit w (Suc n) = [w]"
    and "trimmed s \<Longrightarrow> strcmdsplit (w @ SP # s) (Suc (Suc 0)) = [w, s]"
    and "word v \<Longrightarrow> strcmdsplit (w @ SP # v) (Suc (Suc n)) = [w, v]"
    and "word v \<Longrightarrow> trimmed s \<Longrightarrow> strcmdsplit (w @ SP # v @ SP # s) (Suc (Suc (Suc 0))) = [w, v, s]"
    and "word v \<Longrightarrow> word u \<Longrightarrow> strcmdsplit (w @ SP # v @ SP # u) (Suc (Suc (Suc n))) = [w, v, u]"
proof -
  have nul: "nul_free w" "\<And>s. trimmed s \<Longrightarrow> nul_free s" "\<And>v. word v \<Longrightarrow> nul_free v" "NUL \<noteq> SP"
    using assms by (auto simp: nul_free_def word_def trimmed_def)
  have one: "words_max (Suc 0) s = [s]" if "trimmed s" for s using that by (intro words_max_one) (auto simp: trimmed_def)
  show "strcmdsplit w (Suc n) = [w]"
    using nul(1) by (simp add: strcmdsplit_reference words_max_word [OF assms] del: words_max.simps)
  show "trimmed s \<Longrightarrow> strcmdsplit (w @ SP # s) (Suc (Suc 0)) = [w, s]"
    using nul by (simp add: strcmdsplit_reference words_max_word [OF assms] one nul_free_def del: words_max.simps)
  show "word v \<Longrightarrow> strcmdsplit (w @ SP # v) (Suc (Suc n)) = [w, v]"
    using nul by (simp add: strcmdsplit_reference words_max_word [OF assms] words_max_word nul_free_def del: words_max.simps)
  show "word v \<Longrightarrow> trimmed s \<Longrightarrow> strcmdsplit (w @ SP # v @ SP # s) (Suc (Suc (Suc 0))) = [w, v, s]"
    using nul by (simp add: strcmdsplit_reference words_max_word [OF assms] words_max_word one nul_free_def del: words_max.simps)
  show "word v \<Longrightarrow> word u \<Longrightarrow> strcmdsplit (w @ SP # v @ SP # u) (Suc (Suc (Suc n))) = [w, v, u]"
    using nul by (simp add: strcmdsplit_reference words_max_word [OF assms] words_max_word nul_free_def del: words_max.simps)
qed

text \<open>The handler of a command line \<open>cmd arg\<close>.\<close>

definition handler :: "debconf_io \<Rightarrow> string \<Rightarrow> (confmodule \<Rightarrow> string \<Rightarrow> reply) option" where
  "handler io cmd = map_option snd (find (\<lambda>(c, h). strcasecmp_eq cmd c) (commands io))"

definition finish :: "reply \<Rightarrow> (string option \<times> confmodule) run" where
  "finish r = run_bind r (\<lambda>(out, m). Returns (Some out, m))"

lemma process_line:
  assumes "\<not> escaping m" "word cmd" "hd cmd \<noteq> CHR ''#''" "trimmed arg" "handler io cmd = Some h"
  shows "confmodule_process io m (cmd @ SP # arg) = finish (h m arg)"
proof -
  have s: "strstrip (cmd @ SP # arg) = cmd @ SP # arg"
    by (rule strstrip_trimmed [OF trimmed_join [OF word_trimmed [OF assms(2)] assms(4)]])
  have p: "peek (cmd @ SP # arg) \<noteq> CHR ''#''" using assms(2,3) by (cases cmd) (auto simp: word_def peek_def)
  obtain c where c: "find (\<lambda>(c, h). strcasecmp_eq cmd c) (commands io) = Some (c, h)"
    using assms(5) by (auto simp: handler_def)
  have "strcmdsplit (cmd @ SP # arg) 2 = [cmd, arg]"
    using strcmdsplit_words_of(2) [OF assms(2,4)] by (simp add: numeral_2_eq_2)
  then show ?thesis
    by (simp only: confmodule_process_def Let_def s) (simp add: p assms(1) c finish_def)
qed

lemma process_escaped:
  assumes "escaping m" "word cmd" "hd cmd \<noteq> CHR ''#''" "trimmed arg" "handler io cmd = Some h"
    and "trimmed (escape_all STRESCAPE_CAPB (cmd @ SP # arg))" "CHR 0x5C \<notin> set cmd"
  shows "confmodule_process io m (escape_all STRESCAPE_CAPB (cmd @ SP # arg)) = finish (h m arg)"
proof -
  let ?e = "escape_all STRESCAPE_CAPB (cmd @ SP # arg)"
  have s: "strstrip ?e = ?e" using assms(6) by (rule strstrip_trimmed)
  obtain x xs where x: "cmd = x # xs" using assms(2) by (cases cmd) (auto simp: word_def)
  have "c_isspace NL" by (simp add: c_isspace_def)
  then have "x \<noteq> NL" "x \<noteq> CHR 0x5C" using assms(2,7) x by (auto simp: word_def)
  then have "\<not> must_escape STRESCAPE_CAPB x" by (simp add: must_escape_def)
  then have "peek ?e = x" by (simp add: x escape_all_def escape_char_def peek_def)
  then have p: "peek ?e \<noteq> CHR ''#''" using assms(3) x by simp
  obtain c where c: "find (\<lambda>(c, h). strcasecmp_eq cmd c) (commands io) = Some (c, h)"
    using assms(5) by (auto simp: handler_def)
  have "strcmdsplit (cmd @ SP # arg) 2 = [cmd, arg]"
    using strcmdsplit_words_of(2) [OF assms(2,4)] by (simp add: numeral_2_eq_2)
  moreover have "length (cmd @ SP # arg) \<le> length ?e" by (simp add: length_escape_all)
  then have "strunescape ?e (length ?e + 1) STRESCAPE_CAPB = Some (cmd @ SP # arg)"
    by (simp only: strunescape_def room_of_def) (simp add: unescape_escape_all)
  ultimately show ?thesis
    by (simp only: confmodule_process_def Let_def s) (simp add: p assms(1) c finish_def or_die_def)
qed

section \<open>Values\<close>

text \<open>
  What a session keeps: a well-formed database.
\<close>

lemma get_question_ok:
  assumes "db_ok (db m)" "get_question m tg = Some q"
  shows "q < qnext (db m)" "q_valid (db m) (the_question m q)" "qtag (the_question m q) = tg"
  using db_ok_get [OF assms(1), of tg q] assms(2) by (simp_all add: get_question_def the_question_def)

lemma question_set_self:
  assumes "db_ok d" "rfc822db_question_get d k = Some q"
  shows "rfc822db_question_set q d = d\<lparr>qroot := qroot (rfc822db_question_set q d), qdirty := True\<rparr>"
proof -
  have "rfc822db_question_get d (qkey d q) = Some q" using assms db_ok_get(3) [OF assms] by (simp add: qkey_def)
  then show ?thesis by (simp add: rfc822db_question_set_def Let_def question_upd_def)
qed

text \<open>Changing a question in place and storing it.\<close>

lemma upd_and_set:
  assumes "db_ok d" "rfc822db_question_get d tg = Some q" "\<And>x. qtag (f x) = qtag x" "\<And>x. q_valid d x \<Longrightarrow> q_valid d (f x)"
  defines "d' \<equiv> rfc822db_question_set q (question_upd q f d)"
  shows "db_ok d'" "rfc822db_question_get d' = rfc822db_question_get d"
    "qheap d' = (qheap d)(q := f (qheap d q))" "theap d' = theap d" "tnext d' = tnext d" "qnext d' = qnext d"
proof -
  let ?e = "question_upd q f d"
  have e: "db_ok ?e" using assms(1,3,4) by (intro question_upd_ok) auto
  have g: "rfc822db_question_get ?e = rfc822db_question_get d"
    by (simp add: rfc822db_question_get_def question_upd_key [OF assms(3)] fun_eq_iff)
  have q: "rfc822db_question_get ?e tg = Some q" using g assms(2) by simp
  have "q < qnext ?e" using db_ok_get(1) [OF assms(1,2)] by simp
  then show "db_ok d'" unfolding d'_def by (rule question_set_ok [OF e])
  show "rfc822db_question_get d' = rfc822db_question_get d"
    using question_set_again(2) [OF e q] g by (simp add: d'_def)
  show "qheap d' = (qheap d)(q := f (qheap d q))"
    using question_set_again(1) [OF e q] by (simp add: d'_def question_upd_def)
  show "theap d' = theap d" "tnext d' = tnext d" "qnext d' = qnext d" by (simp_all add: d'_def)
qed

lemma q_valid_setvalue: "q_valid d q \<Longrightarrow> q_valid d (question_setvalue v q)"
  by (simp add: q_valid_def question_setvalue_def question_ok_def)

lemma frontend_qdb_set_ok:
  assumes "db_ok (rfc822db_question_set q (db m))" "q < qnext (db m)" "qtag (the_question m q) \<noteq> ''debconf/language''"
  obtains m' where "frontend_qdb_set io q prev m = Returns m'" "db m' = rfc822db_question_set q (db m)" "fe m' = fe m" "env m' = env m"
proof -
  let ?d = "rfc822db_question_set q (db m)"
  have v: "q_valid ?d (qheap ?d q)" using assms(1,2) by (simp add: db_ok_def)
  have t: "qtag (qheap ?d q) = qtag (the_question m q)"
    using question_set_key [of q "db m"] by (simp add: qkey_def fun_eq_iff the_question_def)
  obtain nv where "question_getvalue (env m) (theap ?d) (qheap ?d q) (Some []) = Some nv"
    using getvalue_defined [OF v] by blast
  then have "\<exists>m'. frontend_qdb_set io q prev m = Returns m' \<and> db m' = ?d \<and> fe m' = fe m \<and> env m' = env m"
    using t assms(3) by (simp add: frontend_qdb_set_def Let_def or_die_def the_question_def)
  then show ?thesis using that by blast
qed

text \<open>\<open>SET\<close> on an existing question.\<close>

lemma command_set_ok:
  assumes "db_ok (db m)" "get_question m tg = Some q" "word tg" "trimmed v" "tg \<noteq> ''debconf/language''"
  shows "\<exists>m'. command_set io m (tg @ SP # v) = reply ''0 value set'' m' \<and> db_ok (db m') \<and>
    get_question m' = get_question m \<and> qvalue (the_question m' q) = Some v \<and>
    (\<forall>p. p \<noteq> q \<longrightarrow> the_question m' p = the_question m p) \<and> fe m' = fe m \<and> env m' = env m \<and> theap (db m') = theap (db m)"
proof -
  let ?m1 = "upd_question q (question_setvalue (Some v)) m"
  have g: "rfc822db_question_get (db m) tg = Some q" using assms(2) by (simp add: get_question_def)
  have tagf: "qtag (question_setvalue (Some v) x) = qtag x" for x by (simp add: question_setvalue_def)
  have m1: "db ?m1 = question_upd q (question_setvalue (Some v)) (db m)" "fe ?m1 = fe m" "env ?m1 = env m"
    by (simp_all add: upd_question_def)
  note D = upd_and_set [OF assms(1) g tagf q_valid_setvalue, folded m1(1)]
  have "qtag (the_question ?m1 q) \<noteq> ''debconf/language''"
    using get_question_ok(3) [OF assms(1,2)] assms(5) by (simp add: the_question_def m1 question_upd_def question_setvalue_def)
  moreover have "q < qnext (db ?m1)" using get_question_ok(1) [OF assms(1,2)] by (simp add: m1)
  moreover obtain prev where prev: "question_getvalue (env m) (theap (db m)) (the_question m q) (Some []) = Some prev"
    using getvalue_defined [OF get_question_ok(2) [OF assms(1,2)]] by blast
  ultimately obtain m' where m': "frontend_qdb_set io q prev ?m1 = Returns m'" "db m' = rfc822db_question_set q (db ?m1)"
    "fe m' = fe m" "env m' = env m"
    using frontend_qdb_set_ok [OF D(1), of io prev] m1(2,3) by auto
  have "strcmdsplit (tg @ SP # v) 2 = [tg, v]"
    using strcmdsplit_words_of(2) [OF assms(3,4)] by (simp add: numeral_2_eq_2)
  then have "command_set io m (tg @ SP # v) = reply ''0 value set'' m'"
    using prev m'(1) assms(2) by (simp add: command_set_def or_die_def)
  then show ?thesis
    using D m' by (auto simp: the_question_def get_question_def fun_eq_iff question_setvalue_def)
qed

lemma value_in_place: "qvalue q = Some v \<Longrightarrow> question_getvalue e h q l = Some (Some v)"
  by (simp add: question_getvalue_def)

lemma command_get_ok:
  assumes "get_question m tg = Some q" "word tg" "qvalue (the_question m q) = Some v"
  shows "command_get m tg = reply (value_reply m v) m"
proof -
  have "strcmdsplit tg 3 = [tg]" using strcmdsplit_words_of(1) [OF assms(2), of 2] by (simp add: eval_nat_numeral)
  then show ?thesis
    using assms by (simp add: command_get_def value_in_place or_die_def)
qed

lemma handler_case: "map c_tolower a = b \<Longrightarrow> handler io a = handler io b"
proof -
  assume "map c_tolower a = b"
  moreover have "map c_tolower (map c_tolower a) = map c_tolower a" by (simp add: comp_def)
  ultimately have "strcasecmp_eq a c = strcasecmp_eq b c" for c by (simp add: strcasecmp_eq_def)
  then show ?thesis by (simp add: handler_def)
qed

lemma handlers_lower:
  "handler io ''set'' = Some (command_set io)" "handler io ''get'' = Some command_get"
  "handler io ''reset'' = Some command_reset" "handler io ''subst'' = Some command_subst"
  "handler io ''metaget'' = Some command_metaget" "handler io ''fget'' = Some command_fget"
  "handler io ''fset'' = Some command_fset" "handler io ''unregister'' = Some command_unregister"
  "handler io ''input'' = Some command_input" "handler io ''settitle'' = Some command_settitle"
  "handler io ''info'' = Some command_info"
  by (simp_all add: handler_def commands_def strcasecmp_eq_def c_tolower_def c_isupper_def)

lemma lower_names:
  "map c_tolower ''SET'' = ''set''" "map c_tolower ''GET'' = ''get''" "map c_tolower ''RESET'' = ''reset''"
  "map c_tolower ''SUBST'' = ''subst''" "map c_tolower ''METAGET'' = ''metaget''" "map c_tolower ''FGET'' = ''fget''"
  "map c_tolower ''FSET'' = ''fset''" "map c_tolower ''UNREGISTER'' = ''unregister''" "map c_tolower ''INPUT'' = ''input''"
  "map c_tolower ''SETTITLE'' = ''settitle''" "map c_tolower ''INFO'' = ''info''"
  by code_simp+

lemmas handlers = lower_names [THEN handler_case, unfolded handlers_lower]

lemma command_words:
  "word ''SET''" "word ''GET''" "word ''RESET''" "word ''SUBST''" "word ''METAGET''" "word ''FGET''" "word ''FSET''"
  "word ''UNREGISTER''" "word ''INPUT''" "word ''SETTITLE''" "word ''INFO''"
  by (simp_all add: word_def c_isspace_def)

lemma escape_trimmed:
  assumes "trimmed (a @ SP # v)" "CHR 0x5C \<notin> set a" "word a"
  shows "trimmed (escape_all STRESCAPE_CAPB (a @ SP # v))"
proof -
  let ?e = "escape_all STRESCAPE_CAPB"
  have nl: "c_isspace NL" by (simp add: c_isspace_def)
  have a: "\<forall>c \<in> set a. c \<noteq> NL \<and> c \<noteq> CHR 0x5C" using assms(2,3) nl by (auto simp: word_def)
  have ea: "?e a = a" using a by (induction a) (auto simp: escape_all_def escape_char_def must_escape_def)
  have "v \<noteq> []" using assms(1) by (cases v) (auto simp: trimmed_def)
  then obtain vs c where v: "v = vs @ [c]" by (cases v rule: rev_cases) auto
  have "\<not> c_isspace c" using assms(1) v by (auto simp: trimmed_def)
  then have c: "?e [c] \<noteq> []" "\<not> c_isspace (last (?e [c]))"
    by (auto simp: escape_all_def escape_char_def c_isspace_def)
  have app: "?e (x @ y) = ?e x @ ?e y" for x y by (simp add: escape_all_def)
  have sp: "?e [SP] = [SP]" by (simp add: escape_all_def escape_char_def must_escape_def)
  have eq: "?e (a @ SP # v) = a @ SP # ?e vs @ ?e [c]"
    using app [of a "SP # v"] app [of "[SP]" v] app [of vs "[c]"] by (simp add: ea sp v)
  have nul: "NUL \<notin> set (?e s)" if "NUL \<notin> set s" for s
    using that by (induction s) (auto simp: escape_all_def escape_char_def split: if_splits)
  have "NUL \<notin> set a" "NUL \<notin> set vs" "NUL \<notin> set [c]" using assms(1) v by (auto simp: trimmed_def)
  moreover have "a \<noteq> []" "\<not> c_isspace (hd a)" using assms(3) by (auto simp: word_def)
  ultimately show ?thesis
    unfolding trimmed_def eq using c nul by simp
qed

lemma escape_plain:
  assumes "\<forall>c \<in> set s. c \<noteq> NL \<and> c \<noteq> CHR 0x5C"
  shows "escape_all STRESCAPE_CAPB s = s"
  using assms by (induction s) (auto simp: escape_all_def escape_char_def must_escape_def)

text \<open>
  Property C35: a client that escapes its commands and sets a question to a value, newlines and
  backslashes included, is told that the value is set and, when it asks for the value, gets
  exactly the escaped value back.
\<close>

theorem set_get_roundtrip:
  assumes "db_ok (db m)" "escaping m" "get_question m tg = Some q" "tg \<noteq> ''debconf/language''"
    and "word tg" "CHR 0x5C \<notin> set tg" "trimmed v"
  shows "\<exists>m1. confmodule_process io m (fst (escapestr_frontend 0 (''SET '' @ tg @ SP # v))) = Returns (Some ''0 value set'', m1) \<and>
    confmodule_process io m1 (''GET '' @ tg) = Returns (Some (''1 '' @ fst (escapestr_frontend 0 v)), m1)"
proof -
  have arg: "trimmed (tg @ SP # v)" by (rule trimmed_join [OF word_trimmed [OF assms(5)] assms(7)])
  obtain m1 where m1: "command_set io m (tg @ SP # v) = reply ''0 value set'' m1" "db_ok (db m1)"
    "get_question m1 tg = Some q" "qvalue (the_question m1 q) = Some v" "fe m1 = fe m"
    using command_set_ok [OF assms(1,3,5,7,4), of io] assms(3) by auto
  have esc: "escaping m1" using assms(2) m1(5) by (simp add: escaping_def)
  have "trimmed (escape_all STRESCAPE_CAPB (''SET'' @ SP # tg @ SP # v))"
    by (rule escape_trimmed [OF trimmed_join [OF word_trimmed [OF command_words(1)] arg] _ command_words(1)]) simp
  from process_escaped [OF assms(2) command_words(1) _ arg handlers(1) this, of io] m1(1)
  have "confmodule_process io m (fst (escapestr_frontend 0 (''SET '' @ tg @ SP # v))) = Returns (Some ''0 value set'', m1)"
    by (simp add: escapestr_frontend_all finish_def reply_def)
  moreover have "c_isspace NL" by (simp add: c_isspace_def)
  then have "\<forall>c \<in> set (''GET'' @ SP # tg). c \<noteq> NL \<and> c \<noteq> CHR 0x5C"
    using assms(5,6) by (auto simp: word_def)
  from escape_plain [OF this] have e: "escape_all STRESCAPE_CAPB (''GET'' @ SP # tg) = ''GET '' @ tg" by simp
  have "trimmed (''GET '' @ tg)" using trimmed_join [OF word_trimmed [OF command_words(2)] word_trimmed [OF assms(5)]] by simp
  with process_escaped [OF esc command_words(2) _ word_trimmed [OF assms(5)] handlers(2), of io, unfolded e]
  have "confmodule_process io m1 (''GET '' @ tg) = finish (command_get m1 tg)" by simp
  then have "confmodule_process io m1 (''GET '' @ tg) = Returns (Some (''1 '' @ fst (escapestr_frontend 0 v)), m1)"
    using esc by (simp add: command_get_ok [OF m1(3) assms(5) m1(4)] finish_def reply_def value_reply_def)
  ultimately show ?thesis by blast
qed

definition example_io :: debconf_io where
  "example_io = \<lparr>io_go = (\<lambda>f d. (1, d)), io_progress = 1, io_reload = (\<lambda>e d. d), io_open = (\<lambda>_. None), io_file = (\<lambda>_. None),
     io_plugins = [], io_save = (1, 1)\<rparr>"

definition example_mod :: confmodule where
  "example_mod = \<lparr>db = example_db, fe = empty_frontend\<lparr>capability := 8\<rparr>, fe_name = ''text'', env = plain_env,
     venv = \<lparr>cmdline_priority = None, cmdline_showold = None, DEBIAN_PRIORITY = None\<rparr>, DEBIAN_FRONTEND = None,
     mod_owner = ''di'', backed_up = False, seen_questions = []\<rparr>"

lemma example_mod_ok: "db_ok (db example_mod)" "get_question example_mod ''a/b'' = Some 0"
proof -
  show "db_ok (db example_mod)"
    by (simp add: db_ok_def example_mod_def example_db_def empty_db_def ordered_def q_valid_def question_ok_def question_new_def
        template_ok_def template_new_def)
  show "get_question example_mod ''a/b'' = Some 0" by code_simp
qed

theorem set_get_roundtrip_witness:
  "\<exists>m1. confmodule_process example_io m1 ''GET a/b'' = Returns (Some (''1 x'' @ [CHR 0x5C] @ ''ny''), m1)"
proof -
  have e: "escaping example_mod" by code_simp
  have w: "word ''a/b''" "CHR 0x5C \<notin> set ''a/b''" "trimmed [CHR ''x'', NL, CHR ''y'']"
    by (simp_all add: word_def trimmed_def c_isspace_def)
  have v: "fst (escapestr_frontend 0 [CHR ''x'', NL, CHR ''y'']) = ''x'' @ [CHR 0x5C] @ ''ny''" by code_simp
  have "''a/b'' \<noteq> ''debconf/language''" by simp
  from set_get_roundtrip [OF example_mod_ok(1) e example_mod_ok(2) this w] show ?thesis by (auto simp: v)
qed

section \<open>Errors\<close>

lemma splits:
  "word w \<Longrightarrow> strcmdsplit w 2 = [w]" "word w \<Longrightarrow> strcmdsplit w 3 = [w]"
  "word w \<Longrightarrow> trimmed s \<Longrightarrow> strcmdsplit (w @ SP # s) 2 = [w, s]"
  "word w \<Longrightarrow> word v \<Longrightarrow> strcmdsplit (w @ SP # v) 3 = [w, v]" "word w \<Longrightarrow> word v \<Longrightarrow> strcmdsplit (w @ SP # v) 4 = [w, v]"
  "word w \<Longrightarrow> word v \<Longrightarrow> trimmed s \<Longrightarrow> strcmdsplit (w @ SP # v @ SP # s) 3 = [w, v, s]"
  "word w \<Longrightarrow> word v \<Longrightarrow> word u \<Longrightarrow> strcmdsplit (w @ SP # v @ SP # u) 5 = [w, v, u]"
  by (simp_all add: strcmdsplit_words_of eval_nat_numeral)

lemma unknown_question_handlers:
  assumes "get_question m tg = None" "word tg" "word var" "word w" "trimmed v"
  shows "command_get m tg = no_such tg m" "command_set io m (tg @ SP # v) = no_such tg m"
    "command_reset m tg = no_such tg m" "command_subst m (tg @ SP # var @ SP # v) = no_such tg m"
    "command_metaget m (tg @ SP # var) = no_such tg m" "command_fget m (tg @ SP # var) = no_such tg m"
    "command_fset m (tg @ SP # var @ SP # w) = no_such tg m" "command_unregister m tg = no_such tg m"
    "command_input m (var @ SP # tg) = reply (''10 \"'' @ tg @ ''\" doesn't exist'') m"
    "command_settitle m tg = does_not_exist tg m" "command_info m tg = does_not_exist tg m"
  using assms
  by (simp_all add: splits command_get_def command_set_def command_reset_def command_subst_def command_metaget_def
      command_fget_def command_fset_def command_unregister_def command_input_def command_settitle_def command_info_def)



section \<open>Owners\<close>

text \<open>
  Property C38: after \<open>PURGE\<close> the client owns no question any more: questions that nobody else
  owns are gone, and all others are found as before, with their values.
\<close>

theorem purge_gives_up:
  assumes "db_ok (db m)"
  shows "\<exists>m'. command_purge m arg = Returns (''0'', m') \<and> db_ok (db m') \<and>
    (\<forall>tg. get_question m' tg = (case get_question m tg of None \<Rightarrow> None
       | Some q \<Rightarrow> if set (owners (the_question m q)) \<subseteq> {mod_owner m} then None else Some q)) \<and>
    (\<forall>tg q. get_question m' tg = Some q \<longrightarrow>
       the_question m' q = (the_question m q)\<lparr>owners := filter (\<lambda>x. x \<noteq> mod_owner m) (owners (the_question m q))\<rparr>)"
proof -
  obtain d' where "question_db_disownall (mod_owner m) (db m) = Some d'" "db_ok d'"
    "\<And>k. rfc822db_question_get d' k = (case rfc822db_question_get (db m) k of
         None \<Rightarrow> None | Some p \<Rightarrow> if set (owners (qheap (db m) p)) \<subseteq> {mod_owner m} then None else Some p)"
    "\<And>k p. rfc822db_question_get d' k = Some p \<Longrightarrow> qheap d' p = question_owner_delete (mod_owner m) (qheap (db m) p)"
    by (rule disownall_spec [OF assms, of "mod_owner m"]) (rule that)
  then show ?thesis
    unfolding command_purge_def or_die_def reply_def set_db_def get_question_def the_question_def
    by (simp add: question_owner_delete_def)
qed

theorem purge_gives_up_witness:
  "\<exists>m'. command_purge example_mod [] = Returns (''0'', m') \<and> get_question m' ''a/b'' = None"
proof -
  have "set (owners (the_question example_mod 0)) \<subseteq> {mod_owner example_mod}" by code_simp
  with purge_gives_up [OF example_mod_ok(1), of "[]"] example_mod_ok(2) show ?thesis by fastforce
qed

section \<open>Seen questions\<close>

lemma list_from_chain: "chain nxt p xs \<Longrightarrow> list_from nxt p = Some xs"
proof (induction xs arbitrary: p)
  case (Cons x xs)
  then show ?case by (simp add: list_from.simps [of nxt "Some x"])
qed (simp add: list_from.simps)

lemma seen_remove_last:
  "seen_remove prev tg (Some q) (seen @ [Some t]) = (if t \<noteq> tg q then Some (seen @ [Some t]) else seen_remove prev tg (prev q) seen)"
proof -
  obtain a as where "seen @ [Some t] = a # as" by (cases "seen @ [Some t]") auto
  moreover from this have "last (a # as) = Some t" "butlast (a # as) = seen"
    using last_snoc [of seen "Some t"] butlast_snoc [of seen "Some t"] by simp_all
  ultimately show ?thesis by (simp del: last.simps butlast.simps)
qed

lemma seen_remove_suffix:
  "chain prev p (rev qs) \<Longrightarrow> seen_remove prev tg p (s @ map (\<lambda>q. Some (tg q)) qs) = Some s"
proof (induction qs arbitrary: p rule: rev_induct)
  case (snoc q qs)
  then show ?case using seen_remove_last [of prev tg q "s @ map (\<lambda>q. Some (tg q)) qs"] by simp
qed simp

text \<open>
  Property C39: when a client goes back over the questions that were just shown, the stack of
  seen questions is as it was before they were shown.
\<close>

theorem seen_stack_roundtrip:
  assumes "fe_lists (fe m) xs ys" "xs \<noteq> []"
  shows "\<exists>m1. confmodule_update_seen_questions udeb STACK_SEEN_ADD m = Returns (True, m1) \<and>
    confmodule_update_seen_questions udeb STACK_SEEN_REMOVE m1 = Returns (True, m)"
proof -
  have l: "list_from (link_next (fe m)) (questions (fe m)) = Some xs"
    using assms(1) by (intro list_from_chain) (simp add: fe_lists_def)
  let ?tag = "\<lambda>q. qtag (the_question m q)"
  let ?m1 = "m\<lparr>seen_questions := seen_questions m @ map (\<lambda>q. Some (?tag q)) xs\<rparr>"
  have "confmodule_update_seen_questions udeb STACK_SEEN_ADD m = Returns (True, ?m1)"
    using l by (simp add: confmodule_update_seen_questions_def or_hang_def)
  moreover have "seen_remove (link_prev (fe m)) ?tag (Some (last xs)) (seen_questions m @ map (\<lambda>q. Some (?tag q)) xs) = Some (seen_questions m)"
    using assms by (intro seen_remove_suffix) (simp add: fe_lists_def)
  then have "confmodule_update_seen_questions udeb STACK_SEEN_REMOVE ?m1 = Returns (True, m)"
    using l assms(2) by (simp add: confmodule_update_seen_questions_def or_hang_def or_die_def the_question_def)
  ultimately show ?thesis by blast
qed

theorem seen_stack_roundtrip_witness:
  "\<exists>m1. confmodule_update_seen_questions True STACK_SEEN_ADD (example_mod\<lparr>fe := empty_frontend\<lparr>questions := Some 0\<rparr>\<rparr>) = Returns (True, m1) \<and>
     confmodule_update_seen_questions True STACK_SEEN_REMOVE m1 =
       Returns (True, example_mod\<lparr>fe := empty_frontend\<lparr>questions := Some 0\<rparr>\<rparr>)"
proof -
  have "fe_lists (fe (example_mod\<lparr>fe := empty_frontend\<lparr>questions := Some 0\<rparr>\<rparr>)) [0] []"
    by (simp add: fe_lists_def empty_frontend_def unlinked_def)
  from seen_stack_roundtrip [OF this, of True] show ?thesis by simp
qed

text \<open>
  A question on the stack that is gone makes a save fail; the entries before it are deleted but
  stay on the stack, and the next save reads one of them.
\<close>

lemma second_save_dies:
  assumes "seen_questions m = [Some a, Some b]" "get_question m a = Some p" "get_question m b = None"
  shows "\<exists>m1. confmodule_update_seen_questions True STACK_SEEN_SAVE m = Returns (False, m1) \<and>
    confmodule_update_seen_questions True STACK_SEEN_SAVE m1 = Died"
  using assms by (simp add: confmodule_update_seen_questions_def or_die_def get_question_def)

section \<open>Saving\<close>

text \<open>
  Saving reports success although a database could not be saved: a return code of
  0 (\<open>DC_NOTOK\<close>) is lost in the bitwise or with 1 (\<open>DC_OK\<close>).
\<close>

theorem save_hides_failure:
  assumes "seen_questions m = []" "load_all_translations (env m)" "io_save io \<in> {(0, 0), (0, 1), (1, 0)}"
  shows "command_x_save udeb io m [] = Returns (''0 OK'', m)"
proof -
  have split: "strcmdsplit [] 2 = []" by code_simp
  have "mark_dropped m = Returns m" using assms(2) by (simp add: mark_dropped_def)
  moreover have "confmodule_update_seen_questions udeb STACK_SEEN_SAVE m = Returns (True, m)"
    using assms(1) by (simp add: confmodule_update_seen_questions_def)
  moreover have "Suc 0 OR fst (io_save io) OR snd (io_save io) = Suc 0" using assms(3) by auto
  ultimately show ?thesis
    by (simp add: command_x_save_def confmodule_save_def Let_def reply_def split)
qed

theorem save_hides_failure_witness:
  "command_x_save True (example_io\<lparr>io_save := (0, 0)\<rparr>) example_mod [] = Returns (''0 OK'', example_mod)"
  by (rule save_hides_failure) (simp_all add: example_mod_def load_all_translations_def)

section \<open>The databases stay well-formed\<close>

text \<open>What a frontend module and the file of the database have to keep.\<close>

definition io_ok :: "debconf_io \<Rightarrow> bool" where
  "io_ok io \<longleftrightarrow> (\<forall>f d. db_ok d \<longrightarrow> db_ok (snd (io_go io f d))) \<and> (\<forall>e d. db_ok d \<longrightarrow> db_ok (io_reload io e d))"

definition reply_ok :: "reply \<Rightarrow> bool" where
  "reply_ok r \<longleftrightarrow> (\<forall>out m. r = Returns (out, m) \<longrightarrow> db_ok (db m))"

lemma reply_ok_simps [simp]:
  "reply_ok (reply out m) = db_ok (db m)" "reply_ok Hangs" "reply_ok Died" "reply_ok (no_such tg m) = db_ok (db m)"
  "reply_ok (does_not_exist tg m) = db_ok (db m)" "reply_ok (progress_reply io m) = db_ok (db m)"
  by (auto simp: reply_ok_def reply_def no_such_def does_not_exist_def progress_reply_def)

lemma reply_ok_bind: "(\<And>x. r = Returns x \<Longrightarrow> reply_ok (f x)) \<Longrightarrow> reply_ok (run_bind r f)"
  by (cases r) auto

lemma db_simps [simp]:
  "db (set_db d m) = d" "db (set_fe f m) = db m" "db (upd_question q g m) = question_upd q g (db m)"
  by (simp_all add: set_db_def set_fe_def upd_question_def)

text \<open>The changes that commands make to a question in place.\<close>

lemma q_valid_updates:
  assumes "q_valid d q"
  shows "q_valid d (question_setvalue v q)" "q_valid d (question_variable_add var val q)" "q_valid d (question_owner_delete x q)"
    "q_valid d (question_set_flag f q)" "q_valid d (question_clear_flag f q)" "q_valid d (q\<lparr>priority := p\<rparr>)" "q_valid d (q\<lparr>qvalue := v\<rparr>)"
  using assms question_ops_ok
  by (auto simp: q_valid_def question_setvalue_def question_set_flag_def question_clear_flag_def)
    (auto simp: question_variable_add_def question_owner_delete_def)

lemma qtag_updates [simp]:
  "qtag (question_setvalue v q) = qtag q" "qtag (question_variable_add var val q) = qtag q" "qtag (question_owner_delete x q) = qtag q"
  "qtag (question_set_flag f q) = qtag q" "qtag (question_clear_flag f q) = qtag q"
  by (simp_all add: question_setvalue_def question_variable_add_def question_owner_delete_def question_set_flag_def question_clear_flag_def)

lemma stored_ok:
  assumes "db_ok (db m)" "get_question m tg = Some q" "\<And>x. qtag (f x) = qtag x" "\<And>x. q_valid (db m) x \<Longrightarrow> q_valid (db m) (f x)"
  shows "db_ok (question_upd q f (db m))" "db_ok (rfc822db_question_set q (question_upd q f (db m)))"
  using assms question_upd_ok [of "db m" f q] upd_and_set(1) [of "db m" tg q f] by (auto simp: get_question_def)

lemma command_reset_ok: "db_ok (db m) \<Longrightarrow> reply_ok (command_reset m arg)"
  by (auto simp: command_reset_def Let_def q_valid_updates intro!: stored_ok(2) split: list.split option.split)

lemma command_subst_ok: "db_ok (db m) \<Longrightarrow> reply_ok (command_subst m arg)"
  by (auto simp: command_subst_def Let_def q_valid_updates intro!: stored_ok(2) split: list.split option.split)

lemma command_fset_ok: "db_ok (db m) \<Longrightarrow> reply_ok (command_fset m arg)"
  by (auto simp: command_fset_def q_valid_updates intro!: stored_ok(1) split: list.split option.split)

lemma command_unregister_ok: "db_ok (db m) \<Longrightarrow> reply_ok (command_unregister m arg)"
  by (auto simp: command_unregister_def q_valid_updates intro!: stored_ok(1) split: list.split option.split)

lemma command_input_ok: "db_ok (db m) \<Longrightarrow> reply_ok (command_input m arg)"
  by (auto simp: command_input_def Let_def q_valid_updates intro!: stored_ok(1) reply_ok_bind split: list.split option.split)

lemma command_purge_ok: "db_ok (db m) \<Longrightarrow> reply_ok (command_purge m arg)"
  by (rule disownall_spec [of "db m" "mod_owner m"]) (auto simp: command_purge_def or_die_def)

lemma command_set_db_ok:
  assumes "db_ok (db m)" "io_ok io"
  shows "reply_ok (command_set io m arg)"
proof -
  have "db_ok (db m')" if "get_question m tg = Some q"
    and r: "frontend_qdb_set io q prev (upd_question q (question_setvalue v) m) = Returns m'" for tg q prev v m'
  proof -
    have "db_ok (rfc822db_question_set q (question_upd q (question_setvalue v) (db m)))"
      using assms(1) that(1) by (intro stored_ok(2)) (auto simp: q_valid_updates)
    then show ?thesis
      using r assms(2) by (auto simp: frontend_qdb_set_def Let_def run_bind_Returns io_ok_def split: if_splits)
  qed
  then show ?thesis
    using assms(1) by (auto simp: command_set_def intro!: reply_ok_bind split: list.split option.split)
qed

lemma command_register_ok:
  assumes "db_ok (db m)"
  shows "reply_ok (command_register m arg)"
proof -
  let ?upd = "\<lambda>t q. (question_owner_add (mod_owner m) q)\<lparr>qtemplate := Some t\<rparr>"
  have valid: "q_valid (db m) (?upd t x)" if "rfc822db_template_get (db m) tm = Some t" "question_ok x" for tm t x
    using that db_ok_template_get(1) [OF assms that(1)] question_ops_ok(2) by (auto simp: q_valid_def question_ok_def)
  have old: "db_ok (rfc822db_question_set q (question_upd q (?upd t) (db m)))"
    if "rfc822db_template_get (db m) tm = Some t" "get_question m tg = Some q" for tm t tg q
    using valid [OF that(1)] by (intro stored_ok(2) [OF assms that(2)]) (auto simp: q_valid_def question_owner_add_def)
  have new: "db_ok (rfc822db_question_set q d)"
    if "rfc822db_template_get (db m) tm = Some t" "question_alloc (?upd t (question_new tg)) (db m) = (q, d)" for tm t tg q d
    using question_alloc_ok(1,2) [OF assms valid [OF that(1) question_new_ok] that(2)] by (intro question_set_ok) auto
  show ?thesis
    using assms old new by (auto simp: command_register_def Let_def split: list.split option.split prod.split)
qed

lemma set_question_template_valid:
  assumes "db_ok d" "t < tnext d" "set_question_template t d = (q, d')"
  shows "db_ok (rfc822db_question_set q d')" "db_ok (rfc822db_question_set q (question_upd q (question_owner_add x) d'))"
proof -
  note S = set_question_template_ok [OF assms]
  show "db_ok (rfc822db_question_set q d')" by (rule question_set_ok [OF S(1,2)])
  have "db_ok (question_upd q (question_owner_add x) d')"
    using S(1) by (intro question_upd_ok) (auto simp: q_valid_owner_add)
  then show "db_ok (rfc822db_question_set q (question_upd q (question_owner_add x) d'))"
    using S(2) by (intro question_set_ok) simp_all
qed

lemma loadtemplate_one_ok:
  assumes "db_ok d" "template_ok tm"
  shows "db_ok (loadtemplate_one owner tm d)"
proof -
  obtain t d1 where a: "template_alloc tm d = (t, d1)" by fastforce
  obtain q d2 where s: "set_question_template t (rfc822db_template_set t d1) = (q, d2)" by fastforce
  note A = template_alloc_ok [OF assms a]
  have "db_ok (rfc822db_template_set t d1)" "t < tnext (rfc822db_template_set t d1)"
    using template_set_ok [OF A(1,2)] A(2) by simp_all
  from set_question_template_valid [OF this s] show ?thesis by (simp add: loadtemplate_one_def Let_def a s)
qed

lemma command_x_loadtemplatefile_ok:
  assumes "db_ok (db m)"
  shows "reply_ok (command_x_loadtemplatefile io m arg)"
proof -
  have "db_ok (fold (loadtemplate_one owner) ts d)" if "db_ok d" "list_all template_ok ts" for owner ts d
    using that by (induction ts arbitrary: d) (simp_all add: loadtemplate_one_ok)
  moreover have "list_all template_ok ts" if "template_load e c = Inr ts" for e c ts
    using that load_loop_ok [of e "[]" None c ts] by (simp add: template_load_def)
  ultimately show ?thesis
    using assms by (auto simp: command_x_loadtemplatefile_def Let_def split: option.split sum.split load_error.split)
qed

lemma noninteractive_one_cases:
  assumes "noninteractive_one e p d = Some r"
  shows "snd r = d \<or> (\<exists>x. snd r = question_upd p (question_setvalue x) d)"
proof -
  obtain t ty where t: "qtemplate (qheap d p) = Some t" "ttype (theap d t) = Some ty"
    using assms by (auto simp: noninteractive_one_def bind_eq_Some_conv Let_def simp del: list.inject)
  show ?thesis
  proof (cases "ty = ''select''")
    case False
    then show ?thesis using assms t by (simp add: noninteractive_one_def) auto
  next
    case True
    then obtain val cs where "question_getvalue e (theap d) (qheap d p) (Some []) = Some val"
      "question_get_raw_field e (theap d) (qheap d p) (Some ''C'') ''choices'' = Some cs"
      using assms t by (simp add: noninteractive_one_def bind_eq_Some_conv Let_def) blast
    with True t assms show ?thesis by (simp add: noninteractive_one_def Let_def split: if_splits) auto
  qed
qed

lemma noninteractive_one_ok: "noninteractive_one e p d = Some r \<Longrightarrow> db_ok d \<Longrightarrow> db_ok (snd r)"
  using noninteractive_one_cases [of e p d r] question_upd_ok [of d _ p] q_valid_updates(1) by fastforce

lemma noninteractive_loop_ok:
  assumes "noninteractive_loop e nxt p d = Some r" "r = Returns d'" "db_ok d"
  shows "db_ok d'"
proof -
  have "\<forall>d'. r = Returns d' \<longrightarrow> db_ok d \<longrightarrow> db_ok d'"
    using assms(1)
  proof (rule noninteractive_loop.raw_induct [where P = "\<lambda>e nxt p d r. \<forall>d'. r = Returns d' \<longrightarrow> db_ok d \<longrightarrow> db_ok d'", rotated])
    fix loop e nxt p d r
    assume IH: "\<And>e nxt p d r. loop e nxt p d = Some r \<Longrightarrow> \<forall>d'. r = Returns d' \<longrightarrow> db_ok d \<longrightarrow> db_ok d'"
      and r: "(case p of None \<Rightarrow> Some (Returns d) | Some q \<Rightarrow> (case noninteractive_one e q d of None \<Rightarrow> Some Died
        | Some r \<Rightarrow> if fst r then loop e nxt (nxt q) (snd r) else Some (Returns (snd r)))) = Some r"
    show "\<forall>d'. r = Returns d' \<longrightarrow> db_ok d \<longrightarrow> db_ok d'"
      using IH r noninteractive_one_ok by (fastforce split: option.splits if_splits)
  qed
  with assms(2,3) show ?thesis by simp
qed

lemma go_noninteractive_ok: "frontend_go_noninteractive e f d = Returns d' \<Longrightarrow> db_ok d \<Longrightarrow> db_ok d'"
  using noninteractive_loop_ok by (auto simp: frontend_go_noninteractive_def split: option.splits)

lemma seen_save_ok: "seen_save udeb seen d = Some (ok, seen', d') \<Longrightarrow> db_ok d \<Longrightarrow> db_ok d'"
proof (induction udeb seen d arbitrary: ok seen' d' rule: seen_save.induct)
  case (3 udeb t ts d)
  have "db_ok (question_upd p (question_set_flag DC_QFLAG_SEEN) d)" for p
    using "3.prems"(2) by (intro question_upd_ok) (auto simp: q_valid_updates)
  with 3 show ?case by (fastforce split: option.splits)
qed auto

lemma update_seen_ok:
  assumes "confmodule_update_seen_questions udeb action m = Returns (ok, m')" "db_ok (db m)"
  shows "db_ok (db m')"
  using assms seen_save_ok
  by (cases action) (auto simp: confmodule_update_seen_questions_def run_bind_Returns or_die_def or_hang_def split: if_splits option.splits)

lemma mark_dropped_ok: "mark_dropped m = Returns m' \<Longrightarrow> db_ok (db m) \<Longrightarrow> db_ok (db m')"
  by (auto simp: mark_dropped_def run_bind_Returns Let_def q_valid_updates intro!: stored_ok(2) split: if_splits option.splits)

lemma command_x_save_ok: "db_ok (db m) \<Longrightarrow> reply_ok (command_x_save udeb io m arg)"
  by (auto simp: command_x_save_def confmodule_save_def reply_ok_def run_bind_Returns reply_def Let_def
      dest!: update_seen_ok intro: mark_dropped_ok split: if_splits)

lemma switch_frontend_db [simp]: "db (switch_frontend io m) = db m" "env (switch_frontend io m) = env m"
  by (simp_all add: switch_frontend_def split: option.split)

lemma command_go_ok:
  assumes "db_ok (db m)" "io_ok io"
  shows "reply_ok (command_go io m arg)"
proof -
  have "db_ok (db m')"
    if "frontend_go_noninteractive e f (db m) = Returns d" "confmodule_update_seen_questions True a (x\<lparr>backed_up := b\<rparr>) = Returns (ok, m')"
      "db x = snd (io_go io f d)" for e f d a x b ok m'
  proof -
    have "db_ok (db (x\<lparr>backed_up := b\<rparr>))"
      using go_noninteractive_ok [OF that(1) assms(1)] assms(2) that(3) by (simp add: io_ok_def)
    with update_seen_ok [OF that(2)] show ?thesis by simp
  qed
  then show ?thesis
    using assms(1) by (auto simp: command_go_def Let_def split_beta intro!: reply_ok_bind)
qed

lemma command_unchanged_ok:
  assumes "db_ok (db m)"
  shows "reply_ok (command_beginblock m arg)" "reply_ok (command_capb io m arg)" "reply_ok (command_clear m arg)"
    "reply_ok (command_endblock m arg)" "reply_ok (command_exist m arg)" "reply_ok (command_fget m arg)" "reply_ok (command_get m arg)"
    "reply_ok (command_info m arg)" "reply_ok (command_metaget m arg)" "reply_ok (command_progress io m arg)"
    "reply_ok (command_settitle m arg)" "reply_ok (command_stop m arg)" "reply_ok (command_title m arg)" "reply_ok (command_version m arg)"
  using assms
  by (auto simp: command_beginblock_def command_capb_def command_clear_def command_endblock_def command_exist_def command_fget_def
      command_get_def command_info_def command_metaget_def command_progress_def command_settitle_def command_stop_def
      command_title_def command_version_def intro!: reply_ok_bind split: list.split option.split)

text \<open>\<open>DATA\<close> can give a template another tag.\<close>

definition names_tag :: "string \<Rightarrow> bool" where
  "names_tag field \<longleftrightarrow> map c_tolower (takeWhile (\<lambda>c. c \<noteq> CHR ''-'') field) = ''tag''"

lemma names_tag_before_dash: "names_tag (before_dash field) = names_tag field"
  by (simp add: names_tag_def before_dash_def)

lemma names_tag_exact: "strcasecmp_eq field ''tag'' \<Longrightarrow> names_tag field"
proof -
  assume "strcasecmp_eq field ''tag''"
  moreover have "map c_tolower ''tag'' = ''tag''" by code_simp
  ultimately have t: "map c_tolower field = ''tag''" by (simp only: strcasecmp_eq_def)
  have "c_tolower (CHR ''-'') = CHR ''-''" by code_simp
  then have "CHR ''-'' \<in> set (map c_tolower field)" if "CHR ''-'' \<in> set field" using that by force
  then have "CHR ''-'' \<notin> set field" by (auto simp: t)
  then have "takeWhile (\<lambda>c. c \<noteq> CHR ''-'') field = field" by (intro takeWhile_eq_all_conv [THEN iffD2]) auto
  then show ?thesis unfolding names_tag_def by (simp only: t)
qed

lemma lset_keeps_tag: "\<not> names_tag f \<Longrightarrow> tag (template_lset e l f v t) = tag t"
proof (induction e l f v t rule: template_lset.induct)
  case (1 e lang field val t)
  have "\<not> strcasecmp_eq field ''tag''" using 1 names_tag_exact by blast
  moreover have "tag (lset_curlang c f v t) = tag t" for c f v by (simp add: lset_curlang_def split: option.split)
  ultimately show ?case using 1
    by (subst template_lset.simps) (auto simp: Let_def names_tag_before_dash split: option.splits)
qed

lemma command_data_ok:
  assumes "db_ok (db m)" "\<And>tg item v. strcmdsplit arg 3 = [tg, item, v] \<Longrightarrow> \<not> names_tag item"
  shows "reply_ok (command_data m arg)"
proof -
  have upd: "db_ok (template_upd t (template_lset e None item v) d)" if "\<not> names_tag item" "db_ok d" for t e item v d
    using that by (intro template_upd_ok) (auto simp: lset_keeps_tag template_lset_ok)
  have new: "db_ok (rfc822db_question_set q (template_upd t (template_lset e None item v) d2))"
    if "\<not> names_tag item" "template_alloc (template_new tg) (db m) = (t, d1)"
      "set_question_template t (rfc822db_template_set t d1) = (q, d2)" for t e item v tg d1 q d2
  proof -
    note A = template_alloc_ok [OF assms(1) template_new_ok that(2)]
    have "t < tnext (rfc822db_template_set t d1)" using A(2) by simp
    note S = set_question_template_ok [OF template_set_ok [OF A(1,2)] this that(3)]
    show ?thesis using S(2) by (intro question_set_ok upd [OF that(1) S(1)]) simp
  qed
  show ?thesis
    using assms upd new
    by (auto simp: command_data_def Let_def intro!: reply_ok_bind split: list.split option.split prod.split)
qed

lemmas command_changes_ok =
  command_input_ok command_fset_ok command_purge_ok command_register_ok command_reset_ok command_subst_ok command_unregister_ok
  command_x_loadtemplatefile_ok command_x_save_ok

lemmas command_io_ok = command_go_ok command_set_db_ok



end
