(* ===== verification/Deb_Rfc822.thy ===== *)
theory Deb_Rfc822
  imports Deb_Template
begin

text \<open>
  \<^verbatim>\<open>cdebconf/src/rfc822.c\<close>: the stanzas of headers that the database files consist of.

  A file is its text, without NUL bytes, and a position in it the text that follows. The line
  buffer is static and grows; its size is passed on. A list of headers is a list, \<open>NULL\<close> the empty
  one. The lemmas show that lines of every length are read whole, and that headers written with
  \<open>escapestr\<close> are read back when the text does not start with a space and does not contain a backslash
  before an \<open>n\<close>.
\<close>

section \<open>Definitions\<close>

record rfc822_header =
  header :: string
  hvalue :: string

text \<open>The loop that reads the rest of a line that did not fit into the buffer.\<close>

function grow_line :: "nat \<Rightarrow> string \<Rightarrow> string \<Rightarrow> string \<times> nat \<times> string" where
  "grow_line buflen buf s =
     (if last buf = NL then (buf, buflen, s)
      else case fgets (buflen + 8192 - length buf) s of
             (t, r) \<Rightarrow> if t = [] then (buf, buflen + 8192, r) else grow_line (buflen + 8192) (buf @ t) r)"
  by pat_completeness auto
termination
proof (relation "measure (\<lambda>(buflen, buf, s). length s)")
  fix buflen and buf s t r :: string
  assume "(t, r) = fgets (buflen + 8192 - length buf) s" "t \<noteq> []"
  then show "((buflen + 8192, buf @ t, r), buflen, buf, s) \<in> measure (\<lambda>(buflen, buf, s). length s)"
    using fgets_length [of "buflen + 8192 - length buf" s] by (cases t) (auto dest: sym)
qed simp

declare grow_line.simps [simp del]

text \<open>
  A header line. Without a colon \<open>tmp\<close> is moved behind the end of the string: that is the second NUL when
  a newline was removed, and otherwise whatever the buffer held before.
\<close>

definition header_line :: "bool \<Rightarrow> string \<Rightarrow> rfc822_header run" where
  "header_line chomped buf =
     (let tmp = dropWhile (\<lambda>c. c \<noteq> CHR '':'') buf
      in if tmp = [] \<and> \<not> chomped then Died
         else run_bind (or_die (fst (unescapestr 0 (dropWhile c_isspace (tl tmp))))) (\<lambda>v.
           Returns \<lparr>header = takeWhile (\<lambda>c. c \<noteq> CHR '':'') buf, hvalue = v\<rparr>))"

definition continue_value :: "string \<Rightarrow> rfc822_header list \<Rightarrow> rfc822_header list" where
  "continue_value tmp hs =
     (let cur = last hs
      in butlast hs @ [cur\<lparr>hvalue := strvacat (hvalue cur) (length (hvalue cur) + length tmp + 2) [[NL], tmp]\<rparr>])"

lemma fgets_append: "fst (fgets n s) @ snd (fgets n s) = s"
  by (induction n s rule: fgets.induct) (auto simp: map_prod_def split_beta)

lemma grow_line_length: "grow_line n buf s = (buf', n', s') \<Longrightarrow> length s' \<le> length s"
proof (induction n buf s rule: grow_line.induct)
  case (1 n buf s)
  obtain t r where f: "fgets (n + 8192 - length buf) s = (t, r)" by fastforce
  have r: "length r \<le> length s" using fgets_length [of "n + 8192 - length buf" s] f by simp
  show ?case
  proof (cases "last buf = NL \<or> t = []")
    case True
    then show ?thesis using 1(2) f r by (auto simp: grow_line.simps [of n buf s] split: if_splits)
  next
    case False
    then have "grow_line (n + 8192) (buf @ t) r = (buf', n', s')"
      using 1(2) f by (simp add: grow_line.simps [of n buf s])
    then show ?thesis using 1(1) False f r by fastforce
  qed
qed

text \<open>\<open>hs\<close> are the headers so far; the result is the headers, the size of the buffer and the rest of the file.\<close>

function stanza_loop :: "nat \<Rightarrow> rfc822_header list \<Rightarrow> string \<Rightarrow> (rfc822_header list \<times> nat \<times> string) run" where
  "stanza_loop buflen hs s =
     (case fgets buflen s of
        (buf, r) \<Rightarrow>
          if buf = [] \<or> hd buf = NL then Returns (hs, buflen, r)
          else case grow_line buflen buf r of
            (buf, buflen, r) \<Rightarrow>
              (let tmp = CHOMP buf
               in if c_isspace (peek tmp)
                  then if hs = [] then Returns (hs, buflen, r) else stanza_loop buflen (continue_value tmp hs) r
                  else run_bind (header_line (last buf = NL) tmp) (\<lambda>h. stanza_loop buflen (hs @ [h]) r)))"
  by pat_completeness auto
termination
proof (relation "measure (\<lambda>(buflen, hs, s). length s)", goal_cases)
  case (2 n hs s b r b' x n' r' tmp)
  then show ?case
    using fgets_length [of n s] grow_line_length [of n b r b' n' r'] by (cases b) (auto dest: sym)
next
  case (3 n hs s b r b' x n' r' tmp h)
  then show ?case
    using fgets_length [of n s] grow_line_length [of n b r b' n' r'] by (cases b) (auto dest: sym)
qed simp

declare stanza_loop.simps [simp del]

definition rfc822_parse_stanza :: "nat \<Rightarrow> string \<Rightarrow> (rfc822_header list \<times> nat \<times> string) run" where
  "rfc822_parse_stanza buflen s = stanza_loop buflen [] s"

definition rfc822_header_lookup :: "rfc822_header list \<Rightarrow> string \<Rightarrow> string option" where
  "rfc822_header_lookup hs key = map_option hvalue (find (\<lambda>h. strcasecmp_eq key (header h)) hs)"

text \<open>
  The loops of the callers read stanzas until the first one without a header. The stanzas
  of a file are all that they see of it.
\<close>

lemma stanza_loop_length:
  "stanza_loop n hs s = Returns (hs', n', s') \<Longrightarrow> length s' \<le> length s \<and> (hs' \<noteq> hs \<longrightarrow> length s' < length s)"
proof (induction n hs s rule: stanza_loop.induct)
  case (1 n hs s)
  obtain b r where f: "fgets n s = (b, r)" by fastforce
  obtain b' m r' where g: "grow_line n b r = (b', m, r')" using prod_cases3 by blast
  have len: "length b + length r = length s" "length r' \<le> length r"
    using fgets_length [of n s] f grow_line_length [OF g] by auto
  show ?case
  proof (cases "b = [] \<or> hd b = NL")
    case True
    then show ?thesis using 1(3) f len by (auto simp: stanza_loop.simps [of n hs s])
  next
    case False
    then have s: "length r < length s" using len by (cases b) auto
    show ?thesis
    proof (cases "c_isspace (peek (CHOMP b'))")
      case True
      then have "stanza_loop n hs s =
          (if hs = [] then Returns (hs, m, r') else stanza_loop m (continue_value (CHOMP b') hs) r')"
        using False f g by (simp add: stanza_loop.simps [of n hs s] Let_def)
      with 1(3) 1(1) [OF f [symmetric] False g [symmetric] refl refl True] len s show ?thesis
        by (cases "hs = []") auto
    next
      case no: False
      then obtain h where "header_line (last b' = NL) (CHOMP b') = Returns h" "stanza_loop m (hs @ [h]) r' = Returns (hs', n', s')"
        using 1(3) False f g by (auto simp: stanza_loop.simps [of n hs s] Let_def run_bind_Returns)
      then show ?thesis using 1(2) [OF f [symmetric] False g [symmetric] refl refl no, of h] len s by simp
    qed
  qed
qed

function rfc822_stanzas :: "nat \<Rightarrow> string \<Rightarrow> rfc822_header list list run" where
  "rfc822_stanzas buflen s =
     (case rfc822_parse_stanza buflen s of
        Hangs \<Rightarrow> Hangs
      | Died \<Rightarrow> Died
      | Returns (hs, buflen, r) \<Rightarrow>
          if hs = [] then Returns [] else run_bind (rfc822_stanzas buflen r) (\<lambda>hss. Returns (hs # hss)))"
  by pat_completeness auto
termination
  by (relation "measure (\<lambda>(buflen, s). length s)")
    (auto simp: rfc822_parse_stanza_def dest: stanza_loop_length)

declare rfc822_stanzas.simps [simp del]

section \<open>Lines\<close>

lemma fgets_whole_line:
  "NL \<notin> set l \<Longrightarrow> fgets (Suc n) (l @ NL # r) =
     (if length l < n then (l @ [NL], r) else (take n l, drop n l @ NL # r))"
proof (induction l arbitrary: n)
  case Nil
  show ?case by (cases n) auto
next
  case (Cons c l)
  then show ?case by (cases n) auto
qed

lemma grow_line_whole:
  "NL \<notin> set buf \<Longrightarrow> NL \<notin> set l \<Longrightarrow> buf \<noteq> [] \<Longrightarrow> length buf < n \<Longrightarrow>
     \<exists>m \<ge> n. grow_line n buf (l @ NL # r) = (buf @ l @ [NL], m, r)"
proof (induction n buf "l @ NL # r" arbitrary: l rule: grow_line.induct)
  case (1 n buf)
  define k where "k = n + 8191 - length buf"
  have k: "n + 8192 - length buf = Suc k" "0 < k" using 1(5) by (auto simp: k_def)
  have b: "last buf \<noteq> NL" using 1(2,4) last_in_set by metis
  have f: "fgets (Suc k) (l @ NL # r) = (if length l < k then (l @ [NL], r) else (take k l, drop k l @ NL # r))"
    by (rule fgets_whole_line [OF 1(3)])
  show ?case
  proof (cases "length l < k")
    case True
    then have "grow_line n buf (l @ NL # r) = grow_line (n + 8192) (buf @ l @ [NL]) r"
      using b k(1) f by (simp add: grow_line.simps [of n])
    also have "\<dots> = (buf @ l @ [NL], n + 8192, r)" by (simp add: grow_line.simps)
    finally show ?thesis by auto
  next
    case False
    have t: "take k l \<noteq> []" using False k(2) by auto
    have free: "NL \<notin> set (buf @ take k l)" "NL \<notin> set (drop k l)" "buf @ take k l \<noteq> []"
      using 1(2,3,4) by (auto dest: in_set_takeD in_set_dropD)
    have "length (buf @ take k l) < n + 8192" using 1(5) by (simp add: k_def)
    from 1(1) [OF b _ t free this] f False k(1)
    obtain m where "n + 8192 \<le> m" "grow_line (n + 8192) (buf @ take k l) (drop k l @ NL # r) = (buf @ l @ [NL], m, r)"
      by auto
    moreover have "grow_line n buf (l @ NL # r) = grow_line (n + 8192) (buf @ take k l) (drop k l @ NL # r)"
      using b k(1) f False t by (simp add: grow_line.simps [of n])
    ultimately show ?thesis using le_trans le_add1 by metis
  qed
qed

lemma stanza_loop_end [simp]:
  "stanza_loop n hs [] = Returns (hs, n, [])"
  "2 \<le> n \<Longrightarrow> stanza_loop n hs (NL # r) = Returns (hs, n, r)"
  by (simp_all add: stanza_loop.simps)

text \<open>A line is read whole, however long it is.\<close>

lemma stanza_loop_line:
  assumes "NL \<notin> set l" "l \<noteq> []" "2 \<le> n"
  shows "\<exists>m \<ge> n. stanza_loop n hs (l @ NL # r) =
    (if c_isspace (hd l) then if hs = [] then Returns (hs, m, r) else stanza_loop m (continue_value l hs) r
     else run_bind (header_line True l) (\<lambda>h. stanza_loop m (hs @ [h]) r))"
proof -
  obtain k where k: "n = Suc k" "0 < k" using assms(3) by (cases n) auto
  have c: "CHOMP (l @ [NL]) = l" by (simp add: CHOMP_def)
  have p: "peek l = hd l" using assms(2) by (cases l) auto
  obtain b r1 m where b: "fgets n (l @ NL # r) = (b, r1)" "b \<noteq> []" "hd b \<noteq> NL"
    and g: "n \<le> m" "grow_line n b r1 = (l @ [NL], m, r)"
  proof (cases "length l < k")
    case True
    show ?thesis
    proof (rule that)
      show "fgets n (l @ NL # r) = (l @ [NL], r)" using True assms(1) by (simp add: k fgets_whole_line)
      show "grow_line n (l @ [NL]) r = (l @ [NL], n, r)" by (simp add: grow_line.simps)
      show "hd (l @ [NL]) \<noteq> NL" using assms(1,2) by (cases l) auto
    qed auto
  next
    case False
    have t: "take k l \<noteq> []" "NL \<notin> set (take k l)" "NL \<notin> set (drop k l)"
      using False k(2) assms(1) by (auto dest: in_set_takeD in_set_dropD)
    have "length (take k l) < n" by (simp add: k(1))
    then obtain m where m: "n \<le> m" "grow_line n (take k l) (drop k l @ NL # r) = (take k l @ drop k l @ [NL], m, r)"
      using grow_line_whole [OF t(2,3,1)] by blast
    show ?thesis
    proof (rule that)
      show "fgets n (l @ NL # r) = (take k l, drop k l @ NL # r)" using False assms(1) by (simp add: k fgets_whole_line)
      show "grow_line n (take k l) (drop k l @ NL # r) = (l @ [NL], m, r)"
        using m(2) unfolding append_assoc [symmetric] append_take_drop_id .
      show "hd (take k l) \<noteq> NL" using t(1,2) hd_in_set by metis
    qed (use t(1) m(1) in auto)
  qed
  show ?thesis
    by (rule exI [of _ m]) (use b g c p in \<open>simp add: stanza_loop.simps [of n] Let_def\<close>)
qed

section \<open>Headers\<close>

text \<open>A text without a backslash before an \<open>n\<close>.\<close>

fun no_escape :: "string \<Rightarrow> bool" where
  "no_escape (a # b # s) = (\<not> (a = CHR 0x5C \<and> b = CHR ''n'') \<and> no_escape (b # s))"
| "no_escape s = True"

text \<open>The texts that survive: those without such a backslash that do not start with a space.\<close>

definition survives :: "string \<Rightarrow> bool" where
  "survives v \<longleftrightarrow> no_escape v \<and> (v = [] \<or> hd v = NL \<or> \<not> c_isspace (hd v))"

abbreviation escaped :: "string \<Rightarrow> string" where
  "escaped \<equiv> escape_all STRESCAPE_822"

lemma escaped_simps [simp]:
  "escaped [] = []"
  "escaped (c # s) = (if c = NL then [CHR 0x5C, CHR ''n''] else [c]) @ escaped s"
  "escaped (s @ t) = escaped s @ escaped t"
  by (simp_all add: escape_all_def escape_char_def must_escape_def)

lemma escapestr_all: "fst (escapestr n s) = escaped s"
proof -
  have "filter (must_escape STRESCAPE_822) s = filter (\<lambda>c. c = NL) s"
    by (rule filter_cong) (auto simp: must_escape_def)
  then show ?thesis
    by (simp add: escapestr_def strescape_def room_of_def Let_def strescape_loop_enough length_escape_all)
qed

lemma escaped_id: "NL \<notin> set s \<Longrightarrow> escaped s = s"
  by (induction s) auto

lemma peek_escaped: "peek (escaped s) = CHR ''n'' \<longleftrightarrow> peek s = CHR ''n''"
  by (cases s) auto

lemma unescape_822: "no_escape s \<Longrightarrow> length s \<le> room \<Longrightarrow> strunescape_loop STRESCAPE_822 room (escaped s) = Some s"
proof (induction s arbitrary: room)
  case (Cons c s)
  then obtain k where k: "room = Suc k" "length s \<le> k" by (cases room) auto
  have s: "no_escape s" using Cons.prems(1) by (cases s) auto
  have n: "c = CHR 0x5C \<Longrightarrow> peek (escaped s) \<noteq> CHR ''n''"
    unfolding peek_escaped using Cons.prems(1) by (cases s) auto
  show ?case
    using Cons.IH [OF s k(2)] n k(1) by (cases "c = NL") auto
qed simp

lemma unescapestr_escaped: "no_escape s \<Longrightarrow> fst (unescapestr n (escaped s)) = Some s"
  by (simp add: unescapestr_def Let_def strunescape_def room_of_def unescape_822 length_escape_all max_def)

lemma header_line_written:
  assumes "CHR '':'' \<notin> set name" "survives v"
  shows "header_line True (name @ CHR '':'' # SP # escaped v) = Returns \<lparr>header = name, hvalue = v\<rparr>"
proof -
  have "dropWhile c_isspace (escaped v) = escaped v"
    using assms(2) by (cases v) (auto simp: survives_def c_isspace_def)
  moreover have "c_isspace SP" by (simp add: c_isspace_def)
  moreover have "dropWhile (\<lambda>c. c \<noteq> CHR '':'') (name @ CHR '':'' # SP # escaped v) = CHR '':'' # SP # escaped v"
    "takeWhile (\<lambda>c. c \<noteq> CHR '':'') (name @ CHR '':'' # SP # escaped v) = name"
    using assms(1) by (induction name) auto
  ultimately show ?thesis
    using assms(2) unescapestr_escaped [of v 0] by (simp add: header_line_def survives_def)
qed

text \<open>What \<open>fprintf\<close> writes for a list of headers and their texts.\<close>

definition header_text :: "string \<times> string \<Rightarrow> string" where
  "header_text h = fst h @ CHR '':'' # SP # escaped (snd h) @ [NL]"

definition header_ok :: "string \<times> string \<Rightarrow> bool" where
  "header_ok h \<longleftrightarrow> fst h \<noteq> [] \<and> CHR '':'' \<notin> set (fst h) \<and> NL \<notin> set (fst h) \<and> \<not> c_isspace (hd (fst h)) \<and> survives (snd h)"

definition header_of :: "string \<times> string \<Rightarrow> rfc822_header" where
  "header_of h = \<lparr>header = fst h, hvalue = snd h\<rparr>"

lemma header_of_simps [simp]: "header (header_of h) = fst h" "hvalue (header_of h) = snd h"
  by (simp_all add: header_of_def)

lemma stanza_loop_header:
  assumes "header_ok h" "2 \<le> n"
  shows "\<exists>m \<ge> n. stanza_loop n hs (header_text h @ r) = stanza_loop m (hs @ [header_of h]) r"
proof -
  let ?l = "fst h @ CHR '':'' # SP # escaped (snd h)"
  have l: "NL \<notin> set ?l" "?l \<noteq> []" "hd ?l = hd (fst h)"
    using assms(1) NL_escape_all [of STRESCAPE_822 "snd h"] by (auto simp: header_ok_def hd_append)
  have h: "header_line True ?l = Returns (header_of h)"
    using assms(1) by (simp add: header_line_written header_ok_def header_of_def)
  obtain m where "n \<le> m" "stanza_loop n hs (?l @ NL # r) =
    (if c_isspace (hd ?l) then if hs = [] then Returns (hs, m, r) else stanza_loop m (continue_value ?l hs) r
     else run_bind (header_line True ?l) (\<lambda>h. stanza_loop m (hs @ [h]) r))"
    using stanza_loop_line [OF l(1,2) assms(2)] by blast
  moreover have "\<not> c_isspace (hd ?l)" unfolding l(3) using assms(1) by (simp add: header_ok_def)
  moreover have "header_text h @ r = ?l @ NL # r" by (simp add: header_text_def)
  ultimately show ?thesis unfolding h by auto
qed

lemma stanza_loop_headers:
  "\<forall>h \<in> set ls. header_ok h \<Longrightarrow> 2 \<le> n \<Longrightarrow>
     \<exists>m \<ge> n. stanza_loop n hs (concat (map header_text ls) @ r) = stanza_loop m (hs @ map header_of ls) r"
proof (induction ls arbitrary: n hs)
  case (Cons h ls)
  obtain m where m: "n \<le> m" "stanza_loop n hs (header_text h @ concat (map header_text ls) @ r) =
      stanza_loop m (hs @ [header_of h]) (concat (map header_text ls) @ r)"
    using stanza_loop_header [of h n hs "concat (map header_text ls) @ r"] Cons.prems by auto
  obtain k where "m \<le> k" "stanza_loop m (hs @ [header_of h]) (concat (map header_text ls) @ r) =
      stanza_loop k ((hs @ [header_of h]) @ map header_of ls) r"
    using Cons.IH [of m "hs @ [header_of h]"] Cons.prems m(1) by auto
  with m show ?case by (auto intro!: exI [of _ k])
qed auto

lemma continue_value_snoc: "continue_value l (hs @ [h]) = hs @ [h\<lparr>hvalue := hvalue h @ NL # l\<rparr>]"
  by (simp add: continue_value_def Let_def)

text \<open>Continuation lines are appended as they are.\<close>

lemma stanza_loop_continued:
  "\<forall>l \<in> set ls. l \<noteq> [] \<and> c_isspace (hd l) \<and> NL \<notin> set l \<Longrightarrow> 2 \<le> n \<Longrightarrow>
     \<exists>m \<ge> n. stanza_loop n (hs @ [h]) (concat (map (\<lambda>l. l @ [NL]) ls) @ r) =
       stanza_loop m (hs @ [h\<lparr>hvalue := hvalue h @ concat (map (Cons NL) ls)\<rparr>]) r"
proof (induction ls arbitrary: n h)
  case (Cons l ls)
  obtain m where m: "n \<le> m" "stanza_loop n (hs @ [h]) (l @ NL # concat (map (\<lambda>l. l @ [NL]) ls) @ r) =
      stanza_loop m (hs @ [h\<lparr>hvalue := hvalue h @ NL # l\<rparr>]) (concat (map (\<lambda>l. l @ [NL]) ls) @ r)"
    using stanza_loop_line [of l n "hs @ [h]"] Cons.prems by (auto simp: continue_value_snoc)
  obtain k where k: "m \<le> k" "stanza_loop m (hs @ [h\<lparr>hvalue := hvalue h @ NL # l\<rparr>]) (concat (map (\<lambda>l. l @ [NL]) ls) @ r) =
      stanza_loop k (hs @ [h\<lparr>hvalue := hvalue h @ NL # l @ concat (map (Cons NL) ls)\<rparr>]) r"
    using Cons.IH [of m "h\<lparr>hvalue := hvalue h @ NL # l\<rparr>"] Cons.prems m(1) by auto
  show ?case by (rule exI [of _ k]) (use m k in simp)
qed auto

text \<open>A file of stanzas, each of which ends with an empty line.\<close>

definition reads_stanza :: "string \<Rightarrow> rfc822_header list \<Rightarrow> bool" where
  "reads_stanza s hs \<longleftrightarrow> hs \<noteq> [] \<and> (\<forall>n r. 2 \<le> n \<longrightarrow> (\<exists>m \<ge> n. stanza_loop n [] (s @ r) = Returns (hs, m, r)))"

lemma reads_headers:
  assumes "ls \<noteq> []" "\<forall>h \<in> set ls. header_ok h"
  shows "reads_stanza (concat (map header_text ls) @ [NL]) (map header_of ls)"
  unfolding reads_stanza_def
proof (intro conjI allI impI)
  fix n :: nat and r assume "2 \<le> n"
  then show "\<exists>m\<ge>n. stanza_loop n [] ((concat (map header_text ls) @ [NL]) @ r) = Returns (map header_of ls, m, r)"
    using stanza_loop_headers [OF assms(2), of n "[]" "NL # r"] by auto
qed (simp add: assms(1))

lemma rfc822_stanzas_concat:
  "list_all2 reads_stanza ss hss \<Longrightarrow> 2 \<le> n \<Longrightarrow> rfc822_stanzas n (concat ss) = Returns hss"
proof (induction arbitrary: n rule: list_all2_induct)
  case Nil
  then show ?case by (simp add: rfc822_stanzas.simps [of n "[]"] rfc822_parse_stanza_def)
next
  case (Cons s ss hs hss)
  obtain m where "n \<le> m" "stanza_loop n [] (s @ concat ss) = Returns (hs, m, concat ss)" "hs \<noteq> []"
    using Cons.hyps(1) Cons.prems by (auto simp: reads_stanza_def)
  then show ?case using Cons.IH [of m] Cons.prems
    by (simp add: rfc822_stanzas.simps [of n "s @ concat ss"] rfc822_parse_stanza_def)
qed

lemma stanzas_of_headers:
  "ls \<noteq> [] \<Longrightarrow> \<forall>h \<in> set ls. header_ok h \<Longrightarrow> 2 \<le> n \<Longrightarrow>
     rfc822_stanzas n (concat (map header_text ls) @ [NL]) = Returns [map header_of ls]"
  using rfc822_stanzas_concat [of "[concat (map header_text ls) @ [NL]]" "[map header_of ls]" n] by (simp add: reads_headers)

text \<open>The loops over the stanzas stop at two empty lines, and what follows in the file is not read.\<close>

lemma stanzas_stop_at_empty: "2 \<le> n \<Longrightarrow> rfc822_stanzas n (NL # r) = Returns []"
  by (simp add: rfc822_stanzas.simps [of n "NL # r"] rfc822_parse_stanza_def)

lemma lookup_cons [simp]:
  "rfc822_header_lookup [] key = None"
  "rfc822_header_lookup (h # hs) key =
     (if strcasecmp_eq key (header h) then Some (hvalue h) else rfc822_header_lookup hs key)"
  by (simp_all add: rfc822_header_lookup_def)

end
