(* ===== verification/Deb_Files.thy ===== *)
theory Deb_Files
  imports Deb_Rfc822 Deb_Database
begin

text \<open>
  \<^verbatim>\<open>cdebconf/src/modules/db/rfc822db/rfc822db.c\<close>: loading the databases of templates and questions from
  files and saving them.

  The disk is a map from paths to the texts of files, together with the maps it was before, in their
  order. Whether opening, closing, renaming and changing the mode of a file succeed is an argument.
  The path of a database is the value that the configuration has for it; \<open>outf\<close> is always \<open>NULL\<close> between
  two calls. A result is \<open>True\<close> for \<open>DC_OK\<close>.
\<close>

unbundle bit_operations_syntax

section \<open>Definitions\<close>

subsection \<open>The disk\<close>

record db_disk =
  files :: "string \<rightharpoonup> string"
  past :: "(string \<rightharpoonup> string) list"

record db_io =
  can_read :: "string \<Rightarrow> bool"
  can_write :: "string \<Rightarrow> bool"
  can_close :: "string \<Rightarrow> bool"
  can_chmod :: "string \<Rightarrow> bool"
  can_rename :: "string \<Rightarrow> string \<Rightarrow> bool"
  flushed :: "string \<Rightarrow> string"

definition set_files :: "(string \<rightharpoonup> string) \<Rightarrow> db_disk \<Rightarrow> db_disk" where
  "set_files f D = D\<lparr>files := f, past := past D @ [files D]\<rparr>"

text \<open>Writing a file from its start; when it cannot be closed only what was flushed is there.\<close>

definition write_file :: "db_io \<Rightarrow> string \<Rightarrow> string \<Rightarrow> db_disk \<Rightarrow> db_disk" where
  "write_file io path t D =
     (let D = set_files ((files D)(path \<mapsto> [])) D
      in set_files ((files D)(path \<mapsto> (if can_close io path then t else flushed io t))) D)"

definition rename_path :: "db_io \<Rightarrow> string \<Rightarrow> string \<Rightarrow> db_disk \<Rightarrow> db_disk" where
  "rename_path io old new D =
     (case files D old of
        None \<Rightarrow> D
      | Some t \<Rightarrow> if can_rename io old new then set_files ((files D)(old := None, new \<mapsto> t)) D else D)"

text \<open>The text of the file, when it could be opened, and the value left in \<open>retval\<close>.\<close>

definition rfc822db_file_open :: "db_io \<Rightarrow> string option \<Rightarrow> db_disk \<Rightarrow> string option \<times> bool \<times> db_disk" where
  "rfc822db_file_open io path D =
     (case path of
        None \<Rightarrow> (None, False, D)
      | Some p \<Rightarrow>
          (case files D p of
             Some t \<Rightarrow> if can_read io p then (Some t, True, D) else (None, False, D)
           | None \<Rightarrow>
               if \<not> can_write io p then (None, False, D)
               else (None, can_close io p \<and> can_chmod io p, set_files ((files D)(p \<mapsto> [])) D)))"

definition rfc822db_save :: "db_io \<Rightarrow> string \<Rightarrow> string \<Rightarrow> db_disk \<Rightarrow> bool \<times> db_disk" where
  "rfc822db_save io path t D =
     (let newpath = path @ ''-new''
      in if \<not> can_write io newpath then (False, D)
         else let D = write_file io newpath t D
              in if can_close io newpath
                 then (True, rename_path io newpath path (rename_path io path (path @ ''-old'') D))
                 else (True, D))"

subsection \<open>Templates\<close>

definition rfc822db_template_initialize :: "debconf_db \<Rightarrow> debconf_db" where
  "rfc822db_template_initialize d = d\<lparr>troot := [], tdirty := False\<rparr>"

text \<open>Shutting down frees the tree and what is in it.\<close>

definition rfc822db_template_shutdown :: "debconf_db \<Rightarrow> debconf_db" where
  "rfc822db_template_shutdown d = d\<lparr>troot := []\<rparr>"

definition load_header :: "l10n_env \<Rightarrow> rfc822_header \<Rightarrow> template \<Rightarrow> template" where
  "load_header env h t = (if header h \<noteq> ''Name'' then template_lset env None (header h) (Some (hvalue h)) t else t)"

definition load_template :: "l10n_env \<Rightarrow> rfc822_header list \<Rightarrow> debconf_db \<Rightarrow> debconf_db" where
  "load_template env hs d =
     (case rfc822_header_lookup hs ''name'' of
        None \<Rightarrow> d
      | Some name \<Rightarrow>
          (let (p, d) = template_alloc (fold (load_header env) hs (template_new (Some name))) d
           in d\<lparr>troot := tsearch (ttag (theap d)) p (troot d)\<rparr>))"

text \<open>The size of the line buffer when the program starts; it only ever grows.\<close>

definition stanza_buflen :: nat where
  "stanza_buflen = 8192"

definition rfc822db_template_load :: "db_io \<Rightarrow> l10n_env \<Rightarrow> string option \<Rightarrow> db_disk \<Rightarrow> debconf_db \<Rightarrow> (bool \<times> db_disk \<times> debconf_db) run" where
  "rfc822db_template_load io env path D d =
     (case rfc822db_file_open io path D of
        (None, r, D) \<Rightarrow> Returns (r, D, d)
      | (Some t, _, D) \<Rightarrow>
          run_bind (rfc822_stanzas stanza_buflen t) (\<lambda>hss. Returns (True, D, fold (load_template env) hss d)))"

definition reload_template :: "l10n_env \<Rightarrow> rfc822_header list \<Rightarrow> debconf_db \<Rightarrow> debconf_db" where
  "reload_template env hs d =
     (case rfc822_header_lookup hs ''name'' of
        None \<Rightarrow> d
      | Some name \<Rightarrow>
          (case rfc822db_template_get d name of
             Some p \<Rightarrow> template_upd p (\<lambda>t. fold (load_header env) hs (template_l10nclear t)) d
           | None \<Rightarrow> load_template env hs d))"

definition rfc822db_template_reload :: "db_io \<Rightarrow> l10n_env \<Rightarrow> string option \<Rightarrow> db_disk \<Rightarrow> debconf_db \<Rightarrow> (bool \<times> debconf_db) run" where
  "rfc822db_template_reload io env path D d =
     (case path of
        None \<Rightarrow> Returns (False, d)
      | Some p \<Rightarrow>
          (case files D p of
             None \<Rightarrow> Returns (False, d)
           | Some t \<Rightarrow>
               if \<not> can_read io p then Returns (False, d)
               else run_bind (rfc822_stanzas stanza_buflen t) (\<lambda>hss. Returns (True, fold (reload_template env) hss d))))"

definition template_fields_list :: "string list" where
  "template_fields_list = [''tag'', ''type'', ''default'', ''choices'', ''indices'', ''description'', ''extended_description'', ''help'']"

definition c_toupper :: "char \<Rightarrow> char" where
  "c_toupper c = (if 97 \<le> (of_char c :: nat) \<and> (of_char c :: nat) \<le> 122 then char_of ((of_char c :: nat) - 32) else c)"

definition toupper_first :: "string \<Rightarrow> string" where
  "toupper_first field = c_toupper (hd field) # tl field"

definition field_name :: "string \<Rightarrow> string" where
  "field_name field = (if field = ''tag'' then ''Name'' else toupper_first field)"

definition print_header :: "string \<Rightarrow> string \<Rightarrow> string" where
  "print_header name p = name @ '': '' @ fst (escapestr 0 p) @ [NL]"

text \<open>
  The text of a language whose pointer is not that of the untranslated text: \<open>template_lget\<close> returns
  the pointer of another entry, or falls back to the one it is compared with.
\<close>

definition translated :: "l10n_env \<Rightarrow> template \<Rightarrow> string \<Rightarrow> string \<Rightarrow> string option" where
  "translated env t lang field =
     (if field \<in> {''tag'', ''type'', ''help''} then None
      else if lang = [] then first_language t (languages env) field
      else template_get_internal t lang field)"

definition dump_language :: "l10n_env \<Rightarrow> template \<Rightarrow> string \<Rightarrow> string" where
  "dump_language env t lang =
     concat (map (\<lambda>field. case translated env t lang field of
         None \<Rightarrow> []
       | Some p \<Rightarrow> print_header (toupper_first field @ ''-'' @ (if lang = ''C'' then ''C'' else lang @ ''.UTF-8'')) p) template_fields_list)"

primrec dump_languages :: "nat \<Rightarrow> l10n_env \<Rightarrow> template \<Rightarrow> string option \<Rightarrow> string run" where
  "dump_languages 0 env t lang = (case lang of None \<Rightarrow> Returns [] | Some _ \<Rightarrow> Hangs)"
| "dump_languages (Suc n) env t lang =
     (case lang of
        None \<Rightarrow> Returns []
      | Some l \<Rightarrow>
          run_bind (dump_languages n env t (template_next_lang t (Some l))) (\<lambda>r. Returns (dump_language env t l @ r)))"

text \<open>
  \<open>template_next_lang\<close> depends on the language only, so a walk longer than the list of entries repeats
  itself for ever.
\<close>

definition rfc822db_template_dump :: "l10n_env \<Rightarrow> template \<Rightarrow> string run" where
  "rfc822db_template_dump env t =
     run_bind (dump_languages (length (l10n_rest t) + 1) env t (template_next_lang t None)) (\<lambda>r.
       Returns (concat (map (\<lambda>field. case template_lget env t None field of
           None \<Rightarrow> []
         | Some p \<Rightarrow> print_header (field_name field) p) template_fields_list) @ r @ [NL]))"

fun twalk_dump :: "('p \<Rightarrow> string run) \<Rightarrow> 'p list \<Rightarrow> string run" where
  "twalk_dump dump [] = Returns []"
| "twalk_dump dump (p # ps) = run_bind (dump p) (\<lambda>t. run_bind (twalk_dump dump ps) (\<lambda>r. Returns (t @ r)))"

definition rfc822db_template_save :: "db_io \<Rightarrow> l10n_env \<Rightarrow> string option \<Rightarrow> debconf_db \<Rightarrow> db_disk \<Rightarrow> (bool \<times> db_disk) run" where
  "rfc822db_template_save io env path d D =
     (case path of
        None \<Rightarrow> Returns (False, D)
      | Some p \<Rightarrow>
          if \<not> tdirty d \<and> files D p \<noteq> None then Returns (True, D)
          else run_bind (twalk_dump (\<lambda>t. rfc822db_template_dump env (theap d t)) (troot d)) (\<lambda>t. Returns (rfc822db_save io p t D)))"

definition rfc822db_template_iterate :: "debconf_db \<Rightarrow> template list" where
  "rfc822db_template_iterate d = map (\<lambda>p. template_dup (theap d p)) (troot d)"

subsection \<open>Questions\<close>

definition rfc822db_question_initialize :: "debconf_db \<Rightarrow> debconf_db" where
  "rfc822db_question_initialize d = d\<lparr>qroot := [], qdirty := False\<rparr>"

definition rfc822db_question_shutdown :: "debconf_db \<Rightarrow> debconf_db" where
  "rfc822db_question_shutdown d = d\<lparr>qroot := []\<rparr>"

text \<open>Without an equals sign \<open>delim\<close> is moved behind the end of the string.\<close>

function variables_loop :: "string \<Rightarrow> question \<Rightarrow> question run" where
  "variables_loop wc q =
     (if wc = [] then Returns q
      else let delim = dropWhile (\<lambda>c. c \<noteq> CHR ''='') wc
           in if delim = [] then Died
              else let var = strstrip (takeWhile (\<lambda>c. c \<noteq> CHR ''='') wc);
                       val = strstrip (takeWhile (\<lambda>c. c \<noteq> NL) (tl delim));
                       q = question_variable_add var val q;
                       delim = dropWhile (\<lambda>c. c \<noteq> NL) (tl delim)
                   in if delim = [] then Returns q
                      else variables_loop (dropWhile (\<lambda>c. c = SP \<or> c = TAB) (tl delim)) q)"
  by pat_completeness auto
termination
proof (relation "measure (\<lambda>(wc, q). length wc)", goal_cases)
  case (2 wc q d var val q' e)
  have "length (dropWhile (\<lambda>c. c = SP \<or> c = TAB) (tl e)) \<le> length (tl e)" by (rule length_dropWhile_le)
  moreover have "length e \<le> length (tl d)" "length d \<le> length wc" unfolding 2 by (rule length_dropWhile_le)+
  moreover have "0 < length d" "0 < length e" using 2 by auto
  ultimately have "length (dropWhile (\<lambda>c. c = SP \<or> c = TAB) (tl e)) < length wc" by (simp only: length_tl)
  then show ?case by simp
qed simp

declare variables_loop.simps [simp del]

definition parse_variables :: "string option \<Rightarrow> question \<Rightarrow> question run" where
  "parse_variables v q = (case v of None \<Rightarrow> Returns q | Some s \<Rightarrow> variables_loop s q)"

text \<open>The items between commas, without the blanks that follow a comma.\<close>

function comma_items :: "string \<Rightarrow> string list" where
  "comma_items wc =
     (let delim = dropWhile (\<lambda>c. c \<noteq> CHR '','') wc
      in takeWhile (\<lambda>c. c \<noteq> CHR '','') wc #
         (if delim = [] then [] else comma_items (dropWhile (\<lambda>c. c = SP \<or> c = TAB) (tl delim))))"
  by pat_completeness auto
termination
proof (relation "measure length", goal_cases)
  case (2 wc d)
  have "length (dropWhile (\<lambda>c. c = SP \<or> c = TAB) (tl d)) \<le> length (tl d)" by (rule length_dropWhile_le)
  moreover have "length d \<le> length wc" unfolding 2 by (rule length_dropWhile_le)
  moreover have "0 < length d" using 2 by auto
  ultimately have "length (dropWhile (\<lambda>c. c = SP \<or> c = TAB) (tl d)) < length wc" by (simp only: length_tl)
  then show ?case by simp
qed simp

declare comma_items.simps [simp del]

definition parse_owners :: "string option \<Rightarrow> question \<Rightarrow> question" where
  "parse_owners v q = (case v of None \<Rightarrow> q | Some s \<Rightarrow> fold question_owner_add (comma_items s) q)"

definition parse_flags :: "string option \<Rightarrow> question \<Rightarrow> question" where
  "parse_flags v q = (case v of None \<Rightarrow> q | Some s \<Rightarrow> fold question_set_flag (comma_items s) q)"

text \<open>Looking up a missing name compares with a null pointer unless the tree is empty.\<close>

definition stanza_template :: "debconf_db \<Rightarrow> string option \<Rightarrow> tmpl_ptr option run" where
  "stanza_template d name =
     (case name of
        None \<Rightarrow> if troot d = [] then Returns None else Died
      | Some n \<Rightarrow> Returns (rfc822db_template_get d n))"

definition attach_template :: "string \<Rightarrow> tmpl_ptr option \<Rightarrow> debconf_db \<Rightarrow> tmpl_ptr \<times> debconf_db" where
  "attach_template name t d =
     (case t of
        Some p \<Rightarrow> (p, d)
      | None \<Rightarrow> let (p, d) = template_alloc (template_new (Some name)) d in (p, rfc822db_template_set p d))"

definition load_question :: "rfc822_header list \<Rightarrow> debconf_db \<Rightarrow> debconf_db run" where
  "load_question hs d =
     (case rfc822_header_lookup hs ''name'' of
        None \<Rightarrow> Returns d
      | Some name \<Rightarrow>
          if name = [] then Returns d
          else let q = question_setvalue (rfc822_header_lookup hs ''value'') (question_new name);
                   q = parse_owners (rfc822_header_lookup hs ''owners'') (parse_flags (rfc822_header_lookup hs ''flags'') q)
               in run_bind (parse_variables (rfc822_header_lookup hs ''variables'') q) (\<lambda>q.
                  run_bind (stanza_template d (rfc822_header_lookup hs ''template'')) (\<lambda>t.
                    let (t, d) = attach_template name t d;
                        (p, d) = question_alloc (q\<lparr>qtemplate := Some t\<rparr>) d
                    in Returns (d\<lparr>qroot := tsearch (qkey d) p (qroot d)\<rparr>))))"

fun load_questions :: "rfc822_header list list \<Rightarrow> debconf_db \<Rightarrow> debconf_db run" where
  "load_questions [] d = Returns d"
| "load_questions (hs # hss) d = run_bind (load_question hs d) (load_questions hss)"

definition rfc822db_question_load :: "db_io \<Rightarrow> string option \<Rightarrow> db_disk \<Rightarrow> debconf_db \<Rightarrow> (bool \<times> db_disk \<times> debconf_db) run" where
  "rfc822db_question_load io path D d =
     (case rfc822db_file_open io path D of
        (None, r, D) \<Rightarrow> Returns (r, D, d)
      | (Some t, _, D) \<Rightarrow>
          run_bind (rfc822_stanzas stanza_buflen t) (\<lambda>hss.
          run_bind (load_questions hss d) (\<lambda>d. Returns (True, D, d))))"

fun print_owners :: "string list \<Rightarrow> string" where
  "print_owners [] = []"
| "print_owners [owner] = fst (escapestr 0 owner)"
| "print_owners (owner # os) = fst (escapestr 0 owner) @ '', '' @ print_owners os"

definition print_variable :: "string \<times> string \<Rightarrow> string" where
  "print_variable v = '' '' @ fst (escapestr 0 (fst v)) @ '' = '' @ fst (escapestr 0 (snd v)) @ [NL]"

definition rfc822db_question_dump :: "debconf_db \<Rightarrow> question \<Rightarrow> string run" where
  "rfc822db_question_dump d q =
     (case qtemplate q of
        None \<Rightarrow> Died
      | Some t \<Rightarrow> Returns (
          print_header ''Name'' (qtag q) @
          print_header ''Template'' (ttag (theap d) t) @
          (case qvalue q of None \<Rightarrow> [] | Some v \<Rightarrow> print_header ''Value'' v) @
          (if owners q = [] then [] else ''Owners: '' @ print_owners (owners q) @ [NL]) @
          (if question_get_flag q DC_QFLAG_SEEN \<noteq> 0 then ''Flags: seen'' @ [NL] else []) @
          (if variables q = [] then [] else ''Variables:'' @ NL # concat (map print_variable (variables q))) @
          [NL]))"

definition rfc822db_question_save :: "db_io \<Rightarrow> string option \<Rightarrow> debconf_db \<Rightarrow> db_disk \<Rightarrow> (bool \<times> db_disk) run" where
  "rfc822db_question_save io path d D =
     (case path of
        None \<Rightarrow> Returns (False, D)
      | Some p \<Rightarrow>
          if \<not> qdirty d \<and> files D p \<noteq> None then Returns (True, D)
          else run_bind (twalk_dump (\<lambda>q. rfc822db_question_dump d (qheap d q)) (qroot d)) (\<lambda>t. Returns (rfc822db_save io p t D)))"

end
