(* ===== verification/Deb_Saved.thy ===== *)
theory Deb_Saved
  imports Deb_Files
begin

text \<open>
  What the files of the databases preserve. A saved database that is loaded again has the same
  questions and templates; saving keeps a whole copy of the database on the disk at every moment; and
  changes that do not set the flag \<open>dirty\<close> are not saved.
\<close>

section \<open>Items and variables\<close>

lemma escapestr_eq [simp]: "fst (escapestr n s) = escaped s"
  by (rule escapestr_all)

lemma print_header_text [simp]: "print_header name p = header_text (name, p)"
  by (simp add: print_header_def header_text_def)

text \<open>The text of a list of owners.\<close>

fun owner_list :: "string list \<Rightarrow> string" where
  "owner_list [] = []"
| "owner_list [x] = x"
| "owner_list (x # xs) = x @ '', '' @ owner_list xs"

lemma print_owners_list: "print_owners xs = escaped (owner_list xs)"
  by (induction xs rule: print_owners.induct) auto

definition item_ok :: "string \<Rightarrow> bool" where
  "item_ok x \<longleftrightarrow> x \<noteq> [] \<and> \<not> c_isspace (hd x) \<and> CHR '','' \<notin> set x \<and> no_escape x"

lemma no_escape_comma: "no_escape x \<Longrightarrow> no_escape y \<Longrightarrow> no_escape (x @ CHR '','' # SP # y)"
  by (induction x rule: no_escape.induct; cases y) auto

lemma owner_list_survives: "xs \<noteq> [] \<Longrightarrow> \<forall>x \<in> set xs. item_ok x \<Longrightarrow> survives (owner_list xs)"
proof (induction xs rule: owner_list.induct)
  case (3 x y ys)
  then have "no_escape (owner_list (x # y # ys))" by (auto simp: item_ok_def survives_def intro: no_escape_comma)
  moreover have "x \<noteq> []" "\<not> c_isspace (hd x)" using 3(3) by (auto simp: item_ok_def)
  ultimately show ?case by (cases x) (auto simp: survives_def)
qed (auto simp: item_ok_def survives_def)

lemma comma_items_list: "xs \<noteq> [] \<Longrightarrow> \<forall>x \<in> set xs. item_ok x \<Longrightarrow> comma_items (owner_list xs) = xs"
proof (induction xs rule: owner_list.induct)
  case (2 x)
  then have "dropWhile (\<lambda>c. c \<noteq> CHR '','') x = []" "takeWhile (\<lambda>c. c \<noteq> CHR '','') x = x"
    by (auto simp: item_ok_def takeWhile_eq_all_conv dropWhile_eq_Nil_conv)
  then show ?case by (simp add: comma_items.simps [of x])
next
  case (3 x y ys)
  let ?r = "owner_list (y # ys)"
  have x: "\<forall>c \<in> set x. c \<noteq> CHR '',''" using 3(3) by (auto simp: item_ok_def)
  have y: "y \<noteq> []" "\<not> c_isspace (hd y)" using 3(3) by (auto simp: item_ok_def)
  then have "?r \<noteq> []" "hd ?r = hd y" by (cases ys; cases y; simp)+
  with y(2) have "dropWhile (\<lambda>c. c = SP \<or> c = TAB) ?r = ?r"
    by (cases ?r) (auto simp: c_isspace_def)
  moreover have "comma_items ?r = y # ys" using 3 by simp
  ultimately show ?case
    using x by (simp add: comma_items.simps [of "x @ CHR '','' # SP # ?r"] takeWhile_append2 dropWhile_append2)
qed simp

text \<open>A text that is left alone by \<open>strstrip\<close>.\<close>

definition stripped :: "string \<Rightarrow> bool" where
  "stripped s \<longleftrightarrow> s = [] \<or> \<not> c_isspace (hd s) \<and> \<not> c_isspace (last s)"

lemma strstrip_around:
  assumes "stripped s" "\<forall>c \<in> set w. c_isspace c" "\<forall>c \<in> set u. c_isspace c"
  shows "strstrip (w @ s @ u) = s"
proof (cases "s = []")
  case True
  then show ?thesis using assms by (simp add: strstrip_def dropWhile_eq_Nil_conv)
next
  case False
  then obtain a b where s: "s = a # b" "\<not> c_isspace a" using assms(1) by (cases s) (auto simp: stripped_def)
  obtain x y where r: "rev s = x # y" "\<not> c_isspace x"
    using False assms(1) by (cases s rule: rev_cases) (auto simp: stripped_def)
  have "dropWhile c_isspace (w @ s @ u) = s @ u" using assms(2) s by (simp add: dropWhile_append2)
  moreover have "dropWhile c_isspace (rev u @ rev s) = rev s"
    unfolding r(1) by (subst dropWhile_append2) (use assms(3) r(2) in auto)
  ultimately show ?thesis using s by (simp add: strstrip_def Let_def)
qed

definition variable_ok :: "string \<times> string \<Rightarrow> bool" where
  "variable_ok v \<longleftrightarrow> fst v \<noteq> [] \<and> stripped (fst v) \<and> CHR ''='' \<notin> set (fst v) \<and> NL \<notin> set (fst v) \<and>
     stripped (snd v) \<and> NL \<notin> set (snd v)"

definition variable_line :: "string \<times> string \<Rightarrow> string" where
  "variable_line v = SP # fst v @ '' = '' @ snd v"

lemma print_variable_line: "variable_ok v \<Longrightarrow> print_variable v = variable_line v @ [NL]"
  by (simp add: print_variable_def variable_line_def variable_ok_def escaped_id)

lemma variables_loop_step:
  assumes "variable_ok v" "\<forall>c \<in> set w. c_isspace c \<and> c \<noteq> CHR ''=''" "r = [] \<or> hd r = NL"
  shows "variables_loop (w @ fst v @ '' = '' @ snd v @ r) q =
    (let q = question_variable_add (fst v) (snd v) q
     in if r = [] then Returns q else variables_loop (dropWhile (\<lambda>c. c = SP \<or> c = TAB) (tl r)) q)"
proof -
  let ?x = "fst v" and ?y = "snd v"
  have x: "\<forall>c \<in> set (w @ ?x @ [SP]). c \<noteq> CHR ''=''" "?x \<noteq> []" "stripped ?x"
    and y: "\<forall>c \<in> set (SP # ?y). c \<noteq> NL" "stripped ?y"
    using assms(1,2) by (auto simp: variable_ok_def)
  have "w @ ?x @ '' = '' @ ?y @ r = (w @ ?x @ [SP]) @ CHR ''='' # SP # ?y @ r" by simp
  then have d: "dropWhile (\<lambda>c. c \<noteq> CHR ''='') (w @ ?x @ '' = '' @ ?y @ r) = CHR ''='' # SP # ?y @ r"
    "takeWhile (\<lambda>c. c \<noteq> CHR ''='') (w @ ?x @ '' = '' @ ?y @ r) = w @ ?x @ [SP]"
    using x(1) by (simp_all only: dropWhile_append2 takeWhile_append2) simp_all
  have n: "dropWhile (\<lambda>c. c \<noteq> NL) (SP # ?y @ r) = r" "takeWhile (\<lambda>c. c \<noteq> NL) (SP # ?y @ r) = SP # ?y"
  proof -
    have "dropWhile (\<lambda>c. c \<noteq> NL) r = r" "takeWhile (\<lambda>c. c \<noteq> NL) r = []" using assms(3) by (cases r; simp)+
    then show "dropWhile (\<lambda>c. c \<noteq> NL) (SP # ?y @ r) = r" "takeWhile (\<lambda>c. c \<noteq> NL) (SP # ?y @ r) = SP # ?y"
      using y(1) by (simp_all add: dropWhile_append2 takeWhile_append2)
  qed
  have sp: "c_isspace SP" by (simp add: c_isspace_def)
  have "strstrip (w @ ?x @ [SP]) = ?x" using strstrip_around [OF x(3), of w "[SP]"] assms(2) sp by simp
  moreover have "strstrip (SP # ?y) = ?y" using strstrip_around [OF y(2), of "[SP]" "[]"] sp by simp
  moreover have "w @ ?x @ '' = '' @ ?y @ r \<noteq> []" by simp
  ultimately show ?thesis
    unfolding variables_loop.simps [of "w @ ?x @ '' = '' @ ?y @ r"] d Let_def list.sel(3) n by simp
qed

lemma variables_loop_lines:
  assumes "\<forall>v \<in> set (v # vs). variable_ok v" "\<forall>c \<in> set w. c_isspace c \<and> c \<noteq> CHR ''=''"
  shows "variables_loop (w @ fst v @ '' = '' @ snd v @ concat (map (\<lambda>v. NL # variable_line v) vs)) q =
    Returns (fold (\<lambda>(var, val). question_variable_add var val) (v # vs) q)"
  using assms
proof (induction vs arbitrary: v w q)
  case Nil
  then show ?case using variables_loop_step [of v w "[]"] by (cases v) simp
next
  case (Cons u vs)
  let ?r = "concat (map (\<lambda>v. NL # variable_line v) vs)"
  have u: "fst u \<noteq> []" "\<not> c_isspace (hd (fst u))" using Cons.prems(1) by (auto simp: variable_ok_def stripped_def)
  have "dropWhile (\<lambda>c. c = SP \<or> c = TAB) (variable_line u @ ?r) = [] @ fst u @ '' = '' @ snd u @ ?r"
    using u by (cases "fst u") (auto simp: variable_line_def c_isspace_def)
  moreover have "variables_loop ([] @ fst u @ '' = '' @ snd u @ ?r) (question_variable_add (fst v) (snd v) q) =
      Returns (fold (\<lambda>(var, val). question_variable_add var val) (u # vs) (question_variable_add (fst v) (snd v) q))"
    by (rule Cons.IH) (use Cons.prems(1) in auto)
  ultimately show ?case
    using variables_loop_step [of v w "NL # variable_line u @ ?r" q] Cons.prems by (cases v) (simp add: Let_def)
qed

lemma parse_variables_lines:
  assumes "vs \<noteq> []" "\<forall>v \<in> set vs. variable_ok v"
  shows "parse_variables (Some (concat (map (\<lambda>v. NL # variable_line v) vs))) q =
    Returns (fold (\<lambda>(var, val). question_variable_add var val) vs q)"
proof (cases vs)
  case (Cons v us)
  have "\<forall>c \<in> set [NL, SP]. c_isspace c \<and> c \<noteq> CHR ''=''" by (simp add: c_isspace_def)
  from variables_loop_lines [OF assms(2) [unfolded Cons] this] show ?thesis
    by (simp add: parse_variables_def variable_line_def Cons)
qed (use assms in simp)

section \<open>Questions\<close>

definition question_savable :: "debconf_db \<Rightarrow> question \<Rightarrow> bool" where
  "question_savable d q \<longleftrightarrow> question_ok q \<and> qtag q \<noteq> [] \<and> survives (qtag q) \<and>
     (case qtemplate q of None \<Rightarrow> False | Some t \<Rightarrow> survives (ttag (theap d) t)) \<and>
     (case qvalue q of None \<Rightarrow> True | Some v \<Rightarrow> survives v) \<and>
     (\<forall>x \<in> set (owners q). item_ok x) \<and> (\<forall>v \<in> set (variables q). variable_ok v)"

definition question_fields :: "debconf_db \<Rightarrow> question \<Rightarrow> (string \<times> string) list" where
  "question_fields d q =
     [(''Name'', qtag q), (''Template'', ttag (theap d) (the (qtemplate q)))] @
     (case qvalue q of None \<Rightarrow> [] | Some v \<Rightarrow> [(''Value'', v)]) @
     (if owners q = [] then [] else [(''Owners'', owner_list (owners q))]) @
     (if question_get_flag q DC_QFLAG_SEEN \<noteq> 0 then [(''Flags'', ''seen'')] else [])"

definition question_headers :: "debconf_db \<Rightarrow> question \<Rightarrow> rfc822_header list" where
  "question_headers d q = map header_of (question_fields d q) @
     (if variables q = [] then [] else [\<lparr>header = ''Variables'', hvalue = concat (map (\<lambda>v. NL # variable_line v) (variables q))\<rparr>])"

lemma survives_seen: "survives ''seen''"
  by (simp add: survives_def c_isspace_def)

lemma question_fields_ok: "question_savable d q \<Longrightarrow> \<forall>h \<in> set (question_fields d q). header_ok h"
  by (auto simp: question_fields_def question_savable_def header_ok_def c_isspace_def survives_seen owner_list_survives
      split: option.splits)

lemma variables_header:
  assumes "2 \<le> n"
  shows "\<exists>m \<ge> n. stanza_loop n hs (''Variables:'' @ NL # r) = stanza_loop m (hs @ [\<lparr>header = ''Variables'', hvalue = []\<rparr>]) r"
proof -
  have h: "header_line True ''Variables:'' = Returns \<lparr>header = ''Variables'', hvalue = []\<rparr>" by code_simp
  have "NL \<notin> set ''Variables:''" "''Variables:'' \<noteq> []" "\<not> c_isspace (hd ''Variables:'')" by (simp_all add: c_isspace_def)
  with stanza_loop_line [OF this(1,2) assms, of hs r] h show ?thesis by auto
qed

lemma question_dump_reads:
  assumes "question_savable d q"
  shows "\<exists>s. rfc822db_question_dump d q = Returns s \<and> reads_stanza s (question_headers d q)"
proof -
  let ?vs = "map variable_line (variables q)"
  define vt where "vt = (if variables q = [] then [] else ''Variables:'' @ NL # concat (map (\<lambda>l. l @ [NL]) ?vs))"
  define s where "s = concat (map header_text (question_fields d q)) @ vt @ [NL]"
  have "concat (map print_variable (variables q)) = concat (map (\<lambda>l. l @ [NL]) ?vs)"
    using assms by (auto simp: question_savable_def print_variable_line intro!: arg_cong [where f = concat])
  then have dump: "rfc822db_question_dump d q = Returns s"
    using assms by (auto simp: rfc822db_question_dump_def question_savable_def s_def vt_def question_fields_def
        print_owners_list header_text_def split: option.splits)
  have "reads_stanza s (question_headers d q)"
    unfolding reads_stanza_def
  proof (intro conjI allI impI)
    show "question_headers d q \<noteq> []" by (simp add: question_headers_def question_fields_def)
    fix n :: nat and r assume n: "2 \<le> n"
    let ?hs = "map header_of (question_fields d q)"
    obtain m where m: "n \<le> m" "stanza_loop n [] (s @ r) = stanza_loop m ?hs (vt @ NL # r)"
      using stanza_loop_headers [OF question_fields_ok [OF assms] n, of "[]" "vt @ NL # r"] by (auto simp: s_def)
    show "\<exists>m\<ge>n. stanza_loop n [] (s @ r) = Returns (question_headers d q, m, r)"
    proof (cases "variables q = []")
      case True
      then show ?thesis using m n by (auto simp: vt_def question_headers_def)
    next
      case False
      obtain k where k: "m \<le> k" "stanza_loop m ?hs (vt @ NL # r) =
          stanza_loop k (?hs @ [\<lparr>header = ''Variables'', hvalue = []\<rparr>]) (concat (map (\<lambda>l. l @ [NL]) ?vs) @ NL # r)"
        using variables_header [of m ?hs "concat (map (\<lambda>l. l @ [NL]) ?vs) @ NL # r"] False m(1) n by (auto simp: vt_def)
      have "\<forall>l \<in> set ?vs. l \<noteq> [] \<and> c_isspace (hd l) \<and> NL \<notin> set l"
        using assms by (auto simp: variable_line_def question_savable_def variable_ok_def c_isspace_def)
      from stanza_loop_continued [OF this, of k ?hs "\<lparr>header = ''Variables'', hvalue = []\<rparr>" "NL # r"] m(1) k(1) n
      obtain j where "k \<le> j" "stanza_loop k (?hs @ [\<lparr>header = ''Variables'', hvalue = []\<rparr>]) (concat (map (\<lambda>l. l @ [NL]) ?vs) @ NL # r) =
          stanza_loop j (?hs @ [\<lparr>header = ''Variables'', hvalue = concat (map (Cons NL) ?vs)\<rparr>]) (NL # r)"
        by auto
      with m k n show ?thesis using False by (auto simp: question_headers_def comp_def)
    qed
  qed
  with dump show ?thesis by blast
qed

lemma question_keys [simp]:
  "strcasecmp_eq ''name'' ''Name''" "\<not> strcasecmp_eq ''value'' ''Name''" "\<not> strcasecmp_eq ''value'' ''Template''"
  "strcasecmp_eq ''value'' ''Value''" "\<not> strcasecmp_eq ''value'' ''Owners''" "\<not> strcasecmp_eq ''value'' ''Flags''"
  "\<not> strcasecmp_eq ''value'' ''Variables''" "\<not> strcasecmp_eq ''flags'' ''Name''" "\<not> strcasecmp_eq ''flags'' ''Template''"
  "\<not> strcasecmp_eq ''flags'' ''Value''" "\<not> strcasecmp_eq ''flags'' ''Owners''" "strcasecmp_eq ''flags'' ''Flags''"
  "\<not> strcasecmp_eq ''flags'' ''Variables''" "\<not> strcasecmp_eq ''owners'' ''Name''" "\<not> strcasecmp_eq ''owners'' ''Template''"
  "\<not> strcasecmp_eq ''owners'' ''Value''" "strcasecmp_eq ''owners'' ''Owners''" "\<not> strcasecmp_eq ''owners'' ''Flags''"
  "\<not> strcasecmp_eq ''owners'' ''Variables''" "\<not> strcasecmp_eq ''variables'' ''Name''"
  "\<not> strcasecmp_eq ''variables'' ''Template''" "\<not> strcasecmp_eq ''variables'' ''Value''"
  "\<not> strcasecmp_eq ''variables'' ''Owners''" "\<not> strcasecmp_eq ''variables'' ''Flags''"
  "strcasecmp_eq ''variables'' ''Variables''" "\<not> strcasecmp_eq ''template'' ''Name''" "strcasecmp_eq ''template'' ''Template''"
  by (simp_all add: strcasecmp_eq_def c_tolower_eval)

lemma lookup_append:
  "rfc822_header_lookup (hs @ ks) key =
     (case rfc822_header_lookup hs key of None \<Rightarrow> rfc822_header_lookup ks key | Some v \<Rightarrow> Some v)"
  by (induction hs) auto

lemma question_lookups:
  "rfc822_header_lookup (question_headers d q) ''name'' = Some (qtag q)"
  "rfc822_header_lookup (question_headers d q) ''template'' = Some (ttag (theap d) (the (qtemplate q)))"
  "rfc822_header_lookup (question_headers d q) ''value'' = qvalue q"
  "rfc822_header_lookup (question_headers d q) ''owners'' = (if owners q = [] then None else Some (owner_list (owners q)))"
  "rfc822_header_lookup (question_headers d q) ''flags'' = (if question_get_flag q DC_QFLAG_SEEN \<noteq> 0 then Some ''seen'' else None)"
  "rfc822_header_lookup (question_headers d q) ''variables'' =
     (if variables q = [] then None else Some (concat (map (\<lambda>v. NL # variable_line v) (variables q))))"
  by (auto simp: question_headers_def question_fields_def lookup_append split: option.splits)

text \<open>
  What is left of a question: of the flags only \<open>seen\<close>, and no priority. Its template is the one with the
  same tag in the database that it is loaded into.
\<close>

definition saved_question :: "question \<Rightarrow> question" where
  "saved_question q = q\<lparr>flags := flags q AND 1, priority := None\<rparr>"

definition restored :: "debconf_db \<Rightarrow> debconf_db \<Rightarrow> question \<Rightarrow> question" where
  "restored d d0 q = (saved_question q)\<lparr>qtemplate := rfc822db_template_get d0 (ttag (theap d) (the (qtemplate q)))\<rparr>"

lemma seen_flag: "question_get_flag q DC_QFLAG_SEEN = flags q AND 1"
  by (simp add: question_get_flag_def flag_value_def)

lemma parse_flags_seen:
  "parse_flags (if question_get_flag q DC_QFLAG_SEEN \<noteq> 0 then Some ''seen'' else None) r =
     r\<lparr>flags := flags r OR (flags q AND 1)\<rparr>"
proof -
  have "comma_items ''seen'' = [''seen'']" by (simp add: comma_items.simps)
  moreover have "flags q AND 1 \<noteq> 0 \<Longrightarrow> flags q AND 1 = 1" by (simp add: and_one_eq)
  ultimately show ?thesis
    unfolding seen_flag by (auto simp: parse_flags_def question_set_flag_def flag_value_def DC_QFLAG_SEEN_def)
qed

lemma parse_owners_list:
  assumes "\<forall>x \<in> set xs. item_ok x" "distinct xs" "owners r = []"
  shows "parse_owners (if xs = [] then None else Some (owner_list xs)) r = r\<lparr>owners := xs\<rparr>"
  using assms fold_owner_add [of "[]" xs] by (simp add: parse_owners_def comma_items_list question_owner_add_fold)

lemma parse_variables_list:
  assumes "\<forall>v \<in> set vs. variable_ok v" "distinct (map fst vs)" "variables r = []"
  shows "parse_variables (if vs = [] then None else Some (concat (map (\<lambda>v. NL # variable_line v) vs))) r = Returns (r\<lparr>variables := vs\<rparr>)"
proof (cases "vs = []")
  case True
  then show ?thesis using assms(3) by (simp add: parse_variables_def)
next
  case False
  then show ?thesis
    using parse_variables_lines [OF False assms(1), of r] assms(3) fold_variable_add [of "[]" vs] assms(2)
    by (simp add: question_variable_add_fold)
qed

lemma load_question_saved:
  assumes "question_savable d q" "rfc822db_template_get d0 (ttag (theap d) (the (qtemplate q))) \<noteq> None"
  shows "load_question (question_headers d q) d0 =
    (let (p, d1) = question_alloc (restored d d0 q) d0 in Returns (d1\<lparr>qroot := tsearch (qkey d1) p (qroot d1)\<rparr>))"
proof -
  obtain t where t: "rfc822db_template_get d0 (ttag (theap d) (the (qtemplate q))) = Some t" using assms(2) by blast
  have q: "qtag q \<noteq> []" "\<forall>x \<in> set (owners q). item_ok x" "\<forall>v \<in> set (variables q). variable_ok v" "distinct (owners q)"
    "distinct (map fst (variables q))"
    using assms(1) by (auto simp: question_savable_def question_ok_def)
  let ?q = "(question_new (qtag q))\<lparr>qvalue := qvalue q, flags := flags q AND 1, owners := owners q, variables := variables q\<rparr>"
  have "?q\<lparr>qtemplate := Some t\<rparr> = restored d d0 q"
    by (simp add: restored_def saved_question_def t question_new_def)
  moreover have "parse_variables (rfc822_header_lookup (question_headers d q) ''variables'')
      (parse_owners (rfc822_header_lookup (question_headers d q) ''owners'')
        (parse_flags (rfc822_header_lookup (question_headers d q) ''flags'')
          (question_setvalue (rfc822_header_lookup (question_headers d q) ''value'') (question_new (qtag q))))) = Returns ?q"
    unfolding question_lookups parse_flags_seen
    using q by (simp add: parse_owners_list parse_variables_list question_setvalue_def question_new_def)
  ultimately show ?thesis
    unfolding load_question_def question_lookups(1)
    by (simp add: q(1) Let_def question_lookups(2) stanza_template_def t attach_template_def)
qed

lemma tsearch_last: "\<forall>x \<in> set ps. strkey (key x) < strkey (key p) \<Longrightarrow> tsearch key p ps = ps @ [p]"
  by (induction ps) (auto dest: less_imp_neq less_not_sym)

lemma load_questions_saved:
  assumes "\<forall>p \<in> set ps. question_savable d (qheap d p) \<and>
      rfc822db_template_get d0 (ttag (theap d) (the (qtemplate (qheap d p)))) \<noteq> None"
    and "ordered (qkey d) ps"
    and "\<forall>x \<in> set (qroot d0). x < qnext d0 \<and> (\<forall>p \<in> set ps. strkey (qkey d0 x) < strkey (qkey d p))"
  shows "\<exists>d1. load_questions (map (\<lambda>p. question_headers d (qheap d p)) ps) d0 = Returns d1 \<and>
    map (qheap d1) (qroot d1) = map (qheap d0) (qroot d0) @ map (\<lambda>p. restored d d0 (qheap d p)) ps \<and>
    theap d1 = theap d0 \<and> troot d1 = troot d0"
  using assms
proof (induction ps arbitrary: d0)
  case (Cons p ps)
  let ?q = "restored d d0 (qheap d p)"
  define d1 where "d1 = d0\<lparr>qheap := (qheap d0)(qnext d0 := ?q), qnext := qnext d0 + 1, qroot := qroot d0 @ [qnext d0]\<rparr>"
  have tag: "qtag ?q = qkey d p" by (simp add: restored_def saved_question_def qkey_def)
  have old: "\<forall>x \<in> set (qroot d0). qkey d1 x = qkey d0 x" using Cons.prems(3) by (auto simp: d1_def qkey_def)
  have new: "qkey d1 (qnext d0) = qkey d p" by (simp add: d1_def qkey_def [of d1] tag [symmetric]) (simp add: qkey_def)
  have get: "rfc822db_template_get d1 = rfc822db_template_get d0" "restored d d1 = restored d d0"
    by (simp_all add: d1_def rfc822db_template_get_def restored_def fun_eq_iff)
  have "tsearch (qkey d1) (qnext d0) (qroot d0) = qroot d0 @ [qnext d0]"
    by (rule tsearch_last) (use old new Cons.prems(3) in simp)
  moreover have "qkey (d0\<lparr>qheap := (qheap d0)(qnext d0 := ?q), qnext := qnext d0 + 1\<rparr>) = qkey d1"
    by (simp add: fun_eq_iff qkey_def d1_def)
  ultimately have load: "load_question (question_headers d (qheap d p)) d0 = Returns d1"
    using load_question_saved [of d "qheap d p" d0] Cons.prems(1) by (simp add: question_alloc_def d1_def)
  have "\<exists>d2. load_questions (map (\<lambda>p. question_headers d (qheap d p)) ps) d1 = Returns d2 \<and>
      map (qheap d2) (qroot d2) = map (qheap d1) (qroot d1) @ map (\<lambda>p. restored d d1 (qheap d p)) ps \<and>
      theap d2 = theap d1 \<and> troot d2 = troot d1"
  proof (rule Cons.IH)
    show "\<forall>p \<in> set ps. question_savable d (qheap d p) \<and> rfc822db_template_get d1 (ttag (theap d) (the (qtemplate (qheap d p)))) \<noteq> None"
      using Cons.prems(1) by (simp add: get)
    show "ordered (qkey d) ps" using Cons.prems(2) by (simp add: ordered_def)
    show "\<forall>x \<in> set (qroot d1). x < qnext d1 \<and> (\<forall>p \<in> set ps. strkey (qkey d1 x) < strkey (qkey d p))"
    proof
      fix x assume x: "x \<in> set (qroot d1)"
      then consider "x \<in> set (qroot d0)" | "x = qnext d0" by (auto simp: d1_def)
      then show "x < qnext d1 \<and> (\<forall>p \<in> set ps. strkey (qkey d1 x) < strkey (qkey d p))"
      proof cases
        case 1
        then show ?thesis using Cons.prems(3) old by (auto simp: d1_def less_Suc_eq)
      next
        case 2
        then show ?thesis using new Cons.prems(2) by (simp add: ordered_def) (simp add: d1_def)
      qed
    qed
  qed
  moreover have "map (qheap d1) (qroot d1) = map (qheap d0) (qroot d0) @ [?q]" "theap d1 = theap d0" "troot d1 = troot d0"
    using Cons.prems(3) by (auto simp: d1_def)
  ultimately show ?case by (auto simp: load get)
qed auto

section \<open>Templates\<close>

text \<open>A template whose texts survive, and with languages that its names can express.\<close>

definition language_ok :: "string \<Rightarrow> bool" where
  "language_ok l \<longleftrightarrow> l = ''C'' \<or> 2 \<le> length l \<and> set l \<inter> set ''.:'' = {} \<and> NL \<notin> set l"

definition texts :: "template_l10n_fields \<Rightarrow> (string \<times> string) list" where
  "texts p = concat (map (\<lambda>f. case template_field_get p f of None \<Rightarrow> [] | Some v \<Rightarrow> [(f, v)]) l10n_field_names)"

definition template_savable :: "template \<Rightarrow> bool" where
  "template_savable t \<longleftrightarrow> template_ok t \<and> tag t \<noteq> None \<and>
     (\<forall>v. tag t = Some v \<or> ttype t = Some v \<or> thelp t = Some v \<longrightarrow> survives v) \<and>
     (\<forall>p \<in> set (l10n t # l10n_rest t). \<forall>h \<in> set (texts p). survives (snd h)) \<and>
     (\<forall>p \<in> set (l10n_rest t). language_ok (language p) \<and> texts p \<noteq> [])"

definition suffix_of :: "string \<Rightarrow> string" where
  "suffix_of l = ''-'' @ (if l = ''C'' then ''C'' else l @ ''.UTF-8'')"

definition entry_fields :: "template_l10n_fields \<Rightarrow> (string \<times> string) list" where
  "entry_fields p = map (\<lambda>(f, v). (toupper_first f @ suffix_of (language p), v)) (texts p)"

definition opt_field :: "string \<Rightarrow> string option \<Rightarrow> (string \<times> string) list" where
  "opt_field name v = (case v of None \<Rightarrow> [] | Some x \<Rightarrow> [(name, x)])"

definition base_fields :: "template \<Rightarrow> (string \<times> string) list" where
  "base_fields t = opt_field ''Name'' (tag t) @ opt_field ''Type'' (ttype t) @
     opt_field ''Default'' (defaultval (l10n t)) @ opt_field ''Choices'' (choices (l10n t)) @
     opt_field ''Indices'' (indices (l10n t)) @ opt_field ''Description'' (description (l10n t)) @
     opt_field ''Extended_description'' (extended_description (l10n t)) @ opt_field ''Help'' (thelp t)"

definition template_fields :: "template \<Rightarrow> (string \<times> string) list" where
  "template_fields t = base_fields t @ concat (map entry_fields (l10n_rest t))"

subsection \<open>Writing\<close>

lemma get_internal_entry:
  "distinct (map language ps) \<Longrightarrow> p \<in> set ps \<Longrightarrow> get_internal_loop ps (language p) f alt = template_field_get p f"
  by (induction ps arbitrary: alt) (auto simp: image_iff)

lemma texts_simp:
  "texts p = opt_field ''default'' (defaultval p) @ opt_field ''choices'' (choices p) @ opt_field ''indices'' (indices p) @
     opt_field ''description'' (description p) @ opt_field ''extended_description'' (extended_description p)"
  by (simp add: texts_def l10n_field_names_def opt_field_def)

lemma dump_language_entry:
  assumes "template_ok t" "p \<in> set (l10n_rest t)"
  shows "dump_language env t (language p) = concat (map header_text (entry_fields p))"
proof -
  have ne: "language p \<noteq> []" and d: "distinct (map language (l10n_rest t))"
    using assms by (auto simp: template_ok_def image_iff)
  have get: "template_get_internal t (language p) f = template_field_get p f" for f
    unfolding template_get_internal_def by (rule get_internal_entry [OF d assms(2)])
  have "concat (map header_text (entry_fields p)) =
      concat (map (\<lambda>h. header_text (toupper_first (fst h) @ suffix_of (language p), snd h)) (texts p))"
    by (simp add: entry_fields_def comp_def split_beta)
  also have "\<dots> = dump_language env t (language p)"
    unfolding dump_language_def texts_def
    by (simp add: l10n_field_names_def template_fields_list_def translated_def ne get suffix_of_def split: option.splits)
  finally show ?thesis by simp
qed

lemma next_lang_walk:
  assumes "distinct (map language (pre @ p # ps))"
  shows "next_lang_loop (pre @ p # ps) (language p) = (case ps of [] \<Rightarrow> None | q # _ \<Rightarrow> Some (language q))"
  using assms by (induction pre) auto

lemma dump_languages_walk:
  assumes "template_ok t" "l10n_rest t = pre @ ps" "length ps \<le> n"
  shows "dump_languages n env t (case ps of [] \<Rightarrow> None | p # _ \<Rightarrow> Some (language p)) =
    Returns (concat (map header_text (concat (map entry_fields ps))))"
  using assms
proof (induction ps arbitrary: pre n)
  case Nil
  then show ?case by (cases n) auto
next
  case (Cons p ps)
  then obtain k where k: "n = Suc k" "length ps \<le> k" by (cases n) auto
  have "distinct (map language ((l10n t # pre) @ p # ps))" 
    using Cons.prems(1) unfolding template_ok_def Cons.prems(2) append_Cons by (rule conjunct2)
  from next_lang_walk [OF this]
  have "template_next_lang t (Some (language p)) = (case ps of [] \<Rightarrow> None | q # _ \<Rightarrow> Some (language q))"
    by (simp add: template_next_lang_def Cons.prems(2))
  moreover have "dump_languages k env t (case ps of [] \<Rightarrow> None | p # _ \<Rightarrow> Some (language p)) =
      Returns (concat (map header_text (concat (map entry_fields ps))))"
    by (rule Cons.IH [of "pre @ [p]"]) (use Cons.prems k in auto)
  moreover have "dump_language env t (language p) = concat (map header_text (entry_fields p))"
    using dump_language_entry [OF Cons.prems(1)] Cons.prems(2) by simp
  ultimately show ?case by (simp add: k(1))
qed

lemma lget_fields:
  "template_lget env t None ''tag'' = tag t" "template_lget env t None ''type'' = ttype t"
  "template_lget env t None ''help'' = thelp t" "template_lget env t None ''default'' = defaultval (l10n t)"
  "template_lget env t None ''choices'' = choices (l10n t)" "template_lget env t None ''indices'' = indices (l10n t)"
  "template_lget env t None ''description'' = description (l10n t)"
  "template_lget env t None ''extended_description'' = extended_description (l10n t)"
  by (subst template_lget.simps, simp add: strcasecmp_eq_def c_tolower_def c_isupper_def)+

lemma field_names:
  "field_name ''tag'' = ''Name''" "field_name ''type'' = ''Type''" "field_name ''default'' = ''Default''"
  "field_name ''choices'' = ''Choices''" "field_name ''indices'' = ''Indices''" "field_name ''description'' = ''Description''"
  "field_name ''extended_description'' = ''Extended_description''" "field_name ''help'' = ''Help''"
  by code_simp+

lemma opt_field_text: "(case v of None \<Rightarrow> [] | Some p \<Rightarrow> print_header name p) = concat (map header_text (opt_field name v))"
  by (cases v) (simp_all add: opt_field_def)

lemma template_dump_text:
  assumes "template_ok t"
  shows "rfc822db_template_dump env t = Returns (concat (map header_text (template_fields t)) @ [NL])"
proof -
  have "template_next_lang t None = (case l10n_rest t of [] \<Rightarrow> None | p # _ \<Rightarrow> Some (language p))"
    by (simp add: template_next_lang_def)
  moreover have "concat (map (\<lambda>field. case template_lget env t None field of None \<Rightarrow> [] | Some p \<Rightarrow> print_header (field_name field) p)
      template_fields_list) = concat (map header_text (base_fields t))"
    by (simp add: template_fields_list_def lget_fields field_names opt_field_text base_fields_def)
  ultimately show ?thesis
    using dump_languages_walk [OF assms, of "[]" "l10n_rest t" "length (l10n_rest t) + 1" env]
    by (simp add: rfc822db_template_dump_def template_fields_def)
qed

subsection \<open>Reading\<close>

lemma toupper_names:
  "toupper_first ''default'' = ''Default''" "toupper_first ''choices'' = ''Choices''" "toupper_first ''indices'' = ''Indices''"
  "toupper_first ''description'' = ''Description''" "toupper_first ''extended_description'' = ''Extended_description''"
  by code_simp+

lemma texts_names: "h \<in> set (texts p) \<Longrightarrow> fst h \<in> set l10n_field_names"
  by (auto simp: texts_def split: option.splits)

lemma toupper_name_ok:
  assumes "f \<in> set l10n_field_names"
  shows "toupper_first f \<noteq> [] \<and> set (toupper_first f) \<inter> {CHR '':'', NL, CHR ''-''} = {} \<and> \<not> c_isspace (hd (toupper_first f)) \<and>
    5 \<le> length (toupper_first f)"
  by (use assms in \<open>rule l10n_field_names_cases; simp add: toupper_names c_isspace_def\<close>)

lemma toupper_name_set [simp]:
  assumes "f \<in> set l10n_field_names"
  shows "template_field_set (toupper_first f) v p = template_field_set f v p"
  by (use assms in \<open>rule l10n_field_names_cases; simp add: toupper_names template_field_set_def strcasecmp_eq_def c_tolower_eval\<close>)

lemma lset_walk_toupper:
  assumes "f \<in> set l10n_field_names"
  shows "lset_walk l (toupper_first f) v ps = lset_walk l f v ps"
  using assms by (induction ps) auto

lemma strcasecmp_length: "strcasecmp_eq a b \<Longrightarrow> length a = length b"
  by (auto simp: strcasecmp_eq_def dest: map_eq_imp_length_eq)

lemma lset_toupper:
  assumes "f \<in> set l10n_field_names"
  shows "template_lset env None (toupper_first f) v t = t\<lparr>l10n := template_field_set f v (l10n t)\<rparr>"
proof -
  have "\<not> strcasecmp_eq (toupper_first f) ''tag''" "\<not> strcasecmp_eq (toupper_first f) ''type''"
    "\<not> strcasecmp_eq (toupper_first f) ''help''"
    using toupper_name_ok [OF assms] by (auto dest!: strcasecmp_length)
  with toupper_name_ok [OF assms] assms show ?thesis by (subst template_lset.simps) simp
qed

lemma lset_suffix:
  assumes "f \<in> set l10n_field_names" "language_ok l" "allow_i18n env" "load_all_translations env"
  shows "template_lset env None (toupper_first f @ suffix_of l) v t = lset_curlang (Some l) f v t"
proof -
  let ?F = "toupper_first f" and ?name = "toupper_first f @ suffix_of l"
  have F: "\<forall>c \<in> set ?F. c \<noteq> CHR ''-''" "5 \<le> length ?F" using toupper_name_ok [OF assms(1)] by auto
  have n: "\<not> strcasecmp_eq ?name ''tag''" "\<not> strcasecmp_eq ?name ''type''" "\<not> strcasecmp_eq ?name ''help''"
    "\<not> strcasecmp_eq ?F ''tag''" "\<not> strcasecmp_eq ?F ''type''" "\<not> strcasecmp_eq ?F ''help''"
    using F(2) by (auto dest!: strcasecmp_length)
  have parts: "before_dash ?name = ?F" "after_dash ?name = tl (suffix_of l)" "CHR ''-'' \<in> set ?name"
    using F(1) by (auto simp: before_dash_def after_dash_def suffix_of_def takeWhile_append2 dropWhile_append2)
  have set: "lset_curlang (Some l) ?F v t = lset_curlang (Some l) f v t"
    using assms(1) by (simp add: lset_curlang_def lset_walk_toupper)
  have "l \<noteq> []" using assms(2) by (auto simp: language_ok_def)
  then have inner: "template_lset env (Some l) ?F v t = lset_curlang (Some l) ?F v t"
    using n F(1) assms(4) by (subst template_lset.simps) auto
  show ?thesis
  proof (cases "l = ''C''")
    case True
    then have "strcasecmp_eq (tl (suffix_of l)) ''C''" by (simp add: suffix_of_def strcasecmp_eq_def)
    then show ?thesis
      using n parts inner set True by (subst template_lset.simps) (simp add: Let_def)
  next
    case False
    then have l: "CHR ''.'' \<notin> set l" "length l \<noteq> 1" "tl (suffix_of l) = l @ ''.UTF-8''"
      using assms(2) by (auto simp: language_ok_def suffix_of_def)
    have "\<not> strcasecmp_eq (l @ ''.UTF-8'') ''C''" by (auto dest!: strcasecmp_length)
    then show ?thesis
      using n parts inner set l(3) assms(3) utf8_language_name [OF l(1,2)]
      by (subst template_lset.simps) (simp add: Let_def lset_language_def)
  qed
qed

text \<open>The texts of an entry make the entry again, at the end of the list.\<close>

lemma fold_field_set: "fold (\<lambda>(f, v). template_field_set f (Some v)) (texts p) (blank_fields (language p)) = p"
  by (cases p) (auto simp: texts_simp opt_field_def blank_fields_def split: option.splits)

lemma lset_walk_new: "l \<notin> language ` set ps \<Longrightarrow> lset_walk l f v ps = ps @ [template_field_set f v (blank_fields l)]"
  by (induction ps) auto

lemma lset_walk_last:
  "l \<notin> language ` set ps \<Longrightarrow> language p = l \<Longrightarrow> lset_walk l f v (ps @ [p]) = ps @ [template_field_set f v p]"
  by (induction ps) auto

lemma fold_lset_walk:
  "l \<notin> language ` set ps \<Longrightarrow> language p = l \<Longrightarrow>
     fold (\<lambda>(f, v). lset_walk l f (Some v)) hs (ps @ [p]) = ps @ [fold (\<lambda>(f, v). template_field_set f (Some v)) hs p]"
  by (induction hs arbitrary: p) (simp_all add: split_beta lset_walk_last)

lemma load_header_entry:
  assumes "\<forall>h \<in> set hs. fst h \<in> set l10n_field_names" "language_ok l" "allow_i18n env" "load_all_translations env"
    "language (l10n t) \<noteq> l"
  shows "fold (load_header env) (map header_of (map (\<lambda>(f, v). (toupper_first f @ suffix_of l, v)) hs)) t =
    t\<lparr>l10n_rest := fold (\<lambda>(f, v). lset_walk l f (Some v)) hs (l10n_rest t)\<rparr>"
  using assms(1,5)
proof (induction hs arbitrary: t)
  case (Cons h hs)
  obtain f v where h: "h = (f, v)" by fastforce
  have f: "f \<in> set l10n_field_names" using Cons.prems h by simp
  have "length (toupper_first f @ suffix_of l) \<noteq> length ''Name''" using toupper_name_ok [OF f] by simp
  then have "toupper_first f @ suffix_of l \<noteq> ''Name''" by metis
  then have "load_header env (header_of (toupper_first f @ suffix_of l, v)) t = t\<lparr>l10n_rest := lset_walk l f (Some v) (l10n_rest t)\<rparr>"
    using lset_suffix [OF f assms(2,3,4)] Cons.prems(2) by (simp add: load_header_def lset_curlang_def)
  then show ?case using Cons.IH [of "t\<lparr>l10n_rest := lset_walk l f (Some v) (l10n_rest t)\<rparr>"] Cons.prems h by simp
qed simp

lemma load_entries:
  assumes "allow_i18n env" "load_all_translations env"
    and "\<forall>p \<in> set ps. language_ok (language p) \<and> texts p \<noteq> []"
    and "distinct (map language (l10n t # l10n_rest t @ ps))"
  shows "fold (load_header env) (map header_of (concat (map entry_fields ps))) t = t\<lparr>l10n_rest := l10n_rest t @ ps\<rparr>"
  using assms(3,4)
proof (induction ps arbitrary: t)
  case (Cons p ps)
  let ?t = "t\<lparr>l10n_rest := l10n_rest t @ [p]\<rparr>"
  obtain f v hs where h: "texts p = (f, v) # hs" using Cons.prems(1) by (cases "texts p") auto
  have new: "language p \<notin> language ` set (l10n_rest t)" "language (l10n t) \<noteq> language p" using Cons.prems(2) by auto
  have "fold (\<lambda>(f, v). lset_walk (language p) f (Some v)) (texts p) (l10n_rest t) =
      l10n_rest t @ [fold (\<lambda>(f, v). template_field_set f (Some v)) (texts p) (blank_fields (language p))]"
    unfolding h using new by (simp add: lset_walk_new fold_lset_walk)
  then have "fold (\<lambda>(f, v). lset_walk (language p) f (Some v)) (texts p) (l10n_rest t) = l10n_rest t @ [p]"
    by (simp only: fold_field_set)
  then have "fold (load_header env) (map header_of (entry_fields p)) t = ?t"
    using load_header_entry [OF _ _ assms(1,2) new(2), of "texts p"] Cons.prems(1) texts_names by (auto simp: entry_fields_def)
  moreover have "fold (load_header env) (map header_of (concat (map entry_fields ps))) ?t = ?t\<lparr>l10n_rest := l10n_rest ?t @ ps\<rparr>"
    by (rule Cons.IH) (use Cons.prems in auto)
  ultimately show ?case by simp
qed simp

lemma load_opt_field:
  "name \<noteq> ''Name'' \<Longrightarrow> fold (load_header env) (map header_of (opt_field name v)) t =
     (case v of None \<Rightarrow> t | Some x \<Rightarrow> template_lset env None name (Some x) t)"
  by (cases v) (simp_all add: opt_field_def load_header_def)

lemma lset_base:
  "template_lset env None ''Type'' v t = t\<lparr>ttype := v\<rparr>" "template_lset env None ''Help'' v t = t\<lparr>thelp := v\<rparr>"
  "template_lset env None ''Default'' v t = t\<lparr>l10n := (l10n t)\<lparr>defaultval := v\<rparr>\<rparr>"
  "template_lset env None ''Choices'' v t = t\<lparr>l10n := (l10n t)\<lparr>choices := v\<rparr>\<rparr>"
  "template_lset env None ''Indices'' v t = t\<lparr>l10n := (l10n t)\<lparr>indices := v\<rparr>\<rparr>"
  "template_lset env None ''Description'' v t = t\<lparr>l10n := (l10n t)\<lparr>description := v\<rparr>\<rparr>"
  "template_lset env None ''Extended_description'' v t = t\<lparr>l10n := (l10n t)\<lparr>extended_description := v\<rparr>\<rparr>"
proof -
  show "template_lset env None ''Type'' v t = t\<lparr>ttype := v\<rparr>" "template_lset env None ''Help'' v t = t\<lparr>thelp := v\<rparr>"
    by (subst template_lset.simps, simp add: strcasecmp_eq_def c_tolower_eval)+
qed (use lset_toupper [of "''default''"] lset_toupper [of "''choices''"] lset_toupper [of "''indices''"]
      lset_toupper [of "''description''"] lset_toupper [of "''extended_description''"]
      in \<open>simp_all add: toupper_names l10n_field_names_def\<close>)

lemma load_base_field:
  "ttype t = None \<Longrightarrow> fold (load_header env) (map header_of (opt_field ''Type'' v)) t = t\<lparr>ttype := v\<rparr>"
  "thelp t = None \<Longrightarrow> fold (load_header env) (map header_of (opt_field ''Help'' v)) t = t\<lparr>thelp := v\<rparr>"
  "defaultval (l10n t) = None \<Longrightarrow>
     fold (load_header env) (map header_of (opt_field ''Default'' v)) t = t\<lparr>l10n := (l10n t)\<lparr>defaultval := v\<rparr>\<rparr>"
  "choices (l10n t) = None \<Longrightarrow>
     fold (load_header env) (map header_of (opt_field ''Choices'' v)) t = t\<lparr>l10n := (l10n t)\<lparr>choices := v\<rparr>\<rparr>"
  "indices (l10n t) = None \<Longrightarrow>
     fold (load_header env) (map header_of (opt_field ''Indices'' v)) t = t\<lparr>l10n := (l10n t)\<lparr>indices := v\<rparr>\<rparr>"
  "description (l10n t) = None \<Longrightarrow>
     fold (load_header env) (map header_of (opt_field ''Description'' v)) t = t\<lparr>l10n := (l10n t)\<lparr>description := v\<rparr>\<rparr>"
  "extended_description (l10n t) = None \<Longrightarrow>
     fold (load_header env) (map header_of (opt_field ''Extended_description'' v)) t = t\<lparr>l10n := (l10n t)\<lparr>extended_description := v\<rparr>\<rparr>"
  by (cases v; simp add: load_opt_field lset_base)+

lemma load_base_fields:
  assumes "tag t = Some tg" "language (l10n t) = []"
  shows "fold (load_header env) (map header_of (base_fields t)) (template_new (Some tg)) = t\<lparr>l10n_rest := []\<rparr>"
proof -
  have "fold (load_header env) (map header_of (opt_field ''Name'' (tag t))) (template_new (Some tg)) = template_new (Some tg)"
    using assms(1) by (simp add: opt_field_def load_header_def)
  then show ?thesis
    using assms
    by (simp add: base_fields_def load_base_field template_new_def blank_fields_def)
qed

lemma load_template_fields:
  assumes "template_savable t" "allow_i18n env" "load_all_translations env" "tag t = Some tg"
  shows "fold (load_header env) (map header_of (template_fields t)) (template_new (Some tg)) = t"
proof -
  have ok: "language (l10n t) = []" "distinct (map language (l10n t # [] @ l10n_rest t))"
    "\<forall>p \<in> set (l10n_rest t). language_ok (language p) \<and> texts p \<noteq> []"
    using assms(1) by (auto simp: template_savable_def template_ok_def)
  have "fold (load_header env) (map header_of (template_fields t)) (template_new (Some tg)) =
      fold (load_header env) (map header_of (concat (map entry_fields (l10n_rest t)))) (t\<lparr>l10n_rest := []\<rparr>)"
    by (simp only: template_fields_def map_append fold_append o_apply load_base_fields [OF assms(4) ok(1)])
  also have "\<dots> = t" using load_entries [OF assms(2,3) ok(3), of "t\<lparr>l10n_rest := []\<rparr>"] ok(2) by simp
  finally show ?thesis .
qed

lemma suffix_ok: "language_ok l \<Longrightarrow> set (suffix_of l) \<inter> {CHR '':'', NL} = {}"
  by (auto simp: suffix_of_def language_ok_def)

lemma in_opt_field: "h \<in> set (opt_field name v) \<longleftrightarrow> fst h = name \<and> v = Some (snd h)"
  by (cases h; cases v) (auto simp: opt_field_def)

lemma opt_field_values: "snd ` set (opt_field name v) = {x. v = Some x}"
  by (cases v) (auto simp: opt_field_def)

lemma template_fields_ok:
  assumes "template_savable t"
  shows "\<forall>h \<in> set (template_fields t). header_ok h"
proof
  fix h assume "h \<in> set (template_fields t)"
  then consider "h \<in> set (base_fields t)" | p where "p \<in> set (l10n_rest t)" "h \<in> set (entry_fields p)"
    by (auto simp: template_fields_def)
  then show "header_ok h"
  proof cases
    case 1
    have "survives (snd h)"
    proof -
      have "snd h \<in> snd ` set (texts (l10n t)) \<or> tag t = Some (snd h) \<or> ttype t = Some (snd h) \<or> thelp t = Some (snd h)"
        using 1 by (auto simp: base_fields_def texts_simp in_opt_field image_Un opt_field_values)
      then show ?thesis using assms by (auto simp: template_savable_def)
    qed
    moreover have "fst h \<in> {''Name'', ''Type'', ''Default'', ''Choices'', ''Indices'', ''Description'', ''Extended_description'', ''Help''}"
      using 1 by (auto simp: base_fields_def in_opt_field)
    ultimately show ?thesis by (auto simp: header_ok_def c_isspace_def)
  next
    case 2
    obtain g where g: "g \<in> set (texts p)" "fst h = toupper_first (fst g) @ suffix_of (language p)" "snd h = snd g"
      using 2(2) by (auto simp: entry_fields_def)
    have "survives (snd h)" using assms 2(1) g by (auto simp: template_savable_def)
    moreover have "language_ok (language p)" using assms 2(1) by (simp add: template_savable_def)
    ultimately show ?thesis
      using toupper_name_ok [OF texts_names [OF g(1)]] suffix_ok [of "language p"] g(2) by (auto simp: header_ok_def)
  qed
qed

lemma template_dump_reads:
  assumes "template_savable t"
  shows "\<exists>s. rfc822db_template_dump env t = Returns s \<and> reads_stanza s (map header_of (template_fields t))"
proof -
  have "template_fields t \<noteq> []"
    using assms by (auto simp: template_savable_def template_fields_def base_fields_def opt_field_def)
  with reads_headers [OF _ template_fields_ok [OF assms]] template_dump_text [of t env] assms show ?thesis
    by (simp add: template_savable_def)
qed

end
