(* ===== verification/Deb_Persist.thy ===== *)
theory Deb_Persist
  imports Deb_Saved
begin

text \<open>
  Whole database files: what is saved is loaded again, and what a save does to the disk step by
  step. The texts of single questions and templates are in \<open>Deb_Saved\<close>.
\<close>

section \<open>Files of stanzas\<close>

lemma twalk_dump_reads:
  assumes "\<forall>p \<in> set ps. \<exists>s. dump p = Returns s \<and> reads_stanza s (hs p)"
  shows "\<exists>t. twalk_dump dump ps = Returns t \<and> rfc822_stanzas stanza_buflen t = Returns (map hs ps)"
proof -
  have "\<exists>ss. twalk_dump dump ps = Returns (concat ss) \<and> list_all2 reads_stanza ss (map hs ps)"
    using assms
  proof (induction ps)
    case Nil
    show ?case by (intro exI [of _ "[]"]) simp
  next
    case (Cons p ps)
    obtain s ss where "dump p = Returns s" "reads_stanza s (hs p)" "twalk_dump dump ps = Returns (concat ss)"
      "list_all2 reads_stanza ss (map hs ps)"
      using Cons by auto
    then show ?case by (intro exI [of _ "s # ss"]) simp
  qed
  then show ?thesis using rfc822_stanzas_concat [of _ _ stanza_buflen] by (auto simp: stanza_buflen_def)
qed

lemma load_template_saved:
  assumes "template_savable t" "allow_i18n env" "load_all_translations env"
  shows "load_template env (map header_of (template_fields t)) d =
    (let (p, d1) = template_alloc t d in d1\<lparr>troot := tsearch (ttag (theap d1)) p (troot d1)\<rparr>)"
proof -
  obtain tg where t: "tag t = Some tg" using assms(1) by (auto simp: template_savable_def)
  have "rfc822_header_lookup (map header_of (template_fields t)) ''name'' = Some tg"
    by (simp add: template_fields_def base_fields_def t opt_field_def)
  then show ?thesis by (simp add: load_template_def load_template_fields [OF assms t])
qed

lemma load_templates_saved:
  assumes "allow_i18n env" "load_all_translations env" "\<forall>p \<in> set ps. template_savable (theap d p)" "ordered (ttag (theap d)) ps"
    and "\<forall>x \<in> set (troot d0). x < tnext d0 \<and> (\<forall>p \<in> set ps. strkey (ttag (theap d0) x) < strkey (ttag (theap d) p))"
  shows "\<exists>d1. fold (load_template env) (map (\<lambda>p. map header_of (template_fields (theap d p))) ps) d0 = d1 \<and>
    map (theap d1) (troot d1) = map (theap d0) (troot d0) @ map (theap d) ps \<and> qroot d1 = qroot d0"
  using assms(3-5)
proof (induction ps arbitrary: d0)
  case (Cons p ps)
  define d1 where "d1 = d0\<lparr>theap := (theap d0)(tnext d0 := theap d p), tnext := tnext d0 + 1, troot := troot d0 @ [tnext d0]\<rparr>"
  have old: "\<forall>x \<in> set (troot d0). ttag (theap d1) x = ttag (theap d0) x" using Cons.prems(3) by (auto simp: d1_def ttag_def)
  have new: "ttag (theap d1) (tnext d0) = ttag (theap d) p" by (simp add: d1_def ttag_def)
  have "tsearch (ttag (theap d1)) (tnext d0) (troot d0) = troot d0 @ [tnext d0]"
    by (rule tsearch_last) (use old new Cons.prems(3) in simp)
  then have load: "load_template env (map header_of (template_fields (theap d p))) d0 = d1"
    using load_template_saved [OF _ assms(1,2), of "theap d p" d0] Cons.prems(1) by (simp add: template_alloc_def d1_def)
  have "\<exists>d2. fold (load_template env) (map (\<lambda>p. map header_of (template_fields (theap d p))) ps) d1 = d2 \<and>
      map (theap d2) (troot d2) = map (theap d1) (troot d1) @ map (theap d) ps \<and> qroot d2 = qroot d1"
  proof (rule Cons.IH)
    show "\<forall>p \<in> set ps. template_savable (theap d p)" using Cons.prems(1) by simp
    show "ordered (ttag (theap d)) ps" using Cons.prems(2) by (simp add: ordered_def)
    show "\<forall>x \<in> set (troot d1). x < tnext d1 \<and> (\<forall>p \<in> set ps. strkey (ttag (theap d1) x) < strkey (ttag (theap d) p))"
    proof
      fix x assume "x \<in> set (troot d1)"
      then consider "x \<in> set (troot d0)" | "x = tnext d0" by (auto simp: d1_def)
      then show "x < tnext d1 \<and> (\<forall>p \<in> set ps. strkey (ttag (theap d1) x) < strkey (ttag (theap d) p))"
      proof cases
        case 1
        then show ?thesis using Cons.prems(3) old by (auto simp: d1_def less_Suc_eq)
      next
        case 2
        then show ?thesis using new Cons.prems(2) by (simp add: ordered_def) (simp add: d1_def)
      qed
    qed
  qed
  moreover have "map (theap d1) (troot d1) = map (theap d0) (troot d0) @ [theap d p]" "qroot d1 = qroot d0"
    using Cons.prems(3) by (auto simp: d1_def)
  ultimately show ?case by (auto simp: load)
qed auto

section \<open>The disk\<close>

definition reliable :: "db_io \<Rightarrow> bool" where
  "reliable io \<longleftrightarrow> (\<forall>p. can_read io p \<and> can_write io p \<and> can_close io p) \<and> (\<forall>p r. can_rename io p r)"

lemma suffix_paths [simp]: "(path :: string) @ ''-new'' \<noteq> path" "path @ ''-old'' \<noteq> path" "path @ ''-new'' \<noteq> path @ ''-old''"
  "path \<noteq> path @ ''-new''" "path \<noteq> path @ ''-old''" "path @ ''-old'' \<noteq> path @ ''-new''"
  by simp_all

lemma save_writes:
  assumes "reliable io"
  shows "\<exists>D1. rfc822db_save io path t D = (True, D1) \<and> files D1 path = Some t \<and>
    (\<forall>p. p \<notin> {path, path @ ''-new'', path @ ''-old''} \<longrightarrow> files D1 p = files D p)"
  using assms
  by (cases "files D path") (auto simp: rfc822db_save_def Let_def write_file_def rename_path_def set_files_def reliable_def)

section \<open>Properties\<close>

text \<open>A database that can be saved without loss.\<close>

definition db_savable :: "debconf_db \<Rightarrow> bool" where
  "db_savable d \<longleftrightarrow> ordered (ttag (theap d)) (troot d) \<and> ordered (qkey d) (qroot d) \<and>
     (\<forall>p \<in> set (troot d). template_savable (theap d p)) \<and>
     (\<forall>p \<in> set (qroot d). question_savable d (qheap d p) \<and>
        rfc822db_template_get d (ttag (theap d) (the (qtemplate (qheap d p)))) \<noteq> None)"

lemma template_get_tags:
  assumes "map (theap d1) (troot d1) = map (theap d) (troot d)" "rfc822db_template_get d k \<noteq> None"
  shows "rfc822db_template_get d1 k \<noteq> None"
proof -
  have "map (ttag (theap d1)) (troot d1) = map (\<lambda>t. case tag t of None \<Rightarrow> [] | Some s \<Rightarrow> s) (map (theap d1) (troot d1))"
    by (simp add: ttag_def)
  also have "\<dots> = map (ttag (theap d)) (troot d)" unfolding assms(1) by (simp add: ttag_def)
  finally have "ttag (theap d1) ` set (troot d1) = ttag (theap d) ` set (troot d)" by (metis set_map)
  then show ?thesis using assms(2) by (simp add: rfc822db_template_get_def tfind_None)
qed

text \<open>
  Property C27: A database that is saved and loaded into an empty one has the same templates, with all
  their translations, and the same questions, with their values, owners, variables, the flag \<open>seen\<close> and the
  template of the same name, in the same order.
\<close>

theorem database_persists:
  assumes "db_savable d" "tdirty d" "qdirty d" "reliable io" "allow_i18n env" "load_all_translations env"
    and "tpath \<notin> {qpath, qpath @ ''-new'', qpath @ ''-old''}" "troot d0 = []" "qroot d0 = []"
  shows "\<exists>D1 D2 d1 d2.
    rfc822db_template_save io env (Some tpath) d D = Returns (True, D1) \<and>
    rfc822db_question_save io (Some qpath) d D1 = Returns (True, D2) \<and>
    rfc822db_template_load io env (Some tpath) D2 d0 = Returns (True, D2, d1) \<and>
    rfc822db_question_load io (Some qpath) D2 d1 = Returns (True, D2, d2) \<and>
    map (theap d2) (troot d2) = map (theap d) (troot d) \<and>
    map (qheap d2) (qroot d2) = map (\<lambda>p. restored d d2 (qheap d p)) (qroot d)"
proof -
  have d: "ordered (ttag (theap d)) (troot d)" "ordered (qkey d) (qroot d)" "\<forall>p \<in> set (troot d). template_savable (theap d p)"
    "\<forall>p \<in> set (qroot d). question_savable d (qheap d p)"
    "\<forall>p \<in> set (qroot d). rfc822db_template_get d (ttag (theap d) (the (qtemplate (qheap d p)))) \<noteq> None"
    using assms(1) by (auto simp: db_savable_def)
  obtain tt where tt: "twalk_dump (\<lambda>t. rfc822db_template_dump env (theap d t)) (troot d) = Returns tt"
    "rfc822_stanzas stanza_buflen tt = Returns (map (\<lambda>p. map header_of (template_fields (theap d p))) (troot d))"
    using twalk_dump_reads [of "troot d" "\<lambda>t. rfc822db_template_dump env (theap d t)"
        "\<lambda>p. map header_of (template_fields (theap d p))"] template_dump_reads d(3) by auto
  obtain qt where qt: "twalk_dump (\<lambda>q. rfc822db_question_dump d (qheap d q)) (qroot d) = Returns qt"
    "rfc822_stanzas stanza_buflen qt = Returns (map (\<lambda>p. question_headers d (qheap d p)) (qroot d))"
    using twalk_dump_reads [of "qroot d" "\<lambda>q. rfc822db_question_dump d (qheap d q)"
        "\<lambda>p. question_headers d (qheap d p)"] question_dump_reads d(4) by auto
  obtain D1 where D1: "rfc822db_save io tpath tt D = (True, D1)" "files D1 tpath = Some tt"
    using save_writes [OF assms(4)] by blast
  obtain D2 where D2: "rfc822db_save io qpath qt D1 = (True, D2)" "files D2 qpath = Some qt" "files D2 tpath = Some tt"
    using save_writes [OF assms(4)] D1(2) assms(7) by metis
  obtain d1 where d1: "fold (load_template env) (map (\<lambda>p. map header_of (template_fields (theap d p))) (troot d)) d0 = d1"
    "map (theap d1) (troot d1) = map (theap d) (troot d)" "qroot d1 = []"
    using load_templates_saved [OF assms(5,6) d(3,1), of d0] assms(8,9) by auto
  obtain d2 where d2: "load_questions (map (\<lambda>p. question_headers d (qheap d p)) (qroot d)) d1 = Returns d2"
    "map (qheap d2) (qroot d2) = map (\<lambda>p. restored d d1 (qheap d p)) (qroot d)" "theap d2 = theap d1" "troot d2 = troot d1"
    using load_questions_saved [of "qroot d" d d1] d(2,4,5) d1(3) template_get_tags [OF d1(2)] by auto
  have same: "restored d d2 = restored d d1" by (simp add: restored_def rfc822db_template_get_def d2(3,4) fun_eq_iff)
  have "rfc822db_template_save io env (Some tpath) d D = Returns (True, D1)"
    using assms(2) tt(1) D1(1) by (simp add: rfc822db_template_save_def)
  moreover have "rfc822db_question_save io (Some qpath) d D1 = Returns (True, D2)"
    using assms(3) qt(1) D2(1) by (simp add: rfc822db_question_save_def)
  moreover have "rfc822db_template_load io env (Some tpath) D2 d0 = Returns (True, D2, d1)"
    using assms(4) by (simp add: rfc822db_template_load_def rfc822db_file_open_def D2(3) tt(2) d1(1) reliable_def)
  moreover have "rfc822db_question_load io (Some qpath) D2 d1 = Returns (True, D2, d2)"
    using assms(4) by (simp add: rfc822db_question_load_def rfc822db_file_open_def D2(2) qt(2) d2(1) reliable_def)
  ultimately show ?thesis using d1(2) d2(2,3,4) same by metis
qed

definition saved_db :: debconf_db where
  "saved_db = \<lparr>theap = (\<lambda>_. (template_new (Some ''a/b''))\<lparr>ttype := Some ''string'',
        l10n := (blank_fields [])\<lparr>description := Some (''One'' @ NL # ''two'')\<rparr>,
        l10n_rest := [(blank_fields ''fr'')\<lparr>description := Some ''Un''\<rparr>]\<rparr>),
     tnext = 1, troot = [0], tdirty = True,
     qheap = (\<lambda>_. \<lparr>qtag = ''a/b'', qvalue = Some ''yes, no'', flags = 1, qtemplate = Some 0,
        variables = [(''X'', ''1 = 2''), (''Y'', [])], owners = [''d-i'', ''anna''], priority = Some ''high''\<rparr>),
     qnext = 1, qroot = [0], qdirty = True\<rparr>"

definition reliable_io :: db_io where
  "reliable_io = \<lparr>can_read = (\<lambda>_. True), can_write = (\<lambda>_. True), can_close = (\<lambda>_. True), can_chmod = (\<lambda>_. True),
     can_rename = (\<lambda>_ _. True), flushed = id\<rparr>"

lemma saved_db_savable: "db_savable saved_db"
proof -
  have "template_savable (theap saved_db 0)"
    by (auto simp: saved_db_def template_savable_def template_ok_def template_new_def blank_fields_def texts_simp
        opt_field_def survives_def c_isspace_def language_ok_def)
  moreover have "question_savable saved_db (qheap saved_db 0)"
    by (auto simp: saved_db_def question_savable_def question_ok_def survives_def c_isspace_def item_ok_def variable_ok_def
        stripped_def ttag_def template_new_def)
  moreover have "rfc822db_template_get saved_db (ttag (theap saved_db) 0) \<noteq> None"
    by (simp add: rfc822db_template_get_def tfind_def saved_db_def)
  ultimately show ?thesis by (simp add: db_savable_def ordered_def) (simp add: saved_db_def)
qed

theorem database_persists_witness:
  "\<exists>D1 D2 d1 d2.
    rfc822db_template_save reliable_io plain_env (Some ''t'') saved_db \<lparr>files = Map.empty, past = []\<rparr> = Returns (True, D1) \<and>
    rfc822db_question_save reliable_io (Some ''q'') saved_db D1 = Returns (True, D2) \<and>
    rfc822db_template_load reliable_io plain_env (Some ''t'') D2 empty_db = Returns (True, D2, d1) \<and>
    rfc822db_question_load reliable_io (Some ''q'') D2 d1 = Returns (True, D2, d2) \<and>
    map (theap d2) (troot d2) = map (theap saved_db) (troot saved_db) \<and>
    map (qheap d2) (qroot d2) = map (\<lambda>p. restored saved_db d2 (qheap saved_db p)) (qroot saved_db)"
proof (rule database_persists [OF saved_db_savable])
  show "tdirty saved_db" "qdirty saved_db" by (simp_all add: saved_db_def)
  show "reliable reliable_io" by (simp add: reliable_def reliable_io_def)
  show "allow_i18n plain_env" "load_all_translations plain_env" by (simp_all add: allow_i18n_def load_all_translations_def)
  show "''t'' \<notin> {''q'', ''q'' @ ''-new'', ''q'' @ ''-old''}" by simp
  show "troot empty_db = []" "qroot empty_db = []" by (simp_all add: empty_db_def)
qed


definition small_disk :: db_disk where
  "small_disk = \<lparr>files = [''q'' \<mapsto> ''old''], past = []\<rparr>"


section \<open>Loading files of any contents\<close>

lemma load_headers_ok: "template_ok t \<Longrightarrow> template_ok (fold (load_header env) hs t)"
  by (induction hs arbitrary: t) (simp_all add: load_header_def template_lset_ok)

lemma template_insert_ok:
  assumes "db_ok d" "p < tnext d"
  shows "db_ok (d\<lparr>troot := tsearch (ttag (theap d)) p (troot d)\<rparr>)"
  using assms by (auto simp: db_ok_def ordered_tsearch q_valid_def dest: set_tsearch)

lemma question_insert_ok:
  assumes "db_ok d" "p < qnext d"
  shows "db_ok (d\<lparr>qroot := tsearch (qkey d) p (qroot d)\<rparr>)"
proof -
  have "qkey (d\<lparr>qroot := tsearch (qkey d) p (qroot d)\<rparr>) = qkey d" by (simp add: qkey_def fun_eq_iff)
  then show ?thesis using assms by (auto simp: db_ok_def ordered_tsearch q_valid_def dest: set_tsearch)
qed

lemma load_template_ok: "db_ok d \<Longrightarrow> db_ok (load_template env hs d)"
proof (cases "rfc822_header_lookup hs ''name''")
  case (Some name)
  assume d: "db_ok d"
  obtain p d1 where a: "template_alloc (fold (load_header env) hs (template_new (Some name))) d = (p, d1)" by fastforce
  note ok = template_alloc_ok [OF d load_headers_ok [OF template_new_ok] a]
  show ?thesis using template_insert_ok [OF ok(1,2)] by (simp add: load_template_def Some a)
qed (simp add: load_template_def)

lemma variables_loop_ok: "variables_loop wc q = Returns q' \<Longrightarrow> question_ok q \<Longrightarrow> question_ok q'"
proof (induction wc q rule: variables_loop.induct)
  case (1 wc q)
  then show ?case
    by (auto simp: variables_loop.simps [of wc q] Let_def question_ops_ok split: if_splits)
qed

lemma parsed_ok:
  "question_ok q \<Longrightarrow> question_ok (parse_owners v q)" "question_ok q \<Longrightarrow> question_ok (parse_flags v q)"
  "parse_variables v q = Returns q' \<Longrightarrow> question_ok q \<Longrightarrow> question_ok q'"
proof -
  have "question_ok (fold question_owner_add xs q)" "question_ok (fold question_set_flag xs q)" if "question_ok q" for xs and q
    using that by (induction xs arbitrary: q) (simp_all add: question_ops_ok question_set_flag_def)
  then show "question_ok q \<Longrightarrow> question_ok (parse_owners v q)" "question_ok q \<Longrightarrow> question_ok (parse_flags v q)"
    by (simp_all add: parse_owners_def parse_flags_def split: option.split)
qed (auto simp: parse_variables_def variables_loop_ok split: option.splits)

lemma attach_template_ok:
  assumes "db_ok d" "t = None \<or> (\<exists>k. t = rfc822db_template_get d k)" "attach_template name t d = (p, d')"
  shows "db_ok d'" "p < tnext d'"
proof -
  obtain r d1 where a: "template_alloc (template_new (Some name)) d = (r, d1)" by fastforce
  note ok = template_alloc_ok [OF assms(1) template_new_ok a]
  have "db_ok d' \<and> p < tnext d'"
  proof (cases t)
    case None
    then have "d' = rfc822db_template_set r d1" "p = r" using assms(3) a by (auto simp: attach_template_def)
    then show ?thesis using template_set_ok [OF ok(1,2)] ok(2) by simp
  next
    case (Some x)
    then show ?thesis using assms db_ok_template_get [OF assms(1)] by (auto simp: attach_template_def)
  qed
  then show "db_ok d'" "p < tnext d'" by auto
qed

lemma load_question_ok:
  assumes "load_question hs d = Returns d'" "db_ok d"
  shows "db_ok d'"
proof (cases "rfc822_header_lookup hs ''name'' = None \<or> rfc822_header_lookup hs ''name'' = Some []")
  case True
  then show ?thesis using assms by (auto simp: load_question_def)
next
  case False
  then obtain name where n: "rfc822_header_lookup hs ''name'' = Some name" "name \<noteq> []" by auto
  let ?q = "parse_owners (rfc822_header_lookup hs ''owners'') (parse_flags (rfc822_header_lookup hs ''flags'')
      (question_setvalue (rfc822_header_lookup hs ''value'') (question_new name)))"
  obtain q t where q: "parse_variables (rfc822_header_lookup hs ''variables'') ?q = Returns q"
    and t: "stanza_template d (rfc822_header_lookup hs ''template'') = Returns t"
    and rest: "(let (t, d) = attach_template name t d; (p, d) = question_alloc (q\<lparr>qtemplate := Some t\<rparr>) d
      in Returns (d\<lparr>qroot := tsearch (qkey d) p (qroot d)\<rparr>)) = Returns d'"
    using assms(1) n by (auto simp: load_question_def Let_def run_bind_Returns)
  obtain r d1 where a: "attach_template name t d = (r, d1)" by fastforce
  have "t = None \<or> (\<exists>k. t = rfc822db_template_get d k)"
    using t by (auto simp: stanza_template_def split: option.splits if_splits)
  note ok = attach_template_ok [OF assms(2) this a]
  obtain p d2 where b: "question_alloc (q\<lparr>qtemplate := Some r\<rparr>) d1 = (p, d2)" by fastforce
  have "question_ok q"
    using parsed_ok(3) [OF q] parsed_ok(1,2) question_new_ok by (simp add: question_setvalue_def question_ops_ok)
  then have "q_valid d1 (q\<lparr>qtemplate := Some r\<rparr>)" using ok(2) by (simp add: q_valid_def question_ops_ok)
  note ok2 = question_alloc_ok [OF ok(1) this b]
  have "d' = d2\<lparr>qroot := tsearch (qkey d2) p (qroot d2)\<rparr>" using rest a b by simp
  then show ?thesis using question_insert_ok [OF ok2(1,2)] by simp
qed

lemma load_questions_ok: "load_questions hss d = Returns d' \<Longrightarrow> db_ok d \<Longrightarrow> db_ok d'"
  by (induction hss arbitrary: d) (auto simp: run_bind_Returns dest: load_question_ok)

text \<open>
  Property C29: Whatever the files contain, the databases that are loaded from them are well-formed: both
  trees are in the order of their names, every question has a template, and none of its owners and variables twice.
\<close>

theorem load_well_formed:
  assumes "db_ok d" "rfc822db_template_load io env tpath D d = Returns (r, D1, d1)"
    and "rfc822db_question_load io qpath D1 d1 = Returns (s, D2, d2)"
  shows "db_ok d2"
proof -
  have "db_ok (fold (load_template env) hss d)" for hss
    using assms(1) by (induction hss arbitrary: d) (simp_all add: load_template_ok)
  then have "db_ok d1"
    using assms(1,2) by (auto simp: rfc822db_template_load_def run_bind_Returns split: prod.splits option.splits)
  then show ?thesis
    using assms(3) by (auto simp: rfc822db_question_load_def run_bind_Returns split: prod.splits option.splits dest: load_questions_ok)
qed

text \<open>A file with owners that are listed twice and a template that does not exist.\<close>

definition odd_disk :: db_disk where
  "odd_disk = \<lparr>files = [''q'' \<mapsto> ''Name: b'' @ NL # ''Template: x'' @ NL # ''Owners: a, a'' @ [NL, NL],
     ''t'' \<mapsto> ''Name: z'' @ [NL, NL]], past = []\<rparr>"

theorem load_well_formed_witness:
  "\<exists>d1 d2. rfc822db_template_load reliable_io plain_env (Some ''t'') odd_disk empty_db = Returns (True, odd_disk, d1) \<and>
     rfc822db_question_load reliable_io (Some ''q'') odd_disk d1 = Returns (True, odd_disk, d2) \<and> db_ok d2"
proof -
  let ?q = "[[\<lparr>header = ''Name'', hvalue = ''b''\<rparr>, \<lparr>header = ''Template'', hvalue = ''x''\<rparr>, \<lparr>header = ''Owners'', hvalue = ''a, a''\<rparr>]]"
  have ok: "\<forall>h \<in> set [(''Name'', ''b''), (''Template'', ''x''), (''Owners'', ''a, a''), (''Name'', ''z'')]. header_ok h"
    by (simp add: header_ok_def survives_def c_isspace_def)
  have q: "rfc822_stanzas stanza_buflen (''Name: b'' @ NL # ''Template: x'' @ NL # ''Owners: a, a'' @ [NL, NL]) = Returns ?q"
    using stanzas_of_headers [of "[(''Name'', ''b''), (''Template'', ''x''), (''Owners'', ''a, a'')]" stanza_buflen] ok
    by (simp add: header_text_def header_of_def stanza_buflen_def)
  have t: "rfc822_stanzas stanza_buflen (''Name: z'' @ [NL, NL]) = Returns [[\<lparr>header = ''Name'', hvalue = ''z''\<rparr>]]"
    using stanzas_of_headers [of "[(''Name'', ''z'')]" stanza_buflen] ok
    by (simp add: header_text_def header_of_def stanza_buflen_def)
  obtain d1 where d1: "rfc822db_template_load reliable_io plain_env (Some ''t'') odd_disk empty_db = Returns (True, odd_disk, d1)"
    using t by (simp add: rfc822db_template_load_def rfc822db_file_open_def odd_disk_def reliable_io_def)
  obtain d2 where "load_questions ?q d1 = Returns d2"
    by (simp add: load_question_def Let_def parse_variables_def stanza_template_def split_beta)
  then have d2: "rfc822db_question_load reliable_io (Some ''q'') odd_disk d1 = Returns (True, odd_disk, d2)"
    using q by (simp add: rfc822db_question_load_def rfc822db_file_open_def odd_disk_def reliable_io_def)
  from load_well_formed [OF empty_db_ok d1 d2] d1 d2 show ?thesis by blast
qed

text \<open>
  Two texts that do not survive: a backslash before an \<open>n\<close> comes back as a newline, and the newline of a
  variable as a backslash and an \<open>n\<close>, because the lines of a continued header are not unescaped.
\<close>

lemma backslash_lost:
  "rfc822_stanzas 32 (print_header ''Value'' [CHR ''C'', CHR 0x5C, CHR ''n'']) =
     Returns [[\<lparr>header = ''Value'', hvalue = [CHR ''C'', NL]\<rparr>]]"
  by code_simp

lemma variable_newline_lost:
  "rfc822_stanzas 32 (''Variables:'' @ NL # print_variable (''x'', [CHR ''1'', NL, CHR ''2''])) =
     Returns [[\<lparr>header = ''Variables'', hvalue = NL # '' x = 1'' @ [CHR 0x5C] @ ''n2''\<rparr>]]"
  by code_simp

text \<open>A close that fails is reported as a success, although nothing was saved.\<close>

lemma failed_close_succeeds:
  assumes "can_write io (path @ ''-new'')" "\<not> can_close io (path @ ''-new'')"
  shows "fst (rfc822db_save io path t D)" "files (snd (rfc822db_save io path t D)) path = files D path"
  using assms by (simp_all add: rfc822db_save_def Let_def write_file_def set_files_def)

end
