(* ===== verification/Deb_Session.thy ===== *)
theory Deb_Session
  imports Deb_Protocol Deb_Persist
begin

text \<open>
  Both ends of the pipe: \<open>confmodule_communicate\<close> of \<^verbatim>\<open>cdebconf/src/confmodule.c\<close> and the client library
  \<^verbatim>\<open>cdebconf/src/debconfclient.c\<close>, with which anna and main-menu talk to debconf; and a session with its
  database files.

  A pipe delivers a list of results of \<open>read\<close>, and the end of the list is the end of the file. A
  signal is an element of the list where one of the tests of \<open>signal_received\<close> sees it; what was read
  since the last command is dropped then.
\<close>

section \<open>Definitions\<close>

subsection \<open>The server\<close>

datatype pipe_read = Data string | Interrupted | Failed | Signal

definition COMM_BUF :: nat where
  "COMM_BUF = 1023"

text \<open>
  \<open>insize\<close> is the size of the buffer \<open>inb\<close>; writing behind it is \<open>Died\<close>. The result is whether \<open>DC_OK\<close> is
  returned, and what was written to the client.
\<close>

fun communicate_loop :: "debconf_io \<Rightarrow> nat \<Rightarrow> string \<Rightarrow> pipe_read list \<Rightarrow> confmodule \<Rightarrow> (bool \<times> string \<times> confmodule) run" where
  "communicate_loop io insize inb [] m = Returns (True, [], m)"
| "communicate_loop io insize inb (Signal # ev) m = Returns (True, [], m)"
| "communicate_loop io insize inb (Failed # ev) m = Returns (False, [], m)"
| "communicate_loop io insize inb (Interrupted # ev) m = communicate_loop io insize inb ev m"
| "communicate_loop io insize inb (Data buf # ev) m =
     (let insize = (if length inb + length buf + 1 > insize then insize + COMM_BUF else insize);
          inb = inb @ buf
      in if length inb + 1 > insize then Died
         else if NL \<notin> set buf then communicate_loop io insize inb ev m
         else run_bind (confmodule_process io m inb) (\<lambda>(out, m).
           case out of
             None \<Rightarrow> communicate_loop io insize [] ev m
           | Some out \<Rightarrow>
               if out = [] then Returns (True, [], m)
               else run_bind (communicate_loop io insize [] ev m) (\<lambda>(r, w, m). Returns (r, out @ NL # w, m))))"

definition confmodule_communicate :: "debconf_io \<Rightarrow> pipe_read list \<Rightarrow> confmodule \<Rightarrow> (bool \<times> string \<times> confmodule) run" where
  "confmodule_communicate io ev m = communicate_loop io 1024 [] ev m"

text \<open>The same for a command that does not come from a pipe; \<open>DC_NOTOK\<close> is 0.\<close>

definition confmodule_process_command :: "debconf_io \<Rightarrow> confmodule \<Rightarrow> string \<Rightarrow> (string \<times> confmodule) run" where
  "confmodule_process_command io m cmd =
     run_bind (confmodule_process io m cmd) (\<lambda>(out, m).
       Returns (case out of None \<Rightarrow> ''0 Not implemented'' | Some out \<Rightarrow> out, m))"

subsection \<open>The client\<close>

record debconfclient =
  client_value :: "string option"
  client_in :: string
  client_out :: string

definition debconfclient_new :: "debconfclient" where
  "debconfclient_new = \<lparr>client_value = None, client_in = [], client_out = []\<rparr>"

text \<open>A call of \<open>strtok\<close>: what precedes the token, the token, and where the next call goes on.\<close>

definition strtok :: "string \<Rightarrow> string \<Rightarrow> string \<times> string \<times> string" where
  "strtok s delim =
     (let t = dropWhile (\<lambda>c. c \<in> set delim) s
      in (takeWhile (\<lambda>c. c \<in> set delim) s, takeWhile (\<lambda>c. c \<notin> set delim) t, tl (dropWhile (\<lambda>c. c \<notin> set delim) t)))"

text \<open>
  At the end of the file \<open>fgets\<close> leaves the buffer as it is, uninitialized. The first token is ended by a
  NUL in the buffer, so that \<open>atoi\<close> reads it with what precedes it.
\<close>

definition debconfclient_handle_rsp :: "debconfclient \<Rightarrow> (int \<times> debconfclient) run" where
  "debconfclient_handle_rsp client =
     (case fgets 2048 (client_in client) of
        (buf, rest) \<Rightarrow>
          if buf = [] then Died
          else let (before, code, more) = strtok (CHOMP buf) [SP, TAB, NL];
                   v = fst (snd (strtok more [NL]))
               in Returns (atoi (before @ code), client\<lparr>client_value := Some v, client_in := rest\<rparr>))"

text \<open>\<open>answer\<close> is what the other end has written when the reply is read, for the text that was sent.\<close>

definition debconfclient_send :: "(string \<Rightarrow> string) \<Rightarrow> string \<Rightarrow> debconfclient \<Rightarrow> debconfclient" where
  "debconfclient_send answer t client =
     client\<lparr>client_out := client_out client @ t @ [NL], client_in := client_in client @ answer (t @ [NL])\<rparr>"

definition command_line :: "string \<Rightarrow> string list \<Rightarrow> string" where
  "command_line command args = command @ concat (map (\<lambda>c. SP # c) args)"

definition debconfclient_command :: "(string \<Rightarrow> string) \<Rightarrow> string \<Rightarrow> string list \<Rightarrow> debconfclient \<Rightarrow> (int \<times> debconfclient) run" where
  "debconfclient_command answer command args client =
     debconfclient_handle_rsp (debconfclient_send answer (command_line command args) client)"

text \<open>The text that \<open>vfprintf\<close> makes is an argument.\<close>

definition debconfclient_commandf :: "(string \<Rightarrow> string) \<Rightarrow> string \<Rightarrow> debconfclient \<Rightarrow> (int \<times> debconfclient) run" where
  "debconfclient_commandf answer cmd client = debconfclient_handle_rsp (debconfclient_send answer cmd client)"

definition debconfclient_ret :: "debconfclient \<Rightarrow> string option" where
  "debconfclient_ret client = client_value client"

section \<open>A command and its reply\<close>

lemma strstrip_newline: "strstrip (s @ [NL]) = strstrip s"
proof (cases "\<forall>c \<in> set s. c_isspace c")
  case True
  moreover have "c_isspace NL" by (simp add: c_isspace_def)
  ultimately have "dropWhile c_isspace s = []" "dropWhile c_isspace (s @ [NL]) = []"
    by (simp_all add: dropWhile_eq_Nil_conv)
  then show ?thesis by (simp only: strstrip_def)
next
  case False
  then have "dropWhile c_isspace (s @ [NL]) = dropWhile c_isspace s @ [NL]" "dropWhile c_isspace s \<noteq> []"
    by (auto simp: dropWhile_append)
  moreover have "c_isspace NL" by (simp add: c_isspace_def)
  ultimately show ?thesis using False by (auto simp: strstrip_def Let_def)
qed

lemma process_newline: "confmodule_process io m (s @ [NL]) = confmodule_process io m s"
  by (simp add: confmodule_process_def strstrip_newline)

text \<open>However a line is cut into pieces, it is processed as a whole, and the buffer is large enough.\<close>

lemma communicate_chunks:
  assumes "concat cs = s @ [NL]" "NL \<notin> set s" "\<forall>c \<in> set cs. c \<noteq> [] \<and> length c < COMM_BUF" "length inb < n"
  shows "\<exists>k > length inb + length s. communicate_loop io n inb (map Data cs @ ev) m =
    run_bind (confmodule_process io m (inb @ s)) (\<lambda>(out, m).
      case out of
        None \<Rightarrow> communicate_loop io k [] ev m
      | Some out \<Rightarrow>
          if out = [] then Returns (True, [], m)
          else run_bind (communicate_loop io k [] ev m) (\<lambda>(r, w, m). Returns (r, out @ NL # w, m)))"
  using assms
proof (induction cs arbitrary: s inb n)
  case (Cons c cs)
  define k where "k = (if length inb + length c + 1 > n then n + COMM_BUF else n)"
  have k: "length (inb @ c) < k" using Cons.prems(3,4) by (auto simp: k_def)
  have step: "communicate_loop io n inb (Data c # ev') m =
      (if NL \<notin> set c then communicate_loop io k (inb @ c) ev' m
       else run_bind (confmodule_process io m (inb @ c)) (\<lambda>(out, m).
         case out of
           None \<Rightarrow> communicate_loop io k [] ev' m
         | Some out \<Rightarrow>
             if out = [] then Returns (True, [], m)
             else run_bind (communicate_loop io k [] ev' m) (\<lambda>(r, w, m). Returns (r, out @ NL # w, m))))" for ev'
    by (simp only: communicate_loop.simps Let_def k_def [symmetric]) (use k in simp)
  show ?case
  proof (cases cs)
    case Nil
    then have c: "c = s @ [NL]" using Cons.prems(1) by simp
    then show ?thesis
      using k step [of ev] process_newline [of io m "inb @ s"] by (intro exI [of _ k]) (simp add: Nil)
  next
    case (Cons d ds)
    have ne: "concat cs \<noteq> []" using Cons.prems(3) Cons by auto
    then obtain t where t: "concat cs = t @ [NL]" "s = c @ t"
      using Cons.prems(1) by (cases "concat cs" rule: rev_cases) auto
    then have "NL \<notin> set c" "NL \<notin> set t" using Cons.prems(2) by auto
    with Cons.IH [OF t(1) _ _ k] Cons.prems(3) obtain j where j: "length (inb @ c) + length t < j"
      "communicate_loop io k (inb @ c) (map Data cs @ ev) m =
        run_bind (confmodule_process io m ((inb @ c) @ t)) (\<lambda>(out, m).
          case out of
            None \<Rightarrow> communicate_loop io j [] ev m
          | Some out \<Rightarrow>
              if out = [] then Returns (True, [], m)
              else run_bind (communicate_loop io j [] ev m) (\<lambda>(r, w, m). Returns (r, out @ NL # w, m)))"
      by auto
    show ?thesis
      using j step [of "map Data cs @ ev"] \<open>NL \<notin> set c\<close> t(2) by (intro exI [of _ j]) simp
  qed
qed simp

lemma atoi_dec_nat: "n < 2 ^ 31 \<Longrightarrow> atoi (dec_nat n) = int n"
proof -
  assume n: "n < 2 ^ 31"
  obtain c s where d: "dec_nat n = c # s" "c_isdigit c" "\<forall>c \<in> set (dec_nat n). c_isdigit c" "dval (dec_nat n) = n"
    using dec_nat_digits [of n] by (cases "dec_nat n") auto
  have "\<not> c_isspace c" "c \<noteq> CHR ''-''" "c \<noteq> CHR ''+''" using d(2) by (auto simp: c_isspace_def c_isdigit_def)
  then have "strtol (dec_nat n) = int n"
    using d n by (simp add: strtol_def Let_def takeWhile_eq_all_conv [THEN iffD2] min_def)
  then show ?thesis using n by (simp add: atoi_def to_int32_def)
qed

lemma handle_rsp_reply:
  assumes "client_in client = out @ NL # rest" "out = dec_nat code @ u" "u = [] \<or> hd u = SP" "NL \<notin> set u"
    and "code < 2 ^ 31" "length out < 2047"
  shows "debconfclient_handle_rsp client = Returns (int code, client\<lparr>client_value := Some (tl u), client_in := rest\<rparr>)"
proof -
  have d: "\<forall>c \<in> set (dec_nat code). c \<noteq> SP \<and> c \<noteq> TAB \<and> c \<noteq> NL" "dec_nat code \<noteq> []"
    using dec_nat_digits [of code] by (auto simp: c_isdigit_def)
  then have "NL \<notin> set out" using assms(2,4) by auto
  then have f: "fgets 2048 (client_in client) = (out @ [NL], rest)"
    using fgets_whole_line [of out 2047 rest] assms(1,6) by simp
  obtain c s where cs: "dec_nat code = c # s" using d(2) by (cases "dec_nat code") auto
  have "takeWhile (\<lambda>c. c \<notin> set [SP, TAB, NL]) u = []" "tl (dropWhile (\<lambda>c. c \<notin> set [SP, TAB, NL]) u) = tl u"
    using assms(3) by (cases u; simp)+
  moreover have "dropWhile (\<lambda>c. c \<in> set [SP, TAB, NL]) out = out" "takeWhile (\<lambda>c. c \<in> set [SP, TAB, NL]) out = []"
    using d(1) cs assms(2) by auto
  ultimately have s: "strtok out [SP, TAB, NL] = ([], dec_nat code, tl u)"
    unfolding strtok_def Let_def using d(1) assms(2) by (simp add: takeWhile_append2 dropWhile_append2)
  have "NL \<notin> set (tl u)" using assms(4) by (cases u) auto
  then have v: "takeWhile (\<lambda>c. c \<notin> set [NL]) (dropWhile (\<lambda>c. c \<in> set [NL]) (tl u)) = tl u"
    by (cases "tl u") (auto simp: takeWhile_eq_all_conv)
  show ?thesis
    using f s v assms(5) by (simp add: debconfclient_handle_rsp_def CHOMP_def strtok_def [of "tl u"] Let_def atoi_dec_nat)
qed

text \<open>
  Property C33: A client that sends a command gets the code and the text of the reply of the server to
  that command, in whatever pieces the pipe delivers the line, as long as the reply fits into the 2047
  bytes that the client reads.
\<close>

theorem client_gets_reply:
  assumes "confmodule_process io m (command_line command args) = Returns (Some out, m')" "NL \<notin> set (command_line command args)"
    and "out = dec_nat code @ u" "u = [] \<or> hd u = SP" "NL \<notin> set u" "code < 2 ^ 31" "length out < 2047"
    and "concat cs = command_line command args @ [NL]" "\<forall>c \<in> set cs. c \<noteq> [] \<and> length c < COMM_BUF" "client_in client = []"
  shows "\<exists>w. confmodule_communicate io (map Data cs) m = Returns (True, w, m') \<and>
    debconfclient_command (\<lambda>_. w) command args client =
      Returns (int code, client\<lparr>client_value := Some (tl u), client_out := client_out client @ concat cs\<rparr>)"
proof -
  have ne: "out \<noteq> []" using assms(3) dec_nat_digits [of code] by auto
  obtain k where "communicate_loop io 1024 [] (map Data cs @ []) m =
      run_bind (communicate_loop io k [] [] m') (\<lambda>(r, w, m). Returns (r, out @ NL # w, m))"
    using communicate_chunks [OF assms(8,2,9), of "[]" 1024 io "[]" m] assms(1) ne by auto
  then have "confmodule_communicate io (map Data cs) m = Returns (True, out @ [NL], m')"
    by (simp add: confmodule_communicate_def)
  moreover have "debconfclient_command (\<lambda>_. out @ [NL]) command args client =
      Returns (int code, client\<lparr>client_value := Some (tl u), client_out := client_out client @ concat cs\<rparr>)"
    using handle_rsp_reply [OF _ assms(3-7), of "debconfclient_send (\<lambda>_. out @ [NL]) (command_line command args) client" "[]"] assms(8,10)
    by (simp add: debconfclient_command_def debconfclient_send_def)
  ultimately show ?thesis by blast
qed

definition plain_mod :: confmodule where
  "plain_mod = example_mod\<lparr>fe := empty_frontend\<rparr>"

theorem client_gets_reply_witness:
  "\<exists>w. confmodule_communicate example_io (map Data [''GET c'', ''/d'', [NL]]) plain_mod = Returns (True, w, plain_mod) \<and>
    debconfclient_command (\<lambda>_. w) ''GET'' [''c/d''] debconfclient_new =
      Returns (int 10, debconfclient_new\<lparr>client_value := Some (tl '' c/d doesn't exist''),
        client_out := client_out debconfclient_new @ concat [''GET c'', ''/d'', [NL]]\<rparr>)"
proof -
  have w: "word ''c/d''" by (simp add: word_def c_isspace_def)
  have m: "\<not> escaping plain_mod" "get_question plain_mod ''c/d'' = None" by code_simp+
  have "confmodule_process example_io plain_mod (''GET'' @ SP # ''c/d'') = finish (command_get plain_mod ''c/d'')"
    by (rule process_line [OF m(1) command_words(2) _ word_trimmed [OF w] handlers(2)]) simp
  also have "\<dots> = Returns (Some ''10 c/d doesn't exist'', plain_mod)"
    using m(2) Deb_Protocol.splits(2) [OF w] by (simp add: command_get_def no_such_def reply_def finish_def)
  finally have r: "confmodule_process example_io plain_mod (command_line ''GET'' [''c/d'']) = Returns (Some ''10 c/d doesn't exist'', plain_mod)"
    by (simp add: command_line_def)
  have d: "''10 c/d doesn't exist'' = dec_nat 10 @ '' c/d doesn't exist''" by code_simp
  show ?thesis
    by (rule client_gets_reply [OF r _ d]) (simp_all add: command_line_def COMM_BUF_def debconfclient_new_def)
qed

text \<open>
  A longer reply is cut: the next command gets the rest of it for its own reply, and from then on all
  replies belong to earlier commands.
\<close>

lemma long_reply_left_over:
  assumes "client_in client = dec_nat code @ SP # t @ NL # rest" "NL \<notin> set t" "2047 < length (dec_nat code @ SP # t)"
  shows "\<exists>r v. debconfclient_handle_rsp client =
    Returns (r, client\<lparr>client_value := Some v, client_in := drop 2047 (dec_nat code @ SP # t) @ NL # rest\<rparr>)"
proof -
  let ?out = "dec_nat code @ SP # t"
  have "NL \<notin> set ?out" using assms(2) dec_nat_digits [of code] by (auto simp: c_isdigit_def)
  then have f: "fgets 2048 (client_in client) = (take 2047 ?out, drop 2047 ?out @ NL # rest)"
    using fgets_whole_line [of ?out 2047 rest] assms(1,3) by simp
  then show ?thesis
    using assms(3) by (auto simp: debconfclient_handle_rsp_def split: prod.split)
qed

section \<open>What is not saved\<close>

text \<open>
  Property C34: \<open>FSET\<close> changes the flag of a question in memory only: when nothing else was changed, the
  next save reports success and leaves the file as it was.
\<close>

theorem fset_is_not_saved:
  assumes "get_question m tg = Some q" "word tg" "\<not> qdirty (db m)" "files D path \<noteq> None"
  shows "\<exists>m'. command_fset m (tg @ SP # ''seen true'') = Returns (''0 true'', m') \<and>
    question_get_flag (the_question m' q) DC_QFLAG_SEEN = 1 \<and>
    rfc822db_question_save dio (Some path) (db m') D = Returns (True, D)"
proof -
  let ?m = "upd_question q (question_set_flag ''seen'') m"
  have w: "word ''seen''" "word ''true''" by (simp_all add: word_def c_isspace_def)
  have "strcmdsplit (tg @ SP # ''seen'' @ SP # ''true'') 5 = [tg, ''seen'', ''true'']" by (rule Deb_Protocol.splits(7) [OF assms(2) w])
  then have "command_fset m (tg @ SP # ''seen true'') = Returns (''0 true'', ?m)"
    using assms(1) by (simp add: command_fset_def reply_def)
  moreover have "question_get_flag (the_question ?m q) DC_QFLAG_SEEN = 1"
    by (simp add: the_question_def upd_question_def question_upd_def question_flags flag_value_def DC_QFLAG_SEEN_def)
  moreover have "rfc822db_question_save dio (Some path) (db ?m) D = Returns (True, D)"
    using assms(3,4) by (simp add: rfc822db_question_save_def upd_question_def question_upd_def)
  ultimately show ?thesis by blast
qed

theorem fset_is_not_saved_witness:
  "\<exists>m'. command_fset example_mod (''a/b'' @ SP # ''seen true'') = Returns (''0 true'', m') \<and>
    question_get_flag (the_question m' 0) DC_QFLAG_SEEN = 1 \<and>
    rfc822db_question_save reliable_io (Some ''q'') (db m') small_disk = Returns (True, small_disk)"
proof (rule fset_is_not_saved [OF example_mod_ok(2)])
  show "word ''a/b''" by (simp add: word_def c_isspace_def)
  show "\<not> qdirty (db example_mod)" by code_simp
  show "files small_disk ''q'' \<noteq> None" by (simp add: small_disk_def)
qed

end
