(* ===== verification/Deb_Config.thy ===== *)
theory Deb_Config
  imports Deb_Rfc822 "HOL-Library.Sublist"
begin

text \<open>
  \<^verbatim>\<open>cdebconf/src/configuration.c\<close>: the tree of configuration values and the reader of the configuration
  file.

  An item is a node of a tree, its children are a list in the order of the links, and a pointer to an
  item is the list of the positions on the way from the root. The reader keeps the fixed buffers of the C
  code: a write behind the end of one of them is \<open>Died\<close>. What it scans for comments is the memory of the line
  with what is left behind a NUL, because the scan can get past the NUL that it has just written.
\<close>

section \<open>Definitions\<close>

subsection \<open>The tree\<close>

datatype configitem = Configitem (ci_tag: string) (ci_value: "string option") (ci_child: "configitem list")

fun child_index :: "configitem list \<Rightarrow> string \<Rightarrow> nat option" where
  "child_index [] tg = None"
| "child_index (i # is) tg = (if strcountcmp (ci_tag i) tg = 0 then Some 0 else map_option Suc (child_index is tg))"

definition set_children :: "configitem list \<Rightarrow> configitem \<Rightarrow> configitem" where
  "set_children is i = Configitem (ci_tag i) (ci_value i) is"

definition config_lookuphlp :: "configitem \<Rightarrow> string \<Rightarrow> bool \<Rightarrow> configitem \<times> nat option" where
  "config_lookuphlp head tg create =
     (case if tg \<noteq> [] then child_index (ci_child head) tg else None of
        Some i \<Rightarrow> (head, Some i)
      | None \<Rightarrow>
          if \<not> create then (head, None)
          else (set_children (ci_child head @ [Configitem tg None []]) head, Some (length (ci_child head))))"

text \<open>
  The parts of a tag. Behind a delimiter \<open>tagend\<close> is advanced once more, so that the first character of
  the next part is not looked at.
\<close>

function tag_segments :: "string \<Rightarrow> string \<Rightarrow> string list" where
  "tag_segments acc [] = [acc]"
| "tag_segments acc (c # s) =
     (if c = CHR '':'' \<and> peek s = CHR '':''
      then acc # (case tl s of [] \<Rightarrow> [[]] | d # r \<Rightarrow> tag_segments [d] r)
      else tag_segments (acc @ [c]) s)"
  by pat_completeness auto
termination
proof (relation "measure (length \<circ> snd)", goal_cases)
  case (2 acc c s d r)
  then show ?case by (cases s) auto
qed auto

fun config_descend :: "bool \<Rightarrow> string list \<Rightarrow> configitem \<Rightarrow> configitem \<times> nat list option" where
  "config_descend create [] item = (item, Some [])"
| "config_descend create (t # ts) item =
     (if ts = [] \<and> t = [] \<and> \<not> create then (item, None)
      else case config_lookuphlp item t create of
             (item, None) \<Rightarrow> (item, None)
           | (item, Some i) \<Rightarrow>
               (case config_descend create ts (ci_child item ! i) of
                  (c, p) \<Rightarrow> (set_children ((ci_child item)[i := c]) item, map_option ((#) i) p)))"

definition config_lookup :: "configitem \<Rightarrow> string option \<Rightarrow> bool \<Rightarrow> configitem \<times> nat list option" where
  "config_lookup root tg create =
     (case tg of
        None \<Rightarrow> (root, if ci_child root = [] then None else Some [0])
      | Some tg \<Rightarrow> config_descend create (tag_segments [] tg) root)"

fun item_at :: "nat list \<Rightarrow> configitem \<Rightarrow> configitem" where
  "item_at [] item = item"
| "item_at (i # p) item = item_at p (ci_child item ! i)"

fun set_value_at :: "nat list \<Rightarrow> string \<Rightarrow> configitem \<Rightarrow> configitem" where
  "set_value_at [] v item = Configitem (ci_tag item) (Some v) (ci_child item)"
| "set_value_at (i # p) v item = set_children ((ci_child item)[i := set_value_at p v (ci_child item ! i)]) item"

definition config_get :: "configitem \<Rightarrow> string option \<Rightarrow> string option \<Rightarrow> string option" where
  "config_get cfg tg defaultvalue =
     (case snd (config_lookup cfg tg False) of None \<Rightarrow> defaultvalue | Some p \<Rightarrow> ci_value (item_at p cfg))"

definition config_set :: "configitem \<Rightarrow> string \<Rightarrow> string \<Rightarrow> configitem" where
  "config_set cfg tg value =
     (case config_lookup cfg (Some tg) True of (cfg, None) \<Rightarrow> cfg | (cfg, Some p) \<Rightarrow> set_value_at p value cfg)"

definition config_seti :: "configitem \<Rightarrow> string \<Rightarrow> int \<Rightarrow> configitem" where
  "config_seti cfg tg value = config_set cfg tg (dec_int value)"

definition config_exists :: "configitem \<Rightarrow> string option \<Rightarrow> bool" where
  "config_exists cfg tg \<longleftrightarrow> snd (config_lookup cfg tg False) \<noteq> None"

definition config_tree :: "configitem \<Rightarrow> string option \<Rightarrow> configitem option" where
  "config_tree cfg tg = map_option (\<lambda>p. item_at p cfg) (snd (config_lookup cfg tg False))"

definition config_new :: configitem where
  "config_new = Configitem [] None []"

text \<open>\<open>strtol (s, &end, 0)\<close>: a prefix chooses the base; \<open>None\<close> when there are no digits.\<close>

definition based_digit :: "nat \<Rightarrow> char \<Rightarrow> nat option" where
  "based_digit base c =
     (let n = (of_char (c_tolower c) :: nat);
          d = (if 48 \<le> n \<and> n < 58 then n - 48 else if 97 \<le> n \<and> n < 123 then n - 87 else base)
      in if d < base then Some d else None)"

definition strtol_any :: "string \<Rightarrow> int option" where
  "strtol_any s =
     (let t = dropWhile c_isspace s;
          u = (if peek t = CHR ''-'' \<or> peek t = CHR ''+'' then tl t else t);
          hex = (peek u = CHR ''0'' \<and> c_tolower (peek (tl u)) = CHR ''x'' \<and> based_digit 16 (peek (tl (tl u))) \<noteq> None);
          base = (if hex then 16 else if peek u = CHR ''0'' then 8 else 10);
          ds = takeWhile (\<lambda>c. based_digit base c \<noteq> None) (if hex then drop 2 u else u);
          n = int (foldl (\<lambda>a c. a * base + the (based_digit base c)) 0 ds)
      in if ds = [] then None
         else Some (if peek t = CHR ''-'' then max (- (2 ^ 63)) (- n) else min (2 ^ 63 - 1) n))"

definition config_geti :: "configitem \<Rightarrow> string option \<Rightarrow> int \<Rightarrow> int run" where
  "config_geti cfg tg defaultvalue =
     (case config_tree cfg tg of
        None \<Rightarrow> Returns defaultvalue
      | Some item \<Rightarrow>
          (case ci_value item of
             None \<Rightarrow> Died
           | Some v \<Rightarrow> Returns (case strtol_any v of None \<Rightarrow> defaultvalue | Some n \<Rightarrow> to_int32 n)))"

subsection \<open>Printing the tree\<close>

text \<open>\<open>tags\<close> are the tags of an item and of those above it, the lowest first.\<close>

fun config_fulltag :: "nat \<Rightarrow> string list \<Rightarrow> string run" where
  "config_fulltag maxlen [] = Died"
| "config_fulltag maxlen [t] = (if length t < maxlen then Returns t else Died)"
| "config_fulltag maxlen (t # tags) =
     run_bind (config_fulltag maxlen tags) (\<lambda>buf.
       let r = strvacat [] maxlen [buf, ''::'', t] in if length r < maxlen then Returns r else Died)"

definition dump_line :: "string list \<Rightarrow> string option \<Rightarrow> string run" where
  "dump_line tags v =
     run_bind (config_fulltag 512 tags) (\<lambda>t.
       Returns (t @ '' '' @ [CHR 0x22] @ (case v of None \<Rightarrow> ''(null)'' | Some s \<Rightarrow> s) @ [CHR 0x22, NL]))"

fun dump_item :: "string list \<Rightarrow> configitem \<Rightarrow> string run"
and dump_items :: "string list \<Rightarrow> configitem list \<Rightarrow> string run" where
  "dump_item up (Configitem t v cs) =
     run_bind (dump_line (t # up) v) (\<lambda>l. run_bind (dump_items (t # up) cs) (\<lambda>ls. Returns (l @ ls)))"
| "dump_items up [] = Returns []"
| "dump_items up (c # cs) =
     run_bind (dump_item up c) (\<lambda>l. run_bind (dump_items up cs) (\<lambda>ls. Returns (l @ ls)))"

definition config_dump :: "configitem \<Rightarrow> string run" where
  "config_dump cfg = dump_items [] (ci_child cfg)"

subsection \<open>Comments\<close>

text \<open>\<open>m\<close> is the memory from the position of a pointer on. The memory behind the first end of a comment.\<close>

fun after_close :: "string \<Rightarrow> string option" where
  "after_close [] = None"
| "after_close (c # m) =
     (if c = NUL then None else if c = CHR ''*'' \<and> peek m = CHR ''/'' then Some (tl m) else after_close m)"

text \<open>\<open>memmove (m + k, r, strlen (r) + 1)\<close>\<close>

definition move_string :: "nat \<Rightarrow> string \<Rightarrow> string \<Rightarrow> string" where
  "move_string k r m = take k m @ cstr r @ NUL # drop (k + length (cstr r) + 1) m"

fun line_comment :: "bool \<Rightarrow> string \<Rightarrow> string" where
  "line_comment inquote [] = []"
| "line_comment inquote (c # m) =
     (if c = NUL then c # m
      else if c = CHR 0x5C then (case m of [] \<Rightarrow> [c] | d # m' \<Rightarrow> if d = NUL then c # m else c # d # line_comment inquote m')
      else let inquote = (if c = CHR 0x22 then \<not> inquote else inquote)
           in if inquote then c # line_comment inquote m
              else if c = CHR ''/'' \<and> peek m = CHR ''/'' then NUL # m
              else c # line_comment inquote m)"

text \<open>
  \<open>pre\<close> is what lies before \<open>s\<close>. The end of a comment is searched from the start of the line; what
  follows it is moved to \<open>s\<close>, which can make the line longer. \<open>off\<close> is the offset of the line in its buffer
  of 4096 bytes. The result says whether a comment is open at the end of the line.
\<close>

function block_comments :: "nat \<Rightarrow> bool \<Rightarrow> string \<Rightarrow> string \<Rightarrow> (bool \<times> string) run" where
  "block_comments off inquote pre [] = Returns (False, pre)"
| "block_comments off inquote pre (c # m) =
     (if c = NUL then Returns (False, pre @ c # m)
      else if c = CHR 0x5C then
        (if peek m = NUL then Returns (False, pre @ c # m) else block_comments off inquote (pre @ [c, hd m]) (tl m))
      else let inquote = (if c = CHR 0x22 then \<not> inquote else inquote)
           in if inquote then block_comments off inquote (pre @ [c]) m
              else if c = CHR ''/'' \<and> peek m = CHR ''*'' then
                (case after_close (pre @ c # m) of
                   None \<Rightarrow> Returns (True, pre @ NUL # m)
                 | Some t \<Rightarrow>
                     if off + length pre + length (cstr t) + 1 > 4096 then Died
                     else let line = move_string (length pre) t (pre @ c # m)
                          in block_comments off inquote (take (Suc (length pre)) line) (drop (Suc (length pre)) line))
              else block_comments off inquote (pre @ [c]) m)"
  by pat_completeness auto
termination
proof (relation "measure (\<lambda>(off, inq, pre, m). max 4096 (length pre + length m) - length pre)", goal_cases)
  case (2 off inq pre c m)
  then show ?case by (cases m) auto
next
  case (4 off inq pre c m inq' t line)
  have "length line \<le> max 4096 (length pre + length (c # m))" "Suc (length pre) \<le> length line"
    using 4 by (auto simp: move_string_def)
  then show ?case by (auto simp: min_def)
qed (auto simp: max_def)

subsection \<open>Statements\<close>

record config_reader =
  cfg_root :: configitem
  parenttag :: string
  linebuf :: string
  tagstack :: "string list"

function cword_loop :: "char \<Rightarrow> string \<Rightarrow> string option" where
  "cword_loop prev [] = Some []"
| "cword_loop prev (c # s) =
     (if c = CHR 0x22 then
        (case skip_quoted s of
           None \<Rightarrow> None
         | Some r \<Rightarrow>
             (case strunescape s (length s - length r + 1) STRESCAPE_QUOTE of
                None \<Rightarrow> None
              | Some v \<Rightarrow> map_option ((@) v) (cword_loop (hd r) (tl r))))
      else if c_isspace c \<and> c_isspace prev then cword_loop c s
      else if \<not> c_isspace c then None
      else map_option ((#) CHR '' '') (cword_loop c s))"
  by pat_completeness auto
termination
proof (relation "measure (length \<circ> snd)", goal_cases)
  case (2 prev c s r v)
  then show ?case using skip_quoted_length [of s r] by (cases r) auto
qed auto

text \<open>A word and the text behind it; \<open>None\<close> stands for the result 0.\<close>

definition strparsecword :: "string \<Rightarrow> nat \<Rightarrow> (string \<times> string) option" where
  "strparsecword inbuf maxlen =
     (let c = dropWhile c_isspace inbuf
      in if c = [] \<or> length inbuf > maxlen then None
         else map_option (\<lambda>out. (out, [])) (cword_loop NUL c))"

definition config_word :: "nat \<Rightarrow> string \<Rightarrow> (string \<times> string) option run" where
  "config_word maxlen q =
     (case strparsecword q maxlen of
        Some r \<Rightarrow> Returns (Some r)
      | None \<Rightarrow>
          (case strparsequoteword q of
             None \<Rightarrow> Returns None
           | Some (w, q) \<Rightarrow> if length w < maxlen then Returns (Some (w, q)) else Died))"

definition close_block :: "config_reader \<Rightarrow> config_reader" where
  "close_block st =
     (case tagstack st of [] \<Rightarrow> st\<lparr>parenttag := []\<rparr> | p # ps \<Rightarrow> st\<lparr>parenttag := p, tagstack := ps\<rparr>)"

definition open_block :: "string \<Rightarrow> string \<Rightarrow> config_reader \<Rightarrow> config_reader run" where
  "open_block tg value st =
     (let st = (if length (tagstack st) \<le> 99 then st\<lparr>tagstack := parenttag st # tagstack st\<rparr> else st);
          tg = (if value \<noteq> [] then strvacat tg 256 [''::'', value] else tg);
          par = (if parenttag st = [] then tg else strvacat (parenttag st) 256 [''::'', tg])
      in if length tg < 256 \<and> length par < 256 then Returns (st\<lparr>parenttag := par\<rparr>) else Died)"

definition item_name :: "string \<Rightarrow> char \<Rightarrow> string \<Rightarrow> string" where
  "item_name par termchar tg =
     (if par = [] then tg
      else if termchar \<noteq> CHR ''{'' \<or> tg \<noteq> [] then strvacat [] 4096 [par, ''::'', tg]
      else par)"

definition set_item :: "char \<Rightarrow> string \<Rightarrow> string \<Rightarrow> config_reader \<Rightarrow> config_reader" where
  "set_item termchar tg value st =
     (let st = st\<lparr>cfg_root := config_set (cfg_root st) (item_name (parenttag st) termchar tg) value, linebuf := []\<rparr>
      in if termchar = CHR ''}'' then close_block st else st)"

text \<open>What happens at a \<open>{\<close>, \<open>;\<close> or \<open>}\<close> outside of quotes. \<open>False\<close> is a syntax error.\<close>

definition end_statement :: "char \<Rightarrow> config_reader \<Rightarrow> (bool \<times> config_reader) run" where
  "end_statement termchar st =
     (if linebuf st = [] then
        (if termchar = CHR ''{'' then Returns (False, st)
         else Returns (True, if termchar = CHR ''}'' then close_block st else st))
      else run_bind (config_word 256 (linebuf st)) (\<lambda>w. case w of
        None \<Rightarrow> Returns (False, st)
      | Some (tg, q) \<Rightarrow> run_bind (config_word 4096 q) (\<lambda>w.
          case (case w of Some (v, q) \<Rightarrow> (tg, v, q)
                | None \<Rightarrow> if termchar \<noteq> CHR ''{'' then ([], tg, q) else (tg, [], q)) of
            (tg, value, q) \<Rightarrow>
              if q \<noteq> [] then Returns (False, st)
              else if termchar = CHR ''{''
              then run_bind (open_block tg value st) (\<lambda>st. Returns (True, set_item termchar [] [] st))
              else Returns (True, set_item termchar tg value st))))"

definition add_fragment :: "string \<Rightarrow> config_reader \<Rightarrow> config_reader run" where
  "add_fragment f st =
     (let l = (if linebuf st \<noteq> [] \<and> f \<noteq> [] then linebuf st @ '' '' else linebuf st) @ f
      in if length l < 8192 then Returns (st\<lparr>linebuf := l\<rparr>) else Died)"

text \<open>The scan of a line: \<open>pre\<close> is what lies between \<open>buf\<close> and \<open>s\<close>. The result has what is left of the line.\<close>

fun scan_line :: "bool \<Rightarrow> string \<Rightarrow> string \<Rightarrow> config_reader \<Rightarrow> (bool \<times> string \<times> config_reader) run" where
  "scan_line inquote pre [] st = Returns (True, pre, st)"
| "scan_line inquote pre (c # s) st =
     (if c = CHR 0x5C then
        (case s of [] \<Rightarrow> Returns (True, pre @ [c], st) | d # s' \<Rightarrow> scan_line inquote (pre @ [c, d]) s' st)
      else let inquote = (if c = CHR 0x22 then \<not> inquote else inquote)
           in if \<not> inquote \<and> c \<in> {CHR ''{'', CHR '';'', CHR ''}''}
              then run_bind (add_fragment (strstrip pre) st) (\<lambda>st. run_bind (end_statement c st) (\<lambda>(ok, st).
                     if ok then scan_line inquote [] s st else Returns (False, s, st)))
              else scan_line inquote (pre @ [c]) s st)"

text \<open>The result of \<open>strstrip\<close> is not used: only the spaces at the end go, and only when there is something else.\<close>

definition store_rest :: "string \<Rightarrow> config_reader \<Rightarrow> config_reader run" where
  "store_rest buf st =
     (let b = (if list_all c_isspace buf then buf else rev (dropWhile c_isspace (rev buf)));
          l = (if b \<noteq> [] \<and> linebuf st \<noteq> [] then strvacat (linebuf st) 8192 ['' ''] else linebuf st) @ b
      in if length l < 8192 then Returns (st\<lparr>linebuf := l\<rparr>) else Died)"

definition config_text :: "string \<Rightarrow> config_reader \<Rightarrow> (bool \<times> config_reader) run" where
  "config_text buf st =
     (if buf = [] then Returns (True, st)
      else run_bind (scan_line False [] (strstrip buf) st) (\<lambda>(ok, rest, st).
        if ok then run_bind (store_rest rest st) (\<lambda>st. Returns (True, st)) else Returns (False, st)))"

text \<open>One line. The first component of the result says whether to go on.\<close>

definition config_line :: "string \<Rightarrow> bool \<Rightarrow> config_reader \<Rightarrow> (bool \<times> bool \<times> config_reader) run" where
  "config_line buffer incomment st =
     (let m = strstrip buffer @ [NUL];
          off = length (takeWhile c_isspace buffer)
      in case if incomment then map_option (\<lambda>r. move_string 0 r m) (after_close m) else Some m of
           None \<Rightarrow> Returns (True, True, st)
         | Some m \<Rightarrow>
             run_bind (block_comments off False [] (line_comment False m)) (\<lambda>(incomment, m).
               run_bind (config_text (cstr m) st) (\<lambda>(ok, st). Returns (ok, incomment, st))))"

function config_loop :: "string \<Rightarrow> bool \<Rightarrow> config_reader \<Rightarrow> (bool \<times> config_reader) run" where
  "config_loop s incomment st =
     (case fgets 4096 s of
        (buffer, r) \<Rightarrow>
          if buffer = [] then Returns (True, st)
          else run_bind (config_line buffer incomment st) (\<lambda>(ok, incomment, st).
            if ok then config_loop r incomment st else Returns (False, st)))"
  by pat_completeness auto
termination
proof (relation "measure (length \<circ> fst)", goal_cases)
  case (2 s inc st b r)
  then show ?case using fgets_length [of 4096 s] by (cases b) (auto dest: sym)
qed auto

text \<open>The file is \<open>None\<close> when it cannot be opened.\<close>

definition config_read :: "configitem \<Rightarrow> string option \<Rightarrow> (bool \<times> configitem) run" where
  "config_read cfg file =
     (case file of
        None \<Rightarrow> Returns (False, cfg)
      | Some s \<Rightarrow>
          run_bind (config_loop s False \<lparr>cfg_root = cfg, parenttag = [], linebuf = [], tagstack = []\<rparr>)
            (\<lambda>(ok, st). Returns (ok, cfg_root st)))"

text \<open>
  The scan for comments goes on behind the NUL that the removal of a comment at the end of a line has written: a second
  opening in the comment counts, and the comment stays open.
\<close>

lemma nested_comment_open:
  "block_comments 0 False [] (''x /* a /* b */'' @ [NUL]) = Returns (True, ''x '' @ [NUL] @ ''* a '' @ [NUL] @ ''* b */'' @ [NUL])"
  by code_simp

text \<open>An integer that is read from a block that was never given a value is read through a null pointer.\<close>

lemma geti_without_value: "config_geti (config_set config_new ''a::b'' ''1'') (Some ''a'') d = Died"
  by code_simp

section \<open>The tree as a table\<close>

text \<open>
  The item under a path of names, and what setting a value does to the tree, without pointers. The tag of an entry
  of a list is empty and never found.
\<close>

fun find_item :: "string list \<Rightarrow> configitem \<Rightarrow> configitem option" where
  "find_item [] item = Some item"
| "find_item (t # ts) item =
     (if t = [] then None
      else case child_index (ci_child item) t of None \<Rightarrow> None | Some i \<Rightarrow> find_item ts (ci_child item ! i))"

fun put_item :: "string list \<Rightarrow> string \<Rightarrow> configitem \<Rightarrow> configitem" where
  "put_item [] v item = Configitem (ci_tag item) (Some v) (ci_child item)"
| "put_item (t # ts) v item =
     (case if t = [] then None else child_index (ci_child item) t of
        Some i \<Rightarrow> set_children ((ci_child item)[i := put_item ts v (ci_child item ! i)]) item
      | None \<Rightarrow> set_children (ci_child item @ [put_item ts v (Configitem t None [])]) item)"

lemma set_children_simps [simp]:
  "ci_tag (set_children cs i) = ci_tag i" "ci_value (set_children cs i) = ci_value i" "ci_child (set_children cs i) = cs"
  "set_children (ci_child i) i = i" "set_children cs (set_children ds i) = set_children cs i"
  by (simp_all add: set_children_def)

lemma strcountcmp_eq_0 [simp]: "strcountcmp s t = 0 \<longleftrightarrow> s = t"
  by (induction s t rule: strcountcmp.induct) auto

lemma child_index_Some: "child_index is t = Some i \<Longrightarrow> i < length is \<and> ci_tag (is ! i) = t"
  by (induction "is" arbitrary: i) (auto split: if_splits)

lemma child_index_map: "map ci_tag is = map ci_tag js \<Longrightarrow> child_index is t = child_index js t"
proof (induction "is" arbitrary: js)
  case (Cons i "is")
  then show ?case by (cases js) auto
qed simp

lemma child_index_append:
  "child_index (is @ [j]) t =
     (case child_index is t of Some i \<Rightarrow> Some i | None \<Rightarrow> if ci_tag j = t then Some (length is) else None)"
  by (induction "is") (auto split: option.split)

lemma put_item_tag [simp]: "ci_tag (put_item ts v item) = ci_tag item"
  by (cases ts) (auto split: option.split)

lemma child_index_update:
  assumes "ci_tag j = ci_tag (is ! i)"
  shows "child_index (is[i := j]) t = child_index is t"
  by (rule child_index_map) (metis assms list_update_beyond list_update_id map_update not_less)

lemma descend_get:
  "fst (config_descend False ts item) = item \<and>
   map_option (\<lambda>p. item_at p item) (snd (config_descend False ts item)) = find_item ts item"
proof (induction ts arbitrary: item)
  case (Cons t ts)
  show ?case
  proof (cases "t = [] \<or> child_index (ci_child item) t = None")
    case False
    then obtain i where i: "t \<noteq> []" "child_index (ci_child item) t = Some i" by auto
    obtain c q where c: "config_descend False ts (ci_child item ! i) = (c, q)" by fastforce
    with Cons.IH [of "ci_child item ! i"] have "c = ci_child item ! i" by simp
    then show ?thesis using i c Cons.IH [of "ci_child item ! i"]
      by (cases q) (simp_all add: config_lookuphlp_def)
  qed (auto simp: config_lookuphlp_def)
qed simp

lemma tree_find: "config_tree cfg (Some t) = find_item (tag_segments [] t) cfg"
  using descend_get [of "tag_segments [] t" cfg] by (simp add: config_tree_def config_lookup_def)

lemma get_find: "config_get cfg (Some t) d = (case find_item (tag_segments [] t) cfg of None \<Rightarrow> d | Some i \<Rightarrow> ci_value i)"
  using tree_find [of cfg t] by (auto simp: config_get_def config_tree_def split: option.splits)

lemma exists_find: "config_exists cfg (Some t) \<longleftrightarrow> find_item (tag_segments [] t) cfg \<noteq> None"
  by (simp add: config_exists_def tree_find [symmetric] config_tree_def)

lemma descend_put:
  "\<exists>item' p. config_descend True ts item = (item', Some p) \<and> set_value_at p v item' = put_item ts v item"
proof (induction ts arbitrary: item)
  case (Cons t ts)
  show ?case
  proof (cases "if t = [] then None else child_index (ci_child item) t")
    case None
    let ?new = "Configitem t None []"
    from Cons.IH [of ?new] obtain c p where "config_descend True ts ?new = (c, Some p)" "set_value_at p v c = put_item ts v ?new" by blast
    then show ?thesis using None by (auto simp: config_lookuphlp_def split: if_splits)
  next
    case (Some i)
    then have "i < length (ci_child item)" by (auto split: if_splits dest: child_index_Some)
    moreover from Cons.IH [of "ci_child item ! i"] obtain c p where
      "config_descend True ts (ci_child item ! i) = (c, Some p)" "set_value_at p v c = put_item ts v (ci_child item ! i)" by blast
    ultimately show ?thesis using Some by (auto simp: config_lookuphlp_def split: if_splits)
  qed
qed simp

lemma set_put: "config_set cfg t v = put_item (tag_segments [] t) v cfg"
  using descend_put [of "tag_segments [] t" cfg v] by (auto simp: config_set_def config_lookup_def)

text \<open>The values under the paths after a value was set: new items on the way have no value.\<close>

definition value_at :: "string list \<Rightarrow> configitem \<Rightarrow> string option option" where
  "value_at ts item = map_option ci_value (find_item ts item)"

lemma value_at_new: "us \<noteq> [] \<Longrightarrow> find_item us (Configitem t v []) = None"
  by (cases us) auto

lemma value_at_put:
  assumes "[] \<notin> set ts" "[] \<notin> set us"
  shows "value_at us (put_item ts v item) =
    (if us = ts then Some (Some v)
     else case value_at us item of Some x \<Rightarrow> Some x | None \<Rightarrow> if prefix us ts then Some None else None)"
  using assms
proof (induction ts arbitrary: us item)
  case Nil
  then show ?case by (cases us) (auto simp: value_at_def split: option.split)
next
  case (Cons t ts)
  show ?case
  proof (cases us)
    case Nil
    then show ?thesis by (auto simp: value_at_def split: option.split)
  next
    case (Cons u us')
    then have t: "t \<noteq> []" "u \<noteq> []" "[] \<notin> set ts" "[] \<notin> set us'" using Cons.prems by auto
    show ?thesis
    proof (cases "child_index (ci_child item) t")
      case None
      have new: "value_at us' (put_item ts v (Configitem t None [])) =
          (if us' = ts then Some (Some v) else if prefix us' ts then Some None else None)"
        using Cons.IH [OF t(3,4), of "Configitem t None []"] by (cases "us' = []") (auto simp: value_at_def value_at_new)
      show ?thesis
      proof (cases "u = t")
        case True
        then show ?thesis using new None t Cons by (auto simp: value_at_def child_index_append)
      next
        case False
        then show ?thesis using None t Cons
          by (auto simp: value_at_def child_index_append nth_append split: option.split dest: child_index_Some)
      qed
    next
      case (Some i)
      note i = child_index_Some [OF Some]
      have ix: "child_index ((ci_child item)[i := put_item ts v (ci_child item ! i)]) u = child_index (ci_child item) u"
        by (rule child_index_update) simp
      show ?thesis
      proof (cases "u = t")
        case True
        then show ?thesis using Cons.IH [OF t(3,4), of "ci_child item ! i"] Some i t ix Cons by (simp add: value_at_def)
      next
        case False
        then show ?thesis using Some i t ix Cons
          by (auto simp: value_at_def nth_list_update split: option.split dest: child_index_Some)
      qed
    qed
  qed
qed

text \<open>
  Property C31: A configuration is a table from tags to values: after a value was set it is found under its tag, the
  values under all other tags are what they were, and a tag that was not there before has no value if it lies
  on the way to the new one, and is still not there otherwise.
\<close>

theorem config_set_updates:
  assumes "[] \<notin> set (tag_segments [] t)" "[] \<notin> set (tag_segments [] u)"
  shows "config_get (config_set cfg t v) (Some u) d =
    (if tag_segments [] u = tag_segments [] t then Some v
     else if config_exists cfg (Some u) then config_get cfg (Some u) d
     else if prefix (tag_segments [] u) (tag_segments [] t) then None else d)"
proof -
  have "config_get c (Some u) d = (case value_at (tag_segments [] u) c of None \<Rightarrow> d | Some x \<Rightarrow> x)" for c
    by (simp add: get_find value_at_def split: option.split)
  moreover have "config_exists cfg (Some u) \<longleftrightarrow> value_at (tag_segments [] u) cfg \<noteq> None"
    by (simp add: exists_find value_at_def)
  ultimately show ?thesis by (auto simp: set_put value_at_put [OF assms] split: option.split)
qed

theorem config_set_updates_witness:
  "config_get (config_set config_new ''a::b'' ''x'') (Some ''a::b'') None = Some ''x'' \<and>
   config_get (config_set config_new ''a::b'' ''x'') (Some ''a'') (Some ''y'') = None \<and>
   config_get (config_set config_new ''a::b'' ''x'') (Some ''b'') (Some ''y'') = Some ''y''"
proof -
  have s: "tag_segments [] ''a::b'' = [''a'', ''b'']" "tag_segments [] ''a'' = [''a'']" "tag_segments [] ''b'' = [''b'']"
    by (simp_all add: peek_def)
  have n: "[] \<notin> set (tag_segments [] ''a::b'')" "[] \<notin> set (tag_segments [] ''a'')" "[] \<notin> set (tag_segments [] ''b'')"
    by (simp_all add: s)
  have "\<not> config_exists config_new (Some ''a'')" "\<not> config_exists config_new (Some ''b'')"
    by (simp_all add: exists_find s config_new_def)
  then show ?thesis
    using config_set_updates [OF n(1,1), of config_new "''x''" None] config_set_updates [OF n(1,2), of config_new "''x''" "Some ''y''"]
      config_set_updates [OF n(1,3), of config_new "''x''" "Some ''y''"] by (simp add: s)
qed

subsection \<open>Lists\<close>

text \<open>A tag that ends with a delimiter appends an entry to a list.\<close>

definition entries :: "configitem option \<Rightarrow> string option list" where
  "entries item = (case item of None \<Rightarrow> [] | Some i \<Rightarrow> map ci_value (ci_child i))"

lemma put_entry:
  assumes "[] \<notin> set ts"
  shows "entries (find_item ts (put_item (ts @ [[]]) v item)) = entries (find_item ts item) @ [Some v]"
  using assms
proof (induction ts arbitrary: item)
  case (Cons t ts)
  show ?case
  proof (cases "child_index (ci_child item) t")
    case None
    have "entries (find_item ts (Configitem t None [])) = []" by (cases ts) (auto simp: entries_def)
    then show ?thesis using Cons.IH [of "Configitem t None []"] Cons.prems None by (auto simp: child_index_append entries_def)
  next
    case (Some i)
    have "child_index ((ci_child item)[i := put_item (ts @ [[]]) v (ci_child item ! i)]) t = Some i"
      using Some by (simp add: child_index_update)
    then show ?thesis using Cons.IH [of "ci_child item ! i"] Cons.prems Some child_index_Some [OF Some] by auto
  qed
qed (simp add: entries_def)

lemma tag_segments_plain: "CHR '':'' \<notin> set s \<Longrightarrow> tag_segments acc s = [acc @ s]"
  by (induction s arbitrary: acc) auto

lemma tag_segments_delim:
  assumes "CHR '':'' \<notin> set s"
  shows "tag_segments acc (s @ CHR '':'' # CHR '':'' # r) = (acc @ s) # (case r of [] \<Rightarrow> [[]] | d # r \<Rightarrow> tag_segments [d] r)"
  using assms by (induction s arbitrary: acc) (auto simp: peek_def split: list.split)

text \<open>The tag of a path of names.\<close>

fun tag_join :: "string list \<Rightarrow> string" where
  "tag_join [] = []"
| "tag_join [n] = n"
| "tag_join (n # m # ns) = n @ CHR '':'' # CHR '':'' # tag_join (m # ns)"

lemma tag_join_append:
  "ns \<noteq> [] \<Longrightarrow> ms \<noteq> [] \<Longrightarrow> tag_join (ns @ ms) = tag_join ns @ CHR '':'' # CHR '':'' # tag_join ms"
proof (induction ns rule: tag_join.induct)
  case (2 n)
  then show ?case by (cases ms) auto
qed auto

lemma tag_join_empty: "tag_join ns = [] \<longleftrightarrow> ns = [] \<or> ns = [[]]"
  by (induction ns rule: tag_join.induct) auto

lemma segments_join:
  assumes "ns \<noteq> []" "\<forall>n \<in> set ns. CHR '':'' \<notin> set n" "[] \<notin> set (butlast ns)"
  shows "tag_segments [] (tag_join ns) = ns"
  using assms
proof (induction ns rule: tag_join.induct)
  case (3 n m ns)
  then have ih: "tag_segments [] (tag_join (m # ns)) = m # ns" by (auto split: if_splits)
  show ?case
  proof (cases m)
    case Nil
    then have "ns = []" using 3(4) by (auto split: if_splits)
    then show ?thesis using 3(3) Nil by (simp add: tag_segments_delim)
  next
    case (Cons d m')
    then obtain r where "tag_join (m # ns) = d # r" by (cases ns) auto
    then show ?thesis using 3(3) Cons ih by (auto simp: tag_segments_delim split: if_splits)
  qed
qed (auto simp: tag_segments_plain)

lemma set_join:
  assumes "ns \<noteq> []" "\<forall>n \<in> set ns. CHR '':'' \<notin> set n" "[] \<notin> set (butlast ns)"
  shows "config_set cfg (tag_join ns) v = put_item ns v cfg"
  using segments_join [OF assms] by (simp add: set_put)

end
