(* ===== verification/Deb_ConfigFile.thy ===== *)
theory Deb_ConfigFile
  imports Deb_Config
begin

text \<open>
  What reading a configuration file does to the tree. A file is described as lines of statements and comments,
  and the effect of a statement on the tree is stated with paths of names.
\<close>

section \<open>Statements\<close>

datatype stmt = Setting string string | Bare string string | Entry string | Open string string | Close

datatype conf_line = Stmts nat "stmt list" | Comment nat string

definition quoted :: "string \<Rightarrow> string" where
  "quoted v = CHR 0x22 # v @ [CHR 0x22]"

fun fragment :: "stmt \<Rightarrow> string" where
  "fragment (Setting n v) = n @ CHR '' '' # quoted v"
| "fragment (Bare n v) = n @ CHR '' '' # v"
| "fragment (Entry v) = quoted v"
| "fragment (Open n a) = n @ (if a = [] then [] else CHR '' '' # quoted a)"
| "fragment Close = []"

fun stmt_text :: "stmt \<Rightarrow> string" where
  "stmt_text (Open n a) = fragment (Open n a) @ '' {''"
| "stmt_text Close = ''};''"
| "stmt_text s = fragment s @ '';''"

fun stmts_text :: "stmt list \<Rightarrow> string" where
  "stmts_text [] = []"
| "stmts_text (s # ss) = stmt_text s @ (if ss = [] then [] else CHR '' '' # stmts_text ss)"

fun line_text :: "conf_line \<Rightarrow> string" where
  "line_text (Stmts k ss) = replicate k (CHR '' '') @ stmts_text ss"
| "line_text (Comment k s) = replicate k (CHR '' '') @ CHR ''/'' # CHR ''/'' # s"

definition file_text :: "conf_line list \<Rightarrow> string" where
  "file_text ls = concat (map (\<lambda>l. line_text l @ [NL]) ls)"

text \<open>The path of the open block, the paths around it, and the tree.\<close>

type_synonym conf_state = "string list \<times> string list list \<times> configitem"

definition block_path :: "string list \<Rightarrow> string \<Rightarrow> string \<Rightarrow> string list" where
  "block_path par n a = par @ n # (if a = [] then [] else [a])"

fun exec :: "stmt \<Rightarrow> conf_state \<Rightarrow> conf_state" where
  "exec (Setting n v) (par, stk, cfg) = (par, stk, put_item (par @ [n]) v cfg)"
| "exec (Bare n v) (par, stk, cfg) = (par, stk, put_item (par @ [n]) v cfg)"
| "exec (Entry v) (par, stk, cfg) = (par, stk, put_item (par @ [[]]) v cfg)"
| "exec (Open n a) (par, stk, cfg) = (block_path par n a, par # stk, put_item (block_path par n a) [] cfg)"
| "exec Close (par, stk, cfg) = (case stk of [] \<Rightarrow> ([], [], cfg) | p # ps \<Rightarrow> (p, ps, cfg))"

fun line_stmts :: "conf_line \<Rightarrow> stmt list" where
  "line_stmts (Stmts k ss) = ss"
| "line_stmts (Comment k s) = []"

definition word_char :: "char \<Rightarrow> bool" where
  "word_char c \<longleftrightarrow> \<not> c_isspace c \<and>
     c \<notin> {NUL, CHR 0x22, CHR 0x5C, CHR ''['', CHR ''/'', CHR '';'', CHR ''{'', CHR ''}'', CHR '':''}"

definition word :: "string \<Rightarrow> bool" where
  "word n \<longleftrightarrow> n \<noteq> [] \<and> list_all word_char n"

definition quotable :: "string \<Rightarrow> bool" where
  "quotable v \<longleftrightarrow> list_all (\<lambda>c. c \<notin> {NUL, NL, CHR 0x22, CHR 0x5C}) v"

text \<open>The limits are those of the buffers.\<close>

fun stmt_ok :: "stmt \<Rightarrow> conf_state \<Rightarrow> bool" where
  "stmt_ok (Setting n v) x \<longleftrightarrow> word n \<and> length n < 256 \<and> quotable v \<and> length v \<le> 4094"
| "stmt_ok (Bare n v) x \<longleftrightarrow> word n \<and> length n < 256 \<and> word v \<and> length v < 4096"
| "stmt_ok (Entry v) x \<longleftrightarrow> quotable v \<and> length v \<le> 254"
| "stmt_ok (Open n a) (par, stk, cfg) \<longleftrightarrow> word n \<and> quotable a \<and> CHR '':'' \<notin> set a \<and> length stk \<le> 99 \<and>
     length (tag_join (block_path par n a)) < 256"
| "stmt_ok Close x \<longleftrightarrow> True"

fun stmts_ok :: "stmt list \<Rightarrow> conf_state \<Rightarrow> bool" where
  "stmts_ok [] x \<longleftrightarrow> True"
| "stmts_ok (s # ss) x \<longleftrightarrow> stmt_ok s x \<and> stmts_ok ss (exec s x)"

fun line_ok :: "conf_line \<Rightarrow> bool" where
  "line_ok l \<longleftrightarrow> NL \<notin> set (line_text l) \<and> length (line_text l) < 4095"

section \<open>Words\<close>

lemma unescape_plain: "CHR 0x5C \<notin> set v \<Longrightarrow> strunescape_loop m (length v) (v @ r) = Some v"
  by (induction v) (auto, cases r, auto)

lemma strunescape_plain: "CHR 0x5C \<notin> set v \<Longrightarrow> strunescape (v @ r) (Suc (length v)) m = Some v"
  by (simp add: strunescape_def room_of_def unescape_plain)

lemma word_first: "word n \<Longrightarrow> \<exists>c s. n = c # s \<and> \<not> c_isspace c \<and> c \<noteq> CHR 0x22"
  by (cases n) (auto simp: word_def word_char_def)

lemma word_no_backslash: "word n \<Longrightarrow> CHR 0x5C \<notin> set n"
  by (auto simp: word_def word_char_def list_all_iff)

lemma quoteword_end_word: "list_all word_char n \<Longrightarrow> r = [] \<or> c_isspace (hd r) \<Longrightarrow> quoteword_end (n @ r) = Some r"
proof (induction n)
  case Nil
  then show ?case by (cases r) auto
qed (auto simp: word_char_def)

lemma parse_config_word:
  assumes "word n" "r = [] \<or> c_isspace (hd r)"
  shows "strparsecword (n @ r) k = None" "strparsequoteword (n @ r) = Some (n, dropWhile c_isspace r)"
proof -
  obtain c s where c: "n = c # s" "\<not> c_isspace c" "c \<noteq> CHR 0x22" using word_first [OF assms(1)] by blast
  show "strparsecword (n @ r) k = None" using c by (simp add: strparsecword_def)
  have "quoteword_end (n @ r) = Some r" using assms by (intro quoteword_end_word) (auto simp: word_def)
  then show "strparsequoteword (n @ r) = Some (n, dropWhile c_isspace r)"
    using c strunescape_plain [OF word_no_backslash [OF assms(1)], of r STRESCAPE_QUOTE]
    by (simp add: strparsequoteword_def Let_def)
qed

lemma config_word_word:
  assumes "word n" "r = [] \<or> c_isspace (hd r)" "length n < k"
  shows "config_word k (n @ r) = Returns (Some (n, dropWhile c_isspace r))"
  using assms by (simp add: config_word_def parse_config_word)

lemma skip_quoted_plain: "CHR 0x22 \<notin> set v \<Longrightarrow> CHR 0x5C \<notin> set v \<Longrightarrow> skip_quoted (v @ CHR 0x22 # r) = Some (CHR 0x22 # r)"
  by (induction v) auto

lemma config_word_quoted:
  assumes "quotable v" "length v + 2 \<le> k"
  shows "config_word k (quoted v) = Returns (Some (v, []))"
proof -
  have v: "CHR 0x22 \<notin> set v" "CHR 0x5C \<notin> set v" using assms(1) by (auto simp: quotable_def list_all_iff)
  have "cword_loop NUL (quoted v) = Some v"
    using skip_quoted_plain [OF v, of "[]"] strunescape_plain [OF v(2), of "[CHR 0x22]"] by (simp add: quoted_def)
  then show ?thesis using assms(2) by (simp add: config_word_def strparsecword_def quoted_def c_isspace_def)
qed

lemma config_word_empty: "config_word k [] = Returns None"
  by (simp add: config_word_def strparsecword_def strparsequoteword_def)

section \<open>One statement\<close>

fun reader :: "conf_state \<Rightarrow> config_reader" where
  "reader (par, stk, cfg) = \<lparr>cfg_root = cfg, parenttag = tag_join par, linebuf = [], tagstack = map tag_join stk\<rparr>"

definition path_ok :: "string list \<Rightarrow> bool" where
  "path_ok ns \<longleftrightarrow> (\<forall>n \<in> set ns. n \<noteq> [] \<and> CHR '':'' \<notin> set n)"

fun state_ok :: "conf_state \<Rightarrow> bool" where
  "state_ok (par, stk, cfg) \<longleftrightarrow> (\<forall>p \<in> set (par # stk). path_ok p \<and> length (tag_join p) < 256)"

fun term_char :: "stmt \<Rightarrow> char" where
  "term_char (Open n a) = CHR ''{''"
| "term_char s = CHR '';''"

lemma word_path: "word n \<Longrightarrow> n \<noteq> [] \<and> CHR '':'' \<notin> set n"
  by (auto simp: word_def word_char_def list_all_iff)

lemma path_join_empty: "path_ok ns \<Longrightarrow> tag_join ns = [] \<longleftrightarrow> ns = []"
  by (auto simp: path_ok_def tag_join_empty)

lemma path_set: "path_ok ns \<Longrightarrow> CHR '':'' \<notin> set n \<Longrightarrow> config_set cfg (tag_join (ns @ [n])) v = put_item (ns @ [n]) v cfg"
  by (rule set_join) (auto simp: path_ok_def)

lemma path_set_block:
  assumes "path_ok ns" "ns \<noteq> []"
  shows "config_set cfg (tag_join ns) v = put_item ns v cfg"
proof (rule set_join [OF assms(2)])
  show "[] \<notin> set (butlast ns)" using assms(1) by (metis in_set_butlastD path_ok_def)
qed (use assms(1) in \<open>simp add: path_ok_def\<close>)

lemma item_name_join:
  assumes "path_ok par" "length (tag_join par) < 256" "length n < 256" "t \<noteq> CHR ''{''"
  shows "item_name (tag_join par) t n = tag_join (par @ [n])"
  using assms path_join_empty [OF assms(1)] by (auto simp: item_name_def tag_join_append)

lemma set_item_join:
  assumes "path_ok par" "length (tag_join par) < 256" "length n < 256" "CHR '':'' \<notin> set n"
  shows "set_item (CHR '';'') n v (reader (par, stk, cfg)\<lparr>linebuf := f\<rparr>) = reader (par, stk, put_item (par @ [n]) v cfg)"
  using assms by (simp add: set_item_def item_name_join path_set)

lemma open_block_join:
  assumes "path_ok par" "word n" "length stk \<le> 99" "length (tag_join (block_path par n a)) < 256"
  shows "open_block n a (reader (par, stk, cfg)\<lparr>linebuf := f\<rparr>) = Returns (reader (block_path par n a, par # stk, cfg)\<lparr>linebuf := f\<rparr>)"
proof -
  define b where "b = n # (if a = [] then [] else [a])"
  have bp: "block_path par n a = par @ b" "b \<noteq> []" by (simp_all add: block_path_def b_def)
  have p: "tag_join (par @ b) = (if par = [] then tag_join b else tag_join par @ CHR '':'' # CHR '':'' # tag_join b)"
    using bp(2) by (simp add: tag_join_append)
  have l: "length (tag_join par) + 2 + length (tag_join b) < 256 \<or> par = []" "length (tag_join b) < 256"
    using assms(4) unfolding bp p by (auto split: if_splits)
  have t: "(if a \<noteq> [] then strvacat n 256 [''::'', a] else n) = tag_join b"
    using l(2) by (simp add: b_def split: if_splits)
  have "(if tag_join par = [] then tag_join b else strvacat (tag_join par) 256 [''::'', tag_join b]) = tag_join (par @ b)"
    using l(1) by (auto simp: p path_join_empty [OF assms(1)])
  then show ?thesis using assms(3,4) l(2)
    by (cases "tag_join par = []") (simp_all add: open_block_def Let_def t bp(1) del: strvacat.simps)
qed

lemma block_path_ok: "path_ok par \<Longrightarrow> stmt_ok (Open n a) (par, stk, cfg) \<Longrightarrow> path_ok (block_path par n a)"
  by (auto simp: path_ok_def block_path_def dest: word_path)

lemma exec_state_ok:
  assumes "state_ok x" "stmt_ok s x"
  shows "state_ok (exec s x)"
proof -
  obtain par stk cfg where x: "x = (par, stk, cfg)" by (cases x)
  show ?thesis
  proof (cases s)
    case (Open n a)
    then show ?thesis using assms x block_path_ok [of par n a stk cfg] by simp
  next
    case Close
    then show ?thesis using assms(1) x by (cases stk) (simp_all add: path_ok_def)
  qed (use assms(1) x in simp_all)
qed

lemma end_open:
  assumes "linebuf st \<noteq> []" "config_word 256 (linebuf st) = Returns (Some (n, q))"
    and "config_word 4096 q = Returns (if a = [] then None else Some (a, []))" "a = [] \<Longrightarrow> q = []"
    and "open_block n a st = Returns st'"
  shows "end_statement (CHR ''{'') st = Returns (True, set_item (CHR ''{'') [] [] st')"
  using assms by (cases "a = []") (simp_all add: end_statement_def)

lemma end_statement_ok:
  assumes "state_ok x" "stmt_ok s x" "s \<noteq> Close"
  shows "end_statement (term_char s) (reader x\<lparr>linebuf := fragment s\<rparr>) = Returns (True, reader (exec s x))"
proof -
  obtain par stk cfg where x: "x = (par, stk, cfg)" by (cases x)
  have par: "path_ok par" "length (tag_join par) < 256" using assms(1) x by auto
  show ?thesis
  proof (cases s)
    case (Setting n v)
    have "config_word 256 (n @ CHR '' '' # quoted v) = Returns (Some (n, quoted v))"
      using assms(2) Setting by (subst config_word_word) (auto simp: quoted_def c_isspace_def)
    moreover have "config_word 4096 (quoted v) = Returns (Some (v, []))"
      using assms(2) Setting by (intro config_word_quoted) auto
    ultimately show ?thesis using assms(2) Setting par x set_item_join [OF par, of n] word_path [of n] by (simp add: end_statement_def)
  next
    case (Bare n v)
    have "config_word 256 (n @ CHR '' '' # v) = Returns (Some (n, v))"
      using assms(2) Bare word_first [of v] by (subst config_word_word) (auto simp: c_isspace_def)
    moreover have "config_word 4096 v = Returns (Some (v, []))"
      using assms(2) Bare config_word_word [of v "[]" 4096] by simp
    ultimately show ?thesis using assms(2) Bare par x set_item_join [OF par, of n] word_path [of n] by (simp add: end_statement_def)
  next
    case (Entry v)
    have "config_word 256 (quoted v) = Returns (Some (v, []))"
      using assms(2) Entry by (intro config_word_quoted) auto
    then show ?thesis using Entry par x set_item_join [OF par, of "[]"] by (simp add: end_statement_def config_word_empty quoted_def)
  next
    case (Open n a)
    let ?p = "block_path par n a"
    have p: "path_ok ?p" "length (tag_join ?p) < 256" "word n" "length stk \<le> 99" "quotable a"
      using assms(2) Open x block_path_ok [OF par(1), of n a stk cfg] by auto
    have "length (tag_join (n # (if a = [] then [] else [a]))) \<le> length (tag_join ?p)"
      by (cases "par = []") (simp_all add: block_path_def tag_join_append)
    then have l: "length n < 256" "length a + 2 \<le> 256" using p(2) by (auto split: if_splits)
    have w: "config_word 256 (fragment s) = Returns (Some (n, if a = [] then [] else quoted a))"
      using config_word_word [OF p(3) _ l(1), of "if a = [] then [] else CHR '' '' # quoted a"]
      by (simp add: Open c_isspace_def quoted_def)
    have v: "config_word 4096 (if a = [] then [] else quoted a) = Returns (if a = [] then None else Some (a, []))"
      using config_word_quoted [OF p(5), of 4096] l(2) by (simp add: config_word_empty)
    have i: "item_name (tag_join ?p) (CHR ''{'') [] = tag_join ?p" by (simp add: item_name_def)
    have "config_set cfg (tag_join ?p) [] = put_item ?p [] cfg"
      using p(1) by (rule path_set_block) (simp add: block_path_def)
    then have "set_item (CHR ''{'') [] [] (reader (?p, par # stk, cfg)\<lparr>linebuf := fragment s\<rparr>) = reader (exec s x)"
      using Open x by (simp add: set_item_def i)
    moreover have "fragment s \<noteq> []" using Open p(3) by (auto simp: word_def)
    moreover have "linebuf (reader (par, stk, cfg)\<lparr>linebuf := fragment s\<rparr>) = fragment s" by simp
    ultimately have "end_statement (CHR ''{'') (reader (par, stk, cfg)\<lparr>linebuf := fragment s\<rparr>) = Returns (True, reader (exec s x))"
      using end_open [OF _ _ v _ open_block_join [OF par(1) p(3,4,2), where cfg = cfg and f = "fragment s"]] w by simp
    then show ?thesis using Open x by simp
  qed (use assms(3) in simp)
qed

section \<open>Scanning\<close>

text \<open>A text that the scans pass over: balanced quotes, no backslash, and outside of quotes no character of \<open>stop\<close>.\<close>

fun plain :: "char set \<Rightarrow> bool \<Rightarrow> string \<Rightarrow> bool" where
  "plain stop inq [] \<longleftrightarrow> \<not> inq"
| "plain stop inq (c # s) \<longleftrightarrow> c \<noteq> NUL \<and> c \<noteq> CHR 0x5C \<and>
     (let q = (if c = CHR 0x22 then \<not> inq else inq) in (q \<or> c \<notin> stop) \<and> plain stop q s)"

definition ends :: "char set" where
  "ends = {CHR ''{'', CHR '';'', CHR ''}''}"

lemma plain_append: "plain stop inq s \<Longrightarrow> plain stop False t \<Longrightarrow> plain stop inq (s @ t)"
  by (induction stop inq s rule: plain.induct) (auto simp: Let_def)

lemma plain_no_NUL: "plain stop inq s \<Longrightarrow> NUL \<notin> set s"
  by (induction s arbitrary: inq) (auto simp: Let_def)

lemma plain_quoted: "quotable v \<Longrightarrow> CHR 0x22 \<notin> stop \<Longrightarrow> plain stop False (quoted v)"
proof -
  assume v: "quotable v" and stop: "CHR 0x22 \<notin> stop"
  from v have "plain stop True (v @ [CHR 0x22])" using stop by (induction v) (auto simp: quotable_def)
  then show ?thesis by (simp add: quoted_def)
qed

lemma plain_word: "word n \<Longrightarrow> stop \<subseteq> insert (CHR ''/'') ends \<Longrightarrow> plain stop False n"
proof -
  assume n: "word n" and stop: "stop \<subseteq> insert (CHR ''/'') ends"
  have "list_all word_char n \<Longrightarrow> plain stop False n"
    using stop by (induction n) (auto simp: word_char_def ends_def)
  then show ?thesis using n by (simp add: word_def)
qed

lemma plain_fragment:
  assumes "stmt_ok s x" "stop \<subseteq> insert (CHR ''/'') ends"
  shows "plain stop False (fragment s)"
proof -
  have q: "CHR 0x22 \<notin> stop" "CHR '' '' \<notin> stop" using assms(2) by (auto simp: ends_def)
  show ?thesis
    using assms(1) plain_word [OF _ assms(2)] plain_quoted [OF _ q(1)] q
    by (cases x; cases s) (auto intro!: plain_append)
qed

lemma scan_plain: "plain ends inq f \<Longrightarrow> scan_line inq pre (f @ r) st = scan_line False (pre @ f) r st"
proof (induction f arbitrary: inq pre)
  case (Cons c f)
  then show ?case by (cases "c = CHR 0x22"; cases inq) (auto simp: ends_def)
qed simp

lemma line_comment_plain: "plain stop inq s \<Longrightarrow> CHR ''/'' \<in> stop \<Longrightarrow> line_comment inq (s @ [NUL]) = s @ [NUL]"
proof (induction s arbitrary: inq)
  case (Cons c s)
  then show ?case by (cases "c = CHR 0x22"; cases inq; cases "c = CHR ''/''") auto
qed simp

lemma block_comments_plain:
  "plain stop inq s \<Longrightarrow> CHR ''/'' \<in> stop \<Longrightarrow> block_comments off inq pre (s @ [NUL]) = Returns (False, pre @ s @ [NUL])"
proof (induction s arbitrary: inq pre)
  case (Cons c s)
  then have c: "c \<noteq> NUL" "c \<noteq> CHR 0x5C" by auto
  show ?case
  proof (cases "(if c = CHR 0x22 then \<not> inq else inq)")
    case True
    then show ?thesis using Cons c by (simp add: Let_def)
  next
    case False
    then have "c \<noteq> CHR ''/''" using Cons.prems by (auto simp: Let_def)
    then show ?thesis using Cons c False by (simp add: Let_def)
  qed
qed simp

lemma strstrip_between:
  assumes "list_all c_isspace a" "list_all c_isspace b" "f \<noteq> []" "\<not> c_isspace (hd f)" "\<not> c_isspace (last f)"
  shows "strstrip (a @ f @ b) = f"
proof -
  have 1: "dropWhile c_isspace (a @ f @ b) = f @ b"
    using assms(1,3,4) by (cases f) (auto simp: list_all_iff dropWhile_append)
  have 2: "dropWhile c_isspace (rev (f @ b)) = rev f"
    using assms(2,3,5) by (cases f rule: rev_cases) (auto simp: list_all_iff dropWhile_append)
  show ?thesis using assms(3) unfolding strstrip_def Let_def 1 2 by simp
qed

lemma fragment_ends:
  assumes "stmt_ok s x" "s \<noteq> Close"
  shows "fragment s \<noteq> []" "\<not> c_isspace (hd (fragment s))" "\<not> c_isspace (last (fragment s))"
proof -
  have q: "\<not> c_isspace (CHR 0x22)" by (simp add: c_isspace_def)
  have w: "n \<noteq> [] \<and> \<not> c_isspace (hd n) \<and> \<not> c_isspace (last n)" if "word n" for n
    using that by (auto simp: word_def word_char_def list_all_iff)
  show "fragment s \<noteq> []" "\<not> c_isspace (hd (fragment s))" "\<not> c_isspace (last (fragment s))"
    using assms w q by (cases x; cases s; auto simp: quoted_def hd_append)+
qed

text \<open>A statement is its fragment, a space before a brace, and the character that ends it.\<close>

lemma stmt_text_parts:
  assumes "s \<noteq> Close"
  obtains b where "stmt_text s = fragment s @ b @ [term_char s]" "b \<in> {[], '' ''}"
proof (cases s)
  case (Open n a)
  then show ?thesis using that [of "'' ''"] by simp
qed (use assms that [of "[]"] in simp_all)

lemma scan_stmt:
  assumes "state_ok x" "stmt_ok s x" "list_all c_isspace pre" "length (fragment s) < 8192"
  shows "scan_line False pre (stmt_text s @ r) (reader x) = scan_line False [] r (reader (exec s x))"
proof (cases "s = Close")
  case True
  obtain par stk cfg where x: "x = (par, stk, cfg)" by (cases x)
  have "strstrip pre = []" using assms(3) by (simp add: strstrip_def Let_def list_all_iff)
  then show ?thesis using True x
    by (cases stk) (simp_all add: add_fragment_def end_statement_def close_block_def strstrip_def)
next
  case False
  note f = fragment_ends [OF assms(2) False]
  obtain b where b0: "stmt_text s = fragment s @ b @ [term_char s]" "b \<in> {[], '' ''}" by (rule stmt_text_parts [OF False])
  then have b: "stmt_text s = fragment s @ b @ [term_char s]" "list_all c_isspace b" by (auto simp: c_isspace_def)
  have t: "term_char s \<in> ends" "term_char s \<noteq> CHR 0x22" "term_char s \<noteq> CHR 0x5C" by (cases s; simp add: ends_def)+
  have pb: "plain ends False b" using b0(2) by (auto simp: ends_def)
  have "scan_line False pre (stmt_text s @ r) (reader x) = scan_line False (pre @ fragment s @ b) (term_char s # r) (reader x)"
    using scan_plain [OF plain_append [OF plain_fragment [OF assms(2)] pb], of pre] b(1) by (auto simp: ends_def)
  also have "\<dots> = run_bind (add_fragment (fragment s) (reader x)) (\<lambda>st. run_bind (end_statement (term_char s) st) (\<lambda>(ok, st).
      if ok then scan_line False [] r st else Returns (False, r, st)))"
    using t strstrip_between [OF assms(3) b(2) f] by (simp add: ends_def Let_def)
  also have "add_fragment (fragment s) (reader x) = Returns (reader x\<lparr>linebuf := fragment s\<rparr>)"
    using assms(4) by (cases x) (simp add: add_fragment_def)
  finally show ?thesis by (simp add: end_statement_ok [OF assms(1,2) False])
qed

lemma fragment_length: "length (fragment s) \<le> length (stmt_text s)"
  by (cases s) auto

lemma scan_stmts:
  assumes "state_ok x" "stmts_ok ss x" "list_all c_isspace pre" "length (stmts_text ss) < 8192"
  shows "scan_line False pre (stmts_text ss) (reader x) = Returns (True, if ss = [] then pre else [], reader (fold exec ss x))"
  using assms
proof (induction ss arbitrary: x pre)
  case (Cons s ss)
  note step = scan_stmt [of x s pre "if ss = [] then [] else CHR '' '' # stmts_text ss"]
  have f: "length (fragment s) < 8192" using Cons.prems(4) fragment_length [of s] by simp
  have ok: "state_ok (exec s x)" "stmts_ok ss (exec s x)" "length (stmts_text ss) < 8192"
    using Cons.prems exec_state_ok [of x s] by (auto split: if_splits)
  show ?case
  proof (cases "ss = []")
    case True
    then show ?thesis using step Cons.prems(1-3) f by simp
  next
    case False
    have "scan_line False [] (CHR '' '' # stmts_text ss) (reader (exec s x)) = scan_line False '' '' (stmts_text ss) (reader (exec s x))"
      by simp
    moreover have "list_all c_isspace '' ''" by (simp add: c_isspace_def)
    ultimately show ?thesis using step Cons.prems(1-3) f False Cons.IH [OF ok(1,2) _ ok(3), of "'' ''"] by simp
  qed
qed simp

lemma stmt_text_ends:
  assumes "stmt_ok s x"
  shows "stmt_text s \<noteq> []" "\<not> c_isspace (hd (stmt_text s))" "\<not> c_isspace (last (stmt_text s))"
proof -
  show "stmt_text s \<noteq> []" "\<not> c_isspace (last (stmt_text s))" by (cases s; simp add: c_isspace_def)+
  show "\<not> c_isspace (hd (stmt_text s))"
  proof (cases "s = Close")
    case False
    then obtain b where "stmt_text s = fragment s @ b @ [term_char s]" by (rule stmt_text_parts)
    then show ?thesis using fragment_ends [OF assms False] by simp
  qed (simp add: c_isspace_def)
qed

lemma stmts_text_ends:
  assumes "stmts_ok ss x" "ss \<noteq> []"
  shows "stmts_text ss \<noteq> []" "\<not> c_isspace (hd (stmts_text ss))" "\<not> c_isspace (last (stmts_text ss))"
proof -
  show "stmts_text ss \<noteq> []" "\<not> c_isspace (hd (stmts_text ss))"
    using assms stmt_text_ends [of "hd ss" x] by (cases ss; simp add: hd_append)+
  show "\<not> c_isspace (last (stmts_text ss))" using assms
  proof (induction ss arbitrary: x)
    case (Cons s ss)
    then have "stmts_text ss \<noteq> []" if "ss \<noteq> []"
      using that stmt_text_ends(1) [of "hd ss" "exec s x"] by (cases ss) auto
    then show ?case using Cons.IH [of "exec s x"] Cons.prems(1) stmt_text_ends [of s x] by simp
  qed simp
qed

lemma plain_stmts: "stmts_ok ss x \<Longrightarrow> plain {CHR ''/''} False (stmts_text ss)"
proof (induction ss arbitrary: x)
  case (Cons s ss)
  have f: "plain {CHR ''/''} False (fragment s)" using Cons.prems plain_fragment [of s x "{CHR ''/''}"] by simp
  have "plain {CHR ''/''} False (stmt_text s)"
  proof (cases "s = Close")
    case False
    then obtain b where b: "stmt_text s = fragment s @ b @ [term_char s]" "b \<in> {[], '' ''}" by (rule stmt_text_parts)
    have "plain {CHR ''/''} False (b @ [term_char s])" using b(2) by (cases s) auto
    then show ?thesis using f b(1) plain_append by simp
  qed simp
  moreover have "plain {CHR ''/''} False (CHR '' '' # stmts_text ss)" using Cons.IH [of "exec s x"] Cons.prems by simp
  ultimately show ?case by (auto intro: plain_append)
qed simp

lemma spaces_space: "list_all c_isspace (replicate k (CHR '' ''))"
  by (induction k) (auto simp: c_isspace_def)

lemma strstrip_comment: "\<exists>t. strstrip (replicate k (CHR '' '') @ CHR ''/'' # CHR ''/'' # s) = CHR ''/'' # CHR ''/'' # t"
proof -
  have sl: "\<not> c_isspace (CHR ''/'')" by (simp add: c_isspace_def)
  have 1: "dropWhile c_isspace (replicate k (CHR '' '') @ CHR ''/'' # CHR ''/'' # s) = CHR ''/'' # CHR ''/'' # s"
    using spaces_space [of k] sl by (simp add: dropWhile_append list_all_iff)
  have "dropWhile c_isspace (rev s @ [CHR ''/'', CHR ''/'']) = dropWhile c_isspace (rev s) @ [CHR ''/'', CHR ''/'']"
    using sl by (induction "rev s" arbitrary: s) (auto simp: dropWhile_append)
  then show ?thesis unfolding strstrip_def Let_def 1 by simp
qed

lemma config_line_ok:
  assumes "state_ok x" "stmts_ok (line_stmts l) x" "line_ok l"
  shows "config_line (line_text l @ [NL]) False (reader x) = Returns (True, False, reader (fold exec (line_stmts l) x))"
proof (cases l)
  case (Comment k t)
  obtain t' where "strstrip (line_text l @ [NL]) = CHR ''/'' # CHR ''/'' # t'"
    using strstrip_comment [of k "t @ [NL]"] Comment by auto
  then show ?thesis using Comment by (simp add: config_line_def Let_def peek_def cstr_def config_text_def)
next
  case (Stmts k ss)
  show ?thesis
  proof (cases "ss = []")
    case True
    have "strstrip (line_text l @ [NL]) = []"
      using Stmts True spaces_space [of k] by (simp add: strstrip_def Let_def list_all_iff dropWhile_append c_isspace_def)
    then show ?thesis using Stmts True by (simp add: config_line_def Let_def cstr_def config_text_def)
  next
    case False
    have ok: "stmts_ok ss x" using assms(2) Stmts by simp
    let ?b = "stmts_text ss"
    note e = stmts_text_ends [OF ok False]
    have s: "strstrip (replicate k (CHR '' '') @ ?b @ [NL]) = ?b" "strstrip ?b = ?b"
      using strstrip_between [OF spaces_space [of k] _ e, of "[NL]"] strstrip_between [OF _ _ e, of "[]" "[]"] Stmts
      by (simp_all add: c_isspace_def)
    have p: "plain {CHR ''/''} False ?b" by (rule plain_stmts [OF ok])
    have nn: "NUL \<notin> set ?b" by (rule plain_no_NUL [OF p])
    have c: "cstr (?b @ [NUL]) = ?b" using nn by (simp add: cstr_def takeWhile_append)
    have "length ?b < 8192" using assms(3) Stmts by simp
    then have "config_text ?b (reader x) = Returns (True, reader (fold exec ss x))"
      using scan_stmts [OF assms(1) ok, of "[]"] e(1) False
      by (cases "fold exec ss x") (simp add: config_text_def s(2) store_rest_def)
    then show ?thesis using Stmts
      by (simp add: config_line_def Let_def s(1) line_comment_plain [OF p] block_comments_plain [OF p] c)
  qed
qed

section \<open>Files\<close>

lemma stmts_state_ok: "state_ok x \<Longrightarrow> stmts_ok ss x \<Longrightarrow> state_ok (fold exec ss x)"
proof (induction ss arbitrary: x)
  case (Cons s ss)
  then show ?case using exec_state_ok [of x s] Cons.IH [of "exec s x"] by simp
qed simp

lemma stmts_ok_append: "stmts_ok (ss @ ts) x \<longleftrightarrow> stmts_ok ss x \<and> stmts_ok ts (fold exec ss x)"
  by (induction ss arbitrary: x) auto

lemma config_loop_ok:
  assumes "state_ok x" "stmts_ok (concat (map line_stmts ls)) x" "list_all line_ok ls"
  shows "config_loop (file_text ls) False (reader x) = Returns (True, reader (fold exec (concat (map line_stmts ls)) x))"
  using assms
proof (induction ls arbitrary: x)
  case Nil
  show ?case by (subst config_loop.simps) (simp add: file_text_def)
next
  case (Cons l ls)
  have l: "stmts_ok (line_stmts l) x" "line_ok l" and ls: "stmts_ok (concat (map line_stmts ls)) (fold exec (line_stmts l) x)"
    using Cons.prems by (auto simp: stmts_ok_append)
  have "fgets (Suc 4095) (line_text l @ NL # file_text ls) = (line_text l @ [NL], file_text ls)"
    using l(2) by (subst fgets_whole_line) auto
  then have "fgets 4096 (file_text (l # ls)) = (line_text l @ [NL], file_text ls)" by (simp add: file_text_def)
  then have "config_loop (file_text (l # ls)) False (reader x) =
      config_loop (file_text ls) False (reader (fold exec (line_stmts l) x))"
    by (subst config_loop.simps) (simp add: config_line_ok [OF Cons.prems(1) l] del: fgets.simps)
  also have "\<dots> = Returns (True, reader (fold exec (concat (map line_stmts ls)) (fold exec (line_stmts l) x)))"
    using Cons.IH stmts_state_ok [OF Cons.prems(1) l(1)] ls Cons.prems(3) by simp
  finally show ?case by simp
qed

lemma start_ok: "state_ok ([], [], cfg)"
  by (simp add: path_ok_def)

lemma config_read_loop:
  "config_loop s False (reader ([], [], cfg)) = Returns (True, reader x) \<Longrightarrow> config_read cfg (Some s) = Returns (True, snd (snd x))"
  by (cases x) (simp add: config_read_def)

section \<open>The configuration of the installer\<close>

text \<open>\<^verbatim>\<open>cdebconf/src/cdebconf.conf-dist.in\<close>, with the default frontend.\<close>

definition installer_conf :: "conf_line list" where
  "installer_conf =
    [Comment 0 '' This is a sample debconf configuration file'',
     Comment 0 '' Comments can be in C or C++ style, blank lines are ignored'',
     Comment 0 '' This file is in a bind-8 like format.'',
     Stmts 0 [],
     Stmts 0 [Open ''global'' []],
     Stmts 2 [Open ''module_path'' []],
     Stmts 4 [Setting ''frontend'' ''/usr/lib/cdebconf/frontend''],
     Stmts 4 [Setting ''database'' ''/usr/lib/cdebconf/db''],
     Stmts 2 [Close],
     Stmts 0 [],
     Stmts 2 [Open ''default'' []],
     Stmts 4 [Setting ''frontend'' ''default_fe''],
     Stmts 4 [Setting ''template'' ''templatedb''],
     Stmts 4 [Setting ''config'' ''configdb''],
     Stmts 2 [Close],
     Stmts 0 [Close],
     Stmts 0 [],
     Stmts 0 [Open ''frontend'' []],
     Stmts 2 [Open ''instance'' ''default_fe''],
     Stmts 4 [Setting ''driver'' ''text''],
     Stmts 2 [Close],
     Stmts 0 [Close],
     Stmts 0 [],
     Stmts 0 [Open ''template'' []],
     Stmts 2 [Open ''instance'' ''templatedb''],
     Stmts 4 [Setting ''driver'' ''rfc822db''],
     Stmts 4 [Setting ''path'' ''/var/lib/cdebconf/templates.dat''],
     Stmts 2 [Close],
     Stmts 0 [],
     Stmts 2 [Open ''instance'' ''target_templatedb''],
     Stmts 4 [Setting ''driver'' ''rfc822db''],
     Stmts 4 [Setting ''path'' ''/target/var/cache/debconf/templates.dat''],
     Stmts 2 [Close],
     Stmts 0 [],
     Stmts 2 [Open ''instance'' ''di_templatedb''],
     Stmts 4 [Setting ''driver'' ''rfc822db''],
     Stmts 4 [Setting ''path'' ''/var/log/installer/cdebconf/templates.dat''],
     Stmts 2 [Close],
     Stmts 0 [],
     Stmts 2 [Open ''instance'' ''old_templatedb''],
     Stmts 4 [Setting ''driver'' ''rfc822db''],
     Stmts 4 [Setting ''path'' ''/var/cache/debconf/templates.dat''],
     Stmts 2 [Close],
     Stmts 0 [Close],
     Stmts 0 [],
     Stmts 0 [Open ''config'' []],
     Stmts 2 [Open ''instance'' ''config_gen_db''],
     Stmts 4 [Setting ''driver'' ''rfc822db''],
     Stmts 4 [Setting ''path'' ''/var/lib/cdebconf/questions.dat''],
     Stmts 4 [Bare ''mode'' ''644''],
     Stmts 4 [Open ''reject_types'' [], Entry ''password'', Close],
     Stmts 2 [Close],
     Stmts 0 [],
     Stmts 2 [Open ''instance'' ''config_passwd_db''],
     Stmts 4 [Setting ''driver'' ''rfc822db''],
     Stmts 4 [Setting ''path'' ''/var/lib/cdebconf/passwords.dat''],
     Stmts 4 [Bare ''mode'' ''600''],
     Stmts 4 [Open ''accept_types'' [], Entry ''password'', Close],
     Stmts 2 [Close],
     Stmts 0 [],
     Stmts 2 [Open ''instance'' ''configdb''],
     Stmts 4 [Setting ''driver'' ''stack''],
     Stmts 4 [Open ''stack'' [], Entry ''config_gen_db'', Entry ''config_passwd_db'', Close],
     Stmts 2 [Close],
     Stmts 0 [],
     Stmts 2 [Open ''instance'' ''target_config_gen_db''],
     Stmts 4 [Setting ''driver'' ''rfc822db''],
     Stmts 4 [Setting ''path'' ''/target/var/cache/debconf/config.dat''],
     Stmts 4 [Open ''reject_types'' [], Entry ''password'', Close],
     Stmts 2 [Close],
     Stmts 0 [],
     Stmts 2 [Open ''instance'' ''target_config_passwd_db''],
     Stmts 4 [Setting ''driver'' ''rfc822db''],
     Stmts 4 [Setting ''path'' ''/target/var/cache/debconf/passwords.dat''],
     Stmts 4 [Open ''accept_types'' [], Entry ''password'', Close],
     Stmts 2 [Close],
     Stmts 0 [],
     Stmts 2 [Open ''instance'' ''target_configdb''],
     Stmts 4 [Setting ''driver'' ''stack''],
     Stmts 4 [Open ''stack'' [], Entry ''target_config_gen_db'', Entry ''target_config_passwd_db'', Close],
     Stmts 4 [Setting ''template'' ''target_templatedb''],
     Stmts 2 [Close],
     Stmts 0 [],
     Stmts 2 [Open ''instance'' ''old_config_gen_db''],
     Stmts 4 [Setting ''driver'' ''rfc822db''],
     Stmts 4 [Setting ''path'' ''/var/cache/debconf/config.dat''],
     Stmts 4 [Open ''reject_types'' [], Entry ''password'', Close],
     Stmts 2 [Close],
     Stmts 0 [],
     Stmts 2 [Open ''instance'' ''old_config_passwd_db''],
     Stmts 4 [Setting ''driver'' ''rfc822db''],
     Stmts 4 [Setting ''path'' ''/var/cache/debconf/passwords.dat''],
     Stmts 4 [Open ''accept_types'' [], Entry ''password'', Close],
     Stmts 2 [Close],
     Stmts 0 [],
     Stmts 2 [Open ''instance'' ''old_configdb''],
     Stmts 4 [Setting ''driver'' ''stack''],
     Stmts 4 [Open ''stack'' [], Entry ''old_config_gen_db'', Entry ''old_config_passwd_db'', Close],
     Stmts 2 [Close],
     Stmts 0 [],
     Stmts 2 [Open ''instance'' ''di_configdb''],
     Stmts 4 [Setting ''driver'' ''rfc822db''],
     Stmts 4 [Setting ''path'' ''/var/log/installer/cdebconf/questions.dat''],
     Stmts 4 [Setting ''template'' ''di_templatedb''],
     Stmts 2 [Close],
     Stmts 0 [Close],
     Stmts 0 []]"

definition installer_cfg :: configitem where
  "installer_cfg = snd (snd (fold exec (concat (map line_stmts installer_conf)) ([], [], config_new)))"

text \<open>For evaluation: equality of strings in place of the comparison.\<close>

lemma child_index_code [code]:
  "child_index [] t = None"
  "child_index (i # is) t = (if ci_tag i = t then Some 0 else map_option Suc (child_index is t))"
  by simp_all

lemma installer_lines: "list_all line_ok installer_conf"
  by code_simp

lemma installer_stmts: "stmts_ok (concat (map line_stmts installer_conf)) ([], [], config_new)"
  by code_simp

lemma installer_driver: "config_get installer_cfg (Some ''config::instance::configdb::driver'') None = Some ''stack''"
  by code_simp

lemma read_installer_conf: "config_read config_new (Some (file_text installer_conf)) = Returns (True, installer_cfg)"
  unfolding installer_cfg_def by (rule config_read_loop [OF config_loop_ok [OF start_ok installer_stmts installer_lines]])

text \<open>
  Property C30: Reading a configuration file has the effect of its statements. For every file that consists of comments
  and of lines of statements, however many on a line and however indented, and in which no line, name or
  block is too long for the buffers, the reader returns success with the tree on which the statements were
  executed one after the other: settings and entries of lists go below the block that is open.
\<close>

theorem config_read_executes:
  assumes "list_all line_ok ls" "stmts_ok (concat (map line_stmts ls)) ([], [], cfg)"
  shows "config_read cfg (Some (file_text ls)) = Returns (True, snd (snd (fold exec (concat (map line_stmts ls)) ([], [], cfg))))"
  by (rule config_read_loop [OF config_loop_ok [OF start_ok assms(2,1)]])

theorem config_read_executes_witness:
  "config_read config_new (Some (file_text installer_conf)) = Returns (True, installer_cfg) \<and>
   config_get installer_cfg (Some ''config::instance::configdb::driver'') None = Some ''stack''"
  using config_read_executes [OF installer_lines installer_stmts] installer_driver unfolding installer_cfg_def by blast

end
