(* ===== verification/Deb_Stack.thy ===== *)
theory Deb_Stack
  imports Deb_Database Deb_ConfigFile
begin

text \<open>
  \<^verbatim>\<open>cdebconf/src/modules/db/stack/stack.c\<close>: a database that consists of a list of databases, and the stack
  of the installer, which keeps passwords in a file of their own.

  The members of a stack share the world \<open>'w\<close> they work on, for instance the heap of questions; \<open>'x\<close> are
  the pointers to what is stored. The methods that are called through the structure \<open>methods\<close> are
  the fields of a record. Opening a database reads the configuration; that a module can be loaded is an argument.
  Closing the members only releases memory and is left out.
\<close>

section \<open>Definitions\<close>

datatype dc = DC_NOTOK | DC_OK | DC_NOTIMPL | DC_AUTHNEEDED | DC_REJECT

record ('w, 'x) db_methods =
  m_accept :: "'w \<Rightarrow> string \<Rightarrow> string option \<Rightarrow> dc"
  m_set :: "'x \<Rightarrow> 'w \<Rightarrow> dc \<times> 'w"
  m_get :: "'w \<Rightarrow> string \<Rightarrow> 'x option"
  m_remove :: "string \<Rightarrow> 'w \<Rightarrow> dc \<times> 'w"
  m_disown :: "string \<Rightarrow> string \<Rightarrow> 'w \<Rightarrow> dc \<times> 'w"

subsection \<open>Templates\<close>

text \<open>The methods \<open>load\<close>, \<open>reload\<close> and \<open>save\<close> of the members are called one after the other, and one success is enough.\<close>

fun stack_any :: "('w \<Rightarrow> dc \<times> 'w) list \<Rightarrow> dc \<Rightarrow> 'w \<Rightarrow> dc \<times> 'w" where
  "stack_any [] ret w = (ret, w)"
| "stack_any (f # fs) ret w = (case f w of (r, w) \<Rightarrow> stack_any fs (if r = DC_OK then DC_OK else ret) w)"

definition stack_template_db_load :: "('w \<Rightarrow> dc \<times> 'w) list \<Rightarrow> 'w \<Rightarrow> dc \<times> 'w" where
  "stack_template_db_load loads w = stack_any loads DC_NOTOK w"

definition stack_template_db_reload :: "('w \<Rightarrow> dc \<times> 'w) list \<Rightarrow> 'w \<Rightarrow> dc \<times> 'w" where
  "stack_template_db_reload reloads w = stack_any reloads DC_NOTOK w"

definition stack_template_db_save :: "('w \<Rightarrow> dc \<times> 'w) list \<Rightarrow> 'w \<Rightarrow> dc \<times> 'w" where
  "stack_template_db_save saves w = stack_any saves DC_NOTOK w"

text \<open>
  The loop of \<open>set\<close>. A return code that the \<open>switch\<close> does not list leaves \<open>tstack\<close> as it is, and the same
  member is asked again. \<open>n\<close> bounds the number of rounds. \<open>name\<close> and \<open>type\<close> read the tag and the type of
  what is stored.
\<close>

primrec stack_set :: "nat \<Rightarrow> ('w \<Rightarrow> 'x \<Rightarrow> string) \<Rightarrow> ('w \<Rightarrow> 'x \<Rightarrow> string option) \<Rightarrow> 'x \<Rightarrow> ('w, 'x) db_methods list \<Rightarrow> 'w \<Rightarrow> (dc \<times> 'w) run" where
  "stack_set 0 name type x ms w = Hangs"
| "stack_set (Suc n) name type x ms w =
     (case ms of
        [] \<Rightarrow> Returns (DC_REJECT, w)
      | m # ms' \<Rightarrow>
          if m_accept m w (name w x) (type w x) = DC_REJECT then stack_set n name type x ms' (snd (m_remove m (name w x) w))
          else case m_set m x w of
            (ret, w) \<Rightarrow>
              (case ret of
                 DC_OK \<Rightarrow> Returns (DC_OK, w)
               | DC_NOTOK \<Rightarrow> Returns (DC_NOTOK, w)
               | DC_REJECT \<Rightarrow> stack_set n name type x ms' (snd (m_remove m (name w x) w))
               | _ \<Rightarrow> stack_set n name type x ms w))"

definition stack_template_db_set ::
  "nat \<Rightarrow> ('w \<Rightarrow> 'x \<Rightarrow> string) \<Rightarrow> ('w \<Rightarrow> 'x \<Rightarrow> string option) \<Rightarrow> 'x \<Rightarrow> ('w, 'x) db_methods list \<Rightarrow> 'w \<Rightarrow> (dc \<times> 'w) run" where
  "stack_template_db_set n name type x ms w = stack_set n name type x ms w"

fun stack_template_db_get :: "('w, 'x) db_methods list \<Rightarrow> 'w \<Rightarrow> string \<Rightarrow> 'x option" where
  "stack_template_db_get [] w name = None"
| "stack_template_db_get (m # ms) w name =
     (case m_get m w name of Some t \<Rightarrow> Some t | None \<Rightarrow> stack_template_db_get ms w name)"

fun stack_template_db_remove :: "('w, 'x) db_methods list \<Rightarrow> string \<Rightarrow> 'w \<Rightarrow> dc \<times> 'w" where
  "stack_template_db_remove [] name w = (DC_NOTOK, w)"
| "stack_template_db_remove (m # ms) name w =
     (case m_get m w name of Some t \<Rightarrow> m_remove m name w | None \<Rightarrow> stack_template_db_remove ms name w)"

text \<open>The iteration returns what the members return, one member after the other.\<close>

definition stack_template_db_iterate :: "('w \<Rightarrow> 'x list) list \<Rightarrow> 'w \<Rightarrow> 'x list" where
  "stack_template_db_iterate its w = concat (map (\<lambda>it. it w) its)"

subsection \<open>Questions\<close>

fun stack_question_db_load :: "('w \<Rightarrow> dc \<times> 'w) list \<Rightarrow> 'w \<Rightarrow> dc \<times> 'w" where
  "stack_question_db_load [] w = (DC_OK, w)"
| "stack_question_db_load (f # fs) w = (case f w of (r, w) \<Rightarrow> if r \<noteq> DC_OK then (DC_NOTOK, w) else stack_question_db_load fs w)"

fun stack_question_db_save :: "('w \<Rightarrow> dc \<times> 'w) list \<Rightarrow> 'w \<Rightarrow> dc \<times> 'w" where
  "stack_question_db_save [] w = (DC_OK, w)"
| "stack_question_db_save (f # fs) w = (case f w of (r, w) \<Rightarrow> if r = DC_NOTOK then (DC_NOTOK, w) else stack_question_db_save fs w)"

text \<open>The type of a question is that of its template, and \<open>""\<close> without a template.\<close>

definition stack_question_db_set ::
  "nat \<Rightarrow> ('w \<Rightarrow> 'x \<Rightarrow> string) \<Rightarrow> ('w \<Rightarrow> 'x \<Rightarrow> 't option) \<Rightarrow> ('w \<Rightarrow> 't \<Rightarrow> string option) \<Rightarrow> 'x \<Rightarrow> ('w, 'x) db_methods list \<Rightarrow> 'w \<Rightarrow> (dc \<times> 'w) run" where
  "stack_question_db_set n name templ type x ms w =
     stack_set n name (\<lambda>w x. case templ w x of None \<Rightarrow> Some [] | Some t \<Rightarrow> type w t) x ms w"

fun stack_question_db_get :: "('w, 'x) db_methods list \<Rightarrow> 'w \<Rightarrow> string \<Rightarrow> 'x option" where
  "stack_question_db_get [] w name = None"
| "stack_question_db_get (m # ms) w name =
     (case m_get m w name of Some q \<Rightarrow> Some q | None \<Rightarrow> stack_question_db_get ms w name)"

fun stack_question_db_disown :: "('w, 'x) db_methods list \<Rightarrow> string \<Rightarrow> string \<Rightarrow> 'w \<Rightarrow> dc \<times> 'w" where
  "stack_question_db_disown [] name owner w = (DC_OK, w)"
| "stack_question_db_disown (m # ms) name owner w =
     (case m_get m w name of
        None \<Rightarrow> stack_question_db_disown ms name owner w
      | Some q \<Rightarrow>
          (case m_disown m name owner w of
             (ret, w) \<Rightarrow> if ret \<noteq> DC_OK then (ret, w) else stack_question_db_disown ms name owner w))"

fun stack_question_db_disownall :: "(string \<Rightarrow> 'w \<Rightarrow> dc \<times> 'w) list \<Rightarrow> string \<Rightarrow> 'w \<Rightarrow> dc \<times> 'w" where
  "stack_question_db_disownall [] owner w = (DC_OK, w)"
| "stack_question_db_disownall (f # fs) owner w =
     (case f owner w of (ret, w) \<Rightarrow> if ret \<noteq> DC_OK then (ret, w) else stack_question_db_disownall fs owner w)"

fun stack_question_db_remove :: "('w, 'x) db_methods list \<Rightarrow> string \<Rightarrow> 'w \<Rightarrow> dc \<times> 'w" where
  "stack_question_db_remove [] name w = (DC_NOTOK, w)"
| "stack_question_db_remove (m # ms) name w =
     (case m_get m w name of Some q \<Rightarrow> m_remove m name w | None \<Rightarrow> stack_question_db_remove ms name w)"

definition stack_question_db_iterate :: "('w \<Rightarrow> 'x list) list \<Rightarrow> 'w \<Rightarrow> 'x list" where
  "stack_question_db_iterate its w = concat (map (\<lambda>it. it w) its)"

subsection \<open>Opening\<close>

text \<open>
  What is known of an opened database: its driver and the path of its configuration. \<open>loads\<close> says
  which modules \<open>dlopen\<close> loads; the messages of \<open>DIE\<close> are left out. Memory is always there, so that
  \<open>initialize\<close> of a member does not fail; the one of a stack is called where the stack is opened.
\<close>

record db_handle =
  db_driver :: string
  db_configpath :: string

definition db_open :: "(string \<Rightarrow> bool) \<Rightarrow> configitem \<Rightarrow> string \<Rightarrow> string option \<Rightarrow> db_handle run" where
  "db_open loads cfg kind modname =
     run_bind (or_die modname) (\<lambda>modname.
     run_bind (or_die (config_get cfg (Some ''global::module_path::database'') None)) (\<lambda>modpath.
     run_bind (or_die (config_get cfg (Some (take 255 (kind @ ''::instance::'' @ modname @ ''::driver''))) None)) (\<lambda>driver.
       if loads (take 255 (modpath @ ''/'' @ driver @ ''.so''))
       then Returns \<lparr>db_driver = driver, db_configpath = take 127 (kind @ ''::instance::'' @ modname)\<rparr>
       else Died)))"

definition template_db_new :: "(string \<Rightarrow> bool) \<Rightarrow> string option \<Rightarrow> configitem \<Rightarrow> string option \<Rightarrow> db_handle run" where
  "template_db_new loads DEBCONF_TEMPLATE cfg inst =
     db_open loads cfg ''template''
       (case inst of Some n \<Rightarrow> Some n | None \<Rightarrow> config_get cfg (Some ''global::default::template'') DEBCONF_TEMPLATE)"

definition question_db_new :: "(string \<Rightarrow> bool) \<Rightarrow> string option \<Rightarrow> configitem \<Rightarrow> string option \<Rightarrow> db_handle run" where
  "question_db_new loads DEBCONF_CONFIG cfg inst =
     db_open loads cfg ''config''
       (case inst of
          Some n \<Rightarrow> Some n
        | None \<Rightarrow> (case DEBCONF_CONFIG of Some n \<Rightarrow> Some n | None \<Rightarrow> config_get cfg (Some ''global::default::config'') None))"

fun run_map :: "('a \<Rightarrow> 'b run) \<Rightarrow> 'a list \<Rightarrow> 'b list run" where
  "run_map f [] = Returns []"
| "run_map f (x # xs) = run_bind (f x) (\<lambda>y. run_bind (run_map f xs) (\<lambda>ys. Returns (y # ys)))"

definition stack_template_db_initialize :: "(string \<Rightarrow> bool) \<Rightarrow> string option \<Rightarrow> configitem \<Rightarrow> db_handle \<Rightarrow> db_handle list run" where
  "stack_template_db_initialize loads DEBCONF_TEMPLATE cfg db =
     run_bind (or_die (config_tree cfg (Some (db_configpath db @ ''::stack'')))) (\<lambda>tmp.
       run_map (\<lambda>child. template_db_new loads DEBCONF_TEMPLATE cfg (ci_value child)) (ci_child tmp))"

definition stack_question_db_initialize :: "(string \<Rightarrow> bool) \<Rightarrow> string option \<Rightarrow> configitem \<Rightarrow> db_handle \<Rightarrow> db_handle list run" where
  "stack_question_db_initialize loads DEBCONF_CONFIG cfg db =
     run_bind (or_die (config_tree cfg (Some (db_configpath db @ ''::stack'')))) (\<lambda>tmp.
       run_map (\<lambda>child. question_db_new loads DEBCONF_CONFIG cfg (ci_value child)) (ci_child tmp))"

text \<open>
  The lists \<open>accept_types\<close> and \<open>reject_types\<close> of a database: \<open>None\<close> when the configuration does not have
  them. The comparison with an entry that has no value reads a null pointer.
\<close>

definition db_types :: "configitem \<Rightarrow> db_handle \<Rightarrow> string \<Rightarrow> string list option run" where
  "db_types cfg db kind =
     (case config_tree cfg (Some (take 1023 (db_configpath db @ ''::'' @ kind))) of
        None \<Rightarrow> Returns None
      | Some item \<Rightarrow> run_bind (or_die (those (map ci_value (ci_child item)))) (\<lambda>ts. Returns (Some ts)))"

section \<open>Members that keep their promises\<close>

text \<open>
  What the stack relies on: storing always succeeds, is seen by the member that stores and by no other,
  and removing is too. The name and the type of an object do not change.
\<close>

locale db_members =
  fixes inv :: "'w \<Rightarrow> bool" and name :: "'w \<Rightarrow> 'x \<Rightarrow> string" and type :: "'w \<Rightarrow> 'x \<Rightarrow> string option"
    and ms :: "('w, 'x) db_methods list"
  assumes set_ok: "i < length ms \<Longrightarrow> inv w \<Longrightarrow> m_set (ms ! i) x w = (r, w') \<Longrightarrow>
      r = DC_OK \<and> inv w' \<and> name w' = name w \<and>
      (\<forall>j < length ms. \<forall>k. m_get (ms ! j) w' k = (if j = i \<and> k = name w x then Some x else m_get (ms ! j) w k))"
    and remove_ok: "i < length ms \<Longrightarrow> inv w \<Longrightarrow> m_remove (ms ! i) n w = (r, w') \<Longrightarrow>
      inv w' \<and> name w' = name w \<and> type w' = type w \<and>
      (\<forall>j < length ms. \<forall>k. m_get (ms ! j) w' k = (if j = i \<and> k = n then None else m_get (ms ! j) w k))"
begin

text \<open>
  \<open>acc i\<close> says whether the member \<open>i\<close> accepts the object. It is stored in the first member that does,
  and removed from those before.
\<close>

lemma stack_set_from:
  assumes "i \<le> length ms" "inv w" "name w x = n" "type w x = t" "length ms - i < fuel"
    and "\<And>w j. j < length ms \<Longrightarrow> m_accept (ms ! j) w n t = (if acc j then DC_OK else DC_REJECT)"
  shows "\<exists>w' f. stack_set fuel name type x (drop i ms) w = Returns (if f < length ms then DC_OK else DC_REJECT, w') \<and> inv w' \<and>
    i \<le> f \<and> f \<le> length ms \<and> (\<forall>j. i \<le> j \<and> j < f \<longrightarrow> \<not> acc j) \<and> (f < length ms \<longrightarrow> acc f) \<and> name w' = name w \<and>
    (\<forall>j < length ms. \<forall>k. m_get (ms ! j) w' k =
      (if k = n \<and> i \<le> j \<and> j < f then None else if k = n \<and> j = f then Some x else m_get (ms ! j) w k))"
  using assms(1-5)
proof (induction fuel arbitrary: i w)
  case (Suc fuel)
  show ?case
  proof (cases "i < length ms")
    case False
    then show ?thesis using Suc.prems by (intro exI [of _ w] exI [of _ i]) auto
  next
    case i: True
    then have d: "drop i ms = ms ! i # drop (Suc i) ms" by (rule Cons_nth_drop_Suc [symmetric])
    show ?thesis
    proof (cases "acc i")
      case True
      obtain r w' where s: "m_set (ms ! i) x w = (r, w')" by fastforce
      note ok = set_ok [OF i Suc.prems(2) s]
      then have "stack_set (Suc fuel) name type x (drop i ms) w = Returns (DC_OK, w')"
        using True assms(6) [OF i] Suc.prems(3,4) s by (simp add: d)
      then show ?thesis using ok i True Suc.prems(3) by (intro exI [of _ w'] exI [of _ i]) auto
    next
      case False
      obtain r w1 where rm: "m_remove (ms ! i) n w = (r, w1)" by fastforce
      note ok = remove_ok [OF i Suc.prems(2) rm]
      have step: "stack_set (Suc fuel) name type x (drop i ms) w = stack_set fuel name type x (drop (Suc i) ms) w1"
        using False assms(6) [OF i] Suc.prems(3,4) rm by (simp add: d)
      have "Suc i \<le> length ms" "inv w1" "name w1 x = n" "type w1 x = t" "length ms - Suc i < fuel"
        using i ok Suc.prems(3-5) by auto
      note ih = Suc.IH [OF this]
      obtain w' f where f: "stack_set fuel name type x (drop (Suc i) ms) w1 = Returns (if f < length ms then DC_OK else DC_REJECT, w')"
        "inv w'" "Suc i \<le> f" "f \<le> length ms" "\<forall>j. Suc i \<le> j \<and> j < f \<longrightarrow> \<not> acc j" "f < length ms \<longrightarrow> acc f" "name w' = name w1"
        "\<forall>j < length ms. \<forall>k. m_get (ms ! j) w' k =
          (if k = n \<and> Suc i \<le> j \<and> j < f then None else if k = n \<and> j = f then Some x else m_get (ms ! j) w1 k)"
        using ih by blast
      have "\<forall>j. i \<le> j \<and> j < f \<longrightarrow> \<not> acc j" using f(5) False by (metis le_antisym not_less_eq_eq)
      moreover have "\<forall>j < length ms. \<forall>k. m_get (ms ! j) w' k =
          (if k = n \<and> i \<le> j \<and> j < f then None else if k = n \<and> j = f then Some x else m_get (ms ! j) w k)"
        using f(3,8) ok by auto
      ultimately show ?thesis using step f(1-4,6,7) ok by (intro exI [of _ w'] exI [of _ f]) auto
    qed
  qed
qed simp

lemma stack_set_spec:
  assumes "inv w" "name w x = n" "type w x = t" "length ms < fuel"
    and "\<And>w j. j < length ms \<Longrightarrow> m_accept (ms ! j) w n t = (if acc j then DC_OK else DC_REJECT)"
  shows "\<exists>w' f. stack_set fuel name type x ms w = Returns (if f < length ms then DC_OK else DC_REJECT, w') \<and> inv w' \<and>
    f \<le> length ms \<and> (\<forall>j < f. \<not> acc j) \<and> (f < length ms \<longrightarrow> acc f) \<and> name w' = name w \<and>
    (\<forall>j < length ms. \<forall>k. m_get (ms ! j) w' k =
      (if k = n \<and> j < f then None else if k = n \<and> j = f then Some x else m_get (ms ! j) w k))"
  using stack_set_from [of 0 w x n t fuel acc] assms by auto

end

section \<open>The stack of the installer\<close>

text \<open>
  Several databases of the driver \<open>rfc822db\<close> share the heap of questions, and each has a tree of its own. The
  \<open>qroot\<close> of the shared part is not used.
\<close>

record config_world =
  shared :: debconf_db
  roots :: "nat \<Rightarrow> q_ptr list"

definition member_db :: "nat \<Rightarrow> config_world \<Rightarrow> debconf_db" where
  "member_db i w = (shared w)\<lparr>qroot := roots w i\<rparr>"

definition store_member :: "nat \<Rightarrow> debconf_db \<Rightarrow> config_world \<Rightarrow> config_world" where
  "store_member i d w = w\<lparr>shared := d, roots := (roots w)(i := qroot d)\<rparr>"

definition dc_of :: "bool \<Rightarrow> dc" where
  "dc_of b = (if b then DC_OK else DC_NOTOK)"

definition question_member :: "string list option \<Rightarrow> string list option \<Rightarrow> nat \<Rightarrow> (config_world, q_ptr) db_methods" where
  "question_member accept_types reject_types i = \<lparr>
     m_accept = (\<lambda>w name type. if question_db_accept accept_types reject_types (member_db i w) name type then DC_OK else DC_REJECT),
     m_set = (\<lambda>q w. (DC_OK, store_member i (rfc822db_question_set q (member_db i w)) w)),
     m_get = (\<lambda>w. rfc822db_question_get (member_db i w)),
     m_remove = (\<lambda>name w. case rfc822db_question_remove name (member_db i w) of (b, d) \<Rightarrow> (dc_of b, store_member i d w)),
     m_disown = (\<lambda>name owner w. case rfc822db_question_disown name owner (member_db i w) of (b, d) \<Rightarrow> (dc_of b, store_member i d w))\<rparr>"

text \<open>The members of a stack, all of the driver \<open>rfc822db\<close>: the member \<open>i\<close> of the list has the tree \<open>i\<close>.\<close>

fun rfc822db_members :: "configitem \<Rightarrow> nat \<Rightarrow> db_handle list \<Rightarrow> (config_world, q_ptr) db_methods list run" where
  "rfc822db_members cfg i [] = Returns []"
| "rfc822db_members cfg i (db # dbs) =
     (if db_driver db \<noteq> ''rfc822db'' then Died
      else run_bind (db_types cfg db ''accept_types'') (\<lambda>acc. run_bind (db_types cfg db ''reject_types'') (\<lambda>rej.
        run_bind (rfc822db_members cfg (Suc i) dbs) (\<lambda>ms. Returns (question_member acc rej i # ms)))))"

text \<open>The stack that is opened by default.\<close>

definition open_configdb :: "(string \<Rightarrow> bool) \<Rightarrow> configitem \<Rightarrow> (config_world, q_ptr) db_methods list run" where
  "open_configdb loads cfg =
     run_bind (question_db_new loads None cfg None) (\<lambda>db.
       if db_driver db \<noteq> ''stack'' then Died
       else run_bind (stack_question_db_initialize loads None cfg db) (rfc822db_members cfg 0))"

text \<open>The instances \<open>config_gen_db\<close> and \<open>config_passwd_db\<close> of the configuration file.\<close>

definition configdb :: "(config_world, q_ptr) db_methods list" where
  "configdb = [question_member None (Some [''password'']) 0, question_member (Some [''password'']) None 1]"

definition world_ok :: "config_world \<Rightarrow> bool" where
  "world_ok w \<longleftrightarrow> (\<forall>i. ordered (qkey (shared w)) (roots w i))"

definition question_name :: "config_world \<Rightarrow> q_ptr \<Rightarrow> string" where
  "question_name w q = qkey (shared w) q"

definition question_templ :: "config_world \<Rightarrow> q_ptr \<Rightarrow> tmpl_ptr option" where
  "question_templ w q = qtemplate (qheap (shared w) q)"

definition templ_type :: "config_world \<Rightarrow> tmpl_ptr \<Rightarrow> string option" where
  "templ_type w t = ttype (theap (shared w) t)"

definition question_type :: "config_world \<Rightarrow> q_ptr \<Rightarrow> string option" where
  "question_type w q = (case question_templ w q of None \<Rightarrow> Some [] | Some t \<Rightarrow> templ_type w t)"

lemma member_db_simps [simp]:
  "qkey (member_db i w) = qkey (shared w)" "qroot (member_db i w) = roots w i" "theap (member_db i w) = theap (shared w)"
  "qheap (member_db i w) = qheap (shared w)"
  by (simp_all add: member_db_def)

lemma store_member_simps [simp]:
  "shared (store_member i d w) = d" "roots (store_member i d w) = (roots w)(i := qroot d)"
  by (simp_all add: store_member_def)

lemma member_get: "rfc822db_question_get (member_db j w) k = tfind (qkey (shared w)) k (roots w j)"
  by (simp add: rfc822db_question_get_def)

lemma question_remove_eq:
  "snd (rfc822db_question_remove n (member_db i w)) =
     (if tfind (qkey (shared w)) n (roots w i) = None then member_db i w
      else (member_db i w)\<lparr>qroot := tdelete (qkey (shared w)) n (roots w i), qdirty := True\<rparr>)"
  by (simp add: rfc822db_question_remove_def member_get split: option.split)

lemma tdelete_absent: "tfind key n ps = None \<Longrightarrow> tdelete key n ps = ps"
  by (auto simp: tfind_None tdelete_def intro!: filter_True)

interpretation configs: db_members world_ok question_name question_type configdb
proof unfold_locales
  fix i x w r w'
  assume i: "i < length configdb" and w: "world_ok w" and s: "m_set (configdb ! i) x w = (r, w')"
  let ?d = "rfc822db_question_set x (member_db i w)"
  have w': "r = DC_OK" "w' = store_member i ?d w" using i s by (auto simp: configdb_def less_Suc_eq question_member_def)
  have k: "qkey ?d = qkey (shared w)" "qroot ?d = tsearch (qkey (shared w)) x (tdelete (qkey (shared w)) (qkey (shared w) x) (roots w i))"
    by (simp_all add: question_set_key question_set_root)
  have get: "m_get (configdb ! j) v = rfc822db_question_get (member_db j v)" if "j < length configdb" for j v
    using that by (auto simp: configdb_def less_Suc_eq question_member_def)
  have "world_ok w'" using w by (simp add: world_ok_def w'(2) k replace_ordered)
  moreover have "\<forall>j < length configdb. \<forall>k. m_get (configdb ! j) w' k = (if j = i \<and> k = question_name w x then Some x else m_get (configdb ! j) w k)"
    using w by (auto simp: get member_get w'(2) k replace_tfind world_ok_def question_name_def)
  ultimately show "r = DC_OK \<and> world_ok w' \<and> question_name w' = question_name w \<and>
      (\<forall>j < length configdb. \<forall>k. m_get (configdb ! j) w' k = (if j = i \<and> k = question_name w x then Some x else m_get (configdb ! j) w k))"
    using w' k(1) by (simp add: question_name_def fun_eq_iff)
next
  fix i n w r w'
  assume i: "i < length configdb" and w: "world_ok w" and s: "m_remove (configdb ! i) n w = (r, w')"
  let ?d = "snd (rfc822db_question_remove n (member_db i w))"
  have w': "w' = store_member i ?d w" using i s by (auto simp: configdb_def less_Suc_eq question_member_def split: prod.splits)
  have k: "qkey ?d = qkey (shared w)" "qroot ?d = tdelete (qkey (shared w)) n (roots w i)"
    "theap ?d = theap (shared w)" "qheap ?d = qheap (shared w)"
    by (simp_all add: question_remove_eq tdelete_absent)
  have get: "m_get (configdb ! j) v = rfc822db_question_get (member_db j v)" if "j < length configdb" for j v
    using that by (auto simp: configdb_def less_Suc_eq question_member_def)
  have "world_ok w'" using w by (simp add: world_ok_def w' k ordered_tdelete)
  moreover have "\<forall>j < length configdb. \<forall>k. m_get (configdb ! j) w' k = (if j = i \<and> k = n then None else m_get (configdb ! j) w k)"
    using w by (auto simp: get member_get w' k delete_tfind world_ok_def)
  moreover have "question_templ w' = question_templ w" "templ_type w' = templ_type w"
    by (simp_all add: question_templ_def templ_type_def fun_eq_iff w' k)
  then have same: "question_name w' = question_name w" "question_type w' = question_type w"
    by (simp_all add: question_name_def question_type_def fun_eq_iff w' k(1) split: option.split)
  ultimately show "world_ok w' \<and> question_name w' = question_name w \<and> question_type w' = question_type w \<and>
      (\<forall>j < length configdb. \<forall>k. m_get (configdb ! j) w' k = (if j = i \<and> k = n then None else m_get (configdb ! j) w k))"
    using same by simp
qed

lemma configdb_accept:
  assumes "ty \<noteq> []" "j < length configdb"
  shows "m_accept (configdb ! j) w n (Some ty) = (if (j = 0) = (ty \<noteq> ''password'') then DC_OK else DC_REJECT)"
  using assms by (cases ty) (auto simp: configdb_def less_Suc_eq question_member_def question_db_accept_def common_accept_def split: if_splits)

lemma configdb_get: "j < 2 \<Longrightarrow> m_get (configdb ! j) w k = rfc822db_question_get (member_db j w) k"
  by (auto simp: configdb_def less_Suc_eq numeral_2_eq_2 question_member_def)

definition tree_values :: "configitem \<Rightarrow> string \<Rightarrow> string option list option" where
  "tree_values cfg t = map_option (map ci_value \<circ> ci_child) (config_tree cfg (Some t))"

text \<open>What the configuration of the installer says about its stack, evaluated once.\<close>

definition stack_view ::
  "configitem \<Rightarrow> string option \<times> string option \<times> string option \<times> string option \<times> string option \<times> string option list option \<times>
     string option list option \<times> string option list option \<times> string option list option \<times> string option list option" where
  "stack_view cfg =
   (config_get cfg (Some ''global::default::config'') None,
    config_get cfg (Some ''global::module_path::database'') None,
    config_get cfg (Some ''config::instance::configdb::driver'') None,
    config_get cfg (Some ''config::instance::config_gen_db::driver'') None,
    config_get cfg (Some ''config::instance::config_passwd_db::driver'') None,
    tree_values cfg ''config::instance::configdb::stack'',
    tree_values cfg ''config::instance::config_gen_db::accept_types'',
    tree_values cfg ''config::instance::config_gen_db::reject_types'',
    tree_values cfg ''config::instance::config_passwd_db::accept_types'',
    tree_values cfg ''config::instance::config_passwd_db::reject_types'')"

lemma installer_view:
  "stack_view installer_cfg =
   (Some ''configdb'', Some ''/usr/lib/cdebconf/db'', Some ''stack'', Some ''rfc822db'', Some ''rfc822db'',
    Some [Some ''config_gen_db'', Some ''config_passwd_db''], None, Some [Some ''password''], Some [Some ''password''], None)"
  by code_simp

lemma run_map_values: "run_map (\<lambda>c. f (ci_value c)) cs = run_map f (map ci_value cs)"
  by (induction cs) auto

lemma db_types_values:
  "db_types cfg db kind =
     (case tree_values cfg (take 1023 (db_configpath db @ ''::'' @ kind)) of
        None \<Rightarrow> Returns None | Some vs \<Rightarrow> run_bind (or_die (those vs)) (\<lambda>ts. Returns (Some ts)))"
  by (simp add: db_types_def tree_values_def split: option.split)

lemma initialize_values:
  "stack_question_db_initialize loads e cfg db =
     run_bind (or_die (tree_values cfg (db_configpath db @ ''::stack'')))
       (run_map (question_db_new loads e cfg))"
  by (auto simp: stack_question_db_initialize_def run_map_values or_die_def tree_values_def split: option.split)

lemma open_installer_configdb:
  assumes "loads ''/usr/lib/cdebconf/db/stack.so''" "loads ''/usr/lib/cdebconf/db/rfc822db.so''"
  shows "open_configdb loads installer_cfg = Returns configdb"
  using assms installer_view
  by (simp add: stack_view_def open_configdb_def question_db_new_def db_open_def initialize_values db_types_values or_die_def configdb_def)

section \<open>Properties\<close>

text \<open>
  Property C32: Passwords are kept apart. In the stack that the installer is configured with, a question
  whose type is not empty is stored without looping and found again under its name. One of the type \<open>password\<close>
  is then in the database of passwords, and the other database has nothing under that name, whatever it had
  before; one of another type is in the other database, and the database of passwords is as it was. No question
  of another name is touched.
\<close>

theorem passwords_kept_apart:
  assumes "config_read config_new (Some (file_text installer_conf)) = Returns (True, cfg)"
    and "loads ''/usr/lib/cdebconf/db/stack.so''" "loads ''/usr/lib/cdebconf/db/rfc822db.so''" "open_configdb loads cfg = Returns ms"
    and w: "world_ok w" "question_type w q = Some ty" "ty \<noteq> []"
  shows "\<exists>w'. stack_question_db_set 3 question_name question_templ templ_type q ms w = Returns (DC_OK, w') \<and> world_ok w' \<and>
    stack_question_db_get ms w' (question_name w q) = Some q \<and>
    (\<forall>k. rfc822db_question_get (member_db 0 w') k =
      (if k = question_name w q then if ty = ''password'' then None else Some q else rfc822db_question_get (member_db 0 w) k)) \<and>
    (\<forall>k. rfc822db_question_get (member_db 1 w') k =
      (if k = question_name w q \<and> ty = ''password'' then Some q else rfc822db_question_get (member_db 1 w) k))"
  (is "\<exists>w'. ?P w'")
proof -
  have "cfg = installer_cfg" using assms(1) read_installer_conf by simp
  then have ms: "ms = configdb" using assms(4) open_installer_configdb [OF assms(2,3)] by simp
  let ?n = "question_name w q" and ?acc = "\<lambda>j::nat. (j = 0) = (ty \<noteq> ''password'')"
  have l: "length configdb = 2" by (simp add: configdb_def)
  obtain w' f where s: "stack_set 3 question_name question_type q configdb w = Returns (if f < 2 then DC_OK else DC_REJECT, w')"
    "world_ok w'" "f \<le> 2" "\<forall>j < f. \<not> ?acc j" "f < 2 \<longrightarrow> ?acc f"
    "\<forall>j < 2. \<forall>k. m_get (configdb ! j) w' k =
      (if k = ?n \<and> j < f then None else if k = ?n \<and> j = f then Some q else m_get (configdb ! j) w k)"
    using configs.stack_set_spec [of w q ?n "Some ty" 3 ?acc] w configdb_accept [OF w(3)] unfolding l by auto
  have f: "f = (if ty = ''password'' then 1 else 0)"
    using s(3-5) spec [OF s(4), of 0] spec [OF s(4), of 1] by (cases "f = 0"; cases "f = 1") auto
  have g: "rfc822db_question_get (member_db j w') k =
      (if k = ?n \<and> j < f then None else if k = ?n \<and> j = f then Some q else rfc822db_question_get (member_db j w) k)" if "j < 2" for j k
    using s(6) that by (simp add: configdb_get)
  have "stack_question_db_get configdb w' ?n = Some q"
    using g [of 0 ?n] g [of 1 ?n] f by (simp add: configdb_def question_member_def split: if_splits)
  then have "?P w'" unfolding ms using s(1,2) f g [of 0] g [of 1] by (simp add: stack_question_db_set_def question_type_def [abs_def])
  then show ?thesis by blast
qed

text \<open>A question \<open>a/b\<close> that has been in the general database and whose template is now a password.\<close>

definition password_world :: config_world where
  "password_world = \<lparr>shared = empty_db\<lparr>theap := (\<lambda>_. (template_new (Some ''a/b''))\<lparr>ttype := Some ''password''\<rparr>), tnext := 1,
       qheap := (\<lambda>_. (question_new ''a/b'')\<lparr>qtemplate := Some 0\<rparr>), qnext := 1\<rparr>,
     roots = (\<lambda>_. [])(0 := [0])\<rparr>"

lemma password_world_ok: "world_ok password_world"
  by (simp add: world_ok_def password_world_def ordered_def)

theorem passwords_kept_apart_witness:
  "rfc822db_question_get (member_db 0 password_world) ''a/b'' = Some 0 \<and>
   (\<exists>w'. stack_question_db_set 3 question_name question_templ templ_type 0 configdb password_world = Returns (DC_OK, w') \<and>
     rfc822db_question_get (member_db 0 w') ''a/b'' = None \<and> rfc822db_question_get (member_db 1 w') ''a/b'' = Some 0)"
proof -
  have n: "question_name password_world 0 = ''a/b''"
    by (simp add: question_name_def password_world_def qkey_def question_new_def)
  have t: "question_type password_world 0 = Some ''password''"
    by (simp add: question_type_def question_templ_def templ_type_def password_world_def)
  have o: "open_configdb (\<lambda>_. True) installer_cfg = Returns configdb" by (rule open_installer_configdb) simp_all
  have "rfc822db_question_get (member_db 0 password_world) ''a/b'' = Some 0"
    by (simp add: member_get password_world_def tfind_def qkey_def question_new_def)
  then show ?thesis
    using passwords_kept_apart [OF read_installer_conf _ _ o password_world_ok t] unfolding n by auto
qed

text \<open>
  A member whose \<open>set\<close> answers with a code that the \<open>switch\<close> does not list is asked for ever: the
  loop neither returns nor goes on to the next member.
\<close>

theorem unlisted_code_hangs:
  assumes "\<And>w. m_accept m w (name w x) (type w x) = DC_OK"
    and "\<And>w. m_set m x w = (DC_NOTIMPL, w)"
  shows "stack_set n name type x (m # ms) w = Hangs"
  using assms by (induction n) simp_all

text \<open>One member that can be read is enough for the templates, but all are needed for the questions.\<close>

lemma stack_any_ok: "fst (stack_any fs DC_OK w) = DC_OK"
  by (induction fs arbitrary: w) (auto split: prod.split)

lemma stack_load_differs:
  assumes "\<And>w. f w = (DC_OK, w)" "\<And>w. g w = (DC_NOTOK, w)"
  shows "fst (stack_template_db_load [f, g] w) = DC_OK" "fst (stack_question_db_load [f, g] w) = DC_NOTOK"
  using assms by (simp_all add: stack_template_db_load_def)

end
