(* ===== verification/C_Actions.thy ===== *)
theory C_Actions
  imports DI_Prelude
begin

text \<open>
  Actions of a program on its state: the programs main-menu and udpkg are written with them. An
  action may hang or die, see \<open>run\<close>.
\<close>

type_synonym ('s, 'a) action = "'s \<Rightarrow> ('a \<times> 's) run"

definition mret :: "'a \<Rightarrow> ('s, 'a) action" where
  "mret x s = Returns (x, s)"

definition mbind :: "('s, 'a) action \<Rightarrow> ('a \<Rightarrow> ('s, 'b) action) \<Rightarrow> ('s, 'b) action" where
  "mbind m f s = run_bind (m s) (\<lambda>(x, s). f x s)"

definition mupd :: "('s \<Rightarrow> 's) \<Rightarrow> ('s, unit) action" where
  "mupd f s = Returns ((), f s)"

text \<open>An action that depends on the state.\<close>

definition mread :: "('s \<Rightarrow> ('s, 'a) action) \<Rightarrow> ('s, 'a) action" where
  "mread f s = f s s"

lemma mbind_Returns: "mbind m f s = Returns (y, s') \<longleftrightarrow> (\<exists>x t. m s = Returns (x, t) \<and> f x t = Returns (y, s'))"
  by (auto simp: mbind_def run_bind_Returns)

lemma mbind_Hangs: "mbind m f s = Hangs \<longleftrightarrow> m s = Hangs \<or> (\<exists>x t. m s = Returns (x, t) \<and> f x t = Hangs)"
  by (auto simp: mbind_def run_bind_Hangs)

lemma mbind_step: "m s = Returns (x, t) \<Longrightarrow> mbind m f s = f x t"
  by (simp add: mbind_def)

lemma mret_simps [simp]: "mret x s = Returns (y, s') \<longleftrightarrow> y = x \<and> s' = s" "mret x s \<noteq> Hangs" "mret x s \<noteq> Died"
  by (auto simp: mret_def)

text \<open>Actions that keep an invariant.\<close>

definition keeps :: "('s \<Rightarrow> bool) \<Rightarrow> ('s, 'a) action \<Rightarrow> bool" where
  "keeps I m \<longleftrightarrow> (\<forall>s x s'. I s \<longrightarrow> m s = Returns (x, s') \<longrightarrow> I s')"

named_theorems keeps_intros \<open>rules for actions that keep an invariant\<close>

lemma keepsD: "keeps I m \<Longrightarrow> I s \<Longrightarrow> m s = Returns (x, s') \<Longrightarrow> I s'"
  by (auto simp: keeps_def)

lemma keeps_mbind [keeps_intros]: "keeps I m \<Longrightarrow> (\<And>x. keeps I (f x)) \<Longrightarrow> keeps I (mbind m f)"
  unfolding keeps_def mbind_Returns by blast

lemma keeps_mread [keeps_intros]: "(\<And>s. keeps I (h s)) \<Longrightarrow> keeps I (mread h)"
  unfolding keeps_def mread_def by blast

lemma keeps_end [keeps_intros]: "keeps I (mret x)" "keeps I (\<lambda>s. Died)" "keeps I (\<lambda>s. Hangs)"
  by (simp_all add: keeps_def)

lemma keeps_if [keeps_intros]: "(b \<Longrightarrow> keeps I m1) \<Longrightarrow> (\<not> b \<Longrightarrow> keeps I m2) \<Longrightarrow> keeps I (if b then m1 else m2)"
  by (cases b) simp_all

lemma keeps_option [keeps_intros]: "keeps I m1 \<Longrightarrow> (\<And>x. keeps I (k x)) \<Longrightarrow> keeps I (case c of None \<Rightarrow> m1 | Some x \<Rightarrow> k x)"
  by (cases c) simp_all

lemma keeps_split [keeps_intros]: "(\<And>a b. keeps I (f a b)) \<Longrightarrow> keeps I (case p of (a, b) \<Rightarrow> f a b)"
  by (cases p) simp

lemma keeps_sum [keeps_intros]: "(\<And>a. keeps I (f a)) \<Longrightarrow> (\<And>b. keeps I (h b)) \<Longrightarrow> keeps I (case r of Inl a \<Rightarrow> f a | Inr b \<Rightarrow> h b)"
  by (cases r) simp_all

end
