(* ===== verification/DI_Exec.thy ===== *)
theory DI_Exec
  imports DI_Prelude
begin

text \<open>
  The exit status of commands (\<^verbatim>\<open>libdebian-installer/src/exec.c\<close>). Starting processes is left out.
\<close>

text \<open>The macros of \<^verbatim>\<open><sys/wait.h>\<close> on a wait status.\<close>

definition di_exec_mangle_status :: "int \<Rightarrow> int" where
  "di_exec_mangle_status status =
     (let sig = status mod 128; code = (status div 256) mod 256
      in if sig = 0 then code
         else if sig \<noteq> 127 then 128 + sig
         else if status mod 256 = 127 then 128 + code
         else status)"

text \<open>A command that exits with a code, and one that is killed by a signal.\<close>

lemma mangle_exit: "0 \<le> c \<Longrightarrow> c < 256 \<Longrightarrow> di_exec_mangle_status (c * 256) = c"
  by (simp add: di_exec_mangle_status_def)

lemma mangle_signal: "0 < sig \<Longrightarrow> sig < 127 \<Longrightarrow> di_exec_mangle_status sig = 128 + sig"
  by (simp add: di_exec_mangle_status_def)

text \<open>Success is told apart from every failure; a core dump comes with a signal.\<close>

lemma mangle_zero: "0 \<le> status \<Longrightarrow> status < 2 ^ 16 \<Longrightarrow> status \<noteq> 128 \<Longrightarrow> di_exec_mangle_status status = 0 \<longleftrightarrow> status = 0"
  unfolding di_exec_mangle_status_def Let_def by (auto split: if_splits)

end
