(* ===== verification/Main_Menu.thy ===== *)
theory Main_Menu
  imports C_Actions DI_Exec DI_Resolver DI_PackageParser Deb_Strutl "HOL-Library.List_Lexorder"
begin

text \<open>
  \<^verbatim>\<open>main-menu\<close>, the program that runs the installation (\<^verbatim>\<open>main-menu/main-menu.c\<close>): it orders
  the menu items by their dependencies, finds the next one to run, configures it after the
  packages it depends on, and keeps track of the priority of questions.

  What comes from outside is the argument \<open>menu_io\<close>: the answers of debconf, the exit
  statuses of scripts and commands, and the status file, each a function of a world that is
  passed along. \<open>history\<close> is not in the program: it records which packages the program
  configured, with the results, so that theorems can speak of the order.
\<close>

section \<open>Definitions\<close>

text \<open>An entry of \<^verbatim>\<open>/lib/main-menu.d\<close>: its name, and what \<open>stat\<close> and \<open>access\<close> say of it.\<close>

record startup_entry =
  d_name :: string
  se_stat :: bool
  se_regular :: bool
  se_executable :: bool

record 'w menu_io =
  mm_debconf :: "string \<Rightarrow> 'w \<Rightarrow> int \<times> string \<times> 'w"
  mm_script :: "string \<Rightarrow> string \<Rightarrow> 'w \<Rightarrow> int \<times> 'w"
  mm_shell :: "string \<Rightarrow> 'w \<Rightarrow> int \<times> 'w"
  mm_status_file :: "'w \<Rightarrow> string"
  mm_main_menu_d :: "startup_entry list option"

record 'w main_menu =
  packages :: di_packages
  di_config_package_depth :: int
  seen_items :: "(di_rstring, di_rstring) di_hash_table"
  notinstallables :: "(di_rstring, di_rstring) di_hash_table"
  last_successful_item :: int
  default_priority :: int
  local_priority :: int
  display_menu :: bool
  history :: "(pkg_ptr \<times> int) list"
  world :: 'w

type_synonym ('w, 'a) act = "('w main_menu, 'a) action"

text \<open>A command to debconf: its return code and \<open>debconf->value\<close>.\<close>

definition debconf :: "'w menu_io \<Rightarrow> string \<Rightarrow> ('w, int \<times> string) act" where
  "debconf io cmd s = (case mm_debconf io cmd (world s) of (code, val, w) \<Rightarrow> Returns ((code, val), s\<lparr>world := w\<rparr>))"

definition control_file_exec :: "'w menu_io \<Rightarrow> string \<Rightarrow> string \<Rightarrow> ('w, int) act" where
  "control_file_exec io pkg name s = (case mm_script io pkg name (world s) of (r, w) \<Rightarrow> Returns (r, s\<lparr>world := w\<rparr>))"

definition exec_shell_log :: "'w menu_io \<Rightarrow> string \<Rightarrow> ('w, int) act" where
  "exec_shell_log io cmd s = (case mm_shell io cmd (world s) of (r, w) \<Rightarrow> Returns (r, s\<lparr>world := w\<rparr>))"

definition pkg_at :: "'w main_menu \<Rightarrow> pkg_ptr \<Rightarrow> di_system_package" where
  "pkg_at s p = heap (packages s) p"

definition set_status :: "di_package_status \<Rightarrow> pkg_ptr \<Rightarrow> 'w main_menu \<Rightarrow> 'w main_menu" where
  "set_status st p s =
     s\<lparr>packages := (packages s)\<lparr>heap := (heap (packages s))(p := (heap (packages s) p)\<lparr>pkg_status := st\<rparr>)\<rparr>\<rparr>"

subsection \<open>Priorities\<close>

definition debconf_priorities :: "string list" where
  "debconf_priorities = [''low'', ''medium'', ''high'', ''critical'']"

fun pri_loop :: "string \<Rightarrow> string list \<Rightarrow> int \<Rightarrow> int" where
  "pri_loop p [] i = - 1"
| "pri_loop p (x # xs) i = (if p = x then i else pri_loop p xs (i + 1))"

definition debconf_to_pri :: "string \<Rightarrow> int" where
  "debconf_to_pri p = pri_loop p debconf_priorities 0"

text \<open>Reading outside of the array is an error.\<close>

definition priority_name :: "int \<Rightarrow> ('w, string) act" where
  "priority_name i s = (if 0 \<le> i \<and> i < int (length debconf_priorities) then Returns (debconf_priorities ! nat i, s) else Died)"

definition MENU_PRIORITY :: string where
  "MENU_PRIORITY = ''medium''"

definition menu_priority :: "'w main_menu \<Rightarrow> int" where
  "menu_priority s =
     (let prio = (if display_menu s then local_priority s else - 1)
      in if prio < 0 \<or> prio \<ge> int (length debconf_priorities) then debconf_to_pri MENU_PRIORITY else prio)"

datatype raise_or_lower = RAISE | LOWER

definition modify_debconf_priority :: "'w menu_io \<Rightarrow> raise_or_lower \<Rightarrow> ('w, unit) act" where
  "modify_debconf_priority io rl =
     mbind (debconf io ''GET debconf/priority'') (\<lambda>(_, val) s.
       let pri = debconf_to_pri val;
           pri = (if pri = - 1 then 1 else pri);
           (pri, s) = (case rl of LOWER \<Rightarrow> (pri - 1, s\<lparr>display_menu := True\<rparr>) | RAISE \<Rightarrow> (pri + 1, s));
           pri = (if 0 > pri then 0 else pri);
           pri = (if pri > default_priority s then default_priority s else pri)
       in if local_priority s \<noteq> pri
          then mbind (priority_name pri) (\<lambda>name. mbind (debconf io (''SET debconf/priority '' @ name)) (\<lambda>_. mret ()))
                 (s\<lparr>local_priority := pri\<rparr>)
          else Returns ((), s))"

definition adjust_default_priority :: "'w menu_io \<Rightarrow> ('w, unit) act" where
  "adjust_default_priority io =
     mbind (debconf io ''GET debconf/priority'') (\<lambda>(_, val) s.
       let pri = debconf_to_pri val
       in if pri > - 1 \<and> pri \<noteq> local_priority s
          then Returns ((), s\<lparr>local_priority := pri, default_priority := pri\<rparr>)
          else Returns ((), s))"

definition restore_default_priority :: "'w menu_io \<Rightarrow> ('w, unit) act" where
  "restore_default_priority io s =
     (if local_priority s \<noteq> default_priority s
      then mbind (priority_name (default_priority s)) (\<lambda>name.
             mbind (debconf io (''SET debconf/priority '' @ name)) (\<lambda>_.
               mupd (\<lambda>s. s\<lparr>local_priority := default_priority s\<rparr>))) s
      else Returns ((), s))"

subsection \<open>Menu items\<close>

definition isdefault :: "'w menu_io \<Rightarrow> pkg_ptr \<Rightarrow> ('w, bool) act" where
  "isdefault io p = mread (\<lambda>s.
     mbind (control_file_exec io (pkg_package (pkg_at s p)) ''menutest'') (\<lambda>check.
       mret (check \<le> 0 \<or> pkg_status (pkg_at s p) = di_package_status_unpacked \<or>
         pkg_status (pkg_at s p) = di_package_status_half_configured)))"

definition isinstallable :: "'w menu_io \<Rightarrow> pkg_ptr \<Rightarrow> ('w, bool) act" where
  "isinstallable io p s =
     (if installer_menu_item (pkg_at s p) = 99999 then Returns (False, s)
      else mbind (control_file_exec io (pkg_package (pkg_at s p)) ''isinstallable'') (\<lambda>check s.
             if check \<le> 0 then Returns (True, s)
             else let n = pkg_package (pkg_at s p)
                  in Returns (False, s\<lparr>notinstallables := fst (di_hash_table_insert (notinstallables s) n n)\<rparr>)) s)"

definition provided_by_installed :: "pkg_heap \<Rightarrow> pkg_ptr \<Rightarrow> bool" where
  "provided_by_installed h v \<longleftrightarrow>
     list_ex (\<lambda>d. dep_type d = di_package_dependency_type_reverse_provides \<and>
       pkg_status (h (dep_ptr d)) = di_package_status_installed) (pkg_depends (h v))"

fun provides_loop :: "pkg_heap \<Rightarrow> di_package_dependency list \<Rightarrow> bool \<Rightarrow> bool" where
  "provides_loop h [] provides = provides"
| "provides_loop h (d # ds) provides =
     (if dep_type d = di_package_dependency_type_provides
      then (if \<not> provided_by_installed h (dep_ptr d) then False else provides_loop h ds True)
      else provides_loop h ds provides)"

definition provides_installed_virtual_packages :: "pkg_heap \<Rightarrow> pkg_ptr \<Rightarrow> bool" where
  "provides_installed_virtual_packages h p = provides_loop h (pkg_depends (h p)) False"

definition NEVERDEFAULT :: int where
  "NEVERDEFAULT = 90000"

definition item_table :: "(di_rstring, di_rstring) di_hash_table" where
  "item_table = di_hash_table_new_full di_rstring_hash (Some di_rstring_equal) True False"

fun default_loop :: "'w menu_io \<Rightarrow> pkg_ptr list \<Rightarrow> ('w, pkg_ptr option) act" where
  "default_loop io [] s = Returns (None, s)"
| "default_loop io (p # ps) s =
     (if installer_menu_item (pkg_at s p) = 0 \<or> pkg_status (pkg_at s p) = di_package_status_installed
      then default_loop io ps s
      else run_bind (isinstallable io p s) (\<lambda>(ok, s).
        if \<not> ok \<or> installer_menu_item (pkg_at s p) \<ge> NEVERDEFAULT \<or>
           (installer_menu_item (pkg_at s p) < last_successful_item s \<and>
            di_hash_table_lookup (seen_items s) (pkg_package (pkg_at s p)) \<noteq> None)
        then default_loop io ps s
        else run_bind (isdefault io p s) (\<lambda>(def, s).
          if def \<and> \<not> provides_installed_virtual_packages (heap (packages s)) p
          then Returns (Some p, s) else default_loop io ps s)))"

definition get_default_menu_item :: "'w menu_io \<Rightarrow> pkg_ptr list \<Rightarrow> ('w, pkg_ptr option) act" where
  "get_default_menu_item io list s = default_loop io list (s\<lparr>notinstallables := item_table\<rparr>)"

subsection \<open>Texts\<close>

definition menu_entry_maxlen :: nat where
  "menu_entry_maxlen = 256"

text \<open>\<open>strncpy\<close> leaves a text that fills the buffer without a NUL; reading it on is an error.\<close>

definition strncpy_entry :: "string \<Rightarrow> ('w, string) act" where
  "strncpy_entry v s = (if length v < menu_entry_maxlen then Returns (v, s) else Died)"

definition title_question :: "string \<Rightarrow> string" where
  "title_question name = ''debian-installer/'' @ name @ ''/title''"

definition menu_entry :: "'w menu_io \<Rightarrow> pkg_ptr \<Rightarrow> ('w, string) act" where
  "menu_entry io p = mread (\<lambda>s.
     mbind (debconf io (''METAGET '' @ take (menu_entry_maxlen - 1) (title_question (pkg_package (pkg_at s p))) @ '' Description''))
       (\<lambda>(code, val).
          if code = 0 then strncpy_entry val
          else strncpy_entry (case pkg_short_description (pkg_at s p) of None \<Rightarrow> [] | Some d \<Rightarrow> d)))"

text \<open>The static buffer has \<open>menu_entry_maxlen * 2\<close> bytes.\<close>

definition choices_escape :: "string \<Rightarrow> ('w, string) act" where
  "choices_escape str s =
     (if CHR '','' \<notin> set str then Returns (str, s)
      else let out = comma_escape str
           in if length out < menu_entry_maxlen * 2 then Returns (out, s) else Died)"

text \<open>A growing buffer: the text, \<open>menu_used\<close> and \<open>menu_size\<close>.\<close>

type_synonym menu_buf = "string \<times> nat \<times> nat"

definition menu_new :: menu_buf where
  "menu_new = ([], 1, 1024)"

definition menu_grow :: "string \<Rightarrow> menu_buf \<Rightarrow> nat" where
  "menu_grow buf m = (case m of (menu, used, sz) \<Rightarrow> if used + length buf + 2 > sz then sz + 1024 else sz)"

definition menu_store :: "string \<Rightarrow> nat \<Rightarrow> nat \<Rightarrow> ('w, menu_buf) act" where
  "menu_store menu used sz s = (if length menu < sz then Returns ((menu, used, sz), s) else Died)"

definition menu_append :: "string \<Rightarrow> menu_buf \<Rightarrow> ('w, menu_buf) act" where
  "menu_append buf m =
     (case m of (menu, used, sz) \<Rightarrow>
        menu_store (if menu = [] then buf else menu @ '', '' @ buf) (used + length buf + 2) (menu_grow buf m))"

definition menu_prepend :: "string \<Rightarrow> menu_buf \<Rightarrow> ('w, menu_buf) act" where
  "menu_prepend buf m =
     (case m of (menu, used, sz) \<Rightarrow>
        menu_store (if menu = [] then buf else buf @ '', '' @ menu) (used + length buf + 2) (menu_grow buf m))"

subsection \<open>The menu\<close>

definition package_array_compare :: "di_system_package \<Rightarrow> di_system_package \<Rightarrow> int" where
  "package_array_compare p1 p2 =
     (let r = installer_menu_item p1 - installer_menu_item p2;
          a = map of_char (pkg_package p1) :: nat list;
          b = map of_char (pkg_package p2)
      in if r \<noteq> 0 then r else if a < b then - 1 else if b < a then 1 else 0)"

text \<open>
  \<open>qsort\<close>. When no two packages have the same name the comparison decides every pair, and
  there is only one sorted order.
\<close>

fun qsort_insert :: "pkg_heap \<Rightarrow> pkg_ptr \<Rightarrow> pkg_ptr list \<Rightarrow> pkg_ptr list" where
  "qsort_insert h p [] = [p]"
| "qsort_insert h p (q # qs) =
     (if package_array_compare (h p) (h q) \<le> 0 then p # q # qs else q # qsort_insert h p qs)"

definition package_qsort :: "pkg_heap \<Rightarrow> pkg_ptr list \<Rightarrow> pkg_ptr list" where
  "package_qsort h ps = foldr (qsort_insert h) ps []"

fun menu_loop :: "'w menu_io \<Rightarrow> pkg_ptr list \<Rightarrow> menu_buf \<Rightarrow> ('w, menu_buf) act" where
  "menu_loop io [] m s = Returns (m, s)"
| "menu_loop io (p # ps) m s =
     (if installer_menu_item (pkg_at s p) = 0 then menu_loop io ps m s
      else run_bind (isinstallable io p s) (\<lambda>(ok, s).
        if \<not> ok then menu_loop io ps m s
        else run_bind (menu_entry io p s) (\<lambda>(e, s).
             run_bind (choices_escape e s) (\<lambda>(buf, s).
             run_bind (menu_append buf m s) (\<lambda>(m, s). menu_loop io ps m s)))))"

fun select_loop :: "'w menu_io \<Rightarrow> string \<Rightarrow> pkg_ptr list \<Rightarrow> ('w, pkg_ptr option) act" where
  "select_loop io choice [] s = Returns (None, s)"
| "select_loop io choice (p # ps) s =
     run_bind (menu_entry io p s) (\<lambda>(buf, s). if buf = choice then Returns (Some p, s) else select_loop io choice ps s)"

definition MAIN_MENU :: string where
  "MAIN_MENU = ''debian-installer/main-menu''"

text \<open>The packages that make up the menu, in the order of the array.\<close>

definition package_array :: "'w main_menu \<Rightarrow> pkg_ptr list" where
  "package_array s =
     package_qsort (heap (packages s)) (filter (\<lambda>p. installer_menu_item (pkg_at s p) \<noteq> 0) (pkg_list (packages s)))"

text \<open>The dialogue with the user once the menu and the default are known.\<close>

definition ask_menu :: "'w menu_io \<Rightarrow> string \<Rightarrow> pkg_ptr option \<Rightarrow> ('w, string) act" where
  "ask_menu io menu menudefault =
     mbind (debconf io ''SETTITLE debian-installer/main-menu-title'') (\<lambda>_.
     mbind (debconf io ''CAPB'') (\<lambda>_.
     mbind (debconf io (''SUBST '' @ MAIN_MENU @ '' MENU '' @ menu)) (\<lambda>_.
     mbind (case menudefault of
              Some p \<Rightarrow> mbind (menu_entry io p) (\<lambda>buf. mbind (debconf io (''SET '' @ MAIN_MENU @ '' '' @ buf)) (\<lambda>_. mret ()))
            | None \<Rightarrow> modify_debconf_priority io LOWER) (\<lambda>_.
     mbind (mread (\<lambda>s. priority_name (menu_priority s))) (\<lambda>prio.
     mbind (debconf io (''INPUT '' @ prio @ '' '' @ MAIN_MENU)) (\<lambda>_.
     mbind (debconf io ''GO'') (\<lambda>_.
     mbind (debconf io (''GET '' @ MAIN_MENU)) (\<lambda>(_, choice). mret choice))))))))"

definition show_main_menu :: "'w menu_io \<Rightarrow> nat \<Rightarrow> ('w, pkg_ptr option) act" where
  "show_main_menu io fuel s =
     (let array = package_array s
      in case di_system_packages_resolve_dependencies_array_permissive fuel (packages s) array of
           None \<Rightarrow> Hangs
         | Some (list, pkgs) \<Rightarrow>
             mbind (menu_loop io list menu_new) (\<lambda>(menu, used, sz).
             mbind (get_default_menu_item io list) (\<lambda>menudefault.
             mbind (ask_menu io menu menudefault) (\<lambda>choice.
               select_loop io choice array))) (s\<lparr>packages := pkgs\<rparr>))"

subsection \<open>Configuring packages\<close>

definition EXIT_OK :: int where
  "EXIT_OK = 0"

definition EXIT_BACKUP :: int where
  "EXIT_BACKUP = 10"

definition EXIT_INSTALLER :: int where
  "EXIT_INSTALLER = 11"

definition set_package_title :: "'w menu_io \<Rightarrow> pkg_ptr \<Rightarrow> ('w, unit) act" where
  "set_package_title io p = mread (\<lambda>s.
     if installer_menu_item (pkg_at s p) = 0 then mret ()
     else mbind (debconf io (''SETTITLE '' @ title_question (pkg_package (pkg_at s p)))) (\<lambda>_. mret ()))"

definition MISSING_PROVIDE :: string where
  "MISSING_PROVIDE = ''debian-installer/missing-provide''"

text \<open>
  The first loop of \<open>satisfy_virtual\<close>: the default provider, whether one of the providers is
  a menu item, and the menu. \<open>Inl\<close> is an early return from the function. \<open>rec\<close> is
  \<open>di_config_package\<close>.
\<close>

record virtual_scan =
  defpkg :: "pkg_ptr option"
  is_menu_item :: bool
  scan_menu :: menu_buf

definition better_default :: "di_system_package \<Rightarrow> di_system_package \<Rightarrow> bool" where
  "better_default dep def \<longleftrightarrow> pkg_priority def < pkg_priority dep \<or>
     (pkg_priority dep = pkg_priority def \<and> installer_menu_item dep < installer_menu_item def)"

definition scan_provider :: "'w menu_io \<Rightarrow> pkg_ptr \<Rightarrow> virtual_scan \<Rightarrow> ('w, virtual_scan) act" where
  "scan_provider io dep v = mread (\<lambda>s.
     (let v = (if (case defpkg v of None \<Rightarrow> True | Some q \<Rightarrow> better_default (pkg_at s dep) (pkg_at s q))
               then v\<lparr>defpkg := Some dep\<rparr> else v);
          v = (if installer_menu_item (pkg_at s dep) \<noteq> 0 then v\<lparr>is_menu_item := True\<rparr> else v)
      in mbind (menu_entry io dep) (\<lambda>e.
         mbind (choices_escape e) (\<lambda>buf.
         mbind (if defpkg v = Some dep then menu_prepend buf (scan_menu v) else menu_append buf (scan_menu v)) (\<lambda>m.
           mret (v\<lparr>scan_menu := m\<rparr>))))))"

fun virtual_loop ::
  "'w menu_io \<Rightarrow> (pkg_ptr \<Rightarrow> ('w, int) act) \<Rightarrow> di_package_dependency list \<Rightarrow> virtual_scan \<Rightarrow> ('w, int + virtual_scan) act" where
  "virtual_loop io rec [] v s = Returns (Inr v, s)"
| "virtual_loop io rec (d # ds) v s =
     (if dep_type d = di_package_dependency_type_depends
      then (if pkg_status (pkg_at s (dep_ptr d)) \<noteq> di_package_status_installed
            then run_bind (rec (dep_ptr d) s) (\<lambda>(r, s).
                   if r = - 1 \<or> r = EXIT_BACKUP then Returns (Inl r, s) else virtual_loop io rec ds v s)
            else virtual_loop io rec ds v s)
      else if dep_type d \<noteq> di_package_dependency_type_reverse_provides then virtual_loop io rec ds v s
      else if pkg_status (pkg_at s (dep_ptr d)) = di_package_status_installed
      then Returns (Inr (v\<lparr>scan_menu := (fst (scan_menu v), 0, snd (snd (scan_menu v)))\<rparr>), s)
      else run_bind (scan_provider io (dep_ptr d) v s) (\<lambda>(v, s). virtual_loop io rec ds v s))"

text \<open>The second loop; \<open>choice\<close> is the answer of the user, if there was a question.\<close>

fun choice_loop ::
  "'w menu_io \<Rightarrow> (pkg_ptr \<Rightarrow> ('w, int) act) \<Rightarrow> string option \<Rightarrow> di_package_dependency list \<Rightarrow> ('w, int option) act" where
  "choice_loop io rec choice [] s = Returns (None, s)"
| "choice_loop io rec choice (d # ds) s =
     run_bind (menu_entry io (dep_ptr d) s) (\<lambda>(buf, s).
       if choice = None \<or> choice = Some buf
       then run_bind (rec (dep_ptr d) s) (\<lambda>(r, s).
              if r = - 1 \<or> r = EXIT_BACKUP then Returns (Some r, s)
              else if choice \<noteq> None then Returns (None, s)
              else choice_loop io rec choice ds s)
       else choice_loop io rec choice ds s)"

text \<open>The question which provider to use; \<open>None\<close> when the user goes back.\<close>

definition ask_provider :: "'w menu_io \<Rightarrow> pkg_ptr option \<Rightarrow> string \<Rightarrow> ('w, string option) act" where
  "ask_provider io def menu =
     mbind (case def of
              Some q \<Rightarrow> mbind (menu_entry io q) (\<lambda>buf.
                mbind (debconf io (''SET '' @ MISSING_PROVIDE @ '' '' @ buf)) (\<lambda>_. mret ''medium''))
            | None \<Rightarrow> mret ''critical'') (\<lambda>prio.
     mbind (debconf io ''CAPB backup'') (\<lambda>_.
     mbind (debconf io (''SUBST '' @ MISSING_PROVIDE @ '' CHOICES '' @ menu)) (\<lambda>_.
     mbind (debconf io (''INPUT '' @ prio @ '' '' @ MISSING_PROVIDE)) (\<lambda>_.
     mbind (debconf io ''GO'') (\<lambda>(code, _).
       if code \<noteq> 0 then mret None
       else mbind (debconf io ''CAPB'') (\<lambda>_.
            mbind (debconf io (''GET '' @ MISSING_PROVIDE)) (\<lambda>(_, val). mret (Some val))))))))"

text \<open>A virtual package is not configured, only marked.\<close>

definition virtual_done :: "pkg_ptr \<Rightarrow> ('w, int) act" where
  "virtual_done p s = Returns (1, set_status di_package_status_installed p s)"

text \<open>
  After the first loop. \<open>menu[menu_used - 2] = 0\<close> cuts the text. The user is only asked when one
  of the providers is a menu item.
\<close>

definition choose_provider ::
  "'w menu_io \<Rightarrow> (pkg_ptr \<Rightarrow> ('w, int) act) \<Rightarrow> pkg_ptr \<Rightarrow> di_package_dependency list \<Rightarrow> virtual_scan \<Rightarrow> ('w, int) act" where
  "choose_provider io rec p deps v =
     (case scan_menu v of (menu, used, sz) \<Rightarrow>
        if used \<le> 1 then virtual_done p
        else if used - 2 \<ge> sz then (\<lambda>s. Died)
        else mbind (if is_menu_item v then ask_provider io (defpkg v) (take (used - 2) menu) else mret None) (\<lambda>choice.
          if is_menu_item v \<and> choice = None then mret 0
          else mbind (choice_loop io rec choice deps) (\<lambda>r.
            case r of None \<Rightarrow> virtual_done p | Some e \<Rightarrow> mret e)))"

definition satisfy_virtual :: "'w menu_io \<Rightarrow> (pkg_ptr \<Rightarrow> ('w, int) act) \<Rightarrow> pkg_ptr \<Rightarrow> ('w, int) act" where
  "satisfy_virtual io rec p = mread (\<lambda>s.
     mbind (virtual_loop io rec (pkg_depends (pkg_at s p)) \<lparr>defpkg = None, is_menu_item = False, scan_menu = menu_new\<rparr>) (\<lambda>r.
       case r of Inl e \<Rightarrow> mret e | Inr v \<Rightarrow> choose_provider io rec p (pkg_depends (pkg_at s p)) v))"

text \<open>The loop over the dependencies of a real package; \<open>Some\<close> is an early return.\<close>

fun config_deps :: "(pkg_ptr \<Rightarrow> ('w, int) act) \<Rightarrow> di_package_dependency list \<Rightarrow> ('w, int option) act" where
  "config_deps rec [] s = Returns (None, s)"
| "config_deps rec (d # ds) s =
     (if pkg_status (pkg_at s (dep_ptr d)) = di_package_status_installed \<or> dep_type d \<noteq> di_package_dependency_type_depends
      then config_deps rec ds s
      else let s = s\<lparr>di_config_package_depth := di_config_package_depth s + 1\<rparr>
           in if di_config_package_depth s > 1000 then Returns (Some (- 1), s)
              else run_bind (rec (dep_ptr d) s) (\<lambda>(r, s).
                let s = s\<lparr>di_config_package_depth := di_config_package_depth s - 1\<rparr>
                in if r = - 1 \<or> r = EXIT_BACKUP then Returns (Some r, s) else config_deps rec ds s))"

definition config_result :: "pkg_ptr \<Rightarrow> int \<Rightarrow> ('w, int) act" where
  "config_result p r s =
     (let s = s\<lparr>history := history s @ [(p, r)]\<rparr>
      in if r = EXIT_OK \<or> r = EXIT_INSTALLER then Returns (r, set_status di_package_status_installed p s)
         else if r = EXIT_BACKUP then Returns (r, set_status di_package_status_half_configured p s)
         else Returns (- 1, set_status di_package_status_half_configured p s))"

definition configure_command :: "string \<Rightarrow> string" where
  "configure_command name = ''exec udpkg --configure --force-configure '' @ name"

primrec di_config_package :: "'w menu_io \<Rightarrow> nat \<Rightarrow> pkg_ptr \<Rightarrow> ('w, int) act" where
  "di_config_package io 0 p = (\<lambda>s. Hangs)"
| "di_config_package io (Suc n) p = (\<lambda>s.
     case pkg_type (pkg_at s p) of
       di_package_type_virtual_package \<Rightarrow> satisfy_virtual io (di_config_package io n) p s
     | di_package_type_non_existent \<Rightarrow> Returns (0, s)
     | di_package_type_real_package \<Rightarrow>
         mbind (config_deps (di_config_package io n) (pkg_depends (pkg_at s p))) (\<lambda>r.
           case r of
             Some e \<Rightarrow> mret e
           | None \<Rightarrow>
               mbind (set_package_title io p) (\<lambda>_.
               mbind (exec_shell_log io (configure_command (pkg_package (pkg_at s p)))) (\<lambda>status.
                 config_result p (di_exec_mangle_status status)))) s)"

definition do_menu_item :: "'w menu_io \<Rightarrow> nat \<Rightarrow> pkg_ptr \<Rightarrow> ('w, int) act" where
  "do_menu_item io fuel p = di_config_package io fuel p"

subsection \<open>The main loop\<close>

definition ITEM_FAILURE :: string where
  "ITEM_FAILURE = ''debian-installer/main-menu/item-failure''"

definition notify_user_of_failure :: "'w menu_io \<Rightarrow> pkg_ptr \<Rightarrow> ('w, unit) act" where
  "notify_user_of_failure io p =
     mbind (set_package_title io p) (\<lambda>_.
     mbind (debconf io ''CAPB'') (\<lambda>_.
     mbind (menu_entry io p) (\<lambda>buf.
     mbind (debconf io (''SUBST '' @ ITEM_FAILURE @ '' ITEM '' @ buf)) (\<lambda>_.
     mbind (debconf io (''INPUT critical '' @ ITEM_FAILURE)) (\<lambda>_.
     mbind (debconf io ''GO'') (\<lambda>_.
     mbind (debconf io ''CAPB backup'') (\<lambda>_. mret ())))))))"

text \<open>What happens after an item; the result says whether to leave the loop.\<close>

definition after_item :: "'w menu_io \<Rightarrow> pkg_ptr \<Rightarrow> int \<Rightarrow> ('w, bool) act" where
  "after_item io p r s =
     (if r = EXIT_OK then
        (if installer_menu_item (pkg_at s p) < NEVERDEFAULT
         then mbind (restore_default_priority io) (\<lambda>_. mret False)
                (s\<lparr>last_successful_item := installer_menu_item (pkg_at s p)\<rparr>)
         else Returns (False, s))
      else if r = EXIT_BACKUP then Returns (False, s\<lparr>display_menu := True\<rparr>)
      else if r = EXIT_INSTALLER then Returns (True, s)
      else mbind (notify_user_of_failure io p) (\<lambda>_. mbind (modify_debconf_priority io LOWER) (\<lambda>_. mret False)) s)"

definition remember_seen :: "'w main_menu \<Rightarrow> 'w main_menu" where
  "remember_seen s =
     s\<lparr>seen_items := fold (\<lambda>p t. let n = pkg_package (pkg_at s p)
          in if di_hash_table_lookup (notinstallables s) n = None then fst (di_hash_table_insert t n n) else t)
        (pkg_list (packages s)) (seen_items s)\<rparr>"

definition read_packages :: "'w menu_io \<Rightarrow> ('w, unit) act" where
  "read_packages io s =
     (case di_packages_special_read_file (mm_status_file io (world s)) (heap (packages s)) (heap_next (packages s))
             di_system_packages_status_parser_info of
        Inr (Some pkgs) \<Rightarrow> Returns ((), s\<lparr>packages := pkgs\<rparr>)
      | _ \<Rightarrow> Died)"

text \<open>One round of the loop of \<open>main\<close>: \<open>Some\<close> is the exit code of the program.\<close>

definition main_round :: "'w menu_io \<Rightarrow> nat \<Rightarrow> ('w, int option) act" where
  "main_round io fuel =
     mbind (show_main_menu io fuel) (\<lambda>choice.
       case choice of
         None \<Rightarrow> mret (Some 1)
       | Some p \<Rightarrow>
           mbind (mupd (\<lambda>s. if installer_menu_item (pkg_at s p) < NEVERDEFAULT \<and> display_menu s
                            then s\<lparr>display_menu := False\<rparr> else s)) (\<lambda>_.
           mbind (do_menu_item io fuel p) (\<lambda>ret.
           mbind (adjust_default_priority io) (\<lambda>_.
           mbind (after_item io p ret) (\<lambda>exit_loop.
           mbind (mupd remember_seen) (\<lambda>_.
           mbind (read_packages io) (\<lambda>_.
           mbind (debconf io ''X_SAVE'') (\<lambda>_.
             mret (if exit_loop then Some EXIT_OK else None)))))))))"

primrec main_loop :: "'w menu_io \<Rightarrow> nat \<Rightarrow> nat \<Rightarrow> ('w, int) act" where
  "main_loop io fuel 0 = (\<lambda>s. Hangs)"
| "main_loop io fuel (Suc n) =
     mbind (main_round io fuel) (\<lambda>r. case r of Some code \<Rightarrow> mret code | None \<Rightarrow> main_loop io fuel n)"

text \<open>The scripts of \<^verbatim>\<open>/lib/main-menu.d\<close>, in the order of \<open>scandir\<close>. Their exit status is only logged.\<close>

definition MAIN_MENU_DIR :: string where
  "MAIN_MENU_DIR = ''/lib/main-menu.d''"

fun startup_loop :: "'w menu_io \<Rightarrow> startup_entry list \<Rightarrow> ('w, unit) act" where
  "startup_loop io [] s = Returns ((), s)"
| "startup_loop io (e # es) s =
     (if d_name e = ''.'' \<or> d_name e = ''..'' \<or> \<not> se_stat e \<or> \<not> se_regular e \<or> \<not> se_executable e then startup_loop io es s
      else run_bind (exec_shell_log io (MAIN_MENU_DIR @ ''/'' @ d_name e) s) (\<lambda>(_, s). startup_loop io es s))"

definition menu_startup :: "'w menu_io \<Rightarrow> ('w, unit) act" where
  "menu_startup io = (case mm_main_menu_d io of None \<Rightarrow> mret () | Some es \<Rightarrow> startup_loop io es)"

text \<open>\<open>main\<close>, with the world as the program finds it.\<close>

definition menu_main :: "'w menu_io \<Rightarrow> nat \<Rightarrow> nat \<Rightarrow> 'w \<Rightarrow> (int \<times> 'w main_menu) run" where
  "menu_main io fuel n w =
     mbind (debconf io ''GET debconf/language'') (\<lambda>(code, val).
     mbind (if code = 0 \<and> val \<noteq> [] then mbind (debconf io (''SET debconf/language '' @ val)) (\<lambda>_. mret ()) else mret ()) (\<lambda>_.
     mbind (adjust_default_priority io) (\<lambda>_.
     mbind (menu_startup io) (\<lambda>_.
     mbind (read_packages io) (\<lambda>_. main_loop io fuel n)))))
       \<lparr>packages = di_packages_alloc (\<lambda>_. zero_package) 0, di_config_package_depth = 0, seen_items = item_table,
        notinstallables = item_table, last_successful_item = - 1, default_priority = 1, local_priority = - 1,
        display_menu = False, history = [], world = w\<rparr>"

end
