(* ===== verification/Main_Menu_Order.thy ===== *)
theory Main_Menu_Order
  imports Main_Menu
begin

text \<open>
  Theorems on \<open>di_config_package\<close>: it always returns, also when packages depend on each other
  in a cycle, and it configures a package only after the packages that it depends on.
\<close>

section \<open>Actions\<close>

text \<open>Actions that return and change nothing but the world.\<close>

definition dialogue :: "('w, 'a) act \<Rightarrow> bool" where
  "dialogue m \<longleftrightarrow> (\<forall>s. m s \<noteq> Hangs) \<and> (\<forall>s x s'. m s = Returns (x, s') \<longrightarrow> (\<exists>w. s' = s\<lparr>world := w\<rparr>))"

named_theorems dialogue_intros \<open>actions that only change the world\<close>

lemma dialogueE:
  assumes "dialogue m" "m s = Returns (x, s')"
  obtains w where "s' = s\<lparr>world := w\<rparr>"
  using assms unfolding dialogue_def by blast

lemma dialogue_mbind [dialogue_intros]:
  assumes "dialogue m" "\<And>x. dialogue (f x)"
  shows "dialogue (mbind m f)"
  unfolding dialogue_def
proof (intro conjI allI impI)
  show "mbind m f s \<noteq> Hangs" for s using assms by (simp add: mbind_Hangs dialogue_def)
  fix s x s' assume "mbind m f s = Returns (x, s')"
  then obtain y t where t: "m s = Returns (y, t)" "f y t = Returns (x, s')" by (auto simp: mbind_Returns)
  obtain w where "t = s\<lparr>world := w\<rparr>" by (rule dialogueE [OF assms(1) t(1)])
  moreover obtain w' where "s' = t\<lparr>world := w'\<rparr>" by (rule dialogueE [OF assms(2) t(2)])
  ultimately show "\<exists>w. s' = s\<lparr>world := w\<rparr>" by auto
qed

lemma dialogue_mread [dialogue_intros]: "(\<And>s. dialogue (f s)) \<Longrightarrow> dialogue (mread f)"
  unfolding dialogue_def mread_def by blast

lemma world_same [simp]: "\<exists>w. s = s\<lparr>world := w\<rparr>"
  by (rule exI [of _ "world s"]) simp

lemma dialogue_basic [dialogue_intros]:
  "dialogue (mret x)" "dialogue (debconf io cmd)" "dialogue (control_file_exec io pkg name)" "dialogue (exec_shell_log io cmd)"
  "dialogue (priority_name i)" "dialogue (strncpy_entry v)" "dialogue (choices_escape str)" "dialogue (menu_store menu used sz)"
  by (simp_all add: dialogue_def debconf_def control_file_exec_def exec_shell_log_def priority_name_def strncpy_entry_def
      choices_escape_def menu_store_def mret_def Let_def split: prod.split) auto

lemma dialogue_split [dialogue_intros]:
  "(\<And>a b. dialogue (f a b)) \<Longrightarrow> dialogue (case p of (a, b) \<Rightarrow> f a b)"
  "(b \<Longrightarrow> dialogue m1) \<Longrightarrow> (\<not> b \<Longrightarrow> dialogue m2) \<Longrightarrow> dialogue (if b then m1 else m2)"
  "dialogue m1 \<Longrightarrow> (\<And>x. dialogue (g x)) \<Longrightarrow> dialogue (case d of None \<Rightarrow> m1 | Some x \<Rightarrow> g x)"
  by (auto split: prod.splits option.splits)

lemma dialogue_menu [dialogue_intros]: "dialogue (menu_append buf m)" "dialogue (menu_prepend buf m)"
  by (auto simp: menu_append_def menu_prepend_def intro!: dialogue_intros)

lemma dialogue_asks [dialogue_intros]:
  "dialogue (menu_entry io p)" "dialogue (set_package_title io p)" "dialogue (isdefault io p)" "dialogue (scan_provider io p v)"
  "dialogue (ask_provider io q menu)"
  by (auto simp: menu_entry_def set_package_title_def isdefault_def scan_provider_def ask_provider_def Let_def intro!: dialogue_intros)

section \<open>What configuring keeps\<close>

text \<open>\<open>g\<close> is the heap at the start. A package is done when its configuration has succeeded.\<close>

definition done_ok :: "int \<Rightarrow> bool" where
  "done_ok r \<longleftrightarrow> r = EXIT_OK \<or> r = EXIT_INSTALLER"

definition known :: "pkg_heap \<Rightarrow> (pkg_ptr \<times> int) list \<Rightarrow> pkg_ptr \<Rightarrow> bool" where
  "known g hist p \<longleftrightarrow> pkg_status (g p) = di_package_status_installed \<or> (\<exists>r. done_ok r \<and> (p, r) \<in> set hist)"

definition needs :: "pkg_heap \<Rightarrow> pkg_ptr \<Rightarrow> pkg_ptr set" where
  "needs g p = {dep_ptr d | d. d \<in> set (pkg_depends (g p)) \<and> dep_type d = di_package_dependency_type_depends \<and>
     pkg_type (g (dep_ptr d)) = di_package_type_real_package}"

definition in_order :: "pkg_heap \<Rightarrow> (pkg_ptr \<times> int) list \<Rightarrow> bool" where
  "in_order g hist \<longleftrightarrow> (\<forall>pre p r post. hist = pre @ (p, r) # post \<longrightarrow> (\<forall>q \<in> needs g p. known g pre q))"

definition same_deps :: "pkg_heap \<Rightarrow> 'w main_menu \<Rightarrow> bool" where
  "same_deps g s \<longleftrightarrow> (\<forall>p. pkg_type (pkg_at s p) = pkg_type (g p) \<and> pkg_depends (pkg_at s p) = pkg_depends (g p))"

definition cfg_inv :: "pkg_heap \<Rightarrow> 'w main_menu \<Rightarrow> bool" where
  "cfg_inv g s \<longleftrightarrow> same_deps g s \<and> in_order g (history s) \<and>
     (\<forall>p. pkg_type (g p) = di_package_type_real_package \<longrightarrow> pkg_status (pkg_at s p) = di_package_status_installed \<longrightarrow>
        known g (history s) p)"

definition later :: "'w main_menu \<Rightarrow> 'w main_menu \<Rightarrow> bool" where
  "later s s' \<longleftrightarrow> set (history s) \<subseteq> set (history s') \<and> di_config_package_depth s \<le> di_config_package_depth s'"

lemma later_refl [simp]: "later s s"
  by (simp add: later_def)

lemma later_trans [trans]: "later a b \<Longrightarrow> later b c \<Longrightarrow> later a c"
  by (auto simp: later_def)

lemma known_later: "known g (history s) p \<Longrightarrow> later s s' \<Longrightarrow> known g (history s') p"
  by (auto simp: known_def later_def)

lemma dialogue_keeps:
  assumes "dialogue m" "m s = Returns (x, s')"
  shows "cfg_inv g s' = cfg_inv g s" "later s s'" "packages s' = packages s" "pkg_at s' p = pkg_at s p"
    "di_config_package_depth s' = di_config_package_depth s" "history s' = history s"
proof -
  obtain w where "s' = s\<lparr>world := w\<rparr>" by (rule dialogueE [OF assms])
  then show "cfg_inv g s' = cfg_inv g s" "later s s'" "packages s' = packages s" "pkg_at s' p = pkg_at s p"
    "di_config_package_depth s' = di_config_package_depth s" "history s' = history s"
    by (simp_all add: cfg_inv_def same_deps_def later_def pkg_at_def)
qed

lemma set_status_simps [simp]:
  "pkg_type (pkg_at (set_status st p s) q) = pkg_type (pkg_at s q)"
  "pkg_depends (pkg_at (set_status st p s) q) = pkg_depends (pkg_at s q)"
  "pkg_status (pkg_at (set_status st p s) q) = (if q = p then st else pkg_status (pkg_at s q))"
  "history (set_status st p s) = history s" "di_config_package_depth (set_status st p s) = di_config_package_depth s"
  "later (set_status st p s) t = later s t" "later t (set_status st p s) = later t s"
  by (auto simp: set_status_def pkg_at_def later_def)

lemma set_status_keeps:
  assumes "cfg_inv g s" "st = di_package_status_installed \<Longrightarrow> pkg_type (g p) = di_package_type_real_package \<Longrightarrow> known g (history s) p"
  shows "cfg_inv g (set_status st p s)"
  using assms by (simp add: cfg_inv_def same_deps_def)

lemma set_depth_keeps [simp]: "cfg_inv g (s\<lparr>di_config_package_depth := d\<rparr>) = cfg_inv g s"
  by (simp add: cfg_inv_def same_deps_def pkg_at_def)

lemma in_order_snoc: "in_order g hist \<Longrightarrow> (\<And>q. q \<in> needs g p \<Longrightarrow> known g hist q) \<Longrightarrow> in_order g (hist @ [(p, r)])"
  unfolding in_order_def
proof (intro allI impI ballI)
  fix pre p' r' post q
  assume h: "\<forall>pre p r post. hist = pre @ (p, r) # post \<longrightarrow> (\<forall>q \<in> needs g p. known g pre q)" "\<And>q. q \<in> needs g p \<Longrightarrow> known g hist q"
    and e: "hist @ [(p, r)] = pre @ (p', r') # post" "q \<in> needs g p'"
  show "known g pre q"
    using e h by (cases post rule: rev_cases) auto
qed

lemma config_deps_early: "config_deps rec ds s = Returns (Some e, s') \<Longrightarrow> e = - 1 \<or> e = EXIT_BACKUP"
proof (induction ds arbitrary: s)
  case (Cons d ds)
  show ?case
  proof (rule ccontr)
    assume "\<not> (e = - 1 \<or> e = EXIT_BACKUP)"
    with Cons show False by (auto simp: Let_def run_bind_Returns split: if_splits)
  qed
qed simp

text \<open>The contract of the recursive call that the loops rely on.\<close>

locale config_step =
  fixes g :: pkg_heap and rec :: "pkg_ptr \<Rightarrow> ('w, int) act"
  assumes rec_keeps: "cfg_inv g s \<Longrightarrow> rec p s = Returns (r, s') \<Longrightarrow> cfg_inv g s' \<and> later s s'"
    and rec_known: "cfg_inv g s \<Longrightarrow> rec p s = Returns (r, s') \<Longrightarrow> pkg_type (g p) = di_package_type_real_package \<Longrightarrow>
      r \<noteq> - 1 \<Longrightarrow> r \<noteq> EXIT_BACKUP \<Longrightarrow> known g (history s') p"
begin

lemma config_deps_keeps:
  assumes "cfg_inv g s" "config_deps rec ds s = Returns (r, s')"
  shows "cfg_inv g s' \<and> later s s' \<and> (r = None \<longrightarrow>
    (\<forall>d \<in> set ds. dep_type d = di_package_dependency_type_depends \<longrightarrow> pkg_type (g (dep_ptr d)) = di_package_type_real_package \<longrightarrow>
       known g (history s') (dep_ptr d)))"
  using assms
proof (induction ds arbitrary: s)
  case (Cons d ds)
  let ?s1 = "s\<lparr>di_config_package_depth := di_config_package_depth s + 1\<rparr>"
  have l1: "later s ?s1" by (simp add: later_def)
  consider (skip) "pkg_status (pkg_at s (dep_ptr d)) = di_package_status_installed \<or> dep_type d \<noteq> di_package_dependency_type_depends"
      "config_deps rec ds s = Returns (r, s')"
    | (deep) "r = Some (- 1)" "s' = ?s1"
    | (fails) x t where "rec (dep_ptr d) ?s1 = Returns (x, t)" "r = Some x" "s' = t\<lparr>di_config_package_depth := di_config_package_depth t - 1\<rparr>"
    | (call) x t where "rec (dep_ptr d) ?s1 = Returns (x, t)" "x \<noteq> - 1" "x \<noteq> EXIT_BACKUP"
      "config_deps rec ds (t\<lparr>di_config_package_depth := di_config_package_depth t - 1\<rparr>) = Returns (r, s')"
    using Cons.prems(2) by (auto simp: Let_def run_bind_Returns split: if_splits)
  then show ?case
  proof cases
    case skip
    then have "dep_type d = di_package_dependency_type_depends \<Longrightarrow> pkg_type (g (dep_ptr d)) = di_package_type_real_package \<Longrightarrow>
      known g (history s) (dep_ptr d)" using Cons.prems(1) by (auto simp: cfg_inv_def)
    then show ?thesis using Cons.IH [OF Cons.prems(1) skip(2)] known_later by auto
  next
    case deep
    then show ?thesis using Cons.prems(1) l1 by simp
  next
    case (fails x t)
    from rec_keeps [OF _ fails(1)] Cons.prems(1) have "cfg_inv g t" "later ?s1 t" by auto
    then show ?thesis using fails by (simp add: later_def)
  next
    case (call x t)
    let ?t1 = "t\<lparr>di_config_package_depth := di_config_package_depth t - 1\<rparr>"
    from rec_keeps [OF _ call(1)] Cons.prems(1) have t: "cfg_inv g t" "later ?s1 t" by auto
    then have "cfg_inv g ?t1" "later s ?t1" by (simp_all add: later_def)
    moreover from Cons.IH [OF this(1) call(4)] have rest: "cfg_inv g s'" "later ?t1 s'" "r = None \<longrightarrow>
      (\<forall>d \<in> set ds. dep_type d = di_package_dependency_type_depends \<longrightarrow> pkg_type (g (dep_ptr d)) = di_package_type_real_package \<longrightarrow>
         known g (history s') (dep_ptr d))" by auto
    moreover have "known g (history s') (dep_ptr d)" if "pkg_type (g (dep_ptr d)) = di_package_type_real_package"
    proof -
      have "known g (history t) (dep_ptr d)" using rec_known [OF _ call(1) that call(2,3)] Cons.prems(1) by simp
      with rest(2) show ?thesis by (auto simp: known_def later_def)
    qed
    ultimately show ?thesis using later_trans by auto
  qed
qed simp

lemma virtual_loop_keeps:
  assumes "cfg_inv g s" "virtual_loop io rec ds v s = Returns (r, s')"
  shows "cfg_inv g s' \<and> later s s'"
  using assms
proof (induction ds arbitrary: s v)
  case (Cons d ds)
  consider (skip) "virtual_loop io rec ds v s = Returns (r, s')" | (stop) "s' = s"
    | (fails) x where "rec (dep_ptr d) s = Returns (x, s')"
    | (call) x t where "rec (dep_ptr d) s = Returns (x, t)" "virtual_loop io rec ds v t = Returns (r, s')"
    | (scan) x t where "scan_provider io (dep_ptr d) v s = Returns (x, t)" "virtual_loop io rec ds x t = Returns (r, s')"
    using Cons.prems(2) by (auto simp: run_bind_Returns split: if_splits)
  then show ?case
  proof cases
    case (call x t)
    from rec_keeps [OF Cons.prems(1) call(1)] Cons.IH [OF _ call(2)] show ?thesis using later_trans by blast
  next
    case (scan x t)
    have "cfg_inv g t" "later s t" using dialogue_keeps [OF dialogue_asks(4) scan(1)] Cons.prems(1) by auto
    with Cons.IH [OF _ scan(2)] show ?thesis using later_trans by blast
  next
    case (fails x)
    with rec_keeps Cons.prems(1) show ?thesis by blast
  qed (use Cons in auto)
qed simp

lemma choice_loop_keeps:
  assumes "cfg_inv g s" "choice_loop io rec choice ds s = Returns (r, s')"
  shows "cfg_inv g s' \<and> later s s'"
  using assms
proof (induction ds arbitrary: s)
  case (Cons d ds)
  obtain buf t where e: "menu_entry io (dep_ptr d) s = Returns (buf, t)"
    using Cons.prems(2) by (auto simp: run_bind_Returns)
  have t: "cfg_inv g t" "later s t" using dialogue_keeps [OF dialogue_asks(1) e] Cons.prems(1) by auto
  consider (skip) "choice_loop io rec choice ds t = Returns (r, s')" | (last) x where "rec (dep_ptr d) t = Returns (x, s')"
    | (call) x u where "rec (dep_ptr d) t = Returns (x, u)" "choice_loop io rec choice ds u = Returns (r, s')"
    using Cons.prems(2) e by (auto simp: run_bind_Returns split: if_splits)
  then have "cfg_inv g s' \<and> later t s'"
  proof cases
    case (call x u)
    from rec_keeps [OF t(1) call(1)] Cons.IH [OF _ call(2)] show ?thesis using later_trans by blast
  next
    case skip
    with Cons.IH t show ?thesis by blast
  next
    case (last x)
    with rec_keeps t show ?thesis by blast
  qed
  with t show ?case using later_trans by blast
qed simp

lemma satisfy_virtual_keeps:
  assumes "pkg_type (g p) \<noteq> di_package_type_real_package"
  shows "keeps (\<lambda>s. cfg_inv g s \<and> later s0 s) (satisfy_virtual io rec p)"
proof -
  let ?I = "\<lambda>s. cfg_inv g s \<and> later s0 s"
  have ask: "keeps ?I (ask_provider io q menu)" for q menu
    using dialogue_keeps(1,2) [OF dialogue_asks(5)] later_trans unfolding keeps_def by blast
  have loops: "keeps ?I (virtual_loop io rec ds v)" "keeps ?I (choice_loop io rec c ds)" for ds v c
    using virtual_loop_keeps choice_loop_keeps later_trans unfolding keeps_def by blast+
  have "keeps ?I (virtual_done p)"
    using set_status_keeps [of g _ di_package_status_installed p] assms by (auto simp: keeps_def virtual_done_def)
  then show ?thesis unfolding satisfy_virtual_def choose_provider_def
    by (auto intro!: keeps_intros loops ask split: sum.splits prod.splits)
qed

lemma config_deps_live:
  assumes "\<And>q t. cfg_inv g t \<Longrightarrow> m < di_config_package_depth t \<Longrightarrow> di_config_package_depth t \<le> 1000 \<Longrightarrow> rec q t \<noteq> Hangs"
    "cfg_inv g s" "m \<le> di_config_package_depth s"
  shows "config_deps rec ds s \<noteq> Hangs"
  using assms(2,3)
proof (induction ds arbitrary: s)
  case (Cons d ds)
  let ?s1 = "s\<lparr>di_config_package_depth := di_config_package_depth s + 1\<rparr>"
  have "config_deps rec ds (t\<lparr>di_config_package_depth := di_config_package_depth t - 1\<rparr>) \<noteq> Hangs"
    if "rec (dep_ptr d) ?s1 = Returns (x, t)" for x t
  proof -
    have "cfg_inv g t" "later ?s1 t" using rec_keeps [OF _ that] Cons.prems(1) by auto
    then show ?thesis using Cons.prems(2) by (intro Cons.IH) (auto simp: later_def)
  qed
  moreover have "rec (dep_ptr d) ?s1 \<noteq> Hangs" if "di_config_package_depth s < 1000"
    using assms(1) [of ?s1] Cons.prems that by simp
  ultimately show ?case using Cons by (auto simp: Let_def run_bind_Hangs)
qed simp

lemma virtual_loop_live:
  assumes "\<And>q t. cfg_inv g t \<Longrightarrow> m \<le> di_config_package_depth t \<Longrightarrow> q \<in> dep_ptr ` set ds \<Longrightarrow> rec q t \<noteq> Hangs"
    "cfg_inv g s" "m \<le> di_config_package_depth s"
  shows "virtual_loop io rec ds v s \<noteq> Hangs"
  using assms
proof (induction ds arbitrary: s v)
  case (Cons d ds)
  have IH: "virtual_loop io rec ds v t \<noteq> Hangs" if "cfg_inv g t" "m \<le> di_config_package_depth t" for v t
    using Cons.prems(1) that by (intro Cons.IH) auto
  have "virtual_loop io rec ds v t \<noteq> Hangs" if "rec (dep_ptr d) s = Returns (x, t)" for x t
    using rec_keeps [OF Cons.prems(2) that] Cons.prems(3) by (intro IH) (auto simp: later_def)
  moreover have "virtual_loop io rec ds x t \<noteq> Hangs" if "scan_provider io (dep_ptr d) v s = Returns (x, t)" for x t
    using dialogue_keeps [OF dialogue_asks(4) that] Cons.prems(2,3) by (intro IH) auto
  moreover have "scan_provider io (dep_ptr d) v s \<noteq> Hangs" using dialogue_asks(4) by (auto simp: dialogue_def)
  moreover have "rec (dep_ptr d) s \<noteq> Hangs" using Cons.prems by simp
  ultimately show ?case using IH Cons.prems(2,3) by (auto simp: run_bind_Hangs)
qed simp

lemma choice_loop_live:
  assumes "\<And>q t. cfg_inv g t \<Longrightarrow> m \<le> di_config_package_depth t \<Longrightarrow> q \<in> dep_ptr ` set ds \<Longrightarrow> rec q t \<noteq> Hangs"
    "cfg_inv g s" "m \<le> di_config_package_depth s"
  shows "choice_loop io rec choice ds s \<noteq> Hangs"
  using assms
proof (induction ds arbitrary: s)
  case (Cons d ds)
  have IH: "choice_loop io rec choice ds t \<noteq> Hangs" if "cfg_inv g t" "m \<le> di_config_package_depth t" for t
    using Cons.prems(1) that by (intro Cons.IH) auto
  have entry: "cfg_inv g t" "m \<le> di_config_package_depth t" if "menu_entry io (dep_ptr d) s = Returns (x, t)" for x t
    using dialogue_keeps [OF dialogue_asks(1) that] Cons.prems(2,3) by auto
  have "choice_loop io rec choice ds u \<noteq> Hangs"
    if "menu_entry io (dep_ptr d) s = Returns (x, t)" "rec (dep_ptr d) t = Returns (y, u)" for x t y u
    using rec_keeps [OF entry(1) [OF that(1)] that(2)] entry(2) [OF that(1)] by (intro IH) (auto simp: later_def)
  moreover have "menu_entry io (dep_ptr d) s \<noteq> Hangs" using dialogue_asks(1) by (auto simp: dialogue_def)
  moreover have "rec (dep_ptr d) t \<noteq> Hangs" if "menu_entry io (dep_ptr d) s = Returns (x, t)" for x t
    using Cons.prems(1) entry [OF that] by simp
  ultimately show ?case using IH entry by (auto simp: run_bind_Hangs)
qed simp

lemma satisfy_virtual_live:
  assumes "\<And>q t. cfg_inv g t \<Longrightarrow> m \<le> di_config_package_depth t \<Longrightarrow> q \<in> dep_ptr ` set (pkg_depends (g p)) \<Longrightarrow> rec q t \<noteq> Hangs"
    "cfg_inv g s" "m \<le> di_config_package_depth s"
  shows "satisfy_virtual io rec p s \<noteq> Hangs"
proof -
  let ?ds = "pkg_depends (g p)"
  have ds: "pkg_depends (pkg_at s p) = ?ds" using assms(2) by (simp add: cfg_inv_def same_deps_def)
  have "choose_provider io rec p ?ds v t \<noteq> Hangs" if t: "cfg_inv g t" "m \<le> di_config_package_depth t" for v t
  proof -
    have d: "dialogue (if is_menu_item v then ask_provider io (defpkg v) menu else mret None)" for menu
      by (auto intro!: dialogue_intros)
    have "choice_loop io rec c ?ds u \<noteq> Hangs"
      if "(if is_menu_item v then ask_provider io (defpkg v) menu else mret None) t = Returns (c, u)" for menu c u
      using dialogue_keeps [OF d that] t by (intro choice_loop_live [OF assms(1)]) auto
    moreover have "(if is_menu_item v then ask_provider io (defpkg v) menu else mret None) t \<noteq> Hangs" for menu
      using d by (auto simp: dialogue_def)
    ultimately show ?thesis
      by (auto simp: choose_provider_def virtual_done_def mbind_Hangs split: prod.splits option.splits)
  qed
  moreover have "cfg_inv g t" "m \<le> di_config_package_depth t" if "virtual_loop io rec ?ds v s = Returns (x, t)" for v x t
    using virtual_loop_keeps [OF assms(2) that] assms(3) by (auto simp: later_def)
  moreover have "virtual_loop io rec ?ds v s \<noteq> Hangs" for v by (rule virtual_loop_live [OF assms])
  ultimately show ?thesis
    by (auto simp: satisfy_virtual_def mread_def ds mbind_Hangs split: sum.splits)
qed

end

lemma config_result_keeps:
  assumes "cfg_inv g s" "pkg_type (g p) = di_package_type_real_package" "\<And>q. q \<in> needs g p \<Longrightarrow> known g (history s) q"
    "config_result p r s = Returns (x, s')"
  shows "cfg_inv g s'" "later s s'" "x \<noteq> - 1 \<Longrightarrow> x \<noteq> EXIT_BACKUP \<Longrightarrow> known g (history s') p"
proof -
  let ?s = "s\<lparr>history := history s @ [(p, r)]\<rparr>"
  have k: "known g (history ?s) q" if "known g (history s) q" for q using that by (auto simp: known_def)
  have i: "cfg_inv g ?s"
    using assms(1,3) in_order_snoc k by (auto simp: cfg_inv_def same_deps_def pkg_at_def)
  have l: "later s ?s" by (auto simp: later_def)
  have new: "known g (history ?s) p" if "done_ok r" using that by (auto simp: known_def)
  show "cfg_inv g s'" "later s s'" "x \<noteq> - 1 \<Longrightarrow> x \<noteq> EXIT_BACKUP \<Longrightarrow> known g (history s') p"
    using assms(4) i l new by (auto simp: config_result_def Let_def done_ok_def split: if_splits intro!: set_status_keeps)
qed

lemma config_real_step:
  assumes "config_step g (di_config_package io n)" "cfg_inv g s" "pkg_type (g p) = di_package_type_real_package"
    "di_config_package io (Suc n) p s = Returns (r, s')"
  shows "cfg_inv g s' \<and> later s s' \<and> (r \<noteq> - 1 \<longrightarrow> r \<noteq> EXIT_BACKUP \<longrightarrow> known g (history s') p)"
proof -
  have st: "pkg_type (pkg_at s p) = di_package_type_real_package" "pkg_depends (pkg_at s p) = pkg_depends (g p)"
    using assms(2,3) by (auto simp: cfg_inv_def same_deps_def)
  obtain x t where t: "config_deps (di_config_package io n) (pkg_depends (g p)) s = Returns (x, t)"
    using assms(4) st by (auto simp: mbind_Returns)
  note D = config_step.config_deps_keeps [OF assms(1,2) t]
  show ?thesis
  proof (cases x)
    case (Some e)
    then have "s' = t" "r = e" using assms(4) st t by (auto simp: mbind_Returns)
    moreover have "e = - 1 \<or> e = EXIT_BACKUP" using config_deps_early t Some by blast
    ultimately show ?thesis using D by auto
  next
    case None
    then obtain u v status where u: "set_package_title io p t = Returns ((), u)"
      "exec_shell_log io (configure_command (pkg_package (pkg_at s p))) u = Returns (status, v)"
      and res: "config_result p (di_exec_mangle_status status) v = Returns (r, s')"
      using assms(4) st t by (auto simp: mbind_Returns)
    note K = dialogue_keeps [OF dialogue_asks(2) u(1)] dialogue_keeps [OF dialogue_basic(4) u(2)]
    have v: "cfg_inv g v" "later s v" "history v = history t" using D K later_trans by (auto simp: later_def)
    have "known g (history v) q" if "q \<in> needs g p" for q
      using that D None v(3) by (auto simp: needs_def)
    from config_result_keeps [OF v(1) assms(3) this res] v(2) show ?thesis using later_trans by blast
  qed
qed

lemma config_package_step: "config_step g (di_config_package io n)"
proof (induction n)
  case 0
  show ?case by unfold_locales auto
next
  case (Suc n)
  have "cfg_inv g s' \<and> later s s' \<and> (pkg_type (g p) = di_package_type_real_package \<longrightarrow> r \<noteq> - 1 \<longrightarrow> r \<noteq> EXIT_BACKUP \<longrightarrow>
      known g (history s') p)"
    if "cfg_inv g s" "di_config_package io (Suc n) p s = Returns (r, s')" for s p r s'
  proof -
    have ty: "pkg_type (pkg_at s p) = pkg_type (g p)" using that(1) by (simp add: cfg_inv_def same_deps_def)
    show ?thesis
    proof (cases "pkg_type (g p)")
      case di_package_type_real_package
      from config_real_step [OF Suc that(1) this that(2)] show ?thesis by blast
    next
      case di_package_type_virtual_package
      then have "satisfy_virtual io (di_config_package io n) p s = Returns (r, s')" using that(2) ty by simp
      from keepsD [OF config_step.satisfy_virtual_keeps [OF Suc, of p s io] _ this] di_package_type_virtual_package that(1)
      show ?thesis by simp
    next
      case di_package_type_non_existent
      then have "s' = s" using that(2) ty by simp
      with that(1) di_package_type_non_existent show ?thesis by simp
    qed
  qed
  note step = this
  show ?case
    by unfold_locales (rule conjI, (use step in blast)+)
qed

interpretation configuring: config_step g "di_config_package io n" for g io n
  by (rule config_package_step)

section \<open>Properties\<close>

definition no_nested_virtual :: "pkg_heap \<Rightarrow> bool" where
  "no_nested_virtual g \<longleftrightarrow> (\<forall>p. \<forall>d \<in> set (pkg_depends (g p)). pkg_type (g p) = di_package_type_virtual_package \<longrightarrow>
     pkg_type (g (dep_ptr d)) \<noteq> di_package_type_virtual_package)"

definition config_fuel :: "pkg_heap \<Rightarrow> pkg_ptr \<Rightarrow> int \<Rightarrow> nat" where
  "config_fuel g p depth = 2 * nat (1001 - depth) + (if pkg_type (g p) = di_package_type_virtual_package then 2 else 1)"

lemma config_result_live [simp]: "config_result p r s \<noteq> Hangs"
  by (simp add: config_result_def Let_def)

lemma config_package_live:
  assumes "no_nested_virtual g"
  shows "cfg_inv g s \<Longrightarrow> config_fuel g p (di_config_package_depth s) \<le> n \<Longrightarrow> di_config_package io n p s \<noteq> Hangs"
proof (induction n arbitrary: p s)
  case 0
  then show ?case by (simp add: config_fuel_def split: if_splits)
next
  case (Suc n)
  have st: "pkg_type (pkg_at s p) = pkg_type (g p)" "pkg_depends (pkg_at s p) = pkg_depends (g p)"
    using Suc.prems(1) by (auto simp: cfg_inv_def same_deps_def)
  show ?case
  proof (cases "pkg_type (g p)")
    case di_package_type_real_package
    have "di_config_package io n q t \<noteq> Hangs"
      if "cfg_inv g t" "di_config_package_depth s < di_config_package_depth t" "di_config_package_depth t \<le> 1000" for q t
      using that Suc.prems(2) di_package_type_real_package by (intro Suc.IH) (auto simp: config_fuel_def)
    then have "config_deps (di_config_package io n) (pkg_depends (g p)) s \<noteq> Hangs"
      by (intro configuring.config_deps_live [OF _ Suc.prems(1), of "di_config_package_depth s"]) auto
    moreover have "dialogue (set_package_title io p)" "dialogue (exec_shell_log io c)" for c by (intro dialogue_intros)+
    ultimately show ?thesis
      using di_package_type_real_package st by (auto simp: mbind_Hangs dialogue_def split: option.splits)
  next
    case di_package_type_virtual_package
    have "di_config_package io n q t \<noteq> Hangs"
      if "cfg_inv g t" "di_config_package_depth s \<le> di_config_package_depth t" "q \<in> dep_ptr ` set (pkg_depends (g p))" for q t
      using that Suc.prems(2) di_package_type_virtual_package assms
      by (intro Suc.IH) (auto simp: config_fuel_def no_nested_virtual_def)
    then have "satisfy_virtual io (di_config_package io n) p s \<noteq> Hangs"
      by (intro configuring.satisfy_virtual_live [OF _ Suc.prems(1), of "di_config_package_depth s"]) auto
    then show ?thesis using di_package_type_virtual_package st by simp
  qed (simp add: st)
qed

lemma cfg_inv_start: "history s = [] \<Longrightarrow> cfg_inv (heap (packages s)) s"
  by (simp add: cfg_inv_def same_deps_def in_order_def known_def pkg_at_def)

text \<open>
  Property C3: whatever the scripts and debconf answer, a package is configured only after
  each package it depends on (virtual ones apart) was installed already or has been
  configured with success.
\<close>

theorem config_dependencies_first:
  assumes "history s = []" "do_menu_item io fuel p s = Returns (r, s')" "history s' = pre @ (q, x) # post"
    and "d \<in> set (pkg_depends (pkg_at s q))" "dep_type d = di_package_dependency_type_depends"
      "pkg_type (pkg_at s (dep_ptr d)) = di_package_type_real_package"
  shows "pkg_status (pkg_at s (dep_ptr d)) = di_package_status_installed \<or>
    (\<exists>y \<in> {EXIT_OK, EXIT_INSTALLER}. (dep_ptr d, y) \<in> set pre)"
proof -
  have "in_order (heap (packages s)) (history s')"
    using configuring.rec_keeps [OF cfg_inv_start [OF assms(1)]] assms(2) by (auto simp: do_menu_item_def cfg_inv_def)
  moreover have "dep_ptr d \<in> needs (heap (packages s)) q" using assms(4-6) by (auto simp: needs_def pkg_at_def)
  ultimately have "known (heap (packages s)) pre (dep_ptr d)" using assms(3) unfolding in_order_def by blast
  then show ?thesis by (auto simp: known_def done_ok_def pkg_at_def)
qed

text \<open>A world in which every command succeeds, and three packages that depend on each other in a row.\<close>

definition example_menu_io :: "unit menu_io" where
  "example_menu_io = \<lparr>mm_debconf = (\<lambda>c w. (0, [], w)), mm_script = (\<lambda>p n w. (0, w)), mm_shell = (\<lambda>c w. (0, w)), mm_status_file = (\<lambda>w. []), mm_main_menu_d = None\<rparr>"

definition example_menu :: "unit main_menu" where
  "example_menu = \<lparr>packages = chain_packages, di_config_package_depth = 0, seen_items = item_table, notinstallables = item_table,
     last_successful_item = - 1, default_priority = 1, local_priority = - 1, display_menu = False, history = [], world = ()\<rparr>"

lemma example_config:
  "\<exists>r s'. do_menu_item example_menu_io 4 0 example_menu = Returns (r, s') \<and> history s' = [(2, 0), (1, 0), (0, 0)]"
proof -
  have "(case do_menu_item example_menu_io 4 0 example_menu of Returns (r, s') \<Rightarrow> history s' | _ \<Rightarrow> []) = [(2, 0), (1, 0), (0, 0)]"
    by code_simp
  then show ?thesis by (auto split: run.splits)
qed

theorem config_dependencies_first_witness:
  "\<exists>r s'. do_menu_item example_menu_io 4 0 example_menu = Returns (r, s') \<and>
     (pkg_status (pkg_at example_menu 1) = di_package_status_installed \<or> (\<exists>y \<in> {EXIT_OK, EXIT_INSTALLER}. (1, y) \<in> set [(2 :: nat, 0), (1, 0)]))"
proof -
  obtain r s' where r: "do_menu_item example_menu_io 4 0 example_menu = Returns (r, s')" "history s' = [(2, 0), (1, 0)] @ (0, 0) # []"
    using example_config by auto
  have "pkg_depends (pkg_at example_menu 0) = [\<lparr>dep_type = di_package_dependency_type_depends, dep_ptr = 1\<rparr>]"
    "pkg_type (pkg_at example_menu 1) = di_package_type_real_package" "history example_menu = []" by code_simp+
  with config_dependencies_first [OF _ r] r(1) show ?thesis by auto
qed

text \<open>
  Property C5: configuring a menu item returns for every dependency graph, cycles included;
  the recursion is at most 1000 levels of real packages deep. The exception are virtual packages
  that are provided by virtual ones, which a status file does not have.
\<close>

theorem config_always_returns:
  assumes "history s = []" "no_nested_virtual (heap (packages s))" "2 * nat (1001 - di_config_package_depth s) + 2 \<le> fuel"
  shows "do_menu_item io fuel p s \<noteq> Hangs"
proof -
  have "config_fuel (heap (packages s)) p (di_config_package_depth s) \<le> fuel" using assms(3) by (simp add: config_fuel_def)
  from config_package_live [OF assms(2) cfg_inv_start [OF assms(1)] this] show ?thesis by (simp add: do_menu_item_def)
qed

text \<open>Two packages that depend on each other.\<close>

definition cycle_menu :: "int \<Rightarrow> unit main_menu" where
  "cycle_menu depth = example_menu\<lparr>packages := di_packages_alloc
     ((\<lambda>_. zero_package)(0 := real_package ''a'' [1], 1 := real_package ''b'' [0])) 2, di_config_package_depth := depth\<rparr>"

theorem config_always_returns_witness: "do_menu_item example_menu_io 2004 0 (cycle_menu 0) \<noteq> Hangs"
  by (rule config_always_returns)
    (auto simp: cycle_menu_def example_menu_def no_nested_virtual_def di_packages_alloc_def real_package_def zero_package_def)

text \<open>
  When a cycle is found the counter of the depth is not restored: it stays one too high for
  the rest of the session. Once it has reached 1000 no package with a dependency that is not
  installed can be configured any more.
\<close>

lemma depth_not_restored:
  "\<exists>s'. do_menu_item example_menu_io 4 0 (cycle_menu 999) = Returns (- 1, s') \<and> di_config_package_depth s' = 1000"
proof -
  have "(case do_menu_item example_menu_io 4 0 (cycle_menu 999) of Returns (r, s') \<Rightarrow> (r, di_config_package_depth s') | _ \<Rightarrow> (0, 0)) = (- 1, 1000)"
    by code_simp
  then show ?thesis by (auto split: run.splits)
qed

lemma depth_exhausted:
  assumes "1000 \<le> di_config_package_depth s" "pkg_type (pkg_at s p) = di_package_type_real_package" "pkg_depends (pkg_at s p) = d # ds"
    "dep_type d = di_package_dependency_type_depends" "pkg_status (pkg_at s (dep_ptr d)) \<noteq> di_package_status_installed"
  shows "\<exists>s'. do_menu_item io (Suc n) p s = Returns (- 1, s')"
  using assms by (simp add: do_menu_item_def mbind_def mret_def Let_def)

end
