(* ===== verification/Main_Menu_Run.thy ===== *)
theory Main_Menu_Run
  imports Main_Menu_Order
begin

text \<open>
  Theorems on the menu of \<open>show_main_menu\<close> and on the main loop: which item is the default, what
  the user is shown, that the choice leads back to the item, and that the priorities stay in
  range.
\<close>

section \<open>Scripts and texts that do not depend on the time they are asked for\<close>

text \<open>
  \<open>entry\<close> gives the title of a package, \<open>result\<close> the exit status of one of its scripts.
\<close>

definition metaget_title :: "string \<Rightarrow> string" where
  "metaget_title n = ''METAGET '' @ take (menu_entry_maxlen - 1) (title_question n) @ '' Description''"

definition answers :: "'w menu_io \<Rightarrow> (string \<Rightarrow> string) \<Rightarrow> (string \<Rightarrow> string \<Rightarrow> int) \<Rightarrow> bool" where
  "answers io entry result \<longleftrightarrow>
     (\<forall>n w. fst (mm_debconf io (metaget_title n) w) = 0 \<and> fst (snd (mm_debconf io (metaget_title n) w)) = entry n) \<and>
     (\<forall>n f w. fst (mm_script io n f w) = result n f)"

text \<open>A text that fits into the buffers.\<close>

definition fits :: "(string \<Rightarrow> string) \<Rightarrow> bool" where
  "fits entry \<longleftrightarrow> (\<forall>n. entry n \<noteq> [] \<and> length (entry n) < menu_entry_maxlen)"

definition same_items :: "'w main_menu \<Rightarrow> 'w main_menu \<Rightarrow> bool" where
  "same_items s s' \<longleftrightarrow> (\<exists>w t. s' = s\<lparr>world := w, notinstallables := t\<rparr>)"

lemma same_items_trans: "same_items a b \<Longrightarrow> same_items b c \<Longrightarrow> same_items a c"
  unfolding same_items_def by (elim exE) (simp, blast)

lemma same_items_refl [simp]: "same_items s s"
  unfolding same_items_def by (rule exI [of _ "world s"], rule exI [of _ "notinstallables s"]) simp

lemma same_itemsD:
  assumes "same_items s s'"
  shows "packages s' = packages s" "pkg_at s' p = pkg_at s p" "last_successful_item s' = last_successful_item s"
    "seen_items s' = seen_items s" "default_priority s' = default_priority s" "local_priority s' = local_priority s"
    "display_menu s' = display_menu s"
  using assms by (auto simp: same_items_def pkg_at_def)

lemma dialogue_same_items: "dialogue m \<Longrightarrow> m s = Returns (x, s') \<Longrightarrow> same_items s s'"
proof -
  assume "dialogue m" "m s = Returns (x, s')"
  then obtain w where "s' = s\<lparr>world := w\<rparr>" by (rule dialogueE)
  then have "s' = s\<lparr>world := w, notinstallables := notinstallables s\<rparr>" by simp
  then show ?thesis unfolding same_items_def by blast
qed

lemma menu_entry_answer:
  assumes "answers io entry result" "fits entry"
  shows "\<exists>s'. menu_entry io p s = Returns (entry (pkg_package (pkg_at s p)), s') \<and> same_items s s'"
proof -
  obtain code val w where a: "mm_debconf io (metaget_title (pkg_package (pkg_at s p))) (world s) = (code, val, w)"
    by (cases "mm_debconf io (metaget_title (pkg_package (pkg_at s p))) (world s)") auto
  then have "code = 0" "val = entry (pkg_package (pkg_at s p))" using assms(1) unfolding answers_def by (metis fst_conv snd_conv)+
  then have e: "menu_entry io p s = Returns (entry (pkg_package (pkg_at s p)), s\<lparr>world := w\<rparr>)"
    using a assms(2) by (simp add: menu_entry_def mread_def mbind_def debconf_def metaget_title_def strncpy_entry_def fits_def)
  then show ?thesis using dialogue_same_items [OF dialogue_asks(1) e] by blast
qed

definition installable :: "(string \<Rightarrow> string \<Rightarrow> int) \<Rightarrow> di_system_package \<Rightarrow> bool" where
  "installable result x \<longleftrightarrow> installer_menu_item x \<noteq> 99999 \<and> result (pkg_package x) ''isinstallable'' \<le> 0"

lemma script_answer:
  assumes "answers io entry result"
  shows "\<exists>w. control_file_exec io n f s = Returns (result n f, s\<lparr>world := w\<rparr>)"
proof (cases "mm_script io n f (world s)")
  case (Pair r w)
  then have "r = result n f" using assms unfolding answers_def by (metis fst_conv)
  with Pair show ?thesis by (simp add: control_file_exec_def) blast
qed

lemma isinstallable_answer:
  assumes "answers io entry result"
  shows "\<exists>s'. isinstallable io p s = Returns (installable result (pkg_at s p), s') \<and> same_items s s'"
proof -
  obtain w where w: "control_file_exec io (pkg_package (pkg_at s p)) ''isinstallable'' s =
      Returns (result (pkg_package (pkg_at s p)) ''isinstallable'', s\<lparr>world := w\<rparr>)"
    using script_answer [OF assms] by blast
  have "same_items s (s\<lparr>world := w, notinstallables := t\<rparr>)" for t by (auto simp: same_items_def)
  moreover have "same_items s (s\<lparr>world := w\<rparr>)" using dialogue_same_items [OF dialogue_basic(3) w] .
  ultimately show ?thesis using w by (auto simp: isinstallable_def installable_def mbind_def Let_def)
qed

lemma isdefault_answer:
  assumes "answers io entry result"
  shows "\<exists>s'. isdefault io p s = Returns (result (pkg_package (pkg_at s p)) ''menutest'' \<le> 0 \<or>
      pkg_status (pkg_at s p) = di_package_status_unpacked \<or> pkg_status (pkg_at s p) = di_package_status_half_configured, s') \<and> same_items s s'"
proof -
  obtain w where w: "control_file_exec io (pkg_package (pkg_at s p)) ''menutest'' s =
      Returns (result (pkg_package (pkg_at s p)) ''menutest'', s\<lparr>world := w\<rparr>)"
    using script_answer [OF assms] by blast
  moreover have "same_items s (s\<lparr>world := w\<rparr>)" using dialogue_same_items [OF dialogue_basic(3) w] .
  ultimately show ?thesis by (auto simp: isdefault_def mread_def mbind_def mret_def)
qed

section \<open>The default item\<close>

definition default_candidate :: "(string \<Rightarrow> string \<Rightarrow> int) \<Rightarrow> 'w main_menu \<Rightarrow> pkg_ptr \<Rightarrow> bool" where
  "default_candidate result s p \<longleftrightarrow>
     (let x = pkg_at s p
      in installer_menu_item x \<noteq> 0 \<and> pkg_status x \<noteq> di_package_status_installed \<and> installable result x \<and>
         installer_menu_item x < NEVERDEFAULT \<and>
         (installer_menu_item x < last_successful_item s \<longrightarrow> di_hash_table_lookup (seen_items s) (pkg_package x) = None) \<and>
         (result (pkg_package x) ''menutest'' \<le> 0 \<or> pkg_status x = di_package_status_unpacked \<or>
          pkg_status x = di_package_status_half_configured) \<and>
         \<not> provides_installed_virtual_packages (heap (packages s)) p)"

lemma default_candidate_same: "same_items s s' \<Longrightarrow> default_candidate result s' = default_candidate result s"
  by (intro ext) (simp add: default_candidate_def same_itemsD Let_def)

lemma default_loop_finds:
  assumes "answers io entry result"
  shows "\<exists>s'. default_loop io ps s = Returns (find (default_candidate result s) ps, s') \<and> same_items s s'"
proof (induction ps arbitrary: s)
  case (Cons p ps)
  have IH: "\<exists>s'. default_loop io ps t = Returns (find (default_candidate result s) ps, s') \<and> same_items s s'" if "same_items s t" for t
    using Cons [of t] default_candidate_same [OF that] same_items_trans [OF that] by auto
  show ?case
  proof (cases "installer_menu_item (pkg_at s p) = 0 \<or> pkg_status (pkg_at s p) = di_package_status_installed")
    case True
    then show ?thesis using IH [of s] by (auto simp: default_candidate_def [of result s p] Let_def)
  next
    case False
    obtain t where t: "isinstallable io p s = Returns (installable result (pkg_at s p), t)" "same_items s t"
      using isinstallable_answer [OF assms] by blast
    obtain u where u: "isdefault io p t = Returns (result (pkg_package (pkg_at t p)) ''menutest'' \<le> 0 \<or>
        pkg_status (pkg_at t p) = di_package_status_unpacked \<or> pkg_status (pkg_at t p) = di_package_status_half_configured, u)" "same_items t u"
      using isdefault_answer [OF assms] by blast
    have su: "same_items s u" using t(2) u(2) by (rule same_items_trans)
    note same = same_itemsD [OF t(2)] same_itemsD [OF su]
    show ?thesis
      using False t(1) u(1) IH [OF t(2)] IH [OF su] su by (auto simp: default_candidate_def [of result s p] Let_def same)
  qed
qed simp


definition menu_with_items :: "unit main_menu" where
  "menu_with_items = example_menu\<lparr>packages := (di_packages_alloc
     ((\<lambda>_. zero_package)(0 := (real_package ''a'' [])\<lparr>installer_menu_item := 20, pkg_status := di_package_status_installed\<rparr>,
        1 := (real_package ''b'' [])\<lparr>installer_menu_item := 10\<rparr>)) 2)\<lparr>pkg_list := [0, 1]\<rparr>\<rparr>"

definition titled_io :: "unit menu_io" where
  "titled_io = example_menu_io\<lparr>mm_debconf := (\<lambda>c w. (0, ''b'', w))\<rparr>"

lemma titled_answers: "answers titled_io (\<lambda>_. ''b'') (\<lambda>_ _. 0)" "fits (\<lambda>_. ''b'')"
  by (simp_all add: answers_def fits_def titled_io_def example_menu_io_def menu_entry_maxlen_def)


section \<open>The text of the menu\<close>

lemma comma_escape_plain: "CHR '','' \<notin> set str \<Longrightarrow> comma_escape str = str"
  by (induction str) auto

lemma length_comma_escape: "length (comma_escape str) \<le> 2 * length str"
  by (induction str) auto

lemma choices_escape_fits:
  assumes "length str < menu_entry_maxlen"
  shows "choices_escape str s = Returns (comma_escape str, s)"
  using assms length_comma_escape [of str] by (simp add: choices_escape_def comma_escape_plain Let_def)

lemma comma_escape_Nil [simp]: "comma_escape str = [] \<longleftrightarrow> str = []"
  by (cases str) auto

lemma comma_join_empty: "\<forall>c \<in> set cs. c \<noteq> [] \<Longrightarrow> comma_join cs = [] \<longleftrightarrow> cs = []"
  by (cases cs rule: comma_join.cases) auto

lemma comma_join_snoc: "cs \<noteq> [] \<Longrightarrow> comma_join (cs @ [c]) = comma_join cs @ '', '' @ comma_escape c"
  by (induction cs rule: comma_join.induct) auto

definition buf_ok :: "menu_buf \<Rightarrow> bool" where
  "buf_ok m \<longleftrightarrow> (case m of (menu, used, sz) \<Rightarrow> length menu < used \<and> used \<le> sz)"

lemma menu_append_ok:
  assumes "buf_ok (menu, used, sz)" "length buf < 2 * menu_entry_maxlen"
  shows "\<exists>used' sz'. menu_append buf (menu, used, sz) s = Returns ((if menu = [] then buf else menu @ '', '' @ buf, used', sz'), s) \<and>
    buf_ok (if menu = [] then buf else menu @ '', '' @ buf, used', sz')"
  using assms by (auto simp: menu_append_def menu_grow_def menu_store_def buf_ok_def menu_entry_maxlen_def)

definition shown :: "(string \<Rightarrow> string \<Rightarrow> int) \<Rightarrow> 'w main_menu \<Rightarrow> pkg_ptr \<Rightarrow> bool" where
  "shown result s p \<longleftrightarrow> installer_menu_item (pkg_at s p) \<noteq> 0 \<and> installable result (pkg_at s p)"

definition title_of :: "(string \<Rightarrow> string) \<Rightarrow> 'w main_menu \<Rightarrow> pkg_ptr \<Rightarrow> string" where
  "title_of entry s p = entry (pkg_package (pkg_at s p))"

lemma shown_same: "same_items s s' \<Longrightarrow> shown result s' = shown result s" "same_items s s' \<Longrightarrow> title_of entry s' = title_of entry s"
  by (auto simp: shown_def title_of_def same_itemsD fun_eq_iff)

lemma menu_loop_text:
  assumes "answers io entry result" "fits entry" "buf_ok (comma_join cs, used, sz)" "\<forall>c \<in> set cs. c \<noteq> []"
  shows "\<exists>used' sz' s'. menu_loop io ps (comma_join cs, used, sz) s =
    Returns ((comma_join (cs @ map (title_of entry s) (filter (shown result s) ps)), used', sz'), s') \<and> same_items s s'"
  using assms(3,4)
proof (induction ps arbitrary: cs used sz s)
  case (Cons p ps)
  show ?case
  proof (cases "installer_menu_item (pkg_at s p) = 0")
    case True
    then show ?thesis using Cons.IH [OF Cons.prems, of s] by (simp add: shown_def [of _ _ p])
  next
    case False
    obtain t where t: "isinstallable io p s = Returns (installable result (pkg_at s p), t)" "same_items s t"
      using isinstallable_answer [OF assms(1)] by blast
    show ?thesis
    proof (cases "installable result (pkg_at s p)")
      case no: False
      then show ?thesis
        using False t Cons.IH [OF Cons.prems, of t] shown_same [OF t(2)] same_items_trans [OF t(2)] by (simp add: shown_def [of _ _ p]) blast
    next
      case True
      let ?e = "title_of entry s p"
      obtain u where u: "menu_entry io p t = Returns (?e, u)" "same_items t u"
        using menu_entry_answer [OF assms(1,2), of p t] same_itemsD(2) [OF t(2)] by (auto simp: title_of_def)
      have su: "same_items s u" using t(2) u(2) by (rule same_items_trans)
      have len: "?e \<noteq> []" "length ?e < menu_entry_maxlen" using assms(2) by (auto simp: fits_def title_of_def)
      let ?menu = "comma_join (cs @ [?e])"
      have menu: "?menu = (if comma_join cs = [] then comma_escape ?e else comma_join cs @ '', '' @ comma_escape ?e)"
        using comma_join_empty [OF Cons.prems(2)] comma_join_snoc [of cs ?e] by auto
      obtain used' sz' where a: "menu_append (comma_escape ?e) (comma_join cs, used, sz) u = Returns ((?menu, used', sz'), u)"
        "buf_ok (?menu, used', sz')"
        using menu_append_ok [OF Cons.prems(1), of "comma_escape ?e" u] length_comma_escape [of ?e] len unfolding menu by fastforce
      have "\<forall>c \<in> set (cs @ [?e]). c \<noteq> []" using Cons.prems(2) len by auto
      from Cons.IH [OF a(2) this, of u] show ?thesis
        using False True t(1) u(1) a(1) choices_escape_fits [OF len(2), of u] shown_same [OF su] same_items_trans [OF su]
        by (simp add: shown_def [of _ _ p]) blast
    qed
  qed
qed simp

lemma select_loop_finds:
  assumes "answers io entry result" "fits entry"
  shows "\<exists>s'. select_loop io choice ps s = Returns (find (\<lambda>p. title_of entry s p = choice) ps, s')"
proof (induction ps arbitrary: s)
  case (Cons p ps)
  obtain t where t: "menu_entry io p s = Returns (title_of entry s p, t)" "same_items s t"
    using menu_entry_answer [OF assms, of p s] by (auto simp: title_of_def)
  then show ?case using Cons [of t] shown_same(2) [OF t(2)] by simp
qed simp

section \<open>Priorities\<close>

definition pri_ok :: "'w main_menu \<Rightarrow> bool" where
  "pri_ok s \<longleftrightarrow> 0 \<le> default_priority s \<and> default_priority s \<le> 3 \<and> - 1 \<le> local_priority s \<and> local_priority s \<le> 3"

lemma pri_loop_range: "pri_loop v xs i = - 1 \<or> i \<le> pri_loop v xs i \<and> pri_loop v xs i < i + int (length xs)"
  by (induction v xs i rule: pri_loop.induct) auto

lemma debconf_to_pri_range: "- 1 \<le> debconf_to_pri v \<and> debconf_to_pri v \<le> 3"
proof -
  have "length debconf_priorities = 4" by (simp add: debconf_priorities_def)
  with pri_loop_range [of v debconf_priorities 0] show ?thesis unfolding debconf_to_pri_def by auto
qed

lemma pri_ok_simps [simp]:
  "pri_ok (s\<lparr>world := w\<rparr>) = pri_ok s" "pri_ok (s\<lparr>packages := ps\<rparr>) = pri_ok s" "pri_ok (s\<lparr>display_menu := b\<rparr>) = pri_ok s"
  "pri_ok (s\<lparr>notinstallables := t\<rparr>) = pri_ok s" "pri_ok (s\<lparr>seen_items := t\<rparr>) = pri_ok s" "pri_ok (s\<lparr>history := h\<rparr>) = pri_ok s"
  "pri_ok (s\<lparr>di_config_package_depth := d\<rparr>) = pri_ok s" "pri_ok (s\<lparr>last_successful_item := i\<rparr>) = pri_ok s"
  "pri_ok (set_status st p s) = pri_ok s"
  by (simp_all add: pri_ok_def set_status_def)

lemma debconf_returns:
  obtains code val w where "debconf io c s = Returns ((code, val), s\<lparr>world := w\<rparr>)"
  by (cases "mm_debconf io c (world s)") (auto simp: debconf_def)

lemma priority_name_returns: "0 \<le> i \<Longrightarrow> i \<le> 3 \<Longrightarrow> \<exists>n. priority_name i s = Returns (n, s)"
  by (simp add: priority_name_def debconf_priorities_def)

text \<open>Actions that return, keep the priorities in range and leave the packages alone.\<close>

definition safe :: "('w, 'a) act \<Rightarrow> bool" where
  "safe m \<longleftrightarrow> (\<forall>s. pri_ok s \<longrightarrow> (\<exists>x s'. m s = Returns (x, s') \<and> pri_ok s' \<and> packages s' = packages s))"

lemma safeE:
  assumes "safe m" "pri_ok s"
  obtains x s' where "m s = Returns (x, s')" "pri_ok s'" "packages s' = packages s"
  using assms by (auto simp: safe_def)

named_theorems safe_intros \<open>actions that return with the priorities in range\<close>

lemma safe_mbind [safe_intros]:
  assumes "safe m" "\<And>x. safe (f x)"
  shows "safe (mbind m f)"
  unfolding safe_def
proof (intro allI impI)
  fix s :: "'a main_menu" assume "pri_ok s"
  with assms(1) obtain x t where t: "m s = Returns (x, t)" "pri_ok t" "packages t = packages s" by (rule safeE)
  from assms(2) t(2) obtain y u where "f x t = Returns (y, u)" "pri_ok u" "packages u = packages t" by (rule safeE)
  with t show "\<exists>y u. mbind m f s = Returns (y, u) \<and> pri_ok u \<and> packages u = packages s" by (simp add: mbind_def)
qed

lemma safe_basic [safe_intros]: "safe (mret x)" "safe (debconf io c)" "0 \<le> i \<Longrightarrow> i \<le> 3 \<Longrightarrow> safe (priority_name i)"
proof -
  show "safe (mret x)" by (simp add: safe_def mret_def)
  show "safe (debconf io c)" by (simp add: safe_def debconf_def split: prod.split)
  show "0 \<le> i \<Longrightarrow> i \<le> 3 \<Longrightarrow> safe (priority_name i)" unfolding safe_def using priority_name_returns by blast
qed

lemma safe_if [safe_intros]: "(b \<Longrightarrow> safe m1) \<Longrightarrow> (\<not> b \<Longrightarrow> safe m2) \<Longrightarrow> safe (if b then m1 else m2)"
  by (cases b) simp_all

lemma safe_unit [safe_intros]: "safe (mupd f)" if "\<And>s. pri_ok s \<Longrightarrow> pri_ok (f s) \<and> packages (f s) = packages s"
  using that by (simp add: safe_def mupd_def)

lemma safe_entry: "answers io entry result \<Longrightarrow> fits entry \<Longrightarrow> safe (menu_entry io p)"
proof -
  assume a: "answers io entry result" "fits entry"
  have "\<exists>x s'. menu_entry io p s = Returns (x, s') \<and> pri_ok s' \<and> packages s' = packages s" if "pri_ok s" for s
  proof -
    obtain s' where s': "menu_entry io p s = Returns (entry (pkg_package (pkg_at s p)), s')" "same_items s s'"
      using menu_entry_answer [OF a] by blast
    then have "pri_ok s'" "packages s' = packages s" using that by (auto simp: same_itemsD pri_ok_def)
    with s'(1) show ?thesis by blast
  qed
  then show ?thesis by (simp add: safe_def)
qed

text \<open>The choice of a new priority and the command that sends it.\<close>

lemma safe_set_priority:
  assumes "0 \<le> i" "i \<le> 3" "pri_ok s"
  shows "\<exists>s'. mbind (priority_name i) (\<lambda>n. mbind (debconf io (c @ n)) (\<lambda>_. mret ())) s = Returns ((), s') \<and> pri_ok s' \<and> packages s' = packages s"
proof -
  have "safe (mbind (priority_name i) (\<lambda>n. mbind (debconf io (c @ n)) (\<lambda>_. mret ())))" using assms(1,2) by (intro safe_intros)
  then obtain x s' where "mbind (priority_name i) (\<lambda>n. mbind (debconf io (c @ n)) (\<lambda>_. mret ())) s = Returns (x, s')"
    "pri_ok s'" "packages s' = packages s" by (rule safeE [OF _ assms(3)])
  then show ?thesis by simp
qed

lemma safe_modify: "safe (modify_debconf_priority io rl)"
proof -
  have "\<exists>s'. modify_debconf_priority io rl s = Returns ((), s') \<and> pri_ok s' \<and> packages s' = packages s" if s: "pri_ok s" for s
  proof -
    obtain code val w where d: "debconf io ''GET debconf/priority'' s = Returns ((code, val), s\<lparr>world := w\<rparr>)"
      by (rule debconf_returns)
    define t where "t = (case rl of LOWER \<Rightarrow> s\<lparr>world := w, display_menu := True\<rparr> | RAISE \<Rightarrow> s\<lparr>world := w\<rparr>)"
    define pri where "pri = (let p = debconf_to_pri val; p = (if p = - 1 then 1 else p);
        p = (case rl of LOWER \<Rightarrow> p - 1 | RAISE \<Rightarrow> p + 1); p = (if 0 > p then 0 else p)
      in if p > default_priority t then default_priority t else p)"
    have t: "pri_ok t" "packages t = packages s" using s by (auto simp: t_def split: raise_or_lower.split)
    then have pri: "0 \<le> pri" "pri \<le> 3" by (auto simp: pri_def Let_def pri_ok_def split: raise_or_lower.split)
    have "modify_debconf_priority io rl s =
        (if local_priority t \<noteq> pri
         then mbind (priority_name pri) (\<lambda>n. mbind (debconf io (''SET debconf/priority '' @ n)) (\<lambda>_. mret ())) (t\<lparr>local_priority := pri\<rparr>)
         else Returns ((), t))"
      using d by (cases rl) (auto simp: modify_debconf_priority_def mbind_def [of "debconf io _"] t_def pri_def Let_def)
    moreover have "pri_ok (t\<lparr>local_priority := pri\<rparr>)" using t(1) pri by (auto simp: pri_ok_def)
    ultimately show ?thesis
      using safe_set_priority [OF pri, of "t\<lparr>local_priority := pri\<rparr>" io "''SET debconf/priority ''"] t by auto
  qed
  then show ?thesis unfolding safe_def by blast
qed

lemma safe_adjust: "safe (adjust_default_priority io)"
proof -
  have "\<exists>s'. adjust_default_priority io s = Returns ((), s') \<and> pri_ok s' \<and> packages s' = packages s" if "pri_ok s" for s
  proof -
    obtain code val w where "debconf io ''GET debconf/priority'' s = Returns ((code, val), s\<lparr>world := w\<rparr>)"
      by (rule debconf_returns)
    then show ?thesis
      using that debconf_to_pri_range [of val] by (auto simp: adjust_default_priority_def mbind_def Let_def pri_ok_def)
  qed
  then show ?thesis unfolding safe_def by blast
qed

lemma safe_restore: "safe (restore_default_priority io)"
proof -
  have "\<exists>x s'. restore_default_priority io s = Returns (x, s') \<and> pri_ok s' \<and> packages s' = packages s" if "pri_ok s" for s
  proof (cases "local_priority s = default_priority s")
    case False
    have "safe (mbind (priority_name (default_priority s)) (\<lambda>n. mbind (debconf io (''SET debconf/priority '' @ n)) (\<lambda>_.
        mupd (\<lambda>s. s\<lparr>local_priority := default_priority s\<rparr>))))"
      using that by (intro safe_intros) (auto simp: pri_ok_def)
    from safeE [OF this that] False show ?thesis by (simp add: restore_default_priority_def) blast
  qed (use that in \<open>simp add: restore_default_priority_def\<close>)
  then show ?thesis unfolding safe_def by blast
qed

lemma menu_priority_range: "pri_ok s \<Longrightarrow> 0 \<le> menu_priority s \<and> menu_priority s \<le> 3"
proof -
  have "debconf_to_pri MENU_PRIORITY = 1" "length debconf_priorities = 4" by code_simp+
  then show "0 \<le> menu_priority s \<and> menu_priority s \<le> 3" by (auto simp: menu_priority_def Let_def)
qed

lemma safe_input: "safe (mread (\<lambda>s. priority_name (menu_priority s)))"
  unfolding safe_def mread_def using menu_priority_range priority_name_returns by blast

lemma safe_option [safe_intros]: "safe m1 \<Longrightarrow> (\<And>x. safe (k x)) \<Longrightarrow> safe (case c of None \<Rightarrow> m1 | Some x \<Rightarrow> k x)"
  by (cases c) simp_all

lemma safe_split [safe_intros]: "(\<And>a b. safe (f a b)) \<Longrightarrow> safe (case p of (a, b) \<Rightarrow> f a b)"
  by (cases p) simp

lemma ask_menu_safe: "answers io entry result \<Longrightarrow> fits entry \<Longrightarrow> safe (ask_menu io menu d)"
  unfolding ask_menu_def by (intro safe_intros safe_entry safe_modify safe_input)

subsection \<open>The main loop keeps them in range\<close>

lemma keeps_dialogue: "dialogue m \<Longrightarrow> keeps pri_ok m"
  unfolding keeps_def by (auto elim: dialogueE)

lemma keeps_safe: "safe m \<Longrightarrow> keeps pri_ok m"
  unfolding keeps_def by (metis Pair_inject run.inject safe_def)

lemma keeps_mupd [keeps_intros]: "(\<And>s. I s \<Longrightarrow> I (f s)) \<Longrightarrow> keeps I (mupd f)"
  by (simp add: keeps_def mupd_def)

text \<open>The loops as compositions of actions.\<close>

lemma isinstallable_act:
  "isinstallable io p = mread (\<lambda>s. if installer_menu_item (pkg_at s p) = 99999 then mret False
     else mbind (control_file_exec io (pkg_package (pkg_at s p)) ''isinstallable'') (\<lambda>check.
       if check \<le> 0 then mret True
       else mbind (mupd (\<lambda>s. s\<lparr>notinstallables := fst (di_hash_table_insert (notinstallables s) (pkg_package (pkg_at s p)) (pkg_package (pkg_at s p)))\<rparr>))
              (\<lambda>_. mret False)))"
  by (intro ext) (simp add: isinstallable_def mread_def mbind_def mret_def mupd_def Let_def if_distribR cong: if_cong)

lemma default_loop_act:
  "default_loop io (p # ps) = mread (\<lambda>s.
     if installer_menu_item (pkg_at s p) = 0 \<or> pkg_status (pkg_at s p) = di_package_status_installed then default_loop io ps
     else mbind (isinstallable io p) (\<lambda>ok. mread (\<lambda>s.
       if \<not> ok \<or> installer_menu_item (pkg_at s p) \<ge> NEVERDEFAULT \<or> (installer_menu_item (pkg_at s p) < last_successful_item s \<and>
            di_hash_table_lookup (seen_items s) (pkg_package (pkg_at s p)) \<noteq> None)
       then default_loop io ps
       else mbind (isdefault io p) (\<lambda>def. mread (\<lambda>s.
         if def \<and> \<not> provides_installed_virtual_packages (heap (packages s)) p then mret (Some p) else default_loop io ps)))))"
  by (intro ext) (simp add: mread_def mbind_def mret_def if_distribR cong: if_cong)

lemma menu_loop_act:
  "menu_loop io (p # ps) m = mread (\<lambda>s. if installer_menu_item (pkg_at s p) = 0 then menu_loop io ps m
     else mbind (isinstallable io p) (\<lambda>ok. if \<not> ok then menu_loop io ps m
       else mbind (menu_entry io p) (\<lambda>e. mbind (choices_escape e) (\<lambda>buf. mbind (menu_append buf m) (\<lambda>m. menu_loop io ps m)))))"
  by (intro ext) (simp add: mread_def mbind_def if_distribR cong: if_cong)

lemma select_loop_act:
  "select_loop io c (p # ps) = mbind (menu_entry io p) (\<lambda>buf. if buf = c then mret (Some p) else select_loop io c ps)"
  by (intro ext) (simp add: mbind_def mret_def if_distribR cong: if_cong)

lemma config_deps_act:
  "config_deps rec (d # ds) = mread (\<lambda>s.
     if pkg_status (pkg_at s (dep_ptr d)) = di_package_status_installed \<or> dep_type d \<noteq> di_package_dependency_type_depends
     then config_deps rec ds
     else mbind (mupd (\<lambda>s. s\<lparr>di_config_package_depth := di_config_package_depth s + 1\<rparr>)) (\<lambda>_. mread (\<lambda>s.
       if di_config_package_depth s > 1000 then mret (Some (- 1))
       else mbind (rec (dep_ptr d)) (\<lambda>r. mbind (mupd (\<lambda>s. s\<lparr>di_config_package_depth := di_config_package_depth s - 1\<rparr>)) (\<lambda>_.
         if r = - 1 \<or> r = EXIT_BACKUP then mret (Some r) else config_deps rec ds)))))"
  by (intro ext) (simp add: mread_def mbind_def mret_def mupd_def Let_def if_distribR cong: if_cong)

lemma virtual_loop_act:
  "virtual_loop io rec (d # ds) v = mread (\<lambda>s.
     if dep_type d = di_package_dependency_type_depends
     then (if pkg_status (pkg_at s (dep_ptr d)) \<noteq> di_package_status_installed
           then mbind (rec (dep_ptr d)) (\<lambda>r. if r = - 1 \<or> r = EXIT_BACKUP then mret (Inl r) else virtual_loop io rec ds v)
           else virtual_loop io rec ds v)
     else if dep_type d \<noteq> di_package_dependency_type_reverse_provides then virtual_loop io rec ds v
     else if pkg_status (pkg_at s (dep_ptr d)) = di_package_status_installed
     then mret (Inr (v\<lparr>scan_menu := (fst (scan_menu v), 0, snd (snd (scan_menu v)))\<rparr>))
     else mbind (scan_provider io (dep_ptr d) v) (\<lambda>v. virtual_loop io rec ds v))"
  by (intro ext) (simp add: mread_def mbind_def mret_def if_distribR cong: if_cong)

lemma choice_loop_act:
  "choice_loop io rec c (d # ds) = mbind (menu_entry io (dep_ptr d)) (\<lambda>buf.
     if c = None \<or> c = Some buf
     then mbind (rec (dep_ptr d)) (\<lambda>r. if r = - 1 \<or> r = EXIT_BACKUP then mret (Some r)
            else if c \<noteq> None then mret None else choice_loop io rec c ds)
     else choice_loop io rec c ds)"
  by (intro ext) (simp add: mbind_def mret_def if_distribR cong: if_cong)

lemma keeps_loop_ends:
  "keeps I (default_loop io [])" "keeps I (menu_loop io [] m)" "keeps I (select_loop io c [])" "keeps I (config_deps rec [])"
  "keeps I (virtual_loop io rec [] v)" "keeps I (choice_loop io rec b [])"
  by (simp_all add: keeps_def)

lemmas keeps_asks = keeps_dialogue [OF dialogue_asks(1)] keeps_dialogue [OF dialogue_asks(2)] keeps_dialogue [OF dialogue_asks(3)]
  keeps_dialogue [OF dialogue_asks(4)] keeps_dialogue [OF dialogue_asks(5)] keeps_dialogue [OF dialogue_basic(2)]
  keeps_dialogue [OF dialogue_basic(3)] keeps_dialogue [OF dialogue_basic(4)] keeps_dialogue [OF dialogue_basic(5)]
  keeps_dialogue [OF dialogue_basic(7)] keeps_dialogue [OF dialogue_menu(1)]

lemma keeps_isinstallable: "keeps pri_ok (isinstallable io p)"
  unfolding isinstallable_act by (intro keeps_intros keeps_asks) simp

lemma keeps_menu_loops:
  "keeps pri_ok (default_loop io ps)" "keeps pri_ok (menu_loop io ps m)" "keeps pri_ok (select_loop io c ps)"
proof -
  show "keeps pri_ok (default_loop io ps)"
    by (induction ps) (simp_all only: keeps_loop_ends default_loop_act, intro keeps_intros keeps_asks keeps_isinstallable)
  show "keeps pri_ok (menu_loop io ps m)"
    by (induction ps arbitrary: m) (simp_all only: keeps_loop_ends menu_loop_act, intro keeps_intros keeps_asks keeps_isinstallable)
  show "keeps pri_ok (select_loop io c ps)"
    by (induction ps) (simp_all only: keeps_loop_ends select_loop_act, intro keeps_intros keeps_asks)
qed

lemma keeps_config_loops:
  assumes "\<And>p. keeps pri_ok (rec p)"
  shows "keeps pri_ok (config_deps rec ds)" "keeps pri_ok (virtual_loop io rec ds v)" "keeps pri_ok (choice_loop io rec c ds)"
proof -
  show "keeps pri_ok (config_deps rec ds)"
    by (induction ds) (simp_all only: keeps_loop_ends config_deps_act, intro keeps_intros assms, simp_all)
  show "keeps pri_ok (virtual_loop io rec ds v)"
    by (induction ds arbitrary: v) (simp_all only: keeps_loop_ends virtual_loop_act, intro keeps_intros keeps_asks assms)
  show "keeps pri_ok (choice_loop io rec c ds)"
    by (induction ds) (simp_all only: keeps_loop_ends choice_loop_act, intro keeps_intros keeps_asks assms)
qed

lemma keeps_config_ends: "keeps pri_ok (virtual_done p)" "keeps pri_ok (config_result p r)"
  by (auto simp: keeps_def virtual_done_def config_result_def Let_def split: if_splits)

lemma keeps_config_package: "keeps pri_ok (di_config_package io n p)"
proof (induction n arbitrary: p)
  case (Suc n)
  note rules = keeps_intros keeps_config_loops [OF Suc] keeps_config_ends keeps_asks
  have "keeps pri_ok (satisfy_virtual io (di_config_package io n) p)"
    unfolding satisfy_virtual_def choose_provider_def by (intro rules)
  moreover have "keeps pri_ok (mbind (config_deps (di_config_package io n) ds) (\<lambda>r. case r of None \<Rightarrow>
      mbind (set_package_title io p) (\<lambda>_. mbind (exec_shell_log io c) (\<lambda>status. config_result p (di_exec_mangle_status status)))
      | Some e \<Rightarrow> mret e))" for ds c
    by (intro rules)
  ultimately have "pri_ok s'" if "pri_ok s" "di_config_package io (Suc n) p s = Returns (x, s')" for s x s'
    using that by (cases "pkg_type (pkg_at s p)") (auto dest: keepsD)
  then show ?case unfolding keeps_def by blast
qed (simp add: keeps_def)

lemma keeps_after_item: "keeps pri_ok (after_item io p r)"
proof -
  have "keeps pri_ok (mbind (restore_default_priority io) (\<lambda>_. mret False))"
    "keeps pri_ok (mbind (notify_user_of_failure io p) (\<lambda>_. mbind (modify_debconf_priority io LOWER) (\<lambda>_. mret False)))"
    unfolding notify_user_of_failure_def by (intro keeps_intros keeps_asks keeps_safe safe_restore safe_modify)+
  note parts = this [THEN keepsD]
  have "pri_ok s'" if "pri_ok s" "after_item io p r s = Returns (x, s')" for s x s'
    using that parts(1) [of "s\<lparr>last_successful_item := installer_menu_item (pkg_at s p)\<rparr>" _ s'] parts(2) [of s _ s']
    by (auto simp: after_item_def split: if_splits)
  then show ?thesis unfolding keeps_def by blast
qed

lemma keeps_get_default: "keeps pri_ok (get_default_menu_item io list)"
  using keepsD [OF keeps_menu_loops(1), of "_\<lparr>notinstallables := item_table\<rparr>"]
  by (auto simp: keeps_def get_default_menu_item_def)

lemma keeps_show_main_menu: "keeps pri_ok (show_main_menu io fuel)"
proof -
  have ask: "keeps pri_ok (ask_menu io menu d)" for menu d
    unfolding ask_menu_def by (intro keeps_intros keeps_asks keeps_safe safe_modify safe_input)
  have "keeps pri_ok (mbind (menu_loop io list menu_new) (\<lambda>(menu, used, sz). mbind (get_default_menu_item io list) (\<lambda>d.
      mbind (ask_menu io menu d) (\<lambda>choice. select_loop io choice array))))" for list array
    by (intro keeps_intros keeps_menu_loops keeps_get_default ask)
  note rest = this [THEN keepsD]
  have "pri_ok s'" if "pri_ok s" "show_main_menu io fuel s = Returns (x, s')" for s x s'
    using that rest [of "s\<lparr>packages := _\<rparr>" _ _ _ s'] by (auto simp: show_main_menu_def Let_def split: option.splits)
  then show ?thesis unfolding keeps_def by blast
qed

lemma keeps_main_round: "keeps pri_ok (main_round io fuel)"
proof -
  have readp: "keeps pri_ok (read_packages io)"
    by (auto simp: keeps_def read_packages_def split: sum.splits option.splits)
  show ?thesis unfolding main_round_def do_menu_item_def
    by (intro keeps_intros readp keeps_show_main_menu keeps_config_package keeps_after_item keeps_asks keeps_safe [OF safe_adjust])
      (simp_all add: remember_seen_def)
qed

text \<open>
  Property C8: the priorities always stay in the range of the array of their names. The three
  operations on them return and a round of the main loop keeps the range, whatever debconf
  answers.
\<close>

theorem priorities_in_range:
  assumes "pri_ok s"
  shows "(\<exists>s'. modify_debconf_priority io rl s = Returns ((), s') \<and> pri_ok s') \<and>
    (\<exists>s'. adjust_default_priority io s = Returns ((), s') \<and> pri_ok s') \<and>
    (\<exists>s'. restore_default_priority io s = Returns ((), s') \<and> pri_ok s') \<and>
    0 \<le> menu_priority s \<and> menu_priority s < int (length debconf_priorities) \<and>
    (\<forall>x s'. main_round io fuel s = Returns (x, s') \<longrightarrow> pri_ok s')"
proof -
  have unit: "\<exists>s'. m s = Returns ((), s') \<and> pri_ok s'" if "safe m" for m
    using safeE [OF that assms] by (metis old.unit.exhaust)
  have "length debconf_priorities = 4" by (simp add: debconf_priorities_def)
  then show ?thesis
    using unit [OF safe_modify] unit [OF safe_adjust] unit [OF safe_restore] menu_priority_range [OF assms]
      keepsD [OF keeps_main_round assms] by auto
qed

theorem priorities_in_range_witness:
  "\<exists>s'. modify_debconf_priority titled_io LOWER menu_with_items = Returns ((), s') \<and> pri_ok s'"
proof -
  have "pri_ok menu_with_items" by code_simp
  from priorities_in_range [OF this] show ?thesis by blast
qed

section \<open>From the menu to the item\<close>

text \<open>
  Property C6: the text that is substituted into the menu question is taken apart by debconf
  into exactly the titles of the installable items, in the order of their dependencies.
\<close>

theorem menu_lists_titles:
  assumes "answers io entry result" "fits entry" "\<forall>n. plain_choice (entry n)"
    and titles: "titles = map (title_of entry s) (filter (shown result s) list)"
  shows "\<exists>menu used sz s'. menu_loop io list menu_new s = Returns ((menu, used, sz), s') \<and>
    strgetargc (Some menu) = length titles \<and> strchoicesplit (Some menu) (length titles) = titles"
proof -
  have "buf_ok (comma_join [], 1, 1024)" by (simp add: buf_ok_def)
  from menu_loop_text [OF assms(1,2) this, of list s] obtain used sz s' where
    "menu_loop io list menu_new s = Returns ((comma_join titles, used, sz), s')"
    by (auto simp: menu_new_def titles)
  moreover have "\<forall>c \<in> set titles. plain_choice c" using assms(3) by (auto simp: titles title_of_def)
  ultimately show ?thesis using split_comma_join by blast
qed

theorem menu_lists_titles_witness:
  "\<exists>menu used sz s'. menu_loop titled_io [0, 1] menu_new menu_with_items = Returns ((menu, used, sz), s') \<and>
     strchoicesplit (Some menu) 2 = [''b'', ''b'']"
proof -
  have "plain_choice ''b''" by code_simp
  then have "\<forall>n::string. plain_choice ''b''" by simp
  moreover have "map (title_of (\<lambda>_. ''b'') menu_with_items) (filter (shown (\<lambda>_ _. 0) menu_with_items) [0, 1]) = [''b'', ''b'']"
    by code_simp
  moreover have "length [''b'', ''b''] = (2 :: nat)" by simp
  ultimately show ?thesis using menu_lists_titles [OF titled_answers, of "[''b'', ''b'']" menu_with_items "[0, 1]"] by metis
qed

text \<open>The resolver changes nothing that the menu shows.\<close>

lemma package_array_title:
  assumes "same_static (heap (packages s)) (heap pkgs)"
  shows "title_of entry (s\<lparr>packages := pkgs\<rparr>) = title_of entry s"
  using same_static_fields(5) [OF assms] by (auto simp: title_of_def pkg_at_def)

text \<open>Safe actions before the question of the user.\<close>

definition gives :: "'a \<Rightarrow> ('w, 'a) act \<Rightarrow> bool" where
  "gives c m \<longleftrightarrow> (\<forall>s. pri_ok s \<longrightarrow> (\<exists>s'. m s = Returns (c, s') \<and> packages s' = packages s))"

lemma gives_after: "safe m \<Longrightarrow> (\<And>x. gives c (k x)) \<Longrightarrow> gives c (mbind m k)"
  unfolding gives_def
proof (intro allI impI)
  fix s :: "'a main_menu"
  assume m: "safe m" and k: "\<And>x. \<forall>s. pri_ok s \<longrightarrow> (\<exists>s'. k x s = Returns (c, s') \<and> packages s' = packages s)" and "pri_ok s"
  then obtain x t where t: "m s = Returns (x, t)" "pri_ok t" "packages t = packages s" by (elim safeE)
  with k [of x] obtain s' where "k x t = Returns (c, s')" "packages s' = packages t" by blast
  with t show "\<exists>s'. mbind m k s = Returns (c, s') \<and> packages s' = packages s" by (simp add: mbind_def)
qed

lemma ask_menu_answer:
  assumes "answers io entry result" "fits entry"
    and user: "\<forall>w. fst (snd (mm_debconf io (''GET '' @ MAIN_MENU) w)) = c"
  shows "gives c (ask_menu io menu d)"
proof -
  define final where "final = mbind (debconf io (''GET '' @ MAIN_MENU)) (\<lambda>(_, choice). mret choice)"
  have "final s = Returns (c, s\<lparr>world := snd (snd (mm_debconf io (''GET '' @ MAIN_MENU) (world s)))\<rparr>)" for s
    using spec [OF user, of "world s"] by (cases "mm_debconf io (''GET '' @ MAIN_MENU) (world s)") (simp add: final_def mbind_def debconf_def mret_def)
  then have final: "gives c final" by (simp add: gives_def)
  show ?thesis unfolding ask_menu_def final_def [symmetric]
    by (intro gives_after safe_intros safe_input safe_modify safe_entry [OF assms(1,2)] final)
qed

text \<open>
  Property C4: with a freshly read status file whose dependencies have no cycle, whatever title
  the user answers with, the menu returns, and it returns the first item of the array with that
  title.
\<close>

theorem show_main_menu_selects:
  assumes answers: "answers io entry result" "fits entry"
    and user: "\<forall>w. fst (snd (mm_debconf io (''GET '' @ MAIN_MENU) w)) = c"
    and s: "pri_ok s" "resolver (packages s) = 0" "\<forall>p. pkg_resolver (pkg_at s p) = 0"
    and deps: "acyclic_by rank (heap (packages s))" "closed (heap (packages s)) P" "set (package_array s) \<subseteq> P" "card P + 3 \<le> fuel"
  shows "\<exists>s'. show_main_menu io fuel s = Returns (find (\<lambda>p. title_of entry s p = c) (package_array s), s')"
proof -
  let ?h = "heap (packages s)"
  have marked: "di_packages_resolve_dependencies_marker (packages s) = (packages s)\<lparr>resolver := 2 ^ marker_index 0\<rparr>"
    using s(2) by (simp add: di_packages_resolve_dependencies_marker_def marker_index_def)
  have "\<forall>p. \<not> visited (marker_index 0) ?h p" using s(3) by (simp add: visited_def pkg_at_def)
  from permissive.run_correct [OF deps this] obtain list st where
    run: "resolve_all (permissive_check\<lparr>check_resolver := 2 ^ marker_index 0\<rparr>) fuel (package_array s) [] \<lparr>rs_heap = ?h, rs_list = []\<rparr>
      = Some (list, st)" by blast
  define t where "t = s\<lparr>packages := (packages s)\<lparr>resolver := 2 ^ marker_index 0, heap := rs_heap st\<rparr>\<rparr>"
  have titles: "title_of entry t = title_of entry s"
    using permissive.resolve_all_static [OF run] unfolding t_def by (intro package_array_title) simp
  have "buf_ok (comma_join [], 1, 1024)" by (simp add: buf_ok_def)
  from menu_loop_text [OF answers this, of list t] obtain menu used sz a where
    a: "menu_loop io list menu_new t = Returns ((menu, used, sz), a)" "same_items t a" by (auto simp: menu_new_def)
  obtain d b where b: "get_default_menu_item io list a = Returns (d, b)" "same_items (a\<lparr>notinstallables := item_table\<rparr>) b"
    using default_loop_finds [OF answers(1), of list "a\<lparr>notinstallables := item_table\<rparr>"] by (auto simp: get_default_menu_item_def)
  have "pri_ok b" "packages b = packages t"
    using s(1) same_itemsD [OF a(2)] same_itemsD [OF b(2)] by (simp_all add: pri_ok_def t_def)
  moreover obtain e where e: "ask_menu io menu d b = Returns (c, e)" "packages e = packages b"
    using ask_menu_answer [OF answers user] \<open>pri_ok b\<close> unfolding gives_def by blast
  ultimately have "title_of entry e = title_of entry s" using titles by (simp add: title_of_def pkg_at_def fun_eq_iff)
  with select_loop_finds [OF answers, of c "package_array s" e] obtain s' where
    "select_loop io c (package_array s) e = Returns (find (\<lambda>p. title_of entry s p = c) (package_array s), s')" by auto
  then have "show_main_menu io fuel s = Returns (find (\<lambda>p. title_of entry s p = c) (package_array s), s')"
    using run a(1) b(1) e(1) unfolding t_def
    by (simp add: show_main_menu_def di_system_packages_resolve_dependencies_array_permissive_def
        di_packages_resolve_dependencies_array_special_def marked Let_def mbind_def)
  then show ?thesis by blast
qed

lemma menu_with_items_array: "package_array menu_with_items = [1, 0]" "resolver (packages menu_with_items) = 0" "pri_ok menu_with_items"
  by code_simp+

lemma menu_with_items_heap: "pkg_resolver (pkg_at menu_with_items p) = 0" "pkg_depends (heap (packages menu_with_items) p) = []"
  by (simp_all add: pkg_at_def menu_with_items_def di_packages_alloc_def real_package_def zero_package_def)

theorem show_main_menu_selects_witness:
  "\<exists>s'. show_main_menu titled_io 5 menu_with_items = Returns (Some 1, s')"
proof -
  have "acyclic_by (\<lambda>_. 0) (heap (packages menu_with_items))" "closed (heap (packages menu_with_items)) {0, 1}"
    by (simp_all add: acyclic_by_def closed_def menu_with_items_heap)
  moreover have "\<forall>w. fst (snd (mm_debconf titled_io (''GET '' @ MAIN_MENU) w)) = ''b''" by (simp add: titled_io_def)
  ultimately have "\<exists>s'. show_main_menu titled_io 5 menu_with_items =
      Returns (find (\<lambda>p. title_of (\<lambda>_. ''b'') menu_with_items p = ''b'') (package_array menu_with_items), s')"
    by (intro show_main_menu_selects [OF titled_answers, where P = "{0, 1}" and rank = "\<lambda>_. 0"])
      (simp_all add: menu_with_items_array menu_with_items_heap)
  then show ?thesis by (simp add: menu_with_items_array title_of_def)
qed

end
