(* ===== verification/Udpkg_Status.thy ===== *)
theory Udpkg_Status
  imports C_Search
begin

text \<open>
  The status file of \<^verbatim>\<open>udpkg\<close> (\<^verbatim>\<open>udpkg/status.c\<close>): words for the status of a package, the
  reader of control files, the tree of known packages and the merge of new packages into the
  file. A file is its text, without NUL bytes. The options of \<^verbatim>\<open>configure\<close> that the
  preprocessor tests are the argument \<open>udpkg_config\<close>.
\<close>

section \<open>Definitions\<close>

record udpkg_config =
  DODEPENDS :: bool
  DOLOADTEMPLATE :: bool
  SUPPORTL10N :: bool
  DOREMOVE :: bool

record language_description_t =
  ld_language :: string
  ld_description :: string
  ld_long_description :: string

type_synonym upkg_ptr = nat

record package_t =
  pt_file :: "string option"
  pt_package :: "string option"
  pt_status :: u32
  pt_priority :: "string option"
  pt_section :: "string option"
  pt_installed_size :: "string option"
  pt_maintainer :: "string option"
  pt_source :: "string option"
  pt_version :: "string option"
  pt_pre_depends :: "string option"
  pt_depends :: "string option"
  pt_replaces :: "string option"
  pt_recommends :: "string option"
  pt_suggests :: "string option"
  pt_provides :: "string option"
  pt_conflicts :: "string option"
  pt_conffiles :: "string option"
  pt_description :: "string option"
  pt_long_description :: "string option"
  pt_installer_menu_item :: int
  pt_color :: nat
  pt_requiredfor :: "upkg_ptr list"
  pt_localized_descriptions :: "language_description_t list"
  pt_next :: "upkg_ptr option"

type_synonym upkg_heap = "upkg_ptr \<Rightarrow> package_t"

text \<open>A structure after \<open>memset\<close>. \<open>requiredcount\<close> is the length of \<open>requiredfor\<close>.\<close>

definition zero_pkg :: package_t where
  "zero_pkg = \<lparr>pt_file = None, pt_package = None, pt_status = 0, pt_priority = None, pt_section = None, pt_installed_size = None,
     pt_maintainer = None, pt_source = None, pt_version = None, pt_pre_depends = None, pt_depends = None, pt_replaces = None,
     pt_recommends = None, pt_suggests = None, pt_provides = None, pt_conflicts = None, pt_conffiles = None,
     pt_description = None, pt_long_description = None, pt_installer_menu_item = 0, pt_color = 0, pt_requiredfor = [],
     pt_localized_descriptions = [], pt_next = None\<rparr>"

subsection \<open>Status words\<close>

definition STATUS_WANTINSTALL :: u32 where
  "STATUS_WANTINSTALL = push_bit 1 1"

definition STATUS_WANTDEINSTALL :: u32 where
  "STATUS_WANTDEINSTALL = push_bit 3 1"

definition STATUS_FLAGOK :: u32 where
  "STATUS_FLAGOK = push_bit 5 1"

definition STATUS_STATUSNOTINSTALLED :: u32 where
  "STATUS_STATUSNOTINSTALLED = push_bit 9 1"

definition STATUS_STATUSUNPACKED :: u32 where
  "STATUS_STATUSUNPACKED = push_bit 10 1"

definition STATUS_STATUSHALFCONFIGURED :: u32 where
  "STATUS_STATUSHALFCONFIGURED = push_bit 11 1"

definition STATUS_STATUSINSTALLED :: u32 where
  "STATUS_STATUSINSTALLED = push_bit 12 1"

definition STATUS_STATUSHALFINSTALLED :: u32 where
  "STATUS_STATUSHALFINSTALLED = push_bit 13 1"

unbundle bit_operations_syntax

definition STATUS_WANTMASK :: u32 where
  "STATUS_WANTMASK = NOT (push_bit 0 1 OR push_bit 1 1 OR push_bit 2 1 OR push_bit 3 1 OR push_bit 4 1)"

definition STATUS_FLAGMASK :: u32 where
  "STATUS_FLAGMASK = NOT (push_bit 5 1 OR push_bit 6 1 OR push_bit 7 1 OR push_bit 8 1)"

definition STATUS_STATUSMASK :: u32 where
  "STATUS_STATUSMASK = NOT (push_bit 9 1 OR push_bit 10 1 OR push_bit 11 1 OR push_bit 12 1 OR push_bit 14 1 OR push_bit 15 1 OR
     push_bit 16 1 OR push_bit 13 1)"

text \<open>The table of words, each row with the number of its first bit.\<close>

definition statuswords :: "(nat \<times> string list) list" where
  "statuswords =
     [(0, [''unknown'', ''install'', ''hold'', ''deinstall'', ''purge'']),
      (5, [''ok'', ''reinstreq'', ''hold'', ''hold-reinstreq'']),
      (9, [''not-installed'', ''unpacked'', ''half-configured'', ''installed'', ''half-installed'', ''config-files'',
           ''post-inst-failed'', ''removal-failed''])]"

fun word_bit :: "string \<Rightarrow> string list \<Rightarrow> nat \<Rightarrow> nat option" where
  "word_bit w [] b = None"
| "word_bit w (x # xs) b = (if w = x then Some b else word_bit w xs (Suc b))"

text \<open>
  \<open>status_parse\<close>: a row per word. When the line has no further space the pointer to the next
  word is \<open>NULL + 1\<close>, and reading through it kills the program.
\<close>

fun status_parse_loop :: "(nat \<times> string list) list \<Rightarrow> string option \<Rightarrow> u32 \<Rightarrow> u32 run" where
  "status_parse_loop [] line l = Returns l"
| "status_parse_loop ((b, ws) # rows) None l = Died"
| "status_parse_loop ((b, ws) # rows) (Some line) l =
     (case word_bit (takeWhile (\<lambda>c. c \<noteq> SP) line) ws b of
        None \<Rightarrow> Returns 0
      | Some i \<Rightarrow>
          status_parse_loop rows (if SP \<in> set line then Some (tl (dropWhile (\<lambda>c. c \<noteq> SP) line)) else None) (l OR push_bit i 1))"

definition status_parse :: "string \<Rightarrow> u32 run" where
  "status_parse line = status_parse_loop statuswords (Some line) 0"

fun flag_word :: "u32 \<Rightarrow> string list \<Rightarrow> nat \<Rightarrow> string option" where
  "flag_word flags [] b = None"
| "flag_word flags (x # xs) b = (if flags AND push_bit b 1 \<noteq> 0 then Some x else flag_word flags xs (Suc b))"

fun status_print_loop :: "u32 \<Rightarrow> (nat \<times> string list) list \<Rightarrow> string \<Rightarrow> string option" where
  "status_print_loop flags [] buf = Some buf"
| "status_print_loop flags ((b, ws) # rows) buf =
     (case flag_word flags ws b of
        None \<Rightarrow> None
      | Some w \<Rightarrow> status_print_loop flags rows (buf @ w @ (if rows = [] then [] else '' '')))"

definition status_print :: "u32 \<Rightarrow> string option" where
  "status_print flags = status_print_loop flags statuswords []"

text \<open>\<open>printf\<close> of a string with \<open>%s\<close>; the C library writes \<open>(null)\<close> for a null pointer.\<close>

definition fmt_s :: "string option \<Rightarrow> string" where
  "fmt_s s = (case s of None \<Rightarrow> ''(null)'' | Some t \<Rightarrow> t)"

subsection \<open>Streams\<close>

text \<open>A file that is open for reading: the text ahead and the end-of-file indicator.\<close>

record stream =
  ahead :: string
  eof :: bool

definition BUFSIZE :: nat where
  "BUFSIZE = 4096"

definition fopen_r :: "string \<Rightarrow> stream" where
  "fopen_r text = \<lparr>ahead = text, eof = False\<rparr>"

text \<open>
  \<open>fgets\<close> reads up to a newline or \<open>n - 1\<close> bytes; the indicator is set when the file ends
  before.
\<close>

definition stream_gets :: "nat \<Rightarrow> stream \<Rightarrow> string option \<times> stream" where
  "stream_gets n f =
     (let a = ahead f;
          line = takeWhile (\<lambda>c. c \<noteq> NL) a;
          m = (if length line < length a then Suc (length line) else length line)
      in if a = [] then (None, f\<lparr>eof := True\<rparr>)
         else (Some (take (min (n - 1) m) a),
           \<lparr>ahead = drop (min (n - 1) m) a, eof = eof f \<or> (NL \<notin> set a \<and> length a < n - 1)\<rparr>))"

lemma stream_gets_shorter_any: "stream_gets n f = (Some buf, f') \<Longrightarrow> 1 < n \<Longrightarrow> length (ahead f') < length (ahead f)"
proof -
  assume a: "stream_gets n f = (Some buf, f')" and n: "1 < n"
  then have "ahead f \<noteq> []" by (auto simp: stream_gets_def Let_def)
  moreover have "takeWhile (\<lambda>c. c \<noteq> NL) xs \<noteq> [] \<or> length (takeWhile (\<lambda>c. c \<noteq> NL) xs) < length xs" if "xs \<noteq> []" for xs :: string
    using that by (cases xs) auto
  ultimately show ?thesis using a n by (fastforce simp: stream_gets_def Let_def split: if_splits)
qed

lemma stream_gets_shorter: "stream_gets BUFSIZE f = (Some buf, f') \<Longrightarrow> length (ahead f') < length (ahead f)"
  by (erule stream_gets_shorter_any) (simp add: BUFSIZE_def)

text \<open>
  \<open>read_block\<close>: lines that begin with a space. The byte that ends the block is put back; at the
  end of the file there is none.
\<close>

function read_block :: "stream \<Rightarrow> string \<Rightarrow> string \<times> stream" where
  "read_block f lines =
     (case ahead f of
        [] \<Rightarrow> (lines, f\<lparr>eof := True\<rparr>)
      | c # rest \<Rightarrow>
          if c \<noteq> SP then (lines, f)
          else (case stream_gets BUFSIZE (f\<lparr>ahead := rest\<rparr>) of
                  (None, f') \<Rightarrow> (lines, f'\<lparr>ahead := SP # ahead f', eof := False\<rparr>)
                | (Some buf, f') \<Rightarrow> read_block f' (lines @ SP # buf)))"
  by pat_completeness auto
termination
  by (relation "measure (\<lambda>(f, lines). length (ahead f))") (auto dest!: stream_gets_shorter [OF sym])

declare read_block.simps [simp del]

subsection \<open>Control files\<close>

text \<open>\<open>strstr (buf, key) == buf\<close>, and the same without regard to case.\<close>

definition is_key :: "string \<Rightarrow> string \<Rightarrow> bool" where
  "is_key key buf \<longleftrightarrow> take (length key) buf = key"

definition is_key_nocase :: "string \<Rightarrow> string \<Rightarrow> bool" where
  "is_key_nocase key buf \<longleftrightarrow> map c_tolower (take (length key) buf) = map c_tolower key"

text \<open>
  A line of a control file, without its last byte. A translated description needs the 16 bytes
  of its key; in a shorter line the text would be what an earlier line left in the buffer.
\<close>

definition control_field :: "udpkg_config \<Rightarrow> string \<Rightarrow> stream \<Rightarrow> package_t \<Rightarrow> (package_t \<times> stream) run" where
  "control_field cfg buf f p =
     (if is_key ''Package: '' buf then Returns (p\<lparr>pt_package := Some (drop 9 buf)\<rparr>, f)
      else if is_key ''Status: '' buf then run_bind (status_parse (drop 8 buf)) (\<lambda>s. Returns (p\<lparr>pt_status := s\<rparr>, f))
      else if is_key ''Depends: '' buf then Returns (p\<lparr>pt_depends := Some (drop 9 buf)\<rparr>, f)
      else if is_key ''Provides: '' buf then Returns (p\<lparr>pt_provides := Some (drop 10 buf)\<rparr>, f)
      else if is_key ''Description: '' buf then
        (case read_block f [] of (long, f) \<Rightarrow> Returns (p\<lparr>pt_description := Some (drop 13 buf), pt_long_description := Some long\<rparr>, f))
      else if SUPPORTL10N cfg \<and> is_key ''description-'' buf then
        (if length buf < 16 then Died
         else case read_block f [] of (long, f) \<Rightarrow>
           Returns (p\<lparr>pt_localized_descriptions :=
             \<lparr>ld_language = take 2 (drop 12 buf), ld_description = drop 16 buf, ld_long_description = long\<rparr>
             # pt_localized_descriptions p\<rparr>, f))
      else if is_key_nocase ''Installer-Menu-Item: '' buf then Returns (p\<lparr>pt_installer_menu_item := atoi (drop 21 buf)\<rparr>, f)
      else if is_key_nocase ''Priority: '' buf then Returns (p\<lparr>pt_priority := Some (drop 10 buf)\<rparr>, f)
      else if is_key_nocase ''Section: '' buf then Returns (p\<lparr>pt_section := Some (drop 9 buf)\<rparr>, f)
      else if is_key_nocase ''Installed-Size: '' buf then Returns (p\<lparr>pt_installed_size := Some (drop 16 buf)\<rparr>, f)
      else if is_key_nocase ''Maintainer: '' buf then Returns (p\<lparr>pt_maintainer := Some (drop 12 buf)\<rparr>, f)
      else if is_key_nocase ''Version: '' buf then Returns (p\<lparr>pt_version := Some (drop 9 buf)\<rparr>, f)
      else if is_key_nocase ''Suggests: '' buf then Returns (p\<lparr>pt_suggests := Some (drop 10 buf)\<rparr>, f)
      else if is_key_nocase ''Recommends: '' buf then Returns (p\<lparr>pt_recommends := Some (drop 12 buf)\<rparr>, f)
      else if is_key_nocase ''Conffiles: '' buf then
        (case read_block f [] of (block, f) \<Rightarrow> Returns (p\<lparr>pt_conffiles := Some block\<rparr>, f))
      else Returns (p, f))"

lemma stream_gets_length: "stream_gets BUFSIZE f = (r, f') \<Longrightarrow> length (ahead f') \<le> length (ahead f)"
  by (auto simp: stream_gets_def Let_def split: if_splits)

lemma read_block_length: "read_block f ls = (r, f') \<Longrightarrow> length (ahead f') \<le> length (ahead f)"
proof (induction f ls arbitrary: r rule: read_block.induct)
  case (1 f ls)
  show ?case
  proof (cases "ahead f")
    case (Cons c rest)
    show ?thesis
    proof (cases "c = SP")
      case True
      show ?thesis
      proof (cases "stream_gets BUFSIZE (f\<lparr>ahead := rest\<rparr>)")
        case (Pair b g)
        have short: "length (ahead g) \<le> length rest" using stream_gets_length [OF Pair] by simp
        show ?thesis
        proof (cases b)
          case (Some x)
          have "length (ahead f') \<le> length (ahead g)"
            by (rule 1(1) [OF Cons _ Pair [symmetric] Some]) (use 1(2) Cons True Pair Some in \<open>auto simp: read_block.simps [of f ls]\<close>)
          with short Cons show ?thesis by simp
        qed (use 1 Cons True Pair short in \<open>auto simp: read_block.simps [of f ls]\<close>)
      qed
    qed (use 1 Cons in \<open>auto simp: read_block.simps [of f ls]\<close>)
  qed (use 1 in \<open>auto simp: read_block.simps [of f ls]\<close>)
qed

lemma control_field_length: "control_field cfg buf f p = Returns (p', f') \<Longrightarrow> length (ahead f') \<le> length (ahead f)"
  by (auto simp: control_field_def run_bind_Returns split: if_splits prod.splits dest: read_block_length)

lemma run_bind_cong [fundef_cong]:
  "m = m' \<Longrightarrow> (\<And>x. m' = Returns x \<Longrightarrow> g x = h x) \<Longrightarrow> run_bind m g = run_bind m' h"
  by (cases m') auto

function control_read :: "udpkg_config \<Rightarrow> stream \<Rightarrow> package_t \<Rightarrow> (package_t \<times> stream) run" where
  "control_read cfg f p =
     (case stream_gets BUFSIZE f of
        (None, f) \<Rightarrow> Returns (p, f)
      | (Some buf, f) \<Rightarrow>
          if eof f then Returns (p, f)
          else if butlast buf = [] then Returns (p, f)
          else run_bind (control_field cfg (butlast buf) f p) (\<lambda>(p, f). control_read cfg f p))"
  by pat_completeness auto
termination
proof (relation "measure (\<lambda>(cfg, f, p). length (ahead f))")
  fix cfg and f f' g g' :: stream and p q q' :: package_t and r buf x
  assume "(r, g) = stream_gets BUFSIZE f" "r = Some buf" "control_field cfg (butlast buf) g p = Returns x" "(q, f') = x"
  then have "length (ahead f') \<le> length (ahead g)" "length (ahead g) < length (ahead f)"
    using control_field_length stream_gets_shorter by metis+
  then show "((cfg, f', q), cfg, f, p) \<in> measure (\<lambda>(cfg, f, p). length (ahead f))" by simp
qed simp

declare control_read.simps [simp del]

lemma control_read_progress:
  "control_read cfg f p = Returns (p', f') \<Longrightarrow> length (ahead f') \<le> length (ahead f) \<and> (eof f' \<or> length (ahead f') < length (ahead f))"
proof (induction cfg f p rule: control_read.induct)
  case (1 cfg f p)
  show ?case
  proof (cases "stream_gets BUFSIZE f")
    case (Pair r g)
    show ?thesis
    proof (cases r)
      case None
      then have "ahead g = ahead f" "eof g" using Pair by (auto simp: stream_gets_def Let_def split: if_splits)
      then show ?thesis using 1(2) Pair None by (simp add: control_read.simps [of cfg f])
    next
      case (Some buf)
      have short: "length (ahead g) < length (ahead f)" using Pair Some stream_gets_shorter by blast
      show ?thesis
      proof (cases "eof g \<or> butlast buf = []")
        case True
        then show ?thesis using 1(2) Pair Some short by (auto simp: control_read.simps [of cfg f] split: if_splits)
      next
        case False
        then obtain q h where q: "control_field cfg (butlast buf) g p = Returns (q, h)" "control_read cfg h q = Returns (p', f')"
          using 1(2) Pair Some by (auto simp: control_read.simps [of cfg f] run_bind_Returns)
        have "length (ahead f') \<le> length (ahead h)"
          using 1(1) [OF Pair [symmetric] Some _ _ q(1) refl q(2)] False by blast
        with control_field_length [OF q(1)] short show ?thesis by simp
      qed
    qed
  qed
qed

subsection \<open>The tree of known packages\<close>

text \<open>
  The memory: objects of type \<open>package_t\<close> and the number of the next one. The tree
  compares packages by their names; none of them is a null pointer.
\<close>

record udpkg_mem =
  um_heap :: upkg_heap
  um_next :: nat

definition umalloc :: "package_t \<Rightarrow> udpkg_mem \<Rightarrow> upkg_ptr \<times> udpkg_mem" where
  "umalloc p m = (um_next m, \<lparr>um_heap = (um_heap m)(um_next m := p), um_next = Suc (um_next m)\<rparr>)"

definition pt_name :: "upkg_heap \<Rightarrow> upkg_ptr \<Rightarrow> string" where
  "pt_name h p = (case pt_package (h p) of None \<Rightarrow> [] | Some n \<Rightarrow> n)"

text \<open>A package that was read: it replaces one of its name, and what it provides is added.\<close>

definition status_insert :: "package_t \<Rightarrow> upkg_ptr list \<times> udpkg_mem \<Rightarrow> upkg_ptr list \<times> udpkg_mem" where
  "status_insert m st =
     (case st of (tree, mem) \<Rightarrow>
        if pt_package m = None then (tree, mem)
        else let (a, mem) = umalloc m mem;
                 name = pt_name (um_heap mem);
                 tree = tsearch name a (tdelete name (name a) tree)
             in if pt_provides m = None then (tree, mem)
                else let (b, mem') = umalloc (zero_pkg\<lparr>pt_package := pt_provides m\<rparr>) mem;
                         name = pt_name (um_heap mem')
                     in if tfind name (name b) tree \<noteq> None then (tree, mem)
                        else (tsearch name b tree, mem'\<lparr>um_heap := (um_heap mem')(b := (um_heap mem' b)\<lparr>pt_status := pt_status m\<rparr>)\<rparr>))"

function status_loop :: "udpkg_config \<Rightarrow> stream \<Rightarrow> upkg_ptr list \<times> udpkg_mem \<Rightarrow> (upkg_ptr list \<times> udpkg_mem) run" where
  "status_loop cfg f st =
     (if eof f then Returns st
      else run_bind (control_read cfg f zero_pkg) (\<lambda>(m, f). status_loop cfg f (status_insert m st)))"
  by pat_completeness auto
termination
proof (relation "measure (\<lambda>(cfg, f, st). length (ahead f) + (if eof f then 0 else 1))")
  fix cfg and f g :: stream and st :: "upkg_ptr list \<times> udpkg_mem" and x m
  assume "\<not> eof f" "control_read cfg f zero_pkg = Returns x" "(m, g) = x"
  then show "((cfg, g, status_insert m st), cfg, f, st) \<in> measure (\<lambda>(cfg, f, st). length (ahead f) + (if eof f then 0 else 1))"
    using control_read_progress [of cfg f zero_pkg m g] by auto
qed simp

declare status_loop.simps [simp del]

text \<open>\<open>status_read\<close>; \<open>None\<close> is a file that cannot be opened.\<close>

definition status_read :: "udpkg_config \<Rightarrow> string option \<Rightarrow> udpkg_mem \<Rightarrow> (upkg_ptr list \<times> udpkg_mem) run" where
  "status_read cfg file mem = (case file of None \<Rightarrow> Returns ([], mem) | Some text \<Rightarrow> status_loop cfg (fopen_r text) ([], mem))"

subsection \<open>Merging\<close>

text \<open>
  A walk along \<open>next\<close>. A chain that is longer than the number of objects has a cycle, and the
  loops of the program do not end on it.
\<close>

primrec walk :: "upkg_heap \<Rightarrow> nat \<Rightarrow> upkg_ptr option \<Rightarrow> upkg_ptr list run" where
  "walk h 0 p = (case p of None \<Rightarrow> Returns [] | Some _ \<Rightarrow> Hangs)"
| "walk h (Suc n) p = (case p of None \<Rightarrow> Returns [] | Some a \<Rightarrow> run_bind (walk h n (pt_next (h a))) (\<lambda>as. Returns (a # as)))"

definition pkgs_list :: "udpkg_mem \<Rightarrow> upkg_ptr option \<Rightarrow> upkg_ptr list run" where
  "pkgs_list mem p = walk (um_heap mem) (um_next mem) p"

definition line_if :: "string \<Rightarrow> string option \<Rightarrow> string" where
  "line_if key v = (case v of None \<Rightarrow> [] | Some t \<Rightarrow> key @ t @ [NL])"

definition l10n_line :: "language_description_t \<Rightarrow> string" where
  "l10n_line l = ''description-'' @ ld_language l @ '': '' @ ld_description l @ [NL] @ ld_long_description l"

text \<open>The paragraph of a package that was processed.\<close>

definition print_package :: "udpkg_config \<Rightarrow> package_t \<Rightarrow> string" where
  "print_package cfg p =
     ''Package: '' @ fmt_s (pt_package p) @ [NL] @ ''Status: '' @ fmt_s (status_print (pt_status p)) @ [NL] @
     line_if ''Priority: '' (pt_priority p) @
     line_if ''Section: '' (pt_section p) @
     (if pt_priority p \<noteq> None then ''Installed-Size: '' @ fmt_s (pt_installed_size p) @ [NL] else []) @
     line_if ''Maintainer: '' (pt_maintainer p) @
     line_if ''Source: '' (pt_source p) @
     line_if ''Version: '' (pt_version p) @
     line_if ''Pre-Depends: '' (pt_pre_depends p) @
     line_if ''Depends: '' (pt_depends p) @
     line_if ''Replaces: '' (pt_replaces p) @
     line_if ''Recommends: '' (pt_recommends p) @
     line_if ''Suggests: '' (pt_suggests p) @
     line_if ''Provides: '' (pt_provides p) @
     line_if ''Conflicts: '' (pt_conflicts p) @
     (case pt_conffiles p of None \<Rightarrow> [] | Some c \<Rightarrow> ''Conffiles:'' @ [NL] @ '' '' @ c @ [NL]) @
     (case pt_description p of None \<Rightarrow> [] | Some d \<Rightarrow> ''Description: '' @ d @ [NL] @ fmt_s (pt_long_description p)) @
     (if SUPPORTL10N cfg then concat (map l10n_line (pt_localized_descriptions p)) else []) @
     (if pt_installer_menu_item p \<noteq> 0 then ''Installer-Menu-Item: '' @ dec_int (pt_installer_menu_item p) @ [NL] else []) @
     [NL]"

text \<open>
  The loop over the old file: \<open>skip\<close> says that the paragraph belongs to a package that was
  processed, \<open>statpkg\<close> is the package of the tree with the name of the paragraph.
\<close>

function merge_loop :: "upkg_heap \<Rightarrow> upkg_ptr list \<Rightarrow> upkg_ptr list \<Rightarrow> stream \<Rightarrow> bool \<Rightarrow> upkg_ptr option \<Rightarrow> string \<Rightarrow> string" where
  "merge_loop h tree pkgs f skip statpkg out =
     (case stream_gets BUFSIZE f of
        (None, f) \<Rightarrow> out
      | (Some buf, f) \<Rightarrow>
          if eof f then out
          else let buf = butlast buf;
                   found = is_key ''Package: '' buf;
                   skip = (if found then tfind (pt_name h) (drop 9 buf) pkgs \<noteq> None else skip);
                   statpkg = (if found then tfind (pt_name h) (drop 9 buf) tree else statpkg)
               in if skip then merge_loop h tree pkgs f skip statpkg out
                  else merge_loop h tree pkgs f skip statpkg (out @
                    (case statpkg of
                       Some q \<Rightarrow> if is_key ''Status: '' buf then ''Status: '' @ fmt_s (status_print (pt_status (h q))) else buf
                     | None \<Rightarrow> buf) @ [NL]))"
  by pat_completeness auto
termination
  by (relation "measure (\<lambda>(h, tree, pkgs, f, skip, statpkg, out). length (ahead f))") (auto dest!: stream_gets_shorter [OF sym])

declare merge_loop.simps [simp del]

text \<open>The new text of the status file.\<close>

definition status_merge :: "udpkg_config \<Rightarrow> udpkg_mem \<Rightarrow> upkg_ptr list \<Rightarrow> upkg_ptr option \<Rightarrow> string \<Rightarrow> string run" where
  "status_merge cfg mem tree pkgs text =
     run_bind (pkgs_list mem pkgs) (\<lambda>ps.
       Returns (merge_loop (um_heap mem) tree ps (fopen_r text) False None [] @
         concat (map (\<lambda>p. print_package cfg (um_heap mem p)) ps)))"

end
