(* ===== verification/Udpkg_Merge.thy ===== *)
theory Udpkg_Merge
  imports Udpkg_Status
begin

text \<open>
  Theorems on the status file of udpkg: status words are read back as they were written, and a
  merge replaces exactly the paragraphs of the packages that were processed.
\<close>

section \<open>Status words\<close>

text \<open>A status with one word of each row.\<close>

definition status_of :: "nat \<Rightarrow> nat \<Rightarrow> nat \<Rightarrow> u32" where
  "status_of w f s = push_bit w 1 OR push_bit (5 + f) 1 OR push_bit (9 + s) 1"

definition valid_status :: "u32 \<Rightarrow> bool" where
  "valid_status x \<longleftrightarrow> (\<exists>w < 5. \<exists>f < 4. \<exists>s < 8. x = status_of w f s)"

lemma bit_status_of: "w < 5 \<Longrightarrow> f < 4 \<Longrightarrow> s < 8 \<Longrightarrow> bit (status_of w f s) n \<longleftrightarrow> n = w \<or> n = 5 + f \<or> n = 9 + s"
  by (auto simp: status_of_def bit_or_iff bit_exp_iff)

lemma flag_test: "b < 32 \<Longrightarrow> (x :: u32) AND push_bit b 1 \<noteq> 0 \<longleftrightarrow> bit x b"
  by (simp add: and_exp_eq_0_iff_not_bit)

lemma flag_word_nth:
  assumes "b + length ws \<le> 32" "\<And>j. j < length ws \<Longrightarrow> bit flags (b + j) \<longleftrightarrow> j = i" "i < length ws"
  shows "flag_word flags ws b = Some (ws ! i)"
  using assms
proof (induction ws arbitrary: b i)
  case (Cons w ws)
  have b: "b < 32" using Cons.prems(1) by simp
  show ?case
  proof (cases i)
    case 0
    then have "bit flags b" using Cons.prems(2) [of 0] by simp
    then show ?thesis using 0 b flag_test by simp
  next
    case (Suc k)
    have "\<not> bit flags b" using Cons.prems(2) [of 0] Suc by simp
    moreover have "flag_word flags ws (Suc b) = Some (ws ! k)"
    proof (rule Cons.IH)
      show "bit flags (Suc b + j) = (j = k)" if "j < length ws" for j using Cons.prems(2) [of "Suc j"] that Suc by simp
    qed (use Cons.prems(1,3) Suc in auto)
    ultimately show ?thesis using Suc b flag_test by simp
  qed
qed simp

lemma word_bit_nth: "distinct ws \<Longrightarrow> i < length ws \<Longrightarrow> word_bit (ws ! i) ws b = Some (b + i)"
proof (induction ws arbitrary: b i)
  case (Cons w ws)
  then show ?case by (cases i) (auto simp: nth_mem)
qed simp

text \<open>A word ends at the next space.\<close>

lemma parse_word:
  assumes "distinct ws" "i < length ws" "\<forall>w \<in> set ws. SP \<notin> set w"
  shows "status_parse_loop ((b, ws) # rows) (Some (ws ! i @ SP # r)) l = status_parse_loop rows (Some r) (l OR push_bit (b + i) 1)"
    "status_parse_loop ((b, ws) # rows) (Some (ws ! i)) l = status_parse_loop rows None (l OR push_bit (b + i) 1)"
proof -
  have w: "SP \<notin> set (ws ! i)" using assms by auto
  then have "takeWhile (\<lambda>c. c \<noteq> SP) (ws ! i @ SP # r) = ws ! i" "tl (dropWhile (\<lambda>c. c \<noteq> SP) (ws ! i @ SP # r)) = r"
    by (auto simp: dropWhile_append intro!: takeWhile_append_stop)
  then show "status_parse_loop ((b, ws) # rows) (Some (ws ! i @ SP # r)) l = status_parse_loop rows (Some r) (l OR push_bit (b + i) 1)"
    using word_bit_nth [OF assms(1,2)] by simp
  have word: "takeWhile (\<lambda>c. c \<noteq> SP) (ws ! i) = ws ! i" using w by (auto simp: takeWhile_eq_all_conv)
  show "status_parse_loop ((b, ws) # rows) (Some (ws ! i)) l = status_parse_loop rows None (l OR push_bit (b + i) 1)"
    using word_bit_nth [OF assms(1,2)] w by (simp add: word)
qed

definition want_words :: "string list" where
  "want_words = snd (statuswords ! 0)"

definition flag_words :: "string list" where
  "flag_words = snd (statuswords ! 1)"

definition state_words :: "string list" where
  "state_words = snd (statuswords ! 2)"

lemma statuswords_rows: "statuswords = [(0, want_words), (5, flag_words), (9, state_words)]"
  by (simp add: statuswords_def want_words_def flag_words_def state_words_def)

lemma rows_ok:
  "distinct want_words \<and> length want_words = 5 \<and> (\<forall>w \<in> set want_words. SP \<notin> set w)"
  "distinct flag_words \<and> length flag_words = 4 \<and> (\<forall>w \<in> set flag_words. SP \<notin> set w)"
  "distinct state_words \<and> length state_words = 8 \<and> (\<forall>w \<in> set state_words. SP \<notin> set w)"
  by code_simp+

lemma status_print_of:
  assumes "w < 5" "f < 4" "s < 8"
  shows "status_print (status_of w f s) = Some (want_words ! w @ SP # flag_words ! f @ SP # state_words ! s)"
proof -
  note b = bit_status_of [OF assms]
  have "flag_word (status_of w f s) want_words 0 = Some (want_words ! w)"
    "flag_word (status_of w f s) flag_words 5 = Some (flag_words ! f)"
    "flag_word (status_of w f s) state_words 9 = Some (state_words ! s)"
    using rows_ok assms by (auto simp: b intro!: flag_word_nth)
  then show ?thesis by (simp add: status_print_def statuswords_rows)
qed

lemma status_parse_of:
  assumes "w < 5" "f < 4" "s < 8"
  shows "status_parse (want_words ! w @ SP # flag_words ! f @ SP # state_words ! s) = Returns (status_of w f s)"
  using assms rows_ok by (simp add: status_parse_def statuswords_rows parse_word status_of_def or.assoc del: status_parse_loop.simps(2,3))

lemma status_roundtrip:
  assumes "valid_status x"
  obtains t where "status_print x = Some t" "status_parse t = Returns x" "NL \<notin> set t" "length t < 64"
proof -
  obtain w f s where x: "w < 5" "f < 4" "s < 8" "x = status_of w f s" using assms by (auto simp: valid_status_def)
  have "\<forall>v \<in> set want_words. NL \<notin> set v \<and> length v < 16" "\<forall>v \<in> set flag_words. NL \<notin> set v \<and> length v < 16"
    "\<forall>v \<in> set state_words. NL \<notin> set v \<and> length v < 20" by code_simp+
  then have "NL \<notin> set (want_words ! w @ SP # flag_words ! f @ SP # state_words ! s) \<and>
      length (want_words ! w @ SP # flag_words ! f @ SP # state_words ! s) < 64"
    using x(1-3) rows_ok nth_mem [of w want_words] nth_mem [of f flag_words] nth_mem [of s state_words] by fastforce
  then show ?thesis using status_print_of [OF x(1-3)] status_parse_of [OF x(1-3)] x(4) that by blast
qed

section \<open>Lines\<close>

definition join_lines :: "string list \<Rightarrow> string" where
  "join_lines ls = concat (map (\<lambda>l. l @ [NL]) ls)"

lemma join_lines_simps [simp]:
  "join_lines [] = []" "join_lines (l # ls) = l @ NL # join_lines ls" "join_lines (ls @ ks) = join_lines ls @ join_lines ks"
  by (simp_all add: join_lines_def)

text \<open>A line that fits into the buffer together with its newline.\<close>

definition short_line :: "string \<Rightarrow> bool" where
  "short_line l \<longleftrightarrow> NL \<notin> set l \<and> length l < BUFSIZE - 1"

abbreviation at :: "string \<Rightarrow> stream" where
  "at text \<equiv> \<lparr>ahead = text, eof = False\<rparr>"

lemma gets_line_any:
  assumes "NL \<notin> set l" "length l < n - 1"
  shows "stream_gets n (at (l @ NL # r)) = (Some (l @ [NL]), at r)"
proof -
  have "takeWhile (\<lambda>c. c \<noteq> NL) (l @ NL # r) = l" by (intro takeWhile_append_stop) (use assms(1) in auto)
  moreover have "min (n - 1) (Suc (length l)) = Suc (length l)" using assms(2) by simp
  ultimately show ?thesis by (simp add: stream_gets_def Let_def)
qed

lemma gets_line: "short_line l \<Longrightarrow> stream_gets BUFSIZE (at (l @ NL # r)) = (Some (l @ [NL]), at r)"
  by (rule gets_line_any) (simp_all add: short_line_def)

lemma gets_end: "stream_gets BUFSIZE (at []) = (None, \<lparr>ahead = [], eof = True\<rparr>)"
  by (simp add: stream_gets_def)

section \<open>Merging paragraphs\<close>

text \<open>
  A paragraph: the name of the package and the lines after the first, the empty line at the end
  included.
\<close>

type_synonym stanza = "string \<times> string list"

definition stanza_lines :: "stanza \<Rightarrow> string list" where
  "stanza_lines st = (''Package: '' @ fst st) # snd st"

definition status_text :: "stanza list \<Rightarrow> string" where
  "status_text sts = join_lines (concat (map stanza_lines sts))"

definition stanza_ok :: "stanza \<Rightarrow> bool" where
  "stanza_ok st \<longleftrightarrow> (\<forall>l \<in> set (stanza_lines st). short_line l) \<and> (\<forall>l \<in> set (snd st). \<not> is_key ''Package: '' l)"

text \<open>The line that a merge writes for a line of a package \<open>q\<close> of the tree.\<close>

definition merged_line :: "upkg_heap \<Rightarrow> upkg_ptr option \<Rightarrow> string \<Rightarrow> string" where
  "merged_line h q l = (case q of
     Some p \<Rightarrow> if is_key ''Status: '' l then ''Status: '' @ fmt_s (status_print (pt_status (h p))) else l
   | None \<Rightarrow> l)"

definition merged_stanza :: "upkg_heap \<Rightarrow> upkg_ptr list \<Rightarrow> stanza \<Rightarrow> stanza" where
  "merged_stanza h tree st = (fst st, map (merged_line h (tfind (pt_name h) (fst st) tree)) (snd st))"

lemma merge_line:
  assumes "short_line l" "\<not> is_key ''Package: '' l"
  shows "merge_loop h tree pkgs (at (l @ NL # r)) skip q out =
    merge_loop h tree pkgs (at r) skip q (if skip then out else out @ merged_line h q l @ [NL])"
  using assms by (subst merge_loop.simps) (simp add: gets_line merged_line_def split: option.split)

lemma merge_body:
  assumes "\<forall>l \<in> set ls. short_line l" "\<forall>l \<in> set ls. \<not> is_key ''Package: '' l"
  shows "merge_loop h tree pkgs (at (join_lines ls @ r)) skip q out =
    merge_loop h tree pkgs (at r) skip q (if skip then out else out @ join_lines (map (merged_line h q) ls))"
  using assms by (induction ls arbitrary: out) (auto simp: merge_line)

lemma merge_stanza:
  assumes "stanza_ok st"
  shows "merge_loop h tree pkgs (at (join_lines (stanza_lines st) @ r)) skip q out =
    merge_loop h tree pkgs (at r) (fst st \<in> pt_name h ` set pkgs) (tfind (pt_name h) (fst st) tree)
      (if fst st \<in> pt_name h ` set pkgs then out else out @ join_lines (stanza_lines (merged_stanza h tree st)))"
proof -
  let ?first = "''Package: '' @ fst st"
  have first: "is_key ''Package: '' ?first" "\<not> is_key ''Status: '' ?first" "drop 9 ?first = fst st" by (simp_all add: is_key_def)
  have ok: "short_line ?first" "\<forall>l \<in> set (snd st). short_line l" "\<forall>l \<in> set (snd st). \<not> is_key ''Package: '' l"
    using assms by (auto simp: stanza_ok_def stanza_lines_def)
  have "merge_loop h tree pkgs (at (?first @ NL # join_lines (snd st) @ r)) skip q out =
      merge_loop h tree pkgs (at (join_lines (snd st) @ r)) (fst st \<in> pt_name h ` set pkgs) (tfind (pt_name h) (fst st) tree)
        (if fst st \<in> pt_name h ` set pkgs then out else out @ ?first @ [NL])"
    using first by (subst merge_loop.simps) (simp add: gets_line [OF ok(1), unfolded append_Cons append_Nil] tfind_None Let_def split: option.split)
  then show ?thesis by (simp add: merge_body [OF ok(2,3)] stanza_lines_def merged_stanza_def)
qed

lemma merge_stanzas:
  assumes "\<forall>st \<in> set sts. stanza_ok st"
  shows "merge_loop h tree pkgs (at (status_text sts)) skip q out =
    out @ status_text (map (merged_stanza h tree) (filter (\<lambda>st. fst st \<notin> pt_name h ` set pkgs) sts))"
  using assms
proof (induction sts arbitrary: skip q out)
  case Nil
  then show ?case by (subst merge_loop.simps) (simp add: status_text_def gets_end)
next
  case (Cons st sts)
  then show ?case by (simp add: status_text_def merge_stanza)
qed

text \<open>
  Merging replaces the paragraphs of the packages that were processed by new ones at
  the end, writes the current status of every other known package into its paragraph, and keeps
  all other lines.
\<close>

theorem status_merge_replaces:
  assumes "\<forall>st \<in> set sts. stanza_ok st" "pkgs_list mem pkgs = Returns ps"
  shows "status_merge cfg mem tree pkgs (status_text sts) = Returns (
    status_text (map (merged_stanza (um_heap mem) tree) (filter (\<lambda>st. fst st \<notin> pt_name (um_heap mem) ` set ps) sts)) @
    concat (map (\<lambda>p. print_package cfg (um_heap mem p)) ps))"
  using assms(2) merge_stanzas [OF assms(1)] by (simp add: status_merge_def fopen_r_def)

section \<open>Reading paragraphs\<close>

definition indented :: "string \<Rightarrow> bool" where
  "indented l \<longleftrightarrow> l \<noteq> [] \<and> hd l = SP"

lemma read_block_lines:
  assumes "\<forall>l \<in> set ls. short_line l"
  shows "read_block (at (join_lines ls @ NL # r)) acc =
    (acc @ join_lines (takeWhile indented ls), at (join_lines (dropWhile indented ls) @ NL # r))"
  using assms
proof (induction ls arbitrary: acc)
  case Nil
  then show ?case by (simp add: read_block.simps)
next
  case (Cons l ls)
  show ?case
  proof (cases "indented l")
    case True
    then obtain k where l: "l = SP # k" by (cases l) (auto simp: indented_def)
    then have "short_line k" using Cons.prems by (auto simp: short_line_def)
    then have "read_block (at (join_lines (l # ls) @ NL # r)) acc = read_block (at (join_lines ls @ NL # r)) (acc @ SP # k @ [NL])"
      by (subst read_block.simps) (simp add: l gets_line)
    then show ?thesis using Cons True l by simp
  next
    case False
    then show ?thesis by (subst read_block.simps) (cases l; simp add: indented_def)
  qed
qed

text \<open>Lines on which the reader does not die, and that have the status \<open>x\<close> if they have any.\<close>

definition status_line_ok :: "udpkg_config \<Rightarrow> u32 \<Rightarrow> string \<Rightarrow> bool" where
  "status_line_ok cfg x l \<longleftrightarrow> short_line l \<and> (is_key ''Status: '' l \<longrightarrow> status_parse (drop 8 l) = Returns x) \<and>
     (SUPPORTL10N cfg \<longrightarrow> is_key ''description-'' l \<longrightarrow> 16 \<le> length l)"

lemma key_clash: "is_key ''Package: '' l \<Longrightarrow> \<not> is_key ''Status: '' l" "indented l \<Longrightarrow> \<not> is_key ''Status: '' l \<and> \<not> is_key ''Package: '' l"
  by (cases l; auto simp: is_key_def indented_def)+

text \<open>What a line leaves of the stream: all lines, or those after an indented block.\<close>

definition reads_to :: "string option \<Rightarrow> u32 \<Rightarrow> string list \<Rightarrow> string \<Rightarrow> (package_t \<times> stream) run \<Rightarrow> bool" where
  "reads_to n x ls r m \<longleftrightarrow> (\<exists>p' ls'. m = Returns (p', at (join_lines ls' @ NL # r)) \<and> (ls' = ls \<or> ls' = dropWhile indented ls) \<and>
     pt_package p' = n \<and> pt_status p' = x)"

lemma reads_to_if: "(b \<Longrightarrow> reads_to n x ls r m1) \<Longrightarrow> (\<not> b \<Longrightarrow> reads_to n x ls r m2) \<Longrightarrow> reads_to n x ls r (if b then m1 else m2)"
  by simp

lemma reads_to_Returns:
  "pt_package p' = n \<Longrightarrow> pt_status p' = x \<Longrightarrow> reads_to n x ls r (Returns (p', at (join_lines ls @ NL # r)))"
  "pt_package p' = n \<Longrightarrow> pt_status p' = x \<Longrightarrow> reads_to n x ls r (Returns (p', at (join_lines (dropWhile indented ls) @ NL # r)))"
  unfolding reads_to_def by blast+

lemma control_field_effect:
  assumes "status_line_ok cfg x l" "\<forall>k \<in> set ls. short_line k"
  shows "reads_to (if is_key ''Package: '' l then Some (drop 9 l) else pt_package p) (if is_key ''Status: '' l then x else pt_status p)
    ls r (control_field cfg l (at (join_lines ls @ NL # r)) p)"
proof (cases "is_key ''Package: '' l \<or> is_key ''Status: '' l")
  case True
  then show ?thesis
    using assms(1) key_clash [of l] reads_to_Returns(1) unfolding control_field_def status_line_ok_def by auto
next
  case False
  then have l10n: "\<not> (SUPPORTL10N cfg \<and> is_key ''description-'' l \<and> length l < 16)" using assms(1) by (auto simp: status_line_ok_def)
  have "reads_to (pt_package p) (pt_status p) ls r (control_field cfg l (at (join_lines ls @ NL # r)) p)"
    unfolding control_field_def read_block_lines [OF assms(2)] prod.case append_Nil
    by (intro reads_to_if reads_to_Returns) (use False l10n in simp_all)
  with False show ?thesis by simp
qed

lemma dropWhile_suffix: "ls' = ls \<or> ls' = dropWhile P ls \<Longrightarrow> set ls' \<subseteq> set ls \<and> length ls' \<le> length ls"
  by (auto simp: length_dropWhile_le dest: set_dropWhileD)

lemma dropWhile_status: "(\<exists>k \<in> set (dropWhile indented ks). is_key ''Status: '' k) = (\<exists>k \<in> set ks. is_key ''Status: '' k)"
  by (induction ks) (auto dest: key_clash(2))

text \<open>
  A paragraph is read up to its empty line, and the package has the name and the status of its
  lines.
\<close>

lemma control_read_lines:
  assumes "\<forall>l \<in> set ls. status_line_ok cfg x l \<and> l \<noteq> [] \<and> \<not> is_key ''Package: '' l"
  shows "\<exists>q. control_read cfg (at (join_lines ls @ NL # r)) p = Returns (q, at r) \<and> pt_package q = pt_package p \<and>
    pt_status q = (if \<exists>l \<in> set ls. is_key ''Status: '' l then x else pt_status p)"
  using assms
proof (induction "length ls" arbitrary: ls p rule: less_induct)
  case less
  show ?case
  proof (cases ls)
    case Nil
    then show ?thesis using gets_line [of "[]" r] by (subst control_read.simps) (simp add: short_line_def BUFSIZE_def)
  next
    case (Cons l ks)
    have l: "status_line_ok cfg x l" "l \<noteq> []" "\<not> is_key ''Package: '' l" "short_line l" "\<forall>k \<in> set ks. short_line k"
      using less.prems Cons by (auto simp: status_line_ok_def)
    obtain p' ls' where f: "control_field cfg l (at (join_lines ks @ NL # r)) p = Returns (p', at (join_lines ls' @ NL # r))"
      "ls' = ks \<or> ls' = dropWhile indented ks" "pt_package p' = pt_package p"
      "pt_status p' = (if is_key ''Status: '' l then x else pt_status p)"
      using control_field_effect [OF l(1,5), of p r] l(3) unfolding reads_to_def by auto
    note sub = dropWhile_suffix [OF f(2)]
    obtain q where q: "control_read cfg (at (join_lines ls' @ NL # r)) p' = Returns (q, at r)" "pt_package q = pt_package p'"
      "pt_status q = (if \<exists>l \<in> set ls'. is_key ''Status: '' l then x else pt_status p')"
      using less.hyps [of ls' p'] sub less.prems Cons by fastforce
    have "control_read cfg (at (join_lines ls @ NL # r)) p = control_read cfg (at (join_lines ls' @ NL # r)) p'"
      using l(2) f(1) gets_line [OF l(4)] Cons by (subst control_read.simps) simp
    moreover have "(\<exists>k \<in> set ls'. is_key ''Status: '' k) = (\<exists>k \<in> set ks. is_key ''Status: '' k)"
      using f(2) dropWhile_status by auto
    ultimately show ?thesis using q f(3,4) Cons by auto
  qed
qed

definition readable :: "udpkg_config \<Rightarrow> u32 \<Rightarrow> stanza \<Rightarrow> bool" where
  "readable cfg x st \<longleftrightarrow> short_line (''Package: '' @ fst st) \<and> (\<exists>ls. snd st = ls @ [[]] \<and>
     (\<forall>l \<in> set ls. status_line_ok cfg x l \<and> l \<noteq> [] \<and> \<not> is_key ''Package: '' l) \<and> (\<exists>l \<in> set ls. is_key ''Status: '' l))"

lemma control_read_stanza:
  assumes "readable cfg x st"
  shows "\<exists>q. control_read cfg (at (join_lines (stanza_lines st) @ r)) p = Returns (q, at r) \<and> pt_package q = Some (fst st) \<and> pt_status q = x"
proof -
  let ?first = "''Package: '' @ fst st"
  obtain ls where ls: "snd st = ls @ [[]]" "\<forall>l \<in> set ls. status_line_ok cfg x l \<and> l \<noteq> [] \<and> \<not> is_key ''Package: '' l"
    "\<exists>l \<in> set ls. is_key ''Status: '' l" and first: "short_line ?first"
    using assms by (auto simp: readable_def)
  have "control_field cfg ?first f p = Returns (p\<lparr>pt_package := Some (fst st)\<rparr>, f)" for f
    by (simp add: control_field_def is_key_def)
  moreover have "butlast (?first @ [NL]) \<noteq> []" "butlast (?first @ [NL]) = ?first" by (simp_all only: butlast_snoc) simp
  ultimately have "control_read cfg (at (?first @ NL # join_lines ls @ NL # r)) p =
      control_read cfg (at (join_lines ls @ NL # r)) (p\<lparr>pt_package := Some (fst st)\<rparr>)"
    by (subst control_read.simps) (simp only: gets_line [OF first] prod.case option.case stream.simps if_False run_bind.simps)
  with control_read_lines [OF ls(2), of r "p\<lparr>pt_package := Some (fst st)\<rparr>"] show ?thesis
    using ls(1,3) by (auto simp: stanza_lines_def)
qed

section \<open>The tree\<close>

definition upkg_tree_ok :: "upkg_ptr list \<times> udpkg_mem \<Rightarrow> bool" where
  "upkg_tree_ok st \<longleftrightarrow> ordered (pt_name (um_heap (snd st))) (fst st) \<and> (\<forall>q \<in> set (fst st). q < um_next (snd st))"

text \<open>The status of the package of a name.\<close>

definition known_status :: "upkg_ptr list \<times> udpkg_mem \<Rightarrow> string \<Rightarrow> u32 option" where
  "known_status st n = map_option (\<lambda>q. pt_status (um_heap (snd st) q)) (tfind (pt_name (um_heap (snd st))) n (fst st))"

text \<open>Objects outside of the tree do not matter.\<close>

lemma tree_frame:
  assumes "\<forall>q \<in> set tree. h q = g q"
  shows "tfind (pt_name h) n tree = tfind (pt_name g) n tree" "ordered (pt_name h) tree = ordered (pt_name g) tree"
    "map_option (\<lambda>q. pt_status (h q)) (tfind (pt_name h) n tree) = map_option (\<lambda>q. pt_status (g q)) (tfind (pt_name g) n tree)"
proof -
  have name: "\<forall>q \<in> set tree. pt_name h q = pt_name g q" using assms by (simp add: pt_name_def)
  show find: "tfind (pt_name h) n tree = tfind (pt_name g) n tree" unfolding tfind_def using name by (intro find_cong) auto
  show "ordered (pt_name h) tree = ordered (pt_name g) tree"
    unfolding ordered_def using name by (intro iffI; elim sorted_wrt_mono_rel [rotated]) auto
  show "map_option (\<lambda>q. pt_status (h q)) (tfind (pt_name h) n tree) = map_option (\<lambda>q. pt_status (g q)) (tfind (pt_name g) n tree)"
    unfolding find using assms by (cases "tfind (pt_name g) n tree") (auto dest: tfind_Some)
qed

text \<open>A new object in place of what the tree has under its name.\<close>

lemma tree_replace:
  assumes "upkg_tree_ok (tree, mem)" "pt_package m = Some n"
  defines "mem' \<equiv> \<lparr>um_heap = (um_heap mem)(um_next mem := m), um_next = Suc (um_next mem)\<rparr>"
  defines "name \<equiv> pt_name (um_heap mem')"
  defines "tree' \<equiv> tsearch name (um_next mem) (tdelete name n tree)"
  shows "upkg_tree_ok (tree', mem')" "known_status (tree', mem') k = (if k = n then Some (pt_status m) else known_status (tree, mem) k)"
proof -
  have same: "\<forall>q \<in> set tree. um_heap mem' q = um_heap mem q" using assms(1) by (auto simp: mem'_def upkg_tree_ok_def)
  have n: "name (um_next mem) = n" using assms(2) by (simp add: name_def mem'_def pt_name_def)
  have new: "um_heap mem' (um_next mem) = m" by (simp add: mem'_def)
  have o: "ordered name tree" using assms(1) tree_frame(2) [OF same] by (simp add: name_def upkg_tree_ok_def)
  have set: "set tree' \<subseteq> insert (um_next mem) (set tree)" using replace_set [of name "um_next mem" tree] by (auto simp: tree'_def n)
  have "ordered name tree'" using replace_ordered [OF o, of "um_next mem"] by (simp add: tree'_def n)
  then show "upkg_tree_ok (tree', mem')" using set assms(1) by (auto simp: upkg_tree_ok_def name_def mem'_def less_Suc_eq)
  have "tfind name k tree' = (if k = n then Some (um_next mem) else tfind name k tree)"
    using replace_tfind [OF o, of k "um_next mem"] by (simp add: tree'_def n)
  then show "known_status (tree', mem') k = (if k = n then Some (pt_status m) else known_status (tree, mem) k)"
    using tree_frame(3) [OF same, of k] tree_frame(1) [OF same, of k] new by (simp add: known_status_def name_def)
qed

text \<open>A package and what it provides; a name that is known already keeps its status.\<close>

lemma status_insert_known:
  assumes "upkg_tree_ok st" "pt_package m = Some n"
  shows "upkg_tree_ok (status_insert m st)"
    "known_status (status_insert m st) k = (if k = n then Some (pt_status m)
       else if pt_provides m = Some k \<and> known_status st k = None then Some (pt_status m) else known_status st k)"
proof -
  obtain tree mem where st: "st = (tree, mem)" by force
  define mem1 where "mem1 = \<lparr>um_heap = (um_heap mem)(um_next mem := m), um_next = Suc (um_next mem)\<rparr>"
  define tree1 where "tree1 = tsearch (pt_name (um_heap mem1)) (um_next mem) (tdelete (pt_name (um_heap mem1)) n tree)"
  have one: "upkg_tree_ok (tree1, mem1)" "known_status (tree1, mem1) k = (if k = n then Some (pt_status m) else known_status st k)" for k
    using tree_replace [OF assms(1) [unfolded st] assms(2)] by (simp_all add: tree1_def mem1_def st)
  have n: "pt_name (um_heap mem1) (um_next mem) = n" using assms(2) by (simp add: mem1_def pt_name_def)
  have "upkg_tree_ok (status_insert m st) \<and> known_status (status_insert m st) k = (if k = n then Some (pt_status m)
       else if pt_provides m = Some k \<and> known_status st k = None then Some (pt_status m) else known_status st k)" for k
  proof (cases "pt_provides m")
    case None
    then have "status_insert m st = (tree1, mem1)"
      using assms(2) n by (simp add: status_insert_def st umalloc_def tree1_def mem1_def Let_def)
    with one None show ?thesis by simp
  next
    case (Some v)
    define b where "b = um_next mem1"
    define h where "h = (um_heap mem1)(b := zero_pkg\<lparr>pt_package := Some v\<rparr>)"
    have same: "\<forall>q \<in> set tree1. h q = um_heap mem1 q" using one(1) by (auto simp: h_def b_def upkg_tree_ok_def)
    have v: "pt_name h b = v" by (simp add: h_def pt_name_def)
    have ins: "status_insert m st = (if tfind (pt_name h) v tree1 \<noteq> None then (tree1, mem1)
        else (tsearch (pt_name h) b tree1, \<lparr>um_heap = h(b := (h b)\<lparr>pt_status := pt_status m\<rparr>), um_next = Suc b\<rparr>))"
      using assms(2) n Some v by (simp add: status_insert_def st umalloc_def tree1_def mem1_def Let_def b_def h_def)
    show ?thesis
    proof (cases "known_status (tree1, mem1) v")
      case None
      then have new: "tfind (pt_name h) v tree1 = None" using tree_frame(1) [OF same] by (simp add: known_status_def)
      define z where "z = zero_pkg\<lparr>pt_package := Some v, pt_status := pt_status m\<rparr>"
      have z: "h(b := (h b)\<lparr>pt_status := pt_status m\<rparr>) = (um_heap mem1)(b := z)" by (simp add: h_def z_def)
      have "pt_name ((um_heap mem1)(b := z)) = pt_name h" by (auto simp: pt_name_def h_def z_def fun_eq_iff)
      moreover have "tdelete (pt_name h) v tree1 = tree1" using new by (auto simp: tdelete_def tfind_None filter_id_conv)
      ultimately have "status_insert m st = (tsearch (pt_name ((um_heap mem1)(b := z))) b (tdelete (pt_name ((um_heap mem1)(b := z))) v tree1),
          \<lparr>um_heap = (um_heap mem1)(b := z), um_next = Suc b\<rparr>)" using ins new z by simp
      with tree_replace [OF one(1), of z v] one(2) None Some show ?thesis by (auto simp: z_def b_def)
    next
      case (Some y)
      then have "status_insert m st = (tree1, mem1)" using ins tree_frame(1) [OF same] by (auto simp: known_status_def)
      with one Some \<open>pt_provides m = Some v\<close> show ?thesis by (auto split: if_splits)
    qed
  qed
  then show "upkg_tree_ok (status_insert m st)" "known_status (status_insert m st) k = (if k = n then Some (pt_status m)
       else if pt_provides m = Some k \<and> known_status st k = None then Some (pt_status m) else known_status st k)" by blast+
qed

lemma status_loop_stanza:
  assumes "readable cfg x st" "upkg_tree_ok t"
  obtains t' where "status_loop cfg (at (join_lines (stanza_lines st) @ r)) t = status_loop cfg (at r) t'" "upkg_tree_ok t'"
    "known_status t' (fst st) = Some x" "\<And>k y. k \<noteq> fst st \<Longrightarrow> known_status t k = Some y \<Longrightarrow> known_status t' k = Some y"
proof -
  obtain q where q: "control_read cfg (at (join_lines (stanza_lines st) @ r)) zero_pkg = Returns (q, at r)"
    "pt_package q = Some (fst st)" "pt_status q = x"
    using control_read_stanza [OF assms(1)] by blast
  have "status_loop cfg (at (join_lines (stanza_lines st) @ r)) t = status_loop cfg (at r) (status_insert q t)"
    by (subst status_loop.simps) (simp add: q(1))
  from that [OF this] status_insert_known [OF assms(2) q(2)] q(3) show thesis by auto
qed

lemma status_loop_stanzas:
  assumes "\<forall>st \<in> set sts. readable cfg (x st) st" "distinct (map fst sts)" "upkg_tree_ok t"
  obtains t' where "status_loop cfg (at (status_text sts)) t = Returns t'" "upkg_tree_ok t'"
    "\<forall>st \<in> set sts. known_status t' (fst st) = Some (x st)"
    "\<And>k y. k \<notin> fst ` set sts \<Longrightarrow> known_status t k = Some y \<Longrightarrow> known_status t' k = Some y"
  using assms
proof (induction sts arbitrary: t thesis)
  case Nil
  have "status_insert zero_pkg t = t" by (simp add: status_insert_def zero_pkg_def split: prod.split)
  then have "status_loop cfg (at []) t = status_loop cfg \<lparr>ahead = [], eof = True\<rparr> t"
    by (subst status_loop.simps, subst control_read.simps) (simp add: gets_end)
  also have "\<dots> = Returns t" by (subst status_loop.simps) simp
  finally have "status_loop cfg (at (status_text [])) t = Returns t" by (simp add: status_text_def)
  then show ?case by (rule Nil.prems(1)) (use Nil.prems(4) in simp_all)
next
  case (Cons st sts)
  obtain u where u: "status_loop cfg (at (join_lines (stanza_lines st) @ status_text sts)) t = status_loop cfg (at (status_text sts)) u"
    "upkg_tree_ok u" "known_status u (fst st) = Some (x st)" "\<And>k y. k \<noteq> fst st \<Longrightarrow> known_status t k = Some y \<Longrightarrow> known_status u k = Some y"
    using status_loop_stanza [of cfg "x st" st t] Cons.prems by auto
  obtain t' where t': "status_loop cfg (at (status_text sts)) u = Returns t'" "upkg_tree_ok t'"
    "\<forall>st \<in> set sts. known_status t' (fst st) = Some (x st)"
    "\<And>k y. k \<notin> fst ` set sts \<Longrightarrow> known_status u k = Some y \<Longrightarrow> known_status t' k = Some y"
    using Cons.IH [of u] Cons.prems u(2) by auto
  show ?case
  proof (rule Cons.prems(1))
    show "status_loop cfg (at (status_text (st # sts))) t = Returns t'" using u(1) t'(1) by (simp add: status_text_def)
    show "\<forall>st' \<in> set (st # sts). known_status t' (fst st') = Some (x st')" using t'(3,4) u(3) Cons.prems(3) by auto
    show "known_status t' k = Some y" if "k \<notin> fst ` set (st # sts)" "known_status t k = Some y" for k y using that u(4) t'(4) by simp
  qed (rule t'(2))
qed

section \<open>Printed packages\<close>

text \<open>A text made of lines that the reader takes.\<close>

definition chunk :: "udpkg_config \<Rightarrow> u32 \<Rightarrow> string \<Rightarrow> bool" where
  "chunk cfg x t \<longleftrightarrow> (\<exists>ls. t = join_lines ls \<and> (\<forall>l \<in> set ls. status_line_ok cfg x l \<and> l \<noteq> [] \<and> \<not> is_key ''Package: '' l))"

named_theorems chunk_intros \<open>texts made of lines that the reader takes\<close>

lemma chunk_Nil [chunk_intros]: "chunk cfg x []"
  unfolding chunk_def by (rule exI [of _ "[]"]) simp

lemma chunk_append [chunk_intros]: "chunk cfg x a \<Longrightarrow> chunk cfg x b \<Longrightarrow> chunk cfg x (a @ b)"
proof -
  assume "chunk cfg x a" "chunk cfg x b"
  then obtain ls ks where l: "a = join_lines ls" "b = join_lines ks" "\<forall>l \<in> set (ls @ ks). status_line_ok cfg x l \<and> l \<noteq> [] \<and> \<not> is_key ''Package: '' l"
    unfolding chunk_def by fastforce
  then have "a @ b = join_lines (ls @ ks)" by simp
  with l(3) show ?thesis unfolding chunk_def by blast
qed

lemma chunk_concat [chunk_intros]: "(\<And>t. t \<in> set ts \<Longrightarrow> chunk cfg x t) \<Longrightarrow> chunk cfg x (concat ts)"
  by (induction ts) (auto intro: chunk_intros)

lemma chunk_line: "status_line_ok cfg x l \<Longrightarrow> l \<noteq> [] \<Longrightarrow> \<not> is_key ''Package: '' l \<Longrightarrow> chunk cfg x (l @ [NL])"
  unfolding chunk_def by (rule exI [of _ "[l]"]) simp

lemma chunk_if [chunk_intros]: "(b \<Longrightarrow> chunk cfg x t) \<Longrightarrow> (\<not> b \<Longrightarrow> chunk cfg x u) \<Longrightarrow> chunk cfg x (if b then t else u)"
  by simp

text \<open>An indented block.\<close>

definition block :: "string \<Rightarrow> bool" where
  "block t \<longleftrightarrow> (\<exists>ls. t = join_lines ls \<and> (\<forall>l \<in> set ls. indented l \<and> short_line l))"

lemma chunk_block: "block t \<Longrightarrow> chunk cfg x t"
proof -
  assume "block t"
  then obtain ls where ls: "t = join_lines ls" "\<forall>l \<in> set ls. indented l \<and> short_line l" by (auto simp: block_def)
  have "\<not> is_key ''description-'' l" "l \<noteq> []" if "indented l" for l using that by (cases l; auto simp: indented_def is_key_def)+
  then show ?thesis unfolding chunk_def using ls key_clash(2) by (intro exI [of _ ls]) (auto simp: status_line_ok_def)
qed

definition field_keys :: "string list" where
  "field_keys = [''Priority: '', ''Section: '', ''Installed-Size: '', ''Maintainer: '', ''Source: '', ''Version: '', ''Pre-Depends: '',
     ''Depends: '', ''Replaces: '', ''Recommends: '', ''Suggests: '', ''Provides: '', ''Conflicts: '', ''Description: '',
     ''Installer-Menu-Item: '']"

lemma chunk_field: "k \<in> set field_keys \<Longrightarrow> short_line (k @ t) \<Longrightarrow> chunk cfg x (k @ t @ [NL])"
proof -
  assume k: "k \<in> set field_keys" "short_line (k @ t)"
  then have "\<not> is_key ''Package: '' (k @ t) \<and> \<not> is_key ''Status: '' (k @ t) \<and> \<not> is_key ''description-'' (k @ t) \<and> k \<noteq> []"
    unfolding field_keys_def by (auto simp: is_key_def)
  with k(2) have "chunk cfg x ((k @ t) @ [NL])" by (intro chunk_line) (auto simp: status_line_ok_def)
  then show ?thesis by simp
qed

definition field_ok :: "string \<Rightarrow> string option \<Rightarrow> bool" where
  "field_ok k v \<longleftrightarrow> (\<forall>t. v = Some t \<longrightarrow> short_line (k @ t))"

lemma chunk_line_if: "k \<in> set field_keys \<Longrightarrow> field_ok k v \<Longrightarrow> chunk cfg x (line_if k v)"
  by (auto simp: line_if_def field_ok_def intro: chunk_field chunk_intros split: option.split)

definition l10n_ok :: "language_description_t \<Rightarrow> bool" where
  "l10n_ok l \<longleftrightarrow> length (ld_language l) = 2 \<and> short_line (''description-'' @ ld_language l @ '': '' @ ld_description l) \<and>
     block (ld_long_description l)"

lemma chunk_l10n: "l10n_ok l \<Longrightarrow> chunk cfg x (l10n_line l)"
proof -
  assume l: "l10n_ok l"
  let ?first = "''description-'' @ ld_language l @ '': '' @ ld_description l"
  have "chunk cfg x (?first @ [NL])"
    using l by (intro chunk_line) (auto simp: l10n_ok_def status_line_ok_def is_key_def)
  moreover have "chunk cfg x (ld_long_description l)" using l by (simp add: l10n_ok_def chunk_block)
  ultimately have "chunk cfg x ((?first @ [NL]) @ ld_long_description l)" by (rule chunk_append)
  then show ?thesis by (simp add: l10n_line_def)
qed

lemma dec_nat_length: "n < 10 ^ Suc k \<Longrightarrow> length (dec_nat n) \<le> Suc k"
proof (induction k arbitrary: n)
  case (Suc k)
  then have "length (dec_nat (n div 10)) \<le> Suc k" by (intro Suc.IH) (simp add: div_less_iff_less_mult)
  then show ?case by (subst dec_nat.simps) simp
qed (subst dec_nat.simps, simp)

lemma chunk_item: "- (2 ^ 31) \<le> z \<Longrightarrow> z < 2 ^ 31 \<Longrightarrow> chunk cfg x (''Installer-Menu-Item: '' @ dec_int z @ [NL])"
proof (rule chunk_field)
  assume z: "- (2 ^ 31) \<le> z" "z < 2 ^ 31"
  have "length (dec_nat n) \<le> 10" if "n \<le> 2 ^ 31" for n using that by (intro dec_nat_length [where k = 9, simplified]) simp
  moreover have "nat z \<le> 2 ^ 31" "nat (- z) \<le> 2 ^ 31" using z by auto
  ultimately have "length (dec_nat (nat z)) \<le> 10" "length (dec_nat (nat (- z))) \<le> 10" by blast+
  then have "length (dec_int z) \<le> 11" by (simp add: dec_int_def)
  moreover have "NL \<notin> set (dec_nat n)" for n using dec_nat_digits [of n] by (auto simp: c_isdigit_def)
  ultimately show "short_line (''Installer-Menu-Item: '' @ dec_int z)" by (simp add: short_line_def dec_int_def BUFSIZE_def)
qed (simp add: field_keys_def)

text \<open>Packages whose paragraph can be read back. A list of configuration files cannot, see below.\<close>

definition printable :: "udpkg_config \<Rightarrow> package_t \<Rightarrow> bool" where
  "printable cfg p \<longleftrightarrow> (\<exists>n. pt_package p = Some n \<and> short_line (''Package: '' @ n)) \<and> valid_status (pt_status p) \<and>
     field_ok ''Priority: '' (pt_priority p) \<and> field_ok ''Section: '' (pt_section p) \<and>
     field_ok ''Installed-Size: '' (Some (fmt_s (pt_installed_size p))) \<and> field_ok ''Maintainer: '' (pt_maintainer p) \<and>
     field_ok ''Source: '' (pt_source p) \<and> field_ok ''Version: '' (pt_version p) \<and> field_ok ''Pre-Depends: '' (pt_pre_depends p) \<and>
     field_ok ''Depends: '' (pt_depends p) \<and> field_ok ''Replaces: '' (pt_replaces p) \<and> field_ok ''Recommends: '' (pt_recommends p) \<and>
     field_ok ''Suggests: '' (pt_suggests p) \<and> field_ok ''Provides: '' (pt_provides p) \<and> field_ok ''Conflicts: '' (pt_conflicts p) \<and>
     pt_conffiles p = None \<and> field_ok ''Description: '' (pt_description p) \<and>
     (pt_description p \<noteq> None \<longrightarrow> block (fmt_s (pt_long_description p))) \<and>
     (SUPPORTL10N cfg \<longrightarrow> (\<forall>l \<in> set (pt_localized_descriptions p). l10n_ok l)) \<and>
     - (2 ^ 31) \<le> pt_installer_menu_item p \<and> pt_installer_menu_item p < 2 ^ 31"

lemma chunk_status:
  assumes "valid_status x"
  shows "\<exists>l. ''Status: '' @ fmt_s (status_print x) = l \<and> status_line_ok cfg x l \<and> is_key ''Status: '' l \<and> \<not> is_key ''Package: '' l \<and> l \<noteq> []"
proof -
  obtain t where t: "status_print x = Some t" "status_parse t = Returns x" "NL \<notin> set t" "length t < 64"
    using status_roundtrip [OF assms] .
  then show ?thesis by (simp add: fmt_s_def status_line_ok_def short_line_def is_key_def BUFSIZE_def)
qed

lemma print_package_stanza:
  assumes "printable cfg (h q)"
  shows "\<exists>body. print_package cfg (h q) = join_lines (stanza_lines (pt_name h q, body)) \<and> readable cfg (pt_status (h q)) (pt_name h q, body)"
proof -
  let ?p = "h q"
  let ?status = "''Status: '' @ fmt_s (status_print (pt_status ?p))"
  note p = assms [unfolded printable_def]
  define size_line where "size_line = (if pt_priority ?p \<noteq> None then ''Installed-Size: '' @ fmt_s (pt_installed_size ?p) @ [NL] else [])"
  define desc_part where "desc_part =
    (if pt_description ?p \<noteq> None then line_if ''Description: '' (pt_description ?p) @ fmt_s (pt_long_description ?p) else [])"
  define trans_part where "trans_part = (if SUPPORTL10N cfg then concat (map l10n_line (pt_localized_descriptions ?p)) else [])"
  define item where "item = (if pt_installer_menu_item ?p \<noteq> 0 then ''Installer-Menu-Item: '' @ dec_int (pt_installer_menu_item ?p) @ [NL] else [])"
  define rest where "rest = line_if ''Priority: '' (pt_priority ?p) @ line_if ''Section: '' (pt_section ?p) @ size_line @
    line_if ''Maintainer: '' (pt_maintainer ?p) @ line_if ''Source: '' (pt_source ?p) @ line_if ''Version: '' (pt_version ?p) @
    line_if ''Pre-Depends: '' (pt_pre_depends ?p) @ line_if ''Depends: '' (pt_depends ?p) @ line_if ''Replaces: '' (pt_replaces ?p) @
    line_if ''Recommends: '' (pt_recommends ?p) @ line_if ''Suggests: '' (pt_suggests ?p) @ line_if ''Provides: '' (pt_provides ?p) @
    line_if ''Conflicts: '' (pt_conflicts ?p) @ desc_part @ trans_part @ item"
  have keys: "set field_keys = {''Priority: '', ''Section: '', ''Installed-Size: '', ''Maintainer: '', ''Source: '', ''Version: '',
     ''Pre-Depends: '', ''Depends: '', ''Replaces: '', ''Recommends: '', ''Suggests: '', ''Provides: '', ''Conflicts: '',
     ''Description: '', ''Installer-Menu-Item: ''}" by (simp add: field_keys_def)
  have "short_line (''Installed-Size: '' @ fmt_s (pt_installed_size ?p))" using p by (simp only: field_ok_def option.inject)
  then have "chunk cfg (pt_status ?p) (''Installed-Size: '' @ fmt_s (pt_installed_size ?p) @ [NL])" by (intro chunk_field) (simp only: keys insert_iff simp_thms)
  then have 1: "chunk cfg (pt_status ?p) size_line" by (simp add: size_line_def chunk_Nil)
  have 2: "chunk cfg (pt_status ?p) desc_part" unfolding desc_part_def
    by (intro chunk_if chunk_append chunk_Nil chunk_line_if chunk_block) (simp_all only: keys p insert_iff simp_thms not_True_eq_False)
  have 3: "chunk cfg (pt_status ?p) trans_part" unfolding trans_part_def using p by (intro chunk_if chunk_concat chunk_Nil) (auto intro: chunk_l10n)
  have 4: "chunk cfg (pt_status ?p) item" unfolding item_def using p by (intro chunk_if chunk_item chunk_Nil) simp_all
  have "chunk cfg (pt_status ?p) rest" unfolding rest_def
    by (intro chunk_append chunk_line_if 1 2 3 4) (simp_all only: keys p insert_iff simp_thms)
  then obtain ks where ks: "rest = join_lines ks" "\<forall>l \<in> set ks. status_line_ok cfg (pt_status ?p) l \<and> l \<noteq> [] \<and> \<not> is_key ''Package: '' l"
    by (auto simp: chunk_def)
  obtain l where l: "?status = l" "status_line_ok cfg (pt_status ?p) l" "is_key ''Status: '' l" "\<not> is_key ''Package: '' l" "l \<noteq> []"
    using chunk_status p by blast
  have "print_package cfg ?p = ''Package: '' @ pt_name h q @ [NL] @ l @ [NL] @ rest @ [NL]"
    using p unfolding l(1) [symmetric] rest_def size_line_def desc_part_def trans_part_def item_def
    by (auto simp: print_package_def pt_name_def fmt_s_def [of "Some _"] line_if_def [of "''Description: ''"] split: option.split)
  then have "print_package cfg ?p = join_lines (stanza_lines (pt_name h q, l # ks @ [[]]))"
    by (simp add: stanza_lines_def ks(1))
  moreover have "readable cfg (pt_status ?p) (pt_name h q, l # ks @ [[]])"
    using p l ks(2) unfolding readable_def by (auto simp: pt_name_def intro!: exI [of _ "l # ks"])
  ultimately show ?thesis by blast
qed

lemma merged_readable:
  assumes "readable cfg y st" "known_status (tree, mem) (fst st) = Some x" "valid_status x"
  shows "readable cfg x (merged_stanza (um_heap mem) tree st)"
proof -
  obtain q where q: "tfind (pt_name (um_heap mem)) (fst st) tree = Some q" "pt_status (um_heap mem q) = x"
    using assms(2) by (auto simp: known_status_def)
  obtain ls where ls: "snd st = ls @ [[]]" "\<forall>l \<in> set ls. status_line_ok cfg y l \<and> l \<noteq> [] \<and> \<not> is_key ''Package: '' l"
    "\<exists>l \<in> set ls. is_key ''Status: '' l" "short_line (''Package: '' @ fst st)"
    using assms(1) by (auto simp: readable_def)
  let ?m = "merged_line (um_heap mem) (Some q)"
  have "status_line_ok cfg x (?m l) \<and> ?m l \<noteq> [] \<and> \<not> is_key ''Package: '' (?m l) \<and> is_key ''Status: '' (?m l) = is_key ''Status: '' l"
    if "l \<in> set ls" for l
    using ls(2) that chunk_status [OF assms(3), of cfg] q(2) by (auto simp: merged_line_def status_line_ok_def)
  moreover have "?m [] = []" by (simp add: merged_line_def is_key_def)
  ultimately show ?thesis
    using ls q(1) unfolding readable_def merged_stanza_def by (auto intro!: exI [of _ "map ?m ls"])
qed

lemma readable_ok: "readable cfg x st \<Longrightarrow> stanza_ok st"
  by (auto simp: readable_def stanza_ok_def stanza_lines_def status_line_ok_def is_key_def short_line_def BUFSIZE_def)

text \<open>The new file, read again.\<close>

lemma merge_then_read:
  assumes old: "\<forall>st \<in> set sts. \<exists>y. readable cfg y st" "distinct (map fst sts)"
    and pkgs: "pkgs_list mem pkgs = Returns ps" "\<forall>p \<in> set ps. printable cfg (um_heap mem p)" "distinct (map (pt_name (um_heap mem)) ps)"
    and tree: "\<forall>st \<in> set sts. fst st \<notin> pt_name (um_heap mem) ` set ps \<longrightarrow>
      (\<exists>x. known_status (tree, mem) (fst st) = Some x \<and> valid_status x)"
  shows "\<exists>text t. status_merge cfg mem tree pkgs (status_text sts) = Returns text \<and> status_read cfg (Some text) mem' = Returns t \<and>
    (\<forall>p \<in> set ps. known_status t (pt_name (um_heap mem) p) = Some (pt_status (um_heap mem p))) \<and>
    (\<forall>st \<in> set sts. fst st \<notin> pt_name (um_heap mem) ` set ps \<longrightarrow> known_status t (fst st) = known_status (tree, mem) (fst st))"
proof -
  let ?h = "um_heap mem" and ?old = "filter (\<lambda>st. fst st \<notin> pt_name (um_heap mem) ` set ps) sts"
  have "\<forall>p \<in> set ps. \<exists>body. print_package cfg (?h p) = join_lines (stanza_lines (pt_name ?h p, body)) \<and>
      readable cfg (pt_status (?h p)) (pt_name ?h p, body)" using pkgs(2) print_package_stanza by blast
  from bchoice [OF this] obtain body where body:
    "\<forall>p \<in> set ps. print_package cfg (?h p) = join_lines (stanza_lines (pt_name ?h p, body p)) \<and>
       readable cfg (pt_status (?h p)) (pt_name ?h p, body p)" by blast
  define new where "new = map (merged_stanza ?h tree) ?old @ map (\<lambda>p. (pt_name ?h p, body p)) ps"
  define x where "x st = (case tfind (pt_name ?h) (fst st) ps of Some p \<Rightarrow> pt_status (?h p) | None \<Rightarrow> the (known_status (tree, mem) (fst st)))" for st :: stanza
  have xp: "x (pt_name ?h p, b) = pt_status (?h p)" if "p \<in> set ps" for p b
  proof -
    have "tfind (pt_name ?h) (pt_name ?h p) ps \<noteq> None" using that by (auto simp: tfind_None)
    then obtain r where r: "tfind (pt_name ?h) (pt_name ?h p) ps = Some r" by blast
    then have "r = p" using tfind_Some [OF r] that pkgs(3) by (auto simp: distinct_map dest: inj_onD)
    with r show ?thesis by (simp add: x_def)
  qed
  have xo: "known_status (tree, mem) (fst st) = Some (x st') \<and> valid_status (x st')" if "st \<in> set ?old" "fst st' = fst st" for st st'
    using that tree tfind_None [of "pt_name ?h" "fst st" ps] by (fastforce simp: x_def)
  have stanza: "readable cfg (x st) st" if st: "st \<in> set new" for st
  proof -
    consider st' where "st' \<in> set ?old" "st = merged_stanza ?h tree st'" | p where "p \<in> set ps" "st = (pt_name ?h p, body p)"
      using st by (auto simp: new_def)
    then show ?thesis
    proof cases
      case 1
      then have "fst st = fst st'" by (simp add: merged_stanza_def)
      with 1 xo [OF 1(1), of st] old(1) show ?thesis by (auto intro: merged_readable)
    qed (use body xp in auto)
  qed
  have d: "distinct (map fst new)"
    using old(2) pkgs(3) by (auto simp: new_def merged_stanza_def comp_def distinct_map_filter)
  have t0: "upkg_tree_ok ([], mem')" by (simp add: upkg_tree_ok_def ordered_def)
  obtain t where t: "status_loop cfg (at (status_text new)) ([], mem') = Returns t"
    "\<forall>st \<in> set new. known_status t (fst st) = Some (x st)"
    by (rule status_loop_stanzas [OF _ d t0]) (use stanza in \<open>auto intro: that\<close>)
  have ok: "\<forall>st \<in> set sts. stanza_ok st" using old(1) readable_ok by blast
  have "status_merge cfg mem tree pkgs (status_text sts) = Returns (status_text (map (merged_stanza ?h tree) ?old) @
      concat (map (\<lambda>p. print_package cfg (?h p)) ps))"
    using merge_stanzas [of sts ?h tree ps False None "[]"] pkgs(1) ok by (simp add: status_merge_def fopen_r_def)
  also have "concat (map (\<lambda>p. print_package cfg (?h p)) ps) = status_text (map (\<lambda>p. (pt_name ?h p, body p)) ps)"
    using body by (induction ps) (auto simp: status_text_def)
  finally have "status_merge cfg mem tree pkgs (status_text sts) = Returns (status_text new)" by (simp add: new_def status_text_def)
  moreover have "known_status t (pt_name ?h p) = Some (pt_status (?h p))" if "p \<in> set ps" for p
  proof -
    have "(pt_name ?h p, body p) \<in> set new" using that by (simp add: new_def)
    from bspec [OF t(2) this] show ?thesis using xp [OF that] by simp
  qed
  moreover have "known_status t (fst st) = known_status (tree, mem) (fst st)"
    if "st \<in> set sts" "fst st \<notin> pt_name ?h ` set ps" for st
  proof -
    have "merged_stanza ?h tree st \<in> set new" using that by (simp add: new_def)
    from bspec [OF t(2) this] show ?thesis using that xo [of st "merged_stanza ?h tree st"] by (simp add: merged_stanza_def)
  qed
  moreover have "status_read cfg (Some (status_text new)) mem' = Returns t" using t(1) by (simp add: status_read_def fopen_r_def)
  ultimately show ?thesis by blast
qed

text \<open>
  Property C10: what udpkg writes it reads back. After a merge the new file gives every package that
  was processed its new status, and every other package of the file the status it has in the tree.
\<close>

theorem merged_status_persists:
  assumes old: "\<forall>st \<in> set sts. \<exists>y. readable cfg y st" "distinct (map fst sts)"
    and pkgs: "pkgs_list mem pkgs = Returns ps" "\<forall>p \<in> set ps. printable cfg (um_heap mem p)" "distinct (map (pt_name (um_heap mem)) ps)"
    and tree: "\<forall>st \<in> set sts. fst st \<notin> pt_name (um_heap mem) ` set ps \<longrightarrow>
      (\<exists>x. known_status (tree, mem) (fst st) = Some x \<and> valid_status x)"
  shows "\<exists>text t. status_merge cfg mem tree pkgs (status_text sts) = Returns text \<and> status_read cfg (Some text) mem' = Returns t \<and>
    (\<forall>p \<in> set ps. known_status t (pt_name (um_heap mem) p) = Some (pt_status (um_heap mem p))) \<and>
    (\<forall>st \<in> set sts. fst st \<notin> pt_name (um_heap mem) ` set ps \<longrightarrow> known_status t (fst st) = known_status (tree, mem) (fst st))"
  by (rule merge_then_read [OF assms])

text \<open>Two packages in the file, of which the second is processed.\<close>

definition debian_config :: udpkg_config where
  "debian_config = \<lparr>DODEPENDS = False, DOLOADTEMPLATE = True, SUPPORTL10N = False, DOREMOVE = False\<rparr>"

definition example_stanzas :: "stanza list" where
  "example_stanzas = [(''a'', [''Status: install ok unpacked'', []]), (''b'', [''Status: install ok unpacked'', ''Version: 1'', []])]"

definition example_mem :: udpkg_mem where
  "example_mem = \<lparr>um_heap = (\<lambda>_. zero_pkg)(0 := zero_pkg\<lparr>pt_package := Some ''a'', pt_status := status_of 1 0 3\<rparr>,
     1 := zero_pkg\<lparr>pt_package := Some ''b'', pt_status := status_of 1 0 1\<rparr>), um_next = 2\<rparr>"

lemma example_status: "valid_status (status_of 1 0 3)" "valid_status (status_of 1 0 1)"
  unfolding valid_status_def by force+

lemma example_readable: "st \<in> set example_stanzas \<Longrightarrow> readable debian_config (status_of 1 0 1) st"
proof -
  have "status_parse ''install ok unpacked'' = Returns (status_of 1 0 1)" by code_simp
  then have "readable debian_config (status_of 1 0 1) (''a'', [''Status: install ok unpacked''] @ [[]])"
    "readable debian_config (status_of 1 0 1) (''b'', [''Status: install ok unpacked'', ''Version: 1''] @ [[]])"
    unfolding readable_def by (auto simp: status_line_ok_def short_line_def is_key_def BUFSIZE_def debian_config_def)
  then show "st \<in> set example_stanzas \<Longrightarrow> readable debian_config (status_of 1 0 1) st" by (auto simp: example_stanzas_def)
qed

theorem merged_status_persists_witness:
  "\<exists>text t. status_merge debian_config example_mem [0] (Some 1) (status_text example_stanzas) = Returns text \<and>
     status_read debian_config (Some text) example_mem = Returns t \<and>
     known_status t ''a'' = Some (status_of 1 0 3) \<and> known_status t ''b'' = Some (status_of 1 0 1)"
proof -
  have "pkgs_list example_mem (Some 1) = Returns [1]"
    by (simp add: pkgs_list_def example_mem_def zero_pkg_def numeral_2_eq_2)
  moreover have "printable debian_config (um_heap example_mem 1)"
    using example_status by (simp add: printable_def field_ok_def example_mem_def zero_pkg_def debian_config_def short_line_def BUFSIZE_def fmt_s_def)
  moreover have names: "pt_name (um_heap example_mem) 1 = ''b''" "known_status ([0], example_mem) ''a'' = Some (status_of 1 0 3)"
    by (simp_all add: example_mem_def pt_name_def known_status_def tfind_def zero_pkg_def)
  moreover have "\<forall>st \<in> set example_stanzas. fst st \<notin> {''b''} \<longrightarrow> (\<exists>x. known_status ([0], example_mem) (fst st) = Some x \<and> valid_status x)"
    using names(2) example_status by (auto simp: example_stanzas_def)
  moreover have st1: "distinct (map fst example_stanzas)" "pt_status (um_heap example_mem 1) = status_of 1 0 1"
    by (simp_all add: example_stanzas_def example_mem_def)
  have a: "(''a'', [''Status: install ok unpacked'', []]) \<in> set example_stanzas" by (simp add: example_stanzas_def)
  moreover have "\<forall>st \<in> set example_stanzas. \<exists>y. readable debian_config y st" using example_readable by blast
  ultimately obtain out t where
    t: "status_merge debian_config example_mem [0] (Some 1) (status_text example_stanzas) = Returns out"
    "status_read debian_config (Some out) example_mem = Returns t"
    "\<forall>p \<in> set [1]. known_status t (pt_name (um_heap example_mem) p) = Some (pt_status (um_heap example_mem p))"
    "\<forall>st \<in> set example_stanzas. fst st \<notin> pt_name (um_heap example_mem) ` set [1] \<longrightarrow>
       known_status t (fst st) = known_status ([0], example_mem) (fst st)"
    using merged_status_persists [of example_stanzas debian_config example_mem "Some 1" "[1]" "[0]" example_mem] st1(1) by auto
  have "known_status t ''a'' = known_status ([0], example_mem) ''a''" using bspec [OF t(4) a] names(1) by simp
  moreover have "known_status t ''b'' = Some (status_of 1 0 1)" using t(3) names(1) st1(2) by simp
  ultimately show ?thesis using t(1,2) names(2) by (intro exI conjI) (assumption | simp)+
qed

theorem status_merge_replaces_witness:
  "status_merge debian_config example_mem [0] None (status_text example_stanzas) =
     Returns (status_text (map (merged_stanza (um_heap example_mem) [0]) example_stanzas))"
proof -
  have "pkgs_list example_mem None = Returns []" by (simp add: pkgs_list_def example_mem_def numeral_2_eq_2)
  moreover have "\<forall>st \<in> set example_stanzas. stanza_ok st" using example_readable readable_ok by blast
  ultimately show ?thesis using status_merge_replaces [of example_stanzas example_mem None "[]"] by simp
qed

text \<open>
  The list of configuration files is written with an empty line after it, which ends the
  paragraph: what follows it is not read as part of the package.
\<close>

lemma conffiles_end_paragraph:
  "(case control_read debian_config (fopen_r (print_package debian_config
      (zero_pkg\<lparr>pt_package := Some ''a'', pt_status := status_of 1 0 1, pt_conffiles := Some (SP # ''f'' @ [NL]), pt_installer_menu_item := 7\<rparr>)))
      zero_pkg of Returns (q, f) \<Rightarrow> pt_installer_menu_item q | _ \<Rightarrow> 7) = 0"
  by code_simp

text \<open>A status line with fewer than three words is read through a null pointer.\<close>

lemma short_status_dies: "status_parse ''install ok'' = Died" "status_parse ''install'' = Died"
  by code_simp+

end
