(* ===== verification/Udpkg_Depends.thy ===== *)
theory Udpkg_Depends
  imports Udpkg_Status
begin

text \<open>
  The dependencies of packages that \<^verbatim>\<open>udpkg -i\<close> installs (\<^verbatim>\<open>udpkg/depends.c\<close>). The links of the
  list of packages are in the heap, because the sort changes them while it walks along the list.
\<close>

section \<open>Definitions\<close>

definition DEPENDSMAX :: nat where
  "DEPENDSMAX = 64"

definition COLOR_WHITE :: nat where
  "COLOR_WHITE = 0"

definition COLOR_GRAY :: nat where
  "COLOR_GRAY = 1"

definition COLOR_BLACK :: nat where
  "COLOR_BLACK = 2"

text \<open>
  \<open>depends_split\<close>: \<open>vec\<close> are the entries before the current one, \<open>cur\<close> is the current one as
  far as it has been read, \<open>grows\<close> says that no byte of it has been replaced by NUL yet.
\<close>

fun split_loop :: "string \<Rightarrow> string option list \<Rightarrow> string option \<Rightarrow> bool \<Rightarrow> string option list" where
  "split_loop [] vec cur grows = vec @ [cur]"
| "split_loop (c # s) vec cur grows =
     (if c = NL then vec @ [cur]
      else if c = SP then split_loop s vec cur False
      else if c = CHR '','' then split_loop s (vec @ [cur]) None False
      else case cur of
             None \<Rightarrow> split_loop s vec (Some [c]) True
           | Some t \<Rightarrow> split_loop s vec (Some (if grows then t @ [c] else t)) grows)"

text \<open>
  The entries up to the first that is null. An entry past the array, the one that ends it
  included, is an error.
\<close>

definition depends_split :: "string option \<Rightarrow> string list run" where
  "depends_split s =
     (case s of
        None \<Rightarrow> Returns []
      | Some t \<Rightarrow>
          let vec = split_loop t [] None False
          in if length vec < DEPENDSMAX then Returns (map the (takeWhile (\<lambda>d. d \<noteq> None) vec)) else Died)"

unbundle bit_operations_syntax

definition dep_installed :: "upkg_heap \<Rightarrow> upkg_ptr list \<Rightarrow> string \<Rightarrow> bool" where
  "dep_installed h tree d =
     (case tfind (pt_name h) d tree of
        None \<Rightarrow> False
      | Some q \<Rightarrow> pt_status (h q) AND (STATUS_FLAGOK OR STATUS_STATUSINSTALLED) = STATUS_FLAGOK OR STATUS_STATUSINSTALLED)"

text \<open>\<open>strncmp\<close> with the length of the dependency: what is provided may be longer.\<close>

definition satisfies :: "upkg_heap \<Rightarrow> string \<Rightarrow> upkg_ptr \<Rightarrow> bool" where
  "satisfies h d chk \<longleftrightarrow> pt_name h chk = d \<or> (case pt_provides (h chk) of None \<Rightarrow> False | Some v \<Rightarrow> take (length d) v = d)"

definition require :: "upkg_ptr \<Rightarrow> upkg_ptr \<Rightarrow> upkg_heap \<Rightarrow> upkg_heap" where
  "require chk pkg h = (if chk \<noteq> pkg then h(chk := (h chk)\<lparr>pt_requiredfor := pt_requiredfor (h chk) @ [pkg]\<rparr>) else h)"

text \<open>The loop over the dependencies of a package; \<open>Inl\<close> when one cannot be met.\<close>

fun resolve_deps :: "upkg_ptr list \<Rightarrow> upkg_ptr list \<Rightarrow> upkg_ptr \<Rightarrow> string list \<Rightarrow> upkg_heap \<Rightarrow> upkg_heap + upkg_heap" where
  "resolve_deps tree pkgs pkg [] h = Inr h"
| "resolve_deps tree pkgs pkg (d # ds) h =
     (if dep_installed h tree d then resolve_deps tree pkgs pkg ds h
      else case find (satisfies h d) pkgs of
             None \<Rightarrow> Inl h
           | Some chk \<Rightarrow>
               if length (pt_requiredfor (h chk)) \<ge> DEPENDSMAX then Inl h
               else resolve_deps tree pkgs pkg ds (require chk pkg h))"

fun resolve_loop :: "upkg_ptr list \<Rightarrow> upkg_ptr list \<Rightarrow> upkg_ptr list \<Rightarrow> upkg_heap \<Rightarrow> (upkg_heap + upkg_heap) run" where
  "resolve_loop tree pkgs [] h = Returns (Inr h)"
| "resolve_loop tree pkgs (p # ps) h =
     run_bind (depends_split (pt_depends (h p))) (\<lambda>ds.
       case resolve_deps tree pkgs p ds h of Inl h \<Rightarrow> Returns (Inl h) | Inr h \<Rightarrow> resolve_loop tree pkgs ps h)"

text \<open>The sort. A state is the heap and the list \<open>ordered\<close>.\<close>

fun visit_loop :: "(upkg_ptr \<Rightarrow> upkg_heap \<times> upkg_ptr option \<Rightarrow> (upkg_heap \<times> upkg_ptr option) run) \<Rightarrow> upkg_ptr list \<Rightarrow>
    upkg_heap \<times> upkg_ptr option \<Rightarrow> (upkg_heap \<times> upkg_ptr option) run" where
  "visit_loop rec [] st = Returns st"
| "visit_loop rec (q # qs) st =
     run_bind (if pt_color (fst st q) = COLOR_WHITE then rec q st else Returns st) (visit_loop rec qs)"

primrec depends_sort_visit :: "nat \<Rightarrow> upkg_ptr \<Rightarrow> upkg_heap \<times> upkg_ptr option \<Rightarrow> (upkg_heap \<times> upkg_ptr option) run" where
  "depends_sort_visit 0 p st = Hangs"
| "depends_sort_visit (Suc n) p st =
     (let h = (fst st)(p := (fst st p)\<lparr>pt_color := COLOR_GRAY\<rparr>)
      in run_bind (visit_loop (depends_sort_visit n) (pt_requiredfor (h p)) (h, snd st)) (\<lambda>(h, ordered).
           Returns (h(p := (h p)\<lparr>pt_next := ordered, pt_color := COLOR_BLACK\<rparr>), Some p)))"

definition color_white :: "upkg_ptr list \<Rightarrow> upkg_heap \<Rightarrow> upkg_heap" where
  "color_white ps h = fold (\<lambda>p h. h(p := (h p)\<lparr>pt_color := COLOR_WHITE\<rparr>)) ps h"

text \<open>The second loop goes on with the link that the visit has changed.\<close>

primrec sort_loop :: "nat \<Rightarrow> nat \<Rightarrow> upkg_ptr option \<Rightarrow> upkg_heap \<times> upkg_ptr option \<Rightarrow> (upkg_heap \<times> upkg_ptr option) run" where
  "sort_loop fuel 0 pkg st = (case pkg of None \<Rightarrow> Returns st | Some _ \<Rightarrow> Hangs)"
| "sort_loop fuel (Suc n) pkg st =
     (case pkg of
        None \<Rightarrow> Returns st
      | Some p \<Rightarrow>
          run_bind (if pt_color (fst st p) = COLOR_WHITE then depends_sort_visit fuel p st else Returns st) (\<lambda>st.
            sort_loop fuel n (pt_next (fst st p)) st))"

text \<open>
  As many levels and as many steps as there are objects are enough, which the theorem on the
  sort proves.
\<close>

definition depends_sort :: "udpkg_mem \<Rightarrow> upkg_ptr option \<Rightarrow> (upkg_ptr option \<times> udpkg_mem) run" where
  "depends_sort mem pkgs =
     run_bind (pkgs_list mem pkgs) (\<lambda>ps.
     run_bind (sort_loop (um_next mem) (um_next mem) pkgs (color_white ps (um_heap mem), None)) (\<lambda>(h, ordered).
       Returns (ordered, mem\<lparr>um_heap := h\<rparr>)))"

text \<open>\<open>None\<close> also is the result when a dependency cannot be met.\<close>

definition depends_resolve :: "udpkg_mem \<Rightarrow> upkg_ptr option \<Rightarrow> upkg_ptr list \<Rightarrow> (upkg_ptr option \<times> udpkg_mem) run" where
  "depends_resolve mem pkgs tree =
     run_bind (pkgs_list mem pkgs) (\<lambda>ps.
     run_bind (resolve_loop tree ps ps (um_heap mem)) (\<lambda>r.
       case r of Inl h \<Rightarrow> Returns (None, mem\<lparr>um_heap := h\<rparr>) | Inr h \<Rightarrow> depends_sort (mem\<lparr>um_heap := h\<rparr>) pkgs))"

section \<open>The sort\<close>

text \<open>A list of packages that is linked by \<open>next\<close>.\<close>

fun linked :: "upkg_heap \<Rightarrow> upkg_ptr option \<Rightarrow> upkg_ptr list \<Rightarrow> bool" where
  "linked h p [] \<longleftrightarrow> p = None"
| "linked h p (a # as) \<longleftrightarrow> p = Some a \<and> linked h (pt_next (h a)) as"

lemma linked_frame: "\<forall>x \<in> set as. pt_next (h x) = pt_next (g x) \<Longrightarrow> linked h p as = linked g p as"
  by (induction as arbitrary: p) auto

text \<open>Every package comes before those that require it.\<close>

fun in_topo_order :: "(upkg_ptr \<times> upkg_ptr) set \<Rightarrow> upkg_ptr list \<Rightarrow> bool" where
  "in_topo_order E [] \<longleftrightarrow> True"
| "in_topo_order E (p # ps) \<longleftrightarrow> E `` {p} \<subseteq> set ps \<and> in_topo_order E ps"

definition required :: "upkg_heap \<Rightarrow> (upkg_ptr \<times> upkg_ptr) set" where
  "required h = {(p, q). q \<in> set (pt_requiredfor (h p))}"

definition white :: "upkg_heap \<Rightarrow> upkg_ptr set" where
  "white h = {p. pt_color (h p) = COLOR_WHITE}"

definition gray :: "upkg_heap \<Rightarrow> upkg_ptr set" where
  "gray h = {p. pt_color (h p) = COLOR_GRAY}"

text \<open>
  What visiting \<open>N\<close> does to a heap: the packages of \<open>N\<close> were white and are black now, nothing
  else changes, and their successors are not white any more.
\<close>

definition visits :: "upkg_heap \<Rightarrow> upkg_heap \<Rightarrow> upkg_ptr list \<Rightarrow> bool" where
  "visits h h' N \<longleftrightarrow> distinct N \<and> set N \<subseteq> white h \<and> (\<forall>x. x \<notin> set N \<longrightarrow> h' x = h x) \<and>
     (\<forall>x \<in> set N. pt_color (h' x) = COLOR_BLACK) \<and> (\<forall>x. pt_requiredfor (h' x) = pt_requiredfor (h x)) \<and>
     (\<forall>x \<in> set N. set (pt_requiredfor (h x)) \<inter> white h' = {})"

lemmas colors = COLOR_WHITE_def COLOR_GRAY_def COLOR_BLACK_def

lemma visits_color: "visits h h' N \<Longrightarrow> pt_color (h' x) = (if x \<in> set N then COLOR_BLACK else pt_color (h x))"
  by (simp add: visits_def)

lemma visits_white: "visits h h' N \<Longrightarrow> white h' = white h - set N"
  by (auto simp: white_def visits_color) (simp add: colors)+

lemma visits_gray: "visits h h' N \<Longrightarrow> gray h' = gray h"
proof -
  assume v: "visits h h' N"
  then have "set N \<subseteq> white h" by (simp add: visits_def)
  then show ?thesis by (auto simp: gray_def white_def visits_color [OF v] colors)
qed

lemma visits_required: "visits h h' N \<Longrightarrow> required h' = required h"
  by (simp add: visits_def required_def)

lemma visits_Nil: "visits h h []"
  by (simp add: visits_def)

lemma visits_trans:
  assumes "visits h g M" "visits g h' N"
  shows "visits h h' (N @ M)"
proof -
  have w: "white g = white h - set M" "white h' = white g - set N" using assms visits_white by blast+
  have "distinct (N @ M)" "set (N @ M) \<subseteq> white h" using assms w(1) by (auto simp: visits_def)
  moreover have "\<forall>x \<in> set (N @ M). set (pt_requiredfor (h x)) \<inter> white h' = {}"
    using assms w by (auto simp: visits_def)
  moreover have "\<forall>x. x \<notin> set (N @ M) \<longrightarrow> h' x = h x" using assms by (simp add: visits_def)
  moreover have "\<forall>x. pt_requiredfor (h' x) = pt_requiredfor (h x)" using assms by (simp add: visits_def)
  moreover have "\<forall>x \<in> set (N @ M). pt_color (h' x) = COLOR_BLACK" using visits_color [OF assms(1)] visits_color [OF assms(2)] by auto
  ultimately show ?thesis by (simp only: visits_def simp_thms)
qed

lemma visits_linked:
  assumes "visits h h' N" "linked h p L" "set L \<inter> white h = {}"
  shows "linked h' p L"
proof -
  have "\<forall>x \<in> set L. h' x = h x" using assms(1,3) by (auto simp: visits_def)
  then show ?thesis using assms(2) linked_frame [of L h' h] by simp
qed

text \<open>
  The state between two visits: the packages of the list are black, and there are no other black
  ones. \<open>E\<close> are the edges and \<open>V\<close> a set of packages that they do not leave.
\<close>

definition state_ok :: "(upkg_ptr \<times> upkg_ptr) set \<Rightarrow> upkg_ptr set \<Rightarrow> upkg_heap \<times> upkg_ptr option \<Rightarrow> upkg_ptr list \<Rightarrow> bool" where
  "state_ok E V st L \<longleftrightarrow> linked (fst st) (snd st) L \<and> (\<forall>x \<in> set L. pt_color (fst st x) = COLOR_BLACK) \<and> required (fst st) = E \<and>
     V \<subseteq> white (fst st) \<union> gray (fst st) \<union> set L"

text \<open>
  The effect of visits that start at \<open>R\<close>: \<open>N\<close> goes in front of the list. It is in order if edges go
  up in \<open>rank\<close> and the packages that are being visited have lower ranks.
\<close>

definition below :: "(upkg_ptr \<Rightarrow> nat) \<Rightarrow> upkg_ptr set \<Rightarrow> upkg_heap \<Rightarrow> upkg_ptr set \<Rightarrow> bool" where
  "below rank V h R \<longleftrightarrow> (\<forall>g \<in> gray h \<inter> V. \<forall>q \<in> R. rank g < rank q)"

definition visited_to ::
  "(upkg_ptr \<Rightarrow> nat) \<Rightarrow> upkg_ptr set \<Rightarrow> upkg_heap \<times> upkg_ptr option \<Rightarrow> upkg_ptr list \<Rightarrow> upkg_ptr set \<Rightarrow> upkg_heap \<times> upkg_ptr option \<Rightarrow> upkg_ptr list \<Rightarrow> bool" where
  "visited_to rank V st L R st' N \<longleftrightarrow> visits (fst st) (fst st') N \<and> linked (fst st') (snd st') (N @ L) \<and> set N \<subseteq> V \<and>
     set N \<subseteq> (required (fst st))\<^sup>* `` R \<and>
     ((\<forall>(a, b) \<in> required (fst st). rank a < rank b) \<longrightarrow> below rank V (fst st) R \<longrightarrow> in_topo_order (required (fst st)) L \<longrightarrow>
        in_topo_order (required (fst st)) (N @ L))"

lemma visited_to_ok: "visited_to rank V st L R st' N \<Longrightarrow> state_ok E V st L \<Longrightarrow> state_ok E V st' (N @ L)"
  by (auto simp: visited_to_def state_ok_def visits_color visits_required visits_white visits_gray)

lemma visited_to_refl: "state_ok E V st L \<Longrightarrow> visited_to rank V st L R st []"
  by (simp add: visited_to_def state_ok_def visits_Nil)

lemma visited_to_trans:
  assumes "visited_to rank V st L R u M" "visited_to rank V u (M @ L) R' st' N"
  shows "visited_to rank V st L (R \<union> R') st' (N @ M)"
proof -
  have v: "visits (fst st) (fst u) M" "visits (fst u) (fst st') N" using assms by (simp_all add: visited_to_def)
  note same = visits_required [OF v(1)] visits_gray [OF v(1)]
  have "set (N @ M) \<subseteq> (required (fst st))\<^sup>* `` (R \<union> R')" using assms by (auto simp: visited_to_def same)
  moreover have "in_topo_order (required (fst st)) ((N @ M) @ L)"
    if "\<forall>(a, b) \<in> required (fst st). rank a < rank b" "below rank V (fst st) (R \<union> R')" "in_topo_order (required (fst st)) L"
  proof -
    have b: "below rank V (fst st) R" "below rank V (fst u) R'" using that(2) by (auto simp: below_def same)
    then have "in_topo_order (required (fst st)) (M @ L)" using assms(1) that by (simp add: visited_to_def)
    with assms(2) that(1) b(2) show ?thesis by (simp add: visited_to_def same)
  qed
  ultimately show ?thesis using assms visits_trans [OF v] by (simp add: visited_to_def)
qed

lemma visit_loop_rule:
  assumes rec: "\<And>q st L. q \<in> V \<Longrightarrow> q \<in> white (fst st) \<Longrightarrow> state_ok E V st L \<Longrightarrow> card (white (fst st) \<inter> V) \<le> n \<Longrightarrow>
      \<exists>st' N. rec q st = Returns st' \<and> visited_to rank V st L {q} st' N \<and> q \<in> set N"
    and "set qs \<subseteq> V" "state_ok E V st L" "card (white (fst st) \<inter> V) \<le> n" "finite V"
  shows "\<exists>st' N. visit_loop rec qs st = Returns st' \<and> visited_to rank V st L (set qs) st' N \<and> set qs \<inter> white (fst st') = {}"
  using assms(2-)
proof (induction qs arbitrary: st L)
  case Nil
  then show ?case using visited_to_refl by fastforce
next
  case (Cons q qs)
  have "\<exists>u M. (if pt_color (fst st q) = COLOR_WHITE then rec q st else Returns st) = Returns u \<and> visited_to rank V st L {q} u M \<and>
      q \<notin> white (fst u)"
  proof (cases "q \<in> white (fst st)")
    case True
    with rec [of q st L] Cons.prems obtain u M where u: "rec q st = Returns u" "visited_to rank V st L {q} u M" "q \<in> set M" by auto
    then have "q \<notin> white (fst u)" using visits_white by (auto simp: visited_to_def)
    with u True show ?thesis by (auto simp: white_def)
  next
    case False
    then show ?thesis using visited_to_refl [OF Cons.prems(2)] by (auto simp: white_def intro!: exI [of _ st])
  qed
  then obtain u M where u: "(if pt_color (fst st q) = COLOR_WHITE then rec q st else Returns st) = Returns u"
    "visited_to rank V st L {q} u M" "q \<notin> white (fst u)" by blast
  have w: "white (fst u) \<subseteq> white (fst st)" using u(2) visits_white by (auto simp: visited_to_def)
  then have "card (white (fst u) \<inter> V) \<le> n" using Cons.prems(3,4) by (meson card_mono finite_Int inf_mono le_trans order_refl)
  with Cons.IH [of u "M @ L"] visited_to_ok [OF u(2)] Cons.prems obtain st' N where
    st': "visit_loop rec qs u = Returns st'" "visited_to rank V u (M @ L) (set qs) st' N" "set qs \<inter> white (fst st') = {}" by auto
  have "q \<notin> white (fst st')" using u(3) st'(2) visits_white by (auto simp: visited_to_def)
  moreover have "visited_to rank V st L (set (q # qs)) st' (N @ M)" using visited_to_trans [OF u(2) st'(2)] by simp
  ultimately show ?case using u(1) st'(1,3) by (intro exI [of _ st'] exI [of _ "N @ M"]) simp
qed

text \<open>One visit: it returns when there are enough levels for the white packages.\<close>

lemma visit_rule:
  assumes "finite V" "E `` V \<subseteq> V"
  shows "p \<in> V \<Longrightarrow> p \<in> white (fst st) \<Longrightarrow> state_ok E V st L \<Longrightarrow> card (white (fst st) \<inter> V) \<le> n \<Longrightarrow>
    \<exists>st' N. depends_sort_visit n p st = Returns st' \<and> visited_to rank V st L {p} st' N \<and> p \<in> set N \<and> snd st' = Some p"
proof (induction n arbitrary: p st L)
  case 0
  then have "white (fst st) \<inter> V = {}" using assms(1) by simp
  with 0 show ?case by auto
next
  case (Suc n)
  define g where "g = (fst st)(p := (fst st p)\<lparr>pt_color := COLOR_GRAY\<rparr>)"
  have E: "required g = E" "required (fst st) = E" using Suc.prems(3) by (auto simp: state_ok_def required_def g_def split: if_splits)
  have colors_g: "white g = white (fst st) - {p}" "gray g = insert p (gray (fst st))"
    using Suc.prems(2) by (auto simp: white_def gray_def g_def colors)
  have pL: "p \<notin> set L" using Suc.prems(2,3) by (auto simp: state_ok_def white_def colors)
  have ok: "state_ok E V (g, snd st) L"
    using Suc.prems(2,3) pL linked_frame [of L g "fst st"] E colors_g by (auto simp: state_ok_def g_def)
  have "card (white g \<inter> V) \<le> n"
  proof -
    have "white g \<inter> V = (white (fst st) \<inter> V) - {p}" using colors_g by auto
    then show ?thesis using Suc.prems assms(1) by (simp add: card_Diff_singleton)
  qed
  moreover have succ: "set (pt_requiredfor (g p)) = E `` {p}" using E(1) by (auto simp: required_def)
  moreover have "E `` {p} \<subseteq> V" using assms(2) Suc.prems(1) by auto
  ultimately have "\<exists>u N. visit_loop (depends_sort_visit n) (pt_requiredfor (g p)) (g, snd st) = Returns u \<and>
      visited_to rank V (g, snd st) L (set (pt_requiredfor (g p))) u N \<and> set (pt_requiredfor (g p)) \<inter> white (fst u) = {}"
    by (intro visit_loop_rule [where V = V and E = E and n = n and rank = rank] ok assms(1)) (use Suc.IH in \<open>simp_all, blast\<close>)
  then obtain u N where u: "visit_loop (depends_sort_visit n) (pt_requiredfor (g p)) (g, snd st) = Returns u"
    "visited_to rank V (g, snd st) L (E `` {p}) u N" "E `` {p} \<inter> white (fst u) = {}"
    unfolding succ by blast
  have v: "visits g (fst u) N" "linked (fst u) (snd u) (N @ L)" "set N \<subseteq> V" "set N \<subseteq> E\<^sup>* `` (E `` {p})"
    using u(2) E(1) by (simp_all add: visited_to_def)
  define h where "h = (fst u)(p := (fst u p)\<lparr>pt_next := snd u, pt_color := COLOR_BLACK\<rparr>)"
  have pN: "p \<notin> set N" using v(1) colors_g(1) by (auto simp: visits_def)
  have req: "pt_requiredfor (h x) = pt_requiredfor (fst st x)" "pt_requiredfor (g x) = pt_requiredfor (fst st x)" for x
    using v(1) by (auto simp: visits_def h_def g_def)
  have wh: "white h = white (fst u)"
    using visits_white [OF v(1)] colors_g(1) by (auto simp: white_def h_def colors)
  have "visits (fst st) h (p # N)"
  proof -
    have "distinct (p # N)" "set (p # N) \<subseteq> white (fst st)" using v(1) pN colors_g(1) Suc.prems(2) by (auto simp: visits_def)
    moreover have "\<forall>x. x \<notin> set (p # N) \<longrightarrow> h x = fst st x" using v(1) by (simp add: visits_def h_def g_def)
    moreover have "\<forall>x \<in> set (p # N). pt_color (h x) = COLOR_BLACK" using v(1) pN by (auto simp: visits_def h_def)
    moreover have "\<forall>x \<in> set (p # N). set (pt_requiredfor (fst st x)) \<inter> white h = {}"
      using v(1) u(3) succ req(2) unfolding wh by (auto simp: visits_def)
    ultimately show ?thesis using req(1) by (simp only: visits_def simp_thms)
  qed
  moreover have "linked h (Some p) ((p # N) @ L)"
    using v(2) pN pL linked_frame [of "N @ L" h "fst u"] by (simp add: h_def)
  moreover have "set (p # N) \<subseteq> V" using v(3) Suc.prems(1) by simp
  moreover have "set (p # N) \<subseteq> E\<^sup>* `` {p}" using v(4) by (auto intro: converse_rtrancl_into_rtrancl)
  moreover have "in_topo_order E ((p # N) @ L)"
    if r: "\<forall>(a, b) \<in> E. rank a < rank b" "below rank V (fst st) {p}" "in_topo_order E L"
  proof -
    have "below rank V g (E `` {p})"
      using r(1,2) unfolding below_def colors_g(2) by (auto intro: less_trans)
    then have "in_topo_order E (N @ L)" using u(2) r(1,3) E(1) by (simp add: visited_to_def)
    moreover have "E `` {p} \<subseteq> set (N @ L)"
    proof
      fix q assume q: "q \<in> E `` {p}"
      have "state_ok E V u (N @ L)" using visited_to_ok [OF u(2) ok] .
      then have "q \<in> white (fst u) \<union> gray (fst u) \<union> set (N @ L)" using q assms(2) Suc.prems(1) by (auto simp: state_ok_def)
      moreover have "q \<notin> white (fst u)" using u(3) q by auto
      moreover have "q \<notin> gray (fst u)"
        using \<open>below rank V g (E `` {p})\<close> q visits_gray [OF v(1)] assms(2) Suc.prems(1) unfolding below_def by auto
      ultimately show "q \<in> set (N @ L)" by auto
    qed
    ultimately show ?thesis by simp
  qed
  ultimately have "visited_to rank V st L {p} (h, Some p) (p # N)" by (simp add: visited_to_def E)
  moreover have "depends_sort_visit (Suc n) p st = Returns (h, Some p)"
    using u(1) by (cases u) (simp add: g_def [symmetric] h_def)
  ultimately show ?case by (intro exI [of _ "(h, Some p)"] exI [of _ "p # N"]) simp
qed

text \<open>
  The second loop after the first package was visited: the links lead along the sorted list, where
  nothing is white.
\<close>

lemma sort_loop_black:
  assumes "linked h p L" "set L \<inter> white h = {}" "length L \<le> n"
  shows "sort_loop fuel n p (h, ord) = Returns (h, ord)"
  using assms
proof (induction L arbitrary: p n)
  case (Cons a as)
  then obtain m where n: "n = Suc m" by (cases n) auto
  have "pt_color (h a) \<noteq> COLOR_WHITE" using Cons.prems(2) by (auto simp: white_def)
  then show ?case using Cons n by simp
next
  case Nil
  then show ?case by (cases n) simp_all
qed

lemma walk_linked: "walk h n p = Returns L \<longleftrightarrow> linked h p L \<and> length L \<le> n"
proof (induction n arbitrary: p L)
  case 0
  then show ?case by (cases p; cases L) auto
next
  case (Suc n)
  then show ?case by (cases p; cases L) (auto simp: run_bind_Returns)
qed

lemma linked_unique: "linked h p L \<Longrightarrow> linked h p M \<Longrightarrow> L = M"
proof (induction L arbitrary: p M)
  case Nil
  then show ?case by (cases M) auto
next
  case (Cons a L)
  then show ?case by (cases M) auto
qed

lemma linked_suffix: "linked h p (M @ a # L) \<Longrightarrow> linked h (Some a) (a # L)"
  by (induction M arbitrary: p) auto

lemma linked_distinct: "linked h p L \<Longrightarrow> distinct L"
proof (rule ccontr)
  assume l: "linked h p L" and "\<not> distinct L"
  then obtain xs ys zs a where L: "L = xs @ a # ys @ a # zs" using not_distinct_decomp [of L] by auto
  have "linked h (Some a) (a # ys @ a # zs)" "linked h (Some a) (a # zs)"
    using l linked_suffix [of h p xs a] linked_suffix [of h p "xs @ a # ys" a] unfolding L by auto
  from linked_unique [OF this] show False by simp
qed

lemma color_white_simps:
  "pt_color (color_white ps h x) = (if x \<in> set ps then COLOR_WHITE else pt_color (h x))"
  "pt_next (color_white ps h x) = pt_next (h x)" "pt_requiredfor (color_white ps h x) = pt_requiredfor (h x)"
  unfolding color_white_def by (induction ps arbitrary: h) auto

text \<open>
  Property C11: the sort of the packages to install returns a list without repetitions that starts with
  the first package. It holds exactly the packages that the first one is required for,
  directly or not, and every package comes before those that require it if there is no cycle.
\<close>

theorem depends_sort_reaches:
  fixes rank :: "upkg_ptr \<Rightarrow> nat"
  assumes "pkgs_list mem (Some p) = Returns ps" "\<forall>q \<in> set ps. set (pt_requiredfor (um_heap mem q)) \<subseteq> set ps"
  shows "\<exists>mem' order. depends_sort mem (Some p) = Returns (Some p, mem') \<and> pkgs_list mem' (Some p) = Returns order \<and> distinct order \<and>
    set order = (required (um_heap mem))\<^sup>* `` {p} \<and>
    ((\<forall>(a, b) \<in> required (um_heap mem). rank a < rank b) \<longrightarrow> in_topo_order (required (um_heap mem)) order)"
proof -
  let ?E = "required (um_heap mem)" and ?V = "set ps" and ?h = "color_white ps (um_heap mem)" and ?n = "um_next mem"
  have ps: "linked (um_heap mem) (Some p) ps" "length ps \<le> ?n" using assms(1) by (simp_all add: pkgs_list_def walk_linked)
  then have p: "p \<in> ?V" by (cases ps) auto
  have closed: "?E `` ?V \<subseteq> ?V" using assms(2) by (auto simp: required_def)
  have E: "required ?h = ?E" by (simp add: required_def color_white_simps)
  have w: "?V \<subseteq> white ?h" "gray ?h \<inter> ?V = {}" by (auto simp: white_def gray_def color_white_simps colors)
  have ok: "state_ok ?E ?V (?h, None) []" using w E by (auto simp: state_ok_def)
  have "card (white ?h \<inter> ?V) \<le> length ps" using card_length [of ps] card_mono [of ?V "white ?h \<inter> ?V"] by simp
  then have "card (white ?h \<inter> ?V) \<le> ?n" using ps(2) by simp
  moreover have "p \<in> white (fst (?h, None))" using p w(1) by auto
  ultimately obtain st N where v: "depends_sort_visit ?n p (?h, None) = Returns st" "visited_to rank ?V (?h, None) [] {p} st N" "p \<in> set N"
    "snd st = Some p"
    using visit_rule [OF finite_set closed p _ ok, of ?n rank] unfolding fst_conv by blast
  have vis: "visits ?h (fst st) N" "linked (fst st) (Some p) N" "set N \<subseteq> ?E\<^sup>* `` {p}" "set N \<subseteq> ?V"
    using v(2,4) E by (simp_all add: visited_to_def)
  have topo: "(\<forall>(a, b) \<in> ?E. rank a < rank b) \<longrightarrow> in_topo_order ?E N"
    using v(2) w(2) E by (simp add: visited_to_def below_def)
  have reach: "q \<in> set N" if "(p, q) \<in> ?E\<^sup>*" for q
    using that
  proof induction
    case (step a b)
    then have "b \<notin> white (fst st)" "b \<in> ?V" using vis(1,4) closed by (auto simp: visits_def required_def color_white_simps)
    with visits_white [OF vis(1)] w(1) show ?case by auto
  qed (rule v(3))
  have "distinct N" "length N \<le> ?n"
  proof -
    show "distinct N" using vis(2) by (rule linked_distinct)
    then have "length N \<le> card ?V" using vis(4) by (metis card_mono distinct_card finite_set)
    then show "length N \<le> ?n" using card_length [of ps] ps(2) by simp
  qed
  moreover have "sort_loop ?n ?n (Some p) (?h, None) = Returns st"
  proof -
    obtain a as where N: "N = p # as" using vis(2) v(3) by (cases N) auto
    obtain n where n: "?n = Suc n" using \<open>length N \<le> ?n\<close> N by (cases ?n) auto
    have "set as \<inter> white (fst st) = {}" using visits_white [OF vis(1)] N by auto
    then have "sort_loop ?n n (pt_next (fst st p)) (fst st, snd st) = Returns (fst st, snd st)"
      using vis(2) N n \<open>length N \<le> ?n\<close> by (intro sort_loop_black) auto
    then show ?thesis using v(1) w(1) p n by (auto simp: white_def)
  qed
  ultimately have "depends_sort mem (Some p) = Returns (Some p, mem\<lparr>um_heap := fst st\<rparr>)"
    "pkgs_list (mem\<lparr>um_heap := fst st\<rparr>) (Some p) = Returns N"
    using vis(2) v(4) assms(1) by (cases st; simp add: depends_sort_def pkgs_list_def [of "mem\<lparr>um_heap := _\<rparr>"] walk_linked)+
  moreover have "set N = ?E\<^sup>* `` {p}" using vis(3) reach by auto
  ultimately show ?thesis using \<open>distinct N\<close> topo by blast
qed

text \<open>Three packages in the list 0, 1, 2: package 0 is required for 2, and 1 has nothing to do with them.\<close>

definition sort_mem :: udpkg_mem where
  "sort_mem = \<lparr>um_heap = (\<lambda>_. zero_pkg)(0 := zero_pkg\<lparr>pt_package := Some ''a'', pt_next := Some 1, pt_requiredfor := [2]\<rparr>,
     1 := zero_pkg\<lparr>pt_package := Some ''b'', pt_next := Some 2\<rparr>, 2 := zero_pkg\<lparr>pt_package := Some ''c'', pt_depends := Some ''a''\<rparr>), um_next = 3\<rparr>"

lemma sort_mem_list: "pkgs_list sort_mem (Some 0) = Returns [0, 1, 2]"
  by code_simp

theorem depends_sort_reaches_witness:
  "\<exists>mem' order. depends_sort sort_mem (Some 0) = Returns (Some 0, mem') \<and> pkgs_list mem' (Some 0) = Returns order \<and> 1 \<notin> set order"
proof -
  have req: "required (um_heap sort_mem) = {(0, 2)}" by (auto simp: required_def sort_mem_def zero_pkg_def split: if_splits)
  have "\<forall>q \<in> set [0, 1, 2]. set (pt_requiredfor (um_heap sort_mem q)) \<subseteq> set [0, 1, 2 :: nat]" by (simp add: sort_mem_def zero_pkg_def)
  from depends_sort_reaches [OF sort_mem_list this] obtain mem' order where
    "depends_sort sort_mem (Some 0) = Returns (Some 0, mem')" "pkgs_list mem' (Some 0) = Returns order" "set order = {(0, 2)}\<^sup>* `` {0}"
    unfolding req by blast
  moreover have "1 \<notin> {(0 :: nat, 2)}\<^sup>* `` {0}" by (auto elim: rtranclE)
  ultimately show ?thesis by auto
qed

section \<open>Dependencies\<close>

text \<open>Resolving only records edges.\<close>

definition same_pkgs :: "upkg_heap \<Rightarrow> upkg_heap \<Rightarrow> bool" where
  "same_pkgs h h' \<longleftrightarrow> (\<forall>p. (h' p)\<lparr>pt_requiredfor := []\<rparr> = (h p)\<lparr>pt_requiredfor := []\<rparr>)"

lemma same_pkgs_fields:
  assumes "same_pkgs h h'"
  shows "pt_package (h' p) = pt_package (h p)" "pt_provides (h' p) = pt_provides (h p)" "pt_status (h' p) = pt_status (h p)"
    "pt_depends (h' p) = pt_depends (h p)" "pt_next (h' p) = pt_next (h p)"
proof -
  have eq: "(h' p)\<lparr>pt_requiredfor := []\<rparr> = (h p)\<lparr>pt_requiredfor := []\<rparr>" using assms by (simp add: same_pkgs_def)
  show "pt_package (h' p) = pt_package (h p)" using arg_cong [OF eq, of pt_package] by simp
  show "pt_provides (h' p) = pt_provides (h p)" using arg_cong [OF eq, of pt_provides] by simp
  show "pt_status (h' p) = pt_status (h p)" using arg_cong [OF eq, of pt_status] by simp
  show "pt_depends (h' p) = pt_depends (h p)" using arg_cong [OF eq, of pt_depends] by simp
  show "pt_next (h' p) = pt_next (h p)" using arg_cong [OF eq, of pt_next] by simp
qed

lemma same_pkgs_require: "same_pkgs g h \<Longrightarrow> same_pkgs g (require chk pkg h)"
  by (simp add: same_pkgs_def require_def)

lemma same_pkgs_tests:
  assumes "same_pkgs g h"
  shows "dep_installed h tree d = dep_installed g tree d" "satisfies h d = satisfies g d"
proof -
  have name: "pt_name h = pt_name g" using same_pkgs_fields(1) [OF assms] by (simp add: pt_name_def fun_eq_iff)
  show "dep_installed h tree d = dep_installed g tree d" unfolding dep_installed_def name same_pkgs_fields(3) [OF assms] ..
  show "satisfies h d = satisfies g d" by (intro ext) (simp add: satisfies_def name same_pkgs_fields(2) [OF assms])
qed

definition unmet :: "upkg_heap \<Rightarrow> upkg_ptr list \<Rightarrow> upkg_ptr list \<Rightarrow> string \<Rightarrow> bool" where
  "unmet h tree ps d \<longleftrightarrow> \<not> dep_installed h tree d \<and> (\<forall>chk \<in> set ps. \<not> satisfies h d chk)"

lemma resolve_deps_unmet:
  assumes "same_pkgs g h"
  shows "case resolve_deps tree ps p ds h of Inl h' \<Rightarrow> same_pkgs g h' | Inr h' \<Rightarrow> same_pkgs g h' \<and> (\<forall>d \<in> set ds. \<not> unmet g tree ps d)"
  using assms
proof (induction ds arbitrary: h)
  case (Cons d ds)
  note IH = Cons.IH [OF Cons.prems] Cons.IH [OF same_pkgs_require [OF Cons.prems]]
  note tests = same_pkgs_tests [OF Cons.prems]
  show ?case
  proof (cases "dep_installed h tree d")
    case True
    then show ?thesis using IH(1) tests by (auto simp: unmet_def split: sum.splits)
  next
    case False
    show ?thesis
    proof (cases "find (satisfies h d) ps")
      case (Some chk)
      then have "\<not> unmet g tree ps d" using find_Some_set [OF Some] tests by (auto simp: unmet_def)
      then show ?thesis using False Some IH(2) [of chk p] Cons.prems by (cases "resolve_deps tree ps p ds (require chk p h)") auto
    qed (use False Cons.prems in simp)
  qed
qed simp



text \<open>Alternatives and versions: only the first word of a dependency counts, and an empty one ends the list.\<close>

lemma depends_split_examples:
  "depends_split (Some ''a (>= 1), b'') = Returns [''a'', ''b'']"
  "depends_split (Some ''a | c, b'') = Returns [''a'', ''b'']"
  "depends_split (Some ''a, , b'') = Returns [''a'']"
  by code_simp+

text \<open>A package that provides something longer than the dependency is taken to satisfy it.\<close>

lemma provides_prefix: "satisfies (\<lambda>_. zero_pkg\<lparr>pt_package := Some ''x'', pt_provides := Some ''libc6-dev''\<rparr>) ''libc6'' 0"
  by code_simp

end
