(* ===== verification/Udpkg.thy ===== *)
theory Udpkg
  imports C_Actions DI_Exec Udpkg_Merge Udpkg_Depends
begin

text \<open>
  The commands of \<^verbatim>\<open>udpkg\<close> (\<^verbatim>\<open>udpkg/udpkg.c\<close>). Files are a map from paths to texts, which
  commands that are executed may change. What else happens outside is the argument
  \<open>udpkg_io\<close>, with a world that is passed along. Messages are left out.
\<close>

section \<open>Definitions\<close>

type_synonym files = "string \<Rightarrow> string option"

text \<open>
  What \<open>dpkg_copyfile\<close> meets: a source that cannot be examined, a failure, which leaves something
  in the destination, or none.
\<close>

datatype copy_result = Stat_failed | Copy_failed "string option" | Copied

record 'w udpkg_io =
  io_exec :: "string \<Rightarrow> files \<times> 'w \<Rightarrow> int \<times> files \<times> 'w"
  io_popen :: "string \<Rightarrow> files \<times> 'w \<Rightarrow> string option"
  io_mkdir :: "string \<Rightarrow> 'w \<Rightarrow> bool \<times> 'w"
  io_chdir :: "string \<Rightarrow> 'w \<Rightarrow> bool \<times> 'w"
  io_getcwd :: "'w \<Rightarrow> string"
  io_rename_dir :: "string \<Rightarrow> string \<Rightarrow> files \<times> 'w \<Rightarrow> bool \<times> files \<times> 'w"
  io_copy :: "string \<Rightarrow> string \<Rightarrow> files \<times> 'w \<Rightarrow> copy_result"
  io_writable :: "string \<Rightarrow> 'w \<Rightarrow> bool"
  io_lock :: "'w \<Rightarrow> bool \<times> 'w"
  io_unlock :: "'w \<Rightarrow> bool \<times> 'w"

record udpkg_opts =
  force_configure :: bool
  loadtemplate :: bool

record 'w udpkg =
  u_mem :: udpkg_mem
  u_locked :: bool
  u_files :: files
  u_world :: 'w

type_synonym ('w, 'a) uact = "('w udpkg, 'a) action"

definition ADMINDIR :: string where
  "ADMINDIR = ''/var/lib/dpkg''"

definition STATUSFILE :: string where
  "STATUSFILE = ADMINDIR @ ''/status''"

definition DPKGCIDIR :: string where
  "DPKGCIDIR = ADMINDIR @ ''/tmp.ci/''"

definition INFODIR :: string where
  "INFODIR = ADMINDIR @ ''/info/''"

text \<open>\<open>snprintf\<close> into a buffer of 1024 bytes.\<close>

definition cut :: "string \<Rightarrow> string" where
  "cut s = take 1023 s"

definition exec_log :: "'w udpkg_io \<Rightarrow> string \<Rightarrow> ('w, int) uact" where
  "exec_log io cmd s = (case io_exec io cmd (u_files s, u_world s) of (r, fs, w) \<Rightarrow> Returns (r, s\<lparr>u_files := fs, u_world := w\<rparr>))"

definition try_io :: "('w \<Rightarrow> bool \<times> 'w) \<Rightarrow> ('w, bool) uact" where
  "try_io f s = (case f (u_world s) of (ok, w) \<Rightarrow> Returns (ok, s\<lparr>u_world := w\<rparr>))"

definition upkg :: "'w udpkg \<Rightarrow> upkg_ptr \<Rightarrow> package_t" where
  "upkg s p = um_heap (u_mem s) p"

definition upd_pkg :: "upkg_ptr \<Rightarrow> (package_t \<Rightarrow> package_t) \<Rightarrow> ('w, unit) uact" where
  "upd_pkg p f = mupd (\<lambda>s. s\<lparr>u_mem := (u_mem s)\<lparr>um_heap := (um_heap (u_mem s))(p := f (upkg s p))\<rparr>\<rparr>)"

unbundle bit_operations_syntax

definition and_status :: "u32 \<Rightarrow> package_t \<Rightarrow> package_t" where
  "and_status m p = p\<lparr>pt_status := pt_status p AND m\<rparr>"

definition or_status :: "u32 \<Rightarrow> package_t \<Rightarrow> package_t" where
  "or_status m p = p\<lparr>pt_status := pt_status p OR m\<rparr>"

subsection \<open>The lock and the status file\<close>

text \<open>A failure of the lock ends the program, which counts as dying.\<close>

definition status_lock :: "'w udpkg_io \<Rightarrow> ('w, unit) uact" where
  "status_lock io = mbind (try_io (io_lock io)) (\<lambda>ok. if ok then mupd (\<lambda>s. s\<lparr>u_locked := True\<rparr>) else (\<lambda>s. Died))"

definition status_unlock :: "'w udpkg_io \<Rightarrow> ('w, unit) uact" where
  "status_unlock io = mread (\<lambda>s. if \<not> u_locked s then (\<lambda>s. Died)
     else mbind (try_io (io_unlock io)) (\<lambda>ok. if ok then mupd (\<lambda>s. s\<lparr>u_locked := False\<rparr>) else (\<lambda>s. Died)))"

definition read_status :: "udpkg_config \<Rightarrow> ('w, upkg_ptr list) uact" where
  "read_status cfg s = run_bind (status_read cfg (u_files s STATUSFILE) (u_mem s)) (\<lambda>(tree, mem). Returns (tree, s\<lparr>u_mem := mem\<rparr>))"

definition rename_file :: "'w udpkg_io \<Rightarrow> string \<Rightarrow> string \<Rightarrow> ('w, bool) uact" where
  "rename_file io a b s =
     (if u_files s a \<noteq> None \<and> io_writable io b (u_world s)
      then Returns (True, s\<lparr>u_files := (u_files s)(b := u_files s a, a := None)\<rparr>)
      else Returns (False, s))"

text \<open>
  \<open>status_merge\<close> with its files: the new text is written beside the old file, which becomes the
  backup. The result is always 0.
\<close>

definition merge_status :: "'w udpkg_io \<Rightarrow> udpkg_config \<Rightarrow> upkg_ptr list \<Rightarrow> upkg_ptr option \<Rightarrow> ('w, int) uact" where
  "merge_status io cfg tree pkgs = mread (\<lambda>s.
     case u_files s STATUSFILE of
       None \<Rightarrow> mret 0
     | Some old \<Rightarrow>
         if \<not> io_writable io (STATUSFILE @ ''.new'') (u_world s) then mret 0
         else (\<lambda>s. run_bind (status_merge cfg (u_mem s) tree pkgs old) (\<lambda>new.
           mbind (mupd (\<lambda>s. s\<lparr>u_files := (u_files s)(STATUSFILE @ ''.new'' := Some new)\<rparr>)) (\<lambda>_.
           mbind (rename_file io STATUSFILE (STATUSFILE @ ''.bak'')) (\<lambda>ok.
           mbind (if ok then rename_file io (STATUSFILE @ ''.new'') STATUSFILE else mret ok) (\<lambda>_. mret 0))) s)))"

subsection \<open>Configuring\<close>

definition script :: "string \<Rightarrow> string \<Rightarrow> string" where
  "script name ext = cut (INFODIR @ name @ ext)"

definition script_command :: "string \<Rightarrow> string" where
  "script_command path = cut (''exec '' @ path @ '' configure'')"

definition is_file :: "'w udpkg \<Rightarrow> string \<Rightarrow> bool" where
  "is_file s path \<longleftrightarrow> u_files s path \<noteq> None"

text \<open>Running a script of the package if there is one; 0 also means that there is none.\<close>

definition run_script :: "'w udpkg_io \<Rightarrow> string \<Rightarrow> ('w, int) uact" where
  "run_script io path = mread (\<lambda>s. if is_file s path then exec_log io (script_command path) else mret 0)"

definition dpkg_doconfigure :: "'w udpkg_io \<Rightarrow> udpkg_opts \<Rightarrow> upkg_ptr \<Rightarrow> ('w, int) uact" where
  "dpkg_doconfigure io opts p = mread (\<lambda>s.
     if pt_status (upkg s p) AND STATUS_STATUSINSTALLED \<noteq> 0 \<and> \<not> force_configure opts then mret 1
     else let name = pt_name (um_heap (u_mem s)) p
          in mbind (upd_pkg p (and_status STATUS_STATUSMASK)) (\<lambda>_.
             mbind (run_script io (script name ''.config'')) (\<lambda>r.
               if r \<noteq> 0 then mbind (upd_pkg p (or_status STATUS_STATUSHALFCONFIGURED)) (\<lambda>_. mret 1)
               else mbind (run_script io (script name ''.postinst'')) (\<lambda>r.
                 if r \<noteq> 0 then mbind (upd_pkg p (or_status STATUS_STATUSHALFCONFIGURED)) (\<lambda>_. mret (di_exec_mangle_status r))
                 else mbind (upd_pkg p (or_status STATUS_STATUSINSTALLED)) (\<lambda>_. mret 0)))))"

fun configure_loop :: "'w udpkg_io \<Rightarrow> udpkg_opts \<Rightarrow> upkg_ptr list \<Rightarrow> upkg_ptr list \<Rightarrow> ('w, int) uact" where
  "configure_loop io opts tree [] = mret 0"
| "configure_loop io opts tree (p # ps) = mread (\<lambda>s.
     let name = pt_name (um_heap (u_mem s))
     in case tfind name (name p) tree of
          None \<Rightarrow> mret 1
        | Some q \<Rightarrow> mbind (dpkg_doconfigure io opts q) (\<lambda>r. if r \<noteq> 0 then mret r else configure_loop io opts tree ps))"

text \<open>The list of packages; none of the commands changes its links while it walks along it.\<close>

definition packages_of :: "upkg_ptr option \<Rightarrow> ('w, upkg_ptr list) uact" where
  "packages_of pkgs s = run_bind (pkgs_list (u_mem s) pkgs) (\<lambda>ps. Returns (ps, s))"

definition dpkg_configure :: "'w udpkg_io \<Rightarrow> udpkg_config \<Rightarrow> udpkg_opts \<Rightarrow> upkg_ptr option \<Rightarrow> ('w, int) uact" where
  "dpkg_configure io cfg opts pkgs =
     mbind (status_lock io) (\<lambda>_.
     mbind (read_status cfg) (\<lambda>tree.
     mbind (status_unlock io) (\<lambda>_.
     mbind (packages_of pkgs) (\<lambda>ps.
     mbind (configure_loop io opts tree ps) (\<lambda>r.
     mbind (status_lock io) (\<lambda>_.
     mbind (merge_status io cfg tree None) (\<lambda>_.
     mbind (status_unlock io) (\<lambda>_. mret r))))))))"

subsection \<open>Unpacking\<close>

datatype compression_type = gz_compression | xz_compression | no_compression | unknown_compression

definition compression_extension :: "compression_type \<Rightarrow> string" where
  "compression_extension t = (case t of gz_compression \<Rightarrow> ''.gz'' | xz_compression \<Rightarrow> ''.xz'' | _ \<Rightarrow> [])"

definition decompression_tool :: "compression_type \<Rightarrow> string" where
  "decompression_tool t = (case t of gz_compression \<Rightarrow> ''gunzip -c'' | xz_compression \<Rightarrow> ''unxz -c'' | no_compression \<Rightarrow> ''cat'' | _ \<Rightarrow> [])"

definition data_member_base :: string where
  "data_member_base = ''data.tar''"

definition control_member_base :: string where
  "control_member_base = ''control.tar''"

text \<open>The rest of the first line of the output that begins with the name of the member.\<close>

function member_loop :: "string \<Rightarrow> stream \<Rightarrow> string option" where
  "member_loop base f =
     (case stream_gets 1024 f of
        (None, f) \<Rightarrow> None
      | (Some buf, f) \<Rightarrow>
          if is_key base buf
          then let ext = drop (length base) buf in Some (if ext \<noteq> [] \<and> last ext = NL then butlast ext else ext)
          else member_loop base f)"
  by pat_completeness auto
termination
  by (relation "measure (\<lambda>(base, f). length (ahead f))") (auto dest!: stream_gets_shorter_any [OF sym])

declare member_loop.simps [simp del]

definition get_compression_type :: "'w udpkg_io \<Rightarrow> upkg_ptr \<Rightarrow> string \<Rightarrow> 'w udpkg \<Rightarrow> compression_type" where
  "get_compression_type io p base s =
     (case io_popen io (cut (''ar -t '' @ fmt_s (pt_file (upkg s p)))) (u_files s, u_world s) of
        None \<Rightarrow> unknown_compression
      | Some out \<Rightarrow>
          (case member_loop base (fopen_r out) of
             None \<Rightarrow> unknown_compression
           | Some ext \<Rightarrow>
               if ext = compression_extension gz_compression then gz_compression
               else if ext = compression_extension xz_compression then xz_compression
               else if ext = compression_extension no_compression then no_compression
               else unknown_compression))"

definition member_command :: "string \<Rightarrow> string \<Rightarrow> compression_type \<Rightarrow> string \<Rightarrow> string" where
  "member_command file base t tar =
     ''ar -p '' @ file @ '' '' @ base @ compression_extension t @ ''|'' @ decompression_tool t @ ''|'' @ tar"

definition dpkg_copyfile :: "'w udpkg_io \<Rightarrow> string \<Rightarrow> string \<Rightarrow> ('w, int) uact" where
  "dpkg_copyfile io src dest s =
     (case io_copy io src dest (u_files s, u_world s) of
        Stat_failed \<Rightarrow> Returns (- 1, s)
      | c \<Rightarrow>
          if u_files s src = None then Returns (0, s)
          else case c of
                 Copy_failed t \<Rightarrow> Returns (- 1, s\<lparr>u_files := (u_files s)(dest := t)\<rparr>)
               | _ \<Rightarrow> Returns (1, s\<lparr>u_files := (u_files s)(dest := u_files s src)\<rparr>))"

definition adminscripts :: "string list" where
  "adminscripts = [''prerm'', ''postrm'', ''preinst'', ''postinst'', ''conffiles'', ''md5sums'', ''shlibs'', ''templates'', ''menutest'',
     ''isinstallable'', ''config'']"

text \<open>Loading the templates of a package into debconf; the file is deleted then.\<close>

definition load_templates :: "'w udpkg_io \<Rightarrow> string \<Rightarrow> string \<Rightarrow> ('w, int) uact" where
  "load_templates io name dest =
     mbind (exec_log io (cut (''trimtemplates '' @ dest))) (\<lambda>_.
     mbind (exec_log io (cut (''debconf-loadtemplate '' @ name @ '' '' @ dest))) (\<lambda>r.
     mbind (mupd (\<lambda>s. s\<lparr>u_files := (u_files s)(dest := None)\<rparr>)) (\<lambda>_. mret r)))"

fun scripts_loop :: "'w udpkg_io \<Rightarrow> udpkg_config \<Rightarrow> udpkg_opts \<Rightarrow> string \<Rightarrow> string list \<Rightarrow> int \<Rightarrow> ('w, int) uact" where
  "scripts_loop io cfg opts name [] r = mret r"
| "scripts_loop io cfg opts name (a # as) r =
     (let dest = cut (INFODIR @ name @ ''.'' @ a)
      in mbind (dpkg_copyfile io (cut (DPKGCIDIR @ name @ ''/'' @ a)) dest) (\<lambda>ret.
         if ret < 0 then mret 1
         else if ret > 0 \<and> DOLOADTEMPLATE cfg \<and> loadtemplate opts \<and> a = ''templates''
         then mbind (load_templates io name dest) (\<lambda>r. scripts_loop io cfg opts name as r)
         else scripts_loop io cfg opts name as r))"

text \<open>
  A line of the list of files as dpkg has it. The test of the last byte but one of an empty line
  reads before the buffer; \<^verbatim>\<open>tar\<close> prints no such line.
\<close>

definition list_line :: "string \<Rightarrow> string" where
  "list_line buf =
     (let p = (if peek buf = CHR ''.'' then tl buf else buf);
          p = (if take 2 p = [CHR ''/'', NL] then [CHR ''/'', CHR ''.'', NL] else p)
      in if 2 \<le> length p \<and> p ! (length p - 2) = CHR ''/'' then take (length p - 2) p @ [NL] else p)"

function list_loop :: "stream \<Rightarrow> string \<Rightarrow> string" where
  "list_loop f out =
     (case stream_gets 1024 f of
        (None, f) \<Rightarrow> out
      | (Some buf, f) \<Rightarrow> if eof f then out else list_loop f (out @ list_line buf))"
  by pat_completeness auto
termination
  by (relation "measure (\<lambda>(f, out). length (ahead f))") (auto dest!: stream_gets_shorter_any [OF sym])

declare list_loop.simps [simp del]

text \<open>The list of files. When it cannot be made, \<open>pclose\<close> or \<open>fclose\<close> of a null pointer follows.\<close>

definition write_list :: "'w udpkg_io \<Rightarrow> string \<Rightarrow> string \<Rightarrow> compression_type \<Rightarrow> ('w, unit) uact" where
  "write_list io name file t = mread (\<lambda>s.
     let dest = cut (INFODIR @ name @ ''.list'')
     in case io_popen io (cut (member_command file data_member_base t ''tar -t'')) (u_files s, u_world s) of
          None \<Rightarrow> (\<lambda>s. Died)
        | Some out \<Rightarrow>
            if \<not> io_writable io dest (u_world s) then (\<lambda>s. Died)
            else mupd (\<lambda>s. s\<lparr>u_files := (u_files s)(dest := Some (list_loop (fopen_r out) []))\<rparr>))"

text \<open>The wanted state and the flag that a command sets.\<close>

definition want_status :: "u32 \<Rightarrow> package_t \<Rightarrow> package_t" where
  "want_status w p = or_status STATUS_FLAGOK (and_status STATUS_FLAGMASK (or_status w (and_status STATUS_WANTMASK p)))"

definition dpkg_dounpack :: "'w udpkg_io \<Rightarrow> udpkg_config \<Rightarrow> udpkg_opts \<Rightarrow> upkg_ptr \<Rightarrow> ('w, int) uact" where
  "dpkg_dounpack io cfg opts p = mread (\<lambda>s.
     let t = get_compression_type io p data_member_base s;
         cwd = io_getcwd io (u_world s);
         file = fmt_s (pt_file (upkg s p));
         name = pt_name (um_heap (u_mem s)) p
     in if t = unknown_compression then mret 1
        else mbind (try_io (io_chdir io ''/'')) (\<lambda>ok.
          if \<not> ok then mret 1
          else mbind (exec_log io (cut (member_command file data_member_base t ''tar -x''))) (\<lambda>r.
               mbind (if r = 0
                      then mbind (scripts_loop io cfg opts name adminscripts 0) (\<lambda>r.
                           mbind (if DOREMOVE cfg then write_list io name file t else mret ()) (\<lambda>_.
                           mbind (upd_pkg p (\<lambda>x. or_status (if r = 0 then STATUS_STATUSUNPACKED else STATUS_STATUSHALFINSTALLED)
                                    (and_status STATUS_STATUSMASK (want_status STATUS_WANTINSTALL x)))) (\<lambda>_. mret r)))
                      else mret r) (\<lambda>r.
               mbind (try_io (io_chdir io cwd)) (\<lambda>ok. mret (if \<not> ok then 1 else r))))))"

definition dpkg_doinstall :: "'w udpkg_io \<Rightarrow> udpkg_config \<Rightarrow> udpkg_opts \<Rightarrow> upkg_ptr \<Rightarrow> ('w, bool) uact" where
  "dpkg_doinstall io cfg opts p =
     mbind (dpkg_dounpack io cfg opts p) (\<lambda>r. if r \<noteq> 0 then mret True else mbind (dpkg_doconfigure io opts p) (\<lambda>r. mret (r \<noteq> 0)))"

text \<open>The name of a package, from the name of its file.\<close>

definition file_package :: "string \<Rightarrow> string" where
  "file_package file =
     (let base = (case strrchr file (CHR ''/'') of None \<Rightarrow> file | Some i \<Rightarrow> drop (Suc i) file)
      in takeWhile (\<lambda>c. c \<noteq> CHR ''_'' \<and> c \<noteq> CHR ''.'') base)"

text \<open>
  Reading the control file of a package. The name from the file name is freed at the end: without a
  \<open>Package\<close> field the structure still points to it.
\<close>

definition read_control :: "'w udpkg_io \<Rightarrow> udpkg_config \<Rightarrow> upkg_ptr \<Rightarrow> string \<Rightarrow> string \<Rightarrow> string \<Rightarrow> ('w, int) uact" where
  "read_control io cfg p name cwd text = (\<lambda>s.
     run_bind (control_read cfg (fopen_r text) ((upkg s p)\<lparr>pt_package := None\<rparr>)) (\<lambda>(x, f).
       case pt_package x of
         None \<Rightarrow> Died
       | Some new \<Rightarrow>
           mbind (upd_pkg p (\<lambda>_. x)) (\<lambda>_.
           mbind (if new \<noteq> name
                  then (\<lambda>s. case io_rename_dir io (cut (DPKGCIDIR @ name)) (cut (DPKGCIDIR @ new)) (u_files s, u_world s) of
                         (ok, fs, w) \<Rightarrow> Returns (ok, s\<lparr>u_files := fs, u_world := w\<rparr>))
                  else mret True) (\<lambda>ok.
             if \<not> ok then mret 1
             else mbind (try_io (io_chdir io cwd)) (\<lambda>ok. mret (if \<not> ok then 1 else 0)))) s))"

definition dpkg_unpackcontrol :: "'w udpkg_io \<Rightarrow> udpkg_config \<Rightarrow> upkg_ptr \<Rightarrow> ('w, int) uact" where
  "dpkg_unpackcontrol io cfg p = mread (\<lambda>s.
     let file = fmt_s (pt_file (upkg s p)); name = file_package file
     in mbind (upd_pkg p (\<lambda>x. x\<lparr>pt_package := Some name\<rparr>)) (\<lambda>_. mread (\<lambda>s.
        let t = get_compression_type io p control_member_base s;
            cwd = io_getcwd io (u_world s);
            dir = cut (DPKGCIDIR @ name)
        in if t = unknown_compression then mret 1
           else mbind (try_io (io_mkdir io dir)) (\<lambda>ok.
             if \<not> ok then mret 1
             else mbind (try_io (io_chdir io dir)) (\<lambda>ok.
               if \<not> ok then mret 1
               else mbind (exec_log io (cut (member_command file control_member_base t ''tar -xf -''))) (\<lambda>r.
                 if r \<noteq> 0 then mret r
                 else mread (\<lambda>s. case u_files s (dir @ ''/control'') of
                        None \<Rightarrow> mret 1
                      | Some text \<Rightarrow> read_control io cfg p name cwd text)))))))"

subsection \<open>Commands\<close>

definition clear_ci :: "'w udpkg_io \<Rightarrow> ('w, bool) uact" where
  "clear_ci io =
     mbind (exec_log io (''rm -rf -- '' @ DPKGCIDIR)) (\<lambda>r.
       if r \<noteq> 0 then mret False else try_io (io_mkdir io DPKGCIDIR))"

fun unpack_loop :: "'w udpkg_io \<Rightarrow> udpkg_config \<Rightarrow> udpkg_opts \<Rightarrow> upkg_ptr list \<Rightarrow> ('w, int) uact" where
  "unpack_loop io cfg opts [] = mret 0"
| "unpack_loop io cfg opts (p # ps) =
     mbind (dpkg_unpackcontrol io cfg p) (\<lambda>_.
     mbind (dpkg_dounpack io cfg opts p) (\<lambda>r. if r \<noteq> 0 then mret r else unpack_loop io cfg opts ps))"

definition dpkg_unpack :: "'w udpkg_io \<Rightarrow> udpkg_config \<Rightarrow> udpkg_opts \<Rightarrow> upkg_ptr option \<Rightarrow> ('w, int) uact" where
  "dpkg_unpack io cfg opts pkgs =
     mbind (status_lock io) (\<lambda>_.
     mbind (read_status cfg) (\<lambda>tree.
     mbind (clear_ci io) (\<lambda>ok.
       if \<not> ok then mbind (status_unlock io) (\<lambda>_. mret 1)
       else mbind (packages_of pkgs) (\<lambda>ps.
            mbind (unpack_loop io cfg opts ps) (\<lambda>r.
            mbind (merge_status io cfg tree pkgs) (\<lambda>_.
            mbind (exec_log io (''rm -rf -- '' @ DPKGCIDIR)) (\<lambda>c.
            mbind (status_unlock io) (\<lambda>_. mret (if c \<noteq> 0 then 1 else r)))))))))"

text \<open>The control information of all packages; the flag says that each could be read.\<close>

fun control_loop :: "'w udpkg_io \<Rightarrow> udpkg_config \<Rightarrow> upkg_ptr list \<Rightarrow> bool \<Rightarrow> ('w, bool) uact" where
  "control_loop io cfg [] ok = mret ok"
| "control_loop io cfg (p # ps) ok = mbind (dpkg_unpackcontrol io cfg p) (\<lambda>r. control_loop io cfg ps (ok \<and> r = 0))"

fun install_loop :: "'w udpkg_io \<Rightarrow> udpkg_config \<Rightarrow> udpkg_opts \<Rightarrow> upkg_ptr list \<Rightarrow> ('w, unit) uact" where
  "install_loop io cfg opts [] = mret ()"
| "install_loop io cfg opts (p # ps) =
     mbind (upd_pkg p (want_status STATUS_WANTINSTALL)) (\<lambda>_.
     mbind (dpkg_doinstall io cfg opts p) (\<lambda>_. install_loop io cfg opts ps))"

definition resolve_order :: "udpkg_config \<Rightarrow> upkg_ptr option \<Rightarrow> upkg_ptr list \<Rightarrow> ('w, upkg_ptr option) uact" where
  "resolve_order cfg pkgs tree s =
     (if DODEPENDS cfg
      then run_bind (depends_resolve (u_mem s) pkgs tree) (\<lambda>(ordered, mem). Returns (ordered, s\<lparr>u_mem := mem\<rparr>))
      else Returns (pkgs, s))"

definition dpkg_install :: "'w udpkg_io \<Rightarrow> udpkg_config \<Rightarrow> udpkg_opts \<Rightarrow> upkg_ptr option \<Rightarrow> ('w, int) uact" where
  "dpkg_install io cfg opts pkgs =
     mbind (status_lock io) (\<lambda>_.
     mbind (read_status cfg) (\<lambda>tree.
     mbind (clear_ci io) (\<lambda>ok.
       if \<not> ok then mbind (status_unlock io) (\<lambda>_. mret 1)
       else mbind (packages_of pkgs) (\<lambda>ps.
            mbind (control_loop io cfg ps True) (\<lambda>ok.
            let pkgs = (if ok then pkgs else None)
            in mbind (resolve_order cfg pkgs tree) (\<lambda>ordered.
               mbind (packages_of ordered) (\<lambda>os.
               mbind (install_loop io cfg opts os) (\<lambda>_.
               mbind (if ordered \<noteq> None then merge_status io cfg tree pkgs else mret 0) (\<lambda>_.
               mbind (status_unlock io) (\<lambda>_. exec_log io (''rm -rf -- '' @ DPKGCIDIR)))))))))))"

text \<open>The file of a package that \<open>-f\<close> and \<open>-c\<close> show; without an argument the program exits.\<close>

definition show_member :: "'w udpkg_io \<Rightarrow> string \<Rightarrow> string \<Rightarrow> upkg_ptr option \<Rightarrow> ('w, int) uact" where
  "show_member io base tar pkg =
     (case pkg of
        None \<Rightarrow> (\<lambda>s. Died)
      | Some p \<Rightarrow> mread (\<lambda>s.
          let t = get_compression_type io p base s
          in if t = unknown_compression then mret 1
             else exec_log io (member_command (fmt_s (pt_file (upkg s p))) base t tar)))"

definition dpkg_fields :: "'w udpkg_io \<Rightarrow> upkg_ptr option \<Rightarrow> ('w, int) uact" where
  "dpkg_fields io pkg = show_member io control_member_base ''tar -xOf - ./control'' pkg"

definition dpkg_contents :: "'w udpkg_io \<Rightarrow> upkg_ptr option \<Rightarrow> ('w, int) uact" where
  "dpkg_contents io pkg = show_member io data_member_base ''tar t'' pkg"

text \<open>Removing the files of the list. The lines still have their newlines when they are looked up.\<close>

function remove_files :: "'w udpkg_io \<Rightarrow> stream \<Rightarrow> int \<Rightarrow> ('w, int) uact" where
  "remove_files io f r =
     (case stream_gets 1024 f of
        (None, f) \<Rightarrow> mret r
      | (Some buf, f) \<Rightarrow>
          if eof f then mret r
          else mread (\<lambda>s.
            if is_file s buf
            then mbind (exec_log io (cut (''rm -f -- '' @ buf))) (\<lambda>c. remove_files io f (if c \<noteq> 0 then 1 else r))
            else remove_files io f r))"
  by pat_completeness auto
termination
  by (relation "measure (\<lambda>(io, f, r). length (ahead f))") (auto dest!: stream_gets_shorter_any [OF sym])

declare remove_files.simps [simp del]

definition remove_package :: "'w udpkg_io \<Rightarrow> upkg_ptr \<Rightarrow> int \<Rightarrow> ('w, int) uact" where
  "remove_package io p r = mread (\<lambda>s.
     let name = pt_name (um_heap (u_mem s)) p
     in mbind (case u_files s (cut (INFODIR @ name @ ''.list'')) of
                 None \<Rightarrow> mret 1
               | Some text \<Rightarrow> remove_files io (fopen_r text) r) (\<lambda>r.
        mbind (if r = 0 then mbind (exec_log io (cut (''rm -f -- '' @ INFODIR @ name @ ''.*''))) (\<lambda>c. mret (if c \<noteq> 0 then 1 else r))
               else mret r) (\<lambda>r.
        mbind (upd_pkg p (\<lambda>x. or_status (if r = 0 then STATUS_STATUSNOTINSTALLED else STATUS_STATUSHALFINSTALLED)
                 (and_status STATUS_STATUSMASK (want_status STATUS_WANTDEINSTALL x)))) (\<lambda>_. mret r))))"

fun remove_loop :: "'w udpkg_io \<Rightarrow> upkg_ptr list \<Rightarrow> int \<Rightarrow> ('w, int) uact" where
  "remove_loop io [] r = mret r"
| "remove_loop io (p # ps) r = mbind (remove_package io p r) (\<lambda>r. remove_loop io ps r)"

definition dpkg_remove :: "'w udpkg_io \<Rightarrow> udpkg_config \<Rightarrow> upkg_ptr option \<Rightarrow> ('w, int) uact" where
  "dpkg_remove io cfg pkgs =
     (if \<not> DOREMOVE cfg then mret 1
      else mbind (status_lock io) (\<lambda>_.
           mbind (read_status cfg) (\<lambda>tree.
           mbind (packages_of pkgs) (\<lambda>ps.
           mbind (remove_loop io ps 0) (\<lambda>r.
           mbind (merge_status io cfg tree pkgs) (\<lambda>_.
           mbind (status_unlock io) (\<lambda>_. mret r)))))))"

subsection \<open>The program\<close>

text \<open>What \<open>getopt_long\<close> finds, in order; an unknown option is ignored.\<close>

datatype udpkg_option = Opt_install | Opt_remove | Opt_unpack | Opt_configure | Opt_print_architecture | Opt_print_os |
  Opt_fields | Opt_contents | Opt_force_configure | Opt_no_loadtemplate | Opt_unknown

definition first_pass :: "udpkg_option list \<Rightarrow> udpkg_opts" where
  "first_pass os = \<lparr>force_configure = Opt_force_configure \<in> set os, loadtemplate = Opt_no_loadtemplate \<notin> set os\<rparr>"

fun dispatch :: "'w udpkg_io \<Rightarrow> udpkg_config \<Rightarrow> udpkg_opts \<Rightarrow> upkg_ptr option \<Rightarrow> udpkg_option list \<Rightarrow> ('w, int) uact" where
  "dispatch io cfg opts pkgs [] = mret 0"
| "dispatch io cfg opts pkgs (opt # os) =
     (case opt of
        Opt_install \<Rightarrow> dpkg_install io cfg opts pkgs
      | Opt_remove \<Rightarrow> dpkg_remove io cfg pkgs
      | Opt_unpack \<Rightarrow> dpkg_unpack io cfg opts pkgs
      | Opt_configure \<Rightarrow> dpkg_configure io cfg opts pkgs
      | Opt_print_architecture \<Rightarrow> mret 0
      | Opt_print_os \<Rightarrow> mret 0
      | Opt_fields \<Rightarrow> dpkg_fields io pkgs
      | Opt_contents \<Rightarrow> dpkg_contents io pkgs
      | _ \<Rightarrow> dispatch io cfg opts pkgs os)"

text \<open>The arguments that are not options, each put in front of the list.\<close>

definition arg_package :: "string \<Rightarrow> string \<Rightarrow> upkg_ptr option \<Rightarrow> package_t" where
  "arg_package cwd arg pkgs = zero_pkg\<lparr>pt_file := Some (if peek arg = CHR ''/'' then arg else cwd @ ''/'' @ arg),
     pt_package := Some arg, pt_next := pkgs\<rparr>"

fun args_loop :: "string \<Rightarrow> string list \<Rightarrow> upkg_ptr option \<times> udpkg_mem \<Rightarrow> upkg_ptr option \<times> udpkg_mem" where
  "args_loop cwd [] st = st"
| "args_loop cwd (arg # args) (pkgs, mem) =
     (if peek arg = CHR ''-'' then args_loop cwd args (pkgs, mem)
      else case umalloc (arg_package cwd arg pkgs) mem of (p, mem) \<Rightarrow> args_loop cwd args (Some p, mem))"

text \<open>\<open>getopt\<close> is \<open>getopt_long\<close> on the arguments.\<close>

definition udpkg_main ::
  "'w udpkg_io \<Rightarrow> udpkg_config \<Rightarrow> (string list \<Rightarrow> udpkg_option list) \<Rightarrow> string list \<Rightarrow> files \<Rightarrow> 'w \<Rightarrow> (int \<times> 'w udpkg) run" where
  "udpkg_main io cfg getopt args fs w =
     (case args_loop (io_getcwd io w) args (None, \<lparr>um_heap = (\<lambda>_. zero_pkg), um_next = 0\<rparr>) of
        (pkgs, mem) \<Rightarrow>
          dispatch io cfg (first_pass (getopt args)) pkgs (getopt args) \<lparr>u_mem = mem, u_locked = False, u_files = fs, u_world = w\<rparr>)"

section \<open>Configuring a package\<close>

text \<open>The masks replace one word of a status and keep the others.\<close>

lemma mask_bits: "bit STATUS_STATUSMASK n \<longleftrightarrow> n < 32 \<and> \<not> (9 \<le> n \<and> n < 17)"
  unfolding STATUS_STATUSMASK_def bit_not_iff bit_or_iff push_bit_of_1 bit_exp_iff by auto

lemma status_state:
  assumes "w < 5" "f < 4" "st < 8" "k < 8"
  shows "status_of w f st AND STATUS_STATUSMASK OR push_bit (9 + k) 1 = status_of w f k"
proof (rule bit_eqI)
  fix n assume "possible_bit TYPE(32 word) n"
  then have "n < 32" by simp
  then show "bit (status_of w f st AND STATUS_STATUSMASK OR push_bit (9 + k) 1) n = bit (status_of w f k) n"
    using assms unfolding push_bit_of_1 by (auto simp: bit_or_iff bit_and_iff bit_status_of mask_bits bit_exp_iff)
qed

text \<open>The state of a status: half-configured or installed.\<close>

definition with_state :: "nat \<Rightarrow> u32 \<Rightarrow> u32" where
  "with_state k x = x AND STATUS_STATUSMASK OR push_bit (9 + k) 1"

lemma with_state_valid: "valid_status x \<Longrightarrow> k < 8 \<Longrightarrow> valid_status (with_state k x)"
  unfolding valid_status_def with_state_def by (metis status_state)

section \<open>The memory that reading leaves alone\<close>

definition status_grows :: "udpkg_mem \<Rightarrow> udpkg_mem \<Rightarrow> bool" where
  "status_grows m m' \<longleftrightarrow> um_next m \<le> um_next m' \<and> (\<forall>q < um_next m. um_heap m' q = um_heap m q)"

lemma status_grows_trans: "status_grows a b \<Longrightarrow> status_grows b c \<Longrightarrow> status_grows a c"
  by (auto simp: status_grows_def)

lemma status_grows_insert: "status_grows (snd st) (snd (status_insert m st))"
  by (cases st) (auto simp: status_grows_def status_insert_def umalloc_def Let_def)

lemma status_loop_grows: "status_loop cfg f st = Returns st' \<Longrightarrow> status_grows (snd st) (snd st')"
proof (induction cfg f st rule: status_loop.induct)
  case (1 cfg f st)
  show ?case
  proof (cases "eof f")
    case True
    then show ?thesis using 1(2) by (simp add: status_loop.simps [of cfg f] status_grows_def)
  next
    case False
    then obtain m g where "control_read cfg f zero_pkg = Returns (m, g)" "status_loop cfg g (status_insert m st) = Returns st'"
      using 1(2) by (auto simp: status_loop.simps [of cfg f] run_bind_Returns)
    then show ?thesis using 1(1) [OF False, of "(m, g)" m g] status_grows_insert status_grows_trans by blast
  qed
qed

lemma status_grows_pkgs:
  assumes "status_grows m m'" "pkgs_list m pkgs = Returns ps" "\<forall>p \<in> set ps. p < um_next m"
  shows "pkgs_list m' pkgs = Returns ps"
  using assms linked_frame [of ps "um_heap m'" "um_heap m" pkgs] by (auto simp: pkgs_list_def walk_linked status_grows_def)

section \<open>One package\<close>

text \<open>
  Scripts leave the status file alone and have a wait status; locking and writing succeed.
\<close>

definition calm :: "'w udpkg_io \<Rightarrow> bool" where
  "calm io \<longleftrightarrow> (\<forall>cmd fs w. fst (snd (io_exec io cmd (fs, w))) STATUSFILE = fs STATUSFILE) \<and>
     (\<forall>cmd fs w. fst (io_exec io cmd (fs, w)) = - 1 \<or>
        0 \<le> fst (io_exec io cmd (fs, w)) \<and> fst (io_exec io cmd (fs, w)) < 2 ^ 16 \<and> fst (io_exec io cmd (fs, w)) \<noteq> 128) \<and>
     (\<forall>w. fst (io_lock io w)) \<and> (\<forall>w. fst (io_unlock io w)) \<and> (\<forall>path w. io_writable io path w)"

lemma calm_io: "calm io \<Longrightarrow> fst (io_lock io w)" "calm io \<Longrightarrow> fst (io_unlock io w)" "calm io \<Longrightarrow> io_writable io path w"
  unfolding calm_def by blast+

definition same_but_world :: "'w udpkg \<Rightarrow> 'w udpkg \<Rightarrow> bool" where
  "same_but_world s s' \<longleftrightarrow> u_mem s' = u_mem s \<and> u_locked s' = u_locked s \<and> u_files s' STATUSFILE = u_files s STATUSFILE"

lemma run_script_calm:
  assumes "calm io"
  obtains r s' where "run_script io path s = Returns (r, s')" "same_but_world s s'" "r \<noteq> 0 \<longrightarrow> di_exec_mangle_status r \<noteq> 0"
proof (cases "is_file s path")
  case True
  obtain r fs w where e: "io_exec io (script_command path) (u_files s, u_world s) = (r, fs, w)" by (metis prod_cases3)
  have "fs STATUSFILE = u_files s STATUSFILE" "r = - 1 \<or> 0 \<le> r \<and> r < 2 ^ 16 \<and> r \<noteq> 128"
    using assms e unfolding calm_def by (metis fst_conv snd_conv)+
  moreover have "di_exec_mangle_status (- 1) \<noteq> 0" by code_simp
  ultimately have "r \<noteq> 0 \<longrightarrow> di_exec_mangle_status r \<noteq> 0" using mangle_zero by auto
  moreover have "run_script io path s = Returns (r, s\<lparr>u_files := fs, u_world := w\<rparr>)"
    using True e by (simp add: run_script_def mread_def exec_log_def)
  ultimately show thesis using that \<open>fs STATUSFILE = u_files s STATUSFILE\<close> by (simp add: same_but_world_def)
next
  case False
  then show thesis using that [of 0 s] by (simp add: run_script_def mread_def mret_def same_but_world_def)
qed

definition set_state :: "nat \<Rightarrow> upkg_ptr \<Rightarrow> udpkg_mem \<Rightarrow> udpkg_mem" where
  "set_state k q mem = mem\<lparr>um_heap := (um_heap mem)(q := (um_heap mem q)\<lparr>pt_status := with_state k (pt_status (um_heap mem q))\<rparr>)\<rparr>"

text \<open>Configuring by force: installed (3) after success, half-configured (2) after a failure.\<close>

lemma doconfigure_calm:
  assumes "calm io" "force_configure opts"
  obtains r s' where "dpkg_doconfigure io opts q s = Returns (r, s')" "u_mem s' = set_state (if r = 0 then 3 else 2) q (u_mem s)"
    "u_locked s' = u_locked s" "u_files s' STATUSFILE = u_files s STATUSFILE"
proof -
  define name where "name = pt_name (um_heap (u_mem s)) q"
  define s1 where "s1 = s\<lparr>u_mem := (u_mem s)\<lparr>um_heap := (um_heap (u_mem s))(q := and_status STATUS_STATUSMASK (upkg s q))\<rparr>\<rparr>"
  have set: "\<exists>s'. upd_pkg q (or_status m) t = Returns ((), s') \<and> u_mem s' = set_state k q (u_mem s) \<and> u_locked s' = u_locked s \<and>
      u_files s' STATUSFILE = u_files s STATUSFILE" if "same_but_world s1 t" "m = push_bit (9 + k) 1" for t m k
    using that by (simp add: upd_pkg_def mupd_def upkg_def same_but_world_def s1_def or_status_def and_status_def set_state_def with_state_def)
  have states: "STATUS_STATUSHALFCONFIGURED = push_bit (9 + 2) 1" "STATUS_STATUSINSTALLED = push_bit (9 + 3) 1"
    by (simp_all add: STATUS_STATUSHALFCONFIGURED_def STATUS_STATUSINSTALLED_def)
  obtain a t where t: "run_script io (script name ''.config'') s1 = Returns (a, t)" "same_but_world s1 t"
    using run_script_calm [OF assms(1)] by metis
  obtain b u where u: "run_script io (script name ''.postinst'') t = Returns (b, u)" "same_but_world t u" "b \<noteq> 0 \<longrightarrow> di_exec_mangle_status b \<noteq> 0"
    using run_script_calm [OF assms(1)] by metis
  have u1: "same_but_world s1 u" using t(2) u(2) by (simp add: same_but_world_def)
  have masked: "upd_pkg q (and_status STATUS_STATUSMASK) s = Returns ((), s1)" by (simp add: upd_pkg_def mupd_def s1_def)
  have conf: "dpkg_doconfigure io opts q s =
      (if a \<noteq> 0 then mbind (upd_pkg q (or_status STATUS_STATUSHALFCONFIGURED)) (\<lambda>_. mret 1) t
       else if b \<noteq> 0 then mbind (upd_pkg q (or_status STATUS_STATUSHALFCONFIGURED)) (\<lambda>_. mret (di_exec_mangle_status b)) u
       else mbind (upd_pkg q (or_status STATUS_STATUSINSTALLED)) (\<lambda>_. mret 0) u)"
    using assms(2) unfolding dpkg_doconfigure_def mread_def Let_def name_def [symmetric]
    by (simp add: mbind_step masked t(1) u(1))
  consider "a \<noteq> 0" | "a = 0" "b \<noteq> 0" | "a = 0" "b = 0" by blast
  then show thesis
  proof cases
    case 1
    then show thesis using conf set [OF t(2) states(1)] that by (force simp: mbind_def mret_def)
  next
    case 2
    then show thesis using conf set [OF u1 states(1)] u(3) that by (force simp: mbind_def mret_def)
  next
    case 3
    then show thesis using conf set [OF u1 states(2)] that by (force simp: mbind_def mret_def)
  qed
qed

lemma set_state_known:
  assumes "tfind (pt_name (um_heap mem)) n tree = Some q"
  shows "known_status (tree, set_state k q mem) m = (if m = n then map_option (with_state k) (known_status (tree, mem) n) else known_status (tree, mem) m)"
proof -
  have name: "pt_name (um_heap (set_state k q mem)) = pt_name (um_heap mem)" by (simp add: set_state_def pt_name_def fun_eq_iff)
  show ?thesis
  proof (cases "tfind (pt_name (um_heap mem)) m tree")
    case (Some r)
    have "r = q \<longleftrightarrow> m = n"
    proof
      assume "r = q"
      then show "m = n" using tfind_Some [OF Some] tfind_Some [OF assms] by simp
    next
      assume "m = n"
      then show "r = q" using Some assms by simp
    qed
    moreover have "pt_status (um_heap (set_state k q mem) r) = (if r = q then with_state k (pt_status (um_heap mem q)) else pt_status (um_heap mem r))"
      by (simp add: set_state_def)
    ultimately show ?thesis using assms Some by (simp add: known_status_def name)
  next
    case None
    then have "m \<noteq> n" using assms by auto
    with None show ?thesis by (simp add: known_status_def name)
  qed
qed

lemma status_locks:
  assumes "calm io"
  obtains s' where "status_lock io s = Returns ((), s')" "u_mem s' = u_mem s" "u_files s' = u_files s" "u_locked s'"
proof -
  obtain w where "io_lock io (u_world s) = (True, w)" using calm_io(1) [OF assms] by (metis prod.collapse)
  then have "try_io (io_lock io) s = Returns (True, s\<lparr>u_world := w\<rparr>)" by (simp add: try_io_def)
  then have "status_lock io s = Returns ((), s\<lparr>u_world := w, u_locked := True\<rparr>)" by (simp add: status_lock_def mbind_step mupd_def)
  then show thesis by (rule that) simp_all
qed

lemma status_unlocks:
  assumes "calm io" "u_locked s"
  obtains s' where "status_unlock io s = Returns ((), s')" "u_mem s' = u_mem s" "u_files s' = u_files s" "\<not> u_locked s'"
proof -
  obtain w where "io_unlock io (u_world s) = (True, w)" using calm_io(2) [OF assms(1)] by (metis prod.collapse)
  then have "try_io (io_unlock io) s = Returns (True, s\<lparr>u_world := w\<rparr>)" by (simp add: try_io_def)
  then have "status_unlock io s = Returns ((), s\<lparr>u_world := w, u_locked := False\<rparr>)"
    using assms(2) by (simp add: status_unlock_def mread_def mbind_step mupd_def)
  then show thesis by (rule that) simp_all
qed

lemma merge_status_calm:
  assumes "calm io" "u_files s STATUSFILE = Some old" "status_merge cfg (u_mem s) tree pkgs old = Returns new"
  obtains s' where "merge_status io cfg tree pkgs s = Returns (0, s')" "u_files s' STATUSFILE = Some new" "u_locked s' = u_locked s"
proof -
  have ne: "STATUSFILE \<noteq> STATUSFILE @ ''.new''" "STATUSFILE \<noteq> STATUSFILE @ ''.bak''" "STATUSFILE @ ''.new'' \<noteq> STATUSFILE @ ''.bak''" by simp_all
  let ?fs = "(u_files s)(STATUSFILE @ ''.new'' := None, STATUSFILE @ ''.bak'' := Some old, STATUSFILE := Some new)"
  have "merge_status io cfg tree pkgs s = Returns (0, s\<lparr>u_files := ?fs\<rparr>)"
    using assms(2,3) ne calm_io(3) [OF assms(1)]
    by (simp add: merge_status_def mread_def mbind_def mupd_def rename_file_def mret_def fun_upd_twist)
  then show thesis by (rule that) simp_all
qed


text \<open>The package \<open>b\<close> of the example file, with scripts that succeed.\<close>

definition calm_io_example :: "unit udpkg_io" where
  "calm_io_example = \<lparr>io_exec = (\<lambda>cmd (fs, w). (0, fs, w)), io_popen = (\<lambda>cmd _. None), io_mkdir = (\<lambda>d w. (True, w)), io_chdir = (\<lambda>d w. (True, w)),
     io_getcwd = (\<lambda>w. ''/''), io_rename_dir = (\<lambda>a b (fs, w). (True, fs, w)), io_copy = (\<lambda>a b _. Copied), io_writable = (\<lambda>path w. True),
     io_lock = (\<lambda>w. (True, w)), io_unlock = (\<lambda>w. (True, w))\<rparr>"

definition example_udpkg :: "unit udpkg" where
  "example_udpkg = \<lparr>u_mem = \<lparr>um_heap = (\<lambda>_. zero_pkg)(0 := arg_package ''/'' ''b'' None), um_next = 1\<rparr>, u_locked = False,
     u_files = [STATUSFILE \<mapsto> status_text example_stanzas], u_world = ()\<rparr>"


section \<open>Removing a package\<close>

text \<open>
  The lines of the list of files are looked up with their newlines. As no file has a name that ends in
  a newline, nothing is ever removed, and the program reports success.
\<close>

lemma remove_files_nothing:
  assumes "\<forall>l \<in> set ls. NL \<notin> set l \<and> length l < 1023" "\<forall>l \<in> set ls. u_files s (l @ [NL]) = None"
  shows "remove_files io (at (join_lines ls)) r s = Returns (r, s)"
  using assms
proof (induction ls)
  case Nil
  then show ?case by (subst remove_files.simps) (simp add: stream_gets_def mret_def)
next
  case (Cons l ls)
  have "stream_gets 1024 (at (l @ NL # join_lines ls)) = (Some (l @ [NL]), at (join_lines ls))"
    using Cons.prems(1) by (intro gets_line_any) auto
  then show ?case using Cons by (subst remove_files.simps) (simp add: mread_def is_file_def)
qed

end
