(* ===== verification/Spec2Isabelle.thy ===== *)
theory Spec2Isabelle
  imports S390_Zfcp Anna DI_StatusFile Deb_TemplateFile Deb_Session Deb_Stack Main_Menu_Run Udpkg
begin

text \<open>
  \<^bold>\<open>The core of the Debian installer.\<close>

  The installer is a small system that installs its own components while it runs. Four programs
  and a library carry its logic, and this development models them (paths are below
  \<^verbatim>\<open>src/packages\<close>):

  \<^item> \<^verbatim>\<open>libdebian-installer\<close>: hash tables, search trees, package versions, the container of packages with
    its dependency graph, the dependency resolver, and the reader and writer of control files.
  \<^item> \<^verbatim>\<open>anna\<close>: reads the list of available components with that library, selects those to install
    with their dependencies, and has each one retrieved, checked, unpacked and configured.
  \<^item> \<^verbatim>\<open>udpkg\<close>: unpacks and configures a component and keeps the status file.
  \<^item> \<^verbatim>\<open>main-menu\<close>: reads the status file with the library, shows the menu in dependency order, and
    configures an item after what it depends on by running \<^verbatim>\<open>udpkg --configure\<close>.
  \<^item> \<^verbatim>\<open>cdebconf\<close>: holds the templates and questions of all components and answers the commands of
    the debconf protocol that the other programs send.

  \<^bold>\<open>Conventions.\<close> A struct is a \<^theory_text>\<open>record\<close>, an enumeration a \<^theory_text>\<open>datatype\<close>. Objects that are shared
  through pointers are in heaps, maps from addresses to records, so that aliasing is visible;
  strings are lists of bytes up to the terminating NUL, with the size of the buffer beside them
  where the code depends on it. Sized integers are words. A run of stateful code is \<open>Returns\<close>,
  \<open>Hangs\<close> or \<open>Died\<close> (\<open>DI_Prelude\<close>): a loop that does not end and a read through a null pointer are
  outcomes of their own. What other programs, the user and the operating system do is an argument: a
  record of functions on a world of arbitrary type (\<open>menu_io\<close>, \<open>udpkg_io\<close>, \<open>debconf_io\<close>), or the
  list of their answers. Messages and reference counts are left out.

  \<^bold>\<open>Theories.\<close>

  \<^item> \<open>DI_Prelude\<close>: the routines of the C library that the sources use, comparison functions as the
    locale \<open>compare_func\<close>, the type \<open>run\<close>. \<open>C_Search\<close>: the trees of \<^verbatim>\<open><search.h>\<close>. \<open>C_Actions\<close>: the
    monad of stateful runs and the predicate \<open>keeps\<close> for what an action preserves. \<open>DI_Exec\<close>: exit
    statuses (\<^verbatim>\<open>exec.c\<close>).
  \<^item> \<open>DI_String\<close>, \<open>DI_Hash\<close>, \<open>DI_Tree\<close>, \<open>DI_Version\<close> (\<^verbatim>\<open>string.c\<close>, \<^verbatim>\<open>hash.c\<close>, \<^verbatim>\<open>tree.c\<close>, \<^verbatim>\<open>package.c\<close>): the hash
    table refines a finite map (locales \<open>hash_key\<close> and \<open>key_store\<close>), the tree stays sorted and
    balanced, versions are compared by a key.
  \<^item> \<open>DI_Packages\<close>, \<open>DI_Resolver\<close> (\<^verbatim>\<open>packages.c\<close>): the container, and the resolver as the code has it,
    with its marks in the bits of a word; the locales \<open>provide_check\<close> and \<open>collecting_check\<close> state what
    a search does for any of the callbacks, and are interpreted for each of them, that of anna
    included. Recursion takes fuel: \<open>card P + 3\<close> for a finite set \<open>P\<close> of packages is enough.
  \<^item> \<open>DI_Rfc822\<close>, \<open>DI_PackageParser\<close>, \<open>DI_StatusFile\<close> (\<^verbatim>\<open>parser_rfc822.c\<close>, \<^verbatim>\<open>package_parser.c\<close>,
    \<^verbatim>\<open>packages_parser.c\<close>, \<^verbatim>\<open>system/packages.c\<close>): control files and their fields; the locale
    \<open>field_readers\<close> is what a reader of fields promises, and the round trip of the status file rests
    on it.
  \<^item> \<open>Anna_Select\<close>, \<open>Anna\<close> (\<^verbatim>\<open>anna.c\<close>, \<^verbatim>\<open>util.c\<close>): the selection and the installation.
  \<^item> \<open>Main_Menu\<close>, \<open>Main_Menu_Order\<close>, \<open>Main_Menu_Run\<close> (\<^verbatim>\<open>main-menu.c\<close>): the definitions, the recursive
    configuration (fuel \<open>2 * nat (1001 - depth) + 2\<close> is enough, by the counter of the code), and the
    menu with its main loop. The locale \<open>config_step\<close> is the contract of one call.
  \<^item> \<open>Udpkg_Status\<close>, \<open>Udpkg_Merge\<close>, \<open>Udpkg_Depends\<close>, \<open>Udpkg\<close> (\<^verbatim>\<open>status.c\<close>, \<^verbatim>\<open>depends.c\<close>, \<^verbatim>\<open>udpkg.c\<close>): the
    status file and its merge, the dependencies and their sort, the commands. Walks along linked
    packages are bounded by the number of packages.
  \<^item> \<open>Deb_Strutl\<close>, \<open>Deb_Template\<close>, \<open>Deb_TemplateFile\<close>, \<open>Deb_Question\<close>, \<open>Deb_Database\<close>, \<open>Deb_Frontend\<close>,
    \<open>Deb_Commands\<close>, \<open>Deb_Protocol\<close> (\<^verbatim>\<open>cdebconf/src\<close>): strings, templates, questions, the databases
    (locale \<open>tag_store\<close>), the lists of a frontend, all commands and whole sessions.
  \<^item> \<open>Deb_Rfc822\<close>, \<open>Deb_Files\<close>, \<open>Deb_Saved\<close>, \<open>Deb_Persist\<close> (\<^verbatim>\<open>rfc822.c\<close>, \<^verbatim>\<open>modules/db/rfc822db/rfc822db.c\<close>): the
    stanzas and the files of the databases. A disk remembers the states it went through, and whether a
    system call succeeds is an argument.
  \<^item> \<open>Deb_Session\<close> (\<^verbatim>\<open>confmodule.c\<close>, \<^verbatim>\<open>debconfclient.c\<close>): the server reads commands in pieces of any size and
    the client library reads its replies.
  \<^item> \<open>Deb_Config\<close>, \<open>Deb_ConfigFile\<close>, \<open>Deb_Stack\<close> (\<^verbatim>\<open>configuration.c\<close>, \<^verbatim>\<open>database.c\<close>,
    \<^verbatim>\<open>modules/db/stack/stack.c\<close>): the configuration file and its tree, the opening of databases, and
    databases that are stacks of others (locale \<open>db_members\<close>, interpreted for the stack of the installer). The loop
    that stores needs one round more than there are members.
  \<^item> \<open>S390_Zfcp\<close>: the tree of host adapters of \<^verbatim>\<open>s390-zfcp\<close>, a client of the search tree.

  \<^bold>\<open>What is shown.\<close> Of the library: lookup returns the last entry inserted through every resize;
  versions are compared by a total preorder; what the resolver returns is in dependency order and exactly
  what can be resolved; a status file that is written is read back with the same packages. Of anna: the
  selection is closed under dependencies, and nothing is unpacked that was not checked. Of
  main-menu: it configures in dependency order and always returns, cycles included. Of udpkg: the
  status file after a configuration says what happened. Of cdebconf: every
  template and both databases stay well-formed under all commands, a value that is set is got back,
  and the errors of commands change nothing; a client gets the reply of the server however the line is
  cut into pieces; a database that is saved is loaded again with all its contents, a save never leaves a
  part of a file, and any file at all gives a well-formed database; reading a configuration file executes its
  statements, and with the configuration of the installer passwords are kept in a database of their own.
  Theorems whose statement is a defect (a search that never returns, a flag that is not saved, a failed save that is
  reported as a success, a question that links to itself) record what the code does at these places.

  \<^bold>\<open>Not modelled.\<close> Processes, pipes, signals, terminals and the frontends that draw on them; loading
  of shared objects; memory management beyond the heaps; the storage drivers of cdebconf that are
  not part of the installer image. The remaining components of the installer are shell scripts, or
  programs (\<^verbatim>\<open>netcfg\<close>, \<^verbatim>\<open>partman-base\<close>, \<^verbatim>\<open>kbd-chooser\<close>, \<^verbatim>\<open>choose-mirror\<close>, the s390 configuration) whose
  content is calls of the kernel, of libparted and of debconf. \<^verbatim>\<open>busybox\<close> and the compression code of
  \<^verbatim>\<open>win32-loader\<close> are third-party programs in the tree.
\<close>

end
